(* ===== verification/Prelude.thy ===== *)
theory Prelude
  imports Main "HOL-Library.Code_Target_Numeral"
begin

text \<open>
  Shared vocabulary of the development: Rust strings and the string operations of the
  standard library that the modelled crates call, Rust's saturating arithmetic, and generic
  lemmas on lists and options.

  A Rust \<open>&str\<close> or \<open>String\<close> is a list of Unicode scalar values (\<open>ustr\<close>), because the
  modelled code iterates over \<open>chars()\<close>, trims Unicode white space and compares code
  points. A literal of the source, always ASCII here, is written \<open>str ''...''\<close>.
\<close>

section \<open>Strings\<close>

type_synonym uchar = nat
type_synonym ustr = "uchar list"

definition str :: "string \<Rightarrow> ustr" where
  "str s = map of_char s"

named_theorems str_simps \<open>computing with literals without unfolding them\<close>

text \<open>Scalars the code compares with.\<close>

definition chr :: "char \<Rightarrow> uchar" where
  "chr c = of_char c"

definition newline :: uchar where "newline = 10"
definition carriage_return :: uchar where "carriage_return = 13"

text \<open>\<open>char::is_whitespace\<close>: the Unicode property White_Space.\<close>

definition is_whitespace :: "uchar \<Rightarrow> bool" where
  "is_whitespace c \<longleftrightarrow>
     (9 \<le> c \<and> c \<le> 13) \<or> c = 32 \<or> c = 133 \<or> c = 160 \<or> c = 5760 \<or> (8192 \<le> c \<and> c \<le> 8202)
     \<or> c = 8232 \<or> c = 8233 \<or> c = 8239 \<or> c = 8287 \<or> c = 12288"

text \<open>\<open>str::trim_start\<close>, \<open>str::trim_end\<close> and \<open>str::trim\<close>.\<close>

definition trim_start :: "ustr \<Rightarrow> ustr" where
  "trim_start s = dropWhile is_whitespace s"

definition trim_end :: "ustr \<Rightarrow> ustr" where
  "trim_end s = rev (dropWhile is_whitespace (rev s))"

definition trim :: "ustr \<Rightarrow> ustr" where
  "trim s = trim_end (trim_start s)"

text \<open>\<open>strip_prefix\<close>, \<open>starts_with\<close>, \<open>strip_suffix\<close> and \<open>ends_with\<close>.\<close>

fun strip_prefix :: "'a list \<Rightarrow> 'a list \<Rightarrow> 'a list option" where
  "strip_prefix [] s = Some s"
| "strip_prefix (p # ps) [] = None"
| "strip_prefix (p # ps) (c # cs) = (if p = c then strip_prefix ps cs else None)"

definition starts_with :: "'a list \<Rightarrow> 'a list \<Rightarrow> bool" where
  "starts_with p s \<longleftrightarrow> strip_prefix p s \<noteq> None"

definition strip_suffix :: "'a list \<Rightarrow> 'a list \<Rightarrow> 'a list option" where
  "strip_suffix q s = map_option rev (strip_prefix (rev q) (rev s))"

definition ends_with :: "'a list \<Rightarrow> 'a list \<Rightarrow> bool" where
  "ends_with q s \<longleftrightarrow> strip_suffix q s \<noteq> None"

text \<open>\<open>str::split(char)\<close>: always at least one piece.\<close>

fun split_on :: "'a \<Rightarrow> 'a list \<Rightarrow> 'a list list" where
  "split_on d [] = [[]]"
| "split_on d (c # cs) =
     (if c = d then [] # split_on d cs
      else (case split_on d cs of [] \<Rightarrow> [[c]] | p # ps \<Rightarrow> (c # p) # ps))"

text \<open>\<open>slice::join(sep)\<close> for a one-character separator.\<close>

fun join_with :: "'a list \<Rightarrow> 'a list list \<Rightarrow> 'a list" where
  "join_with sep [] = []"
| "join_with sep [p] = p"
| "join_with sep (p # ps) = p @ sep @ join_with sep ps"

text \<open>
  \<open>str::lines\<close>: the pieces between newlines, a final empty piece dropped, and one
  carriage return dropped from a piece that a newline ended.
\<close>

definition strip_cr :: "ustr \<Rightarrow> ustr" where
  "strip_cr s = (case strip_suffix [carriage_return] s of Some r \<Rightarrow> r | None \<Rightarrow> s)"

definition lines :: "ustr \<Rightarrow> ustr list" where
  "lines s =
     (let ps = split_on newline s in
      map strip_cr (butlast ps) @ (if last ps = [] then [] else [last ps]))"

definition contains_char :: "uchar \<Rightarrow> ustr \<Rightarrow> bool" where
  "contains_char c s \<longleftrightarrow> c \<in> set s"

fun contains_str :: "'a list \<Rightarrow> 'a list \<Rightarrow> bool" where
  "contains_str p [] \<longleftrightarrow> p = []"
| "contains_str p (c # cs) \<longleftrightarrow> starts_with p (c # cs) \<or> contains_str p cs"

text \<open>\<open>is_ascii_digit\<close> and \<open>to_ascii_lowercase\<close>.\<close>

definition is_ascii_digit :: "uchar \<Rightarrow> bool" where
  "is_ascii_digit c \<longleftrightarrow> 48 \<le> c \<and> c \<le> 57"

definition ascii_lower :: "uchar \<Rightarrow> uchar" where
  "ascii_lower c = (if 65 \<le> c \<and> c \<le> 90 then c + 32 else c)"

definition trim_end_matches :: "uchar \<Rightarrow> ustr \<Rightarrow> ustr" where
  "trim_end_matches c s = rev (dropWhile (\<lambda>x. x = c) (rev s))"

definition to_ascii_lowercase :: "ustr \<Rightarrow> ustr" where
  "to_ascii_lowercase s = map ascii_lower s"

definition eq_ignore_ascii_case :: "ustr \<Rightarrow> ustr \<Rightarrow> bool" where
  "eq_ignore_ascii_case a b \<longleftrightarrow> to_ascii_lowercase a = to_ascii_lowercase b"

text \<open>Decimal rendering of an unsigned integer, as \<open>format!("{n}")\<close> does.\<close>

fun show_nat :: "nat \<Rightarrow> ustr" where
  "show_nat n = (if n < 10 then [48 + n] else show_nat (n div 10) @ [48 + n mod 10])"

declare show_nat.simps [simp del]

section \<open>Results that may panic\<close>

text \<open>
  A Rust function that returns \<open>Result\<close> and indexes a slice has three outcomes. The
  \<open>?\<close> operator is \<open>obind\<close>: it stops at the first error, and at a panic.
\<close>

datatype ('a, 'e) outcome = Ok 'a | Err 'e | Panic

fun obind :: "('a, 'e) outcome \<Rightarrow> ('a \<Rightarrow> ('b, 'e) outcome) \<Rightarrow> ('b, 'e) outcome" where
  "obind (Ok a) f = f a"
| "obind (Err e) f = Err e"
| "obind Panic f = Panic"

text \<open>\<open>collect::<Result<Vec<_>, _>>()\<close> of a mapped iterator: the first error wins.\<close>

fun omap :: "('a \<Rightarrow> ('b, 'e) outcome) \<Rightarrow> 'a list \<Rightarrow> ('b list, 'e) outcome" where
  "omap f [] = Ok []"
| "omap f (x # xs) = obind (f x) (\<lambda>y. obind (omap f xs) (\<lambda>ys. Ok (y # ys)))"

text \<open>\<open>&xs[i..]\<close>, \<open>&xs[i..j]\<close> and \<open>xs[i]\<close>.\<close>

definition slice_from :: "nat \<Rightarrow> 'a list \<Rightarrow> ('a list, 'e) outcome" where
  "slice_from i xs = (if i \<le> length xs then Ok (drop i xs) else Panic)"

definition slice_range :: "nat \<Rightarrow> nat \<Rightarrow> 'a list \<Rightarrow> ('a list, 'e) outcome" where
  "slice_range i j xs =
     (if i \<le> j \<and> j \<le> length xs then Ok (take (j - i) (drop i xs)) else Panic)"

text \<open>Unsigned subtraction; underflow aborts (or wraps to an index no slice has).\<close>

definition usize_sub :: "nat \<Rightarrow> nat \<Rightarrow> (nat, 'e) outcome" where
  "usize_sub a b = (if b \<le> a then Ok (a - b) else Panic)"

section \<open>Saturating arithmetic on usize\<close>

definition usize_max :: nat where
  "usize_max = 2 ^ 64 - 1"

definition saturating_add :: "nat \<Rightarrow> nat \<Rightarrow> nat" where
  "saturating_add a b = min (a + b) usize_max"

section \<open>Vectors\<close>

text \<open>\<open>Vec::insert(i, x)\<close> panics when \<open>i > len\<close> (\<open>None\<close>); \<open>Vec::remove(i)\<close> when \<open>i >= len\<close>.\<close>

definition vec_insert :: "nat \<Rightarrow> 'a \<Rightarrow> 'a list \<Rightarrow> 'a list option" where
  "vec_insert i x xs = (if i \<le> length xs then Some (take i xs @ x # drop i xs) else None)"

definition vec_remove :: "nat \<Rightarrow> 'a list \<Rightarrow> 'a list option" where
  "vec_remove i xs = (if i < length xs then Some (take i xs @ drop (Suc i) xs) else None)"

text \<open>\<open>slice::get(i)\<close> and \<open>slice::last()\<close>.\<close>

definition vec_get :: "'a list \<Rightarrow> nat \<Rightarrow> 'a option" where
  "vec_get xs i = (if i < length xs then Some (xs ! i) else None)"

definition last_opt :: "'a list \<Rightarrow> 'a option" where
  "last_opt xs = (if xs = [] then None else Some (last xs))"

text \<open>\<open>iter().position(p)\<close> and removing the first element that satisfies a predicate.\<close>

fun position :: "('a \<Rightarrow> bool) \<Rightarrow> 'a list \<Rightarrow> nat option" where
  "position p [] = None"
| "position p (x # xs) = (if p x then Some 0 else map_option Suc (position p xs))"

section \<open>Lemmas on outcomes\<close>

lemma obind_cong [fundef_cong]:
  "x = y \<Longrightarrow> (\<And>a. y = Ok a \<Longrightarrow> f a = g a) \<Longrightarrow> obind x f = obind y g"
  by (cases y) auto

lemma obind_eq_Ok: "obind x f = Ok b \<longleftrightarrow> (\<exists>a. x = Ok a \<and> f a = Ok b)"
  by (cases x) auto

lemma obind_eq_Panic: "obind x f = Panic \<longleftrightarrow> x = Panic \<or> (\<exists>a. x = Ok a \<and> f a = Panic)"
  by (cases x) auto

lemma obind_eq_Err: "obind x f = Err e \<longleftrightarrow> x = Err e \<or> (\<exists>a. x = Ok a \<and> f a = Err e)"
  by (cases x) auto

lemmas obind_iffs = obind_eq_Ok obind_eq_Panic obind_eq_Err

lemma omap_cong [fundef_cong]:
  "xs = ys \<Longrightarrow> (\<And>x. x \<in> set ys \<Longrightarrow> f x = g x) \<Longrightarrow> omap f xs = omap g ys"
  by (induction ys arbitrary: xs) auto

lemma omap_eq_Ok: "omap f xs = Ok ys \<longleftrightarrow> list_all2 (\<lambda>x y. f x = Ok y) xs ys"
proof (induction xs arbitrary: ys)
  case (Cons x xs)
  then show ?case by (cases ys) (auto simp: obind_iffs)
qed auto

lemma omap_eq_Panic: "omap f xs = Panic \<Longrightarrow> \<exists>x \<in> set xs. f x = Panic"
  by (induction xs) (auto simp: obind_iffs)

lemma slice_from_eq_Ok [simp]: "slice_from i xs = Ok ys \<longleftrightarrow> i \<le> length xs \<and> ys = drop i xs"
  by (auto simp: slice_from_def)

lemma slice_from_eq_Panic [simp]: "slice_from i xs = Panic \<longleftrightarrow> length xs < i"
  by (auto simp: slice_from_def)

section \<open>Lemmas on literals\<close>

lemma str_eq_iff [simp, str_simps]: "str a = str b \<longleftrightarrow> a = b"
proof
  assume "str a = str b"
  then have "map (of_char :: char \<Rightarrow> nat) a = map of_char b" by (simp add: str_def)
  then show "a = b" by (simp add: inj_map_eq_map inj_def)
qed simp

lemma length_str [simp, str_simps]: "length (str s) = length s"
  by (simp add: str_def)

lemma str_Nil [simp]: "str [] = []"
  by (simp add: str_def)

lemma str_eq_Nil [simp]: "str s = [] \<longleftrightarrow> s = []"
  by (simp add: str_def)

lemma str_append: "str (a @ b) = str a @ str b"
  by (simp add: str_def)

lemma str_Cons: "str (c # cs) = chr c # str cs"
  by (simp add: str_def chr_def)

lemma chr_eq_iff [simp]: "chr a = chr b \<longleftrightarrow> a = b"
  by (simp add: chr_def)

lemma hd_str [simp]: "s \<noteq> [] \<Longrightarrow> hd (str s) = chr (hd s)"
  by (cases s) (simp_all add: str_Cons)

lemma last_str [simp]: "s \<noteq> [] \<Longrightarrow> last (str s) = chr (last s)"
  by (simp add: str_def chr_def last_map)

lemma set_str: "set (str s) = chr ` set s"
  by (simp add: str_def chr_def)

section \<open>Lemmas on prefixes and suffixes\<close>

lemma strip_prefix_Some_iff: "strip_prefix p s = Some r \<longleftrightarrow> s = p @ r"
  by (induction p s rule: strip_prefix.induct) auto

lemma strip_prefix_None_iff: "strip_prefix p s = None \<longleftrightarrow> (\<forall>r. s \<noteq> p @ r)"
  by (metis not_None_eq option.distinct(1) strip_prefix_Some_iff)

lemma strip_prefix_append [simp]: "strip_prefix p (p @ r) = Some r"
  by (simp add: strip_prefix_Some_iff)

lemma strip_prefix_self [simp]: "strip_prefix p p = Some []"
  by (simp add: strip_prefix_Some_iff)

lemma starts_with_iff: "starts_with p s \<longleftrightarrow> (\<exists>r. s = p @ r)"
  by (auto simp: starts_with_def strip_prefix_Some_iff)

lemma starts_with_append [simp]: "starts_with p (p @ r)"
  by (auto simp: starts_with_iff)

lemma strip_suffix_Some_iff: "strip_suffix q s = Some r \<longleftrightarrow> s = r @ q"
proof -
  have "strip_suffix q s = Some r \<longleftrightarrow> strip_prefix (rev q) (rev s) = Some (rev r)"
    by (auto simp: strip_suffix_def)
  also have "\<dots> \<longleftrightarrow> s = r @ q"
    by (metis strip_prefix_Some_iff rev_append rev_rev_ident)
  finally show ?thesis .
qed

lemma strip_suffix_None_iff: "strip_suffix q s = None \<longleftrightarrow> (\<forall>r. s \<noteq> r @ q)"
  by (metis not_None_eq option.distinct(1) strip_suffix_Some_iff)

lemma strip_suffix_append [simp]: "strip_suffix q (r @ q) = Some r"
  by (simp add: strip_suffix_Some_iff)

lemma ends_with_iff: "ends_with q s \<longleftrightarrow> (\<exists>r. s = r @ q)"
  by (auto simp: ends_with_def strip_suffix_Some_iff)

section \<open>Lemmas on trimming\<close>

lemma trim_start_id: "s = [] \<or> \<not> is_whitespace (hd s) \<Longrightarrow> trim_start s = s"
  by (cases s) (auto simp: trim_start_def)

lemma trim_end_id: "s = [] \<or> \<not> is_whitespace (last s) \<Longrightarrow> trim_end s = s"
  by (cases s rule: rev_cases) (auto simp: trim_end_def)

lemma trim_id: "\<not> is_whitespace (hd s) \<Longrightarrow> \<not> is_whitespace (last s) \<Longrightarrow> trim s = s"
  by (simp add: trim_def trim_start_id trim_end_id)

lemma trim_Nil [simp]: "trim [] = []" "trim_start [] = []" "trim_end [] = []"
  by (simp_all add: trim_def trim_start_def trim_end_def)

lemma trim_start_idem [simp]: "trim_start (trim_start s) = trim_start s"
  by (simp add: trim_start_def)

lemma trim_end_idem [simp]: "trim_end (trim_end s) = trim_end s"
  by (simp add: trim_end_def)

lemma trim_end_append_last:
  "\<not> is_whitespace (last s) \<Longrightarrow> s \<noteq> [] \<Longrightarrow> trim_end (p @ s) = p @ s"
  by (simp add: trim_end_id)

lemma trim_start_Cons: "\<not> is_whitespace c \<Longrightarrow> trim_start (c # s) = c # s"
  by (simp add: trim_start_def)

lemma trim_start_split:
  obtains w where "s = w @ trim_start s" "\<forall>c \<in> set w. is_whitespace c"
  by (metis trim_start_def takeWhile_dropWhile_id set_takeWhileD)

lemma trim_end_split:
  obtains w where "s = trim_end s @ w" "\<forall>c \<in> set w. is_whitespace c"
proof
  show "s = trim_end s @ rev (takeWhile is_whitespace (rev s))"
    by (metis rev_append rev_rev_ident takeWhile_dropWhile_id trim_end_def)
  show "\<forall>c \<in> set (rev (takeWhile is_whitespace (rev s))). is_whitespace c"
    by (auto dest: set_takeWhileD)
qed

lemma trim_end_last: "trim_end s \<noteq> [] \<Longrightarrow> \<not> is_whitespace (last (trim_end s))"
  by (simp add: trim_end_def last_rev hd_dropWhile)

lemma trim_last: "trim s \<noteq> [] \<Longrightarrow> \<not> is_whitespace (last (trim s))"
  by (simp add: trim_def trim_end_last)

section \<open>Lemmas on splitting and joining\<close>

lemma split_on_not_Nil [simp]: "split_on d s \<noteq> []"
  by (induction s) (auto split: list.splits)

lemma join_with_Cons: "ps \<noteq> [] \<Longrightarrow> join_with sep (p # ps) = p @ sep @ join_with sep ps"
  by (cases ps) auto

lemma join_split_on: "join_with [d] (split_on d s) = s"
proof (induction s)
  case (Cons c s)
  obtain p ps where "split_on d s = p # ps" by (meson neq_Nil_conv split_on_not_Nil)
  with Cons show ?case by (cases ps) auto
qed simp

lemma split_on_notin: "d \<notin> set s \<Longrightarrow> split_on d s = [s]"
  by (induction s) auto

lemma split_on_append: "d \<notin> set s \<Longrightarrow> split_on d (s @ d # t) = s # split_on d t"
  by (induction s) auto

lemma split_on_append_sep: "split_on d (s @ d # t) = split_on d s @ split_on d t"
proof (induction s)
  case (Cons c s)
  obtain p ps where "split_on d s = p # ps" by (meson neq_Nil_conv split_on_not_Nil)
  with Cons show ?case by auto
qed simp

lemma split_on_snoc:
  "split_on d (s @ [c]) =
     (if c = d then split_on d s @ [[]] else butlast (split_on d s) @ [last (split_on d s) @ [c]])"
proof (induction s)
  case (Cons b s)
  obtain p ps where "split_on d s = p # ps" by (meson neq_Nil_conv split_on_not_Nil)
  with Cons show ?case by (cases ps) auto
qed simp

lemma last_split_on: "last (split_on d s) = [] \<longleftrightarrow> s = [] \<or> last s = d"
  by (cases s rule: rev_cases) (auto simp: split_on_snoc)

lemma last_last_split_on: "s \<noteq> [] \<Longrightarrow> last s \<noteq> d \<Longrightarrow> last (last (split_on d s)) = last s"
  by (cases s rule: rev_cases) (auto simp: split_on_snoc)

lemma split_on_pieces: "p \<in> set (split_on d s) \<Longrightarrow> d \<notin> set p"
proof (induction s arbitrary: p)
  case (Cons c s)
  obtain q qs where "split_on d s = q # qs" by (meson neq_Nil_conv split_on_not_Nil)
  with Cons show ?case by (auto split: if_splits)
qed simp

lemma split_on_length:
  "p \<in> set (split_on d s) \<Longrightarrow> length p < length s \<or> p = s"
proof (induction s arbitrary: p)
  case (Cons c s)
  obtain q qs where q: "split_on d s = q # qs" by (meson neq_Nil_conv split_on_not_Nil)
  show ?case
  proof (cases "p \<in> set (split_on d s)")
    case True
    with Cons.IH [OF this] show ?thesis by auto
  next
    case False
    with Cons.prems q have "c \<noteq> d \<and> p = c # q \<or> p = []" by (auto split: if_splits)
    with Cons.IH [of q] q show ?thesis by auto
  qed
qed simp

lemma split_on_join:
  "ps \<noteq> [] \<Longrightarrow> \<forall>p \<in> set ps. d \<notin> set p \<Longrightarrow> split_on d (join_with [d] ps) = ps"
proof (induction ps)
  case (Cons p ps)
  show ?case
  proof (cases "ps = []")
    case True
    with Cons.prems show ?thesis by (simp add: split_on_notin)
  next
    case False
    then have "join_with [d] (p # ps) = p @ d # join_with [d] ps" by (simp add: join_with_Cons)
    with False Cons show ?thesis by (simp add: split_on_append)
  qed
qed simp

lemma set_trim: "set (trim s) \<subseteq> set s"
  by (auto simp: trim_def trim_start_def trim_end_def dest!: set_dropWhileD)

lemma lines_join:
  assumes "ls \<noteq> []" "\<forall>l \<in> set ls. newline \<notin> set l" "last ls \<noteq> []"
    and "\<forall>l \<in> set (butlast ls). \<not> ends_with [carriage_return] l"
  shows "lines (join_with [newline] ls) = ls"
proof -
  have "map strip_cr (butlast ls) = butlast ls"
    by (rule map_idI) (use assms(4) in \<open>auto simp: strip_cr_def ends_with_def\<close>)
  with assms show ?thesis
    by (simp add: lines_def split_on_join)
qed

lemma lines_Cons:
  "newline \<notin> set l \<Longrightarrow> lines (l @ newline # s) = strip_cr l # lines s"
  by (simp add: lines_def split_on_append Let_def)

lemma lines_snoc:
  assumes "s \<noteq> []" "\<not> is_whitespace (last s)" "newline \<notin> set e" "e \<noteq> []"
  shows "lines (s @ newline # e) = lines s @ [e]"
proof -
  let ?ps = "split_on newline s"
  have nn: "last s \<noteq> newline" and nc: "last s \<noteq> carriage_return"
    using assms(2) by (auto simp: is_whitespace_def newline_def carriage_return_def)
  have "last ?ps \<noteq> []" using assms(1) nn by (simp add: last_split_on)
  moreover have "strip_cr (last ?ps) = last ?ps"
    using last_last_split_on [OF assms(1) nn] nc
    by (auto simp: strip_cr_def strip_suffix_Some_iff split: option.splits)
  ultimately have "lines s = map strip_cr (butlast ?ps @ [last ?ps])"
    by (simp add: lines_def Let_def del: append_butlast_last_id)
  then have "lines s = map strip_cr ?ps" by (simp only: append_butlast_last_id split_on_not_Nil not_False_eq_True)
  moreover have "lines (s @ newline # e) = map strip_cr ?ps @ [e]"
    using assms(3,4) by (simp add: lines_def split_on_append_sep split_on_notin)
  ultimately show ?thesis by simp
qed

text \<open>Appending a line to a text, with a newline put in front when the text lacks one.\<close>

lemma lines_append_line:
  assumes "newline \<notin> set l" "\<not> ends_with [carriage_return] l" "\<not> ends_with [carriage_return] s"
  shows "lines (s @ (if s \<noteq> [] \<and> \<not> ends_with [newline] s then [newline] else []) @ l @ [newline]) = lines s @ [l]"
proof -
  have l: "strip_cr l = l" using assms(2) by (auto simp: strip_cr_def ends_with_def)
  consider "s = []" | t where "s = t @ [newline]" | t c where "s = t @ [c]" "c \<noteq> newline"
    by (cases s rule: rev_cases) auto
  then show ?thesis
  proof cases
    case 1
    then show ?thesis using lines_Cons [OF assms(1), of "[]"] l by (simp add: lines_def)
  next
    case 2
    have "split_on newline (l @ [newline]) = [l, []]"
      using split_on_append [OF assms(1), of "[]"] by simp
    then have "split_on newline (t @ newline # (l @ [newline])) = split_on newline t @ [l, []]"
      by (simp only: split_on_append_sep)
    then have "lines (s @ l @ [newline]) = map strip_cr (split_on newline t) @ [l]"
      using 2 l by (simp add: lines_def butlast_append)
    moreover have "lines s = map strip_cr (split_on newline t)"
      using 2 by (simp add: lines_def split_on_snoc)
    ultimately show ?thesis using 2 by (simp add: ends_with_iff)
  next
    case 3
    then have nn: "s \<noteq> []" "last s \<noteq> newline" "\<not> ends_with [newline] s" by (auto simp: ends_with_iff)
    have "split_on newline (l @ [newline]) = [l, []]"
      using split_on_append [OF assms(1), of "[]"] by simp
    then have "split_on newline (s @ newline # (l @ [newline])) = split_on newline s @ [l, []]"
      by (simp only: split_on_append_sep)
    then have "lines (s @ [newline] @ l @ [newline]) = map strip_cr (split_on newline s) @ [l]"
      using l by (simp add: lines_def butlast_append)
    moreover have "strip_cr (last (split_on newline s)) = last (split_on newline s)"
      using last_last_split_on [OF nn(1,2)] assms(3) 3
      by (auto simp: strip_cr_def strip_suffix_Some_iff ends_with_iff split: option.splits)
    then have "lines s = map strip_cr (butlast (split_on newline s) @ [last (split_on newline s)])"
      using nn by (simp add: lines_def Let_def last_split_on del: append_butlast_last_id)
    then have "lines s = map strip_cr (split_on newline s)"
      by (simp only: append_butlast_last_id split_on_not_Nil not_False_eq_True)
    ultimately show ?thesis using nn by simp
  qed
qed

section \<open>Lemmas on vectors\<close>

lemma length_vec_insert: "vec_insert i x xs = Some ys \<Longrightarrow> length ys = Suc (length xs)"
  by (auto simp: vec_insert_def split: if_splits)

lemma position_Some_iff:
  "position p xs = Some i \<longleftrightarrow> i < length xs \<and> p (xs ! i) \<and> (\<forall>j < i. \<not> p (xs ! j))"
proof (induction xs arbitrary: i)
  case (Cons x xs)
  show ?case
  proof (cases i)
    case 0
    then show ?thesis by auto
  next
    case (Suc k)
    have "(\<forall>j < Suc k. \<not> p ((x # xs) ! j)) \<longleftrightarrow> \<not> p x \<and> (\<forall>j < k. \<not> p (xs ! j))"
      by (auto simp: less_Suc_eq_0_disj)
    with Cons Suc show ?thesis by auto
  qed
qed simp

lemma position_None_iff: "position p xs = None \<longleftrightarrow> (\<forall>x \<in> set xs. \<not> p x)"
  by (induction xs) auto

lemma map_filter_Nil_iff: "List.map_filter f xs = [] \<longleftrightarrow> (\<forall>x \<in> set xs. f x = None)"
  by (induction xs) (auto simp: List.map_filter_simps split: option.splits)

lemma set_map_filter: "set (List.map_filter f xs) = {y. \<exists>x \<in> set xs. f x = Some y}"
  by (induction xs) (auto simp: List.map_filter_simps split: option.splits)

lemma map_filter_append: "List.map_filter f (xs @ ys) = List.map_filter f xs @ List.map_filter f ys"
  by (induction xs) (auto simp: List.map_filter_simps split: option.splits)

section \<open>Maxima\<close>

text \<open>\<open>Iterator::max_by_key\<close>: of several maxima the last one.\<close>

fun max_by_key :: "('a \<Rightarrow> 'k :: linorder) \<Rightarrow> 'a list \<Rightarrow> 'a option" where
  "max_by_key f [] = None"
| "max_by_key f (x # xs) = Some (foldl (\<lambda>m y. if f m \<le> f y then y else m) x xs)"

lemma max_by_key_None [simp]: "max_by_key f xs = None \<longleftrightarrow> xs = []"
  by (cases xs) simp_all

lemma foldl_max_by_key:
  "foldl (\<lambda>m y. if f m \<le> f y then y else m) x xs \<in> set (x # xs)
   \<and> (\<forall>y \<in> set (x # xs). f y \<le> f (foldl (\<lambda>m y. if f m \<le> f y then y else m) x xs))"
  for f :: "'a \<Rightarrow> 'k :: linorder"
proof (induction xs arbitrary: x)
  case (Cons z xs)
  let ?m = "if f x \<le> f z then z else x"
  let ?r = "foldl (\<lambda>m y. if f m \<le> f y then y else m) ?m xs"
  have "f ?m \<le> f ?r" "?r \<in> set (?m # xs)" using Cons.IH [of ?m] by simp_all
  then show ?case using Cons.IH [of ?m] by (auto split: if_splits)
qed simp

lemma max_by_key_Some:
  assumes "max_by_key f xs = Some y"
  shows "y \<in> set xs \<and> (\<forall>x \<in> set xs. f x \<le> f y)"
  using assms foldl_max_by_key [of f] by (cases xs) auto

end
