(* ===== verification/Patch_Parser.thy ===== *)
theory Patch_Parser
  imports Prelude
begin

text \<open>
  The batch parser of the apply-patch format: \<open>codex-rs/apply-patch/src/parser.rs\<close>. The
  data types, the markers and every function of the file up to its tests. A slice index out
  of range is the outcome \<open>Panic\<close>, so that the absence of panics is a theorem.
\<close>

section \<open>Data\<close>

datatype parse_error =
    InvalidPatchError ustr
  | InvalidHunkError ustr nat \<comment> \<open>message, line number\<close>

record update_file_chunk =
  change_context :: "ustr option"
  old_lines :: "ustr list"
  new_lines :: "ustr list"
  is_end_of_file :: bool

datatype hunk =
    AddFile ustr ustr \<comment> \<open>path, contents\<close>
  | DeleteFile ustr
  | UpdateFile ustr "ustr option" "update_file_chunk list" \<comment> \<open>path, move path, chunks\<close>

record apply_patch_args =
  patch :: ustr
  hunks :: "hunk list"
  workdir :: "ustr option"
  environment_id :: "ustr option"

datatype parse_mode = Strict | Lenient

definition BEGIN_PATCH_MARKER :: ustr where
  "BEGIN_PATCH_MARKER = str ''*** Begin Patch''"
definition ENVIRONMENT_ID_MARKER :: ustr where
  "ENVIRONMENT_ID_MARKER = str ''*** Environment ID: ''"
definition END_PATCH_MARKER :: ustr where
  "END_PATCH_MARKER = str ''*** End Patch''"
definition ADD_FILE_MARKER :: ustr where
  "ADD_FILE_MARKER = str ''*** Add File: ''"
definition DELETE_FILE_MARKER :: ustr where
  "DELETE_FILE_MARKER = str ''*** Delete File: ''"
definition UPDATE_FILE_MARKER :: ustr where
  "UPDATE_FILE_MARKER = str ''*** Update File: ''"
definition MOVE_TO_MARKER :: ustr where
  "MOVE_TO_MARKER = str ''*** Move to: ''"
definition EOF_MARKER :: ustr where
  "EOF_MARKER = str ''*** End of File''"
definition CHANGE_CONTEXT_MARKER :: ustr where
  "CHANGE_CONTEXT_MARKER = str ''@@ ''"
definition EMPTY_CHANGE_CONTEXT_MARKER :: ustr where
  "EMPTY_CHANGE_CONTEXT_MARKER = str ''@@''"

definition PARSE_IN_STRICT_MODE :: bool where
  "PARSE_IN_STRICT_MODE = False"

lemmas marker_defs =
  BEGIN_PATCH_MARKER_def ENVIRONMENT_ID_MARKER_def END_PATCH_MARKER_def ADD_FILE_MARKER_def
  DELETE_FILE_MARKER_def UPDATE_FILE_MARKER_def MOVE_TO_MARKER_def EOF_MARKER_def
  CHANGE_CONTEXT_MARKER_def EMPTY_CHANGE_CONTEXT_MARKER_def

text \<open>\<open>Hunk::path\<close>: the path a hunk affects, the destination for a rename.\<close>

fun hunk_path :: "hunk \<Rightarrow> ustr" where
  "hunk_path (AddFile p _) = p"
| "hunk_path (DeleteFile p) = p"
| "hunk_path (UpdateFile _ (Some m) _) = m"
| "hunk_path (UpdateFile p None _) = p"

text \<open>The path \<open>Hunk::resolve_path\<close> resolves against the working directory.\<close>

fun hunk_source_path :: "hunk \<Rightarrow> ustr" where
  "hunk_source_path (UpdateFile p _ _) = p"
| "hunk_source_path h = hunk_path h"

section \<open>Messages\<close>

definition no_lines_message :: ustr where
  "no_lines_message = str ''Update hunk does not contain any lines''"

definition unexpected_line_message :: "ustr \<Rightarrow> ustr" where
  "unexpected_line_message l =
     str ''Unexpected line found in update hunk: '' @ [39] @ l @ [39] @
     str ''. Every line should start with '' @ [39] @ str '' '' @ [39] @
     str '' (context line), '' @ [39] @ str ''+'' @ [39] @ str '' (added line), or '' @ [39] @
     str ''-'' @ [39] @ str '' (removed line)''"

definition expected_context_message :: "ustr \<Rightarrow> ustr" where
  "expected_context_message l =
     str ''Expected update hunk to start with a @@ context marker, got: '' @ [39] @ l @ [39]"

definition empty_update_message :: "ustr \<Rightarrow> ustr" where
  "empty_update_message p =
     str ''Update file hunk for path '' @ [39] @ p @ [39] @ str '' is empty''"

definition invalid_header_message :: "ustr \<Rightarrow> ustr" where
  "invalid_header_message l =
     [39] @ l @ [39] @ str '' is not a valid hunk header. Valid hunk headers: '' @
     [39] @ str ''*** Add File: {path}'' @ [39] @ str '', '' @
     [39] @ str ''*** Delete File: {path}'' @ [39] @ str '', '' @
     [39] @ str ''*** Update File: {path}'' @ [39]"

definition first_line_message :: ustr where
  "first_line_message =
     str ''The first line of the patch must be '' @ [39] @ BEGIN_PATCH_MARKER @ [39]"

definition last_line_message :: ustr where
  "last_line_message =
     str ''The last line of the patch must be '' @ [39] @ END_PATCH_MARKER @ [39]"

section \<open>Patch boundaries\<close>

definition check_start_and_end_lines_strict ::
  "ustr option \<Rightarrow> ustr option \<Rightarrow> (unit, parse_error) outcome" where
  "check_start_and_end_lines_strict first_line last_line =
     (case (map_option trim first_line, map_option trim last_line) of
        (Some f, Some l) \<Rightarrow>
          if f = BEGIN_PATCH_MARKER \<and> l = END_PATCH_MARKER then Ok ()
          else if f \<noteq> BEGIN_PATCH_MARKER then Err (InvalidPatchError first_line_message)
          else Err (InvalidPatchError last_line_message)
      | (Some f, None) \<Rightarrow>
          if f \<noteq> BEGIN_PATCH_MARKER then Err (InvalidPatchError first_line_message)
          else Err (InvalidPatchError last_line_message)
      | (None, _) \<Rightarrow> Err (InvalidPatchError last_line_message))"

definition check_patch_boundaries_strict ::
  "ustr list \<Rightarrow> (ustr list \<times> ustr list, parse_error) outcome" where
  "check_patch_boundaries_strict ls =
     (let (first_line, last_line) =
        (case ls of
           [] \<Rightarrow> (None, None)
         | [f] \<Rightarrow> (Some f, Some f)
         | f # rest \<Rightarrow> (Some f, Some (last rest)))
      in obind (check_start_and_end_lines_strict first_line last_line) (\<lambda>_.
         obind (usize_sub (length ls) 1) (\<lambda>n.
         obind (slice_range 1 n ls) (\<lambda>inner. Ok (ls, inner)))))"

definition is_heredoc_start :: "ustr \<Rightarrow> bool" where
  "is_heredoc_start f \<longleftrightarrow>
     f = str ''<<EOF'' \<or> f = str ''<<'' @ [39] @ str ''EOF'' @ [39]
     \<or> f = str ''<<'' @ [34] @ str ''EOF'' @ [34]"

definition check_patch_boundaries_lenient ::
  "ustr list \<Rightarrow> (ustr list \<times> ustr list, parse_error) outcome" where
  "check_patch_boundaries_lenient original_lines =
     (case check_patch_boundaries_strict original_lines of
        Ok r \<Rightarrow> Ok r
      | Panic \<Rightarrow> Panic
      | Err original_parse_error \<Rightarrow>
          (case original_lines of
             f # g # rest \<Rightarrow>
               if is_heredoc_start f \<and> ends_with (str ''EOF'') (last (g # rest))
                  \<and> 4 \<le> length original_lines
               then obind (usize_sub (length original_lines) 1) (\<lambda>n.
                    obind (slice_range 1 n original_lines) (\<lambda>inner_lines.
                    check_patch_boundaries_strict inner_lines))
               else Err original_parse_error
           | _ \<Rightarrow> Err original_parse_error))"

text \<open>The environment preamble: the id, the remaining lines and the line number they start at.\<close>

definition parse_environment_id_preamble ::
  "ustr list \<Rightarrow> (ustr option \<times> ustr list \<times> nat, parse_error) outcome" where
  "parse_environment_id_preamble hunk_lines =
     (case hunk_lines of
        [] \<Rightarrow> Ok (None, hunk_lines, 2)
      | first_line # rest \<Rightarrow>
          (case strip_prefix ENVIRONMENT_ID_MARKER (trim_start first_line) of
             None \<Rightarrow> Ok (None, hunk_lines, 2)
           | Some e \<Rightarrow>
               (let environment_id = trim e in
                if environment_id = []
                then Err (InvalidPatchError (str ''apply_patch environment_id cannot be empty''))
                else Ok (Some environment_id, rest, 3))))"

section \<open>Chunks\<close>

text \<open>The \<open>for line in &lines[start_index..]\<close> loop of \<open>parse_update_file_chunk\<close>.\<close>

fun chunk_lines_loop ::
  "ustr list \<Rightarrow> nat \<Rightarrow> nat \<Rightarrow> update_file_chunk \<Rightarrow>
   (update_file_chunk \<times> nat, parse_error) outcome" where
  "chunk_lines_loop [] line_number parsed_lines chunk = Ok (chunk, parsed_lines)"
| "chunk_lines_loop (line # rest) line_number parsed_lines chunk =
     (if line = EOF_MARKER then
        (if parsed_lines = 0 then Err (InvalidHunkError no_lines_message (line_number + 1))
         else Ok (chunk\<lparr>is_end_of_file := True\<rparr>, parsed_lines + 1))
      else
        (case line of
           [] \<Rightarrow>
             chunk_lines_loop rest line_number (parsed_lines + 1)
               (chunk\<lparr>old_lines := old_lines chunk @ [[]], new_lines := new_lines chunk @ [[]]\<rparr>)
         | c # cs \<Rightarrow>
             if c = chr CHR '' '' then
               chunk_lines_loop rest line_number (parsed_lines + 1)
                 (chunk\<lparr>old_lines := old_lines chunk @ [cs], new_lines := new_lines chunk @ [cs]\<rparr>)
             else if c = chr CHR ''+'' then
               chunk_lines_loop rest line_number (parsed_lines + 1)
                 (chunk\<lparr>new_lines := new_lines chunk @ [cs]\<rparr>)
             else if c = chr CHR ''-'' then
               chunk_lines_loop rest line_number (parsed_lines + 1)
                 (chunk\<lparr>old_lines := old_lines chunk @ [cs]\<rparr>)
             else if parsed_lines = 0 then
               Err (InvalidHunkError (unexpected_line_message line) (line_number + 1))
             else Ok (chunk, parsed_lines)))"

text \<open>The change context of a chunk and the index its body starts at.\<close>

definition chunk_start :: "ustr \<Rightarrow> nat \<Rightarrow> bool \<Rightarrow> (ustr option \<times> nat, parse_error) outcome" where
  "chunk_start l0 line_number allow_missing_context =
     (if l0 = EMPTY_CHANGE_CONTEXT_MARKER then Ok (None, 1)
      else (case strip_prefix CHANGE_CONTEXT_MARKER l0 of
              Some c \<Rightarrow> Ok (Some c, 1)
            | None \<Rightarrow>
                if \<not> allow_missing_context
                then Err (InvalidHunkError (expected_context_message l0) line_number)
                else Ok (None, 0)))"

definition new_chunk :: "ustr option \<Rightarrow> update_file_chunk" where
  "new_chunk ctx =
     \<lparr>change_context = ctx, old_lines = [], new_lines = [], is_end_of_file = False\<rparr>"

definition parse_update_file_chunk ::
  "ustr list \<Rightarrow> nat \<Rightarrow> bool \<Rightarrow> (update_file_chunk \<times> nat, parse_error) outcome" where
  "parse_update_file_chunk ls line_number allow_missing_context =
     (case ls of
        [] \<Rightarrow> Err (InvalidHunkError no_lines_message line_number)
      | l0 # _ \<Rightarrow>
          obind (chunk_start l0 line_number allow_missing_context) (\<lambda>(ctx, start_index).
            if length ls \<le> start_index
            then Err (InvalidHunkError no_lines_message (line_number + 1))
            else obind (slice_from start_index ls) (\<lambda>body.
                 obind (chunk_lines_loop body line_number 0 (new_chunk ctx))
                   (\<lambda>(chunk, parsed_lines). Ok (chunk, parsed_lines + start_index)))))"

section \<open>Consumed lines\<close>

lemma chunk_lines_loop_consumed:
  "chunk_lines_loop ls n k c = Ok (c', m) \<Longrightarrow> k \<le> m \<and> m \<le> k + length ls"
proof (induction ls n k c rule: chunk_lines_loop.induct)
  case (2 line rest n k c)
  then show ?case
    by (cases line) (fastforce split: if_splits)+
qed simp

lemma chunk_lines_loop_progress:
  "chunk_lines_loop ls n 0 c = Ok (c', m) \<Longrightarrow> ls \<noteq> [] \<Longrightarrow> 1 \<le> m"
  by (cases ls) (auto split: if_splits list.splits dest!: chunk_lines_loop_consumed)

lemma parse_update_file_chunk_Ok:
  "parse_update_file_chunk ls n a = Ok (c, k) \<longleftrightarrow>
     (\<exists>l0 rest ctx s m. ls = l0 # rest \<and> chunk_start l0 n a = Ok (ctx, s) \<and> s < length ls \<and>
        chunk_lines_loop (drop s ls) n 0 (new_chunk ctx) = Ok (c, m) \<and> k = m + s)"
  by (cases ls) (auto simp: parse_update_file_chunk_def obind_eq_Ok not_le split: prod.splits if_splits)

lemma parse_update_file_chunk_consumed:
  assumes "parse_update_file_chunk ls n a = Ok (c, k)"
  shows "1 \<le> k \<and> k \<le> length ls"
proof -
  from assms obtain ctx s m where s: "s < length ls" "k = m + s"
    and lp: "chunk_lines_loop (drop s ls) n 0 (new_chunk ctx) = Ok (c, m)"
    unfolding parse_update_file_chunk_Ok by blast
  from s lp have "1 \<le> m" by (intro chunk_lines_loop_progress [OF lp]) auto
  moreover have "m \<le> length ls - s" using chunk_lines_loop_consumed [OF lp] by simp
  ultimately show ?thesis using s by simp
qed

section \<open>Hunks\<close>

text \<open>The \<open>for add_line in &lines[1..]\<close> loop of \<open>parse_one_hunk\<close>.\<close>

fun add_lines_loop :: "ustr list \<Rightarrow> ustr \<Rightarrow> nat \<Rightarrow> ustr \<times> nat" where
  "add_lines_loop [] contents parsed_lines = (contents, parsed_lines)"
| "add_lines_loop (add_line # rest) contents parsed_lines =
     (case strip_prefix [chr CHR ''+''] add_line of
        Some line_to_add \<Rightarrow>
          add_lines_loop rest (contents @ line_to_add @ [newline]) (parsed_lines + 1)
      | None \<Rightarrow> (contents, parsed_lines))"

text \<open>The \<open>while !remaining_lines.is_empty()\<close> loop of \<open>parse_one_hunk\<close>.\<close>

function chunks_loop ::
  "ustr list \<Rightarrow> nat \<Rightarrow> nat \<Rightarrow> update_file_chunk list \<Rightarrow>
   (update_file_chunk list \<times> nat, parse_error) outcome" where
  "chunks_loop remaining_lines line_number parsed_lines chunks =
     (case remaining_lines of
        [] \<Rightarrow> Ok (chunks, parsed_lines)
      | l0 # rest \<Rightarrow>
          if trim l0 = [] then chunks_loop rest line_number (parsed_lines + 1) chunks
          else if starts_with [chr CHR ''*''] l0 then Ok (chunks, parsed_lines)
          else
            obind (parse_update_file_chunk remaining_lines (line_number + parsed_lines) (chunks = []))
              (\<lambda>(chunk, chunk_lines).
                 obind (slice_from chunk_lines remaining_lines) (\<lambda>rest'.
                   chunks_loop rest' line_number (parsed_lines + chunk_lines) (chunks @ [chunk]))))"
  by pat_completeness auto
termination
  by (relation "measure (\<lambda>(ls, _). length ls)") (auto dest!: parse_update_file_chunk_consumed)

declare chunks_loop.simps [simp del]

definition parse_one_hunk :: "ustr list \<Rightarrow> nat \<Rightarrow> (hunk \<times> nat, parse_error) outcome" where
  "parse_one_hunk ls line_number =
     (case ls of
        [] \<Rightarrow> Panic
      | l0 # rest \<Rightarrow>
          (let first_line = trim l0 in
           case strip_prefix ADD_FILE_MARKER first_line of
             Some path \<Rightarrow>
               (let (contents, parsed_lines) = add_lines_loop rest [] 1
                in Ok (AddFile path contents, parsed_lines))
           | None \<Rightarrow>
          (case strip_prefix DELETE_FILE_MARKER first_line of
             Some path \<Rightarrow> Ok (DeleteFile path, 1)
           | None \<Rightarrow>
          (case strip_prefix UPDATE_FILE_MARKER first_line of
             Some path \<Rightarrow>
               (let move_path = (case rest of [] \<Rightarrow> None | x # _ \<Rightarrow> strip_prefix MOVE_TO_MARKER x);
                    remaining_lines = (if move_path \<noteq> None then tl rest else rest);
                    parsed_lines = (if move_path \<noteq> None then 2 else 1)
                in obind (chunks_loop remaining_lines line_number parsed_lines [])
                     (\<lambda>(chunks, parsed_lines).
                        if chunks = []
                        then Err (InvalidHunkError (empty_update_message path) line_number)
                        else Ok (UpdateFile path move_path chunks, parsed_lines)))
           | None \<Rightarrow>
               Err (InvalidHunkError (invalid_header_message first_line) line_number)))))"

lemma add_lines_loop_consumed:
  "add_lines_loop ls c k = (c', m) \<Longrightarrow> k \<le> m \<and> m \<le> k + length ls"
  by (induction ls c k rule: add_lines_loop.induct) (fastforce split: option.splits)+

lemma chunks_loop_Nil [simp]: "chunks_loop [] n k cs = Ok (cs, k)"
  by (simp add: chunks_loop.simps)

lemma chunks_loop_Cons:
  "chunks_loop (l # ls) n k cs =
     (if trim l = [] then chunks_loop ls n (k + 1) cs
      else if starts_with [chr CHR ''*''] l then Ok (cs, k)
      else obind (parse_update_file_chunk (l # ls) (n + k) (cs = []))
             (\<lambda>(c, m). obind (slice_from m (l # ls)) (\<lambda>rest'.
                chunks_loop rest' n (k + m) (cs @ [c]))))"
  by (subst chunks_loop.simps) simp

lemma chunks_loop_consumed:
  "chunks_loop ls n k cs = Ok (cs', m) \<Longrightarrow> k \<le> m \<and> m \<le> k + length ls"
proof (induction "length ls" arbitrary: ls k cs rule: less_induct)
  case less
  show ?case
  proof (cases ls)
    case Nil
    with less.prems show ?thesis by simp
  next
    case (Cons l0 rest)
    consider (blank) "trim l0 = []" | (stop) "trim l0 \<noteq> []" "starts_with [chr CHR ''*''] l0"
      | (chunk) "trim l0 \<noteq> []" "\<not> starts_with [chr CHR ''*''] l0" by blast
    then show ?thesis
    proof cases
      case blank
      with less.prems less.hyps [of rest "k + 1" cs] Cons show ?thesis
        by (simp add: chunks_loop_Cons)
    next
      case stop
      with less.prems Cons show ?thesis by (simp add: chunks_loop_Cons)
    next
      case chunk
      with less.prems Cons obtain c j where
        "parse_update_file_chunk ls (n + k) (cs = []) = Ok (c, j)"
        and rec: "chunks_loop (drop j ls) n (k + j) (cs @ [c]) = Ok (cs', m)"
        by (auto simp: chunks_loop_Cons obind_eq_Ok)
      then have j: "1 \<le> j" "j \<le> length ls" by (auto dest: parse_update_file_chunk_consumed)
      then have "length (drop j ls) < length ls" by simp
      from less.hyps [OF this rec] j show ?thesis by simp
    qed
  qed
qed

lemma parse_one_hunk_consumed:
  "parse_one_hunk ls n = Ok (h, k) \<Longrightarrow> 1 \<le> k \<and> k \<le> length ls"
  by (auto simp: parse_one_hunk_def Let_def obind_iffs
      split: list.splits option.splits prod.splits if_splits
      dest!: add_lines_loop_consumed chunks_loop_consumed)

section \<open>Patches\<close>

text \<open>The \<open>while !remaining_lines.is_empty()\<close> loop of \<open>parse_patch_text\<close>.\<close>

function hunks_loop :: "ustr list \<Rightarrow> nat \<Rightarrow> hunk list \<Rightarrow> (hunk list, parse_error) outcome" where
  "hunks_loop remaining_lines line_number hs =
     (if remaining_lines = [] then Ok hs
      else obind (parse_one_hunk remaining_lines line_number) (\<lambda>(h, hunk_lines).
           obind (slice_from hunk_lines remaining_lines) (\<lambda>rest.
           hunks_loop rest (line_number + hunk_lines) (hs @ [h]))))"
  by pat_completeness auto
termination
  by (relation "measure (\<lambda>(ls, _). length ls)") (auto dest!: parse_one_hunk_consumed)

declare hunks_loop.simps [simp del]

definition parse_patch_text :: "ustr \<Rightarrow> parse_mode \<Rightarrow> (apply_patch_args, parse_error) outcome" where
  "parse_patch_text text mode =
     (let ls = lines (trim text) in
      obind (case mode of Strict \<Rightarrow> check_patch_boundaries_strict ls
                        | Lenient \<Rightarrow> check_patch_boundaries_lenient ls)
        (\<lambda>(patch_lines, hunk_lines).
           obind (parse_environment_id_preamble hunk_lines)
             (\<lambda>(environment_id, remaining_lines, line_number).
                obind (hunks_loop remaining_lines line_number []) (\<lambda>hs.
                  Ok \<lparr>patch = join_with [newline] patch_lines, hunks = hs, workdir = None,
                      environment_id = environment_id\<rparr>))))"

definition parse_patch :: "ustr \<Rightarrow> (apply_patch_args, parse_error) outcome" where
  "parse_patch text = parse_patch_text text (if PARSE_IN_STRICT_MODE then Strict else Lenient)"

section \<open>No slice index is out of range\<close>

lemma BEGIN_neq_END: "BEGIN_PATCH_MARKER \<noteq> END_PATCH_MARKER"
  by (simp add: marker_defs)

lemma check_start_and_end_lines_strict_no_panic: "check_start_and_end_lines_strict f l \<noteq> Panic"
  by (simp add: check_start_and_end_lines_strict_def split: option.splits)

lemma check_start_and_end_lines_strict_Ok:
  "check_start_and_end_lines_strict f l = Ok u \<longleftrightarrow>
     (\<exists>a b. f = Some a \<and> l = Some b \<and> trim a = BEGIN_PATCH_MARKER \<and> trim b = END_PATCH_MARKER)"
  by (auto simp: check_start_and_end_lines_strict_def split: option.splits if_splits)

lemma check_patch_boundaries_strict_simps:
  "check_patch_boundaries_strict [] = Err (InvalidPatchError last_line_message)"
  "check_patch_boundaries_strict [f] =
     (if trim f = BEGIN_PATCH_MARKER then Err (InvalidPatchError last_line_message)
      else Err (InvalidPatchError first_line_message))"
  "check_patch_boundaries_strict (f # mid @ [l]) =
     (if trim f = BEGIN_PATCH_MARKER then
        (if trim l = END_PATCH_MARKER then Ok (f # mid @ [l], mid)
         else Err (InvalidPatchError last_line_message))
      else Err (InvalidPatchError first_line_message))"
  using BEGIN_neq_END
  by (cases mid; simp add: check_patch_boundaries_strict_def check_start_and_end_lines_strict_def
      usize_sub_def slice_range_def)+

lemma line_list_cases:
  obtains "ls = []" | f where "ls = [f]" | f mid l where "ls = f # mid @ [l]"
  by (metis list.exhaust rev_exhaust)

lemma check_patch_boundaries_strict_Ok:
  "check_patch_boundaries_strict ls = Ok r \<longleftrightarrow>
     (\<exists>f mid l. ls = f # mid @ [l] \<and> trim f = BEGIN_PATCH_MARKER \<and> trim l = END_PATCH_MARKER
        \<and> r = (ls, mid))"
  by (cases ls rule: line_list_cases) (auto simp: check_patch_boundaries_strict_simps)

lemma check_patch_boundaries_strict_no_panic: "check_patch_boundaries_strict ls \<noteq> Panic"
  by (cases ls rule: line_list_cases) (auto simp: check_patch_boundaries_strict_simps)

lemma check_patch_boundaries_lenient_no_panic: "check_patch_boundaries_lenient ls \<noteq> Panic"
  by (auto simp: check_patch_boundaries_lenient_def check_patch_boundaries_strict_no_panic
      obind_eq_Panic usize_sub_def slice_range_def split: outcome.splits list.splits)

lemma chunk_start_no_panic: "chunk_start l n a \<noteq> Panic"
  by (simp add: chunk_start_def split: option.splits)

lemma chunk_lines_loop_no_panic: "chunk_lines_loop ls n k c \<noteq> Panic"
  by (induction ls n k c rule: chunk_lines_loop.induct) (auto split: list.splits)

lemma parse_update_file_chunk_no_panic: "parse_update_file_chunk ls n a \<noteq> Panic"
  by (cases ls) (auto simp: parse_update_file_chunk_def obind_eq_Panic chunk_start_no_panic
      chunk_lines_loop_no_panic)

lemma chunks_loop_no_panic: "chunks_loop ls n k cs \<noteq> Panic"
proof (induction "length ls" arbitrary: ls k cs rule: less_induct)
  case less
  show ?case
  proof (cases ls)
    case (Cons l0 rest)
    have "length (drop j ls) < length ls" if "parse_update_file_chunk ls m a = Ok (c, j)" for m a c j
      using parse_update_file_chunk_consumed [OF that] Cons by simp
    with less.hyps Cons show ?thesis
      by (auto simp: chunks_loop_Cons obind_eq_Panic parse_update_file_chunk_no_panic
          dest!: parse_update_file_chunk_consumed)
  qed simp
qed

lemma parse_one_hunk_no_panic: "ls \<noteq> [] \<Longrightarrow> parse_one_hunk ls n \<noteq> Panic"
  by (auto simp: parse_one_hunk_def Let_def obind_eq_Panic chunks_loop_no_panic
      split: list.splits option.splits prod.splits)

lemma hunks_loop_Nil [simp]: "hunks_loop [] n hs = Ok hs"
  by (simp add: hunks_loop.simps)

lemma hunks_loop_step:
  "ls \<noteq> [] \<Longrightarrow> hunks_loop ls n hs =
     obind (parse_one_hunk ls n) (\<lambda>(h, k). obind (slice_from k ls) (\<lambda>rest.
       hunks_loop rest (n + k) (hs @ [h])))"
  by (subst hunks_loop.simps) simp

lemma hunks_loop_no_panic: "hunks_loop ls n hs \<noteq> Panic"
proof (induction ls n hs rule: hunks_loop.induct)
  case (1 ls n hs)
  show ?case
  proof (cases "ls = []")
    case False
    with 1 show ?thesis
      by (auto simp: hunks_loop_step obind_eq_Panic parse_one_hunk_no_panic
          dest!: parse_one_hunk_consumed)
  qed simp
qed

lemma parse_environment_id_preamble_no_panic: "parse_environment_id_preamble ls \<noteq> Panic"
  by (simp add: parse_environment_id_preamble_def Let_def split: list.splits option.splits)

lemma parse_patch_text_total: "parse_patch_text text mode \<noteq> Panic"
  by (auto simp: parse_patch_text_def Let_def obind_eq_Panic check_patch_boundaries_strict_no_panic
      check_patch_boundaries_lenient_no_panic parse_environment_id_preamble_no_panic
      hunks_loop_no_panic split: parse_mode.splits)

lemma parse_patch_total: "parse_patch text \<noteq> Panic"
  by (simp add: parse_patch_def parse_patch_text_total)

text \<open>
  Parsing a patch never panics: for every input text, in either mode, each slice the
  parser takes is in range, so the result is a parsed patch or a \<open>ParseError\<close>.
\<close>

theorem parse_patch_text_no_panic: "parse_patch_text text mode \<noteq> Panic"
  by (rule parse_patch_text_total)

section \<open>What the parser accepts is well formed\<close>

definition chunk_has_lines :: "update_file_chunk \<Rightarrow> bool" where
  "chunk_has_lines c \<longleftrightarrow> old_lines c \<noteq> [] \<or> new_lines c \<noteq> []"

fun wf_hunk :: "hunk \<Rightarrow> bool" where
  "wf_hunk (AddFile p contents) \<longleftrightarrow> contents = [] \<or> last contents = newline"
| "wf_hunk (DeleteFile p) \<longleftrightarrow> True"
| "wf_hunk (UpdateFile p m cs) \<longleftrightarrow>
     cs \<noteq> [] \<and> (\<forall>c \<in> set cs. chunk_has_lines c)"

lemma chunk_lines_loop_has_lines:
  "chunk_lines_loop ls n k c = Ok (c', m) \<Longrightarrow> k = 0 \<or> chunk_has_lines c \<Longrightarrow>
   m = 0 \<or> chunk_has_lines c'"
proof (induction ls n k c rule: chunk_lines_loop.induct)
  case (2 line rest n k c)
  then show ?case
    by (cases line) (auto simp: chunk_has_lines_def split: if_splits)
qed simp

lemma parse_update_file_chunk_has_lines:
  assumes "parse_update_file_chunk ls n a = Ok (c, k)"
  shows "chunk_has_lines c"
proof -
  from assms obtain ctx s m where s: "s < length ls"
    and lp: "chunk_lines_loop (drop s ls) n 0 (new_chunk ctx) = Ok (c, m)"
    unfolding parse_update_file_chunk_Ok by blast
  from s have "1 \<le> m" by (intro chunk_lines_loop_progress [OF lp]) auto
  with chunk_lines_loop_has_lines [OF lp] show ?thesis by simp
qed

lemma chunks_loop_has_lines:
  "chunks_loop ls n k cs = Ok (cs', m) \<Longrightarrow> \<forall>c \<in> set cs. chunk_has_lines c \<Longrightarrow>
   \<forall>c \<in> set cs'. chunk_has_lines c"
proof (induction "length ls" arbitrary: ls k cs rule: less_induct)
  case less
  show ?case
  proof (cases ls)
    case Nil
    with less.prems show ?thesis by simp
  next
    case (Cons l0 rest)
    consider (blank) "trim l0 = []" | (stop) "trim l0 \<noteq> []" "starts_with [chr CHR ''*''] l0"
      | (chunk) "trim l0 \<noteq> []" "\<not> starts_with [chr CHR ''*''] l0" by blast
    then show ?thesis
    proof cases
      case blank
      with less.prems less.hyps [of rest "k + 1" cs] Cons show ?thesis
        by (simp add: chunks_loop_Cons)
    next
      case stop
      with less.prems Cons show ?thesis by (simp add: chunks_loop_Cons)
    next
      case chunk
      with less.prems Cons obtain c j where
        pc: "parse_update_file_chunk ls (n + k) (cs = []) = Ok (c, j)"
        and rec: "chunks_loop (drop j ls) n (k + j) (cs @ [c]) = Ok (cs', m)"
        by (auto simp: chunks_loop_Cons obind_eq_Ok)
      have "length (drop j ls) < length ls"
        using parse_update_file_chunk_consumed [OF pc] Cons by simp
      from less.hyps [OF this rec] less.prems(2) parse_update_file_chunk_has_lines [OF pc]
      show ?thesis by simp
    qed
  qed
qed

lemma add_lines_loop_ends_newline:
  "add_lines_loop ls c k = (c', m) \<Longrightarrow> c = [] \<or> last c = newline \<Longrightarrow> c' = [] \<or> last c' = newline"
  by (induction ls c k rule: add_lines_loop.induct) (auto split: option.splits)

lemma parse_one_hunk_wf: "parse_one_hunk ls n = Ok (h, k) \<Longrightarrow> wf_hunk h"
  by (auto simp: parse_one_hunk_def Let_def obind_eq_Ok
      split: list.splits option.splits prod.splits if_splits
      dest: add_lines_loop_ends_newline chunks_loop_has_lines)

lemma hunks_loop_wf:
  "hunks_loop ls n hs = Ok hs' \<Longrightarrow> \<forall>h \<in> set hs. wf_hunk h \<Longrightarrow> \<forall>h \<in> set hs'. wf_hunk h"
proof (induction ls n hs rule: hunks_loop.induct)
  case (1 ls n hs)
  show ?case
  proof (cases "ls = []")
    case True
    with "1.prems" show ?thesis by simp
  next
    case False
    with "1.prems" obtain h k where ph: "parse_one_hunk ls n = Ok (h, k)" "k \<le> length ls"
      and rec: "hunks_loop (drop k ls) (n + k) (hs @ [h]) = Ok hs'"
      by (auto simp: hunks_loop_step obind_eq_Ok)
    have "\<forall>h' \<in> set (hs @ [h]). wf_hunk h'"
      using "1.prems"(2) parse_one_hunk_wf [OF ph(1)] by simp
    with "1.IH" [OF False ph(1) refl, of "drop k ls"] ph(2) rec show ?thesis by simp
  qed
qed

text \<open>
  C31: every hunk of an accepted patch is well formed: an update has at least one chunk, each
  chunk has at least one removed or added line, an added file is empty or ends with a
  newline, and a declared environment id is not empty.
\<close>

theorem parse_patch_wf:
  assumes "parse_patch text = Ok args"
  shows "(\<forall>h \<in> set (hunks args). wf_hunk h) \<and> environment_id args \<noteq> Some []"
proof -
  from assms obtain pl hl e rl n where pre: "parse_environment_id_preamble hl = Ok (e, rl, n)"
    and hl: "hunks_loop rl n [] = Ok (hunks args)" and e: "environment_id args = e"
    by (auto simp: parse_patch_def parse_patch_text_def Let_def obind_eq_Ok)
  from pre have "e \<noteq> Some []"
    by (auto simp: parse_environment_id_preamble_def Let_def
        split: list.splits option.splits if_splits)
  with hunks_loop_wf [OF hl] e show ?thesis by simp
qed

section \<open>Printing and parsing back\<close>

text \<open>
  The documented grammar read as a printer: the lines of a patch for a list of hunks. Within
  a chunk the removed lines come before the added ones.
\<close>

definition render_chunk :: "update_file_chunk \<Rightarrow> ustr list" where
  "render_chunk c =
     (case change_context c of None \<Rightarrow> EMPTY_CHANGE_CONTEXT_MARKER
                             | Some ctx \<Rightarrow> CHANGE_CONTEXT_MARKER @ ctx)
     # map ((#) (chr CHR ''-'')) (old_lines c) @ map ((#) (chr CHR ''+'')) (new_lines c)
     @ (if is_end_of_file c then [EOF_MARKER] else [])"

fun render_hunk :: "hunk \<Rightarrow> ustr list" where
  "render_hunk (AddFile p contents) =
     (ADD_FILE_MARKER @ p) # map ((#) (chr CHR ''+'')) (butlast (split_on newline contents))"
| "render_hunk (DeleteFile p) = [DELETE_FILE_MARKER @ p]"
| "render_hunk (UpdateFile p m cs) =
     (UPDATE_FILE_MARKER @ p) # (case m of None \<Rightarrow> [] | Some d \<Rightarrow> [MOVE_TO_MARKER @ d])
     @ concat (map render_chunk cs)"

definition render_patch :: "ustr option \<Rightarrow> hunk list \<Rightarrow> ustr" where
  "render_patch env hs =
     join_with [newline]
       (BEGIN_PATCH_MARKER # (case env of None \<Rightarrow> [] | Some e \<Rightarrow> [ENVIRONMENT_ID_MARKER @ e])
        @ concat (map render_hunk hs) @ [END_PATCH_MARKER])"

text \<open>A line that survives \<open>lines()\<close>, and a path that survives \<open>trim()\<close>.\<close>

definition line_ok :: "ustr \<Rightarrow> bool" where
  "line_ok l \<longleftrightarrow> newline \<notin> set l \<and> \<not> ends_with [carriage_return] l"

definition path_ok :: "ustr \<Rightarrow> bool" where
  "path_ok p \<longleftrightarrow> p \<noteq> [] \<and> newline \<notin> set p \<and> \<not> is_whitespace (last p)"

definition env_ok :: "ustr \<Rightarrow> bool" where
  "env_ok e \<longleftrightarrow> path_ok e \<and> \<not> is_whitespace (hd e)"

definition env_option_ok :: "ustr option \<Rightarrow> bool" where
  "env_option_ok env \<longleftrightarrow> (case env of None \<Rightarrow> True | Some e \<Rightarrow> env_ok e)"

definition chunk_ok :: "update_file_chunk \<Rightarrow> bool" where
  "chunk_ok c \<longleftrightarrow> chunk_has_lines c \<and> (\<forall>l \<in> set (old_lines c @ new_lines c). line_ok l)
     \<and> (case change_context c of None \<Rightarrow> True | Some ctx \<Rightarrow> line_ok ctx)"

fun hunk_ok :: "hunk \<Rightarrow> bool" where
  "hunk_ok (AddFile p contents) \<longleftrightarrow>
     path_ok p \<and> (contents = [] \<or> last contents = newline)
     \<and> (\<forall>l \<in> set (split_on newline contents). line_ok l)"
| "hunk_ok (DeleteFile p) \<longleftrightarrow> path_ok p"
| "hunk_ok (UpdateFile p m cs) \<longleftrightarrow>
     path_ok p \<and> (case m of None \<Rightarrow> True | Some d \<Rightarrow> line_ok d)
     \<and> cs \<noteq> [] \<and> (\<forall>c \<in> set cs. chunk_ok c)"

text \<open>Lines that end a chunk or a hunk: none, or a header line.\<close>

definition at_boundary :: "ustr list \<Rightarrow> bool" where
  "at_boundary ls \<longleftrightarrow> ls = [] \<or>
     (hd ls \<noteq> [] \<and> hd ls \<noteq> EOF_MARKER \<and> hd (hd ls) \<in> {chr CHR ''@'', chr CHR ''*''})"

lemma chunk_lines_loop_removed:
  "chunk_lines_loop (map ((#) (chr CHR ''-'')) os @ ls) n k c =
     chunk_lines_loop ls n (k + length os) (c\<lparr>old_lines := old_lines c @ os\<rparr>)"
  by (induction os arbitrary: k c) (simp_all add: marker_defs str_Cons)

lemma chunk_lines_loop_added:
  "chunk_lines_loop (map ((#) (chr CHR ''+'')) ns @ ls) n k c =
     chunk_lines_loop ls n (k + length ns) (c\<lparr>new_lines := new_lines c @ ns\<rparr>)"
  by (induction ns arbitrary: k c) (simp_all add: marker_defs str_Cons)

lemma chunk_lines_loop_boundary:
  "at_boundary ls \<Longrightarrow> 0 < k \<Longrightarrow> chunk_lines_loop ls n k c = Ok (c, k)"
  by (cases ls) (auto simp: at_boundary_def neq_Nil_conv)

lemma chunk_start_render:
  "chunk_start (hd (render_chunk c)) n a = Ok (change_context c, 1)"
  by (auto simp: render_chunk_def chunk_start_def marker_defs str_append str_Cons split: option.splits)

lemma parse_update_file_chunk_render:
  assumes "chunk_ok c" "at_boundary ls"
  shows "parse_update_file_chunk (render_chunk c @ ls) n a = Ok (c, length (render_chunk c))"
proof -
  let ?os = "old_lines c" and ?ns = "new_lines c"
  let ?body = "map ((#) (chr CHR ''-'')) ?os @ map ((#) (chr CHR ''+'')) ?ns
     @ (if is_end_of_file c then [EOF_MARKER] else []) @ ls"
  have pos: "0 < length ?os + length ?ns"
    using assms(1) by (auto simp: chunk_ok_def chunk_has_lines_def)
  have "chunk_lines_loop ?body n 0 (new_chunk (change_context c))
      = Ok (c, length (render_chunk c) - 1)"
  proof (cases "is_end_of_file c")
    case True
    then show ?thesis
      using pos by (simp add: chunk_lines_loop_removed chunk_lines_loop_added new_chunk_def
          render_chunk_def)
  next
    case False
    with pos assms(2) show ?thesis
      by (simp add: chunk_lines_loop_removed chunk_lines_loop_added new_chunk_def
          chunk_lines_loop_boundary render_chunk_def)
  qed
  with pos chunk_start_render [of c n a] show ?thesis
    by (auto simp: parse_update_file_chunk_def slice_from_def render_chunk_def)
qed

lemma render_chunk_head:
  "\<exists>l ls. render_chunk c = l # ls \<and> l \<noteq> [] \<and> l \<noteq> EOF_MARKER \<and> hd l = chr CHR ''@''
     \<and> trim l \<noteq> [] \<and> \<not> starts_with [chr CHR ''*''] l"
proof -
  let ?l = "hd (render_chunk c)"
  obtain r where r: "?l = chr CHR ''@'' # r"
    by (cases "change_context c") (simp_all add: render_chunk_def marker_defs str_Cons)
  have "\<not> is_whitespace (chr CHR ''@'')" by (simp add: is_whitespace_def chr_def)
  then have "trim_start ?l = ?l" by (simp add: r trim_start_Cons)
  moreover obtain w where "?l = trim_end ?l @ w" "\<forall>c \<in> set w. is_whitespace c"
    by (rule trim_end_split)
  ultimately have "trim ?l \<noteq> []"
    using r \<open>\<not> is_whitespace (chr CHR ''@'')\<close> by (auto simp: trim_def)
  moreover have "render_chunk c = ?l # tl (render_chunk c)" by (simp add: render_chunk_def)
  ultimately show ?thesis
    using r by (intro exI [of _ ?l] exI [of _ "tl (render_chunk c)"])
      (simp add: marker_defs str_Cons starts_with_def)
qed

lemma at_boundary_render_chunks:
  "at_boundary ls \<Longrightarrow> at_boundary (concat (map render_chunk cs) @ ls)"
proof (cases cs)
  case (Cons c cs')
  with render_chunk_head [of c] show ?thesis by (auto simp: at_boundary_def)
qed simp

lemma chunks_loop_render:
  assumes "\<forall>c \<in> set cs. chunk_ok c"
    and "ls = [] \<or> (at_boundary ls \<and> starts_with [chr CHR ''*''] (hd ls) \<and> trim (hd ls) \<noteq> [])"
  shows "chunks_loop (concat (map render_chunk cs) @ ls) n k cs0 =
     Ok (cs0 @ cs, k + length (concat (map render_chunk cs)))"
  using assms(1)
proof (induction cs arbitrary: k cs0)
  case Nil
  from assms(2) show ?case by (cases ls) (auto simp: chunks_loop_Cons)
next
  case (Cons c cs)
  let ?rest = "concat (map render_chunk cs) @ ls"
  obtain l tl where l: "render_chunk c = l # tl" "trim l \<noteq> []" "\<not> starts_with [chr CHR ''*''] l"
    using render_chunk_head [of c] by blast
  have "at_boundary ?rest"
    using assms(2) by (intro at_boundary_render_chunks) (auto simp: at_boundary_def)
  then have "parse_update_file_chunk (render_chunk c @ ?rest) m a = Ok (c, length (render_chunk c))"
    for m a using Cons.prems by (intro parse_update_file_chunk_render) auto
  moreover have "chunks_loop ?rest n (k + length (render_chunk c)) (cs0 @ [c]) =
      Ok ((cs0 @ [c]) @ cs, k + length (render_chunk c) + length (concat (map render_chunk cs)))"
    using Cons by simp
  ultimately show ?case
    using l by (simp add: chunks_loop_Cons slice_from_def)
qed

lemma add_lines_loop_render:
  "(ls = [] \<or> \<not> starts_with [chr CHR ''+''] (hd ls)) \<Longrightarrow>
   add_lines_loop (map ((#) (chr CHR ''+'')) as @ ls) c k =
     (c @ concat (map (\<lambda>l. l @ [newline]) as), k + length as)"
proof (induction as arbitrary: c k)
  case Nil
  then show ?case by (cases ls) (auto simp: starts_with_def)
qed simp

lemma concat_split_on:
  "s = [] \<or> last s = d \<Longrightarrow> concat (map (\<lambda>l. l @ [d]) (butlast (split_on d s))) = s"
proof (induction s)
  case (Cons c s)
  obtain p ps where ps: "split_on d s = p # ps" by (meson neq_Nil_conv split_on_not_Nil)
  show ?case
  proof (cases "s = []")
    case True
    with Cons.prems show ?thesis by simp
  next
    case False
    with Cons have IH: "concat (map (\<lambda>l. l @ [d]) (butlast (p # ps))) = s"
      using ps by auto
    with False have "ps \<noteq> []" by auto
    with IH ps show ?thesis by (cases "c = d") auto
  qed
qed simp

text \<open>Headers: what \<open>trim\<close> and the marker tests see of a rendered header.\<close>

lemma trim_header:
  assumes "path_ok p"
  shows "trim (ADD_FILE_MARKER @ p) = ADD_FILE_MARKER @ p"
    and "trim (DELETE_FILE_MARKER @ p) = DELETE_FILE_MARKER @ p"
    and "trim (UPDATE_FILE_MARKER @ p) = UPDATE_FILE_MARKER @ p"
  using assms by (intro trim_id; simp add: path_ok_def marker_defs is_whitespace_def chr_def)+

lemma header_prefixes:
  "strip_prefix ADD_FILE_MARKER (DELETE_FILE_MARKER @ p) = None"
  "strip_prefix ADD_FILE_MARKER (UPDATE_FILE_MARKER @ p) = None"
  "strip_prefix DELETE_FILE_MARKER (UPDATE_FILE_MARKER @ p) = None"
  "strip_prefix ENVIRONMENT_ID_MARKER (ADD_FILE_MARKER @ p) = None"
  "strip_prefix ENVIRONMENT_ID_MARKER (DELETE_FILE_MARKER @ p) = None"
  "strip_prefix ENVIRONMENT_ID_MARKER (UPDATE_FILE_MARKER @ p) = None"
  by (simp_all add: marker_defs str_Cons)

lemma render_hunk_head:
  assumes "hunk_ok h"
  shows "\<exists>l ls. render_hunk h = l # ls \<and> at_boundary (l # ls) \<and> starts_with [chr CHR ''*''] l
     \<and> \<not> starts_with [chr CHR ''+''] l \<and> trim l = l \<and> l \<noteq> []
     \<and> strip_prefix ENVIRONMENT_ID_MARKER l = None"
  using assms
  by (cases h) (simp_all add: at_boundary_def header_prefixes trim_header,
      simp_all add: starts_with_def marker_defs str_Cons)

definition at_hunk :: "ustr list \<Rightarrow> bool" where
  "at_hunk ls \<longleftrightarrow> ls = [] \<or>
     (at_boundary ls \<and> starts_with [chr CHR ''*''] (hd ls) \<and> trim (hd ls) \<noteq> []
      \<and> \<not> starts_with [chr CHR ''+''] (hd ls))"

lemma at_hunk_render:
  "\<forall>h \<in> set hs. hunk_ok h \<Longrightarrow> at_hunk (concat (map render_hunk hs))"
proof (cases hs)
  case (Cons h hs')
  moreover assume "\<forall>h \<in> set hs. hunk_ok h"
  ultimately show ?thesis
    using render_hunk_head [of h] by (auto simp: at_hunk_def at_boundary_def)
qed (simp add: at_hunk_def)

lemma parse_one_hunk_render:
  assumes "hunk_ok h" "at_hunk ls"
  shows "parse_one_hunk (render_hunk h @ ls) n = Ok (h, length (render_hunk h))"
proof (cases h)
  case (AddFile p contents)
  let ?as = "butlast (split_on newline contents)"
  have "add_lines_loop (map ((#) (chr CHR ''+'')) ?as @ ls) [] 1 =
      ([] @ concat (map (\<lambda>l. l @ [newline]) ?as), 1 + length ?as)"
    using assms(2) by (intro add_lines_loop_render) (auto simp: at_hunk_def)
  moreover have "concat (map (\<lambda>l. l @ [newline]) ?as) = contents"
    using AddFile assms(1) by (intro concat_split_on) auto
  ultimately have "add_lines_loop (tl (render_hunk h) @ ls) [] 1 = (contents, length (render_hunk h))"
    using AddFile by simp
  with AddFile assms(1) show ?thesis
    by (simp add: parse_one_hunk_def trim_header)
next
  case (DeleteFile p)
  with assms(1) show ?thesis
    by (simp add: parse_one_hunk_def trim_header header_prefixes)
next
  case (UpdateFile p m cs)
  with assms(2) have loop: "chunks_loop (concat (map render_chunk cs) @ ls) n k [] =
      Ok (cs, k + length (concat (map render_chunk cs)))" for k
    using assms(1) by (subst chunks_loop_render) (auto simp: at_hunk_def)
  obtain c cs' where cs: "cs = c # cs'" using UpdateFile assms(1) by (cases cs) auto
  obtain l r where "render_chunk c = l # r" "hd l = chr CHR ''@''" "l \<noteq> []"
    using render_chunk_head [of c] by blast
  then have body: "concat (map render_chunk cs) @ ls = l # r @ concat (map render_chunk cs') @ ls"
    and nomove: "strip_prefix MOVE_TO_MARKER l = None"
    by (cases l; simp add: cs marker_defs str_Cons)+
  have "chunks_loop (l # r @ concat (map render_chunk cs') @ ls) n k [] =
      Ok (cs, k + length (concat (map render_chunk cs)))" for k
    using loop by (simp add: body)
  moreover have "trim (UPDATE_FILE_MARKER @ p) = UPDATE_FILE_MARKER @ p"
    using UpdateFile assms(1) by (simp add: trim_header)
  ultimately show ?thesis
    using UpdateFile body nomove cs
    by (cases m) (simp_all add: parse_one_hunk_def header_prefixes)
qed

lemma hunks_loop_render:
  "\<forall>h \<in> set hs. hunk_ok h \<Longrightarrow> hunks_loop (concat (map render_hunk hs)) n hs0 = Ok (hs0 @ hs)"
proof (induction hs arbitrary: n hs0)
  case (Cons h hs)
  let ?rest = "concat (map render_hunk hs)"
  have "parse_one_hunk (render_hunk h @ ?rest) n = Ok (h, length (render_hunk h))"
    using Cons.prems by (intro parse_one_hunk_render at_hunk_render) auto
  moreover have "render_hunk h \<noteq> []" by (cases h) auto
  ultimately show ?case
    using Cons by (simp add: hunks_loop_step slice_from_def)
qed simp

lemma line_ok_append:
  "line_ok l \<Longrightarrow> newline \<notin> set m \<Longrightarrow> m \<noteq> [] \<Longrightarrow> last m \<noteq> carriage_return \<Longrightarrow> line_ok (m @ l)"
  by (cases l rule: rev_cases) (auto simp: line_ok_def ends_with_iff append_eq_append_conv2)

lemma path_ok_line_ok: "path_ok p \<Longrightarrow> line_ok p"
  by (auto simp: path_ok_def line_ok_def ends_with_iff is_whitespace_def carriage_return_def)

lemma marker_lines:
  "newline \<notin> set BEGIN_PATCH_MARKER" "newline \<notin> set ENVIRONMENT_ID_MARKER"
  "newline \<notin> set END_PATCH_MARKER" "newline \<notin> set ADD_FILE_MARKER"
  "newline \<notin> set DELETE_FILE_MARKER" "newline \<notin> set UPDATE_FILE_MARKER"
  "newline \<notin> set MOVE_TO_MARKER" "newline \<notin> set EOF_MARKER"
  "newline \<notin> set CHANGE_CONTEXT_MARKER" "newline \<notin> set EMPTY_CHANGE_CONTEXT_MARKER"
  "newline \<noteq> chr CHR ''+''" "newline \<noteq> chr CHR ''-''"
  by (simp_all add: marker_defs set_str newline_def chr_def)

lemma marker_ends:
  "last BEGIN_PATCH_MARKER = 104" "last ENVIRONMENT_ID_MARKER = 32"
  "last END_PATCH_MARKER = 104" "last ADD_FILE_MARKER = 32"
  "last DELETE_FILE_MARKER = 32" "last UPDATE_FILE_MARKER = 32"
  "last MOVE_TO_MARKER = 32" "last EOF_MARKER = 101"
  "last CHANGE_CONTEXT_MARKER = 32" "last EMPTY_CHANGE_CONTEXT_MARKER = 64"
  by (simp_all add: marker_defs chr_def)

lemma marker_nonempty [simp]:
  "BEGIN_PATCH_MARKER \<noteq> []" "ENVIRONMENT_ID_MARKER \<noteq> []" "END_PATCH_MARKER \<noteq> []"
  "ADD_FILE_MARKER \<noteq> []" "DELETE_FILE_MARKER \<noteq> []" "UPDATE_FILE_MARKER \<noteq> []"
  "MOVE_TO_MARKER \<noteq> []" "EOF_MARKER \<noteq> []" "CHANGE_CONTEXT_MARKER \<noteq> []"
  "EMPTY_CHANGE_CONTEXT_MARKER \<noteq> []"
  by (simp_all add: marker_defs)

lemma line_okI: "newline \<notin> set l \<Longrightarrow> l \<noteq> [] \<Longrightarrow> last l \<noteq> carriage_return \<Longrightarrow> line_ok l"
  by (auto simp: line_ok_def ends_with_iff)

lemmas marker_line_facts = marker_lines marker_ends carriage_return_def

lemma render_chunk_lines_ok:
  assumes "chunk_ok c" "l \<in> set (render_chunk c)"
  shows "line_ok l"
proof -
  have ctx: "line_ok (CHANGE_CONTEXT_MARKER @ x)" if "line_ok x" for x
    using that by (intro line_ok_append) (simp_all add: marker_line_facts)
  have mk: "line_ok EMPTY_CHANGE_CONTEXT_MARKER" "line_ok EOF_MARKER"
    by (intro line_okI; simp add: marker_line_facts)+
  have pm: "line_ok (chr CHR ''-'' # x)" "line_ok (chr CHR ''+'' # x)" if "line_ok x" for x
    using line_ok_append [OF that, of "[chr CHR ''-'']"] line_ok_append [OF that, of "[chr CHR ''+'']"]
    by (simp_all add: newline_def carriage_return_def chr_def)
  show ?thesis
    using assms ctx mk pm
    by (auto simp: render_chunk_def chunk_ok_def split: option.splits if_splits)
qed

lemma render_hunk_lines_ok:
  assumes "hunk_ok h" "l \<in> set (render_hunk h)"
  shows "line_ok l"
proof -
  have hd: "line_ok (ADD_FILE_MARKER @ p)" "line_ok (DELETE_FILE_MARKER @ p)"
    "line_ok (UPDATE_FILE_MARKER @ p)" if "path_ok p" for p
    using path_ok_line_ok [OF that]
    by (intro line_ok_append; simp add: marker_line_facts)+
  have mv: "line_ok (MOVE_TO_MARKER @ d)" if "line_ok d" for d
    using that by (intro line_ok_append) (simp_all add: marker_line_facts)
  have plus: "line_ok (chr CHR ''+'' # x)" if "line_ok x" for x
    using line_ok_append [OF that, of "[chr CHR ''+'']"]
    by (simp add: newline_def carriage_return_def chr_def)
  show ?thesis
    using assms hd mv plus render_chunk_lines_ok
    by (cases h) (auto split: option.splits dest: in_set_butlastD)
qed

definition render_lines :: "ustr option \<Rightarrow> hunk list \<Rightarrow> ustr list" where
  "render_lines env hs =
     (case env of None \<Rightarrow> [] | Some e \<Rightarrow> [ENVIRONMENT_ID_MARKER @ e]) @ concat (map render_hunk hs)"

lemma render_patch_lines:
  "render_patch env hs =
     join_with [newline] (BEGIN_PATCH_MARKER # render_lines env hs @ [END_PATCH_MARKER])"
  by (simp add: render_patch_def render_lines_def)

lemma render_lines_ok:
  assumes "\<forall>h \<in> set hs. hunk_ok h" "env_option_ok env" "l \<in> set (render_lines env hs)"
  shows "line_ok l"
proof -
  have "line_ok (ENVIRONMENT_ID_MARKER @ e)" if "env_ok e" for e
    using that path_ok_line_ok
    by (intro line_ok_append) (auto simp: env_ok_def marker_line_facts)
  with assms show ?thesis
    by (auto simp: render_lines_def render_hunk_lines_ok env_option_ok_def split: option.splits)
qed

lemma join_with_ends:
  "hd (join_with sep ((c # cs) # ps)) = c"
  "q \<noteq> [] \<Longrightarrow> last (join_with sep (ps @ [q])) = last q"
proof -
  show "hd (join_with sep ((c # cs) # ps)) = c" by (cases ps) auto
  show "last (join_with sep (ps @ [q])) = last q" if "q \<noteq> []"
  proof -
    have "join_with sep (ps @ [q]) \<noteq> [] \<and> last (join_with sep (ps @ [q])) = last q"
      using that by (induction ps) (auto simp: join_with_Cons)
    then show ?thesis ..
  qed
qed

lemma lines_render_patch:
  assumes "\<forall>h \<in> set hs. hunk_ok h" "env_option_ok env"
  shows "lines (trim (render_patch env hs)) =
     BEGIN_PATCH_MARKER # render_lines env hs @ [END_PATCH_MARKER]" (is "_ = ?ls")
proof -
  have "hd (render_patch env hs) = chr CHR ''*''"
    by (simp add: render_patch_lines BEGIN_PATCH_MARKER_def str_Cons join_with_ends)
  moreover have "last (render_patch env hs) = 104"
    using join_with_ends(2) [of END_PATCH_MARKER "[newline]" "BEGIN_PATCH_MARKER # render_lines env hs"]
    by (simp add: render_patch_lines marker_ends)
  ultimately have "trim (render_patch env hs) = join_with [newline] ?ls"
    by (subst trim_id) (simp_all add: is_whitespace_def chr_def render_patch_lines)
  moreover have "lines (join_with [newline] ?ls) = ?ls"
  proof (rule lines_join)
    have "line_ok BEGIN_PATCH_MARKER" "line_ok END_PATCH_MARKER"
      by (intro line_okI; simp add: marker_line_facts)+
    then have "line_ok l" if "l \<in> set ?ls" for l
      using that render_lines_ok [OF assms] by auto
    then show "\<forall>l \<in> set ?ls. newline \<notin> set l"
      and "\<forall>l \<in> set (butlast ?ls). \<not> ends_with [carriage_return] l"
      by (auto simp: line_ok_def dest: in_set_butlastD)
  qed simp_all
  ultimately show ?thesis by simp
qed

lemma trim_boundary_markers [simp]:
  "trim BEGIN_PATCH_MARKER = BEGIN_PATCH_MARKER" "trim END_PATCH_MARKER = END_PATCH_MARKER"
  by (intro trim_id; simp add: marker_defs is_whitespace_def chr_def)+

lemma parse_environment_id_preamble_render:
  assumes "\<forall>h \<in> set hs. hunk_ok h" "env_option_ok env"
  shows "\<exists>n. parse_environment_id_preamble (render_lines env hs) =
     Ok (env, concat (map render_hunk hs), n)"
proof (cases env)
  case None
  show ?thesis
  proof (cases hs)
    case Nil
    with None show ?thesis by (simp add: render_lines_def parse_environment_id_preamble_def)
  next
    case (Cons h hs')
    with assms(1) obtain l ls where l: "render_hunk h = l # ls" "trim l = l" "l \<noteq> []"
      "strip_prefix ENVIRONMENT_ID_MARKER l = None" "starts_with [chr CHR ''*''] l"
      using render_hunk_head [of h] by auto
    then have "trim_start l = l"
      by (intro trim_start_id) (auto simp: starts_with_iff is_whitespace_def chr_def)
    with l None Cons show ?thesis
      by (simp add: render_lines_def parse_environment_id_preamble_def)
  qed
next
  case (Some e)
  with assms(2) have "trim e = e" "e \<noteq> []"
    by (auto simp: env_option_ok_def env_ok_def path_ok_def intro: trim_id)
  moreover have "trim_start (ENVIRONMENT_ID_MARKER @ e) = ENVIRONMENT_ID_MARKER @ e"
    by (intro trim_start_id) (simp add: marker_defs is_whitespace_def chr_def)
  ultimately show ?thesis
    using Some by (simp add: render_lines_def parse_environment_id_preamble_def)
qed

lemma parse_rendered_patch:
  assumes "\<forall>h \<in> set hs. hunk_ok h" "env_option_ok env"
  shows "parse_patch (render_patch env hs) =
     Ok \<lparr>patch = render_patch env hs, hunks = hs, workdir = None, environment_id = env\<rparr>"
proof -
  let ?ls = "BEGIN_PATCH_MARKER # render_lines env hs @ [END_PATCH_MARKER]"
  obtain n where "parse_environment_id_preamble (render_lines env hs) =
      Ok (env, concat (map render_hunk hs), n)"
    using parse_environment_id_preamble_render [OF assms] by blast
  moreover have "check_patch_boundaries_lenient ?ls = Ok (?ls, render_lines env hs)"
    by (simp add: check_patch_boundaries_lenient_def check_patch_boundaries_strict_simps)
  ultimately show ?thesis
    using hunks_loop_render [OF assms(1), of n "[]"] lines_render_patch [OF assms]
    by (simp add: parse_patch_def parse_patch_text_def PARSE_IN_STRICT_MODE_def render_patch_lines)
qed

text \<open>
  C1: parsing inverts printing. For hunks whose paths and lines the line format can carry,
  parsing the printed patch returns exactly those hunks and the environment id, and the
  recorded patch text is the printed one.
\<close>

theorem parse_render_patch:
  assumes "\<forall>h \<in> set hs. hunk_ok h" "env_option_ok env"
  shows "parse_patch (render_patch env hs) =
     Ok \<lparr>patch = render_patch env hs, hunks = hs, workdir = None, environment_id = env\<rparr>"
  using assms by (rule parse_rendered_patch)

theorem parse_render_patch_witness:
  "parse_patch (render_patch (Some (str ''remote''))
      [AddFile (str ''a.txt'') (str ''hi'' @ [newline]),
       UpdateFile (str ''b.rs'') (Some (str ''c.rs''))
         [\<lparr>change_context = Some (str ''fn f''), old_lines = [str ''old''],
           new_lines = [str ''new'', []], is_end_of_file = True\<rparr>]])
   = Ok \<lparr>patch = render_patch (Some (str ''remote''))
      [AddFile (str ''a.txt'') (str ''hi'' @ [newline]),
       UpdateFile (str ''b.rs'') (Some (str ''c.rs''))
         [\<lparr>change_context = Some (str ''fn f''), old_lines = [str ''old''],
           new_lines = [str ''new'', []], is_end_of_file = True\<rparr>]],
      hunks = [AddFile (str ''a.txt'') (str ''hi'' @ [newline]),
       UpdateFile (str ''b.rs'') (Some (str ''c.rs''))
         [\<lparr>change_context = Some (str ''fn f''), old_lines = [str ''old''],
           new_lines = [str ''new'', []], is_end_of_file = True\<rparr>]],
      workdir = None, environment_id = Some (str ''remote'')\<rparr>"
  by (rule parse_render_patch; code_simp)

text \<open>A patch with loose white space around its markers, an added file without lines and an update.\<close>

definition loose_patch :: ustr where
  "loose_patch = join_with [newline] [str ''*** Begin Patch '', str '' *** Add File: a'', str ''*** Update File: b'', str ''@@'',
     str ''-x'', str ''+y'', str ''*** End Patch'']"

theorem parse_patch_wf_witness:
  "\<exists>args. parse_patch loose_patch = Ok args \<and> length (hunks args) = 2 \<and> list_all wf_hunk (hunks args)
     \<and> environment_id args \<noteq> Some []"
proof -
  have "case parse_patch loose_patch of Ok args \<Rightarrow> length (hunks args) = 2 | _ \<Rightarrow> False" by code_simp
  then obtain args where "parse_patch loose_patch = Ok args" "length (hunks args) = 2" by (auto split: outcome.splits)
  with parse_patch_wf [of loose_patch args] show ?thesis by (auto simp: list_all_iff)
qed

section \<open>Heredoc wrappers\<close>

lemma is_heredoc_start_facts:
  assumes "is_heredoc_start h"
  shows "hd h = chr CHR ''<''" "h \<noteq> []" "newline \<notin> set h" "strip_cr h = h"
    "trim h \<noteq> BEGIN_PATCH_MARKER"
proof -
  have hd: "hd h = chr CHR ''<''" and ne: "h \<noteq> []"
    using assms by (auto simp: is_heredoc_start_def str_Cons)
  show "newline \<notin> set h" "strip_cr h = h"
    using assms by (auto simp: is_heredoc_start_def set_str newline_def chr_def strip_cr_def
        strip_suffix_def carriage_return_def str_Cons)
  have "\<not> is_whitespace (last h)"
    using assms by (auto simp: is_heredoc_start_def is_whitespace_def chr_def)
  then have "trim h = h"
    using hd by (intro trim_id) (simp_all add: is_whitespace_def chr_def)
  then show "trim h \<noteq> BEGIN_PATCH_MARKER"
    using hd by (auto simp: marker_defs str_Cons)
  show "hd h = chr CHR ''<''" "h \<noteq> []" by (fact hd, fact ne)
qed

text \<open>
  Lenient mode is transparent to a heredoc wrapper. A trimmed patch between a
  \<open><<EOF\<close>, \<open><<'EOF'\<close> or \<open><<"EOF"\<close> line and an \<open>EOF\<close> line parses exactly as the patch alone.
\<close>

theorem parse_patch_heredoc:
  assumes "trim t = t" "check_patch_boundaries_strict (lines t) = Ok r" "is_heredoc_start h"
  shows "parse_patch (h @ newline # t @ newline # str ''EOF'') = parse_patch t"
proof -
  note h = is_heredoc_start_facts [OF assms(3)]
  let ?w = "h @ newline # t @ newline # str ''EOF''"
  from assms(2) obtain f mid l where ls: "lines t = f # mid @ [l]"
    by (auto simp: check_patch_boundaries_strict_Ok)
  have t: "t \<noteq> []" using ls by (auto simp: lines_def)
  then have "\<not> is_whitespace (last t)" using assms(1) trim_last [of t] by simp
  then have "lines (t @ newline # str ''EOF'') = lines t @ [str ''EOF'']"
    using t by (intro lines_snoc) (auto simp: set_str newline_def chr_def)
  then have lw: "lines ?w = h # lines t @ [str ''EOF'']"
    using h by (simp add: lines_Cons)
  have "trim ?w = ?w"
    using h by (intro trim_id) (simp_all add: is_whitespace_def chr_def)
  moreover have "check_patch_boundaries_lenient (lines ?w) = Ok r"
  proof -
    have "check_patch_boundaries_strict (lines ?w) = Err (InvalidPatchError first_line_message)"
      using h by (simp add: lw check_patch_boundaries_strict_simps)
    moreover have "slice_range 1 (length (lines ?w) - 1) (lines ?w) = Ok (lines t)"
      for e by (simp add: lw slice_range_def)
    ultimately show ?thesis
      using assms(2,3) ls
      by (simp add: check_patch_boundaries_lenient_def lw usize_sub_def slice_range_def
          ends_with_iff)
  qed
  ultimately show ?thesis
    using assms(1,2)
    by (simp add: parse_patch_def parse_patch_text_def PARSE_IN_STRICT_MODE_def
        check_patch_boundaries_lenient_def)
qed

theorem parse_patch_heredoc_witness:
  "parse_patch (str ''<<EOF'' @ newline # render_patch None [DeleteFile (str ''x'')] @ newline # str ''EOF'')
   = parse_patch (render_patch None [DeleteFile (str ''x'')])"
  by (rule parse_patch_heredoc [where r = "(lines (render_patch None [DeleteFile (str ''x'')]),
        [DELETE_FILE_MARKER @ str ''x''])"]; code_simp)

section \<open>Line numbers of errors\<close>

lemma chunk_lines_loop_err_line:
  "chunk_lines_loop ls n k c = Err (InvalidHunkError m i) \<Longrightarrow> i = n + 1 \<and> ls \<noteq> []"
proof (induction ls n k c rule: chunk_lines_loop.induct)
  case (2 line rest n k c)
  then show ?case by (cases line) (auto split: if_splits)
qed simp

lemma chunk_start_err_line: "chunk_start l n a = Err (InvalidHunkError m i) \<Longrightarrow> i = n"
  by (auto simp: chunk_start_def split: if_splits option.splits)

lemma parse_update_file_chunk_err_line:
  assumes "parse_update_file_chunk ls n a = Err (InvalidHunkError m i)" "ls \<noteq> []"
  shows "n \<le> i \<and> i \<le> n + length ls"
proof -
  obtain l0 rest where ls: "ls = l0 # rest" using assms(2) by (cases ls) auto
  show ?thesis
  proof (cases "chunk_start l0 n a")
    case (Ok cs)
    obtain ctx s where cs: "cs = (ctx, s)" by (cases cs)
    have "i = n + 1"
    proof (cases "length ls \<le> s")
      case False
      with assms(1) Ok cs ls have "chunk_lines_loop (drop s ls) n 0 (new_chunk ctx) =
          Err (InvalidHunkError m i)"
        by (auto simp: parse_update_file_chunk_def obind_eq_Err slice_from_def)
      then show ?thesis by (auto dest: chunk_lines_loop_err_line)
    qed (use assms(1) Ok cs ls in \<open>simp add: parse_update_file_chunk_def\<close>)
    with ls show ?thesis by simp
  next
    case (Err e)
    with assms(1) ls show ?thesis
      by (auto simp: parse_update_file_chunk_def dest: chunk_start_err_line)
  qed (simp add: chunk_start_no_panic)
qed

lemma chunks_loop_err_line:
  "chunks_loop ls n k cs = Err (InvalidHunkError m i) \<Longrightarrow> n \<le> i \<and> i \<le> n + k + length ls"
proof (induction "length ls" arbitrary: ls k cs rule: less_induct)
  case less
  show ?case
  proof (cases ls)
    case Nil
    with less.prems show ?thesis by simp
  next
    case (Cons l0 rest)
    consider (blank) "chunks_loop rest n (k + 1) cs = Err (InvalidHunkError m i)"
      | (here) "parse_update_file_chunk ls (n + k) (cs = []) = Err (InvalidHunkError m i)"
      | (later) c j where "parse_update_file_chunk ls (n + k) (cs = []) = Ok (c, j)" "j \<le> length ls"
          "chunks_loop (drop j ls) n (k + j) (cs @ [c]) = Err (InvalidHunkError m i)"
      using less.prems Cons
      by (auto simp: chunks_loop_Cons obind_eq_Err slice_from_def split: if_splits)
    then show ?thesis
    proof cases
      case blank
      with less.hyps [of rest "k + 1" cs] Cons show ?thesis by simp
    next
      case here
      with Cons show ?thesis by (auto dest!: parse_update_file_chunk_err_line)
    next
      case later
      then have "length (drop j ls) < length ls"
        using Cons by (auto dest!: parse_update_file_chunk_consumed)
      from less.hyps [OF this later(3)] later(2) show ?thesis by simp
    qed
  qed
qed

lemma parse_one_hunk_err_line:
  assumes "parse_one_hunk ls n = Err (InvalidHunkError m i)"
  shows "n \<le> i \<and> i \<le> n + length ls"
proof -
  consider "i = n" | rl k where "chunks_loop rl n k [] = Err (InvalidHunkError m i)"
      "k + length rl \<le> length ls"
    using assms
    by (auto simp: parse_one_hunk_def Let_def obind_eq_Err split: list.splits option.splits
        prod.splits if_splits)
  then show ?thesis
  proof cases
    case 2
    from chunks_loop_err_line [OF 2(1)] 2(2) show ?thesis by simp
  qed simp
qed

lemma hunks_loop_err_line:
  "hunks_loop ls n hs = Err (InvalidHunkError m i) \<Longrightarrow> n \<le> i \<and> i \<le> n + length ls"
proof (induction ls n hs rule: hunks_loop.induct)
  case (1 ls n hs)
  show ?case
  proof (cases "ls = []")
    case True
    with "1.prems" show ?thesis by simp
  next
    case False
    then consider (here) "parse_one_hunk ls n = Err (InvalidHunkError m i)"
      | (later) h k where "parse_one_hunk ls n = Ok (h, k)" "k \<le> length ls"
          "hunks_loop (drop k ls) (n + k) (hs @ [h]) = Err (InvalidHunkError m i)"
      using "1.prems" by (auto simp: hunks_loop_step obind_eq_Err slice_from_def split: if_splits)
    then show ?thesis
    proof cases
      case here
      then show ?thesis by (rule parse_one_hunk_err_line)
    next
      case later
      with "1.IH" [OF False later(1) refl, of "drop k ls"] show ?thesis by simp
    qed
  qed
qed

text \<open>
  The line number of an invalid-hunk error is a line of the patch: it is at least 2 (the
  first line after the begin marker) and at most the number of lines between and including
  the patch markers, heredoc wrapper excluded.
\<close>

theorem parse_patch_error_line:
  assumes "parse_patch text = Err (InvalidHunkError m i)"
  shows "\<exists>ls inner. check_patch_boundaries_lenient (lines (trim text)) = Ok (ls, inner)
     \<and> 2 \<le> i \<and> i \<le> length ls"
proof -
  let ?ls = "lines (trim text)"
  have strict: "check_patch_boundaries_strict x \<noteq> Err (InvalidHunkError m i)" for x
    by (cases x rule: line_list_cases) (auto simp: check_patch_boundaries_strict_simps)
  then have "check_patch_boundaries_lenient ?ls \<noteq> Err (InvalidHunkError m i)"
    by (auto simp: check_patch_boundaries_lenient_def obind_eq_Err usize_sub_def slice_range_def
        split: list.splits outcome.splits)
  moreover have "parse_environment_id_preamble x \<noteq> Err (InvalidHunkError m i)" for x
    by (auto simp: parse_environment_id_preamble_def Let_def split: list.splits option.splits)
  ultimately obtain pl hl e rl k where b: "check_patch_boundaries_lenient ?ls = Ok (pl, hl)"
    and pre: "parse_environment_id_preamble hl = Ok (e, rl, k)"
    and loop: "hunks_loop rl k [] = Err (InvalidHunkError m i)"
    using assms
    by (auto simp: parse_patch_def parse_patch_text_def PARSE_IN_STRICT_MODE_def Let_def obind_eq_Err)
  have "2 \<le> k \<and> k + length rl = 2 + length hl"
    using pre by (auto simp: parse_environment_id_preamble_def Let_def
        split: list.splits option.splits if_splits)
  moreover have "length pl = 2 + length hl"
    using b by (auto simp: check_patch_boundaries_lenient_def check_patch_boundaries_strict_Ok
        obind_eq_Ok split: outcome.splits list.splits if_splits)
  ultimately show ?thesis using hunks_loop_err_line [OF loop] b by auto
qed

theorem parse_patch_error_line_witness:
  "\<exists>ls inner. check_patch_boundaries_lenient (lines (trim
        (join_with [newline] [BEGIN_PATCH_MARKER, str ''bad'', END_PATCH_MARKER]))) = Ok (ls, inner)
     \<and> 2 \<le> (2::nat) \<and> 2 \<le> length ls"
  by (rule parse_patch_error_line [where m = "invalid_header_message (str ''bad'')"]) code_simp

end
