(* ===== verification/Seek_Sequence.thy ===== *)
theory Seek_Sequence
  imports Prelude
begin

text \<open>
  The fuzzy line search of \<open>codex-rs/apply-patch/src/seek_sequence.rs\<close>: four passes of
  decreasing strictness over the same range of start indices, whose slices and indices panic when they are out
  of range. The theory shows that the search never panics, that a hit is
  in range and matches up to normalisation, that the first pass that matches anywhere wins
  and gives its least index, and when the search fails.
\<close>

section \<open>The search\<close>

text \<open>The character mapping of \<open>normalise\<close>.\<close>

definition normalise_char :: "uchar \<Rightarrow> uchar" where
  "normalise_char c =
     (if c \<in> {0x2010, 0x2011, 0x2012, 0x2013, 0x2014, 0x2015, 0x2212} then chr CHR ''-''
      else if c \<in> {0x2018, 0x2019, 0x201A, 0x201B} then 39
      else if c \<in> {0x201C, 0x201D, 0x201E, 0x201F} then 34
      else if c \<in> {0x00A0, 0x2002, 0x2003, 0x2004, 0x2005, 0x2006, 0x2007, 0x2008, 0x2009,
                   0x200A, 0x202F, 0x205F, 0x3000} then chr CHR '' ''
      else c)"

definition normalise :: "ustr \<Rightarrow> ustr" where
  "normalise s = map normalise_char (trim s)"

text \<open>
  The comparisons of one candidate position, \<open>None\<close> for a panic. The exact pass compares a slice, which panics when the
  slice ends after the lines; the other passes compare line by line through the pass's key, stop at the first
  difference, and panic on an index past the end.
\<close>

definition slice_eq :: "ustr list \<Rightarrow> ustr list \<Rightarrow> nat \<Rightarrow> bool option" where
  "slice_eq ls pattern i =
     (if i + length pattern \<le> length ls then Some (take (length pattern) (drop i ls) = pattern) else None)"

fun matches_at :: "(ustr \<Rightarrow> ustr) \<Rightarrow> ustr list \<Rightarrow> ustr list \<Rightarrow> nat \<Rightarrow> bool option" where
  "matches_at key ls [] i = Some True"
| "matches_at key ls (pat # pats) i =
     (if length ls \<le> i then None
      else if key (ls ! i) = key pat then matches_at key ls pats (Suc i) else Some False)"

text \<open>\<open>for i in search_start..=lines.len().saturating_sub(pattern.len())\<close>: least matching index.\<close>

function search_pass :: "(nat \<Rightarrow> bool option) \<Rightarrow> nat \<Rightarrow> nat \<Rightarrow> nat option option" where
  "search_pass test i hi =
     (if hi < i then Some None
      else (case test i of
              None \<Rightarrow> None
            | Some ok \<Rightarrow> if ok then Some (Some i) else search_pass test (Suc i) hi))"
  by pat_completeness auto
termination
  by (relation "measure (\<lambda>(_, i, hi). Suc hi - i)") auto

declare search_pass.simps [simp del]

definition search_start :: "ustr list \<Rightarrow> ustr list \<Rightarrow> nat \<Rightarrow> bool \<Rightarrow> nat" where
  "search_start ls pattern start eof =
     (if eof \<and> length pattern \<le> length ls then length ls - length pattern else start)"

text \<open>The next pass runs when this one found nothing.\<close>

fun next_pass :: "nat option option \<Rightarrow> nat option option \<Rightarrow> nat option option" where
  "next_pass (Some None) later = later"
| "next_pass found later = found"

definition seek_sequence :: "ustr list \<Rightarrow> ustr list \<Rightarrow> nat \<Rightarrow> bool \<Rightarrow> nat option option" where
  "seek_sequence ls pattern start eof =
     (if pattern = [] then Some (Some start)
      else if length ls < length pattern then Some None
      else
        (let i0 = search_start ls pattern start eof; hi = length ls - length pattern in
         next_pass (search_pass (slice_eq ls pattern) i0 hi)
        (next_pass (search_pass (matches_at trim_end ls pattern) i0 hi)
        (next_pass (search_pass (matches_at trim ls pattern) i0 hi)
                 (search_pass (matches_at normalise ls pattern) i0 hi)))))"

section \<open>The search without panics\<close>

text \<open>
  The reference: comparisons that hold or fail, and the search over them. The length guard of \<open>seek_sequence\<close> and the upper
  end of the loops keep every slice and index in range, so the search never panics and is the reference.
\<close>

fun agrees_at :: "(ustr \<Rightarrow> ustr) \<Rightarrow> ustr list \<Rightarrow> ustr list \<Rightarrow> nat \<Rightarrow> bool" where
  "agrees_at key ls [] i \<longleftrightarrow> True"
| "agrees_at key ls (pat # pats) i \<longleftrightarrow>
     i < length ls \<and> key (ls ! i) = key pat \<and> agrees_at key ls pats (Suc i)"

function least_match :: "(ustr \<Rightarrow> ustr) \<Rightarrow> ustr list \<Rightarrow> ustr list \<Rightarrow> nat \<Rightarrow> nat \<Rightarrow> nat option" where
  "least_match key ls pattern i hi =
     (if hi < i then None
      else if agrees_at key ls pattern i then Some i
      else least_match key ls pattern (Suc i) hi)"
  by pat_completeness auto
termination
  by (relation "measure (\<lambda>(_, _, _, i, hi). Suc hi - i)") auto

declare least_match.simps [simp del]

definition found_at :: "ustr list \<Rightarrow> ustr list \<Rightarrow> nat \<Rightarrow> bool \<Rightarrow> nat option" where
  "found_at ls pattern start eof =
     (if pattern = [] then Some start
      else if length ls < length pattern then None
      else
        (let i0 = search_start ls pattern start eof; hi = length ls - length pattern in
         case least_match (\<lambda>s. s) ls pattern i0 hi of
           Some i \<Rightarrow> Some i
         | None \<Rightarrow>
        (case least_match trim_end ls pattern i0 hi of
           Some i \<Rightarrow> Some i
         | None \<Rightarrow>
        (case least_match trim ls pattern i0 hi of
           Some i \<Rightarrow> Some i
         | None \<Rightarrow> least_match normalise ls pattern i0 hi))))"

section \<open>One pass\<close>

lemma agrees_at_iff:
  "agrees_at key ls pats i \<longleftrightarrow>
     (pats = [] \<or> i + length pats \<le> length ls) \<and>
     (\<forall>j < length pats. key (ls ! (i + j)) = key (pats ! j))"
proof (induction pats arbitrary: i)
  case (Cons p ps)
  have "(\<forall>j < Suc (length ps). key (ls ! (i + j)) = key ((p # ps) ! j)) \<longleftrightarrow>
      key (ls ! i) = key p \<and> (\<forall>j < length ps. key (ls ! (Suc i + j)) = key (ps ! j))"
    by (auto simp: less_Suc_eq_0_disj)
  with Cons show ?case by (cases ps) auto
qed simp

lemma agrees_at_take_drop:
  assumes "i + length pats \<le> length ls"
  shows "agrees_at key ls pats i \<longleftrightarrow> map key (take (length pats) (drop i ls)) = map key pats"
proof -
  have "length (take (length pats) (drop i ls)) = length pats" using assms by simp
  then have "map key (take (length pats) (drop i ls)) = map key pats \<longleftrightarrow>
      (\<forall>j < length pats. key (ls ! (i + j)) = key (pats ! j))"
    using assms by (subst list_eq_iff_nth_eq) simp
  then show ?thesis using assms by (simp add: agrees_at_iff)
qed

lemma least_match_simps:
  "hi < i \<Longrightarrow> least_match key ls pat i hi = None"
  "i \<le> hi \<Longrightarrow> agrees_at key ls pat i \<Longrightarrow> least_match key ls pat i hi = Some i"
  "i \<le> hi \<Longrightarrow> \<not> agrees_at key ls pat i \<Longrightarrow>
     least_match key ls pat i hi = least_match key ls pat (Suc i) hi"
  by (simp_all add: least_match.simps [of key ls pat i hi])

lemma from_Suc: "(\<forall>j. i \<le> j \<and> Q j \<longrightarrow> P j) \<longleftrightarrow> (Q i \<longrightarrow> P i) \<and> (\<forall>j. Suc i \<le> j \<and> Q j \<longrightarrow> P j)"
  for i :: nat
  by (metis Suc_leD Suc_leI le_neq_implies_less order_refl)

lemma least_match_SomeD:
  "least_match key ls pat i hi = Some k \<Longrightarrow>
     i \<le> k \<and> k \<le> hi \<and> agrees_at key ls pat k \<and> (\<forall>j. i \<le> j \<and> j < k \<longrightarrow> \<not> agrees_at key ls pat j)"
proof (induction key ls pat i hi rule: least_match.induct)
  case (1 key ls pat i hi)
  consider "hi < i" | "i \<le> hi" "agrees_at key ls pat i" | "i \<le> hi" "\<not> agrees_at key ls pat i"
    by linarith
  then show ?case
  proof cases
    case 3
    with 1 show ?thesis by (subst from_Suc) (auto simp: least_match_simps)
  qed (use 1 in \<open>auto simp: least_match_simps\<close>)
qed

lemma least_match_None_iff:
  "least_match key ls pat i hi = None \<longleftrightarrow> (\<forall>j. i \<le> j \<and> j \<le> hi \<longrightarrow> \<not> agrees_at key ls pat j)"
proof (induction key ls pat i hi rule: least_match.induct)
  case (1 key ls pat i hi)
  consider "hi < i" | "i \<le> hi" "agrees_at key ls pat i" | "i \<le> hi" "\<not> agrees_at key ls pat i"
    by linarith
  then show ?case
  proof cases
    case 3
    with 1 show ?thesis by (subst from_Suc) (auto simp: least_match_simps)
  qed (auto simp: least_match_simps)
qed

lemma least_match_SomeI:
  assumes "i \<le> k" "k \<le> hi" "agrees_at key ls pat k"
    and "\<And>j. i \<le> j \<Longrightarrow> j < k \<Longrightarrow> \<not> agrees_at key ls pat j"
  shows "least_match key ls pat i hi = Some k"
proof (cases "least_match key ls pat i hi")
  case None
  with assms show ?thesis by (auto simp: least_match_None_iff)
next
  case (Some m)
  from least_match_SomeD [OF this] assms have "m = k"
    by (metis linorder_cases)
  with Some show ?thesis by simp
qed

section \<open>The passes are nested\<close>

lemma trim_start_trim_end_commute: "trim_start (trim_end s) = trim_end (trim_start s)"
proof -
  have "dropWhile P (rev (dropWhile P (rev s))) = rev (dropWhile P (rev (dropWhile P s)))" for P :: "nat \<Rightarrow> bool"
  proof (induction s)
    case (Cons c s)
    show ?case
    proof (cases "P c")
      case True
      show ?thesis
      proof (cases "\<forall>x \<in> set s. P x")
        case True
        with \<open>P c\<close> show ?thesis by (auto simp: dropWhile_append dest: set_dropWhileD)
      next
        case False
        then have "rev (dropWhile P (rev (c # s))) = c # rev (dropWhile P (rev s))"
          by (auto simp: dropWhile_append)
        with Cons \<open>P c\<close> show ?thesis by simp
      qed
    next
      case False
      then have "rev (dropWhile P (rev (c # s))) = c # rev (dropWhile P (rev s)) \<or> dropWhile P (rev s) = []"
        by (auto simp: dropWhile_append)
      with False show ?thesis by (auto simp: dropWhile_append)
    qed
  qed simp
  then show ?thesis by (simp add: trim_start_def trim_end_def)
qed

lemma trim_of_trim_end: "trim (trim_end s) = trim s"
  by (simp add: trim_def trim_start_trim_end_commute)

lemma agrees_at_mono:
  assumes "\<And>a b. key a = key b \<Longrightarrow> key' a = key' b"
  shows "agrees_at key ls pat i \<Longrightarrow> agrees_at key' ls pat i"
proof (induction pat arbitrary: i)
  case (Cons p ps)
  then show ?case using assms [of "ls ! i" p] by simp
qed simp

lemma exact_imp_rstrip: "agrees_at (\<lambda>s. s) ls pat i \<Longrightarrow> agrees_at trim_end ls pat i"
  by (erule agrees_at_mono [rotated]) simp

lemma rstrip_imp_trim: "agrees_at trim_end ls pat i \<Longrightarrow> agrees_at trim ls pat i"
  by (erule agrees_at_mono [rotated]) (metis trim_of_trim_end)

lemma trim_imp_normalise: "agrees_at trim ls pat i \<Longrightarrow> agrees_at normalise ls pat i"
  by (erule agrees_at_mono [rotated]) (simp add: normalise_def)

lemmas pass_nesting = exact_imp_rstrip rstrip_imp_trim trim_imp_normalise

section \<open>The search never panics\<close>

lemma matches_at_eq: "i + length pats \<le> length ls \<Longrightarrow> matches_at key ls pats i = Some (agrees_at key ls pats i)"
  by (induction pats arbitrary: i) auto

lemma slice_eq_eq: "i + length pats \<le> length ls \<Longrightarrow> slice_eq ls pats i = Some (agrees_at (\<lambda>s. s) ls pats i)"
  using agrees_at_take_drop [of i pats ls "\<lambda>s. s"] by (simp add: slice_eq_def)

lemma search_pass_eq:
  "\<forall>j \<le> hi. test j = Some (agrees_at key ls pats j) \<Longrightarrow> search_pass test i hi = Some (least_match key ls pats i hi)"
proof (induction key ls pats i hi rule: least_match.induct)
  case (1 key ls pats i hi)
  then show ?case by (auto simp: search_pass.simps [of test i hi] least_match.simps [of key ls pats i hi])
qed

lemma next_pass_Some [simp]: "next_pass (Some x) (Some y) = Some (case x of Some i \<Rightarrow> Some i | None \<Rightarrow> y)"
  by (cases x) simp_all

lemma seek_sequence_eq [simp]: "seek_sequence ls pats start eof = Some (found_at ls pats start eof)"
proof (cases "pats = [] \<or> length ls < length pats")
  case False
  have "search_pass (slice_eq ls pats) i (length ls - length pats) =
      Some (least_match (\<lambda>s. s) ls pats i (length ls - length pats))" for i
    using False by (intro search_pass_eq) (auto simp: slice_eq_eq)
  moreover have "search_pass (matches_at key ls pats) i (length ls - length pats) =
      Some (least_match key ls pats i (length ls - length pats))" for key i
    using False by (intro search_pass_eq) (auto simp: matches_at_eq)
  ultimately show ?thesis using False by (simp add: seek_sequence_def found_at_def Let_def)
qed (auto simp: seek_sequence_def found_at_def)

section \<open>Correctness of the search\<close>

lemma found_at_Nil [simp]: "found_at ls [] start eof = Some start"
  by (simp add: found_at_def)

lemma found_at_too_long [simp]:
  "length ls < length pat \<Longrightarrow> found_at ls pat start eof = None"
  by (auto simp: found_at_def)

text \<open>Whatever pass hits, the index is in the searched range and matches up to normalisation.\<close>

lemma found_at_SomeD:
  assumes "found_at ls pat start eof = Some i" "pat \<noteq> []"
  shows "search_start ls pat start eof \<le> i" "i + length pat \<le> length ls"
    "agrees_at normalise ls pat i"
proof -
  from assms have len: "length pat \<le> length ls"
    by (auto simp: found_at_def not_less split: if_splits)
  from assms len obtain key where "least_match key ls pat (search_start ls pat start eof)
      (length ls - length pat) = Some i" "key \<in> {\<lambda>s. s, trim_end, trim, normalise}"
    by (auto simp: found_at_def Let_def split: option.splits)
  moreover have "agrees_at normalise ls pat i" if "agrees_at key ls pat i"
    using that \<open>key \<in> _\<close> by (auto intro: pass_nesting)
  ultimately show "search_start ls pat start eof \<le> i" "i + length pat \<le> length ls"
    "agrees_at normalise ls pat i"
    using len by (auto dest!: least_match_SomeD)
qed

lemma found_at_None:
  "found_at ls pat start eof = None \<longleftrightarrow>
     pat \<noteq> [] \<and> (\<nexists>i. search_start ls pat start eof \<le> i \<and> i + length pat \<le> length ls
        \<and> agrees_at normalise ls pat i)"
proof (cases "pat = [] \<or> length ls < length pat")
  case False
  let ?i0 = "search_start ls pat start eof" and ?hi = "length ls - length pat"
  have range: "i \<le> ?hi \<longleftrightarrow> i + length pat \<le> length ls" for i
    using False by auto
  have "found_at ls pat start eof = None \<longleftrightarrow>
      (\<forall>key \<in> {\<lambda>s. s, trim_end, trim, normalise}. least_match key ls pat ?i0 ?hi = None)"
    using False by (auto simp: found_at_def Let_def split: option.splits)
  also have "\<dots> \<longleftrightarrow> (\<forall>j. ?i0 \<le> j \<and> j \<le> ?hi \<longrightarrow> \<not> agrees_at normalise ls pat j)"
    unfolding least_match_None_iff by (auto dest: pass_nesting)
  finally show ?thesis using False by (auto simp: range)
qed auto

text \<open>
  The search fails exactly when no position of the searched range matches after
  normalisation; so a hit is found whenever the most permissive comparison has one.
\<close>

theorem seek_sequence_None_iff:
  "seek_sequence ls pat start eof = Some None \<longleftrightarrow>
     pat \<noteq> [] \<and> (\<nexists>i. search_start ls pat start eof \<le> i \<and> i + length pat \<le> length ls
        \<and> agrees_at normalise ls pat i)"
  by (simp add: found_at_None)

text \<open>
  A hit lies within the file, at or after the position the search starts from, and
  every matched line equals its pattern line after trimming and mapping typographic dashes,
  quotes and spaces to ASCII.
\<close>

theorem seek_sequence_sound:
  assumes "seek_sequence ls pat start eof = Some (Some i)" "pat \<noteq> []"
  shows "(\<not> eof \<longrightarrow> start \<le> i) \<and> i + length pat \<le> length ls
     \<and> map normalise (take (length pat) (drop i ls)) = map normalise pat"
proof -
  have "found_at ls pat start eof = Some i" using assms(1) by simp
  note d = found_at_SomeD [OF this assms(2)]
  from d(2,3) have "map normalise (take (length pat) (drop i ls)) = map normalise pat"
    by (simp add: agrees_at_take_drop)
  with d(1,2) show ?thesis by (auto simp: search_start_def)
qed

theorem seek_sequence_sound_witness:
  "(\<not> False \<longrightarrow> 0 \<le> (1::nat)) \<and> 1 + length [str ''b''] \<le> length [str ''a'', str '' b'']
     \<and> map normalise (take (length [str ''b'']) (drop 1 [str ''a'', str '' b''])) = map normalise [str ''b'']"
  using seek_sequence_sound [of "[str ''a'', str '' b'']" "[str ''b'']" 0 False 1] by code_simp

lemma found_at_exact:
  assumes "agrees_at (\<lambda>s. s) ls pat k" "start \<le> k" "pat \<noteq> []"
    and "\<And>j. start \<le> j \<Longrightarrow> j < k \<Longrightarrow> \<not> agrees_at (\<lambda>s. s) ls pat j"
  shows "found_at ls pat start False = Some k"
proof -
  have "k + length pat \<le> length ls" using assms(1,3) by (simp add: agrees_at_iff)
  with assms have "least_match (\<lambda>s. s) ls pat start (length ls - length pat) = Some k"
    by (intro least_match_SomeI) auto
  with assms(3) \<open>k + length pat \<le> length ls\<close> show ?thesis
    by (simp add: found_at_def search_start_def)
qed

text \<open>
  Exact matches take precedence. If the pattern occurs verbatim at some searched
  position, the search returns the first verbatim occurrence, even when an earlier position
  matches only up to white space or punctuation.
\<close>

theorem seek_sequence_exact_first:
  assumes "agrees_at (\<lambda>s. s) ls pat k" "start \<le> k" "pat \<noteq> []"
    and "\<And>j. start \<le> j \<Longrightarrow> j < k \<Longrightarrow> \<not> agrees_at (\<lambda>s. s) ls pat j"
  shows "seek_sequence ls pat start False = Some (Some k)"
  using found_at_exact [OF assms] by simp

theorem seek_sequence_exact_first_witness:
  "seek_sequence [str '' b'', str ''b''] [str ''b''] 0 False = Some (Some 1)"
proof (rule seek_sequence_exact_first)
  fix j :: nat
  assume "j < 1"
  then show "\<not> agrees_at (\<lambda>s. s) [str '' b'', str ''b''] [str ''b''] j" by simp
qed simp_all

text \<open>
  With \<open>eof\<close> set the start position is ignored: the only position tried is the end of
  the file, and there is no fallback to a search from \<open>start\<close>.
\<close>

theorem seek_sequence_eof:
  assumes "pat \<noteq> []" "length pat \<le> length ls"
  shows "seek_sequence ls pat start True =
     Some (if agrees_at normalise ls pat (length ls - length pat)
           then Some (length ls - length pat) else None)"
proof (cases "found_at ls pat start True")
  case None
  with assms show ?thesis
    by (auto simp: found_at_None search_start_def)
next
  case (Some i)
  from found_at_SomeD [OF Some assms(1)] assms(2) have "i = length ls - length pat"
    by (simp add: search_start_def)
  with Some found_at_SomeD(3) [OF Some assms(1)] show ?thesis by simp
qed

theorem seek_sequence_eof_witness:
  "seek_sequence [str ''x'', str ''y''] [str ''x''] 0 True =
     Some (if agrees_at normalise [str ''x'', str ''y''] [str ''x''] (2 - 1) then Some (2 - 1) else None)"
  using seek_sequence_eof [of "[str ''x'']" "[str ''x'', str ''y'']" 0] by simp

section \<open>The contract of a line search\<close>

text \<open>
  What the patch applier relies on, for any search: it never panics, an empty pattern is found where the search
  starts, a hit lies within the file and its lines are equivalent to the pattern's, and a
  search that is not anchored at the end of the file never moves backwards.
\<close>

locale line_search =
  fixes seek :: "ustr list \<Rightarrow> ustr list \<Rightarrow> nat \<Rightarrow> bool \<Rightarrow> nat option option"
    and similar :: "ustr \<Rightarrow> ustr \<Rightarrow> bool"
  assumes seek_total: "seek ls pat start eof \<noteq> None"
    and seek_Nil: "seek ls [] start eof = Some (Some start)"
    and seek_within: "seek ls pat start eof = Some (Some i) \<Longrightarrow> pat \<noteq> [] \<Longrightarrow> i + length pat \<le> length ls"
    and seek_similar:
      "seek ls pat start eof = Some (Some i) \<Longrightarrow> pat \<noteq> [] \<Longrightarrow>
         list_all2 similar (take (length pat) (drop i ls)) pat"
    and seek_forward: "seek ls pat start False = Some (Some i) \<Longrightarrow> start \<le> i"
begin

lemma seek_bound:
  assumes "seek ls pat start eof = Some (Some i)" "start \<le> length ls"
  shows "i + length pat \<le> length ls"
  using assms seek_within [of ls pat start eof i] by (cases "pat = []") (auto simp: seek_Nil)

lemma seek_region:
  assumes "seek ls pat start eof = Some (Some i)" "start \<le> length ls"
  shows "list_all2 similar (take (length pat) (drop i ls)) pat"
  using assms seek_similar [of ls pat start eof i] by (cases "pat = []") auto

end

definition similar_lines :: "ustr \<Rightarrow> ustr \<Rightarrow> bool" where
  "similar_lines a b \<longleftrightarrow> normalise a = normalise b"

interpretation ls: line_search seek_sequence similar_lines
proof
  show "seek_sequence ls pat start eof \<noteq> None" for ls pat start eof by simp
  show "seek_sequence ls [] start eof = Some (Some start)" for ls start eof
    by simp
  show "i + length pat \<le> length ls" if "seek_sequence ls pat start eof = Some (Some i)" "pat \<noteq> []"
    for ls pat start eof i
    using found_at_SomeD(2) [of ls pat start eof i] that by simp
  show "list_all2 similar_lines (take (length pat) (drop i ls)) pat"
    if "seek_sequence ls pat start eof = Some (Some i)" "pat \<noteq> []" for ls pat start eof i
  proof -
    have "map normalise (take (length pat) (drop i ls)) = map normalise pat"
      using found_at_SomeD(2,3) [of ls pat start eof i] that by (simp add: agrees_at_take_drop)
    then show ?thesis
      by (simp add: similar_lines_def [abs_def] flip: list.rel_eq add: list.rel_map)
  qed
  show "start \<le> i" if "seek_sequence ls pat start False = Some (Some i)" for ls pat start i
    using that found_at_SomeD(1) [of ls pat start False i] by (cases "pat = []") (auto simp: search_start_def)
qed

end
