(* ===== verification/Absolute_Path.thy ===== *)
theory Absolute_Path
  imports Prelude
begin

text \<open>
  Paths on Unix: the lexical path operations of \<open>std::path\<close> that the code uses, and the
  normalising absolute paths of \<open>codex-rs/utils/absolute-path\<close> (\<open>absolutize.rs\<close> and the
  constructors of \<open>AbsolutePathBuf\<close>). An absolute normalised path is the list of its names;
  \<open>abs_display\<close> is the text of the \<open>PathBuf\<close>. The branches under \<open>cfg(windows)\<close> are not part
  of the model, and the home directory of the process is an argument.
\<close>

section \<open>Lexical paths\<close>

definition slash :: uchar where "slash = 47"
definition dot :: ustr where "dot = [46]"
definition dotdot :: ustr where "dotdot = [46, 46]"

datatype component = RootDir | CurDir | ParentDir | Normal ustr

definition is_absolute :: "ustr \<Rightarrow> bool" where
  "is_absolute p \<longleftrightarrow> (case p of [] \<Rightarrow> False | c # _ \<Rightarrow> c = slash)"

definition seg_component :: "ustr \<Rightarrow> component" where
  "seg_component s = (if s = dotdot then ParentDir else Normal s)"

text \<open>
  \<open>Path::components\<close>: empty segments and \<open>.\<close> segments disappear, except a leading \<open>.\<close> of a
  relative path.
\<close>

definition components :: "ustr \<Rightarrow> component list" where
  "components p =
     (let segs = split_on slash p in
      (if is_absolute p then [RootDir] else if hd segs = dot then [CurDir] else [])
      @ map seg_component (filter (\<lambda>s. s \<noteq> [] \<and> s \<noteq> dot) segs))"

text \<open>\<open>Path::join\<close> and \<open>Path::file_name\<close>.\<close>

definition path_join :: "ustr \<Rightarrow> ustr \<Rightarrow> ustr" where
  "path_join base p =
     (if is_absolute p then p
      else if base = [] \<or> last base = slash then base @ p else base @ slash # p)"

definition file_name :: "ustr \<Rightarrow> ustr option" where
  "file_name p = (case last_opt (components p) of Some (Normal n) \<Rightarrow> Some n | _ \<Rightarrow> None)"

text \<open>\<open>Path::file_stem\<close>: the file name without its last extension; a leading dot starts no extension.\<close>

definition stem :: "ustr \<Rightarrow> ustr" where
  "stem n =
     (let before = rev (tl (dropWhile (\<lambda>c. c \<noteq> 46) (rev n))) in
      if 46 \<in> set n \<and> before \<noteq> [] then before else n)"

definition file_stem :: "ustr \<Rightarrow> ustr option" where
  "file_stem p = map_option stem (file_name p)"

text \<open>Paths are compared by their components.\<close>

definition path_eq :: "ustr \<Rightarrow> ustr \<Rightarrow> bool" where
  "path_eq p q \<longleftrightarrow> components p = components q"

section \<open>Normalisation\<close>

text \<open>
  A \<open>PathBuf\<close> that \<open>normalize_path\<close> builds: whether it has a root, and its names. \<open>pop\<close> drops
  the last name and does nothing on a root or an empty path; pushing a root resets it.
\<close>

type_synonym npath = "bool \<times> ustr list"

fun normalize_step :: "npath \<Rightarrow> component \<Rightarrow> npath" where
  "normalize_step (root, names) CurDir = (root, names)"
| "normalize_step (root, names) ParentDir = (root, butlast names)"
| "normalize_step (root, names) RootDir = (True, [])"
| "normalize_step (root, names) (Normal n) = (root, names @ [n])"

definition npath_display :: "npath \<Rightarrow> ustr" where
  "npath_display np = (case np of (root, names) \<Rightarrow>
     (if root then [slash] else []) @ join_with [slash] names)"

definition normalize_path :: "ustr \<Rightarrow> ustr" where
  "normalize_path p =
     (let normalized = npath_display (foldl normalize_step (False, []) (components p)) in
      if normalized = [] then dot else normalized)"

definition path_with_base :: "ustr \<Rightarrow> ustr \<Rightarrow> ustr" where
  "path_with_base p base = (if is_absolute p then p else path_join base p)"

definition absolutize_from :: "ustr \<Rightarrow> ustr \<Rightarrow> ustr" where
  "absolutize_from p base = normalize_path (path_with_base p base)"

section \<open>AbsolutePathBuf\<close>

text \<open>\<open>home\<close> is the result of \<open>home_dir()\<close>.\<close>

definition maybe_expand_home_directory :: "ustr option \<Rightarrow> ustr \<Rightarrow> ustr" where
  "maybe_expand_home_directory home p =
     (case home of
        None \<Rightarrow> p
      | Some h \<Rightarrow>
          (case strip_prefix [chr CHR ''~''] p of
             None \<Rightarrow> p
           | Some rest \<Rightarrow>
               if rest = [] then h
               else (case strip_prefix [slash] rest of
                       None \<Rightarrow> p
                     | Some rest' \<Rightarrow> path_join h (dropWhile (\<lambda>c. c = slash) rest'))))"

definition resolve_path_against_base :: "ustr option \<Rightarrow> ustr \<Rightarrow> ustr \<Rightarrow> ustr" where
  "resolve_path_against_base home p base =
     absolutize_from (maybe_expand_home_directory home p) base"

text \<open>\<open>AbsolutePathBuf::try_from\<close>; \<open>cwd\<close> is the process's working directory.\<close>

definition from_absolute_path :: "ustr option \<Rightarrow> ustr \<Rightarrow> ustr \<Rightarrow> ustr" where
  "from_absolute_path home cwd p =
     (let expanded = maybe_expand_home_directory home p in
      if is_absolute expanded then normalize_path expanded else absolutize_from expanded cwd)"

text \<open>
  \<open>TryFrom<String>\<close>: the process environment gives the home directory and the working
  directory, \<open>None\<close> when \<open>current_dir()\<close> fails.
\<close>

record path_env =
  home_dir :: "ustr option"
  current_dir :: "ustr option"

definition abs_try_from :: "path_env \<Rightarrow> ustr \<Rightarrow> ustr option" where
  "abs_try_from env p =
     (if is_absolute (maybe_expand_home_directory (home_dir env) p)
      then Some (from_absolute_path (home_dir env) [] p)
      else map_option (\<lambda>cwd. from_absolute_path (home_dir env) cwd p) (current_dir env))"

text \<open>\<open>AbsolutePathBuf::parent\<close> on a normalised absolute path.\<close>

definition abs_parent :: "ustr \<Rightarrow> ustr option" where
  "abs_parent p =
     (case rev (components p) of
        Normal n # rest \<Rightarrow> Some (npath_display (foldl normalize_step (False, []) (rev rest)))
      | _ \<Rightarrow> None)"

section \<open>Normal forms\<close>

definition name_ok :: "ustr \<Rightarrow> bool" where
  "name_ok n \<longleftrightarrow> n \<noteq> [] \<and> slash \<notin> set n \<and> n \<noteq> dot \<and> n \<noteq> dotdot"

definition abs_display :: "ustr list \<Rightarrow> ustr" where
  "abs_display names = npath_display (True, names)"

definition is_normal_abs :: "ustr \<Rightarrow> bool" where
  "is_normal_abs p \<longleftrightarrow> (\<exists>names. list_all name_ok names \<and> p = abs_display names)"

lemma file_name_piece: "file_name p = Some n \<Longrightarrow> n \<in> set (split_on slash p)"
proof -
  assume "file_name p = Some n"
  then have "components p \<noteq> []" "last (components p) = Normal n"
    by (auto simp: file_name_def last_opt_def split: if_splits option.splits component.splits)
  then have "Normal n \<in> set (components p)" by (metis last_in_set)
  then show "n \<in> set (split_on slash p)"
    by (auto simp: components_def Let_def seg_component_def split: if_splits)
qed

lemma length_stem: "length (stem n) < length n \<or> stem n = n"
proof (cases "46 \<in> set n")
  case True
  have "length (dropWhile (\<lambda>c. c \<noteq> 46) (rev n)) \<le> length n"
    using length_dropWhile_le [of "\<lambda>c. c \<noteq> 46" "rev n"] by simp
  moreover have "dropWhile (\<lambda>c. c \<noteq> 46) (rev n) \<noteq> []" using True by (simp add: dropWhile_eq_Nil_conv)
  ultimately have "length (tl (dropWhile (\<lambda>c. c \<noteq> 46) (rev n))) < length n"
    by (cases "dropWhile (\<lambda>c. c \<noteq> 46) (rev n)") simp_all
  then show ?thesis by (simp add: stem_def Let_def)
qed (simp add: stem_def)

lemma file_stem_shorter: "file_stem p = Some s \<Longrightarrow> length s < length p \<or> s = p"
proof -
  assume "file_stem p = Some s"
  then obtain n where n: "file_name p = Some n" "s = stem n" by (auto simp: file_stem_def)
  from split_on_length [OF file_name_piece [OF n(1)]] length_stem [of n] n(2)
  show "length s < length p \<or> s = p" by (metis order.strict_trans)
qed

lemma expand_home_absolute [simp]:
  "is_absolute p \<Longrightarrow> maybe_expand_home_directory home p = p"
  by (cases p) (auto simp: is_absolute_def maybe_expand_home_directory_def slash_def chr_def split: option.splits)

lemma foldl_normalize_names:
  "foldl normalize_step (r, ns) (map Normal ms) = (r, ns @ ms)"
  by (induction ms arbitrary: ns) auto

lemma normalize_step_ok:
  "list_all name_ok (snd np) \<Longrightarrow> (\<And>n. c = Normal n \<Longrightarrow> name_ok n) \<Longrightarrow>
   list_all name_ok (snd (normalize_step np c))"
  by (cases "(np, c)" rule: normalize_step.cases)
    (auto simp: list_all_iff dest: in_set_butlastD)

lemma foldl_normalize_ok:
  "list_all name_ok (snd np) \<Longrightarrow> (\<And>n. Normal n \<in> set cs \<Longrightarrow> name_ok n) \<Longrightarrow>
   list_all name_ok (snd (foldl normalize_step np cs))"
proof (induction cs arbitrary: np)
  case (Cons c cs)
  have "list_all name_ok (snd (normalize_step np c))"
    using Cons.prems by (intro normalize_step_ok) auto
  with Cons show ?case by simp
qed simp

lemma foldl_normalize_root: "fst np \<Longrightarrow> fst (foldl normalize_step np cs)"
proof (induction cs arbitrary: np)
  case (Cons c cs)
  then have "fst (normalize_step np c)"
    by (cases "(np, c)" rule: normalize_step.cases) auto
  with Cons show ?case by simp
qed simp

lemma components_Normal: "Normal n \<in> set (components p) \<Longrightarrow> name_ok n"
  by (auto simp: components_def Let_def seg_component_def name_ok_def split: if_splits
      dest: split_on_pieces)

lemma normalize_path_absolute:
  assumes "is_absolute p"
  shows "is_normal_abs (normalize_path p)"
proof -
  let ?r = "foldl normalize_step (False, []) (components p)"
  obtain cs where cs: "components p = RootDir # cs"
    using assms by (simp add: components_def Let_def)
  have "fst (foldl normalize_step (True, []) cs)" by (rule foldl_normalize_root) simp
  then have "fst ?r" by (simp add: cs)
  moreover have "list_all name_ok (snd ?r)"
    by (rule foldl_normalize_ok) (auto dest: components_Normal)
  ultimately have "\<exists>names. list_all name_ok names \<and> npath_display ?r = abs_display names"
    by (intro exI [of _ "snd ?r"]) (simp add: abs_display_def split: prod.splits, metis prod.collapse)
  moreover have "npath_display ?r \<noteq> []"
    using \<open>fst ?r\<close> by (auto simp: npath_display_def split: prod.splits)
  ultimately show ?thesis by (auto simp: normalize_path_def is_normal_abs_def Let_def)
qed

lemma is_absolute_abs_display [simp]: "is_absolute (abs_display names)"
  by (simp add: abs_display_def npath_display_def is_absolute_def)

lemma split_on_abs_display:
  "list_all name_ok names \<Longrightarrow>
   split_on slash (abs_display names) = [] # (if names = [] then [[]] else names)"
  by (auto simp: abs_display_def npath_display_def list_all_iff name_ok_def intro!: split_on_join)

lemma components_abs_display:
  assumes "list_all name_ok names"
  shows "components (abs_display names) = RootDir # map Normal names"
proof -
  have "filter (\<lambda>s. s \<noteq> [] \<and> s \<noteq> dot) names = names"
    using assms by (auto simp: list_all_iff name_ok_def intro!: filter_True)
  moreover have "map seg_component names = map Normal names"
    using assms by (auto simp: list_all_iff name_ok_def seg_component_def)
  ultimately show ?thesis
    using assms by (simp add: components_def split_on_abs_display)
qed

lemma normalize_path_normal [simp]:
  "list_all name_ok names \<Longrightarrow> normalize_path (abs_display names) = abs_display names"
  by (simp add: normalize_path_def components_abs_display foldl_normalize_names)
    (simp add: abs_display_def npath_display_def)

lemma is_absolute_path_join [simp]: "is_absolute base \<Longrightarrow> is_absolute (path_join base p)"
  by (auto simp: path_join_def is_absolute_def split: list.splits)

lemma resolve_path_normal:
  "is_absolute base \<Longrightarrow> is_normal_abs (resolve_path_against_base home p base)"
  by (simp add: resolve_path_against_base_def absolutize_from_def path_with_base_def
      normalize_path_absolute)

section \<open>Prefixes and joins\<close>

text \<open>\<open>Path::starts_with\<close> and \<open>Path::strip_prefix\<close> compare whole components.\<close>

definition path_starts_with :: "ustr \<Rightarrow> ustr \<Rightarrow> bool" where
  "path_starts_with p base \<longleftrightarrow> starts_with (components base) (components p)"

definition path_strip_prefix :: "ustr \<Rightarrow> ustr \<Rightarrow> component list option" where
  "path_strip_prefix p base = strip_prefix (components base) (components p)"

text \<open>\<open>AbsolutePathBuf::join\<close>, and \<open>Path::ancestors\<close> of an absolute path.\<close>

definition abs_join :: "ustr option \<Rightarrow> ustr \<Rightarrow> ustr \<Rightarrow> ustr" where
  "abs_join home base p = resolve_path_against_base home p base"

fun normal_names :: "component list \<Rightarrow> ustr list" where
  "normal_names [] = []"
| "normal_names (Normal n # cs) = n # normal_names cs"
| "normal_names (_ # cs) = normal_names cs"

definition ancestors :: "ustr \<Rightarrow> ustr list" where
  "ancestors p =
     (let names = normal_names (components p) in
      map (\<lambda>k. abs_display (take k names)) (rev [0..<length names + 1]))"

lemma normal_names_map [simp]: "normal_names (map Normal ns) = ns"
  by (induction ns) simp_all

lemma normal_names_append [simp]: "normal_names (cs @ ds) = normal_names cs @ normal_names ds"
  by (induction cs rule: normal_names.induct) simp_all

lemma ancestors_last: "last (ancestors p) = [slash]"
  by (simp add: ancestors_def Let_def last_map last_rev abs_display_def npath_display_def del: upt_Suc)

lemma is_normal_absE:
  assumes "is_normal_abs p"
  obtains names where "list_all name_ok names" "p = abs_display names"
  using assms by (auto simp: is_normal_abs_def)

lemma abs_try_from_absolute:
  "is_absolute p \<Longrightarrow> abs_try_from env p = Some (normalize_path p)"
  by (simp add: abs_try_from_def from_absolute_path_def)

lemma abs_try_from_normal [simp]:
  "is_normal_abs p \<Longrightarrow> abs_try_from env p = Some p"
  by (erule is_normal_absE) (simp add: abs_try_from_absolute)

lemma path_starts_with_refl [simp]: "path_starts_with p p"
  by (simp add: path_starts_with_def starts_with_iff)

lemma path_starts_with_trans:
  "path_starts_with p q \<Longrightarrow> path_starts_with q r \<Longrightarrow> path_starts_with p r"
  by (auto simp: path_starts_with_def starts_with_iff)

lemma path_starts_with_display:
  "list_all name_ok ns \<Longrightarrow> list_all name_ok ms \<Longrightarrow>
   path_starts_with (abs_display ns) (abs_display ms) \<longleftrightarrow> starts_with ms ns"
  unfolding path_starts_with_def
  by (auto simp: components_abs_display starts_with_iff) (metis normal_names_append normal_names_map)

end
