(* ===== verification/Patch_Apply.thy ===== *)
theory Patch_Apply
  imports Patch_Parser Seek_Sequence Absolute_Path
begin

text \<open>
  Applying a parsed patch: \<open>codex-rs/apply-patch/src/lib.rs\<close>. The first half is the text
  transformation of one file (\<open>compute_replacements\<close>, \<open>apply_replacements\<close>,
  \<open>derive_new_contents_from_chunks\<close>); the second half runs the hunks against a file system and
  records what was committed in an \<open>AppliedPatchDelta\<close>. The file system is the trait
  \<open>ExecutorFileSystem\<close>, a record of functions that every operation takes as an argument.
\<close>

section \<open>Errors\<close>

datatype error_kind = NotFound | AlreadyExists | InvalidInput | Other | OtherKind nat

record io_error =
  io_kind :: error_kind
  io_text :: ustr

datatype apply_patch_error =
    ParseError parse_error
  | IoError ustr io_error \<comment> \<open>context, source\<close>
  | ComputeReplacements ustr
  | ImplicitInvocation

fun parse_error_to_string :: "parse_error \<Rightarrow> ustr" where
  "parse_error_to_string (InvalidPatchError m) = str ''invalid patch: '' @ m"
| "parse_error_to_string (InvalidHunkError m n) =
     str ''invalid hunk at line '' @ show_nat n @ str '', '' @ m"

fun apply_patch_error_to_string :: "apply_patch_error \<Rightarrow> ustr" where
  "apply_patch_error_to_string (ParseError e) = parse_error_to_string e"
| "apply_patch_error_to_string (IoError c s) = c @ str '': '' @ io_text s"
| "apply_patch_error_to_string (ComputeReplacements m) = m"
| "apply_patch_error_to_string ImplicitInvocation =
     str ''patch detected without explicit call to apply_patch. Rerun as ['' @ [34]
     @ str ''apply_patch'' @ [34] @ str '', '' @ [34] @ str ''<patch>'' @ [34] @ str '']''"

section \<open>Replacements\<close>

type_synonym replacement = "nat \<times> nat \<times> ustr list" \<comment> \<open>start index, old length, new lines\<close>

definition last_is_empty :: "ustr list \<Rightarrow> bool" where
  "last_is_empty ls \<longleftrightarrow> last_opt ls = Some []"

text \<open>The search for a chunk's context line, which moves \<open>line_index\<close> past it.\<close>

definition seek_context ::
  "(ustr list \<Rightarrow> ustr list \<Rightarrow> nat \<Rightarrow> bool \<Rightarrow> nat option option) \<Rightarrow> ustr list \<Rightarrow> ustr \<Rightarrow> ustr option \<Rightarrow> nat
    \<Rightarrow> (nat, apply_patch_error) outcome" where
  "seek_context seek ls path ctx line_index =
     (case ctx of
        None \<Rightarrow> Ok line_index
      | Some c \<Rightarrow>
          (case seek ls [c] line_index False of
             None \<Rightarrow> Panic
           | Some (Some idx) \<Rightarrow> Ok (idx + 1)
           | Some None \<Rightarrow> Err (ComputeReplacements
               (str ''Failed to find context '' @ [39] @ c @ [39] @ str '' in '' @ path))))"

definition insertion_idx :: "ustr list \<Rightarrow> nat" where
  "insertion_idx ls = (if last_is_empty ls then length ls - 1 else length ls)"

text \<open>
  Locating the old lines, with the retry that drops the trailing empty line of the pattern:
  the start index, the pattern that was found and the new lines that replace it; \<open>None\<close> for a panic of the search.
\<close>

definition locate_old_lines ::
  "(ustr list \<Rightarrow> ustr list \<Rightarrow> nat \<Rightarrow> bool \<Rightarrow> nat option option) \<Rightarrow> ustr list \<Rightarrow> update_file_chunk \<Rightarrow> nat
    \<Rightarrow> (nat option \<times> ustr list \<times> ustr list) option" where
  "locate_old_lines seek ls chunk line_index =
     (let pattern = old_lines chunk; new_slice = new_lines chunk in
      case seek ls pattern line_index (is_end_of_file chunk) of
        None \<Rightarrow> None
      | Some found \<Rightarrow>
          if found = None \<and> last_is_empty pattern then
            (let pattern = butlast pattern;
                 new_slice = (if last_is_empty new_slice then butlast new_slice else new_slice)
             in map_option (\<lambda>found. (found, pattern, new_slice)) (seek ls pattern line_index (is_end_of_file chunk)))
          else Some (found, pattern, new_slice))"

definition chunk_replacement ::
  "(ustr list \<Rightarrow> ustr list \<Rightarrow> nat \<Rightarrow> bool \<Rightarrow> nat option option) \<Rightarrow> ustr list \<Rightarrow> ustr \<Rightarrow> update_file_chunk \<Rightarrow> nat
    \<Rightarrow> (replacement \<times> nat, apply_patch_error) outcome" where
  "chunk_replacement seek ls path chunk line_index =
     obind (seek_context seek ls path (change_context chunk) line_index) (\<lambda>line_index.
       if old_lines chunk = [] then
         Ok ((insertion_idx ls, 0, new_lines chunk), line_index)
       else
         (case locate_old_lines seek ls chunk line_index of
            None \<Rightarrow> Panic
          | Some (Some start_idx, pattern, new_slice) \<Rightarrow>
              Ok ((start_idx, length pattern, new_slice), start_idx + length pattern)
          | Some (None, _, _) \<Rightarrow> Err (ComputeReplacements
              (str ''Failed to find expected lines in '' @ path @ str '':'' @ [newline]
               @ join_with [newline] (old_lines chunk)))))"

text \<open>The loop over the chunks; \<open>replacements\<close> collects in order.\<close>

fun replacements_loop ::
  "(ustr list \<Rightarrow> ustr list \<Rightarrow> nat \<Rightarrow> bool \<Rightarrow> nat option option) \<Rightarrow> ustr list \<Rightarrow> ustr \<Rightarrow> update_file_chunk list
    \<Rightarrow> nat \<Rightarrow> replacement list \<Rightarrow> (replacement list, apply_patch_error) outcome" where
  "replacements_loop seek ls path [] line_index replacements = Ok replacements"
| "replacements_loop seek ls path (chunk # chunks) line_index replacements =
     obind (chunk_replacement seek ls path chunk line_index) (\<lambda>(r, line_index).
       replacements_loop seek ls path chunks line_index (replacements @ [r]))"

text \<open>\<open>sort_by_key\<close> is stable, as is \<open>sort_key\<close>.\<close>

definition compute_replacements_with ::
  "(ustr list \<Rightarrow> ustr list \<Rightarrow> nat \<Rightarrow> bool \<Rightarrow> nat option option) \<Rightarrow> ustr list \<Rightarrow> ustr \<Rightarrow> update_file_chunk list
    \<Rightarrow> (replacement list, apply_patch_error) outcome" where
  "compute_replacements_with seek ls path chunks =
     obind (replacements_loop seek ls path chunks 0 []) (\<lambda>replacements.
       Ok (sort_key fst replacements))"

definition compute_replacements ::
  "ustr list \<Rightarrow> ustr \<Rightarrow> update_file_chunk list \<Rightarrow> (replacement list, apply_patch_error) outcome" where
  "compute_replacements = compute_replacements_with seek_sequence"

text \<open>
  \<open>apply_replacements\<close>: from the last replacement to the first, remove the old lines (a
  guarded \<open>Vec::remove\<close>) and insert the new ones (an unguarded \<open>Vec::insert\<close>, \<open>None\<close> for its
  panic).
\<close>

fun remove_old_lines :: "nat \<Rightarrow> nat \<Rightarrow> ustr list \<Rightarrow> ustr list" where
  "remove_old_lines start_idx 0 ls = ls"
| "remove_old_lines start_idx (Suc n) ls =
     remove_old_lines start_idx n
       (if start_idx < length ls then take start_idx ls @ drop (Suc start_idx) ls else ls)"

fun insert_new_lines :: "nat \<Rightarrow> ustr list \<Rightarrow> ustr list \<Rightarrow> ustr list option" where
  "insert_new_lines i [] ls = Some ls"
| "insert_new_lines i (l # new) ls =
     (case vec_insert i l ls of None \<Rightarrow> None | Some ls \<Rightarrow> insert_new_lines (Suc i) new ls)"

fun apply_rev_replacements :: "ustr list \<Rightarrow> replacement list \<Rightarrow> ustr list option" where
  "apply_rev_replacements ls [] = Some ls"
| "apply_rev_replacements ls ((start_idx, old_len, new) # rs) =
     (case insert_new_lines start_idx new (remove_old_lines start_idx old_len ls) of
        None \<Rightarrow> None
      | Some ls \<Rightarrow> apply_rev_replacements ls rs)"

definition apply_replacements :: "ustr list \<Rightarrow> replacement list \<Rightarrow> ustr list option" where
  "apply_replacements ls replacements = apply_rev_replacements ls (rev replacements)"

text \<open>
  The text part of \<open>derive_new_contents_from_chunks\<close>: the file as lines without the empty piece
  after a final newline, the replacements, and a final newline put back.
\<close>

definition original_lines :: "ustr \<Rightarrow> ustr list" where
  "original_lines contents =
     (let ls = split_on newline contents in if last_is_empty ls then butlast ls else ls)"

definition with_final_newline :: "ustr list \<Rightarrow> ustr" where
  "with_final_newline ls = join_with [newline] (if last_is_empty ls then ls else ls @ [[]])"

definition new_contents_from_chunks ::
  "ustr \<Rightarrow> ustr \<Rightarrow> update_file_chunk list \<Rightarrow> (ustr, apply_patch_error) outcome" where
  "new_contents_from_chunks path contents chunks =
     obind (compute_replacements (original_lines contents) path chunks) (\<lambda>replacements.
       case apply_replacements (original_lines contents) replacements of
         None \<Rightarrow> Panic
       | Some ls \<Rightarrow> Ok (with_final_newline ls))"

section \<open>Editing the lines\<close>

lemma remove_old_lines_eq: "remove_old_lines s n ls = take s ls @ drop (s + n) ls"
proof (induction n arbitrary: ls)
  case (Suc n)
  show ?case
  proof (cases "s < length ls")
    case True
    then have "drop (s + n) (take s ls @ drop (Suc s) ls) = drop (s + Suc n) ls"
      by (simp add: add.commute)
    with True Suc show ?thesis by simp
  qed (simp add: Suc)
qed simp

lemma insert_new_lines_eq:
  "i \<le> length ls \<Longrightarrow> insert_new_lines i new ls = Some (take i ls @ new @ drop i ls)"
  by (induction new arbitrary: i ls) (simp_all add: vec_insert_def)

lemma apply_rev_replacements_Cons:
  assumes "s \<le> length ls"
  shows "apply_rev_replacements ls ((s, n, new) # rs) =
    apply_rev_replacements (take s ls @ new @ drop (s + n) ls) rs"
  using assms by (simp add: remove_old_lines_eq insert_new_lines_eq)

lemma apply_rev_replacements_append:
  "apply_rev_replacements ls (rs @ rs') =
     (case apply_rev_replacements ls rs of None \<Rightarrow> None | Some ls \<Rightarrow> apply_rev_replacements ls rs')"
  by (induction ls rs rule: apply_rev_replacements.induct) (auto split: option.splits)

definition in_file :: "ustr list \<Rightarrow> replacement \<Rightarrow> bool" where
  "in_file ls r \<longleftrightarrow> (case r of (s, n, new) \<Rightarrow> s + n \<le> length ls)"

text \<open>
  Replacements sorted by their start never make \<open>Vec::insert\<close> panic, overlapping ones
  included: every edit leaves the lines before its start in place.
\<close>

lemma apply_rev_replacements_total:
  "sorted_wrt (\<lambda>r r'. fst r' \<le> fst r) rs \<Longrightarrow> \<forall>r \<in> set rs. fst r \<le> length ls \<Longrightarrow>
   \<exists>ls'. apply_rev_replacements ls rs = Some ls'"
proof (induction rs arbitrary: ls)
  case (Cons r rs)
  obtain s n new where r: "r = (s, n, new)" by (cases r)
  let ?ls = "take s ls @ new @ drop (s + n) ls"
  have "\<exists>ls'. apply_rev_replacements ?ls rs = Some ls'"
    using Cons.prems r by (intro Cons.IH) auto
  moreover have "s \<le> length ls" using Cons.prems r by simp
  ultimately show ?case by (simp only: r apply_rev_replacements_Cons)
qed simp

lemma apply_replacements_total:
  assumes "sorted (map fst rs)" "\<forall>r \<in> set rs. in_file ls r"
  shows "\<exists>ls'. apply_replacements ls rs = Some ls'"
  unfolding apply_replacements_def
  using assms by (intro apply_rev_replacements_total)
    (auto simp: sorted_wrt_rev sorted_wrt_map in_file_def)

text \<open>The reference: one pass over the file that copies the gaps and takes the new lines.\<close>

fun splice :: "nat \<Rightarrow> ustr list \<Rightarrow> replacement list \<Rightarrow> ustr list" where
  "splice pos ls [] = drop pos ls"
| "splice pos ls ((s, n, new) # rs) = take (s - pos) (drop pos ls) @ new @ splice (s + n) ls rs"

fun ascending :: "nat \<Rightarrow> replacement list \<Rightarrow> bool" where
  "ascending pos [] \<longleftrightarrow> True"
| "ascending pos ((s, n, new) # rs) \<longleftrightarrow> pos \<le> s \<and> ascending (s + n) rs"

lemma ascending_le: "ascending pos rs \<Longrightarrow> r \<in> set rs \<Longrightarrow> pos \<le> fst r"
  by (induction pos rs rule: ascending.induct) fastforce+

lemma ascending_sorted: "ascending pos rs \<Longrightarrow> sorted (map fst rs)"
  by (induction pos rs rule: ascending.induct) (auto dest: ascending_le)

lemma apply_rev_replacements_splice:
  assumes "ascending pos rs" "\<forall>r \<in> set rs. in_file ls r" "pos \<le> length ls"
  shows "apply_rev_replacements ls (rev rs) = Some (take pos ls @ splice pos ls rs)"
  using assms
proof (induction pos rs rule: ascending.induct)
  case (2 pos s n new rs)
  let ?L = "take (s + n) ls @ splice (s + n) ls rs"
  have len: "s + n \<le> length ls" and pos: "pos \<le> s" using 2 by (auto simp: in_file_def)
  have "apply_rev_replacements ls (rev ((s, n, new) # rs)) = apply_rev_replacements ?L [(s, n, new)]"
    using 2 len by (simp add: apply_rev_replacements_append)
  also have "\<dots> = Some (take s ?L @ new @ drop (s + n) ?L)"
    using len by (subst apply_rev_replacements_Cons) simp_all
  also have "take s ?L = take s ls" using len by simp
  also have "drop (s + n) ?L = splice (s + n) ls rs" using len by simp
  also have "take s ls = take pos ls @ take (s - pos) (drop pos ls)"
    using pos by (simp flip: take_add)
  finally show ?case by simp
qed simp

section \<open>What the computed replacements are\<close>

text \<open>
  A replacement realises a chunk when it inserts a pure addition at the end of the file, or
  replaces a region whose lines are similar to the old lines of the chunk (all of them, or all
  but a trailing empty one).
\<close>

definition realises :: "(ustr \<Rightarrow> ustr \<Rightarrow> bool) \<Rightarrow> ustr list \<Rightarrow> update_file_chunk \<Rightarrow> replacement \<Rightarrow> bool" where
  "realises similar ls chunk r \<longleftrightarrow> (case r of (s, n, new) \<Rightarrow>
     if old_lines chunk = [] then s = insertion_idx ls \<and> n = 0 \<and> new = new_lines chunk
     else
       (n = length (old_lines chunk) \<and> new = new_lines chunk
          \<and> list_all2 similar (take n (drop s ls)) (old_lines chunk))
       \<or> (last_is_empty (old_lines chunk) \<and> n = length (old_lines chunk) - 1
          \<and> new = (if last_is_empty (new_lines chunk) then butlast (new_lines chunk) else new_lines chunk)
          \<and> list_all2 similar (take n (drop s ls)) (butlast (old_lines chunk))))"

lemma insertion_idx_le: "insertion_idx ls \<le> length ls"
  by (simp add: insertion_idx_def)

context line_search
begin

lemma seek_context_Ok:
  assumes "seek_context seek ls path ctx i = Ok j" "i \<le> length ls"
  shows "i \<le> j" "j \<le> length ls"
proof -
  consider "j = i" | c idx where "seek ls [c] i False = Some (Some idx)" "j = idx + 1"
    using assms(1) by (auto simp: seek_context_def split: option.splits)
  then have "i \<le> j \<and> j \<le> length ls"
  proof cases
    case 2
    then show ?thesis using seek_forward [OF 2(1)] seek_within [OF 2(1)] by simp
  qed (use assms in simp)
  then show "i \<le> j" "j \<le> length ls" by simp_all
qed

lemma locate_old_lines_Some:
  assumes "locate_old_lines seek ls chunk i = Some (Some s, pat, new)"
  shows "seek ls pat i (is_end_of_file chunk) = Some (Some s)"
    and "pat = old_lines chunk \<and> new = new_lines chunk \<or>
         last_is_empty (old_lines chunk) \<and> pat = butlast (old_lines chunk)
         \<and> new = (if last_is_empty (new_lines chunk) then butlast (new_lines chunk) else new_lines chunk)"
  using assms by (auto simp: locate_old_lines_def Let_def split: if_splits option.splits)

lemma chunk_replacement_Ok:
  assumes "chunk_replacement seek ls path chunk i = Ok ((s, n, new), j)"
  obtains k where "seek_context seek ls path (change_context chunk) i = Ok k"
    "old_lines chunk = []" "s = insertion_idx ls" "n = 0" "new = new_lines chunk" "j = k"
  | k pat where "seek_context seek ls path (change_context chunk) i = Ok k"
    "old_lines chunk \<noteq> []" "locate_old_lines seek ls chunk k = Some (Some s, pat, new)"
    "n = length pat" "j = s + n"
  using assms by (auto simp: chunk_replacement_def obind_iffs split: if_splits prod.splits option.splits)

lemma chunk_replacement_sound:
  assumes "chunk_replacement seek ls path chunk i = Ok (r, j)" "i \<le> length ls"
  shows "in_file ls r \<and> realises similar ls chunk r \<and> j \<le> length ls"
proof -
  obtain s n new where r: "r = (s, n, new)" by (cases r)
  from assms(1) [unfolded r] show ?thesis
  proof (cases rule: chunk_replacement_Ok)
    case (1 k)
    with assms(2) r show ?thesis
      by (auto simp: in_file_def realises_def insertion_idx_le dest: seek_context_Ok)
  next
    case (2 k pat)
    have k: "k \<le> length ls" using 2(1) assms(2) by (rule seek_context_Ok)
    note l = locate_old_lines_Some [OF 2(3)]
    note b = seek_bound [OF l(1) k] and sim = seek_region [OF l(1) k]
    have "last_is_empty (old_lines chunk) \<Longrightarrow> length (butlast (old_lines chunk)) = length (old_lines chunk) - 1"
      by simp
    with l(2) sim 2 b r show ?thesis by (auto simp: in_file_def realises_def)
  qed
qed

lemma chunk_replacement_forward:
  assumes "chunk_replacement seek ls path chunk i = Ok ((s, n, new), j)" "i \<le> length ls"
    and "old_lines chunk \<noteq> []" "\<not> is_end_of_file chunk"
  shows "i \<le> s \<and> j = s + n"
  using assms(1)
proof (cases rule: chunk_replacement_Ok)
  case (2 k pat)
  have "seek ls pat k False = Some (Some s)" using locate_old_lines_Some(1) [OF 2(3)] assms(4) by simp
  then have "k \<le> s" by (rule seek_forward)
  with 2 seek_context_Ok [OF 2(1) assms(2)] show ?thesis by simp
qed (use assms in simp)

lemma replacements_loop_sound:
  assumes "replacements_loop seek ls path chunks i acc = Ok rs" "i \<le> length ls"
  shows "\<exists>rs'. rs = acc @ rs' \<and> list_all2 (realises similar ls) chunks rs' \<and> (\<forall>r \<in> set rs'. in_file ls r)"
  using assms
proof (induction chunks arbitrary: i acc)
  case (Cons chunk chunks)
  from Cons.prems(1) obtain r j where step: "chunk_replacement seek ls path chunk i = Ok (r, j)"
    and rest: "replacements_loop seek ls path chunks j (acc @ [r]) = Ok rs"
    by (auto simp: obind_iffs)
  note snd = chunk_replacement_sound [OF step Cons.prems(2)]
  from Cons.IH [OF rest] snd obtain rs' where "rs = (acc @ [r]) @ rs'"
    "list_all2 (realises similar ls) chunks rs'" "\<forall>r \<in> set rs'. in_file ls r"
    by blast
  with snd show ?case by (intro exI [of _ "r # rs'"]) simp
qed simp

lemma replacements_loop_ascending:
  assumes "replacements_loop seek ls path chunks i acc = Ok (acc @ rs')" "i \<le> length ls"
    and "\<forall>c \<in> set chunks. old_lines c \<noteq> [] \<and> \<not> is_end_of_file c"
  shows "ascending i rs'"
  using assms
proof (induction chunks arbitrary: i acc rs')
  case (Cons chunk chunks)
  from Cons.prems(1) obtain s n new j where step: "chunk_replacement seek ls path chunk i = Ok ((s, n, new), j)"
    and rest: "replacements_loop seek ls path chunks j (acc @ [(s, n, new)]) = Ok (acc @ rs')"
    by (auto simp: obind_iffs)
  have j: "j \<le> length ls" using chunk_replacement_sound [OF step Cons.prems(2)] by simp
  from replacements_loop_sound [OF rest j] obtain tl where "rs' = (s, n, new) # tl" by auto
  moreover have "ascending j tl"
    using Cons.IH [of j "acc @ [(s, n, new)]" tl] rest j Cons.prems(3) calculation by simp
  moreover have "i \<le> s \<and> j = s + n"
    using chunk_replacement_forward [OF step Cons.prems(2)] Cons.prems(3) by simp
  ultimately show ?case by simp
qed simp

lemma chunk_replacement_no_panic: "chunk_replacement seek ls path chunk i \<noteq> Panic"
proof -
  have "seek_context seek ls path ctx j \<noteq> Panic" for ctx j
    by (auto simp: seek_context_def seek_total split: option.splits)
  moreover have "locate_old_lines seek ls chunk j \<noteq> None" for j
    using seek_total [of ls "old_lines chunk"] seek_total [of ls "butlast (old_lines chunk)"]
    by (auto simp: locate_old_lines_def Let_def simp del: not_None_eq split: option.splits)
  ultimately show ?thesis by (auto simp: chunk_replacement_def obind_iffs simp del: not_None_eq split: option.splits)
qed

lemma compute_replacements_with_no_panic: "compute_replacements_with seek ls path chunks \<noteq> Panic"
proof -
  have "replacements_loop seek ls path chunks i acc \<noteq> Panic" for i acc
    by (induction chunks arbitrary: i acc) (auto simp: obind_iffs chunk_replacement_no_panic)
  then show ?thesis by (simp add: compute_replacements_with_def obind_iffs)
qed

lemma compute_replacements_with_sound:
  assumes "compute_replacements_with seek ls path chunks = Ok rs"
  obtains rs' where "rs = sort_key fst rs'" "list_all2 (realises similar ls) chunks rs'"
    "\<forall>r \<in> set rs. in_file ls r" "replacements_loop seek ls path chunks 0 [] = Ok rs'"
  using assms replacements_loop_sound [of ls path chunks 0 "[]"]
  by (auto simp: compute_replacements_with_def obind_iffs)

lemma compute_replacements_with_ascending:
  assumes "compute_replacements_with seek ls path chunks = Ok rs"
    and "\<forall>c \<in> set chunks. old_lines c \<noteq> [] \<and> \<not> is_end_of_file c"
  shows "ascending 0 rs \<and> list_all2 (realises similar ls) chunks rs"
proof -
  obtain rs' where rs': "rs = sort_key fst rs'" "list_all2 (realises similar ls) chunks rs'"
    "replacements_loop seek ls path chunks 0 [] = Ok rs'"
    by (rule compute_replacements_with_sound [OF assms(1)])
  then have "ascending 0 rs'" using replacements_loop_ascending [of ls path chunks 0 "[]" rs'] assms(2) by simp
  moreover from this have "sort_key fst rs' = rs'" by (intro sort_key_id_if_sorted ascending_sorted)
  ultimately show ?thesis using rs' by simp
qed

end

section \<open>Correctness of the text transformation\<close>

lemma compute_replacements_Ok:
  assumes "compute_replacements ls path chunks = Ok rs"
  shows "sorted (map fst rs)" "\<forall>r \<in> set rs. in_file ls r"
    and "\<exists>rs'. rs = sort_key fst rs' \<and> list_all2 (realises similar_lines ls) chunks rs'"
  using ls.compute_replacements_with_sound [OF assms [unfolded compute_replacements_def]]
  by (metis sorted_sort_key)+

text \<open>
  The replacements that \<open>compute_replacements\<close> returns are one per chunk, sorted by their
  start; each lies within the file, and each realises its chunk: the region it replaces is
  similar line by line to the chunk's old lines, and the new lines are the chunk's.
\<close>

theorem compute_replacements_correct:
  assumes "compute_replacements ls path chunks = Ok rs"
  shows "sorted (map fst rs) \<and> length rs = length chunks
    \<and> list_all (\<lambda>(s, n, new). s + n \<le> length ls) rs
    \<and> (\<exists>rs'. rs = sort_key fst rs' \<and> list_all2 (realises similar_lines ls) chunks rs')"
proof -
  note c = compute_replacements_Ok [OF assms]
  from c(3) have "length rs = length chunks" by (auto dest: list_all2_lengthD)
  with c show ?thesis by (auto simp: list_all_iff in_file_def)
qed

theorem compute_replacements_correct_witness:
  "\<exists>chunk rs. compute_replacements [str ''a'', str '' b'', str ''c''] (str ''f'') [chunk] = Ok rs
    \<and> rs = [(1, 1, [str ''x''])]
    \<and> sorted (map fst rs) \<and> length rs = length [chunk]
    \<and> list_all (\<lambda>(s, n, new). s + n \<le> length [str ''a'', str '' b'', str ''c'']) rs
    \<and> (\<exists>rs'. rs = sort_key fst rs' \<and>
         list_all2 (realises similar_lines [str ''a'', str '' b'', str ''c'']) [chunk] rs')"
proof -
  let ?c = "\<lparr>change_context = Some (str ''a''), old_lines = [str ''b''], new_lines = [str ''x''],
    is_end_of_file = False\<rparr>"
  have "compute_replacements [str ''a'', str '' b'', str ''c''] (str ''f'') [?c] = Ok [(1, 1, [str ''x''])]"
    by code_simp
  with compute_replacements_correct [OF this] show ?thesis by blast
qed

lemma new_contents_total: "new_contents_from_chunks path contents chunks \<noteq> Panic"
proof
  assume "new_contents_from_chunks path contents chunks = Panic"
  moreover have "compute_replacements (original_lines contents) path chunks \<noteq> Panic"
    unfolding compute_replacements_def by (rule ls.compute_replacements_with_no_panic)
  ultimately obtain rs where "compute_replacements (original_lines contents) path chunks = Ok rs"
    "apply_replacements (original_lines contents) rs = None"
    by (auto simp: new_contents_from_chunks_def obind_iffs split: option.splits)
  with apply_replacements_total [OF compute_replacements_Ok(1,2)] show False by fastforce
qed

text \<open>
  The text transformation never panics: whatever the file and the chunks, no slice or index of the search and no
  \<open>Vec::insert\<close> is out of range, also when an end-of-file chunk or a pure addition overlaps
  another replacement.
\<close>

theorem new_contents_no_panic: "new_contents_from_chunks path contents chunks \<noteq> Panic"
  by (rule new_contents_total)

text \<open>
  C2: for chunks that each have old lines and are not anchored at the end of the file, the
  back-to-front editing of \<open>apply_replacements\<close> is the single forward pass \<open>splice\<close> over
  disjoint regions, one region per chunk in the order of the patch.
\<close>

theorem new_contents_splice:
  assumes "new_contents_from_chunks path contents chunks = Ok new"
    and "\<forall>c \<in> set chunks. old_lines c \<noteq> [] \<and> \<not> is_end_of_file c"
  shows "\<exists>rs. ascending 0 rs \<and> list_all2 (realises similar_lines (original_lines contents)) chunks rs
    \<and> new = with_final_newline (splice 0 (original_lines contents) rs)"
proof -
  let ?ls = "original_lines contents"
  from assms(1) obtain rs ls' where rs: "compute_replacements ?ls path chunks = Ok rs"
    and ls': "apply_replacements ?ls rs = Some ls'" "new = with_final_newline ls'"
    by (auto simp: new_contents_from_chunks_def obind_iffs split: option.splits)
  have asc: "ascending 0 rs" "list_all2 (realises similar_lines ?ls) chunks rs"
    using ls.compute_replacements_with_ascending [OF rs [unfolded compute_replacements_def] assms(2)]
    by simp_all
  have "apply_replacements ?ls rs = Some (splice 0 ?ls rs)"
    using apply_rev_replacements_splice [OF asc(1) compute_replacements_Ok(2) [OF rs]]
    by (simp add: apply_replacements_def)
  with ls' asc show ?thesis by auto
qed

theorem new_contents_splice_witness:
  "let text = str ''a'' @ [10] @ str ''b'' @ [10];
     chunks = [\<lparr>change_context = None, old_lines = [str ''a''], new_lines = [str ''x''], is_end_of_file = False\<rparr>,
       \<lparr>change_context = None, old_lines = [str ''b''], new_lines = [str ''b'', str ''y''], is_end_of_file = False\<rparr>];
     new = str ''x'' @ [10] @ str ''b'' @ [10] @ str ''y'' @ [10]
   in new_contents_from_chunks (str ''f'') text chunks = Ok new
    \<and> (\<exists>rs. ascending 0 rs \<and> list_all2 (realises similar_lines (original_lines text)) chunks rs
          \<and> new = with_final_newline (splice 0 (original_lines text) rs))"
proof -
  let ?c = "\<lparr>change_context = None, old_lines = [str ''a''], new_lines = [str ''x''], is_end_of_file = False\<rparr>"
  let ?d = "\<lparr>change_context = None, old_lines = [str ''b''], new_lines = [str ''b'', str ''y''], is_end_of_file = False\<rparr>"
  have run: "new_contents_from_chunks (str ''f'') (str ''a'' @ [10] @ str ''b'' @ [10]) [?c, ?d] =
      Ok (str ''x'' @ [10] @ str ''b'' @ [10] @ str ''y'' @ [10])"
    by code_simp
  have "\<forall>c \<in> set [?c, ?d]. old_lines c \<noteq> [] \<and> \<not> is_end_of_file c" by simp
  from new_contents_splice [OF run this] run show ?thesis unfolding Let_def by blast
qed

lemma original_lines_with_final_newline:
  assumes "ls \<noteq> []" "last ls \<noteq> []" "\<forall>l \<in> set ls. newline \<notin> set l"
  shows "original_lines (with_final_newline ls) = ls"
proof -
  have "split_on newline (with_final_newline ls) = ls @ [[]]"
    using assms by (auto simp: with_final_newline_def last_is_empty_def last_opt_def intro!: split_on_join)
  then show ?thesis by (simp add: original_lines_def last_is_empty_def last_opt_def)
qed

lemma agrees_at_middle: "agrees_at key (A @ B @ C) B (length A)"
  by (simp add: agrees_at_iff nth_append)

text \<open>
  A chunk whose old lines occur verbatim in a newline-terminated file rewrites the first
  such occurrence and nothing else.
\<close>

theorem single_chunk_exact:
  assumes "B \<noteq> []" "last (A @ B @ C) \<noteq> []" "\<forall>l \<in> set (A @ B @ C). newline \<notin> set l"
    and "\<And>j. j < length A \<Longrightarrow> \<not> agrees_at (\<lambda>s. s) (A @ B @ C) B j"
  shows "new_contents_from_chunks path (with_final_newline (A @ B @ C))
      [\<lparr>change_context = None, old_lines = B, new_lines = B', is_end_of_file = False\<rparr>]
    = Ok (with_final_newline (A @ B' @ C))"
proof -
  let ?ls = "A @ B @ C"
  have "seek_sequence ?ls B 0 False = Some (Some (length A))"
    using found_at_exact [OF agrees_at_middle, of 0 A B C] assms(1,4) by simp
  then have "compute_replacements ?ls path
      [\<lparr>change_context = None, old_lines = B, new_lines = B', is_end_of_file = False\<rparr>]
    = Ok [(length A, length B, B')]"
    using assms(1) by (simp add: compute_replacements_def compute_replacements_with_def
        chunk_replacement_def seek_context_def locate_old_lines_def)
  moreover have "apply_replacements ?ls [(length A, length B, B')] = Some (A @ B' @ C)"
    by (simp add: apply_replacements_def remove_old_lines_eq insert_new_lines_eq)
  moreover have "original_lines (with_final_newline ?ls) = ?ls"
    using assms by (intro original_lines_with_final_newline) auto
  ultimately show ?thesis by (simp add: new_contents_from_chunks_def)
qed

theorem single_chunk_exact_witness:
  "new_contents_from_chunks (str ''f'') (with_final_newline ([str '' b''] @ [str ''b''] @ [str ''c'']))
      [\<lparr>change_context = None, old_lines = [str ''b''], new_lines = [], is_end_of_file = False\<rparr>]
    = Ok (with_final_newline ([str '' b''] @ [] @ [str ''c'']))"
  by (rule single_chunk_exact) (auto simp: str_Cons chr_def newline_def)

text \<open>
  The order of a pure addition and a replacement that reaches the end of the file matters: in
  a file that ends with an empty line the addition is inserted before that line, inside the
  region the other chunk replaces, and the later removal takes the added line away instead of
  the empty one.
\<close>

lemma pure_addition_lost:
  "new_contents_from_chunks (str ''f'') (str ''a'' @ [10, 10])
     [\<lparr>change_context = None, old_lines = [], new_lines = [str ''added''], is_end_of_file = False\<rparr>,
      \<lparr>change_context = None, old_lines = [str ''a'', []], new_lines = [str ''b''], is_end_of_file = False\<rparr>]
   = Ok (str ''b'' @ [10])"
  by code_simp

end
