(* ===== verification/Patch_Commit.thy ===== *)
theory Patch_Commit
  imports Patch_Apply
begin

text \<open>
  Running the hunks of a patch against a file system, the second half of
  \<open>codex-rs/apply-patch/src/lib.rs\<close>: \<open>apply_hunks_to_files\<close> with its helpers, the committed
  \<open>AppliedPatchDelta\<close>, \<open>apply_hunks\<close>, \<open>apply_patch\<close> and \<open>print_summary\<close>.

  The file system (\<open>ExecutorFileSystem\<close>, with the sandbox argument that every call passes on)
  and the two writers are arguments: functions on a state. \<open>Inl\<close> is an error of a read.
\<close>

section \<open>The file system\<close>

record file_metadata =
  is_directory :: bool
  is_file :: bool
  is_symlink :: bool

record 's file_system =
  read_file_text :: "'s \<Rightarrow> ustr \<Rightarrow> io_error + ustr"
  get_metadata :: "'s \<Rightarrow> ustr \<Rightarrow> io_error + file_metadata"
  write_file :: "'s \<Rightarrow> ustr \<Rightarrow> ustr \<Rightarrow> io_error option \<times> 's"
  remove :: "'s \<Rightarrow> ustr \<Rightarrow> bool \<Rightarrow> bool \<Rightarrow> io_error option \<times> 's" \<comment> \<open>recursive, force\<close>
  create_directory :: "'s \<Rightarrow> ustr \<Rightarrow> bool \<Rightarrow> io_error option \<times> 's" \<comment> \<open>recursive\<close>

section \<open>The committed delta\<close>

datatype applied_file_change =
    ChangeAdd ustr "ustr option" \<comment> \<open>content, overwritten content\<close>
  | ChangeDelete ustr
  | ChangeUpdate "ustr option" ustr "ustr option" ustr
      \<comment> \<open>move path, old content, overwritten move content, new content\<close>

record applied_patch_change =
  change_path :: ustr
  change :: applied_file_change

record applied_patch_delta =
  changes :: "applied_patch_change list"
  exact :: bool

definition empty_delta :: applied_patch_delta where
  "empty_delta = \<lparr>changes = [], exact = True\<rparr>"

definition delta_append :: "applied_patch_delta \<Rightarrow> applied_patch_delta \<Rightarrow> applied_patch_delta" where
  "delta_append d other = \<lparr>changes = changes d @ changes other, exact = (exact d \<and> exact other)\<rparr>"

record apply_patch_failure =
  failure_error :: apply_patch_error
  failure_delta :: applied_patch_delta

text \<open>
  \<open>anyhow::Error\<close> as \<open>apply_hunks_to_files\<close> builds it: a message, an I/O error under a context,
  or an \<open>ApplyPatchError\<close>. \<open>to_string\<close> shows the outermost layer; \<open>downcast_ref\<close> finds the I/O
  error below a context.
\<close>

datatype anyhow_error =
    AnyhowMessage ustr
  | AnyhowIoContext ustr io_error
  | AnyhowApply apply_patch_error

fun anyhow_to_string :: "anyhow_error \<Rightarrow> ustr" where
  "anyhow_to_string (AnyhowMessage m) = m"
| "anyhow_to_string (AnyhowIoContext c _) = c"
| "anyhow_to_string (AnyhowApply e) = apply_patch_error_to_string e"

fun downcast_io :: "anyhow_error \<Rightarrow> io_error option" where
  "downcast_io (AnyhowIoContext _ e) = Some e"
| "downcast_io _ = None"

definition with_context :: "ustr \<Rightarrow> io_error option \<Rightarrow> anyhow_error option" where
  "with_context c = map_option (AnyhowIoContext c)"

section \<open>Helpers\<close>

definition ensure_not_directory :: "'s file_system \<Rightarrow> 's \<Rightarrow> ustr \<Rightarrow> io_error option" where
  "ensure_not_directory ops s path =
     (case get_metadata ops s path of
        Inl e \<Rightarrow> Some e
      | Inr m \<Rightarrow>
          if is_directory m then Some \<lparr>io_kind = InvalidInput, io_text = str ''path is a directory''\<rparr>
          else None)"

definition remove_failure_was_side_effect_free ::
  "'s file_system \<Rightarrow> 's \<Rightarrow> ustr \<Rightarrow> ustr option \<Rightarrow> bool" where
  "remove_failure_was_side_effect_free ops s path expected_content =
     (case expected_content of
        Some expected \<Rightarrow> read_file_text ops s path = Inr expected
      | None \<Rightarrow> False)"

text \<open>The helpers that take \<open>&mut exact\<close> return its new value.\<close>

definition note_existing_path_delta_support :: "'s file_system \<Rightarrow> 's \<Rightarrow> ustr \<Rightarrow> bool \<Rightarrow> bool" where
  "note_existing_path_delta_support ops s path ex =
     (case get_metadata ops s path of
        Inr m \<Rightarrow> if is_file m \<and> \<not> is_symlink m then ex else False
      | Inl e \<Rightarrow> if io_kind e = NotFound then ex else False)"

definition read_optional_file_text_for_delta ::
  "'s file_system \<Rightarrow> 's \<Rightarrow> ustr \<Rightarrow> bool \<Rightarrow> ustr option \<times> bool" where
  "read_optional_file_text_for_delta ops s path ex =
     (let ex = note_existing_path_delta_support ops s path ex in
      case read_file_text ops s path of
        Inr content \<Rightarrow> (Some content, ex)
      | Inl e \<Rightarrow> if io_kind e = NotFound then (None, ex) else (None, False))"

definition failed_to_write :: "ustr \<Rightarrow> ustr" where
  "failed_to_write path = str ''Failed to write file '' @ path"

definition failed_to_create_parents :: "ustr \<Rightarrow> ustr" where
  "failed_to_create_parents path = str ''Failed to create parent directories for '' @ path"

definition write_file_with_missing_parent_retry ::
  "'s file_system \<Rightarrow> 's \<Rightarrow> ustr \<Rightarrow> ustr \<Rightarrow> anyhow_error option \<times> 's" where
  "write_file_with_missing_parent_retry ops s path contents =
     (case write_file ops s path contents of
        (None, s) \<Rightarrow> (None, s)
      | (Some e, s) \<Rightarrow>
          if io_kind e = NotFound then
            (let (r, s) =
               (case abs_parent path of
                  Some parent \<Rightarrow>
                    (case create_directory ops s parent True of
                       (r, s) \<Rightarrow> (with_context (failed_to_create_parents path) r, s))
                | None \<Rightarrow> (None, s))
             in case r of
                  Some err \<Rightarrow> (Some err, s)
                | None \<Rightarrow>
                    (case write_file ops s path contents of
                       (r, s) \<Rightarrow> (with_context (failed_to_write path) r, s)))
          else (Some (AnyhowIoContext (failed_to_write path) e), s))"

text \<open>\<open>derive_new_contents_from_chunks\<close>: the original and the new contents.\<close>

definition derive_new_contents_from_chunks ::
  "'s file_system \<Rightarrow> 's \<Rightarrow> ustr \<Rightarrow> update_file_chunk list \<Rightarrow> (ustr \<times> ustr, apply_patch_error) outcome" where
  "derive_new_contents_from_chunks ops s path chunks =
     (case read_file_text ops s path of
        Inl e \<Rightarrow> Err (IoError (str ''Failed to read file to update '' @ path) e)
      | Inr original \<Rightarrow>
          obind (new_contents_from_chunks path original chunks) (\<lambda>new. Ok (original, new)))"

section \<open>Applying the hunks\<close>

text \<open>
  The mutable state of \<open>apply_hunks_to_files\<close>: the file system, the delta it is lent and the
  three vectors of affected paths.
\<close>

record affected_paths =
  added :: "ustr list"
  modified :: "ustr list"
  deleted :: "ustr list"

record 's apply_state = affected_paths +
  fs :: 's
  delta :: applied_patch_delta

definition set_exact :: "bool \<Rightarrow> 's apply_state \<Rightarrow> 's apply_state" where
  "set_exact ex st = st\<lparr>delta := (delta st)\<lparr>exact := ex\<rparr>\<rparr>"

definition push_change :: "ustr \<Rightarrow> applied_file_change \<Rightarrow> 's apply_state \<Rightarrow> 's apply_state" where
  "push_change path c st =
     st\<lparr>delta := (delta st)\<lparr>changes := changes (delta st) @ [\<lparr>change_path = path, change = c\<rparr>]\<rparr>\<rparr>"

text \<open>The arm of \<open>Hunk::AddFile\<close>; \<open>try_write!\<close> clears \<open>exact\<close> when the write fails.\<close>

definition apply_add_file ::
  "'s file_system \<Rightarrow> ustr \<Rightarrow> ustr \<Rightarrow> ustr \<Rightarrow> 's apply_state
    \<Rightarrow> (unit, anyhow_error) outcome \<times> 's apply_state" where
  "apply_add_file ops path_abs affected_path contents st =
     (let (overwritten, ex) = read_optional_file_text_for_delta ops (fs st) path_abs (exact (delta st));
          (r, s) = write_file_with_missing_parent_retry ops (fs st) path_abs contents;
          st = (set_exact ex st)\<lparr>fs := s\<rparr>
      in case r of
           Some err \<Rightarrow> (Err err, set_exact False st)
         | None \<Rightarrow>
             let st = push_change path_abs (ChangeAdd contents overwritten) st in
             (Ok (), st\<lparr>added := added st @ [affected_path]\<rparr>))"

text \<open>The arm of \<open>Hunk::DeleteFile\<close>.\<close>

definition failed_to_delete :: "ustr \<Rightarrow> ustr" where
  "failed_to_delete path = str ''Failed to delete file '' @ path"

definition apply_delete_file ::
  "'s file_system \<Rightarrow> ustr \<Rightarrow> ustr \<Rightarrow> 's apply_state \<Rightarrow> (unit, anyhow_error) outcome \<times> 's apply_state" where
  "apply_delete_file ops path_abs affected_path st =
     (let ex = note_existing_path_delta_support ops (fs st) path_abs (exact (delta st));
          deleted_content = (case read_file_text ops (fs st) path_abs of Inr c \<Rightarrow> Some c | Inl _ \<Rightarrow> None);
          st = set_exact (if deleted_content = None then False else ex) st
      in case ensure_not_directory ops (fs st) path_abs of
           Some e \<Rightarrow> (Err (AnyhowIoContext (failed_to_delete path_abs) e), st)
         | None \<Rightarrow>
             (case remove ops (fs st) path_abs False False of
                (Some e, s) \<Rightarrow>
                  (Err (AnyhowIoContext (failed_to_delete path_abs) e),
                   (set_exact (exact (delta st)
                      \<and> remove_failure_was_side_effect_free ops s path_abs deleted_content) st)\<lparr>fs := s\<rparr>)
              | (None, s) \<Rightarrow>
                  let st = st\<lparr>fs := s\<rparr>;
                      st = (case deleted_content of
                              Some content \<Rightarrow> push_change path_abs (ChangeDelete content) st
                            | None \<Rightarrow> st)
                  in (Ok (), st\<lparr>deleted := deleted st @ [affected_path]\<rparr>)))"

text \<open>
  The arm of \<open>Hunk::UpdateFile\<close>, first with a move: the destination is written and recorded
  as an addition, then the original is removed and the record becomes an update.
\<close>

definition failed_to_remove_original :: "ustr \<Rightarrow> ustr" where
  "failed_to_remove_original path = str ''Failed to remove original '' @ path"

definition apply_move ::
  "'s file_system \<Rightarrow> ustr \<Rightarrow> ustr \<Rightarrow> ustr \<Rightarrow> ustr \<Rightarrow> ustr \<Rightarrow> 's apply_state
    \<Rightarrow> (unit, anyhow_error) outcome \<times> 's apply_state" where
  "apply_move ops path_abs affected_path dest_abs original_contents new_contents st =
     (let (overwritten, ex) = read_optional_file_text_for_delta ops (fs st) dest_abs (exact (delta st));
          (r, s) = write_file_with_missing_parent_retry ops (fs st) dest_abs new_contents;
          st = (set_exact ex st)\<lparr>fs := s\<rparr>
      in case r of
           Some err \<Rightarrow> (Err err, set_exact False st)
         | None \<Rightarrow>
             let before = changes (delta st);
                 st = push_change dest_abs (ChangeAdd new_contents overwritten) st
             in case ensure_not_directory ops (fs st) path_abs of
                  Some e \<Rightarrow> (Err (AnyhowIoContext (failed_to_remove_original path_abs) e), st)
                | None \<Rightarrow>
                    (case remove ops (fs st) path_abs False False of
                       (Some e, s) \<Rightarrow>
                         (Err (AnyhowIoContext (failed_to_remove_original path_abs) e),
                          (set_exact (exact (delta st)
                             \<and> remove_failure_was_side_effect_free ops s path_abs (Some original_contents))
                             st)\<lparr>fs := s\<rparr>)
                     | (None, s) \<Rightarrow>
                         let st = st\<lparr>fs := s,
                               delta := (delta st)\<lparr>changes := (changes (delta st))[length before :=
                                 \<lparr>change_path = path_abs,
                                  change = ChangeUpdate (Some dest_abs) original_contents overwritten new_contents\<rparr>]\<rparr>\<rparr>
                         in (Ok (), st\<lparr>modified := modified st @ [affected_path]\<rparr>)))"

definition apply_update_in_place ::
  "'s file_system \<Rightarrow> ustr \<Rightarrow> ustr \<Rightarrow> ustr \<Rightarrow> ustr \<Rightarrow> 's apply_state
    \<Rightarrow> (unit, anyhow_error) outcome \<times> 's apply_state" where
  "apply_update_in_place ops path_abs affected_path original_contents new_contents st =
     (case write_file ops (fs st) path_abs new_contents of
        (Some e, s) \<Rightarrow>
          (Err (AnyhowIoContext (failed_to_write path_abs) e), (set_exact False st)\<lparr>fs := s\<rparr>)
      | (None, s) \<Rightarrow>
          let st = push_change path_abs (ChangeUpdate None original_contents None new_contents) (st\<lparr>fs := s\<rparr>)
          in (Ok (), st\<lparr>modified := modified st @ [affected_path]\<rparr>))"

definition apply_update_file ::
  "'s file_system \<Rightarrow> ustr option \<Rightarrow> ustr \<Rightarrow> ustr \<Rightarrow> ustr \<Rightarrow> ustr option \<Rightarrow> update_file_chunk list \<Rightarrow> 's apply_state
    \<Rightarrow> (unit, anyhow_error) outcome \<times> 's apply_state" where
  "apply_update_file ops home cwd path_abs affected_path move_path chunks st =
     (let st = set_exact (note_existing_path_delta_support ops (fs st) path_abs (exact (delta st))) st in
      case derive_new_contents_from_chunks ops (fs st) path_abs chunks of
        Panic \<Rightarrow> (Panic, st)
      | Err e \<Rightarrow> (Err (AnyhowApply e), st)
      | Ok (original_contents, new_contents) \<Rightarrow>
          (case move_path of
             Some dest \<Rightarrow>
               apply_move ops path_abs affected_path (resolve_path_against_base home dest cwd)
                 original_contents new_contents st
           | None \<Rightarrow> apply_update_in_place ops path_abs affected_path original_contents new_contents st))"

text \<open>One iteration of the loop over the hunks, and the loop; \<open>home\<close> is the home directory.\<close>

definition hunk_resolve_path :: "ustr option \<Rightarrow> hunk \<Rightarrow> ustr \<Rightarrow> ustr" where
  "hunk_resolve_path home h cwd = resolve_path_against_base home (hunk_source_path h) cwd"

definition apply_hunk ::
  "'s file_system \<Rightarrow> ustr option \<Rightarrow> ustr \<Rightarrow> hunk \<Rightarrow> 's apply_state
    \<Rightarrow> (unit, anyhow_error) outcome \<times> 's apply_state" where
  "apply_hunk ops home cwd h st =
     (let affected_path = hunk_path h; path_abs = hunk_resolve_path home h cwd in
      case h of
        AddFile _ contents \<Rightarrow> apply_add_file ops path_abs affected_path contents st
      | DeleteFile _ \<Rightarrow> apply_delete_file ops path_abs affected_path st
      | UpdateFile _ move_path chunks \<Rightarrow>
          apply_update_file ops home cwd path_abs affected_path move_path chunks st)"

fun apply_hunk_loop ::
  "'s file_system \<Rightarrow> ustr option \<Rightarrow> ustr \<Rightarrow> hunk list \<Rightarrow> 's apply_state
    \<Rightarrow> (unit, anyhow_error) outcome \<times> 's apply_state" where
  "apply_hunk_loop ops home cwd [] st = (Ok (), st)"
| "apply_hunk_loop ops home cwd (h # hs) st =
     (case apply_hunk ops home cwd h st of
        (Ok _, st) \<Rightarrow> apply_hunk_loop ops home cwd hs st
      | (Err e, st) \<Rightarrow> (Err e, st)
      | (Panic, st) \<Rightarrow> (Panic, st))"

definition init_state :: "applied_patch_delta \<Rightarrow> 's \<Rightarrow> 's apply_state" where
  "init_state d s = \<lparr>added = [], modified = [], deleted = [], fs = s, delta = d\<rparr>"

definition apply_hunks_to_files ::
  "'s file_system \<Rightarrow> ustr option \<Rightarrow> ustr \<Rightarrow> hunk list \<Rightarrow> applied_patch_delta \<Rightarrow> 's
    \<Rightarrow> (unit, anyhow_error) outcome \<times> 's apply_state" where
  "apply_hunks_to_files ops home cwd hs d s =
     (if hs = [] then (Err (AnyhowMessage (str ''No files were modified.'')), init_state d s)
      else apply_hunk_loop ops home cwd hs (init_state d s))"

section \<open>apply_hunks and apply_patch\<close>

type_synonym 'w writer = "'w \<Rightarrow> ustr \<Rightarrow> io_error option \<times> 'w"

text \<open>\<open>writeln!\<close>, and a sequence of them stopped by the first error.\<close>

fun write_lines :: "'w writer \<Rightarrow> 'w \<Rightarrow> ustr list \<Rightarrow> io_error option \<times> 'w" where
  "write_lines wr w [] = (None, w)"
| "write_lines wr w (l # ls) =
     (case wr w (l @ [newline]) of
        (Some e, w) \<Rightarrow> (Some e, w)
      | (None, w) \<Rightarrow> write_lines wr w ls)"

definition print_summary :: "'w writer \<Rightarrow> 'w \<Rightarrow> 's affected_paths_scheme \<Rightarrow> io_error option \<times> 'w" where
  "print_summary wr w a =
     write_lines wr w
       ([str ''Success. Updated the following files:'']
        @ map (\<lambda>p. str ''A '' @ p) (added a)
        @ map (\<lambda>p. str ''M '' @ p) (modified a)
        @ map (\<lambda>p. str ''D '' @ p) (deleted a))"

definition from_io_error :: "io_error \<Rightarrow> apply_patch_error" where
  "from_io_error e = IoError (str ''I/O error'') e"

definition failure_of_anyhow :: "anyhow_error \<Rightarrow> apply_patch_error" where
  "failure_of_anyhow err =
     (case downcast_io err of
        Some io \<Rightarrow> from_io_error io
      | None \<Rightarrow> IoError (anyhow_to_string err) \<lparr>io_kind = Other, io_text = anyhow_to_string err\<rparr>)"

definition apply_hunks ::
  "'s file_system \<Rightarrow> 'w writer \<Rightarrow> ustr option \<Rightarrow> ustr \<Rightarrow> hunk list \<Rightarrow> 'w \<Rightarrow> 'w \<Rightarrow> 's
    \<Rightarrow> (applied_patch_delta, apply_patch_failure) outcome \<times> 'w \<times> 'w \<times> 's" where
  "apply_hunks ops wr home cwd hs stdout stderr s =
     (case apply_hunks_to_files ops home cwd hs empty_delta s of
        (Panic, st) \<Rightarrow> (Panic, stdout, stderr, fs st)
      | (Ok _, st) \<Rightarrow>
          (case print_summary wr stdout st of
             (Some e, stdout) \<Rightarrow>
               (Err \<lparr>failure_error = from_io_error e, failure_delta = delta st\<rparr>, stdout, stderr, fs st)
           | (None, stdout) \<Rightarrow> (Ok (delta st), stdout, stderr, fs st))
      | (Err err, st) \<Rightarrow>
          (case write_lines wr stderr [anyhow_to_string err] of
             (Some e, stderr) \<Rightarrow>
               (Err \<lparr>failure_error = from_io_error e, failure_delta = delta st\<rparr>, stdout, stderr, fs st)
           | (None, stderr) \<Rightarrow>
               (Err \<lparr>failure_error = failure_of_anyhow err, failure_delta = delta st\<rparr>, stdout, stderr, fs st)))"

fun patch_error_line :: "parse_error \<Rightarrow> ustr" where
  "patch_error_line (InvalidPatchError m) = str ''Invalid patch: '' @ m"
| "patch_error_line (InvalidHunkError m n) =
     str ''Invalid patch hunk on line '' @ show_nat n @ str '': '' @ m"

definition apply_patch ::
  "'s file_system \<Rightarrow> 'w writer \<Rightarrow> ustr option \<Rightarrow> ustr \<Rightarrow> ustr \<Rightarrow> 'w \<Rightarrow> 'w \<Rightarrow> 's
    \<Rightarrow> (applied_patch_delta, apply_patch_failure) outcome \<times> 'w \<times> 'w \<times> 's" where
  "apply_patch ops wr home cwd text stdout stderr s =
     (case parse_patch text of
        Panic \<Rightarrow> (Panic, stdout, stderr, s)
      | Ok source \<Rightarrow> apply_hunks ops wr home cwd (hunks source) stdout stderr s
      | Err e \<Rightarrow>
          (case write_lines wr stderr [patch_error_line e] of
             (Some io, stderr) \<Rightarrow>
               (Err \<lparr>failure_error = from_io_error io, failure_delta = empty_delta\<rparr>, stdout, stderr, s)
           | (None, stderr) \<Rightarrow>
               (Err \<lparr>failure_error = ParseError e, failure_delta = empty_delta\<rparr>, stdout, stderr, s)))"

text \<open>
  \<open>unified_diff_from_chunks_with_context\<close>; \<open>diff\<close> is the unified diff of the crate \<open>similar\<close>
  with a context radius.
\<close>

record apply_patch_file_update =
  unified_diff :: ustr
  original_content :: ustr
  content :: ustr

definition unified_diff_from_chunks_with_context ::
  "'s file_system \<Rightarrow> (nat \<Rightarrow> ustr \<Rightarrow> ustr \<Rightarrow> ustr) \<Rightarrow> 's \<Rightarrow> ustr \<Rightarrow> update_file_chunk list \<Rightarrow> nat
    \<Rightarrow> (apply_patch_file_update, apply_patch_error) outcome" where
  "unified_diff_from_chunks_with_context ops diff s path chunks ctx =
     obind (derive_new_contents_from_chunks ops s path chunks) (\<lambda>(original, new).
       Ok \<lparr>unified_diff = diff ctx original new, original_content = original, content = new\<rparr>)"

definition unified_diff_from_chunks ::
  "'s file_system \<Rightarrow> (nat \<Rightarrow> ustr \<Rightarrow> ustr \<Rightarrow> ustr) \<Rightarrow> 's \<Rightarrow> ustr \<Rightarrow> update_file_chunk list
    \<Rightarrow> (apply_patch_file_update, apply_patch_error) outcome" where
  "unified_diff_from_chunks ops diff s path chunks =
     unified_diff_from_chunks_with_context ops diff s path chunks 1"

section \<open>No panic\<close>

lemma derive_new_contents_no_panic [simp]: "derive_new_contents_from_chunks ops s path chunks \<noteq> Panic"
  by (auto simp: derive_new_contents_from_chunks_def obind_iffs new_contents_total split: sum.splits)

lemmas arm_defs =
  apply_add_file_def apply_delete_file_def apply_update_file_def apply_move_def
  apply_update_in_place_def

lemma apply_hunk_no_panic: "fst (apply_hunk ops home cwd h st) \<noteq> Panic"
  by (cases h) (auto simp: apply_hunk_def arm_defs Let_def split: prod.splits option.splits outcome.splits)

lemma apply_hunk_loop_no_panic: "fst (apply_hunk_loop ops home cwd hs st) \<noteq> Panic"
proof (induction hs arbitrary: st)
  case (Cons h hs)
  then show ?case using apply_hunk_no_panic [of ops home cwd h st]
    by (auto split: prod.splits outcome.splits)
qed simp

lemma apply_hunks_to_files_no_panic: "fst (apply_hunks_to_files ops home cwd hs d s) \<noteq> Panic"
  by (simp add: apply_hunks_to_files_def apply_hunk_loop_no_panic)

text \<open>
  C32: applying a patch never panics, whatever the text of the patch, the file system and the
  writers do.
\<close>

theorem apply_patch_no_panic: "fst (apply_patch ops wr home cwd text stdout stderr s) \<noteq> Panic"
proof -
  have "fst (apply_hunks ops wr home cwd hs stdout stderr s) \<noteq> Panic" for hs
    using apply_hunks_to_files_no_panic [of ops home cwd hs empty_delta s]
    by (auto simp: apply_hunks_def split: prod.splits outcome.splits option.splits)
  then show ?thesis using parse_patch_total [of "text"]
    by (auto simp: apply_patch_def split: outcome.splits prod.splits option.splits)
qed

section \<open>The delta describes what was committed\<close>

text \<open>What the text files hold; and what replaying or undoing a change does to it.\<close>

type_synonym text_files = "ustr \<Rightarrow> ustr option"

definition text_view :: "'s file_system \<Rightarrow> 's \<Rightarrow> text_files" where
  "text_view ops s = (\<lambda>p. case read_file_text ops s p of Inr t \<Rightarrow> Some t | Inl _ \<Rightarrow> None)"

fun replay_change :: "applied_patch_change \<Rightarrow> text_files \<Rightarrow> text_files" where
  "replay_change \<lparr>change_path = p, change = ChangeAdd c _\<rparr> v = v(p \<mapsto> c)"
| "replay_change \<lparr>change_path = p, change = ChangeDelete _\<rparr> v = v(p := None)"
| "replay_change \<lparr>change_path = p, change = ChangeUpdate None _ _ new\<rparr> v = v(p \<mapsto> new)"
| "replay_change \<lparr>change_path = p, change = ChangeUpdate (Some d) _ _ new\<rparr> v = v(d \<mapsto> new, p := None)"

fun undo_change :: "applied_patch_change \<Rightarrow> text_files \<Rightarrow> text_files" where
  "undo_change \<lparr>change_path = p, change = ChangeAdd _ overwritten\<rparr> v = v(p := overwritten)"
| "undo_change \<lparr>change_path = p, change = ChangeDelete c\<rparr> v = v(p \<mapsto> c)"
| "undo_change \<lparr>change_path = p, change = ChangeUpdate None old _ _\<rparr> v = v(p \<mapsto> old)"
| "undo_change \<lparr>change_path = p, change = ChangeUpdate (Some d) old overwritten _\<rparr> v =
     v(d := overwritten, p \<mapsto> old)"

text \<open>
  What the delta relies on: the file behind a path with regular metadata (or none at all) is
  not reachable under another path. A successful write or removal of such a path changes that
  path alone; a write that reports a missing parent and the creation of the parent change no
  text; a failed removal leaves the other files alone and this one unchanged or unreadable.
\<close>

definition regular_path :: "'s file_system \<Rightarrow> 's \<Rightarrow> ustr \<Rightarrow> bool" where
  "regular_path ops s p \<longleftrightarrow>
     (case get_metadata ops s p of
        Inr m \<Rightarrow> is_file m \<and> \<not> is_symlink m
      | Inl e \<Rightarrow> io_kind e = NotFound)"

definition alias_free :: "'s file_system \<Rightarrow> bool" where
  "alias_free ops \<longleftrightarrow>
     (\<forall>s p t s'. regular_path ops s p \<and> write_file ops s p t = (None, s') \<longrightarrow>
        text_view ops s' = (text_view ops s)(p \<mapsto> t)
        \<and> (\<forall>q. regular_path ops s q \<longrightarrow> regular_path ops s' q))
   \<and> (\<forall>s p t e s'. regular_path ops s p \<and> write_file ops s p t = (Some e, s') \<and> io_kind e = NotFound \<longrightarrow>
        text_view ops s' = text_view ops s
        \<and> (\<forall>q. regular_path ops s q \<longrightarrow> regular_path ops s' q))
   \<and> (\<forall>s p parent s'. regular_path ops s p \<and> abs_parent p = Some parent
        \<and> create_directory ops s parent True = (None, s') \<longrightarrow>
        text_view ops s' = text_view ops s \<and> regular_path ops s' p
        \<and> (\<forall>q. regular_path ops s q \<and> text_view ops s q \<noteq> None \<longrightarrow> regular_path ops s' q))
   \<and> (\<forall>s p s'. regular_path ops s p \<and> remove ops s p False False = (None, s') \<longrightarrow>
        text_view ops s' = (text_view ops s)(p := None))
   \<and> (\<forall>s p e s'. regular_path ops s p \<and> remove ops s p False False = (Some e, s') \<longrightarrow>
        text_view ops s' = text_view ops s \<or> text_view ops s' = (text_view ops s)(p := None))"

lemma alias_free_write:
  assumes "alias_free ops" "regular_path ops s p" "write_file ops s p t = (None, s')"
  shows "text_view ops s' = (text_view ops s)(p \<mapsto> t)"
    and "regular_path ops s q \<Longrightarrow> regular_path ops s' q"
  using assms unfolding alias_free_def by metis+

lemma alias_free_write_missing:
  assumes "alias_free ops" "regular_path ops s p" "write_file ops s p t = (Some e, s')" "io_kind e = NotFound"
  shows "text_view ops s' = text_view ops s"
    and "regular_path ops s q \<Longrightarrow> regular_path ops s' q"
  using assms unfolding alias_free_def by metis+

lemma alias_free_create:
  assumes "alias_free ops" "regular_path ops s p" "abs_parent p = Some parent"
    "create_directory ops s parent True = (None, s')"
  shows "text_view ops s' = text_view ops s" "regular_path ops s' p"
    and "regular_path ops s q \<Longrightarrow> text_view ops s q \<noteq> None \<Longrightarrow> regular_path ops s' q"
  using assms unfolding alias_free_def by metis+

lemma alias_free_remove:
  assumes "alias_free ops" "regular_path ops s p" "remove ops s p False False = (r, s')"
  shows "r = None \<Longrightarrow> text_view ops s' = (text_view ops s)(p := None)"
    and "r = Some e \<Longrightarrow> text_view ops s' = text_view ops s \<or> text_view ops s' = (text_view ops s)(p := None)"
  using assms unfolding alias_free_def by metis+

lemma write_retry_view:
  assumes "alias_free ops" "regular_path ops s p"
    and "write_file_with_missing_parent_retry ops s p t = (None, s')"
  shows "text_view ops s' = (text_view ops s)(p \<mapsto> t)
    \<and> (\<forall>q. regular_path ops s q \<and> text_view ops s q \<noteq> None \<longrightarrow> regular_path ops s' q)"
proof -
  obtain r s1 where w1: "write_file ops s p t = (r, s1)" by fastforce
  show ?thesis
  proof (cases r)
    case None
    with w1 assms show ?thesis
      by (auto simp: write_file_with_missing_parent_retry_def dest: alias_free_write)
  next
    case (Some e)
    with w1 assms(3) have nf: "io_kind e = NotFound"
      by (auto simp: write_file_with_missing_parent_retry_def split: if_splits)
    note m = alias_free_write_missing [OF assms(1,2) w1 [unfolded Some] nf]
    obtain s2 where s2: "text_view ops s2 = text_view ops s1" "regular_path ops s2 p"
      "\<And>q. regular_path ops s1 q \<Longrightarrow> text_view ops s1 q \<noteq> None \<Longrightarrow> regular_path ops s2 q"
      "write_file ops s2 p t = (None, s')"
    proof (cases "abs_parent p")
      case None
      with assms w1 Some nf m that [of s1] show ?thesis
        by (auto simp: write_file_with_missing_parent_retry_def with_context_def split: prod.splits)
    next
      case (Some parent)
      with assms w1 \<open>r = _\<close> nf obtain s2 where c: "create_directory ops s1 parent True = (None, s2)"
        and "write_file ops s2 p t = (None, s')"
        by (auto simp: write_file_with_missing_parent_retry_def with_context_def
            split: prod.splits option.splits)
      with alias_free_create [OF assms(1) m(2) [OF assms(2)] Some c] that [of s2] show ?thesis by blast
    qed
    with m alias_free_write [OF assms(1) s2(2,4)] show ?thesis by metis
  qed
qed

text \<open>One step of the delta: changes are only appended, and while it stays exact they replay.\<close>

definition commits :: "'s file_system \<Rightarrow> 's apply_state \<Rightarrow> 's apply_state \<Rightarrow> bool" where
  "commits ops st st' \<longleftrightarrow> (\<exists>cs. changes (delta st') = changes (delta st) @ cs \<and>
     (exact (delta st') \<longrightarrow> exact (delta st)
        \<and> fold replay_change cs (text_view ops (fs st)) = text_view ops (fs st')
        \<and> fold undo_change (rev cs) (text_view ops (fs st')) = text_view ops (fs st)))"

lemma commits_refl: "commits ops st st"
  by (auto simp: commits_def)

lemma commits_trans:
  assumes "commits ops st st'" "commits ops st' st''"
  shows "commits ops st st''"
proof -
  from assms(1) obtain cs where cs: "changes (delta st') = changes (delta st) @ cs"
    "exact (delta st') \<Longrightarrow> exact (delta st)
        \<and> fold replay_change cs (text_view ops (fs st)) = text_view ops (fs st')
        \<and> fold undo_change (rev cs) (text_view ops (fs st')) = text_view ops (fs st)"
    unfolding commits_def by blast
  from assms(2) obtain ds where ds: "changes (delta st'') = changes (delta st') @ ds"
    "exact (delta st'') \<Longrightarrow> exact (delta st')
        \<and> fold replay_change ds (text_view ops (fs st')) = text_view ops (fs st'')
        \<and> fold undo_change (rev ds) (text_view ops (fs st'')) = text_view ops (fs st')"
    unfolding commits_def by blast
  from cs ds show ?thesis unfolding commits_def by (intro exI [of _ "cs @ ds"]) simp
qed

lemma note_existing_exact:
  "note_existing_path_delta_support ops s p ex \<longleftrightarrow> ex \<and> regular_path ops s p"
  by (auto simp: note_existing_path_delta_support_def regular_path_def split: sum.splits)

lemma read_optional_exact:
  "read_optional_file_text_for_delta ops s p ex = (overwritten, ex') \<Longrightarrow>
     overwritten = text_view ops s p \<and> (ex' \<longrightarrow> ex \<and> regular_path ops s p)"
  by (auto simp: read_optional_file_text_for_delta_def Let_def note_existing_exact text_view_def
      split: sum.splits if_splits)

lemma state_update_simps [simp]:
  "fs (set_exact ex st) = fs st" "exact (delta (set_exact ex st)) = ex"
  "changes (delta (set_exact ex st)) = changes (delta st)"
  "fs (push_change p c st) = fs st" "exact (delta (push_change p c st)) = exact (delta st)"
  "changes (delta (push_change p c st)) = changes (delta st) @ [\<lparr>change_path = p, change = c\<rparr>]"
  by (simp_all add: set_exact_def push_change_def)

text \<open>The two ways a step ends: it committed nothing more, or exactly one change.\<close>

lemma commits_none:
  assumes "changes (delta st') = changes (delta st)"
    and "exact (delta st') \<Longrightarrow> exact (delta st) \<and> text_view ops (fs st') = text_view ops (fs st)"
  shows "commits ops st st'"
  unfolding commits_def using assms by (intro exI [of _ "[]"]) auto

lemma commits_one:
  assumes "changes (delta st') = changes (delta st) @ [c]"
    and "exact (delta st') \<Longrightarrow> exact (delta st)
      \<and> replay_change c (text_view ops (fs st)) = text_view ops (fs st')
      \<and> undo_change c (text_view ops (fs st')) = text_view ops (fs st)"
  shows "commits ops st st'"
  unfolding commits_def using assms by (intro exI [of _ "[c]"]) auto

lemma apply_add_file_commits:
  assumes "alias_free ops"
  shows "commits ops st (snd (apply_add_file ops path affected contents st))"
proof -
  obtain overwritten ex where ro:
    "read_optional_file_text_for_delta ops (fs st) path (exact (delta st)) = (overwritten, ex)"
    by fastforce
  obtain r s where wr: "write_file_with_missing_parent_retry ops (fs st) path contents = (r, s)"
    by fastforce
  note ro' = read_optional_exact [OF ro]
  show ?thesis
  proof (cases r)
    case None
    then have "ex \<Longrightarrow> text_view ops s = (text_view ops (fs st))(path \<mapsto> contents)"
      using write_retry_view [OF assms _ wr [unfolded None]] ro' by blast
    with ro wr None ro' show ?thesis
      by (intro commits_one [where c = "\<lparr>change_path = path, change = ChangeAdd contents overwritten\<rparr>"])
        (auto simp: apply_add_file_def Let_def)
  next
    case (Some e)
    with ro wr show ?thesis by (intro commits_none) (auto simp: apply_add_file_def Let_def)
  qed
qed

lemma text_view_Some: "read_file_text ops s p = Inr t \<longleftrightarrow> text_view ops s p = Some t"
  by (simp add: text_view_def split: sum.splits)

lemma apply_delete_file_commits:
  assumes "alias_free ops"
  shows "commits ops st (snd (apply_delete_file ops path affected st))"
proof -
  let ?v = "text_view ops (fs st)"
  let ?ex = "?v path \<noteq> None \<and> exact (delta st) \<and> regular_path ops (fs st) path"
  have content: "(case read_file_text ops (fs st) path of Inr c \<Rightarrow> Some c | Inl _ \<Rightarrow> None) = ?v path"
    by (simp add: text_view_def split: sum.splits)
  have ex: "(if ?v path = None then False
      else note_existing_path_delta_support ops (fs st) path (exact (delta st))) = ?ex"
    by (simp add: note_existing_exact)
  show ?thesis
  proof (cases "ensure_not_directory ops (fs st) path")
    case (Some e)
    then show ?thesis
      by (intro commits_none) (auto simp: apply_delete_file_def Let_def content note_existing_exact split: if_splits)
  next
    case None
    obtain r s where rm: "remove ops (fs st) path False False = (r, s)" by fastforce
    note rm' = alias_free_remove [OF assms _ rm]
    show ?thesis
    proof (cases r)
      case (Some e)
      have "text_view ops s = ?v" if "?ex" "remove_failure_was_side_effect_free ops s path (?v path)"
      proof -
        from that obtain t where t: "?v path = Some t" "text_view ops s path = Some t"
          by (auto simp: remove_failure_was_side_effect_free_def text_view_Some split: option.splits)
        with rm'(2) [OF _ Some] that show ?thesis by auto
      qed
      with None rm Some show ?thesis
        by (intro commits_none) (auto simp: apply_delete_file_def Let_def content ex note_existing_exact split: if_splits)
    next
      case del: None
      show ?thesis
      proof (cases "?v path")
        case None
        with \<open>ensure_not_directory ops (fs st) path = None\<close> rm del show ?thesis
          by (intro commits_none) (auto simp: apply_delete_file_def Let_def content)
      next
        case (Some t)
        with rm'(1) [OF _ del] have "?ex \<Longrightarrow> text_view ops s = ?v(path := None)" by simp
        with Some \<open>ensure_not_directory ops (fs st) path = None\<close> rm del show ?thesis
          by (intro commits_one [where c = "\<lparr>change_path = path, change = ChangeDelete t\<rparr>"])
            (auto simp: apply_delete_file_def Let_def content note_existing_exact)
      qed
    qed
  qed
qed

lemma apply_update_in_place_commits:
  assumes "alias_free ops" "read_file_text ops (fs st) path = Inr original"
    and "exact (delta st) \<Longrightarrow> regular_path ops (fs st) path"
  shows "commits ops st (snd (apply_update_in_place ops path affected original new st))"
proof -
  obtain r s where wr: "write_file ops (fs st) path new = (r, s)" by fastforce
  show ?thesis
  proof (cases r)
    case None
    then have "exact (delta st) \<Longrightarrow> text_view ops s = (text_view ops (fs st))(path \<mapsto> new)"
      using alias_free_write(1) [OF assms(1) _ wr [unfolded None]] assms(3) by blast
    with wr None assms(2) show ?thesis
      by (intro commits_one [where c = "\<lparr>change_path = path, change = ChangeUpdate None original None new\<rparr>"])
        (auto simp: apply_update_in_place_def Let_def text_view_Some)
  next
    case (Some e)
    with wr show ?thesis by (intro commits_none) (auto simp: apply_update_in_place_def)
  qed
qed

lemma apply_move_commits:
  assumes "alias_free ops" "read_file_text ops (fs st) path = Inr original"
    and "exact (delta st) \<Longrightarrow> regular_path ops (fs st) path"
  shows "commits ops st (snd (apply_move ops path affected dest original new st))"
proof -
  let ?v = "text_view ops (fs st)"
  have v: "?v path = Some original" using assms(2) by (simp add: text_view_Some)
  obtain overwritten ex where ro:
    "read_optional_file_text_for_delta ops (fs st) dest (exact (delta st)) = (overwritten, ex)"
    by fastforce
  obtain r s where wr: "write_file_with_missing_parent_retry ops (fs st) dest new = (r, s)"
    by fastforce
  note ro' = read_optional_exact [OF ro]
  let ?add = "\<lparr>change_path = dest, change = ChangeAdd new overwritten\<rparr>"
  show ?thesis
  proof (cases r)
    case (Some e)
    with ro wr show ?thesis by (intro commits_none) (auto simp: apply_move_def)
  next
    case None
    have after: "text_view ops s = ?v(dest \<mapsto> new) \<and> regular_path ops s path" if ex
      using write_retry_view [OF assms(1) _ wr [unfolded None]] ro' assms(3) v that by auto
    show ?thesis
    proof (cases "ensure_not_directory ops s path")
      case (Some e)
      with ro wr \<open>r = None\<close> ro' after show ?thesis
        by (intro commits_one [where c = ?add]) (auto simp: apply_move_def Let_def)
    next
      case nodir: None
      obtain r' s' where rm: "remove ops s path False False = (r', s')" by fastforce
      have rmv: "(r' = None \<longrightarrow> text_view ops s' = ?v(dest \<mapsto> new, path := None)) \<and>
          (r' \<noteq> None \<longrightarrow> text_view ops s' = ?v(dest \<mapsto> new) \<or> text_view ops s' path = None)" if ex
        using alias_free_remove [OF assms(1) _ rm] after that by fastforce
      show ?thesis
      proof (cases r')
        case (Some e)
        with ro wr \<open>r = None\<close> nodir rm ro' rmv show ?thesis
          by (intro commits_one [where c = ?add])
            (auto simp: apply_move_def Let_def remove_failure_was_side_effect_free_def text_view_Some)
      next
        case None
        with ro wr \<open>r = None\<close> nodir rm ro' rmv v show ?thesis
          by (intro commits_one [where c = "\<lparr>change_path = path,
              change = ChangeUpdate (Some dest) original overwritten new\<rparr>"])
            (auto simp: apply_move_def Let_def fun_eq_iff)
      qed
    qed
  qed
qed

lemma derive_new_contents_original:
  "derive_new_contents_from_chunks ops s path chunks = Ok (original, new) \<Longrightarrow>
   read_file_text ops s path = Inr original"
  by (auto simp: derive_new_contents_from_chunks_def obind_iffs split: sum.splits)

lemma apply_update_file_commits:
  assumes "alias_free ops"
  shows "commits ops st (snd (apply_update_file ops home cwd path affected move_path chunks st))"
proof -
  let ?st = "set_exact (note_existing_path_delta_support ops (fs st) path (exact (delta st))) st"
  have st: "commits ops st ?st" by (rule commits_none) (simp_all add: note_existing_exact)
  show ?thesis
  proof (cases "derive_new_contents_from_chunks ops (fs st) path chunks")
    case (Ok on)
    obtain original new where on: "on = (original, new)" by fastforce
    note orig = derive_new_contents_original [OF Ok [unfolded on]]
    have "commits ops ?st (snd (apply_update_file ops home cwd path affected move_path chunks st))"
    proof (cases move_path)
      case None
      have "commits ops ?st (snd (apply_update_in_place ops path affected original new ?st))"
        using orig by (intro apply_update_in_place_commits assms) (simp_all add: note_existing_exact)
      with None Ok on show ?thesis by (simp add: apply_update_file_def Let_def)
    next
      case (Some d)
      have "commits ops ?st (snd (apply_move ops path affected (resolve_path_against_base home d cwd) original new ?st))"
        using orig by (intro apply_move_commits assms) (simp_all add: note_existing_exact)
      with Some Ok on show ?thesis by (simp add: apply_update_file_def Let_def)
    qed
    with st show ?thesis by (rule commits_trans)
  qed (use st in \<open>simp_all add: apply_update_file_def Let_def\<close>)
qed

lemma apply_hunk_commits: "alias_free ops \<Longrightarrow> commits ops st (snd (apply_hunk ops home cwd h st))"
  by (cases h) (simp_all add: apply_hunk_def Let_def apply_add_file_commits
      apply_delete_file_commits apply_update_file_commits)

lemma apply_hunk_loop_commits:
  assumes "alias_free ops"
  shows "commits ops st (snd (apply_hunk_loop ops home cwd hs st))"
proof (induction hs arbitrary: st)
  case (Cons h hs)
  have "commits ops st (snd (apply_hunk ops home cwd h st))" by (rule apply_hunk_commits [OF assms])
  with Cons show ?case
    by (auto split: prod.splits outcome.splits intro: commits_trans)
qed (simp add: commits_refl)

text \<open>A file system of regular text files only, on which the properties are applied.\<close>

definition missing :: io_error where
  "missing = \<lparr>io_kind = NotFound, io_text = str ''No such file or directory''\<rparr>"

definition mem_fs :: "text_files file_system" where
  "mem_fs = \<lparr>
     read_file_text = (\<lambda>s p. case s p of Some t \<Rightarrow> Inr t | None \<Rightarrow> Inl missing),
     get_metadata = (\<lambda>s p. case s p of
       Some t \<Rightarrow> Inr \<lparr>is_directory = False, is_file = True, is_symlink = False\<rparr> | None \<Rightarrow> Inl missing),
     write_file = (\<lambda>s p t. (None, s(p \<mapsto> t))),
     remove = (\<lambda>s p recursive force. case s p of
       Some _ \<Rightarrow> (None, s(p := None)) | None \<Rightarrow> (Some missing, s)),
     create_directory = (\<lambda>s p recursive. (None, s))\<rparr>"

lemma text_view_mem_fs [simp]: "text_view mem_fs s = s"
  by (auto simp: text_view_def mem_fs_def fun_eq_iff split: option.splits)

lemma regular_path_mem_fs [simp]: "regular_path mem_fs s p"
  by (simp add: regular_path_def mem_fs_def missing_def split: option.splits)

lemma mem_fs_simps:
  "write_file mem_fs s p t = (None, s(p \<mapsto> t))"
  "remove mem_fs s p recursive force =
     (case s p of Some _ \<Rightarrow> (None, s(p := None)) | None \<Rightarrow> (Some missing, s))"
  "create_directory mem_fs s p recursive = (None, s)"
  by (simp_all add: mem_fs_def)

lemma alias_free_mem_fs: "alias_free mem_fs"
  by (auto simp: alias_free_def mem_fs_simps split: option.splits)

lemma exact_delta_replays:
  assumes "alias_free ops"
    and "apply_hunks_to_files ops home cwd hs empty_delta s = (r, st)" "exact (delta st)"
  shows "fold replay_change (changes (delta st)) (text_view ops s) = text_view ops (fs st)
    \<and> fold undo_change (rev (changes (delta st))) (text_view ops (fs st)) = text_view ops s"
proof -
  let ?st = "init_state empty_delta s"
  have "commits ops ?st st"
    using apply_hunk_loop_commits [OF assms(1), of ?st home cwd hs] assms(2)
    by (auto simp: apply_hunks_to_files_def commits_refl split: if_splits)
  with assms(3) show ?thesis by (auto simp: commits_def init_state_def empty_delta_def)
qed


definition rename_hunk :: "string \<Rightarrow> string \<Rightarrow> hunk" where
  "rename_hunk a b = UpdateFile (str a) (Some (str b))
     [\<lparr>change_context = None, old_lines = [str ''x''], new_lines = [str ''y''], is_end_of_file = False\<rparr>]"


text \<open>
  A file that is updated and moved to its own path is written and then removed: the update
  succeeds and the file is gone.
\<close>

lemma self_move_deletes_file:
  "let (r, st) = apply_hunks_to_files mem_fs None (str ''/w'') [rename_hunk ''a'' ''./a''] empty_delta
       [str ''/w/a'' \<mapsto> str ''x'' @ [10]]
   in r = Ok () \<and> modified st = [str ''./a''] \<and> fs st (str ''/w/a'') = None"
  by code_simp

section \<open>The affected paths\<close>

fun is_add :: "hunk \<Rightarrow> bool" where
  "is_add (AddFile _ _) = True" | "is_add _ = False"
fun is_delete :: "hunk \<Rightarrow> bool" where
  "is_delete (DeleteFile _) = True" | "is_delete _ = False"
fun is_update :: "hunk \<Rightarrow> bool" where
  "is_update (UpdateFile _ _ _) = True" | "is_update _ = False"

lemma apply_hunk_affected:
  assumes "apply_hunk ops home cwd h st = (Ok (), st')"
  shows "added st' = added st @ (if is_add h then [hunk_path h] else [])
    \<and> modified st' = modified st @ (if is_update h then [hunk_path h] else [])
    \<and> deleted st' = deleted st @ (if is_delete h then [hunk_path h] else [])"
  using assms
  by (cases h) (auto simp: apply_hunk_def arm_defs Let_def set_exact_def push_change_def
      split: prod.splits option.splits outcome.splits)

lemma apply_hunk_loop_affected:
  "apply_hunk_loop ops home cwd hs st = (Ok (), st') \<Longrightarrow>
   added st' = added st @ map hunk_path (filter is_add hs)
    \<and> modified st' = modified st @ map hunk_path (filter is_update hs)
    \<and> deleted st' = deleted st @ map hunk_path (filter is_delete hs)"
proof (induction hs arbitrary: st)
  case (Cons h hs)
  then obtain st1 where "apply_hunk ops home cwd h st = (Ok (), st1)"
    "apply_hunk_loop ops home cwd hs st1 = (Ok (), st')"
    by (auto split: prod.splits outcome.splits)
  with Cons.IH [of st1] apply_hunk_affected [of ops home cwd h st st1] show ?case by auto
qed simp

text \<open>
  A patch that applies reports each hunk under its path, in patch order and in the group
  of its kind: additions, updates (under the new path for a rename) and deletions.
\<close>

theorem affected_paths_classified:
  assumes "apply_hunks_to_files ops home cwd hs d s = (Ok (), st)"
  shows "added st = map hunk_path (filter is_add hs)
    \<and> modified st = map hunk_path (filter is_update hs)
    \<and> deleted st = map hunk_path (filter is_delete hs)"
  using assms apply_hunk_loop_affected [of ops home cwd hs "init_state d s" st]
  by (auto simp: apply_hunks_to_files_def init_state_def split: if_splits)

theorem affected_paths_classified_witness:
  "\<exists>hs st. apply_hunks_to_files mem_fs None (str ''/w'') hs empty_delta [str ''/w/a'' \<mapsto> str ''x'' @ [10]] = (Ok (), st)
    \<and> length hs = 2
    \<and> added st = map hunk_path (filter is_add hs)
    \<and> modified st = map hunk_path (filter is_update hs)
    \<and> deleted st = map hunk_path (filter is_delete hs)"
proof -
  let ?hs = "[rename_hunk ''a'' ''b'', AddFile (str ''a'') (str ''z'')]"
  let ?run = "apply_hunks_to_files mem_fs None (str ''/w'') ?hs empty_delta [str ''/w/a'' \<mapsto> str ''x'' @ [10]]"
  have "fst ?run = Ok ()" by code_simp
  then have "?run = (Ok (), snd ?run)" by (metis prod.collapse)
  from this affected_paths_classified [OF this] show ?thesis
    by (intro exI [of _ ?hs] exI [of _ "snd ?run"]) simp
qed

end
