(* ===== verification/Patch_Footprint.thy ===== *)
theory Patch_Footprint
  imports Patch_Commit
begin

text \<open>
  Which files a patch can touch: the paths that the hunks of a patch name, resolved by
  \<open>Absolute_Path\<close>, bound the paths that the run of \<open>Patch_Commit\<close> records as changed and, while
  its delta is exact or where no file has two names, the files whose text differs afterwards.
\<close>

section \<open>What a patch can touch\<close>

text \<open>The paths a hunk may change, and the paths a recorded change names.\<close>

definition hunk_targets :: "ustr option \<Rightarrow> ustr \<Rightarrow> hunk \<Rightarrow> ustr set" where
  "hunk_targets home cwd h =
     insert (hunk_resolve_path home h cwd)
       (case h of
          UpdateFile _ (Some dest) _ \<Rightarrow> {resolve_path_against_base home dest cwd}
        | _ \<Rightarrow> {})"

definition change_targets :: "applied_patch_change \<Rightarrow> ustr set" where
  "change_targets c =
     insert (change_path c)
       (case change c of ChangeUpdate (Some dest) _ _ _ \<Rightarrow> {dest} | _ \<Rightarrow> {})"

definition new_changes_within :: "ustr set \<Rightarrow> 's apply_state \<Rightarrow> 's apply_state \<Rightarrow> bool" where
  "new_changes_within ps st st' \<longleftrightarrow>
     (\<exists>cs. changes (delta st') = changes (delta st) @ cs \<and> (\<Union>c \<in> set cs. change_targets c) \<subseteq> ps)"

lemma new_changes_within_trans:
  assumes "new_changes_within ps st st1" "new_changes_within qs st1 st2"
  shows "new_changes_within (ps \<union> qs) st st2"
proof -
  from assms obtain cs ds where "changes (delta st1) = changes (delta st) @ cs"
    "changes (delta st2) = changes (delta st1) @ ds"
    "(\<Union>c \<in> set cs. change_targets c) \<subseteq> ps" "(\<Union>c \<in> set ds. change_targets c) \<subseteq> qs"
    unfolding new_changes_within_def by blast
  then show ?thesis unfolding new_changes_within_def by (intro exI [of _ "cs @ ds"]) auto
qed

lemma apply_add_file_within: "new_changes_within {path} st (snd (apply_add_file ops path affected contents st))"
  by (auto simp: apply_add_file_def Let_def change_targets_def new_changes_within_def
      split: prod.splits option.splits)

lemma apply_delete_file_within: "new_changes_within {path} st (snd (apply_delete_file ops path affected st))"
  by (auto simp: apply_delete_file_def Let_def change_targets_def new_changes_within_def
      split: prod.splits option.splits sum.splits)

lemma apply_move_within:
  "new_changes_within {path, dest} st (snd (apply_move ops path affected dest original new st))"
  by (auto simp: apply_move_def Let_def change_targets_def new_changes_within_def
      split: prod.splits option.splits)

lemma apply_update_in_place_within:
  "new_changes_within {path} st (snd (apply_update_in_place ops path affected original new st))"
  by (auto simp: apply_update_in_place_def Let_def change_targets_def new_changes_within_def
      split: prod.splits option.splits)

lemma apply_hunk_within: "new_changes_within (hunk_targets home cwd h) st (snd (apply_hunk ops home cwd h st))"
proof (cases h)
  case (UpdateFile p m cs)
  let ?path = "hunk_resolve_path home h cwd"
  let ?st = "set_exact (note_existing_path_delta_support ops (fs st) ?path (exact (delta st))) st"
  show ?thesis
    using apply_update_in_place_within [of ?path ?st ops] apply_move_within [of ?path _ ?st ops]
    by (auto simp: UpdateFile apply_hunk_def apply_update_file_def hunk_targets_def Let_def
        new_changes_within_def split: outcome.splits option.splits)
qed (use apply_add_file_within apply_delete_file_within in
    \<open>fastforce simp: apply_hunk_def hunk_targets_def Let_def\<close>)+

lemma apply_hunk_loop_within:
  "new_changes_within (\<Union>h \<in> set hs. hunk_targets home cwd h) st (snd (apply_hunk_loop ops home cwd hs st))"
proof (induction hs arbitrary: st)
  case (Cons h hs)
  note h = apply_hunk_within [of home cwd h st ops]
  show ?case
    using h new_changes_within_trans [OF h Cons.IH]
    by (cases "apply_hunk ops home cwd h st"; cases "fst (apply_hunk ops home cwd h st)")
      (auto simp: new_changes_within_def)
qed (simp add: new_changes_within_def)

lemma hunk_targets_normal:
  "is_absolute cwd \<Longrightarrow> p \<in> hunk_targets home cwd h \<Longrightarrow> is_normal_abs p"
  by (cases h) (auto simp: hunk_targets_def hunk_resolve_path_def resolve_path_normal split: option.splits)

lemma replay_outside: "q \<notin> change_targets c \<Longrightarrow> replay_change c v q = v q"
  by (cases "(c, v)" rule: replay_change.cases) (auto simp: change_targets_def)

lemma fold_replay_outside:
  "q \<notin> (\<Union>c \<in> set cs. change_targets c) \<Longrightarrow> fold replay_change cs v q = v q"
  by (induction cs arbitrary: v) (auto simp: replay_outside)

section \<open>File systems without aliases\<close>

text \<open>
  In a file system in which no file has two names, an operation on a path leaves the text of every other path
  alone, also when it fails (removals are those of single files), and creating directories changes no text. There the footprint does not depend on the delta.
\<close>

definition local_effects :: "'s file_system \<Rightarrow> bool" where
  "local_effects ops \<longleftrightarrow>
     (\<forall>s p t r s'. write_file ops s p t = (r, s') \<longrightarrow> (\<forall>q. q \<noteq> p \<longrightarrow> text_view ops s' q = text_view ops s q))
   \<and> (\<forall>s p recursive r s'. create_directory ops s p recursive = (r, s') \<longrightarrow> text_view ops s' = text_view ops s)
   \<and> (\<forall>s p r s'. remove ops s p False False = (r, s') \<longrightarrow>
        (\<forall>q. q \<noteq> p \<longrightarrow> text_view ops s' q = text_view ops s q))"

definition text_outside_kept :: "'s file_system \<Rightarrow> ustr set \<Rightarrow> 's \<Rightarrow> 's \<Rightarrow> bool" where
  "text_outside_kept ops ps s s' \<longleftrightarrow> (\<forall>q. q \<notin> ps \<longrightarrow> text_view ops s' q = text_view ops s q)"

lemma text_outside_kept_trans:
  "text_outside_kept ops ps s s1 \<Longrightarrow> text_outside_kept ops qs s1 s2 \<Longrightarrow> text_outside_kept ops (ps \<union> qs) s s2"
  by (simp add: text_outside_kept_def)

lemma local_effects_ops:
  assumes "local_effects ops"
  shows "write_file ops s p t = (r, s') \<Longrightarrow> text_outside_kept ops {p} s s'"
    and "remove ops s p False False = (r, s') \<Longrightarrow> text_outside_kept ops {p} s s'"
    and "create_directory ops s d recursive = (r, s') \<Longrightarrow> text_outside_kept ops {} s s'"
  using assms unfolding local_effects_def text_outside_kept_def by fastforce+

lemma write_retry_kept:
  assumes "local_effects ops" "write_file_with_missing_parent_retry ops s p t = (r, s')"
  shows "text_outside_kept ops {p} s s'"
proof -
  obtain r1 s1 where w: "write_file ops s p t = (r1, s1)" by fastforce
  note k1 = local_effects_ops(1) [OF assms(1) w]
  consider "s' = s1" | d r2 s2 where "create_directory ops s1 d True = (r2, s2)" "s' = s2"
    | r3 where "write_file ops s1 p t = (r3, s')"
    | d r2 s2 r3 where "create_directory ops s1 d True = (r2, s2)" "write_file ops s2 p t = (r3, s')"
    using assms(2) w by (auto simp: write_file_with_missing_parent_retry_def Let_def split: option.splits if_splits prod.splits)
  then show ?thesis
    using k1 local_effects_ops(1,3) [OF assms(1)]
    by cases (force simp: text_outside_kept_def)+
qed

lemma apply_hunk_kept:
  assumes "local_effects ops"
  shows "text_outside_kept ops (hunk_targets home cwd h) (fs st) (fs (snd (apply_hunk ops home cwd h st)))"
proof -
  note w = write_retry_kept [OF assms] local_effects_ops(1,2) [OF assms]
  have add: "text_outside_kept ops {path} (fs st) (fs (snd (apply_add_file ops path affected contents st)))" for path affected contents st
    by (auto simp: apply_add_file_def Let_def set_exact_def push_change_def split: prod.splits option.splits dest: w)
  have del: "text_outside_kept ops {path} (fs st) (fs (snd (apply_delete_file ops path affected st)))" for path affected st
    by (auto simp: apply_delete_file_def Let_def set_exact_def push_change_def text_outside_kept_def [of _ _ s s for s]
        split: prod.splits option.splits dest: w)
  have upd: "text_outside_kept ops {path} (fs st) (fs (snd (apply_update_in_place ops path affected original new st)))"
    for path affected original new st
    by (auto simp: apply_update_in_place_def Let_def set_exact_def push_change_def split: prod.splits option.splits dest: w)
  have mv: "text_outside_kept ops {path, dest} (fs st) (fs (snd (apply_move ops path affected dest original new st)))"
    for path affected dest original new st
  proof -
    obtain r s1 where w1: "write_file_with_missing_parent_retry ops (fs st) dest new = (r, s1)" by fastforce
    then have "fs (snd (apply_move ops path affected dest original new st)) = s1
      \<or> (\<exists>r2. remove ops s1 path False False = (r2, fs (snd (apply_move ops path affected dest original new st))))"
      by (auto simp: apply_move_def Let_def set_exact_def push_change_def split: prod.splits option.splits)
    then show ?thesis
      using w(1) [OF w1] w(3) [of s1 path] by (force simp: text_outside_kept_def)
  qed
  show ?thesis
  proof (cases h)
    case (UpdateFile p m cs)
    let ?path = "hunk_resolve_path home h cwd"
    let ?st = "set_exact (note_existing_path_delta_support ops (fs st) ?path (exact (delta st))) st"
    have "fs ?st = fs st" by (simp add: set_exact_def)
    with upd [of ?path ?st] mv [of ?path _ ?st] show ?thesis
      by (auto simp: UpdateFile apply_hunk_def apply_update_file_def hunk_targets_def Let_def insert_commute
          text_outside_kept_def split: outcome.splits option.splits)
  qed (use add del in \<open>auto simp: apply_hunk_def hunk_targets_def Let_def\<close>)
qed

lemma apply_hunk_loop_kept:
  assumes "local_effects ops"
  shows "text_outside_kept ops (\<Union>h \<in> set hs. hunk_targets home cwd h) (fs st) (fs (snd (apply_hunk_loop ops home cwd hs st)))"
proof (induction hs arbitrary: st)
  case (Cons h hs)
  note h = apply_hunk_kept [OF assms, of home cwd h st]
  show ?case
    using h text_outside_kept_trans [OF h Cons.IH]
    by (cases "apply_hunk ops home cwd h st"; cases "fst (apply_hunk ops home cwd h st)")
      (auto simp: text_outside_kept_def)
qed (simp add: text_outside_kept_def)

lemma footprint:
  assumes "alias_free ops" "is_absolute cwd"
    and "apply_hunks_to_files ops home cwd hs empty_delta s = (r, st)"
  shows "(\<Union>c \<in> set (changes (delta st)). change_targets c) \<subseteq> (\<Union>h \<in> set hs. hunk_targets home cwd h)
    \<and> (\<forall>c \<in> set (changes (delta st)). \<forall>p \<in> change_targets c. is_normal_abs p)
    \<and> (exact (delta st) \<or> local_effects ops \<longrightarrow>
        (\<forall>q. q \<notin> (\<Union>h \<in> set hs. hunk_targets home cwd h) \<longrightarrow>
           text_view ops (fs st) q = text_view ops s q))"
proof -
  let ?ps = "\<Union>h \<in> set hs. hunk_targets home cwd h"
  let ?st = "init_state empty_delta s"
  have within: "(\<Union>c \<in> set (changes (delta st)). change_targets c) \<subseteq> ?ps"
    using apply_hunk_loop_within [of home cwd hs ?st ops] assms(3)
    by (auto simp: apply_hunks_to_files_def new_changes_within_def init_state_def empty_delta_def
        split: if_splits)
  have normal: "is_normal_abs p" if "p \<in> ?ps" for p
    using that hunk_targets_normal [OF assms(2)] by blast
  have local: "text_view ops (fs st) q = text_view ops s q" if "local_effects ops" "q \<notin> ?ps" for q
    using apply_hunk_loop_kept [OF that(1), where home = home and cwd = cwd and hs = hs and st = ?st] assms(3) that(2)
    by (auto simp: apply_hunks_to_files_def text_outside_kept_def init_state_def split: if_splits)
  have recorded: "text_view ops (fs st) q = text_view ops s q" if "exact (delta st)" "q \<notin> ?ps" for q
  proof -
    have "text_view ops (fs st) = fold replay_change (changes (delta st)) (text_view ops s)"
      using exact_delta_replays [OF assms(1,3) that(1)] by simp
    moreover have "q \<notin> (\<Union>c \<in> set (changes (delta st)). change_targets c)"
      using within that(2) by blast
    ultimately show ?thesis using fold_replay_outside by simp
  qed
  have "\<forall>c \<in> set (changes (delta st)). \<forall>p \<in> change_targets c. is_normal_abs p" using within normal by blast
  with within local recorded show ?thesis by (intro conjI impI allI) auto
qed

text \<open>
  C33: the footprint of a patch. From an absolute working directory every path that is recorded
  as changed is one that a hunk names, resolved to a normal absolute path without \<open>.\<close> and \<open>..\<close>
  segments. No other file changes its text, also in a run that failed, while the delta is marked exact; and
  where no file has two names that holds whether the delta is exact or not.
\<close>

theorem patch_footprint:
  assumes "alias_free ops" "is_absolute cwd"
    and "apply_hunks_to_files ops home cwd hs empty_delta s = (r, st)"
  shows "(\<Union>c \<in> set (changes (delta st)). change_targets c) \<subseteq> (\<Union>h \<in> set hs. hunk_targets home cwd h)
    \<and> (\<forall>c \<in> set (changes (delta st)). \<forall>p \<in> change_targets c. is_normal_abs p)
    \<and> (exact (delta st) \<or> local_effects ops \<longrightarrow>
        (\<forall>q. q \<notin> (\<Union>h \<in> set hs. hunk_targets home cwd h) \<longrightarrow>
           text_view ops (fs st) q = text_view ops s q))"
  by (rule footprint [OF assms])

lemma local_effects_mem_fs: "local_effects mem_fs"
  by (auto simp: local_effects_def mem_fs_simps split: option.splits)

text \<open>A file system in which every write fails after it has emptied the file, so that deltas are inexact.\<close>

definition failing_fs :: "text_files file_system" where
  "failing_fs = mem_fs\<lparr>write_file := (\<lambda>s p t. (Some \<lparr>io_kind = Other, io_text = []\<rparr>, s(p \<mapsto> [])))\<rparr>"

lemma failing_fs_laws: "alias_free failing_fs" "local_effects failing_fs"
proof -
  have view: "text_view failing_fs s = s" for s
    by (auto simp: text_view_def failing_fs_def mem_fs_def fun_eq_iff split: option.splits)
  moreover have "regular_path failing_fs s p" for s p
    by (simp add: regular_path_def failing_fs_def mem_fs_def missing_def split: option.splits)
  ultimately show "alias_free failing_fs" "local_effects failing_fs"
    by (auto simp: alias_free_def local_effects_def failing_fs_def mem_fs_def split: option.splits)
qed

theorem patch_footprint_witness:
  "let hs = [rename_hunk ''../w/a'' ''./b'', AddFile (str ''c'') (str ''z'')];
       s = [str ''/w/a'' \<mapsto> str ''x'' @ [10], str ''/w/d'' \<mapsto> str ''k''];
       st = snd (apply_hunks_to_files mem_fs None (str ''/w'') hs empty_delta s);
       failed = snd (apply_hunks_to_files failing_fs None (str ''/w'') hs empty_delta s)
   in is_normal_abs (str ''/w/b'') \<and> exact (delta st) \<and> text_view mem_fs (fs st) (str ''/w/d'') = Some (str ''k'')
    \<and> \<not> exact (delta failed) \<and> text_view failing_fs (fs failed) (str ''/w/d'') = Some (str ''k'')"
proof -
  let ?hs = "[rename_hunk ''../w/a'' ''./b'', AddFile (str ''c'') (str ''z'')]"
  let ?s = "[str ''/w/a'' \<mapsto> str ''x'' @ [10], str ''/w/d'' \<mapsto> str ''k'']"
  let ?st = "snd (apply_hunks_to_files mem_fs None (str ''/w'') ?hs empty_delta ?s)"
  let ?failed = "snd (apply_hunks_to_files failing_fs None (str ''/w'') ?hs empty_delta ?s)"
  have cwd: "is_absolute (str ''/w'')" by code_simp
  have ex: "exact (delta ?st)" "\<not> exact (delta ?failed)" by code_simp+
  have "list_all (\<lambda>h. str ''/w/d'' \<notin> hunk_targets None (str ''/w'') h) ?hs" by code_simp
  then have other: "str ''/w/d'' \<notin> (\<Union>h \<in> set ?hs. hunk_targets None (str ''/w'') h)"
    by (simp add: list_all_iff)
  have "list_ex (\<lambda>c. str ''/w/b'' \<in> change_targets c) (changes (delta ?st))" by code_simp
  then have target: "\<exists>c \<in> set (changes (delta ?st)). str ''/w/b'' \<in> change_targets c"
    by (simp add: list_ex_iff)
  have "text_view mem_fs ?s (str ''/w/d'') = Some (str ''k'')" "text_view failing_fs ?s (str ''/w/d'') = Some (str ''k'')" by code_simp+
  with patch_footprint [OF alias_free_mem_fs cwd surjective_pairing, of None ?hs ?s] ex other target
    patch_footprint [OF failing_fs_laws(1) cwd surjective_pairing, of None ?hs ?s] failing_fs_laws(2)
  show ?thesis unfolding Let_def by metis
qed

end
