(* ===== verification/Invocation.thy ===== *)
theory Invocation
  imports Patch_Footprint "HOL-Library.AList"
begin

text \<open>
  Recognising an \<open>apply_patch\<close> call in a command and computing the changes it proposes:
  \<open>codex-rs/apply-patch/src/invocation.rs\<close>. The tree-sitter query that finds the here-document in a
  script is an argument: it gives the matches of the script, each a list of captures with their
  text (\<open>None\<close> if it is not UTF-8), or an error.
\<close>

section \<open>Shell scripts\<close>

datatype apply_patch_shell = Unix | PowerShell | Cmd

datatype extract_heredoc_error =
    CommandDidNotStartWithApplyPatch
  | FailedToLoadBashGrammar
  | HeredocNotUtf8
  | FailedToParsePatchIntoAst
  | FailedToFindHeredocBody

type_synonym query_match = "(ustr \<times> ustr option) list"
type_synonym script_query = "ustr \<Rightarrow> (query_match list, extract_heredoc_error) outcome"

definition APPLY_PATCH_COMMANDS :: "ustr list" where
  "APPLY_PATCH_COMMANDS = [str ''apply_patch'', str ''applypatch'']"

definition classify_shell_name :: "ustr \<Rightarrow> ustr option" where
  "classify_shell_name shell = map_option to_ascii_lowercase (file_stem shell)"

definition classify_shell :: "ustr \<Rightarrow> ustr \<Rightarrow> apply_patch_shell option" where
  "classify_shell shell flag =
     (case classify_shell_name shell of
        None \<Rightarrow> None
      | Some name \<Rightarrow>
          if name \<in> {str ''bash'', str ''zsh'', str ''sh''} \<and> flag \<in> {str ''-lc'', str ''-c''} then Some Unix
          else if name \<in> {str ''pwsh'', str ''powershell''} \<and> eq_ignore_ascii_case flag (str ''-command'')
          then Some PowerShell
          else if name = str ''cmd'' \<and> eq_ignore_ascii_case flag (str ''/c'') then Some Cmd
          else None)"

definition can_skip_flag :: "ustr \<Rightarrow> ustr \<Rightarrow> bool" where
  "can_skip_flag shell flag \<longleftrightarrow>
     (case classify_shell_name shell of
        Some name \<Rightarrow> name \<in> {str ''pwsh'', str ''powershell''} \<and> eq_ignore_ascii_case flag (str ''-noprofile'')
      | None \<Rightarrow> False)"

definition parse_shell_script :: "ustr list \<Rightarrow> (apply_patch_shell \<times> ustr) option" where
  "parse_shell_script argv =
     (case argv of
        [shell, flag, script] \<Rightarrow> map_option (\<lambda>t. (t, script)) (classify_shell shell flag)
      | [shell, skip_flag, flag, script] \<Rightarrow>
          if can_skip_flag shell skip_flag then map_option (\<lambda>t. (t, script)) (classify_shell shell flag) else None
      | _ \<Rightarrow> None)"

text \<open>The loop over the captures of a match, and the loop over the matches.\<close>

fun captures_loop ::
  "query_match \<Rightarrow> ustr option \<Rightarrow> ustr option \<Rightarrow> (ustr option \<times> ustr option, extract_heredoc_error) outcome" where
  "captures_loop [] heredoc_text cd_path = Ok (heredoc_text, cd_path)"
| "captures_loop ((name, t) # captures) heredoc_text cd_path =
     (if name = str ''heredoc'' then
        (case t of
           None \<Rightarrow> Err HeredocNotUtf8
         | Some t \<Rightarrow> captures_loop captures (Some (trim_end_matches newline t)) cd_path)
      else if name = str ''cd_path'' then
        (case t of None \<Rightarrow> Err HeredocNotUtf8 | Some t \<Rightarrow> captures_loop captures heredoc_text (Some t))
      else if name = str ''cd_raw_string'' then
        (case t of
           None \<Rightarrow> Err HeredocNotUtf8
         | Some raw \<Rightarrow>
             captures_loop captures heredoc_text
               (Some (case Option.bind (strip_prefix [39] raw) (strip_suffix [39]) of Some s \<Rightarrow> s | None \<Rightarrow> raw)))
      else captures_loop captures heredoc_text cd_path)"

fun matches_loop :: "query_match list \<Rightarrow> (ustr \<times> ustr option, extract_heredoc_error) outcome" where
  "matches_loop [] = Err CommandDidNotStartWithApplyPatch"
| "matches_loop (m # ms) =
     obind (captures_loop m None None) (\<lambda>(heredoc_text, cd_path).
       case heredoc_text of Some heredoc \<Rightarrow> Ok (heredoc, cd_path) | None \<Rightarrow> matches_loop ms)"

definition extract_apply_patch_from_bash ::
  "script_query \<Rightarrow> ustr \<Rightarrow> (ustr \<times> ustr option, extract_heredoc_error) outcome" where
  "extract_apply_patch_from_bash query src = obind (query src) matches_loop"

definition extract_apply_patch_from_shell ::
  "script_query \<Rightarrow> apply_patch_shell \<Rightarrow> ustr \<Rightarrow> (ustr \<times> ustr option, extract_heredoc_error) outcome" where
  "extract_apply_patch_from_shell query shell script = extract_apply_patch_from_bash query script"

section \<open>Recognising a call\<close>

datatype maybe_apply_patch =
    MaybeBody apply_patch_args
  | MaybeShellParseError extract_heredoc_error
  | MaybePatchParseError parse_error
  | MaybeNotApplyPatch

text \<open>The outcomes of \<open>parse_patch\<close> are values here: it does not panic.\<close>

definition maybe_of_parse :: "(apply_patch_args, parse_error) outcome \<Rightarrow> (maybe_apply_patch, unit) outcome" where
  "maybe_of_parse r =
     (case r of Ok source \<Rightarrow> Ok (MaybeBody source) | Err e \<Rightarrow> Ok (MaybePatchParseError e) | Panic \<Rightarrow> Panic)"

definition maybe_parse_script :: "script_query \<Rightarrow> ustr list \<Rightarrow> (maybe_apply_patch, unit) outcome" where
  "maybe_parse_script query argv =
     (case parse_shell_script argv of
        None \<Rightarrow> Ok MaybeNotApplyPatch
      | Some (shell, script) \<Rightarrow>
          (case extract_apply_patch_from_shell query shell script of
             Ok (body, wd) \<Rightarrow>
               maybe_of_parse (obind (parse_patch body) (\<lambda>source. Ok (source\<lparr>workdir := wd\<rparr>)))
           | Err e \<Rightarrow>
               Ok (if e = CommandDidNotStartWithApplyPatch then MaybeNotApplyPatch else MaybeShellParseError e)
           | Panic \<Rightarrow> Panic))"

definition maybe_parse_apply_patch :: "script_query \<Rightarrow> ustr list \<Rightarrow> (maybe_apply_patch, unit) outcome" where
  "maybe_parse_apply_patch query argv =
     (case argv of
        [cmd, body] \<Rightarrow>
          if cmd \<in> set APPLY_PATCH_COMMANDS then maybe_of_parse (parse_patch body) else maybe_parse_script query argv
      | _ \<Rightarrow> maybe_parse_script query argv)"

section \<open>The proposed changes\<close>

datatype apply_patch_file_change =
    FileAdd ustr
  | FileDelete ustr
  | FileUpdate ustr "ustr option" ustr \<comment> \<open>unified diff, move path, new content\<close>

text \<open>The \<open>HashMap\<close> of the changes: an association list in which an insertion replaces the value.\<close>

record apply_patch_action =
  action_changes :: "(ustr \<times> apply_patch_file_change) list"
  action_patch :: ustr
  action_cwd :: ustr

datatype maybe_apply_patch_verified =
    VerifiedBody apply_patch_action
  | VerifiedShellParseError extract_heredoc_error
  | VerifiedCorrectnessError apply_patch_error
  | VerifiedNotApplyPatch

definition hunk_change ::
  "'s file_system \<Rightarrow> (nat \<Rightarrow> ustr \<Rightarrow> ustr \<Rightarrow> ustr) \<Rightarrow> ustr option \<Rightarrow> 's \<Rightarrow> ustr \<Rightarrow> hunk
    \<Rightarrow> (apply_patch_file_change, apply_patch_error) outcome" where
  "hunk_change ops diff home s effective_cwd h =
     (let path = hunk_resolve_path home h effective_cwd in
      case h of
        AddFile _ contents \<Rightarrow> Ok (FileAdd contents)
      | DeleteFile _ \<Rightarrow>
          (case read_file_text ops s path of
             Inr c \<Rightarrow> Ok (FileDelete c)
           | Inl e \<Rightarrow> Err (IoError (str ''Failed to read '' @ path) e))
      | UpdateFile _ move_path chunks \<Rightarrow>
          obind (unified_diff_from_chunks ops diff s path chunks) (\<lambda>u.
            Ok (FileUpdate (unified_diff u) (map_option (abs_join home effective_cwd) move_path) (content u))))"

fun changes_loop ::
  "'s file_system \<Rightarrow> (nat \<Rightarrow> ustr \<Rightarrow> ustr \<Rightarrow> ustr) \<Rightarrow> ustr option \<Rightarrow> 's \<Rightarrow> ustr \<Rightarrow> hunk list
    \<Rightarrow> (ustr \<times> apply_patch_file_change) list
    \<Rightarrow> ((ustr \<times> apply_patch_file_change) list, apply_patch_error) outcome" where
  "changes_loop ops diff home s cwd [] cs = Ok cs"
| "changes_loop ops diff home s cwd (h # hs) cs =
     obind (hunk_change ops diff home s cwd h) (\<lambda>c.
       changes_loop ops diff home s cwd hs (AList.update (hunk_resolve_path home h cwd) c cs))"

definition effective_cwd :: "ustr option \<Rightarrow> ustr \<Rightarrow> ustr option \<Rightarrow> ustr" where
  "effective_cwd home cwd wd = (case wd of Some dir \<Rightarrow> abs_join home cwd dir | None \<Rightarrow> cwd)"

definition verify_apply_patch_args ::
  "'s file_system \<Rightarrow> (nat \<Rightarrow> ustr \<Rightarrow> ustr \<Rightarrow> ustr) \<Rightarrow> ustr option \<Rightarrow> 's \<Rightarrow> ustr \<Rightarrow> apply_patch_args
    \<Rightarrow> (maybe_apply_patch_verified, unit) outcome" where
  "verify_apply_patch_args ops diff home s cwd args =
     (let ecwd = effective_cwd home cwd (workdir args) in
      case changes_loop ops diff home s ecwd (hunks args) [] of
        Ok cs \<Rightarrow> Ok (VerifiedBody \<lparr>action_changes = cs, action_patch = patch args, action_cwd = ecwd\<rparr>)
      | Err e \<Rightarrow> Ok (VerifiedCorrectnessError e)
      | Panic \<Rightarrow> Panic)"

definition is_patch :: "ustr \<Rightarrow> bool" where
  "is_patch t \<longleftrightarrow> (case parse_patch t of Ok _ \<Rightarrow> True | _ \<Rightarrow> False)"

definition is_implicit_invocation :: "ustr list \<Rightarrow> bool" where
  "is_implicit_invocation argv \<longleftrightarrow>
     (case argv of [body] \<Rightarrow> is_patch body | _ \<Rightarrow> False)
     \<or> (case parse_shell_script argv of Some (_, script) \<Rightarrow> is_patch script | None \<Rightarrow> False)"

definition maybe_parse_apply_patch_verified ::
  "'s file_system \<Rightarrow> (nat \<Rightarrow> ustr \<Rightarrow> ustr \<Rightarrow> ustr) \<Rightarrow> script_query \<Rightarrow> ustr option \<Rightarrow> 's \<Rightarrow> ustr \<Rightarrow> ustr list
    \<Rightarrow> (maybe_apply_patch_verified, unit) outcome" where
  "maybe_parse_apply_patch_verified ops diff query home s cwd argv =
     (if is_implicit_invocation argv then Ok (VerifiedCorrectnessError ImplicitInvocation)
      else obind (maybe_parse_apply_patch query argv) (\<lambda>m.
        case m of
          MaybeBody args \<Rightarrow> verify_apply_patch_args ops diff home s cwd args
        | MaybeShellParseError e \<Rightarrow> Ok (VerifiedShellParseError e)
        | MaybePatchParseError e \<Rightarrow> Ok (VerifiedCorrectnessError (ParseError e))
        | MaybeNotApplyPatch \<Rightarrow> Ok VerifiedNotApplyPatch))"

section \<open>The proposed changes cover the patch\<close>

definition proposed_targets :: "ustr \<times> apply_patch_file_change \<Rightarrow> ustr set" where
  "proposed_targets x =
     insert (fst x) (case snd x of FileUpdate _ (Some dest) _ \<Rightarrow> {dest} | _ \<Rightarrow> {})"

definition action_targets :: "apply_patch_action \<Rightarrow> ustr set" where
  "action_targets action = (\<Union>x \<in> set (action_changes action). proposed_targets x)"

lemma set_update_fresh: "k \<notin> set (map fst xs) \<Longrightarrow> set (AList.update k v xs) = insert (k, v) (set xs)"
  by (induction xs) auto

lemma hunk_change_targets:
  "hunk_change ops diff home s cwd h = Ok c \<Longrightarrow>
   proposed_targets (hunk_resolve_path home h cwd, c) = hunk_targets home cwd h"
  by (cases h) (auto simp: hunk_change_def proposed_targets_def hunk_targets_def Let_def obind_iffs abs_join_def
      split: sum.splits option.splits)

lemma changes_loop_targets:
  "changes_loop ops diff home s cwd hs cs = Ok cs' \<Longrightarrow>
   distinct (map fst cs @ map (\<lambda>h. hunk_resolve_path home h cwd) hs) \<Longrightarrow>
   (\<Union>x \<in> set cs'. proposed_targets x) =
     (\<Union>x \<in> set cs. proposed_targets x) \<union> (\<Union>h \<in> set hs. hunk_targets home cwd h)"
proof (induction hs arbitrary: cs)
  case (Cons h hs)
  let ?p = "hunk_resolve_path home h cwd"
  obtain c where c: "hunk_change ops diff home s cwd h = Ok c"
    and rest: "changes_loop ops diff home s cwd hs (AList.update ?p c cs) = Ok cs'"
    using Cons.prems(1) by (auto simp: obind_iffs)
  have fresh: "?p \<notin> set (map fst cs)" using Cons.prems(2) by auto
  have "distinct (map fst (AList.update ?p c cs) @ map (\<lambda>h. hunk_resolve_path home h cwd) hs)"
    using Cons.prems(2) fresh by (auto simp: distinct_update update_keys)
  from Cons.IH [OF rest this] show ?case
    by (simp add: set_update_fresh [OF fresh] hunk_change_targets [OF c] Un_assoc Un_left_commute)
qed simp

lemma verified_targets:
  assumes "verify_apply_patch_args ops diff home s cwd args = Ok (VerifiedBody action)"
    and "distinct (map (\<lambda>h. hunk_resolve_path home h (action_cwd action)) (hunks args))"
  shows "action_targets action = (\<Union>h \<in> set (hunks args). hunk_targets home (action_cwd action) h)
    \<and> action_cwd action = effective_cwd home cwd (workdir args)"
proof -
  have "action_cwd action = effective_cwd home cwd (workdir args)"
    "changes_loop ops diff home s (action_cwd action) (hunks args) [] = Ok (action_changes action)"
    using assms(1) by (auto simp: verify_apply_patch_args_def Let_def split: outcome.splits)
  with changes_loop_targets [OF this(2)] assms(2) show ?thesis by (simp add: action_targets_def)
qed

section \<open>The text of an action\<close>

lemma lenient_boundaries_Ok:
  assumes "check_patch_boundaries_lenient ls = Ok (patch_lines, hunk_lines)"
  shows "check_patch_boundaries_strict patch_lines = Ok (patch_lines, hunk_lines) \<and> set patch_lines \<subseteq> set ls"
proof (cases "check_patch_boundaries_strict ls")
  case (Ok r)
  with assms show ?thesis by (auto simp: check_patch_boundaries_lenient_def check_patch_boundaries_strict_Ok)
next
  case (Err e)
  then have "\<exists>n inner. (slice_range 1 n ls :: (ustr list, parse_error) outcome) = Ok inner \<and> check_patch_boundaries_strict inner = Ok (patch_lines, hunk_lines)"
    using assms by (auto simp: check_patch_boundaries_lenient_def obind_iffs split: list.splits if_splits)
  then obtain n inner where "(slice_range 1 n ls :: (ustr list, parse_error) outcome) = Ok inner" "check_patch_boundaries_strict inner = Ok (patch_lines, hunk_lines)"
    by blast
  moreover from this(1) have "set inner \<subseteq> set ls"
    by (auto simp: slice_range_def split: if_splits dest: in_set_dropD in_set_takeD)
  ultimately show ?thesis by (auto simp: check_patch_boundaries_strict_Ok)
qed (use assms in \<open>simp add: check_patch_boundaries_lenient_def\<close>)

lemma strip_cr_subset: "set (strip_cr s) \<subseteq> set s"
proof -
  have "set t \<subseteq> set s" if "strip_prefix [carriage_return] (rev s) = Some t" for t
    using that by (metis strip_prefix_Some_iff set_append set_rev sup_ge2)
  then show ?thesis by (auto simp: strip_cr_def strip_suffix_def split: option.splits)
qed

lemma join_with_contains: "p \<in> set ps \<Longrightarrow> set p \<subseteq> set (join_with sep ps)"
  by (induction sep ps rule: join_with.induct) auto

lemma set_lines: "l \<in> set (lines s) \<Longrightarrow> set l \<subseteq> set s \<and> newline \<notin> set l"
proof -
  assume "l \<in> set (lines s)"
  then have "l = last (split_on newline s) \<or> (\<exists>p \<in> set (split_on newline s). l = strip_cr p)"
    by (auto simp: lines_def Let_def dest: in_set_butlastD split: if_splits)
  then obtain p where p: "p \<in> set (split_on newline s)" "l = p \<or> l = strip_cr p"
    by (metis last_in_set split_on_not_Nil)
  then have "set l \<subseteq> set p" using strip_cr_subset by auto
  moreover have "set p \<subseteq> set s" using join_with_contains [OF p(1), of "[newline]"] by (simp add: join_split_on)
  ultimately show "set l \<subseteq> set s \<and> newline \<notin> set l" using split_on_pieces [OF p(1)] by blast
qed

lemma trim_start_keep: "\<exists>c \<in> set s. \<not> is_whitespace c \<Longrightarrow> trim_start (s @ t) = trim_start s @ t"
  by (auto simp: trim_start_def dropWhile_append1)

lemma trim_end_keep: "\<exists>c \<in> set t. \<not> is_whitespace c \<Longrightarrow> trim_end (s @ t) = s @ trim_end t"
  by (auto simp: trim_end_def dropWhile_append1)

lemma trim_has_text: "trim s \<noteq> [] \<Longrightarrow> \<exists>c \<in> set s. \<not> is_whitespace c"
  by (auto simp: trim_def trim_start_def trim_end_def dropWhile_eq_Nil_conv)
    (metis dropWhile_eq_Nil_conv list.set_intros(1) set_empty2 dropWhile.simps(1))

lemma trim_of_trim_start: "trim (trim_start s) = trim s"
  by (simp add: trim_def trim_start_def dropWhile_idem)

text \<open>
  The lines of a joined patch: the white space around the first and the last line is gone, the other
  lines are the same.
\<close>

lemma lines_trim_join:
  assumes "trim f \<noteq> []" "trim l \<noteq> []" "\<forall>x \<in> set (f # mid @ [l]). newline \<notin> set x \<and> carriage_return \<notin> set x"
  shows "lines (trim (join_with [newline] (f # mid @ [l]))) = trim_start f # mid @ [trim_end l]"
proof -
  have join: "join_with [newline] (f # ms @ [l]) = f @ concat (map (\<lambda>m. newline # m) ms) @ newline # l" for f l ms
    by (induction ms arbitrary: f) simp_all
  let ?ls = "trim_start f # mid @ [trim_end l]"
  have "trim_start (join_with [newline] (f # mid @ [l])) = join_with [newline] (trim_start f # mid @ [l])"
    unfolding join by (rule trim_start_keep [OF trim_has_text [OF assms(1)]])
  moreover have "trim_end (join_with [newline] (trim_start f # mid @ [l])) = join_with [newline] ?ls"
    using trim_end_keep [OF trim_has_text [OF assms(2)], of "trim_start f @ concat (map (\<lambda>m. newline # m) mid) @ [newline]"]
    unfolding join by simp
  ultimately have "trim (join_with [newline] (f # mid @ [l])) = join_with [newline] ?ls" by (simp add: trim_def)
  moreover have "lines (join_with [newline] ?ls) = ?ls"
  proof (rule lines_join)
    have sub: "set (trim_start f) \<subseteq> set f" "set (trim_end l) \<subseteq> set l"
      by (auto simp: trim_start_def trim_end_def dest: set_dropWhileD)
    with assms(3) show "\<forall>x \<in> set ?ls. newline \<notin> set x" by auto
    from sub assms(3) show "\<forall>x \<in> set (butlast ?ls). \<not> ends_with [carriage_return] x"
      by (auto simp: ends_with_iff butlast_append)
    show "last ?ls \<noteq> []" using trim_has_text [OF assms(2)] by (auto simp: trim_end_def dropWhile_eq_Nil_conv)
  qed simp
  ultimately show ?thesis by simp
qed

text \<open>
  The text an action keeps of a patch without carriage returns parses to the same hunks and environment, also when the
  patch was wrapped in a here-document.
\<close>

lemma reparse:
  assumes "parse_patch text = Ok args" "carriage_return \<notin> set text"
  shows "\<exists>t. parse_patch (patch args) = Ok (args\<lparr>patch := t\<rparr>)"
proof -
  obtain pl hl e rest n hs where b: "check_patch_boundaries_lenient (lines (trim text)) = Ok (pl, hl)"
    and parsed: "parse_environment_id_preamble hl = Ok (e, rest, n)" "hunks_loop rest n [] = Ok hs"
    and args: "args = \<lparr>patch = join_with [newline] pl, hunks = hs, workdir = None, environment_id = e\<rparr>"
    using assms(1) by (auto simp: parse_patch_def parse_patch_text_def PARSE_IN_STRICT_MODE_def Let_def obind_iffs)
  note strict = lenient_boundaries_Ok [OF b]
  then obtain f l where pl: "pl = f # hl @ [l]" "trim f = BEGIN_PATCH_MARKER" "trim l = END_PATCH_MARKER"
    by (auto simp: check_patch_boundaries_strict_Ok)
  have "newline \<notin> set x \<and> carriage_return \<notin> set x" if "x \<in> set pl" for x
    using that strict assms(2) set_lines [of x "trim text"] set_trim [of "text"] by blast
  then have ls: "lines (trim (join_with [newline] pl)) = trim_start f # hl @ [trim_end l]"
    using pl by (simp add: lines_trim_join marker_defs)
  have "check_patch_boundaries_lenient (trim_start f # hl @ [trim_end l]) = Ok (trim_start f # hl @ [trim_end l], hl)"
    using pl by (simp add: check_patch_boundaries_lenient_def check_patch_boundaries_strict_simps trim_of_trim_start trim_of_trim_end)
  with parsed show ?thesis
    by (simp add: args ls parse_patch_def parse_patch_text_def PARSE_IN_STRICT_MODE_def)
qed

text \<open>
  The condition is needed: each parse drops one carriage return at the end of a line, so what is applied can differ from what
  was verified.
\<close>

lemma reparse_drops_carriage_return:
  "let body = BEGIN_PATCH_MARKER @ newline # ADD_FILE_MARKER @ str ''a'' @ newline # str ''+x''
       @ carriage_return # carriage_return # newline # END_PATCH_MARKER
   in case parse_patch body of
        Ok args \<Rightarrow> hunks args = [AddFile (str ''a'') (str ''x'' @ [carriage_return, newline])]
          \<and> (case parse_patch (patch args) of Ok args' \<Rightarrow> hunks args' = [AddFile (str ''a'') (str ''x'' @ [newline])] | _ \<Rightarrow> False)
      | _ \<Rightarrow> False"
  by code_simp

end
