(* ===== verification/Permissions.thy ===== *)
theory Permissions
  imports Absolute_Path "HOL-Library.Product_Lexorder"
begin

text \<open>
  Filesystem permissions, \<open>codex-rs/protocol/src/permissions.rs\<close> and the legacy sandbox policies of
  \<open>codex-rs/protocol/src/protocol.rs\<close>: which access a policy grants to a path, the protected
  workspace metadata, the builders of policies and the projection to and from legacy policies.

  The process environment and the file system that the code asks (\<open>TMPDIR\<close>, \<open>is_dir\<close>, symbolic
  links, the contents of a \<open>.git\<close> file) are the fields of a record. An \<open>AbsolutePathBuf\<close> is the
  text of a normalised absolute path.
\<close>

section \<open>The environment\<close>

record host_env =
  path_vars :: path_env
  tmpdir_var :: "ustr option"
  is_dir :: "ustr \<Rightarrow> bool"
  is_regular_file :: "ustr \<Rightarrow> bool"
  path_exists :: "ustr \<Rightarrow> bool"
  read_to_string :: "ustr \<Rightarrow> ustr option"
  symlink_metadata :: "ustr \<Rightarrow> bool option" \<comment> \<open>whether it is a symbolic link\<close>
  canonicalize :: "ustr \<Rightarrow> ustr option"

definition host_abs :: "host_env \<Rightarrow> ustr \<Rightarrow> ustr option" where
  "host_abs env p = abs_try_from (path_vars env) p"

definition host_join :: "host_env \<Rightarrow> ustr \<Rightarrow> ustr \<Rightarrow> ustr" where
  "host_join env base p = abs_join (home_dir (path_vars env)) base p"

section \<open>Policies\<close>

datatype network_sandbox_policy = NetworkRestricted | NetworkEnabled

definition network_is_enabled :: "network_sandbox_policy \<Rightarrow> bool" where
  "network_is_enabled n \<longleftrightarrow> n = NetworkEnabled"

datatype access_mode = Read | Write | Deny

fun access_rank :: "access_mode \<Rightarrow> nat" where
  "access_rank Read = 0" | "access_rank Write = 1" | "access_rank Deny = 2"

instantiation access_mode :: linorder
begin

definition less_eq_access_mode :: "access_mode \<Rightarrow> access_mode \<Rightarrow> bool" where
  "less_eq_access_mode a b \<longleftrightarrow> access_rank a \<le> access_rank b"

definition less_access_mode :: "access_mode \<Rightarrow> access_mode \<Rightarrow> bool" where
  "less_access_mode a b \<longleftrightarrow> access_rank a < access_rank b"

instance
proof
  fix a b :: access_mode
  show "a \<le> b \<Longrightarrow> b \<le> a \<Longrightarrow> a = b"
    by (cases a; cases b) (simp_all add: less_eq_access_mode_def)
qed (auto simp: less_eq_access_mode_def less_access_mode_def)

end

definition can_read :: "access_mode \<Rightarrow> bool" where "can_read a \<longleftrightarrow> a \<noteq> Deny"
definition can_write :: "access_mode \<Rightarrow> bool" where "can_write a \<longleftrightarrow> a = Write"

datatype special_path =
    Root
  | Minimal
  | ProjectRoots "ustr option"
  | Tmpdir
  | SlashTmp
  | Unknown ustr "ustr option"

datatype file_system_path = PathEntry ustr | GlobPattern ustr | Special special_path

record sandbox_entry =
  entry_path :: file_system_path
  access :: access_mode

datatype sandbox_kind = Restricted | Unrestricted | ExternalSandbox

record sandbox_policy =
  sandbox_kind :: sandbox_kind
  glob_scan_max_depth :: "nat option"
  sandbox_entries :: "sandbox_entry list"

record resolved_entry =
  resolved_path :: ustr
  resolved_access :: access_mode

definition entry_for :: "file_system_path \<Rightarrow> access_mode \<Rightarrow> sandbox_entry" where
  "entry_for p a = \<lparr>entry_path = p, access = a\<rparr>"

definition unrestricted :: sandbox_policy where
  "unrestricted = \<lparr>sandbox_kind = Unrestricted, glob_scan_max_depth = None, sandbox_entries = []\<rparr>"

definition external_sandbox :: sandbox_policy where
  "external_sandbox = \<lparr>sandbox_kind = ExternalSandbox, glob_scan_max_depth = None, sandbox_entries = []\<rparr>"

definition restricted :: "sandbox_entry list \<Rightarrow> sandbox_policy" where
  "restricted es = \<lparr>sandbox_kind = Restricted, glob_scan_max_depth = None, sandbox_entries = es\<rparr>"

definition read_only :: sandbox_policy where
  "read_only = restricted [entry_for (Special Root) Read]"

text \<open>The derived equality of paths and entries: path buffers compare by components.\<close>

definition opt_path_eq :: "ustr option \<Rightarrow> ustr option \<Rightarrow> bool" where
  "opt_path_eq p q \<longleftrightarrow> (case (p, q) of (None, None) \<Rightarrow> True | (Some a, Some b) \<Rightarrow> path_eq a b | _ \<Rightarrow> False)"

fun special_paths_share_target :: "special_path \<Rightarrow> special_path \<Rightarrow> bool" where
  "special_paths_share_target Root Root = True"
| "special_paths_share_target Minimal Minimal = True"
| "special_paths_share_target Tmpdir Tmpdir = True"
| "special_paths_share_target SlashTmp SlashTmp = True"
| "special_paths_share_target (ProjectRoots l) (ProjectRoots r) = opt_path_eq l r"
| "special_paths_share_target (Unknown l ls) (Unknown r rs) = (l = r \<and> opt_path_eq ls rs)"
| "special_paths_share_target _ _ = False"

fun file_system_path_eq :: "file_system_path \<Rightarrow> file_system_path \<Rightarrow> bool" where
  "file_system_path_eq (PathEntry p) (PathEntry q) = path_eq p q"
| "file_system_path_eq (GlobPattern p) (GlobPattern q) = (p = q)"
| "file_system_path_eq (Special p) (Special q) = special_paths_share_target p q"
| "file_system_path_eq _ _ = False"

definition entry_eq :: "sandbox_entry \<Rightarrow> sandbox_entry \<Rightarrow> bool" where
  "entry_eq e f \<longleftrightarrow> file_system_path_eq (entry_path e) (entry_path f) \<and> access e = access f"

text \<open>\<open>special_path_matches_absolute_path\<close> and \<open>file_system_paths_share_target\<close>.\<close>

definition slash_tmp :: ustr where "slash_tmp = str ''/tmp''"

fun special_path_matches_absolute_path :: "special_path \<Rightarrow> ustr \<Rightarrow> bool" where
  "special_path_matches_absolute_path Root p = (abs_parent p = None)"
| "special_path_matches_absolute_path SlashTmp p = path_eq p slash_tmp"
| "special_path_matches_absolute_path _ p = False"

fun file_system_paths_share_target :: "file_system_path \<Rightarrow> file_system_path \<Rightarrow> bool" where
  "file_system_paths_share_target (PathEntry l) (PathEntry r) = path_eq l r"
| "file_system_paths_share_target (Special l) (Special r) = special_paths_share_target l r"
| "file_system_paths_share_target (PathEntry p) (Special v) = special_path_matches_absolute_path v p"
| "file_system_paths_share_target (Special v) (PathEntry p) = special_path_matches_absolute_path v p"
| "file_system_paths_share_target (GlobPattern l) (GlobPattern r) = (l = r)"
| "file_system_paths_share_target (GlobPattern _) _ = False"
| "file_system_paths_share_target _ (GlobPattern _) = False"

section \<open>Resolving entries\<close>

definition absolute_root_path_for_cwd :: "ustr \<Rightarrow> ustr" where
  "absolute_root_path_for_cwd cwd = last (ancestors cwd)"

fun resolve_file_system_special_path :: "host_env \<Rightarrow> special_path \<Rightarrow> ustr option \<Rightarrow> ustr option" where
  "resolve_file_system_special_path env Root cwd = None"
| "resolve_file_system_special_path env Minimal cwd = None"
| "resolve_file_system_special_path env (Unknown _ _) cwd = None"
| "resolve_file_system_special_path env (ProjectRoots subpath) cwd =
     map_option (\<lambda>cwd. case subpath of Some s \<Rightarrow> host_join env cwd s | None \<Rightarrow> cwd) cwd"
| "resolve_file_system_special_path env Tmpdir cwd =
     (case tmpdir_var env of
        None \<Rightarrow> None
      | Some t \<Rightarrow> if t = [] then None else host_abs env t)"
| "resolve_file_system_special_path env SlashTmp cwd =
     (if is_dir env slash_tmp then Some slash_tmp else None)"

fun resolve_file_system_path :: "host_env \<Rightarrow> file_system_path \<Rightarrow> ustr option \<Rightarrow> ustr option" where
  "resolve_file_system_path env (PathEntry p) cwd = Some p"
| "resolve_file_system_path env (GlobPattern _) cwd = None"
| "resolve_file_system_path env (Special v) cwd = resolve_file_system_special_path env v cwd"

definition resolve_entry_path :: "host_env \<Rightarrow> file_system_path \<Rightarrow> ustr option \<Rightarrow> ustr option" where
  "resolve_entry_path env p cwd =
     (if p = Special Root then map_option absolute_root_path_for_cwd cwd
      else resolve_file_system_path env p cwd)"

definition resolve_candidate_path :: "host_env \<Rightarrow> ustr \<Rightarrow> ustr \<Rightarrow> ustr option" where
  "resolve_candidate_path env p cwd =
     (if is_absolute p then host_abs env p
      else map_option (\<lambda>c. host_join env c p) (host_abs env cwd))"

definition resolve_entry :: "host_env \<Rightarrow> ustr option \<Rightarrow> sandbox_entry \<Rightarrow> resolved_entry option" where
  "resolve_entry env cwd e =
     map_option (\<lambda>p. \<lparr>resolved_path = p, resolved_access = access e\<rparr>) (resolve_entry_path env (entry_path e) cwd)"

definition resolved_entries_with_cwd :: "host_env \<Rightarrow> sandbox_policy \<Rightarrow> ustr \<Rightarrow> resolved_entry list" where
  "resolved_entries_with_cwd env policy cwd =
     List.map_filter (resolve_entry env (host_abs env cwd)) (sandbox_entries policy)"

definition resolved_entry_precedence :: "resolved_entry \<Rightarrow> nat \<times> access_mode" where
  "resolved_entry_precedence e = (length (components (resolved_path e)), resolved_access e)"

section \<open>Access\<close>

definition has_root_access :: "(access_mode \<Rightarrow> bool) \<Rightarrow> sandbox_policy \<Rightarrow> bool" where
  "has_root_access predicate policy \<longleftrightarrow>
     sandbox_kind policy = Restricted
     \<and> list_ex (\<lambda>e. entry_path e = Special Root \<and> predicate (access e)) (sandbox_entries policy)"

definition has_denied_read_restrictions :: "sandbox_policy \<Rightarrow> bool" where
  "has_denied_read_restrictions policy \<longleftrightarrow>
     sandbox_kind policy = Restricted \<and> list_ex (\<lambda>e. access e = Deny) (sandbox_entries policy)"

definition has_same_target_write_override :: "sandbox_policy \<Rightarrow> sandbox_entry \<Rightarrow> bool" where
  "has_same_target_write_override policy e \<longleftrightarrow>
     list_ex (\<lambda>c. can_write (access c) \<and> access e < access c
        \<and> file_system_paths_share_target (entry_path c) (entry_path e)) (sandbox_entries policy)"

definition narrows_write :: "sandbox_policy \<Rightarrow> sandbox_entry \<Rightarrow> bool" where
  "narrows_write policy e \<longleftrightarrow>
     (if can_write (access e) then False
      else case entry_path e of
             PathEntry _ \<Rightarrow> \<not> has_same_target_write_override policy e
           | GlobPattern _ \<Rightarrow> True
           | Special v \<Rightarrow>
               (case v of
                  Root \<Rightarrow> access e = Deny
                | Minimal \<Rightarrow> False
                | Unknown _ _ \<Rightarrow> False
                | _ \<Rightarrow> \<not> has_same_target_write_override policy e))"

definition has_write_narrowing_entries :: "sandbox_policy \<Rightarrow> bool" where
  "has_write_narrowing_entries policy \<longleftrightarrow>
     sandbox_kind policy = Restricted \<and> list_ex (narrows_write policy) (sandbox_entries policy)"

definition has_full_disk_read_access :: "sandbox_policy \<Rightarrow> bool" where
  "has_full_disk_read_access policy \<longleftrightarrow>
     (case sandbox_kind policy of
        Restricted \<Rightarrow> has_root_access can_read policy \<and> \<not> has_denied_read_restrictions policy
      | _ \<Rightarrow> True)"

definition has_full_disk_write_access :: "sandbox_policy \<Rightarrow> bool" where
  "has_full_disk_write_access policy \<longleftrightarrow>
     (case sandbox_kind policy of
        Restricted \<Rightarrow> has_root_access can_write policy \<and> \<not> has_write_narrowing_entries policy
      | _ \<Rightarrow> True)"

definition include_platform_defaults :: "sandbox_policy \<Rightarrow> bool" where
  "include_platform_defaults policy \<longleftrightarrow>
     \<not> has_full_disk_read_access policy \<and> sandbox_kind policy = Restricted
     \<and> list_ex (\<lambda>e. entry_path e = Special Minimal \<and> can_read (access e)) (sandbox_entries policy)"

definition resolve_access_with_cwd :: "host_env \<Rightarrow> sandbox_policy \<Rightarrow> ustr \<Rightarrow> ustr \<Rightarrow> access_mode" where
  "resolve_access_with_cwd env policy path cwd =
     (if sandbox_kind policy \<noteq> Restricted then Write
      else case resolve_candidate_path env path cwd of
             None \<Rightarrow> Deny
           | Some p \<Rightarrow>
               (case max_by_key resolved_entry_precedence
                       (filter (\<lambda>e. path_starts_with p (resolved_path e)) (resolved_entries_with_cwd env policy cwd)) of
                  Some e \<Rightarrow> resolved_access e
                | None \<Rightarrow> Deny))"

definition can_read_path_with_cwd :: "host_env \<Rightarrow> sandbox_policy \<Rightarrow> ustr \<Rightarrow> ustr \<Rightarrow> bool" where
  "can_read_path_with_cwd env policy path cwd \<longleftrightarrow> can_read (resolve_access_with_cwd env policy path cwd)"

section \<open>Protected metadata\<close>

definition PROTECTED_METADATA_PATH_NAMES :: "ustr list" where
  "PROTECTED_METADATA_PATH_NAMES = [str ''.git'', str ''.agents'', str ''.codex'']"

definition is_protected_metadata_name :: "ustr \<Rightarrow> bool" where
  "is_protected_metadata_name name \<longleftrightarrow> list_ex (\<lambda>m. name = m) PROTECTED_METADATA_PATH_NAMES"

definition is_protected_metadata_directory_name :: "ustr \<Rightarrow> bool" where
  "is_protected_metadata_directory_name name \<longleftrightarrow> name = str ''.agents'' \<or> name = str ''.codex''"

fun os_str :: "component \<Rightarrow> ustr" where
  "os_str RootDir = [slash]" | "os_str CurDir = dot" | "os_str ParentDir = dotdot" | "os_str (Normal n) = n"

definition metadata_path_name :: "ustr \<Rightarrow> ustr option" where
  "metadata_path_name name = find (\<lambda>m. name = m) PROTECTED_METADATA_PATH_NAMES"

definition metadata_child :: "host_env \<Rightarrow> ustr \<Rightarrow> resolved_entry \<Rightarrow> (ustr \<times> ustr) option" where
  "metadata_child env target e =
     (case path_strip_prefix target (resolved_path e) of
        Some (c # _) \<Rightarrow>
          map_option (\<lambda>m. (host_join env (resolved_path e) m, m)) (metadata_path_name (os_str c))
      | _ \<Rightarrow> None)"

definition metadata_child_of_writable_root ::
  "host_env \<Rightarrow> sandbox_policy \<Rightarrow> ustr \<Rightarrow> ustr \<Rightarrow> (ustr \<times> ustr) option" where
  "metadata_child_of_writable_root env policy target cwd =
     (case List.map_filter (metadata_child env target)
             (filter (\<lambda>e. can_write (resolved_access e)) (resolved_entries_with_cwd env policy cwd)) of
        [] \<Rightarrow> None
      | m # _ \<Rightarrow> Some m)"

definition has_explicit_write_entry_for_metadata_path ::
  "host_env \<Rightarrow> sandbox_policy \<Rightarrow> ustr \<Rightarrow> ustr \<Rightarrow> ustr \<Rightarrow> bool" where
  "has_explicit_write_entry_for_metadata_path env policy protected_metadata_path target cwd \<longleftrightarrow>
     list_ex (\<lambda>e. can_write (resolved_access e) \<and> path_starts_with target (resolved_path e)
        \<and> path_starts_with (resolved_path e) protected_metadata_path) (resolved_entries_with_cwd env policy cwd)"

definition is_metadata_write_denied :: "host_env \<Rightarrow> sandbox_policy \<Rightarrow> ustr \<Rightarrow> ustr \<Rightarrow> bool" where
  "is_metadata_write_denied env policy path cwd \<longleftrightarrow>
     (if sandbox_kind policy \<noteq> Restricted then False
      else case resolve_candidate_path env path cwd of
             None \<Rightarrow> True
           | Some target \<Rightarrow>
               (case metadata_child_of_writable_root env policy target cwd of
                  None \<Rightarrow> False
                | Some (protected_metadata_path, _) \<Rightarrow>
                    \<not> has_explicit_write_entry_for_metadata_path env policy protected_metadata_path target cwd))"

definition can_write_path_with_cwd :: "host_env \<Rightarrow> sandbox_policy \<Rightarrow> ustr \<Rightarrow> ustr \<Rightarrow> bool" where
  "can_write_path_with_cwd env policy path cwd \<longleftrightarrow>
     (if \<not> can_write (resolve_access_with_cwd env policy path cwd) then False
      else if has_full_disk_write_access policy then True
      else \<not> is_metadata_write_denied env policy path cwd)"

definition forbidden_agent_metadata_write :: "host_env \<Rightarrow> ustr \<Rightarrow> ustr \<Rightarrow> sandbox_policy \<Rightarrow> ustr option" where
  "forbidden_agent_metadata_write env path cwd policy =
     (if sandbox_kind policy \<noteq> Restricted then None
      else Option.bind (resolve_candidate_path env path cwd) (\<lambda>target.
           Option.bind (metadata_child_of_writable_root env policy target cwd) (\<lambda>(protected_metadata_path, metadata_name).
             if has_explicit_write_entry_for_metadata_path env policy protected_metadata_path target cwd then None
             else if \<not> can_write_path_with_cwd env policy target cwd then Some metadata_name
             else None)))"

section \<open>The most specific entry decides\<close>

definition matching_entries :: "host_env \<Rightarrow> sandbox_policy \<Rightarrow> ustr \<Rightarrow> ustr \<Rightarrow> resolved_entry list" where
  "matching_entries env policy cwd target =
     filter (\<lambda>e. path_starts_with target (resolved_path e)) (resolved_entries_with_cwd env policy cwd)"

definition specificity :: "resolved_entry \<Rightarrow> nat" where
  "specificity e = length (components (resolved_path e))"

lemma precedence_le_iff:
  "resolved_entry_precedence e \<le> resolved_entry_precedence f \<longleftrightarrow>
     specificity e < specificity f \<or> (specificity e = specificity f \<and> resolved_access e \<le> resolved_access f)"
  by (auto simp: resolved_entry_precedence_def specificity_def less_eq_prod_def)

lemma resolve_access_cases:
  assumes "sandbox_kind policy = Restricted" "resolve_candidate_path env path cwd = Some target"
  obtains (none) "matching_entries env policy cwd target = []" "resolve_access_with_cwd env policy path cwd = Deny"
  | (entry) e where "e \<in> set (matching_entries env policy cwd target)"
      "resolve_access_with_cwd env policy path cwd = resolved_access e"
      "\<forall>f \<in> set (matching_entries env policy cwd target).
         specificity f < specificity e \<or> (specificity f = specificity e \<and> resolved_access f \<le> resolved_access e)"
proof (cases "max_by_key resolved_entry_precedence (matching_entries env policy cwd target)")
  case None
  with assms none show ?thesis by (simp add: resolve_access_with_cwd_def matching_entries_def)
next
  case (Some e)
  with assms max_by_key_Some [OF Some] entry [of e] show ?thesis
    by (simp add: resolve_access_with_cwd_def matching_entries_def precedence_le_iff)
qed


section \<open>Protected metadata is not writable\<close>

text \<open>The root of a metadata directory below a write grant, and the paths at or below it.\<close>

definition under_metadata :: "host_env \<Rightarrow> sandbox_policy \<Rightarrow> ustr \<Rightarrow> ustr \<Rightarrow> bool" where
  "under_metadata env policy cwd target \<longleftrightarrow>
     (\<exists>e \<in> set (resolved_entries_with_cwd env policy cwd).
        can_write (resolved_access e) \<and> metadata_child env target e \<noteq> None)"

definition explicit_metadata_grant :: "host_env \<Rightarrow> sandbox_policy \<Rightarrow> ustr \<Rightarrow> bool" where
  "explicit_metadata_grant env policy cwd \<longleftrightarrow>
     (\<exists>e \<in> set (resolved_entries_with_cwd env policy cwd).
        \<exists>f \<in> set (resolved_entries_with_cwd env policy cwd).
        can_write (resolved_access e) \<and> can_write (resolved_access f)
        \<and> (\<exists>m \<in> set PROTECTED_METADATA_PATH_NAMES.
             path_starts_with (resolved_path f) (host_join env (resolved_path e) m)))"

lemma metadata_child_of_writable_root_iff:
  "metadata_child_of_writable_root env policy target cwd = None \<longleftrightarrow> \<not> under_metadata env policy cwd target"
proof -
  let ?ms = "List.map_filter (metadata_child env target)
    (filter (\<lambda>e. can_write (resolved_access e)) (resolved_entries_with_cwd env policy cwd))"
  have "metadata_child_of_writable_root env policy target cwd = None \<longleftrightarrow> ?ms = []"
    by (simp add: metadata_child_of_writable_root_def split: list.splits)
  then show ?thesis unfolding map_filter_Nil_iff by (auto simp: under_metadata_def)
qed

lemma metadata_child_Some:
  "metadata_child env target e = Some (p, m) \<Longrightarrow>
   p = host_join env (resolved_path e) m \<and> m \<in> set PROTECTED_METADATA_PATH_NAMES"
  by (auto simp: metadata_child_def metadata_path_name_def find_Some_iff split: option.splits list.splits)

lemma metadata_child_of_writable_root_Some:
  assumes "metadata_child_of_writable_root env policy target cwd = Some (p, m)"
  shows "\<exists>e \<in> set (resolved_entries_with_cwd env policy cwd).
    can_write (resolved_access e) \<and> metadata_child env target e = Some (p, m)"
proof -
  let ?ms = "List.map_filter (metadata_child env target)
    (filter (\<lambda>e. can_write (resolved_access e)) (resolved_entries_with_cwd env policy cwd))"
  have "(p, m) \<in> set ?ms"
    using assms by (cases ?ms) (simp_all add: metadata_child_of_writable_root_def)
  then show ?thesis by (auto simp: set_map_filter)
qed

lemma metadata_write_blocked:
  assumes "\<not> has_full_disk_write_access policy" "\<not> explicit_metadata_grant env policy cwd"
    and "resolve_candidate_path env path cwd = Some target" "under_metadata env policy cwd target"
  shows "\<not> can_write_path_with_cwd env policy path cwd"
proof -
  have "sandbox_kind policy = Restricted"
    using assms(1) by (simp add: has_full_disk_write_access_def split: sandbox_kind.splits)
  moreover obtain p m where pm: "metadata_child_of_writable_root env policy target cwd = Some (p, m)"
    using assms(4) metadata_child_of_writable_root_iff [of env policy target cwd] by fastforce
  moreover from metadata_child_of_writable_root_Some [OF pm] assms(2)
  have "\<not> has_explicit_write_entry_for_metadata_path env policy p target cwd"
    by (auto simp: has_explicit_write_entry_for_metadata_path_def explicit_metadata_grant_def list_ex_iff
        dest!: metadata_child_Some)
  ultimately have "is_metadata_write_denied env policy path cwd"
    using assms(3) by (simp add: is_metadata_write_denied_def)
  with assms(1) show ?thesis by (simp add: can_write_path_with_cwd_def)
qed

text \<open>
  C19: a policy that does not grant the whole disk and has no write grant inside the metadata
  of another grant never lets a path at or below \<open>.git\<close>, \<open>.agents\<close> or \<open>.codex\<close> of a writable root
  be written.
\<close>

theorem metadata_not_writable:
  assumes "\<not> has_full_disk_write_access policy" "\<not> explicit_metadata_grant env policy cwd"
    and "resolve_candidate_path env path cwd = Some target" "under_metadata env policy cwd target"
  shows "\<not> can_write_path_with_cwd env policy path cwd"
  using assms by (rule metadata_write_blocked)

section \<open>Full disk access\<close>

text \<open>
  What the types guarantee of a policy: a path entry holds a normal absolute path. Subpaths of
  the project roots are taken to be spelled in one way.
\<close>

definition policy_ok :: "sandbox_policy \<Rightarrow> bool" where
  "policy_ok policy \<longleftrightarrow>
     (\<forall>e \<in> set (sandbox_entries policy). \<forall>p. entry_path e = PathEntry p \<longrightarrow> is_normal_abs p)"

definition canonical_subpaths :: "sandbox_policy \<Rightarrow> bool" where
  "canonical_subpaths policy \<longleftrightarrow>
     (\<forall>e \<in> set (sandbox_entries policy). \<forall>f \<in> set (sandbox_entries policy). \<forall>s t.
        entry_path e = Special (ProjectRoots s) \<longrightarrow> entry_path f = Special (ProjectRoots t) \<longrightarrow>
        opt_path_eq s t \<longrightarrow> s = t)"

lemma resolved_entry_iff:
  "r \<in> set (resolved_entries_with_cwd env policy cwd) \<longleftrightarrow>
     (\<exists>e \<in> set (sandbox_entries policy). resolve_entry env (host_abs env cwd) e = Some r)"
  by (auto simp: resolved_entries_with_cwd_def set_map_filter)

lemma candidate_absolute:
  assumes "is_absolute cwd" "resolve_candidate_path env path cwd = Some target"
  shows "is_normal_abs target"
proof (cases "is_absolute path")
  case True
  then show ?thesis
    using assms(2) normalize_path_absolute [OF True]
    by (simp add: resolve_candidate_path_def host_abs_def abs_try_from_absolute)
next
  case False
  then show ?thesis
    using assms normalize_path_absolute [OF assms(1)]
    by (auto simp: resolve_candidate_path_def host_abs_def host_join_def abs_join_def
        abs_try_from_absolute elim!: is_normal_absE intro!: resolve_path_normal)
qed

lemma slash_is_display: "[slash] = abs_display []"
  by (simp add: abs_display_def npath_display_def)

lemma starts_with_root: "is_normal_abs p \<Longrightarrow> path_starts_with p [slash]"
  by (erule is_normal_absE) (simp add: slash_is_display path_starts_with_display starts_with_iff)

lemma abs_parent_None: "is_normal_abs p \<Longrightarrow> abs_parent p = None \<longleftrightarrow> p = [slash]"
proof (erule is_normal_absE)
  fix ns assume ns: "list_all name_ok ns" "p = abs_display ns"
  show "abs_parent p = None \<longleftrightarrow> p = [slash]"
  proof (cases ns rule: rev_cases)
    case Nil
    then show ?thesis using ns by (simp add: abs_parent_def components_abs_display slash_is_display)
  next
    case (snoc ms n)
    then have "components p \<noteq> components [slash]"
      using ns unfolding slash_is_display by (simp add: components_abs_display)
    then have "p \<noteq> [slash]" by metis
    with snoc ns show ?thesis by (simp add: abs_parent_def components_abs_display)
  qed
qed

text \<open>An override of an entry resolves to a path with the same components.\<close>

lemma override_resolves:
  assumes "policy_ok policy" "canonical_subpaths policy" "is_dir env slash_tmp"
    and "e \<in> set (sandbox_entries policy)" "c \<in> set (sandbox_entries policy)"
    and "file_system_paths_share_target (entry_path c) (entry_path e)"
    and "resolve_entry env (Some cwd) e = Some r"
  shows "\<exists>s. resolve_entry env (Some cwd) c = Some s \<and> resolved_access s = access c
    \<and> components (resolved_path s) = components (resolved_path r)"
proof -
  have root: "absolute_root_path_for_cwd cwd = [slash]" by (simp add: absolute_root_path_for_cwd_def ancestors_last)
  have ok: "is_normal_abs p" if "entry_path x = PathEntry p" "x \<in> {e, c}" for x p
    using assms(1,4,5) that unfolding policy_ok_def by blast
  have sub: "s = t" if "entry_path c = Special (ProjectRoots s)" "entry_path e = Special (ProjectRoots t)"
      "opt_path_eq s t" for s t
    using assms(2,4,5) that unfolding canonical_subpaths_def by blast
  from assms(6) show ?thesis
  proof (cases rule: file_system_paths_share_target.cases [of "(entry_path c, entry_path e)"])
    case (2 l v)
    then show ?thesis using assms(3,6,7)
      by (cases "(l, v)" rule: special_paths_share_target.cases)
        (auto simp: resolve_entry_def resolve_entry_path_def split: option.splits dest: sub)
  next
    case (3 p v)
    then show ?thesis using assms(3,6,7) ok [of c p] root
      by (cases v) (auto simp: resolve_entry_def resolve_entry_path_def abs_parent_None path_eq_def)
  next
    case (4 v p)
    then show ?thesis using assms(3,6,7) ok [of e p] root
      by (cases v) (auto simp: resolve_entry_def resolve_entry_path_def abs_parent_None path_eq_def)
  qed (use assms(6,7) in \<open>auto simp: resolve_entry_def resolve_entry_path_def path_eq_def\<close>)
qed

lemma candidate_exists:
  assumes "is_absolute cwd"
  obtains target where "resolve_candidate_path env path cwd = Some target" "is_normal_abs target"
proof -
  have "resolve_candidate_path env path cwd \<noteq> None"
    using assms by (simp add: resolve_candidate_path_def host_abs_def abs_try_from_absolute)
  with that candidate_absolute [OF assms] show ?thesis by blast
qed

lemma host_abs_cwd: "is_absolute cwd \<Longrightarrow> host_abs env cwd = Some (normalize_path cwd)"
  by (simp add: host_abs_def abs_try_from_absolute)

lemma root_entry_resolves:
  "entry_path e = Special Root \<Longrightarrow> resolve_entry env (Some cwd) e = Some r \<longleftrightarrow>
     r = \<lparr>resolved_path = [slash], resolved_access = access e\<rparr>"
  by (auto simp: resolve_entry_def resolve_entry_path_def absolute_root_path_for_cwd_def ancestors_last)

text \<open>An entry that does not narrow the root grant is a write grant or is overridden by one.\<close>

lemma unnarrowing_entry_overridden:
  assumes "policy_ok policy" "canonical_subpaths policy" "is_dir env slash_tmp"
    and g: "g \<in> set (sandbox_entries policy)" "entry_path g = Special Root" "access g = Write"
    and e: "e \<in> set (sandbox_entries policy)" "resolve_entry env (Some cwd) e = Some r" "\<not> narrows_write policy e"
  shows "access e = Write \<or> access e = Read \<and> (\<exists>c \<in> set (sandbox_entries policy). \<exists>s.
    resolve_entry env (Some cwd) c = Some s \<and> resolved_access s = Write
    \<and> components (resolved_path s) = components (resolved_path r))"
proof -
  consider "access e = Write" | "entry_path e = Special Root" "access e = Read"
    | "has_same_target_write_override policy e"
    using e(2,3) by (cases "access e")
      (auto simp: narrows_write_def can_write_def resolve_entry_def resolve_entry_path_def
        split: file_system_path.splits special_path.splits)
  then show ?thesis
  proof cases
    case 2
    with e(2) g show ?thesis by (auto simp: root_entry_resolves intro!: bexI [of _ g])
  next
    case 3
    then obtain c where c: "c \<in> set (sandbox_entries policy)" "access c = Write" "access e < Write"
      "file_system_paths_share_target (entry_path c) (entry_path e)"
      by (auto simp: has_same_target_write_override_def list_ex_iff can_write_def)
    moreover have "access e = Read" using c(3) by (cases "access e") (simp_all add: less_access_mode_def)
    ultimately show ?thesis using override_resolves [OF assms(1-3) e(1) c(1,4) e(2)] by auto
  qed simp
qed

text \<open>
  The two ways to ask for full access agree. A policy whose entries grant the whole disk
  for writing, as \<open>has_full_disk_write_access\<close> reads them off, lets every path be written when
  the paths are resolved.
\<close>

theorem full_disk_write_everywhere:
  assumes "has_full_disk_write_access policy" "is_absolute cwd" "is_dir env slash_tmp"
    and "policy_ok policy" "canonical_subpaths policy"
  shows "can_write_path_with_cwd env policy path cwd"
proof (cases "sandbox_kind policy = Restricted")
  case True
  obtain target where target: "resolve_candidate_path env path cwd = Some target" "is_normal_abs target"
    using candidate_exists [OF assms(2)] .
  let ?M = "matching_entries env policy cwd target"
  obtain g where g: "g \<in> set (sandbox_entries policy)" "entry_path g = Special Root" "access g = Write"
    using assms(1) True
    by (auto simp: has_full_disk_write_access_def has_root_access_def list_ex_iff can_write_def)
  have "\<lparr>resolved_path = [slash], resolved_access = Write\<rparr> \<in> set ?M"
    using g target(2) host_abs_cwd [OF assms(2)]
    by (auto simp: matching_entries_def starts_with_root resolved_entry_iff root_entry_resolves
        intro!: bexI [of _ g])
  with True target(1) have "resolve_access_with_cwd env policy path cwd = Write"
  proof (cases rule: resolve_access_cases)
    case (entry r)
    then obtain e where e: "e \<in> set (sandbox_entries policy)"
      "resolve_entry env (Some (normalize_path cwd)) e = Some r" and r: "path_starts_with target (resolved_path r)"
      using host_abs_cwd [OF assms(2)] by (auto simp: matching_entries_def resolved_entry_iff)
    have acc: "resolved_access r = access e" using e(2) by (auto simp: resolve_entry_def)
    have "\<not> narrows_write policy e"
      using assms(1) True e(1)
      by (auto simp: has_full_disk_write_access_def has_write_narrowing_entries_def list_ex_iff)
    from unnarrowing_entry_overridden [OF assms(4,5,3) g e this] show ?thesis
    proof
      assume "access e = Read \<and> (\<exists>c \<in> set (sandbox_entries policy). \<exists>s.
        resolve_entry env (Some (normalize_path cwd)) c = Some s \<and> resolved_access s = Write
        \<and> components (resolved_path s) = components (resolved_path r))"
      then obtain c s where read: "access e = Read" and c: "c \<in> set (sandbox_entries policy)"
        "resolve_entry env (host_abs env cwd) c = Some s" and s: "resolved_access s = Write"
        "components (resolved_path s) = components (resolved_path r)"
        by (auto simp: host_abs_cwd [OF assms(2)])
      have "s \<in> set ?M" "specificity s = specificity r"
        using c s(2) r
        by (auto simp: matching_entries_def resolved_entry_iff path_starts_with_def specificity_def)
      with s(1) have "Write \<le> resolved_access r" using entry(3) by fastforce
      with read acc show ?thesis by (simp add: less_eq_access_mode_def)
    qed (simp add: entry(2) acc)
  qed auto
  with assms(1) show ?thesis by (simp add: can_write_path_with_cwd_def can_write_def)
next
  case False
  with assms(1) show ?thesis
    by (simp add: can_write_path_with_cwd_def resolve_access_with_cwd_def can_write_def)
qed

section \<open>Examples\<close>

definition plain_host :: host_env where
  "plain_host = \<lparr>path_vars = \<lparr>home_dir = None, current_dir = None\<rparr>, tmpdir_var = None,
     is_dir = (\<lambda>p. p = str ''/tmp''), is_regular_file = (\<lambda>_. False), path_exists = (\<lambda>_. False),
     read_to_string = (\<lambda>_. None), symlink_metadata = (\<lambda>_. None), canonicalize = (\<lambda>_. None)\<rparr>"

definition project_policy :: sandbox_policy where
  "project_policy = restricted
     [entry_for (Special Root) Read, entry_for (Special (ProjectRoots None)) Write,
      entry_for (PathEntry (str ''/w/secret'')) Deny, entry_for (PathEntry (str ''/w/secret'')) Write]"


theorem metadata_not_writable_witness:
  "resolve_access_with_cwd plain_host project_policy (str ''/w/.git/hooks'') (str ''/w'') = Write
    \<and> \<not> can_write_path_with_cwd plain_host project_policy (str ''/w/.git/hooks'') (str ''/w'')"
proof -
  have "resolve_access_with_cwd plain_host project_policy (str ''/w/.git/hooks'') (str ''/w'') = Write"
    by code_simp
  moreover have "\<not> has_full_disk_write_access project_policy" by code_simp
  moreover have "\<not> explicit_metadata_grant plain_host project_policy (str ''/w'')" by code_simp
  moreover have "resolve_candidate_path plain_host (str ''/w/.git/hooks'') (str ''/w'') = Some (str ''/w/.git/hooks'')"
    by code_simp
  moreover have "under_metadata plain_host project_policy (str ''/w'') (str ''/w/.git/hooks'')" by code_simp
  ultimately show ?thesis using metadata_not_writable by blast
qed

theorem full_disk_write_everywhere_witness:
  "can_write_path_with_cwd plain_host
     (restricted [entry_for (Special Root) Write, entry_for (Special SlashTmp) Read,
        entry_for (PathEntry (str ''/tmp'')) Write])
     (str ''/etc/passwd'') (str ''/w'')"
proof -
  let ?p = "restricted [entry_for (Special Root) Write, entry_for (Special SlashTmp) Read,
        entry_for (PathEntry (str ''/tmp'')) Write]"
  have "has_full_disk_write_access ?p" "is_absolute (str ''/w'')" "is_dir plain_host slash_tmp"
    by code_simp+
  moreover have "is_normal_abs (str ''/tmp'')"
    unfolding is_normal_abs_def by (intro exI [of _ "[str ''tmp'']"]) code_simp
  then have "policy_ok ?p" "canonical_subpaths ?p"
    by (auto simp: policy_ok_def canonical_subpaths_def restricted_def entry_for_def)
  ultimately show ?thesis by (rule full_disk_write_everywhere)
qed

text \<open>
  Whether a path inside the metadata of two grants can be written depends on the order of the
  grants: only the first writable root with a matching metadata name is looked at.
\<close>

lemma metadata_check_order_dependent:
  "let outer = entry_for (PathEntry (str ''/w'')) Write; inner = entry_for (PathEntry (str ''/w/.git'')) Write
   in can_write_path_with_cwd plain_host (restricted [outer, inner]) (str ''/w/.git/.codex/x'') (str ''/'')
      \<and> \<not> can_write_path_with_cwd plain_host (restricted [inner, outer]) (str ''/w/.git/.codex/x'') (str ''/'')"
  by code_simp

end
