(* ===== verification/Sandbox_Profiles.thy ===== *)
theory Sandbox_Profiles
  imports Permissions
begin

text \<open>
  Building, extending and projecting filesystem permissions: the remaining operations of
  \<open>codex-rs/protocol/src/permissions.rs\<close> (the workspace policy, additional roots, project roots,
  the roots a sandbox enforces, the projection to and from the legacy policies of
  \<open>protocol.rs\<close>) and the permission profiles of \<open>codex-rs/protocol/src/models.rs\<close>.
\<close>

section \<open>Paths on disk\<close>

definition should_preserve_logical_path :: "host_env \<Rightarrow> ustr \<Rightarrow> bool" where
  "should_preserve_logical_path env logical \<longleftrightarrow>
     list_ex (\<lambda>a. symlink_metadata env a = Some True
        \<and> Option.bind (abs_parent a) abs_parent \<noteq> None) (ancestors logical)"

definition canonicalize_preserving_symlinks :: "host_env \<Rightarrow> ustr \<Rightarrow> ustr option" where
  "canonicalize_preserving_symlinks env p =
     map_option (\<lambda>logical.
       case canonicalize env p of
         Some canonical \<Rightarrow>
           if should_preserve_logical_path env logical \<and> \<not> path_eq canonical logical then logical else canonical
       | None \<Rightarrow> logical) (host_abs env p)"

fun first_normalized :: "host_env \<Rightarrow> ustr \<Rightarrow> ustr list \<Rightarrow> ustr option" where
  "first_normalized env raw_path [] = None"
| "first_normalized env raw_path (a # as) =
     (case (symlink_metadata env a, canonicalize_preserving_symlinks env a, path_strip_prefix raw_path a) of
        (Some _, Some normalized, Some suffix) \<Rightarrow>
          (case host_abs env (path_join normalized (join_with [slash] (map os_str suffix))) of
             Some p \<Rightarrow> Some p
           | None \<Rightarrow> first_normalized env raw_path as)
      | _ \<Rightarrow> first_normalized env raw_path as)"

definition normalize_effective_absolute_path :: "host_env \<Rightarrow> ustr \<Rightarrow> ustr" where
  "normalize_effective_absolute_path env path =
     (case first_normalized env path (ancestors path) of Some p \<Rightarrow> p | None \<Rightarrow> path)"

fun dedup_loop :: "ustr list \<Rightarrow> ustr list \<Rightarrow> ustr list" where
  "dedup_loop seen [] = []"
| "dedup_loop seen (p # ps) =
     (if list_ex (path_eq p) seen then dedup_loop seen ps else p # dedup_loop (p # seen) ps)"

definition dedup_absolute_paths :: "host_env \<Rightarrow> ustr list \<Rightarrow> bool \<Rightarrow> ustr list" where
  "dedup_absolute_paths env paths normalize_effective_paths =
     dedup_loop [] (map (\<lambda>p. if normalize_effective_paths then normalize_effective_absolute_path env p else p) paths)"

definition is_git_pointer_file :: "host_env \<Rightarrow> ustr \<Rightarrow> bool" where
  "is_git_pointer_file env p \<longleftrightarrow> is_regular_file env p \<and> file_name p = Some (str ''.git'')"

fun split_at_colon :: "ustr \<Rightarrow> (ustr \<times> ustr) option" where
  "split_at_colon s =
     (if 58 \<in> set s then Some (takeWhile (\<lambda>c. c \<noteq> 58) s, tl (dropWhile (\<lambda>c. c \<noteq> 58) s)) else None)"

definition resolve_gitdir_from_file :: "host_env \<Rightarrow> ustr \<Rightarrow> ustr option" where
  "resolve_gitdir_from_file env dot_git =
     Option.bind (read_to_string env dot_git) (\<lambda>contents.
     Option.bind (split_at_colon (trim contents)) (\<lambda>(prefix, raw).
       let gitdir_raw = trim raw in
       if trim prefix \<noteq> str ''gitdir'' \<or> gitdir_raw = [] then None
       else Option.bind (abs_parent dot_git) (\<lambda>base.
         let gitdir_path = host_join env base gitdir_raw in
         if path_exists env gitdir_path then Some gitdir_path else None)))"

definition default_read_only_subpaths_for_writable_root :: "host_env \<Rightarrow> ustr \<Rightarrow> bool \<Rightarrow> ustr list" where
  "default_read_only_subpaths_for_writable_root env writable_root protect_missing_dot_codex =
     (let top_level_git = host_join env writable_root (str ''.git'');
          git_is_file = is_regular_file env top_level_git;
          git_is_dir = is_dir env top_level_git;
          gitdir = (if git_is_file \<and> is_git_pointer_file env top_level_git
                    then (case resolve_gitdir_from_file env top_level_git of Some g \<Rightarrow> [g] | None \<Rightarrow> [])
                    else []);
          agents = host_join env writable_root (str ''.agents'');
          codex = host_join env writable_root (str ''.codex'')
      in dedup_absolute_paths env
           ((if git_is_dir \<or> git_is_file then gitdir @ [top_level_git] else [])
            @ (if is_dir env agents then [agents] else [])
            @ (if protect_missing_dot_codex \<or> is_dir env codex then [codex] else [])) False)"

section \<open>Building policies\<close>

definition append_default_read_only_entry_if_no_explicit_rule ::
  "file_system_path \<Rightarrow> sandbox_entry list \<Rightarrow> sandbox_entry list" where
  "append_default_read_only_entry_if_no_explicit_rule p es =
     (if list_ex (\<lambda>e. file_system_paths_share_target (entry_path e) p) es then es else es @ [entry_for p Read])"

definition append_default_read_only_project_root_subpath :: "string \<Rightarrow> sandbox_entry list \<Rightarrow> sandbox_entry list" where
  "append_default_read_only_project_root_subpath subpath =
     append_default_read_only_entry_if_no_explicit_rule (Special (ProjectRoots (Some (str subpath))))"

definition append_default_read_only_paths :: "ustr list \<Rightarrow> sandbox_entry list \<Rightarrow> sandbox_entry list" where
  "append_default_read_only_paths ps es =
     foldl (\<lambda>es p. append_default_read_only_entry_if_no_explicit_rule (PathEntry p) es) es ps"

definition protect_writable_roots :: "host_env \<Rightarrow> ustr list \<Rightarrow> sandbox_entry list \<Rightarrow> sandbox_entry list" where
  "protect_writable_roots env roots es =
     foldl (\<lambda>es r. append_default_read_only_paths (default_read_only_subpaths_for_writable_root env r False) es) es roots"

definition workspace_grants :: "ustr list \<Rightarrow> bool \<Rightarrow> bool \<Rightarrow> sandbox_entry list" where
  "workspace_grants writable_roots exclude_tmpdir_env_var exclude_slash_tmp =
     [entry_for (Special Root) Read, entry_for (Special (ProjectRoots None)) Write]
     @ (if \<not> exclude_slash_tmp then [entry_for (Special SlashTmp) Write] else [])
     @ (if \<not> exclude_tmpdir_env_var then [entry_for (Special Tmpdir) Write] else [])
     @ map (\<lambda>p. entry_for (PathEntry p) Write) writable_roots"

definition workspace_write :: "host_env \<Rightarrow> ustr list \<Rightarrow> bool \<Rightarrow> bool \<Rightarrow> sandbox_policy" where
  "workspace_write env writable_roots exclude_tmpdir_env_var exclude_slash_tmp =
     (let es = workspace_grants writable_roots exclude_tmpdir_env_var exclude_slash_tmp;
          es = append_default_read_only_project_root_subpath ''.git'' es;
          es = append_default_read_only_project_root_subpath ''.agents'' es;
          es = append_default_read_only_project_root_subpath ''.codex'' es
      in restricted (protect_writable_roots env writable_roots es))"

definition push_missing_denials :: "sandbox_entry list \<Rightarrow> sandbox_entry list \<Rightarrow> sandbox_entry list" where
  "push_missing_denials existing es =
     foldl (\<lambda>es d. if list_ex (\<lambda>e. entry_eq e d) es then es else es @ [d]) es
       (filter (\<lambda>e. access e = Deny) existing)"

definition preserve_deny_read_restrictions_from :: "sandbox_policy \<Rightarrow> sandbox_policy \<Rightarrow> sandbox_policy" where
  "preserve_deny_read_restrictions_from self existing =
     (let self = (if sandbox_kind self = Unrestricted \<and> list_ex (\<lambda>e. access e = Deny) (sandbox_entries existing)
                  then restricted [entry_for (Special Root) Write] else self)
      in if sandbox_kind self \<noteq> Restricted then self
         else self\<lparr>glob_scan_max_depth :=
                 (case glob_scan_max_depth self of None \<Rightarrow> glob_scan_max_depth existing | d \<Rightarrow> d),
               sandbox_entries := push_missing_denials (sandbox_entries existing) (sandbox_entries self)\<rparr>)"

fun add_readable_roots :: "host_env \<Rightarrow> ustr \<Rightarrow> sandbox_policy \<Rightarrow> ustr list \<Rightarrow> sandbox_policy" where
  "add_readable_roots env cwd policy [] = policy"
| "add_readable_roots env cwd policy (p # ps) =
     add_readable_roots env cwd
       (if can_read_path_with_cwd env policy p cwd then policy
        else policy\<lparr>sandbox_entries := sandbox_entries policy @ [entry_for (PathEntry p) Read]\<rparr>) ps"

definition with_additional_readable_roots :: "host_env \<Rightarrow> sandbox_policy \<Rightarrow> ustr \<Rightarrow> ustr list \<Rightarrow> sandbox_policy" where
  "with_additional_readable_roots env policy cwd roots =
     (if has_full_disk_read_access policy then policy else add_readable_roots env cwd policy roots)"

definition add_writable_root :: "host_env \<Rightarrow> ustr \<Rightarrow> sandbox_policy \<Rightarrow> ustr \<Rightarrow> sandbox_policy" where
  "add_writable_root env cwd policy p =
     (if can_write_path_with_cwd env policy p cwd then policy
      else policy\<lparr>sandbox_entries := sandbox_entries policy @ [entry_for (PathEntry p) Write]\<rparr>)"

definition with_additional_writable_roots :: "host_env \<Rightarrow> sandbox_policy \<Rightarrow> ustr \<Rightarrow> ustr list \<Rightarrow> sandbox_policy" where
  "with_additional_writable_roots env policy cwd roots = foldl (add_writable_root env cwd) policy roots"

definition add_legacy_writable_root :: "host_env \<Rightarrow> sandbox_entry list \<Rightarrow> ustr \<Rightarrow> sandbox_entry list" where
  "add_legacy_writable_root env es p =
     (let es = (if list_ex (\<lambda>e. can_write (access e)
                     \<and> (case entry_path e of PathEntry existing \<Rightarrow> path_eq existing p | _ \<Rightarrow> False)) es
                then es else es @ [entry_for (PathEntry p) Write])
      in append_default_read_only_paths (default_read_only_subpaths_for_writable_root env p False) es)"

definition with_additional_legacy_workspace_writable_roots ::
  "host_env \<Rightarrow> sandbox_policy \<Rightarrow> ustr list \<Rightarrow> sandbox_policy" where
  "with_additional_legacy_workspace_writable_roots env policy roots =
     (if sandbox_kind policy \<noteq> Restricted then policy
      else policy\<lparr>sandbox_entries := foldl (add_legacy_writable_root env) (sandbox_entries policy) roots\<rparr>)"

section \<open>Project roots\<close>

definition PROJECT_ROOTS_GLOB_PATTERN_PREFIX :: ustr where
  "PROJECT_ROOTS_GLOB_PATTERN_PREFIX = str ''codex-project-roots://''"

definition parse_project_roots_glob_pattern :: "ustr \<Rightarrow> ustr option" where
  "parse_project_roots_glob_pattern pat = strip_prefix PROJECT_ROOTS_GLOB_PATTERN_PREFIX pat"

fun materialize_path :: "host_env \<Rightarrow> ustr option \<Rightarrow> file_system_path \<Rightarrow> file_system_path" where
  "materialize_path env cwd (Special (ProjectRoots s)) =
     (case resolve_file_system_path env (Special (ProjectRoots s)) cwd of
        Some p \<Rightarrow> PathEntry p
      | None \<Rightarrow> Special (ProjectRoots s))"
| "materialize_path env cwd (GlobPattern pat) =
     (case (cwd, parse_project_roots_glob_pattern pat) of
        (Some cwd, Some subpath) \<Rightarrow> GlobPattern (host_join env cwd subpath)
      | _ \<Rightarrow> GlobPattern pat)"
| "materialize_path env cwd p = p"

definition materialize_project_roots_with_cwd :: "host_env \<Rightarrow> sandbox_policy \<Rightarrow> ustr \<Rightarrow> sandbox_policy" where
  "materialize_project_roots_with_cwd env policy cwd =
     (let cwd = host_abs env cwd in
      policy\<lparr>sandbox_entries := map (\<lambda>e. e\<lparr>entry_path := materialize_path env cwd (entry_path e)\<rparr>) (sandbox_entries policy)\<rparr>)"

definition expand_entry :: "host_env \<Rightarrow> ustr list \<Rightarrow> sandbox_entry \<Rightarrow> sandbox_entry list" where
  "expand_entry env workspace_roots e =
     (case entry_path e of
        Special (ProjectRoots subpath) \<Rightarrow>
          map (\<lambda>root. entry_for (PathEntry (case subpath of Some s \<Rightarrow> host_join env root s | None \<Rightarrow> root)) (access e))
            workspace_roots
      | GlobPattern pat \<Rightarrow>
          (case parse_project_roots_glob_pattern pat of
             Some subpath \<Rightarrow>
               map (\<lambda>root. entry_for (GlobPattern (host_join env root subpath)) (access e)) workspace_roots
           | None \<Rightarrow> [entry_for (GlobPattern pat) (access e)])
      | p \<Rightarrow> [entry_for p (access e)])"

definition materialize_project_roots_with_workspace_roots ::
  "host_env \<Rightarrow> sandbox_policy \<Rightarrow> ustr list \<Rightarrow> sandbox_policy" where
  "materialize_project_roots_with_workspace_roots env policy workspace_roots =
     policy\<lparr>sandbox_entries := concat (map (expand_entry env workspace_roots) (sandbox_entries policy))\<rparr>"

definition with_materialized_project_roots_for_workspace_roots ::
  "host_env \<Rightarrow> sandbox_policy \<Rightarrow> ustr list \<Rightarrow> sandbox_policy" where
  "with_materialized_project_roots_for_workspace_roots env policy workspace_roots =
     policy\<lparr>sandbox_entries :=
       foldl (\<lambda>es e. if list_ex (\<lambda>x. entry_eq x e) es then es else es @ [e]) (sandbox_entries policy)
         (sandbox_entries (materialize_project_roots_with_workspace_roots env policy workspace_roots))\<rparr>"

section \<open>The roots a sandbox enforces\<close>

record writable_root =
  wr_root :: ustr
  read_only_subpaths :: "ustr list"
  protected_metadata_names :: "ustr list"

definition get_readable_roots_with_cwd :: "host_env \<Rightarrow> sandbox_policy \<Rightarrow> ustr \<Rightarrow> ustr list" where
  "get_readable_roots_with_cwd env policy cwd =
     (if has_full_disk_read_access policy then []
      else dedup_absolute_paths env
             (map resolved_path (filter (\<lambda>e. can_read_path_with_cwd env policy (resolved_path e) cwd)
               (filter (\<lambda>e. can_read (resolved_access e)) (resolved_entries_with_cwd env policy cwd)))) True)"

definition protected_metadata_names_for_writable_root ::
  "host_env \<Rightarrow> sandbox_policy \<Rightarrow> ustr \<Rightarrow> ustr list \<Rightarrow> ustr \<Rightarrow> ustr list" where
  "protected_metadata_names_for_writable_root env policy root raw_writable_roots cwd =
     filter (\<lambda>m. list_all (\<lambda>r. \<not> can_write_path_with_cwd env policy (host_join env r m) cwd)
        (root # raw_writable_roots)) PROTECTED_METADATA_PATH_NAMES"

text \<open>The literal path of a carve-out below a writable root, if it is to be preserved.\<close>

definition raw_carveout_path :: "host_env \<Rightarrow> ustr \<Rightarrow> ustr list \<Rightarrow> ustr \<Rightarrow> ustr option" where
  "raw_carveout_path env root raw_writable_roots p =
     (if abs_parent root = None then None
      else if path_eq p root then None
      else if path_starts_with p root then Some p
      else (case List.map_filter (\<lambda>raw_root.
                   case path_strip_prefix p raw_root of
                     Some (c # cs) \<Rightarrow> Some (host_join env root (join_with [slash] (map os_str (c # cs))))
                   | _ \<Rightarrow> None) raw_writable_roots of
              [] \<Rightarrow> None
            | q # _ \<Rightarrow> Some q))"

definition carveout :: "host_env \<Rightarrow> ustr \<Rightarrow> ustr list \<Rightarrow> resolved_entry \<Rightarrow> ustr option" where
  "carveout env root raw_writable_roots e =
     (case raw_carveout_path env root raw_writable_roots (resolved_path e) of
        Some p \<Rightarrow> Some p
      | None \<Rightarrow>
          let effective_path = normalize_effective_absolute_path env (resolved_path e) in
          if path_eq effective_path root \<or> \<not> path_starts_with effective_path root then None
          else Some effective_path)"

definition writable_root_for :: "host_env \<Rightarrow> sandbox_policy \<Rightarrow> ustr \<Rightarrow> ustr list \<Rightarrow> ustr \<Rightarrow> writable_root" where
  "writable_root_for env policy cwd writable_entries root =
     (let resolved = resolved_entries_with_cwd env policy cwd;
          raw_writable_roots = filter (\<lambda>p. path_eq (normalize_effective_absolute_path env p) root) writable_entries;
          protect_missing_dot_codex =
            (case host_abs env cwd of
               Some c \<Rightarrow> path_eq (normalize_effective_absolute_path env c) root
             | None \<Rightarrow> False);
          defaults = filter (\<lambda>p. \<not> list_ex (\<lambda>e. path_eq (resolved_path e) p) resolved)
            (default_read_only_subpaths_for_writable_root env root protect_missing_dot_codex);
          carveouts = List.map_filter (carveout env root raw_writable_roots)
            (filter (\<lambda>e. \<not> can_write_path_with_cwd env policy (resolved_path e) cwd)
              (filter (\<lambda>e. \<not> can_write (resolved_access e)) resolved))
      in \<lparr>wr_root = root,
          read_only_subpaths = dedup_absolute_paths env (defaults @ carveouts) False,
          protected_metadata_names =
            protected_metadata_names_for_writable_root env policy root raw_writable_roots cwd\<rparr>)"

definition get_writable_roots_with_cwd :: "host_env \<Rightarrow> sandbox_policy \<Rightarrow> ustr \<Rightarrow> writable_root list" where
  "get_writable_roots_with_cwd env policy cwd =
     (if has_full_disk_write_access policy then []
      else let writable_entries = map resolved_path
                 (filter (\<lambda>e. can_write_path_with_cwd env policy (resolved_path e) cwd)
                   (filter (\<lambda>e. can_write (resolved_access e)) (resolved_entries_with_cwd env policy cwd)))
           in map (writable_root_for env policy cwd writable_entries) (dedup_absolute_paths env writable_entries True))"

definition path_contains_protected_metadata_name :: "writable_root \<Rightarrow> ustr \<Rightarrow> bool" where
  "path_contains_protected_metadata_name wr path \<longleftrightarrow>
     (case path_strip_prefix path (wr_root wr) of
        Some (c # _) \<Rightarrow> list_ex (\<lambda>name. os_str c = name) (protected_metadata_names wr)
      | _ \<Rightarrow> False)"

definition is_path_writable :: "writable_root \<Rightarrow> ustr \<Rightarrow> bool" where
  "is_path_writable wr path \<longleftrightarrow>
     path_starts_with path (wr_root wr)
     \<and> \<not> list_ex (path_starts_with path) (read_only_subpaths wr)
     \<and> \<not> path_contains_protected_metadata_name wr path"

definition get_unreadable_roots_with_cwd :: "host_env \<Rightarrow> sandbox_policy \<Rightarrow> ustr \<Rightarrow> ustr list" where
  "get_unreadable_roots_with_cwd env policy cwd =
     (if sandbox_kind policy \<noteq> Restricted then []
      else let root = map_option absolute_root_path_for_cwd (host_abs env cwd) in
           dedup_absolute_paths env
             (map resolved_path (filter (\<lambda>e. \<not> opt_path_eq root (Some (resolved_path e)))
               (filter (\<lambda>e. \<not> can_read_path_with_cwd env policy (resolved_path e) cwd)
                 (filter (\<lambda>e. resolved_access e = Deny) (resolved_entries_with_cwd env policy cwd))))) True)"

section \<open>Legacy policies\<close>

datatype legacy_policy =
    DangerFullAccess
  | ReadOnly bool
  | LegacyExternalSandbox network_sandbox_policy
  | WorkspaceWrite "ustr list" bool bool bool
    \<comment> \<open>writable roots, network access, exclude \<open>TMPDIR\<close>, exclude \<open>/tmp\<close>\<close>

fun has_full_network_access :: "legacy_policy \<Rightarrow> bool" where
  "has_full_network_access DangerFullAccess = True"
| "has_full_network_access (LegacyExternalSandbox n) = network_is_enabled n"
| "has_full_network_access (ReadOnly n) = n"
| "has_full_network_access (WorkspaceWrite _ n _ _) = n"

definition network_from_legacy :: "legacy_policy \<Rightarrow> network_sandbox_policy" where
  "network_from_legacy p = (if has_full_network_access p then NetworkEnabled else NetworkRestricted)"

fun from_legacy :: "host_env \<Rightarrow> legacy_policy \<Rightarrow> sandbox_policy" where
  "from_legacy env DangerFullAccess = unrestricted"
| "from_legacy env (LegacyExternalSandbox _) = external_sandbox"
| "from_legacy env (ReadOnly _) = restricted [entry_for (Special Root) Read]"
| "from_legacy env (WorkspaceWrite roots _ exclude_tmpdir exclude_slash) =
     workspace_write env roots exclude_tmpdir exclude_slash"

fun from_legacy_sandbox_policy_for_cwd :: "host_env \<Rightarrow> legacy_policy \<Rightarrow> ustr \<Rightarrow> sandbox_policy" where
  "from_legacy_sandbox_policy_for_cwd env (WorkspaceWrite roots n exclude_tmpdir exclude_slash) cwd =
     (let policy = from_legacy env (WorkspaceWrite roots n exclude_tmpdir exclude_slash);
          es = (case host_abs env cwd of
                  Some cwd_root \<Rightarrow>
                    append_default_read_only_paths
                      (default_read_only_subpaths_for_writable_root env cwd_root True) (sandbox_entries policy)
                | None \<Rightarrow> sandbox_entries policy)
      in policy\<lparr>sandbox_entries := protect_writable_roots env roots es\<rparr>)"
| "from_legacy_sandbox_policy_for_cwd env p cwd = from_legacy env p"

definition from_legacy_sandbox_policy_preserving_deny_entries ::
  "host_env \<Rightarrow> legacy_policy \<Rightarrow> ustr \<Rightarrow> sandbox_policy \<Rightarrow> sandbox_policy" where
  "from_legacy_sandbox_policy_preserving_deny_entries env p cwd existing =
     (let rebuilt = from_legacy_sandbox_policy_for_cwd env p cwd in
      if sandbox_kind rebuilt \<noteq> Restricted then rebuilt
      else rebuilt\<lparr>glob_scan_max_depth := glob_scan_max_depth existing,
             sandbox_entries := push_missing_denials (sandbox_entries existing) (sandbox_entries rebuilt)\<rparr>)"

text \<open>\<open>to_legacy_sandbox_policy\<close>: what the loop over the entries collects, and the projection.\<close>

record legacy_scan =
  workspace_root_writable :: bool
  scan_writable_roots :: "ustr list"
  tmpdir_writable :: bool
  slash_tmp_writable :: bool
  unbridgeable_root_write :: bool

definition scan_entry :: "host_env \<Rightarrow> ustr option \<Rightarrow> legacy_scan \<Rightarrow> sandbox_entry \<Rightarrow> legacy_scan" where
  "scan_entry env cwd acc e =
     (case entry_path e of
        GlobPattern _ \<Rightarrow> acc
      | PathEntry p \<Rightarrow>
          if can_write (access e)
          then (if opt_path_eq cwd (Some p) then acc\<lparr>workspace_root_writable := True\<rparr>
                else acc\<lparr>scan_writable_roots := scan_writable_roots acc @ [p]\<rparr>)
          else acc
      | Special v \<Rightarrow>
          (case v of
             Root \<Rightarrow> if access e = Write then acc\<lparr>unbridgeable_root_write := True\<rparr> else acc
           | Minimal \<Rightarrow> acc
           | ProjectRoots subpath \<Rightarrow>
               if subpath = None \<and> can_write (access e) then acc\<lparr>workspace_root_writable := True\<rparr>
               else (case resolve_file_system_special_path env v cwd of
                       Some p \<Rightarrow>
                         if can_write (access e) then acc\<lparr>scan_writable_roots := scan_writable_roots acc @ [p]\<rparr> else acc
                     | None \<Rightarrow> acc)
           | Tmpdir \<Rightarrow> if can_write (access e) then acc\<lparr>tmpdir_writable := True\<rparr> else acc
           | SlashTmp \<Rightarrow> if can_write (access e) then acc\<lparr>slash_tmp_writable := True\<rparr> else acc
           | Unknown _ _ \<Rightarrow> acc))"

definition empty_scan :: legacy_scan where
  "empty_scan = \<lparr>workspace_root_writable = False, scan_writable_roots = [], tmpdir_writable = False,
     slash_tmp_writable = False, unbridgeable_root_write = False\<rparr>"

definition full_access_legacy :: "network_sandbox_policy \<Rightarrow> legacy_policy" where
  "full_access_legacy n =
     (if network_is_enabled n then DangerFullAccess else LegacyExternalSandbox NetworkRestricted)"

definition to_legacy_sandbox_policy ::
  "host_env \<Rightarrow> sandbox_policy \<Rightarrow> network_sandbox_policy \<Rightarrow> ustr \<Rightarrow> (legacy_policy, ustr) outcome" where
  "to_legacy_sandbox_policy env policy n cwd =
     (case sandbox_kind policy of
        ExternalSandbox \<Rightarrow> Ok (LegacyExternalSandbox n)
      | Unrestricted \<Rightarrow> Ok (full_access_legacy n)
      | Restricted \<Rightarrow>
          let scan = foldl (scan_entry env (host_abs env cwd)) empty_scan (sandbox_entries policy) in
          if has_full_disk_write_access policy then Ok (full_access_legacy n)
          else if workspace_root_writable scan
          then Ok (WorkspaceWrite (dedup_absolute_paths env (scan_writable_roots scan) False)
                 (network_is_enabled n) (\<not> tmpdir_writable scan) (\<not> slash_tmp_writable scan))
          else if unbridgeable_root_write scan \<or> scan_writable_roots scan \<noteq> []
                  \<or> tmpdir_writable scan \<or> slash_tmp_writable scan
          then Err (str ''permissions profile requests filesystem writes outside the workspace root, which is not supported until the runtime enforces FileSystemSandboxPolicy directly'')
          else Ok (ReadOnly (network_is_enabled n)))"

section \<open>Permission profiles\<close>

datatype managed_permissions =
    ManagedRestricted "sandbox_entry list" "nat option"
  | ManagedUnrestricted

datatype permission_profile =
    Managed managed_permissions network_sandbox_policy
  | Disabled
  | External network_sandbox_policy

datatype sandbox_enforcement = EnforceManaged | EnforceDisabled | EnforceExternal

text \<open>\<open>from_sandbox_policy\<close> is not defined on external policies (\<open>unreachable!\<close>).\<close>

definition managed_from_sandbox_policy :: "sandbox_policy \<Rightarrow> (managed_permissions, unit) outcome" where
  "managed_from_sandbox_policy policy =
     (case sandbox_kind policy of
        Restricted \<Rightarrow>
          Ok (ManagedRestricted (sandbox_entries policy)
            (case glob_scan_max_depth policy of Some d \<Rightarrow> if d = 0 then None else Some d | None \<Rightarrow> None))
      | Unrestricted \<Rightarrow> Ok ManagedUnrestricted
      | ExternalSandbox \<Rightarrow> Panic)"

fun managed_to_sandbox_policy :: "managed_permissions \<Rightarrow> sandbox_policy" where
  "managed_to_sandbox_policy (ManagedRestricted es d) =
     \<lparr>sandbox_kind = Restricted, glob_scan_max_depth = d, sandbox_entries = es\<rparr>"
| "managed_to_sandbox_policy ManagedUnrestricted = unrestricted"

definition from_runtime_permissions_with_enforcement ::
  "sandbox_enforcement \<Rightarrow> sandbox_policy \<Rightarrow> network_sandbox_policy \<Rightarrow> (permission_profile, unit) outcome" where
  "from_runtime_permissions_with_enforcement enforcement policy n =
     (case sandbox_kind policy of
        ExternalSandbox \<Rightarrow> Ok (External n)
      | k \<Rightarrow>
          if k = Unrestricted \<and> enforcement = EnforceDisabled then Ok Disabled
          else obind (managed_from_sandbox_policy policy) (\<lambda>m. Ok (Managed m n)))"

definition from_runtime_permissions ::
  "sandbox_policy \<Rightarrow> network_sandbox_policy \<Rightarrow> (permission_profile, unit) outcome" where
  "from_runtime_permissions policy n =
     from_runtime_permissions_with_enforcement
       (if sandbox_kind policy = ExternalSandbox then EnforceExternal else EnforceManaged) policy n"

fun enforcement_from_legacy :: "legacy_policy \<Rightarrow> sandbox_enforcement" where
  "enforcement_from_legacy DangerFullAccess = EnforceDisabled"
| "enforcement_from_legacy (LegacyExternalSandbox _) = EnforceExternal"
| "enforcement_from_legacy _ = EnforceManaged"

definition profile_from_legacy :: "host_env \<Rightarrow> legacy_policy \<Rightarrow> (permission_profile, unit) outcome" where
  "profile_from_legacy env p =
     from_runtime_permissions_with_enforcement (enforcement_from_legacy p) (from_legacy env p) (network_from_legacy p)"

definition profile_from_legacy_for_cwd :: "host_env \<Rightarrow> legacy_policy \<Rightarrow> ustr \<Rightarrow> (permission_profile, unit) outcome" where
  "profile_from_legacy_for_cwd env p cwd =
     from_runtime_permissions_with_enforcement (enforcement_from_legacy p)
       (from_legacy_sandbox_policy_for_cwd env p cwd) (network_from_legacy p)"

fun profile_enforcement :: "permission_profile \<Rightarrow> sandbox_enforcement" where
  "profile_enforcement (Managed _ _) = EnforceManaged"
| "profile_enforcement Disabled = EnforceDisabled"
| "profile_enforcement (External _) = EnforceExternal"

fun file_system_sandbox_policy :: "permission_profile \<Rightarrow> sandbox_policy" where
  "file_system_sandbox_policy (Managed m _) = managed_to_sandbox_policy m"
| "file_system_sandbox_policy Disabled = unrestricted"
| "file_system_sandbox_policy (External _) = external_sandbox"

fun network_sandbox_policy_of :: "permission_profile \<Rightarrow> network_sandbox_policy" where
  "network_sandbox_policy_of (Managed _ n) = n"
| "network_sandbox_policy_of (External n) = n"
| "network_sandbox_policy_of Disabled = NetworkEnabled"

fun profile_to_legacy :: "host_env \<Rightarrow> permission_profile \<Rightarrow> ustr \<Rightarrow> (legacy_policy, ustr) outcome" where
  "profile_to_legacy env (Managed m n) cwd = to_legacy_sandbox_policy env (managed_to_sandbox_policy m) n cwd"
| "profile_to_legacy env Disabled cwd = Ok DangerFullAccess"
| "profile_to_legacy env (External n) cwd = Ok (LegacyExternalSandbox n)"

section \<open>Granting more roots\<close>

text \<open>The current directory of a process is absolute.\<close>

definition env_ok :: "host_env \<Rightarrow> bool" where
  "env_ok env \<longleftrightarrow> (\<forall>d. current_dir (path_vars env) = Some d \<longrightarrow> is_absolute d)"

lemma host_abs_normal: "env_ok env \<Longrightarrow> host_abs env p = Some q \<Longrightarrow> is_normal_abs q"
  by (auto simp: env_ok_def host_abs_def abs_try_from_def from_absolute_path_def Let_def
      absolutize_from_def path_with_base_def normalize_path_absolute split: if_splits)

lemma host_join_normal: "is_normal_abs base \<Longrightarrow> is_normal_abs (host_join env base p)"
  by (erule is_normal_absE) (simp add: host_join_def abs_join_def resolve_path_normal)

lemma resolved_path_normal:
  assumes "policy_ok policy" "env_ok env" "is_absolute cwd"
    and "r \<in> set (resolved_entries_with_cwd env policy cwd)"
  shows "is_normal_abs (resolved_path r)"
proof -
  obtain e where e: "e \<in> set (sandbox_entries policy)"
    "resolve_entry_path env (entry_path e) (Some (normalize_path cwd)) = Some (resolved_path r)"
    using assms(4) by (auto simp: resolved_entry_iff resolve_entry_def host_abs_cwd [OF assms(3)])
  have cwd: "is_normal_abs (normalize_path cwd)" using assms(3) by (rule normalize_path_absolute)
  show ?thesis
  proof (cases "entry_path e")
    case (PathEntry p)
    with e assms(1) show ?thesis by (auto simp: policy_ok_def resolve_entry_path_def)
  next
    case (Special v)
    have "is_normal_abs [slash]" "is_normal_abs slash_tmp"
      unfolding is_normal_abs_def
      by (intro exI [of _ "[]"], code_simp) (intro exI [of _ "[str ''tmp'']"], code_simp)
    moreover have hj: "is_normal_abs q" if "host_join env (normalize_path cwd) x = q" for x q
      using host_join_normal [OF cwd] that by blast
    ultimately show ?thesis using Special e(2) cwd
      by (cases v) (auto simp: resolve_entry_path_def absolute_root_path_for_cwd_def ancestors_last
          host_abs_normal [OF assms(2)] split: option.splits if_splits dest: hj)
  qed (use e(2) in \<open>simp add: resolve_entry_path_def\<close>)
qed

lemma metadata_names_ok: "m \<in> set PROTECTED_METADATA_PATH_NAMES \<Longrightarrow> name_ok m \<and> \<not> is_absolute m
    \<and> maybe_expand_home_directory home m = m \<and> components m = [Normal m]"
proof -
  have "list_all (\<lambda>m. name_ok m \<and> \<not> is_absolute m \<and> strip_prefix [chr CHR ''~''] m = None
      \<and> components m = [Normal m]) PROTECTED_METADATA_PATH_NAMES" by code_simp
  moreover assume "m \<in> set PROTECTED_METADATA_PATH_NAMES"
  ultimately show ?thesis by (auto simp: list_all_iff maybe_expand_home_directory_def split: option.splits)
qed


lemma join_with_snoc_if: "join_with sep (xs @ [x]) = (if xs = [] then x else join_with sep xs @ sep @ x)"
  by (induction sep xs rule: join_with.induct) auto

lemma last_abs_display:
  assumes "list_all name_ok ns" "ns \<noteq> []"
  shows "last (abs_display ns) \<noteq> slash"
proof -
  obtain ms n where ns: "ns = ms @ [n]" using assms(2) by (cases ns rule: rev_cases) auto
  have "n \<noteq> []" "slash \<notin> set n" using assms(1) ns by (auto simp: name_ok_def)
  moreover from this(1) have "last (abs_display ns) = last n"
    by (auto simp: ns abs_display_def npath_display_def join_with_snoc_if)
  ultimately show ?thesis by (metis last_in_set)
qed

lemma host_join_metadata:
  assumes "list_all name_ok ns" "m \<in> set PROTECTED_METADATA_PATH_NAMES"
  shows "host_join env (abs_display ns) m = abs_display (ns @ [m])"
proof -
  note m = metadata_names_ok [OF assms(2)]
  have "path_join (abs_display ns) m = abs_display (ns @ [m])"
    using m last_abs_display [OF assms(1)]
    by (cases "ns = []") (auto simp: path_join_def abs_display_def npath_display_def join_with_snoc_if)
  then show ?thesis
    using m assms(1) by (simp add: host_join_def abs_join_def resolve_path_against_base_def absolutize_from_def
        path_with_base_def)
qed

lemma path_starts_with_comparable:
  "path_starts_with r a \<Longrightarrow> path_starts_with r b \<Longrightarrow> path_starts_with a b \<or> path_starts_with b a"
  by (auto simp: path_starts_with_def starts_with_iff append_eq_append_conv2) metis

lemma find_eq_Some: "find (\<lambda>y. x = y) ys = Some z \<longleftrightarrow> x = z \<and> z \<in> set ys"
  by (induction ys) auto

text \<open>Being below a metadata directory, in terms of names.\<close>

lemma metadata_child_iff:
  assumes "is_normal_abs (resolved_path e)"
  shows "metadata_child env target e = Some (p, m) \<longleftrightarrow>
    m \<in> set PROTECTED_METADATA_PATH_NAMES \<and> p = host_join env (resolved_path e) m \<and> path_starts_with target p"
proof -
  obtain ns where ns: "list_all name_ok ns" "resolved_path e = abs_display ns"
    using assms by (rule is_normal_absE)
  have names: "metadata_path_name n = Some m \<longleftrightarrow> n = m \<and> m \<in> set PROTECTED_METADATA_PATH_NAMES" for n m
    using find_eq_Some [of n PROTECTED_METADATA_PATH_NAMES] by (simp add: metadata_path_name_def)
  have os: "os_str c = m \<longleftrightarrow> c = Normal m" if "m \<in> set PROTECTED_METADATA_PATH_NAMES" for c m
    using metadata_names_ok [OF that] by (cases c) (auto simp: name_ok_def)
  have os_self: "c = Normal (os_str c)" if "os_str c \<in> set PROTECTED_METADATA_PATH_NAMES" for c
    using os [OF that] by blast
  have comp: "components (host_join env (resolved_path e) m) = components (resolved_path e) @ [Normal m]"
    if "m \<in> set PROTECTED_METADATA_PATH_NAMES" for m
    using metadata_names_ok [OF that] ns host_join_metadata [OF ns(1) that]
    by (simp add: components_abs_display)
  show ?thesis
    by (auto simp: metadata_child_def path_strip_prefix_def names os comp path_starts_with_def starts_with_iff
        strip_prefix_Some_iff split: option.splits list.splits dest: os_self)
qed

definition grant_write :: "ustr \<Rightarrow> sandbox_policy \<Rightarrow> sandbox_policy" where
  "grant_write p policy = policy\<lparr>sandbox_entries := sandbox_entries policy @ [entry_for (PathEntry p) Write]\<rparr>"

abbreviation write_entry :: "ustr \<Rightarrow> resolved_entry" where
  "write_entry p \<equiv> \<lparr>resolved_path = p, resolved_access = Write\<rparr>"

lemma resolved_grant_write [simp]:
  "resolved_entries_with_cwd env (grant_write p policy) cwd = resolved_entries_with_cwd env policy cwd @ [write_entry p]"
  by (simp add: resolved_entries_with_cwd_def grant_write_def List.map_filter_def resolve_entry_def
      resolve_entry_path_def entry_for_def)

lemma kind_grant_write [simp]: "sandbox_kind (grant_write p policy) = sandbox_kind policy"
  by (simp add: grant_write_def)

lemma full_disk_grant_write:
  assumes "has_full_disk_write_access policy"
  shows "has_full_disk_write_access (grant_write p policy)"
proof (cases "sandbox_kind policy")
  case Restricted
  have mono: "has_same_target_write_override policy e \<Longrightarrow> has_same_target_write_override (grant_write p policy) e" for e
    by (auto simp: has_same_target_write_override_def grant_write_def list_ex_iff)
  then have narrow: "narrows_write (grant_write p policy) e \<Longrightarrow> narrows_write policy e" for e
    by (auto simp: narrows_write_def split: file_system_path.splits special_path.splits if_splits)
  have "\<not> narrows_write (grant_write p policy) (entry_for (PathEntry p) Write)"
    by (simp add: narrows_write_def can_write_def entry_for_def)
  with narrow assms Restricted show ?thesis
    by (auto simp: has_full_disk_write_access_def has_root_access_def has_write_narrowing_entries_def
        list_ex_iff grant_write_def)
qed (use assms in \<open>simp_all add: has_full_disk_write_access_def\<close>)

text \<open>The write check of a restricted policy on a normal path.\<close>

definition metadata_allowed :: "host_env \<Rightarrow> sandbox_policy \<Rightarrow> ustr \<Rightarrow> ustr \<Rightarrow> bool" where
  "metadata_allowed env policy cwd r \<longleftrightarrow>
     (\<forall>p m. metadata_child_of_writable_root env policy r cwd = Some (p, m) \<longrightarrow>
        has_explicit_write_entry_for_metadata_path env policy p r cwd)"

lemma candidate_normal: "is_normal_abs r \<Longrightarrow> resolve_candidate_path env r cwd = Some r"
  by (auto simp: resolve_candidate_path_def host_abs_def elim: is_normal_absE)

lemma can_write_restricted_iff:
  assumes "sandbox_kind policy = Restricted" "is_normal_abs r"
  shows "can_write_path_with_cwd env policy r cwd \<longleftrightarrow>
    resolve_access_with_cwd env policy r cwd = Write
    \<and> (has_full_disk_write_access policy \<or> metadata_allowed env policy cwd r)"
  using assms by (auto simp: can_write_path_with_cwd_def can_write_def is_metadata_write_denied_def
      metadata_allowed_def candidate_normal split: option.splits)

lemma matching_grant_write:
  "matching_entries env (grant_write p policy) cwd r =
     matching_entries env policy cwd r @ (if path_starts_with r p then [write_entry p] else [])"
  by (simp add: matching_entries_def)

lemma decided_by_write:
  assumes "sandbox_kind policy = Restricted" "is_normal_abs r"
    and "resolve_access_with_cwd env policy r cwd = Write"
  shows "\<exists>e \<in> set (matching_entries env policy cwd r). resolved_access e = Write
    \<and> (\<forall>f \<in> set (matching_entries env policy cwd r).
         specificity f < specificity e \<or> (specificity f = specificity e \<and> resolved_access f \<le> Write))"
  using assms(1) candidate_normal [OF assms(2), of env cwd]
proof (cases rule: resolve_access_cases)
  case (entry e)
  with assms(3) show ?thesis by (intro bexI [of _ e]) auto
qed (use assms(3) in simp)

lemma decided_by_writeI:
  assumes "sandbox_kind policy = Restricted" "is_normal_abs r"
    and "e \<in> set (matching_entries env policy cwd r)" "resolved_access e = Write"
    and max: "\<forall>f \<in> set (matching_entries env policy cwd r).
         specificity f < specificity e \<or> (specificity f = specificity e \<and> resolved_access f \<le> Write)"
  shows "resolve_access_with_cwd env policy r cwd = Write"
  using assms(1) candidate_normal [OF assms(2), of env cwd]
proof (cases rule: resolve_access_cases)
  case (entry f)
  then have "specificity e < specificity f \<or> (specificity e = specificity f \<and> Write \<le> resolved_access f)"
    using assms(3,4) by fastforce
  with entry max show ?thesis by fastforce
qed (use assms(3) in simp)

lemma resolve_access_grant_write:
  assumes "sandbox_kind policy = Restricted" "is_normal_abs r"
    and "resolve_access_with_cwd env policy r cwd = Write"
  shows "resolve_access_with_cwd env (grant_write p policy) r cwd = Write"
proof -
  from decided_by_write [OF assms] obtain e where
    e: "e \<in> set (matching_entries env policy cwd r)" "resolved_access e = Write" and
    max: "\<forall>f \<in> set (matching_entries env policy cwd r).
         specificity f < specificity e \<or> (specificity f = specificity e \<and> resolved_access f \<le> Write)"
    by blast
  let ?n = "write_entry p"
  show ?thesis
  proof (cases "path_starts_with r p \<and> specificity e < specificity ?n")
    case True
    with assms(1,2) e max show ?thesis
      by (intro decided_by_writeI [where e = ?n]) (auto simp: matching_grant_write)
  next
    case False
    with assms(1,2) e max show ?thesis
      by (intro decided_by_writeI [where e = e]) (auto simp: matching_grant_write)
  qed
qed

text \<open>A metadata directory is a child of its root: nothing lies between them.\<close>

lemma host_join_components:
  assumes "is_normal_abs p" "m \<in> set PROTECTED_METADATA_PATH_NAMES"
  shows "components (host_join env p m) = components p @ [Normal m]"
  using assms(1) by (rule is_normal_absE)
    (use metadata_names_ok [OF assms(2)] host_join_metadata [OF _ assms(2)] in
      \<open>simp add: components_abs_display\<close>)

lemma host_join_starts_with:
  "is_normal_abs p \<Longrightarrow> m \<in> set PROTECTED_METADATA_PATH_NAMES \<Longrightarrow> path_starts_with (host_join env p m) p"
  by (simp add: path_starts_with_def host_join_components)

lemma above_metadata_parent:
  "is_normal_abs p \<Longrightarrow> m \<in> set PROTECTED_METADATA_PATH_NAMES \<Longrightarrow>
   path_starts_with (host_join env p m) q \<Longrightarrow> \<not> path_starts_with q (host_join env p m) \<Longrightarrow> path_starts_with p q"
  by (auto simp: path_starts_with_def host_join_components starts_with_iff append_eq_append_conv2
      append_eq_Cons_conv Cons_eq_append_conv) metis

lemma explicit_grant_write:
  "has_explicit_write_entry_for_metadata_path env policy q r cwd \<Longrightarrow>
   has_explicit_write_entry_for_metadata_path env (grant_write p policy) q r cwd"
  by (simp add: has_explicit_write_entry_for_metadata_path_def)

lemma metadata_child_grant_write:
  "metadata_child_of_writable_root env (grant_write p policy) r cwd =
     (case metadata_child_of_writable_root env policy r cwd of
        Some x \<Rightarrow> Some x
      | None \<Rightarrow> metadata_child env r (write_entry p))"
  by (simp add: metadata_child_of_writable_root_def can_write_def map_filter_append List.map_filter_simps
      split: list.splits option.splits)


text \<open>
  A path that was writable and lies in the metadata of a newly granted root is covered by an
  older grant inside that metadata; otherwise the new root would have been writable before.
\<close>

lemma granted_root_explicit:
  assumes "sandbox_kind policy = Restricted" "policy_ok policy" "env_ok env" "is_absolute cwd"
    and "is_normal_abs r" "is_normal_abs p"
    and acc: "resolve_access_with_cwd env policy r cwd = Write"
    and "\<not> can_write_path_with_cwd env policy p cwd"
    and none: "metadata_child_of_writable_root env policy r cwd = None"
    and child: "metadata_child env r (write_entry p) = Some (q, m)"
  shows "has_explicit_write_entry_for_metadata_path env (grant_write p policy) q r cwd"
proof (rule ccontr)
  assume no: "\<not> ?thesis"
  from decided_by_write [OF assms(1,5) acc] obtain e where
    e: "e \<in> set (matching_entries env policy cwd r)" "resolved_access e = Write" and
    max: "\<forall>f \<in> set (matching_entries env policy cwd r).
         specificity f < specificity e \<or> (specificity f = specificity e \<and> resolved_access f \<le> Write)"
    by blast
  have q: "q = host_join env p m" "m \<in> set PROTECTED_METADATA_PATH_NAMES" "path_starts_with r q"
    using child assms(6) by (auto simp: metadata_child_iff)
  have er: "path_starts_with r (resolved_path e)" "e \<in> set (resolved_entries_with_cwd env policy cwd)"
    using e(1) by (auto simp: matching_entries_def)
  have "\<not> path_starts_with (resolved_path e) q"
    using no er e(2)
    by (auto simp: has_explicit_write_entry_for_metadata_path_def list_ex_iff can_write_def)
  then have ep: "path_starts_with p (resolved_path e)"
    using above_metadata_parent [OF assms(6) q(2)] path_starts_with_comparable [OF er(1) q(3)] q(1) by blast
  have rp: "path_starts_with r p"
    using q host_join_starts_with [OF assms(6) q(2)] path_starts_with_trans by blast
  have "resolve_access_with_cwd env policy p cwd = Write"
    by (rule decided_by_writeI [OF assms(1,6), of e])
      (use e max ep er rp in \<open>auto simp: matching_entries_def intro: path_starts_with_trans\<close>)
  moreover have "metadata_child env r f \<noteq> None"
    if "metadata_child env p f \<noteq> None" "f \<in> set (resolved_entries_with_cwd env policy cwd)" for f
    using that rp resolved_path_normal [OF assms(2-4) that(2)]
    by (auto simp: metadata_child_iff intro: path_starts_with_trans)
  then have "\<not> under_metadata env policy cwd p"
    using none unfolding metadata_child_of_writable_root_iff under_metadata_def by blast
  ultimately show False
    using assms(1,6,8) by (simp add: can_write_restricted_iff metadata_allowed_def
        flip: metadata_child_of_writable_root_iff)
qed

lemma grant_write_keeps:
  assumes "sandbox_kind policy = Restricted" "policy_ok policy" "env_ok env" "is_absolute cwd"
    and "is_normal_abs r" "is_normal_abs p"
    and "can_write_path_with_cwd env policy r cwd" "\<not> can_write_path_with_cwd env policy p cwd"
  shows "can_write_path_with_cwd env (grant_write p policy) r cwd"
proof -
  have acc: "resolve_access_with_cwd env policy r cwd = Write"
    using assms(1,5,7) by (simp add: can_write_restricted_iff)
  have "metadata_allowed env (grant_write p policy) cwd r" if "metadata_allowed env policy cwd r"
    using that granted_root_explicit [OF assms(1-6) acc assms(8)]
    by (auto simp: metadata_allowed_def metadata_child_grant_write intro: explicit_grant_write
        split: option.splits)
  with assms(1,5,7) acc show ?thesis
    by (auto simp: can_write_restricted_iff resolve_access_grant_write full_disk_grant_write)
qed

text \<open>A grant makes its own path writable unless the same path is also denied.\<close>

definition denied_at :: "host_env \<Rightarrow> sandbox_policy \<Rightarrow> ustr \<Rightarrow> ustr \<Rightarrow> bool" where
  "denied_at env policy cwd r \<longleftrightarrow>
     (\<exists>f \<in> set (resolved_entries_with_cwd env policy cwd).
        path_eq (resolved_path f) r \<and> resolved_access f = Deny)"

lemma grant_write_own_path:
  assumes "sandbox_kind policy = Restricted" "policy_ok policy" "env_ok env" "is_absolute cwd"
    and "is_normal_abs p" "\<not> denied_at env policy cwd p"
  shows "can_write_path_with_cwd env (grant_write p policy) p cwd"
proof -
  let ?g = "grant_write p policy"
  have ok: "policy_ok ?g" using assms(2,5) by (auto simp: policy_ok_def grant_write_def entry_for_def)
  have top: "specificity f < specificity (write_entry p)
      \<or> specificity f = specificity (write_entry p) \<and> resolved_access f \<le> Write"
    if f: "f \<in> set (matching_entries env ?g cwd p)" for f
  proof -
    obtain cs where cs: "components p = components (resolved_path f) @ cs"
      using f by (auto simp: matching_entries_def path_starts_with_def starts_with_iff)
    show ?thesis
    proof (cases "cs = []")
      case True
      with cs f assms(6) have "resolved_access f \<noteq> Deny"
        by (auto simp: matching_entries_def denied_at_def path_eq_def)
      then have "resolved_access f \<le> Write"
        by (cases "resolved_access f") (simp_all add: less_eq_access_mode_def)
      with cs True show ?thesis by (simp add: specificity_def)
    qed (use cs in \<open>simp add: specificity_def\<close>)
  qed
  have "resolve_access_with_cwd env ?g p cwd = Write"
    by (rule decided_by_writeI [where e = "write_entry p"])
      (use assms(1,5) top in \<open>auto simp: matching_grant_write\<close>)
  moreover have "metadata_allowed env ?g cwd p"
    unfolding metadata_allowed_def
  proof (intro allI impI)
    fix q m assume "metadata_child_of_writable_root env ?g p cwd = Some (q, m)"
    then obtain e where "e \<in> set (resolved_entries_with_cwd env ?g cwd)" "metadata_child env p e = Some (q, m)"
      using metadata_child_of_writable_root_Some by blast
    then have "path_starts_with p q"
      using resolved_path_normal [OF ok assms(3,4)] by (metis metadata_child_iff)
    then show "has_explicit_write_entry_for_metadata_path env ?g q p cwd"
      by (simp add: has_explicit_write_entry_for_metadata_path_def can_write_def)
  qed
  ultimately show ?thesis using assms(1,5) by (simp add: can_write_restricted_iff)
qed

lemma add_writable_root_cases:
  "add_writable_root env cwd policy p = (if can_write_path_with_cwd env policy p cwd then policy else grant_write p policy)"
  by (simp add: add_writable_root_def grant_write_def)

lemma add_writable_root_ok:
  assumes "sandbox_kind policy = Restricted" "policy_ok policy" "is_normal_abs p"
  shows "sandbox_kind (add_writable_root env cwd policy p) = Restricted"
    "policy_ok (add_writable_root env cwd policy p)"
    "denied_at env (add_writable_root env cwd policy p) cwd r \<longleftrightarrow> denied_at env policy cwd r"
  using assms
  by (auto simp: add_writable_root_cases policy_ok_def denied_at_def)
    (auto simp: grant_write_def entry_for_def)

lemma add_writable_roots_keep:
  assumes "env_ok env" "is_absolute cwd" "is_normal_abs r"
  shows "sandbox_kind policy = Restricted \<Longrightarrow> policy_ok policy \<Longrightarrow> list_all is_normal_abs ps \<Longrightarrow>
    can_write_path_with_cwd env policy r cwd \<Longrightarrow>
    can_write_path_with_cwd env (foldl (add_writable_root env cwd) policy ps) r cwd"
proof (induction ps arbitrary: policy)
  case (Cons p ps)
  let ?p = "add_writable_root env cwd policy p"
  have p: "is_normal_abs p" using Cons.prems by simp
  have "can_write_path_with_cwd env ?p r cwd"
    using Cons.prems grant_write_keeps [OF Cons.prems(1,2) assms p Cons.prems(4)]
    by (simp add: add_writable_root_cases)
  moreover note add_writable_root_ok(1,2) [OF Cons.prems(1,2) p, of env cwd]
  ultimately show ?case using Cons.IH [of ?p] Cons.prems(3) by simp
qed simp

lemma add_writable_roots_own:
  assumes "env_ok env" "is_absolute cwd" "is_normal_abs r"
  shows "sandbox_kind policy = Restricted \<Longrightarrow> policy_ok policy \<Longrightarrow> list_all is_normal_abs ps \<Longrightarrow>
    r \<in> set ps \<Longrightarrow> \<not> denied_at env policy cwd r \<Longrightarrow>
    can_write_path_with_cwd env (foldl (add_writable_root env cwd) policy ps) r cwd"
proof (induction ps arbitrary: policy)
  case (Cons p ps)
  let ?p = "add_writable_root env cwd policy p"
  have p: "is_normal_abs p" using Cons.prems by simp
  note ok = add_writable_root_ok [OF Cons.prems(1,2) p, of env cwd]
  show ?case
  proof (cases "r = p")
    case True
    have "can_write_path_with_cwd env ?p r cwd"
      using grant_write_own_path [OF Cons.prems(1,2) assms(1,2) p] Cons.prems(5) True
      by (simp add: add_writable_root_cases)
    then show ?thesis using add_writable_roots_keep [OF assms ok(1,2)] Cons.prems(3) by simp
  next
    case False
    then show ?thesis using Cons.IH [of ?p] ok Cons.prems by simp
  qed
qed simp

text \<open>
  Extending a restricted policy by writable roots grants what was asked for and takes
  nothing away: every requested root that the policy does not deny is writable afterwards, and
  every path that was writable before still is.
\<close>

theorem additional_writable_roots_granted:
  assumes "sandbox_kind policy = Restricted" "policy_ok policy" "env_ok env" "is_absolute cwd"
    and "list_all is_normal_abs roots" "is_normal_abs r"
    and "r \<in> set roots \<and> \<not> denied_at env policy cwd r \<or> can_write_path_with_cwd env policy r cwd"
  shows "can_write_path_with_cwd env (with_additional_writable_roots env policy cwd roots) r cwd"
  using assms(7) add_writable_roots_own [OF assms(3,4,6,1,2,5)] add_writable_roots_keep [OF assms(3,4,6,1,2,5)]
  by (auto simp: with_additional_writable_roots_def)


section \<open>Resolving project roots early\<close>

lemma resolve_materialized:
  assumes "host_abs env cwd = Some c"
  shows "resolve_entry env (Some c) (e\<lparr>entry_path := materialize_path env (Some c) (entry_path e)\<rparr>) = resolve_entry env (Some c) e"
proof (cases "(env, Some c, entry_path e)" rule: materialize_path.cases)
  case (2 env' cwd' pat)
  then show ?thesis
    by (auto simp: resolve_entry_def resolve_entry_path_def split: option.splits)
qed (auto simp: resolve_entry_def resolve_entry_path_def)

lemma resolved_entries_materialized:
  "resolved_entries_with_cwd env (materialize_project_roots_with_cwd env policy cwd) cwd =
     resolved_entries_with_cwd env policy cwd"
proof (cases "host_abs env cwd")
  case None
  then have "materialize_path env (host_abs env cwd) p = p" for p
    by (cases "(env, host_abs env cwd, p)" rule: materialize_path.cases) auto
  then show ?thesis by (simp add: materialize_project_roots_with_cwd_def resolved_entries_with_cwd_def)
next
  case (Some c)
  then show ?thesis
    by (simp add: materialize_project_roots_with_cwd_def resolved_entries_with_cwd_def List.map_filter_def
        filter_map comp_def resolve_materialized [OF Some])
qed

text \<open>
  Replacing the symbolic project roots of a policy by the paths they stand for in a working
  directory does not change which access any path has there.
\<close>

theorem materialize_same_access:
  "resolve_access_with_cwd env (materialize_project_roots_with_cwd env policy cwd) path cwd =
     resolve_access_with_cwd env policy path cwd"
proof -
  have "sandbox_kind (materialize_project_roots_with_cwd env policy cwd) = sandbox_kind policy"
    by (simp add: materialize_project_roots_with_cwd_def Let_def)
  then show ?thesis by (simp add: resolve_access_with_cwd_def resolved_entries_materialized cong: option.case_cong)
qed

section \<open>The workspace policy\<close>

abbreviation write_entries :: "sandbox_entry list \<Rightarrow> sandbox_entry list" where
  "write_entries es \<equiv> filter (\<lambda>e. access e = Write) es"

lemma write_entries_append_default [simp]:
  "write_entries (append_default_read_only_entry_if_no_explicit_rule p es) = write_entries es"
  by (simp add: append_default_read_only_entry_if_no_explicit_rule_def entry_for_def)

lemma write_entries_append_paths [simp]:
  "write_entries (append_default_read_only_paths ps es) = write_entries es"
  by (induction ps arbitrary: es) (simp_all add: append_default_read_only_paths_def)

lemma write_entries_protect [simp]: "write_entries (protect_writable_roots env roots es) = write_entries es"
  by (induction roots arbitrary: es) (simp_all add: protect_writable_roots_def)

lemma write_entries_workspace:
  "write_entries (sandbox_entries (workspace_write env roots exclude_tmpdir exclude_slash)) =
     write_entries (workspace_grants roots exclude_tmpdir exclude_slash)"
  by (simp add: workspace_write_def restricted_def append_default_read_only_project_root_subpath_def Let_def)

lemma workspace_grants_write:
  "write_entries (workspace_grants roots exclude_tmpdir exclude_slash) = tl (workspace_grants roots exclude_tmpdir exclude_slash)"
  by (auto simp: workspace_grants_def entry_for_def filter_map comp_def)

lemma kind_workspace [simp]: "sandbox_kind (workspace_write env roots et es) = Restricted"
  by (simp add: workspace_write_def restricted_def Let_def)

lemma workspace_not_full_disk: "\<not> has_full_disk_write_access (workspace_write env roots exclude_tmpdir exclude_slash)"
proof -
  let ?es = "sandbox_entries (workspace_write env roots exclude_tmpdir exclude_slash)"
  have "\<not> (e \<in> set ?es \<and> entry_path e = Special Root \<and> access e = Write)" for e
  proof
    assume e: "e \<in> set ?es \<and> entry_path e = Special Root \<and> access e = Write"
    then have "e \<in> set (write_entries ?es)" by simp
    with e show False
      by (auto simp: write_entries_workspace workspace_grants_write)
        (auto simp: workspace_grants_def entry_for_def split: if_splits)
  qed
  then show ?thesis
    by (auto simp: has_full_disk_write_access_def has_root_access_def list_ex_iff can_write_def)
qed

text \<open>The directories a workspace policy lets be written, for a working directory.\<close>

definition workspace_roots :: "host_env \<Rightarrow> ustr list \<Rightarrow> bool \<Rightarrow> bool \<Rightarrow> ustr \<Rightarrow> ustr list" where
  "workspace_roots env roots exclude_tmpdir exclude_slash cwd =
     normalize_path cwd
     # (if \<not> exclude_slash \<and> is_dir env slash_tmp then [slash_tmp] else [])
     @ (case tmpdir_var env of
          Some t \<Rightarrow> if exclude_tmpdir \<or> t = [] then [] else (case host_abs env t of Some p \<Rightarrow> [p] | None \<Rightarrow> [])
        | None \<Rightarrow> [])
     @ roots"

lemma resolved_write_iff:
  "(\<exists>r \<in> set (resolved_entries_with_cwd env policy cwd). resolved_access r = Write \<and> resolved_path r = p)
    \<longleftrightarrow> (\<exists>e \<in> set (sandbox_entries policy). access e = Write
          \<and> resolve_entry_path env (entry_path e) (host_abs env cwd) = Some p)" (is "?l \<longleftrightarrow> ?r")
proof
  assume ?r
  then have "write_entry p \<in> set (resolved_entries_with_cwd env policy cwd)"
    by (auto simp: resolved_entry_iff resolve_entry_def intro!: bexI)
  then show ?l by force
next
  assume ?l
  then obtain e where "e \<in> set (sandbox_entries policy)" "access e = Write"
    "resolve_entry_path env (entry_path e) (host_abs env cwd) = Some p"
    by (auto simp: resolved_entry_iff resolve_entry_def)
  then show ?r by blast
qed

lemma workspace_write_entry_iff:
  assumes "is_absolute cwd"
  shows "(\<exists>r \<in> set (resolved_entries_with_cwd env (workspace_write env roots exclude_tmpdir exclude_slash) cwd).
      resolved_access r = Write \<and> resolved_path r = p)
    \<longleftrightarrow> p \<in> set (workspace_roots env roots exclude_tmpdir exclude_slash cwd)"
proof -
  let ?es = "sandbox_entries (workspace_write env roots exclude_tmpdir exclude_slash)"
  have "(\<exists>r \<in> set (resolved_entries_with_cwd env (workspace_write env roots exclude_tmpdir exclude_slash) cwd).
      resolved_access r = Write \<and> resolved_path r = p)
    \<longleftrightarrow> (\<exists>e \<in> set (write_entries ?es). resolve_entry_path env (entry_path e) (Some (normalize_path cwd)) = Some p)"
    unfolding resolved_write_iff host_abs_cwd [OF assms] by auto
  also have "\<dots> \<longleftrightarrow> p \<in> set (workspace_roots env roots exclude_tmpdir exclude_slash cwd)"
    unfolding write_entries_workspace workspace_grants_write
    by (cases exclude_slash; cases exclude_tmpdir; cases "tmpdir_var env"; cases "is_dir env slash_tmp")
      (simp_all add: workspace_grants_def workspace_roots_def entry_for_def resolve_entry_path_def,
        auto split: option.splits)
  finally show ?thesis .
qed

lemma workspace_roots_normal:
  assumes "is_absolute cwd" "env_ok env" "list_all is_normal_abs roots"
    and "p \<in> set (workspace_roots env roots exclude_tmpdir exclude_slash cwd)"
  shows "is_normal_abs p"
proof -
  have "is_normal_abs slash_tmp"
    unfolding is_normal_abs_def by (intro exI [of _ "[str ''tmp'']"]) code_simp
  with assms show ?thesis
    by (auto simp: workspace_roots_def normalize_path_absolute list_all_iff host_abs_normal
        split: if_splits option.splits)
qed

text \<open>
  C18: the workspace policy confines writes. A path that it lets be written lies in the working
  directory, a configured root, \<open>/tmp\<close> or \<open>TMPDIR\<close> as far as they are not excluded; and unless a
  root was configured inside the metadata of another one, it is not at or below \<open>.git\<close>,
  \<open>.agents\<close> or \<open>.codex\<close> of any of them.
\<close>

theorem workspace_write_confined:
  fixes env roots exclude_tmpdir exclude_slash cwd
  defines "policy \<equiv> workspace_write env roots exclude_tmpdir exclude_slash"
    and "ws \<equiv> workspace_roots env roots exclude_tmpdir exclude_slash cwd"
  assumes "is_absolute cwd" "env_ok env" "list_all is_normal_abs roots"
    and "resolve_candidate_path env path cwd = Some target" "can_write_path_with_cwd env policy path cwd"
  shows "(\<exists>root \<in> set ws. path_starts_with target root)
    \<and> (\<not> explicit_metadata_grant env policy cwd \<longrightarrow>
        (\<forall>root \<in> set ws. \<forall>m \<in> set PROTECTED_METADATA_PATH_NAMES.
           \<not> path_starts_with target (host_join env root m)))"
proof -
  have k: "sandbox_kind policy = Restricted" and nf: "\<not> has_full_disk_write_access policy"
    by (simp_all add: policy_def workspace_not_full_disk)
  note entry_iff = workspace_write_entry_iff [OF assms(3), of env roots exclude_tmpdir exclude_slash]
  have "resolve_access_with_cwd env policy path cwd = Write"
    using assms(7) by (simp add: can_write_path_with_cwd_def can_write_def split: if_splits)
  with k assms(6) have "\<exists>root \<in> set ws. path_starts_with target root"
  proof (cases rule: resolve_access_cases)
    case (entry e)
    with \<open>_ = Write\<close> have "resolved_access e = Write" by simp
    moreover have "e \<in> set (resolved_entries_with_cwd env policy cwd)" "path_starts_with target (resolved_path e)"
      using entry(1) by (simp_all add: matching_entries_def)
    ultimately show ?thesis using entry_iff [of "resolved_path e"] unfolding policy_def ws_def by blast
  qed simp
  moreover have "under_metadata env policy cwd target"
    if m: "root \<in> set ws" "m \<in> set PROTECTED_METADATA_PATH_NAMES" "path_starts_with target (host_join env root m)" for root m
  proof -
    obtain r where r: "r \<in> set (resolved_entries_with_cwd env policy cwd)" "resolved_access r = Write" "resolved_path r = root"
      using entry_iff [of root] m(1) unfolding policy_def ws_def by blast
    then have "metadata_child env target r = Some (host_join env root m, m)"
      using workspace_roots_normal [OF assms(3-5)] m by (simp add: metadata_child_iff ws_def)
    with r show ?thesis by (force simp: under_metadata_def can_write_def)
  qed
  then have "\<not> explicit_metadata_grant env policy cwd \<longrightarrow>
      (\<forall>root \<in> set ws. \<forall>m \<in> set PROTECTED_METADATA_PATH_NAMES. \<not> path_starts_with target (host_join env root m))"
    using metadata_write_blocked [OF nf _ assms(6)] assms(7) by blast
  ultimately show ?thesis by blast
qed


section \<open>Legacy policies survive the round trip\<close>

lemma path_eq_normal: "is_normal_abs p \<Longrightarrow> is_normal_abs q \<Longrightarrow> path_eq p q \<longleftrightarrow> p = q"
  by (auto simp: path_eq_def components_abs_display elim!: is_normal_absE)
    (metis normal_names_map)

text \<open>The roots in their order, each where it occurs first.\<close>

primrec first_occurrences :: "'a list \<Rightarrow> 'a list" where
  "first_occurrences [] = []"
| "first_occurrences (x # xs) = x # filter (\<lambda>y. y \<noteq> x) (first_occurrences xs)"

lemma first_occurrences_set [simp]: "set (first_occurrences xs) = set xs"
  by (induction xs) auto

lemma first_occurrences_distinct: "distinct xs \<Longrightarrow> first_occurrences xs = xs"
  by (induction xs) (auto simp: filter_id_conv)

lemma dedup_loop_eq:
  "list_all is_normal_abs (seen @ ps) \<Longrightarrow> dedup_loop seen ps = filter (\<lambda>p. p \<notin> set seen) (first_occurrences ps)"
proof (induction ps arbitrary: seen)
  case (Cons p ps)
  then have "list_ex (path_eq p) seen \<longleftrightarrow> p \<in> set seen" by (auto simp: list_ex_iff list_all_iff path_eq_normal)
  with Cons show ?case by (auto intro!: filter_cong)
qed simp

lemma scan_not_write [simp]: "access e \<noteq> Write \<Longrightarrow> scan_entry env cwd acc e = acc"
  by (auto simp: scan_entry_def can_write_def split: file_system_path.splits special_path.splits option.splits)

lemma scan_write_entries: "foldl (scan_entry env cwd) acc es = foldl (scan_entry env cwd) acc (write_entries es)"
  by (induction es arbitrary: acc) auto

lemma scan_roots:
  assumes "workspace_root_writable acc"
  shows "foldl (scan_entry env (Some c)) acc (map (\<lambda>p. entry_for (PathEntry p) Write) roots) =
     acc\<lparr>scan_writable_roots := scan_writable_roots acc @ filter (\<lambda>p. \<not> path_eq c p) roots\<rparr>"
  using assms by (induction roots arbitrary: acc) (auto simp: scan_entry_def entry_for_def can_write_def opt_path_eq_def)

text \<open>
  A legacy policy may name a writable root twice, or name the working directory, which it makes writable anyway. What
  it says without these repetitions:
\<close>

fun without_repeated_roots :: "ustr \<Rightarrow> legacy_policy \<Rightarrow> legacy_policy" where
  "without_repeated_roots cwd (WorkspaceWrite roots n exclude_tmpdir exclude_slash) =
     WorkspaceWrite (first_occurrences (filter (\<lambda>p. p \<noteq> normalize_path cwd) roots)) n exclude_tmpdir exclude_slash"
| "without_repeated_roots cwd p = p"

fun legacy_roots :: "legacy_policy \<Rightarrow> ustr list" where
  "legacy_roots (WorkspaceWrite roots _ _ _) = roots"
| "legacy_roots _ = []"

lemma without_repeated_roots_id:
  "distinct (normalize_path cwd # legacy_roots p) \<Longrightarrow> without_repeated_roots cwd p = p"
  by (cases p) (auto simp: filter_id_conv first_occurrences_distinct)

lemma workspace_to_legacy:
  assumes "is_absolute cwd" "list_all is_normal_abs roots"
  shows "to_legacy_sandbox_policy env (workspace_write env roots exclude_tmpdir exclude_slash)
      (if n then NetworkEnabled else NetworkRestricted) cwd =
    Ok (without_repeated_roots cwd (WorkspaceWrite roots n exclude_tmpdir exclude_slash))"
proof -
  let ?es = "sandbox_entries (workspace_write env roots exclude_tmpdir exclude_slash)"
  let ?c = "normalize_path cwd"
  let ?roots = "filter (\<lambda>p. p \<noteq> ?c) roots"
  have "filter (\<lambda>p. \<not> path_eq ?c p) roots = ?roots"
    using assms normalize_path_absolute [OF assms(1)] by (auto simp: list_all_iff path_eq_normal intro!: filter_cong)
  then have scan: "foldl (scan_entry env (Some ?c)) empty_scan ?es =
      \<lparr>workspace_root_writable = True, scan_writable_roots = ?roots, tmpdir_writable = \<not> exclude_tmpdir,
       slash_tmp_writable = \<not> exclude_slash, unbridgeable_root_write = False\<rparr>"
    unfolding scan_write_entries [of _ _ _ ?es] write_entries_workspace workspace_grants_write
    by (simp add: workspace_grants_def empty_scan_def)
      (simp add: scan_entry_def entry_for_def can_write_def scan_roots [unfolded entry_for_def])
  have "list_all is_normal_abs ?roots" using assms(2) by (auto simp: list_all_iff)
  then have "dedup_absolute_paths env ?roots False = first_occurrences ?roots"
    using dedup_loop_eq [of "[]" ?roots] by (simp add: dedup_absolute_paths_def)
  with scan show ?thesis
    by (simp add: to_legacy_sandbox_policy_def Let_def host_abs_cwd [OF assms(1)] workspace_not_full_disk
        network_is_enabled_def)
qed

text \<open>
  C34: every legacy policy whose writable roots are normal absolute paths has a permission profile, and projecting the
  profile back on an absolute working directory gives that policy without repeated roots and without the working
  directory among them: the very same policy, when its roots are distinct and the working directory is not one of them.
\<close>

theorem legacy_profile_roundtrip:
  assumes "is_absolute cwd" "list_all is_normal_abs (legacy_roots p)"
  shows "(\<exists>prof. profile_from_legacy env p = Ok prof
      \<and> profile_to_legacy env prof cwd = Ok (without_repeated_roots cwd p))
    \<and> (distinct (normalize_path cwd # legacy_roots p) \<longrightarrow> without_repeated_roots cwd p = p)"
proof (intro conjI impI)
  show "\<exists>prof. profile_from_legacy env p = Ok prof \<and> profile_to_legacy env prof cwd = Ok (without_repeated_roots cwd p)"
  proof (cases p)
    case (WorkspaceWrite roots n exclude_tmpdir exclude_slash)
    let ?w = "workspace_write env roots exclude_tmpdir exclude_slash"
    have "glob_scan_max_depth ?w = None" by (simp add: workspace_write_def restricted_def Let_def)
    then have "managed_from_sandbox_policy ?w = Ok (ManagedRestricted (sandbox_entries ?w) None)"
      by (simp add: managed_from_sandbox_policy_def)
    moreover have "managed_to_sandbox_policy (ManagedRestricted (sandbox_entries ?w) None) = ?w"
      by (simp add: workspace_write_def restricted_def Let_def)
    ultimately show ?thesis
      using workspace_to_legacy [OF assms(1), of roots env exclude_tmpdir exclude_slash n] assms(2)
      by (simp add: WorkspaceWrite profile_from_legacy_def from_runtime_permissions_with_enforcement_def
          network_from_legacy_def)
  next
    case (ReadOnly n)
    then show ?thesis
      by (simp add: profile_from_legacy_def from_runtime_permissions_with_enforcement_def network_from_legacy_def
          managed_from_sandbox_policy_def restricted_def to_legacy_sandbox_policy_def Let_def
          has_full_disk_write_access_def has_root_access_def entry_for_def can_write_def empty_scan_def network_is_enabled_def)
  next
    case (LegacyExternalSandbox n)
    then show ?thesis
      by (cases n) (simp_all add: profile_from_legacy_def from_runtime_permissions_with_enforcement_def
          network_from_legacy_def external_sandbox_def network_is_enabled_def)
  qed (simp add: profile_from_legacy_def from_runtime_permissions_with_enforcement_def unrestricted_def)
qed (rule without_repeated_roots_id)


section \<open>Examples\<close>

theorem additional_writable_roots_granted_witness:
  "can_write_path_with_cwd plain_host
     (with_additional_writable_roots plain_host project_policy (str ''/w'') [str ''/w/.git'', str ''/x''])
     (str ''/w/.git'') (str ''/w'')"
proof (rule additional_writable_roots_granted)
  have n: "is_normal_abs (str ''/w/secret'')" "is_normal_abs (str ''/w/.git'')" "is_normal_abs (str ''/x'')"
    unfolding is_normal_abs_def
    by (intro exI [of _ "[str ''w'', str ''secret'']"], code_simp) (intro exI [of _ "[str ''w'', str ''.git'']"], code_simp,
      intro exI [of _ "[str ''x'']"], code_simp)
  show "policy_ok project_policy"
    using n by (auto simp: policy_ok_def project_policy_def restricted_def entry_for_def)
  show "list_all is_normal_abs [str ''/w/.git'', str ''/x'']" "is_normal_abs (str ''/w/.git'')"
    using n by simp_all
  show "env_ok plain_host" by (simp add: env_ok_def plain_host_def)
  have "\<not> denied_at plain_host project_policy (str ''/w'') (str ''/w/.git'')" by code_simp
  then show "str ''/w/.git'' \<in> set [str ''/w/.git'', str ''/x''] \<and> \<not> denied_at plain_host project_policy (str ''/w'') (str ''/w/.git'')
    \<or> can_write_path_with_cwd plain_host project_policy (str ''/w/.git'') (str ''/w'')" by simp
qed code_simp+

theorem workspace_write_confined_witness:
  "(\<exists>root \<in> set (workspace_roots plain_host [str ''/x''] True False (str ''/w'')). path_starts_with (str ''/w/src'') root)
   \<and> \<not> path_starts_with (str ''/w/src'') (host_join plain_host (str ''/w'') (str ''.git''))
   \<and> \<not> can_write_path_with_cwd plain_host (workspace_write plain_host [str ''/x''] True False) (str ''.git/config'') (str ''/w'')"
proof -
  have n: "is_normal_abs (str ''/x'')"
    unfolding is_normal_abs_def by (intro exI [of _ "[str ''x'']"]) code_simp
  have abs: "is_absolute (str ''/w'')" by code_simp
  have env: "env_ok plain_host" by (simp add: env_ok_def plain_host_def)
  have ok: "list_all is_normal_abs [str ''/x'']" using n by simp
  have no_grant: "\<not> explicit_metadata_grant plain_host (workspace_write plain_host [str ''/x''] True False) (str ''/w'')"
    by code_simp
  have meta: "str ''.git'' \<in> set PROTECTED_METADATA_PATH_NAMES"
    "str ''/w'' \<in> set (workspace_roots plain_host [str ''/x''] True False (str ''/w''))" by code_simp+
  have src: "resolve_candidate_path plain_host (str ''src'') (str ''/w'') = Some (str ''/w/src'')"
    "can_write_path_with_cwd plain_host (workspace_write plain_host [str ''/x''] True False) (str ''src'') (str ''/w'')"
    by code_simp+
  have git: "resolve_candidate_path plain_host (str ''.git/config'') (str ''/w'') = Some (str ''/w/.git/config'')"
    "path_starts_with (str ''/w/.git/config'') (host_join plain_host (str ''/w'') (str ''.git''))"
    by code_simp+
  note confined = workspace_write_confined [OF abs env ok]
  show ?thesis
    using confined [OF src] confined [OF git(1)] no_grant meta git(2) by blast
qed

theorem legacy_profile_roundtrip_witness:
  "(\<exists>prof. profile_from_legacy plain_host (WorkspaceWrite [str ''/x''] True False True) = Ok prof
      \<and> profile_to_legacy plain_host prof (str ''/w'') = Ok (WorkspaceWrite [str ''/x''] True False True))
   \<and> (\<exists>prof. profile_from_legacy plain_host (WorkspaceWrite [str ''/x'', str ''/w'', str ''/x''] True False True) = Ok prof
      \<and> profile_to_legacy plain_host prof (str ''/w'') = Ok (WorkspaceWrite [str ''/x''] True False True))"
proof -
  have n: "is_normal_abs (str ''/x'')" "is_normal_abs (str ''/w'')"
    unfolding is_normal_abs_def
    by (intro exI [of _ "[str ''x'']"], code_simp) (intro exI [of _ "[str ''w'']"], code_simp)
  have abs: "is_absolute (str ''/w'')" by code_simp
  have "distinct (normalize_path (str ''/w'') # [str ''/x''])"
    "without_repeated_roots (str ''/w'') (WorkspaceWrite [str ''/x'', str ''/w'', str ''/x''] True False True) =
       WorkspaceWrite [str ''/x''] True False True" by code_simp+
  with legacy_profile_roundtrip [OF abs, of "WorkspaceWrite [str ''/x''] True False True" plain_host]
    legacy_profile_roundtrip [OF abs, of "WorkspaceWrite [str ''/x'', str ''/w'', str ''/x''] True False True" plain_host]
    n show ?thesis by simp
qed

end
