(* ===== verification/Approval_Policy.thy ===== *)
theory Approval_Policy
  imports Sandbox_Profiles
begin

text \<open>
  When the user is asked: the approval settings of \<open>codex-rs/protocol/src/protocol.rs\<close>, the
  per-command sandbox requests of \<open>models.rs\<close>, the approval requirement of
  \<open>codex-rs/core/src/tools/sandboxing.rs\<close> and \<open>prompt_is_rejected_by_policy\<close> of
  \<open>codex-rs/core/src/exec_policy.rs\<close>.
\<close>

record granular_approval_config =
  sandbox_approval :: bool
  rules_approval :: bool
  skill_approval :: bool
  request_permissions :: bool
  mcp_elicitations :: bool

datatype ask_for_approval =
    UnlessTrusted
  | OnFailure
  | OnRequest
  | Granular granular_approval_config
  | Never

datatype sandbox_permissions = UseDefault | RequireEscalated | WithAdditionalPermissions

definition requests_sandbox_override :: "sandbox_permissions \<Rightarrow> bool" where
  "requests_sandbox_override p \<longleftrightarrow> p \<noteq> UseDefault"

type_synonym exec_policy_amendment = "ustr list"

datatype exec_approval_requirement =
    Skip bool "exec_policy_amendment option" \<comment> \<open>bypass the sandbox, proposed amendment\<close>
  | NeedsApproval "ustr option" "exec_policy_amendment option" \<comment> \<open>reason, proposed amendment\<close>
  | ForbiddenExec ustr \<comment> \<open>reason\<close>

fun proposed_execpolicy_amendment :: "exec_approval_requirement \<Rightarrow> exec_policy_amendment option" where
  "proposed_execpolicy_amendment (NeedsApproval _ a) = a"
| "proposed_execpolicy_amendment (Skip _ a) = a"
| "proposed_execpolicy_amendment (ForbiddenExec _) = None"

definition default_exec_approval_requirement ::
  "ask_for_approval \<Rightarrow> sandbox_policy \<Rightarrow> exec_approval_requirement" where
  "default_exec_approval_requirement approval policy =
     (let needs_approval =
            (case approval of
               Never \<Rightarrow> False
             | OnFailure \<Rightarrow> False
             | OnRequest \<Rightarrow> sandbox_kind policy = Restricted
             | Granular _ \<Rightarrow> sandbox_kind policy = Restricted
             | UnlessTrusted \<Rightarrow> True)
      in if needs_approval \<and> (case approval of Granular g \<Rightarrow> \<not> sandbox_approval g | _ \<Rightarrow> False)
         then ForbiddenExec (str ''approval policy disallowed sandbox approval prompt'')
         else if needs_approval then NeedsApproval None None
         else Skip False None)"

definition PROMPT_CONFLICT_REASON :: ustr where
  "PROMPT_CONFLICT_REASON = str ''approval required by policy, but AskForApproval is set to Never''"

definition REJECT_SANDBOX_APPROVAL_REASON :: ustr where
  "REJECT_SANDBOX_APPROVAL_REASON =
     str ''approval required by policy, but AskForApproval::Granular.sandbox_approval is false''"

definition REJECT_RULES_APPROVAL_REASON :: ustr where
  "REJECT_RULES_APPROVAL_REASON =
     str ''approval required by policy rule, but AskForApproval::Granular.rules is false''"

definition prompt_is_rejected_by_policy :: "ask_for_approval \<Rightarrow> bool \<Rightarrow> ustr option" where
  "prompt_is_rejected_by_policy approval prompt_is_rule =
     (case approval of
        Never \<Rightarrow> Some PROMPT_CONFLICT_REASON
      | OnFailure \<Rightarrow> None
      | OnRequest \<Rightarrow> None
      | UnlessTrusted \<Rightarrow> None
      | Granular g \<Rightarrow>
          if prompt_is_rule then (if \<not> rules_approval g then Some REJECT_RULES_APPROVAL_REASON else None)
          else if \<not> sandbox_approval g then Some REJECT_SANDBOX_APPROVAL_REASON
          else None)"

end
