(* ===== verification/Patch_Safety.thy ===== *)
theory Patch_Safety
  imports Invocation Approval_Policy
begin

text \<open>
  Whether a patch needs the user's approval: \<open>codex-rs/core/src/safety.rs\<close> and its caller
  \<open>apply_patch\<close> in \<open>codex-rs/core/src/apply_patch.rs\<close>, over the actions of \<open>Invocation\<close> and the
  permissions of \<open>Sandbox_Profiles\<close>. The operating system that \<open>cfg!\<close> asks for is an argument.
\<close>

section \<open>Assessing a patch\<close>

datatype target_os = Macos | Linux | Windows | OtherOs

datatype sandbox_type = NoSandbox | MacosSeatbelt | LinuxSeccomp | WindowsRestrictedToken

definition get_platform_sandbox :: "target_os \<Rightarrow> bool \<Rightarrow> sandbox_type option" where
  "get_platform_sandbox os windows_sandbox_enabled =
     (case os of
        Macos \<Rightarrow> Some MacosSeatbelt
      | Linux \<Rightarrow> Some LinuxSeccomp
      | Windows \<Rightarrow> if windows_sandbox_enabled then Some WindowsRestrictedToken else None
      | OtherOs \<Rightarrow> None)"

datatype safety_check =
    AutoApprove sandbox_type bool \<comment> \<open>sandbox type, approved explicitly by the user\<close>
  | AskUser
  | Reject ustr

definition PATCH_REJECTED_OUTSIDE_PROJECT_REASON :: ustr where
  "PATCH_REJECTED_OUTSIDE_PROJECT_REASON =
     str ''writing outside of the project; rejected by user approval settings''"

definition PATCH_REJECTED_READ_ONLY_REASON :: ustr where
  "PATCH_REJECTED_READ_ONLY_REASON =
     str ''writing is blocked by read-only sandbox; rejected by user approval settings''"

definition patch_rejection_reason :: "host_env \<Rightarrow> permission_profile \<Rightarrow> sandbox_policy \<Rightarrow> ustr \<Rightarrow> ustr" where
  "patch_rejection_reason env profile policy cwd =
     (case profile of
        Managed _ _ \<Rightarrow>
          if \<not> has_full_disk_write_access policy \<and> get_writable_roots_with_cwd env policy cwd = []
          then PATCH_REJECTED_READ_ONLY_REASON
          else PATCH_REJECTED_OUTSIDE_PROJECT_REASON
      | _ \<Rightarrow> PATCH_REJECTED_OUTSIDE_PROJECT_REASON)"

definition resolve_path :: "ustr \<Rightarrow> ustr \<Rightarrow> ustr" where
  "resolve_path base p = (if is_absolute p then p else path_join base p)"

definition normalize_lexically :: "ustr \<Rightarrow> ustr" where
  "normalize_lexically p = npath_display (foldl normalize_step (False, []) (components p))"

definition is_patch_path_writable :: "host_env \<Rightarrow> sandbox_policy \<Rightarrow> ustr \<Rightarrow> ustr \<Rightarrow> bool" where
  "is_patch_path_writable env policy cwd p \<longleftrightarrow>
     can_write_path_with_cwd env policy (normalize_lexically (resolve_path cwd p)) cwd"

definition is_change_writable :: "host_env \<Rightarrow> sandbox_policy \<Rightarrow> ustr \<Rightarrow> ustr \<times> apply_patch_file_change \<Rightarrow> bool" where
  "is_change_writable env policy cwd x \<longleftrightarrow>
     (case x of (path, c) \<Rightarrow>
        is_patch_path_writable env policy cwd path
        \<and> (case c of
             FileUpdate _ (Some dest) _ \<Rightarrow> is_patch_path_writable env policy cwd dest
           | _ \<Rightarrow> True))"

definition is_write_patch_constrained_to_writable_paths ::
  "host_env \<Rightarrow> apply_patch_action \<Rightarrow> sandbox_policy \<Rightarrow> ustr \<Rightarrow> bool" where
  "is_write_patch_constrained_to_writable_paths env action policy cwd \<longleftrightarrow>
     list_all (is_change_writable env policy cwd) (action_changes action)"

definition rejects_sandbox_approval :: "ask_for_approval \<Rightarrow> bool" where
  "rejects_sandbox_approval approval \<longleftrightarrow>
     (case approval of Never \<Rightarrow> True | Granular g \<Rightarrow> \<not> sandbox_approval g | _ \<Rightarrow> False)"

definition assess_patch_safety ::
  "host_env \<Rightarrow> target_os \<Rightarrow> apply_patch_action \<Rightarrow> ask_for_approval \<Rightarrow> permission_profile \<Rightarrow> sandbox_policy
    \<Rightarrow> ustr \<Rightarrow> bool \<Rightarrow> safety_check" where
  "assess_patch_safety env os action approval profile policy cwd windows_sandbox_enabled =
     (if action_changes action = [] then Reject (str ''empty patch'')
      else if approval = UnlessTrusted then AskUser
      else if is_write_patch_constrained_to_writable_paths env action policy cwd \<or> approval = OnFailure
      then (case profile of
              Managed _ _ \<Rightarrow>
                (case get_platform_sandbox os windows_sandbox_enabled of
                   Some t \<Rightarrow> AutoApprove t False
                 | None \<Rightarrow>
                     if rejects_sandbox_approval approval
                     then Reject (patch_rejection_reason env profile policy cwd)
                     else AskUser)
            | _ \<Rightarrow> AutoApprove NoSandbox False)
      else if rejects_sandbox_approval approval then Reject (patch_rejection_reason env profile policy cwd)
      else AskUser)"

text \<open>\<open>apply_patch\<close>: what the runtime is asked to do with the action.\<close>

datatype internal_apply_patch_invocation =
    DelegateToRuntime apply_patch_action bool exec_approval_requirement
      \<comment> \<open>action, auto approved, approval requirement\<close>
  | Output ustr \<comment> \<open>the error the model is told\<close>

definition core_apply_patch ::
  "host_env \<Rightarrow> target_os \<Rightarrow> ask_for_approval \<Rightarrow> permission_profile \<Rightarrow> bool \<Rightarrow> sandbox_policy \<Rightarrow> apply_patch_action
    \<Rightarrow> internal_apply_patch_invocation" where
  "core_apply_patch env os approval profile windows_sandbox_enabled policy action =
     (case assess_patch_safety env os action approval profile policy (action_cwd action) windows_sandbox_enabled of
        AutoApprove _ user_explicitly_approved \<Rightarrow>
          DelegateToRuntime action (\<not> user_explicitly_approved) (Skip False None)
      | AskUser \<Rightarrow> DelegateToRuntime action False (NeedsApproval None None)
      | Reject reason \<Rightarrow> Output (str ''patch rejected: '' @ reason))"

text \<open>What the user is shown of the action (\<open>FileChange\<close> of the protocol).\<close>

datatype file_change =
    ChangeAdd ustr
  | ChangeDelete ustr
  | ChangeUpdate ustr "ustr option" \<comment> \<open>unified diff, move path\<close>

fun protocol_change :: "apply_patch_file_change \<Rightarrow> file_change" where
  "protocol_change (FileAdd c) = ChangeAdd c"
| "protocol_change (FileDelete c) = ChangeDelete c"
| "protocol_change (FileUpdate d m _) = ChangeUpdate d m"

definition convert_apply_patch_to_protocol :: "apply_patch_action \<Rightarrow> (ustr \<times> file_change) list" where
  "convert_apply_patch_to_protocol action =
     fold (\<lambda>(path, c). AList.update path (protocol_change c)) (action_changes action) []"

section \<open>Automatic approval\<close>

lemma normalize_lexically_normal: "is_normal_abs p \<Longrightarrow> normalize_lexically (resolve_path cwd p) = p"
  by (erule is_normal_absE)
    (simp add: normalize_lexically_def resolve_path_def components_abs_display foldl_normalize_names,
      simp add: abs_display_def)

lemma change_writable_targets:
  "is_change_writable env policy cwd x \<Longrightarrow> p \<in> proposed_targets x \<Longrightarrow> is_normal_abs p \<Longrightarrow>
   can_write_path_with_cwd env policy p cwd"
  by (cases x; cases "snd x")
    (auto simp: is_change_writable_def is_patch_path_writable_def proposed_targets_def normalize_lexically_normal
      split: option.splits)

lemma constrained_targets:
  assumes "is_write_patch_constrained_to_writable_paths env action policy cwd"
    and "p \<in> action_targets action" "is_normal_abs p"
  shows "can_write_path_with_cwd env policy p cwd"
  using assms change_writable_targets
  by (fastforce simp: is_write_patch_constrained_to_writable_paths_def list_all_iff action_targets_def)

lemma auto_approved_constrained:
  "core_apply_patch env os approval profile w policy action = DelegateToRuntime a b (Skip c d) \<Longrightarrow>
   approval \<noteq> OnFailure \<Longrightarrow> is_write_patch_constrained_to_writable_paths env action policy (action_cwd action)"
  by (auto simp: core_apply_patch_def assess_patch_safety_def Let_def
      split: safety_check.splits if_splits option.splits permission_profile.splits)

lemma is_normal_abs_absolute: "is_normal_abs p \<Longrightarrow> is_absolute p"
  by (auto elim: is_normal_absE)

lemma effective_cwd_absolute: "is_absolute cwd \<Longrightarrow> is_absolute (effective_cwd home cwd wd)"
  by (simp add: effective_cwd_def abs_join_def resolve_path_normal is_normal_abs_absolute split: option.split)

lemma approved_run_confined:
  assumes "alias_free ops" "is_absolute cwd"
    and "verify_apply_patch_args ops diff home s cwd args = Ok (VerifiedBody action)"
    and "distinct (map (\<lambda>h. hunk_resolve_path home h (action_cwd action)) (hunks args))"
    and "core_apply_patch env os approval profile windows_sandbox_enabled policy action =
           DelegateToRuntime action auto_approved (Skip bypass_sandbox amendment)"
    and "approval \<noteq> OnFailure"
    and "apply_hunks_to_files ops home (action_cwd action) (hunks args) empty_delta s' = (r, st)"
  shows "(\<forall>c \<in> set (changes (delta st)). \<forall>p \<in> change_targets c.
            can_write_path_with_cwd env policy p (action_cwd action))
    \<and> (exact (delta st) \<or> local_effects ops \<longrightarrow>
         (\<forall>q. \<not> can_write_path_with_cwd env policy q (action_cwd action) \<longrightarrow>
              text_view ops (fs st) q = text_view ops s' q))"
proof -
  let ?ps = "\<Union>h \<in> set (hunks args). hunk_targets home (action_cwd action) h"
  have targets: "action_targets action = ?ps" and "is_absolute (action_cwd action)"
    using verified_targets [OF assms(3,4)] effective_cwd_absolute [OF assms(2)] by simp_all
  note ok = constrained_targets [OF auto_approved_constrained [OF assms(5,6)], unfolded targets]
  note abs = \<open>is_absolute (action_cwd action)\<close>
  have writable: "can_write_path_with_cwd env policy p (action_cwd action)" if "p \<in> ?ps" for p
    using that ok hunk_targets_normal [OF abs] by blast
  with footprint [OF assms(1) abs assms(7)] show ?thesis by blast
qed

text \<open>
  C4: a patch that runs without asking stays inside the writable paths. Take a patch whose hunks
  name distinct files and whose verified action the approval step lets through with no question
  under any approval mode but \<open>OnFailure\<close>. Then applying its hunks, to whatever the file system has
  become by then and whether or not every hunk succeeds, records changes only of paths that the
  sandbox policy lets the agent write, and no file that the policy protects has another text than before while the
  record is exact, and where no file has two names also when it is not.
\<close>

theorem auto_approved_patch_confined:
  assumes "alias_free ops" "is_absolute cwd"
    and "verify_apply_patch_args ops diff home s cwd args = Ok (VerifiedBody action)"
    and "distinct (map (\<lambda>h. hunk_resolve_path home h (action_cwd action)) (hunks args))"
    and "core_apply_patch env os approval profile windows_sandbox_enabled policy action =
           DelegateToRuntime action auto_approved (Skip bypass_sandbox amendment)"
    and "approval \<noteq> OnFailure"
    and "apply_hunks_to_files ops home (action_cwd action) (hunks args) empty_delta s' = (r, st)"
  shows "(\<forall>c \<in> set (changes (delta st)). \<forall>p \<in> change_targets c.
            can_write_path_with_cwd env policy p (action_cwd action))
    \<and> (exact (delta st) \<or> local_effects ops \<longrightarrow>
         (\<forall>q. \<not> can_write_path_with_cwd env policy q (action_cwd action) \<longrightarrow>
              text_view ops (fs st) q = text_view ops s' q))"
  by (rule approved_run_confined [OF assms])

theorem auto_approved_patch_confined_witness:
  "let hs = [rename_hunk ''a'' ''./b''];
       s = [str ''/w/a'' \<mapsto> str ''x'' @ [10], str ''/etc/d'' \<mapsto> []];
       st = snd (apply_hunks_to_files mem_fs None (str ''/w'') hs empty_delta s)
   in list_all (\<lambda>p. can_write_path_with_cwd plain_host project_policy p (str ''/w'')) [str ''/w/a'', str ''/w/b'']
      \<and> text_view mem_fs (fs st) (str ''/etc/d'') = Some []"
proof -
  let ?hs = "[rename_hunk ''a'' ''./b'']"
  let ?s = "[str ''/w/a'' \<mapsto> str ''x'' @ [10], str ''/etc/d'' \<mapsto> []]"
  let ?args = "\<lparr>patch = [], hunks = ?hs, workdir = None, environment_id = None\<rparr>"
  let ?action = "\<lparr>action_changes =
      [(str ''/w/a'', FileUpdate (str ''x'' @ [10]) (Some (str ''/w/b'')) (str ''y'' @ [10]))],
    action_patch = [], action_cwd = str ''/w''\<rparr>"
  let ?st = "snd (apply_hunks_to_files mem_fs None (str ''/w'') ?hs empty_delta ?s)"
  have cwd: "is_absolute (str ''/w'')" by code_simp
  have ver: "verify_apply_patch_args mem_fs (\<lambda>_ a _. a) None ?s (str ''/w'') ?args = Ok (VerifiedBody ?action)"
    by code_simp
  have app: "core_apply_patch plain_host Linux Never (Managed (ManagedRestricted (sandbox_entries project_policy) None) NetworkRestricted) False
      project_policy ?action = DelegateToRuntime ?action True (Skip False None)"
    by code_simp
  have distinct: "distinct (map (\<lambda>h. hunk_resolve_path None h (action_cwd ?action)) (hunks ?args))" by code_simp
  have run: "apply_hunks_to_files mem_fs None (action_cwd ?action) (hunks ?args) empty_delta ?s =
      (fst (apply_hunks_to_files mem_fs None (str ''/w'') ?hs empty_delta ?s), ?st)" by simp
  have ex: "exact (delta ?st)" by code_simp
  have prot: "\<not> can_write_path_with_cwd plain_host project_policy (str ''/etc/d'') (action_cwd ?action)" by code_simp
  have "list_ex (\<lambda>c. str ''/w/a'' \<in> change_targets c) (changes (delta ?st))"
    "list_ex (\<lambda>c. str ''/w/b'' \<in> change_targets c) (changes (delta ?st))" by code_simp+
  then obtain c d where c: "c \<in> set (changes (delta ?st))" "str ''/w/a'' \<in> change_targets c"
    and d: "d \<in> set (changes (delta ?st))" "str ''/w/b'' \<in> change_targets d"
    by (auto simp: list_ex_iff)
  note ok = auto_approved_patch_confined [OF alias_free_mem_fs cwd ver distinct app _ run]
  have a: "can_write_path_with_cwd plain_host project_policy (str ''/w/a'') (action_cwd ?action)"
    by (rule ok [THEN conjunct1, THEN bspec, OF _ c(1), THEN bspec, OF _ c(2)]) simp
  have b: "can_write_path_with_cwd plain_host project_policy (str ''/w/b'') (action_cwd ?action)"
    by (rule ok [THEN conjunct1, THEN bspec, OF _ d(1), THEN bspec, OF _ d(2)]) simp
  have "text_view mem_fs (fs ?st) (str ''/etc/d'') = text_view mem_fs ?s (str ''/etc/d'')"
    by (rule ok [THEN conjunct2, THEN mp, OF _ disjI1 [OF ex], THEN spec, THEN mp, OF _ prot]) simp
  moreover have "text_view mem_fs ?s (str ''/etc/d'') = Some []" by code_simp
  ultimately show ?thesis using a b by (simp only: Let_def list.pred_inject apply_patch_action.simps simp_thms)
qed

text \<open>
  The distinctness matters: the changes are collected per path, so a later hunk on the same path
  replaces the move of an earlier one, whose destination is then never checked. The patch below
  moves \<open>a\<close> out of the writable root and adds \<open>a\<close> again; it is let through without a question,
  and it writes \<open>/etc/b\<close>.
\<close>

lemma moved_destination_unchecked:
  "let hs = [rename_hunk ''a'' ''/etc/b'', AddFile (str ''a'') []];
       s = [str ''/w/a'' \<mapsto> str ''x'' @ [10]];
       args = \<lparr>patch = [], hunks = hs, workdir = None, environment_id = None\<rparr>
   in case verify_apply_patch_args mem_fs (\<lambda>_ a _. a) None s (str ''/w'') args of
        Ok (VerifiedBody action) \<Rightarrow>
          core_apply_patch plain_host Linux Never
            (Managed (ManagedRestricted (sandbox_entries project_policy) None) NetworkRestricted) False
            project_policy action = DelegateToRuntime action True (Skip False None)
          \<and> fs (snd (apply_hunks_to_files mem_fs None (action_cwd action) hs empty_delta s)) (str ''/etc/b'')
              = Some (str ''y'' @ [10])
          \<and> \<not> can_write_path_with_cwd plain_host project_policy (str ''/etc/b'') (str ''/w'')
      | _ \<Rightarrow> False"
  by code_simp

end
