(* ===== verification/Streaming_Parser.thy ===== *)
theory Streaming_Parser
  imports Patch_Parser
begin

text \<open>
  The incremental patch parser of \<open>codex-rs/apply-patch/src/streaming_parser.rs\<close>, which keeps
  a preview of the hunks while the model still writes the patch. A line that is rejected
  leaves the hunks and the mode as they were, so \<open>process_line\<close> returns the error or the new
  parser; \<open>push_delta\<close> and \<open>finish\<close> return the parser in both cases.
\<close>

section \<open>State\<close>

datatype streaming_parser_mode =
    NotStarted
  | StartedPatch
  | AddFileMode
  | DeleteFileMode
  | UpdateFileMode nat \<comment> \<open>hunk line number\<close>
  | EndedPatch

record streaming_patch_parser =
  line_buffer :: ustr
  mode :: streaming_parser_mode
  stream_hunks :: "hunk list"
  line_number :: nat

definition default_parser :: streaming_patch_parser where
  "default_parser = \<lparr>line_buffer = [], mode = NotStarted, stream_hunks = [], line_number = 0\<rparr>"

section \<open>Lines\<close>

definition is_environment_id_preamble_line :: "ustr \<Rightarrow> bool" where
  "is_environment_id_preamble_line line \<longleftrightarrow> starts_with ENVIRONMENT_ID_MARKER line"

definition chunk_is_empty :: "update_file_chunk \<Rightarrow> bool" where
  "chunk_is_empty c \<longleftrightarrow> old_lines c = [] \<and> new_lines c = []"

definition last_chunk_is_empty :: "update_file_chunk list \<Rightarrow> bool" where
  "last_chunk_is_empty cs \<longleftrightarrow> (case last_opt cs of Some c \<Rightarrow> chunk_is_empty c | None \<Rightarrow> False)"

definition ensure_update_hunk_is_not_empty ::
  "streaming_patch_parser \<Rightarrow> ustr \<Rightarrow> parse_error option" where
  "ensure_update_hunk_is_not_empty p line =
     (case last_opt (stream_hunks p) of
        Some (UpdateFile path _ chunks) \<Rightarrow>
          (case (chunks, mode p) of
             ([], UpdateFileMode hunk_line_number) \<Rightarrow>
               Some (InvalidHunkError (empty_update_message path) hunk_line_number)
           | _ \<Rightarrow>
               if last_chunk_is_empty chunks then
                 Some (InvalidHunkError
                   (if line = END_PATCH_MARKER then no_lines_message else unexpected_line_message line)
                   (line_number p))
               else None)
      | _ \<Rightarrow> None)"

text \<open>\<open>Ok (True, p)\<close> when the line was a header or the end marker.\<close>

definition start_hunk :: "streaming_patch_parser \<Rightarrow> ustr \<Rightarrow> hunk list \<Rightarrow> streaming_parser_mode
    \<Rightarrow> (bool \<times> streaming_patch_parser, parse_error) outcome" where
  "start_hunk p trimmed hs m =
     (case ensure_update_hunk_is_not_empty p trimmed of
        Some e \<Rightarrow> Err e
      | None \<Rightarrow> Ok (True, p\<lparr>stream_hunks := stream_hunks p @ hs, mode := m\<rparr>))"

definition handle_hunk_headers_and_end_patch ::
  "streaming_patch_parser \<Rightarrow> ustr \<Rightarrow> (bool \<times> streaming_patch_parser, parse_error) outcome" where
  "handle_hunk_headers_and_end_patch p trimmed =
     (if trimmed = END_PATCH_MARKER then start_hunk p trimmed [] EndedPatch
      else (case strip_prefix ADD_FILE_MARKER trimmed of
        Some path \<Rightarrow> start_hunk p trimmed [AddFile path []] AddFileMode
      | None \<Rightarrow>
     (case strip_prefix DELETE_FILE_MARKER trimmed of
        Some path \<Rightarrow> start_hunk p trimmed [DeleteFile path] DeleteFileMode
      | None \<Rightarrow>
     (case strip_prefix UPDATE_FILE_MARKER trimmed of
        Some path \<Rightarrow> start_hunk p trimmed [UpdateFile path None []] (UpdateFileMode (line_number p))
      | None \<Rightarrow> Ok (False, p)))))"

definition invalid_header :: "streaming_patch_parser \<Rightarrow> ustr \<Rightarrow> ('a, parse_error) outcome" where
  "invalid_header p trimmed = Err (InvalidHunkError (invalid_header_message trimmed) (line_number p))"

definition set_last_hunk :: "hunk \<Rightarrow> streaming_patch_parser \<Rightarrow> streaming_patch_parser" where
  "set_last_hunk h p = p\<lparr>stream_hunks := butlast (stream_hunks p) @ [h]\<rparr>"

definition process_add_line ::
  "streaming_patch_parser \<Rightarrow> ustr \<Rightarrow> (streaming_patch_parser, parse_error) outcome" where
  "process_add_line p line =
     (case (strip_prefix [chr CHR ''+''] line, last_opt (stream_hunks p)) of
        (Some line_to_add, Some (AddFile path contents)) \<Rightarrow>
          Ok (set_last_hunk (AddFile path (contents @ line_to_add @ [newline])) p)
      | _ \<Rightarrow> invalid_header p (trim line))"

text \<open>
  A line of an update hunk that is no header. \<open>chunks.push\<close> when there is no chunk yet, and
  the update of the last chunk.
\<close>

definition update_last_chunk ::
  "(update_file_chunk \<Rightarrow> update_file_chunk) \<Rightarrow> update_file_chunk list \<Rightarrow> update_file_chunk list" where
  "update_last_chunk f cs = (let cs = (if cs = [] then [new_chunk None] else cs) in butlast cs @ [f (last cs)])"

definition process_update_body ::
  "ustr \<Rightarrow> ustr \<Rightarrow> nat \<Rightarrow> ustr option \<Rightarrow> update_file_chunk list
    \<Rightarrow> (ustr option \<times> update_file_chunk list, parse_error) outcome" where
  "process_update_body line update_line n move_path chunks =
     (if chunks = [] \<and> move_path = None \<and> starts_with MOVE_TO_MARKER update_line
     then Ok (strip_prefix MOVE_TO_MARKER update_line, chunks)
     else if (update_line = EMPTY_CHANGE_CONTEXT_MARKER \<or> starts_with CHANGE_CONTEXT_MARKER update_line)
        \<and> last_chunk_is_empty chunks
     then Err (InvalidHunkError (unexpected_line_message line) n)
     else if update_line = EMPTY_CHANGE_CONTEXT_MARKER then Ok (move_path, chunks @ [new_chunk None])
     else (case strip_prefix CHANGE_CONTEXT_MARKER update_line of
        Some ctx \<Rightarrow> Ok (move_path, chunks @ [new_chunk (Some ctx)])
      | None \<Rightarrow>
     if update_line = EOF_MARKER then
       (if last_chunk_is_empty chunks then Err (InvalidHunkError no_lines_message n)
        else Ok (move_path,
          if chunks = [] then [] else butlast chunks @ [(last chunks)\<lparr>is_end_of_file := True\<rparr>]))
     else (case line of
        [] \<Rightarrow> Ok (move_path, update_last_chunk (\<lambda>c.
             c\<lparr>old_lines := old_lines c @ [[]], new_lines := new_lines c @ [[]]\<rparr>) chunks)
      | ch # rest \<Rightarrow>
          if ch = chr CHR '' '' then Ok (move_path, update_last_chunk (\<lambda>c.
             c\<lparr>old_lines := old_lines c @ [rest], new_lines := new_lines c @ [rest]\<rparr>) chunks)
          else if ch = chr CHR ''+'' then
             Ok (move_path, update_last_chunk (\<lambda>c. c\<lparr>new_lines := new_lines c @ [rest]\<rparr>) chunks)
          else if ch = chr CHR ''-'' then
             Ok (move_path, update_last_chunk (\<lambda>c. c\<lparr>old_lines := old_lines c @ [rest]\<rparr>) chunks)
          else if chunks \<noteq> [] \<and> \<not> last_chunk_is_empty chunks then
             Err (InvalidHunkError (expected_context_message line) n)
          else Err (InvalidHunkError (unexpected_line_message line) n))))"

definition process_update_line ::
  "streaming_patch_parser \<Rightarrow> ustr \<Rightarrow> (streaming_patch_parser, parse_error) outcome" where
  "process_update_line p line =
     (case last_opt (stream_hunks p) of
        Some (UpdateFile path move_path chunks) \<Rightarrow>
          obind (process_update_body line (trim_end line) (line_number p) move_path chunks)
            (\<lambda>(move_path, chunks). Ok (set_last_hunk (UpdateFile path move_path chunks) p))
      | _ \<Rightarrow> Err (InvalidHunkError (unexpected_line_message line) (line_number p)))"

definition or_header ::
  "streaming_patch_parser \<Rightarrow> ustr \<Rightarrow> (streaming_patch_parser, parse_error) outcome
    \<Rightarrow> (streaming_patch_parser, parse_error) outcome" where
  "or_header p trimmed otherwise =
     obind (handle_hunk_headers_and_end_patch p trimmed) (\<lambda>(handled, p'). if handled then Ok p' else otherwise)"

definition process_line ::
  "streaming_patch_parser \<Rightarrow> ustr \<Rightarrow> (streaming_patch_parser, parse_error) outcome" where
  "process_line p line =
     (let trimmed = trim line in
      case mode p of
        NotStarted \<Rightarrow>
          if trimmed = BEGIN_PATCH_MARKER then Ok (p\<lparr>mode := StartedPatch\<rparr>)
          else Err (InvalidPatchError first_line_message)
      | StartedPatch \<Rightarrow>
          if is_environment_id_preamble_line line then Ok p
          else or_header p trimmed (invalid_header p trimmed)
      | AddFileMode \<Rightarrow> or_header p trimmed (process_add_line p line)
      | DeleteFileMode \<Rightarrow> or_header p trimmed (invalid_header p trimmed)
      | UpdateFileMode _ \<Rightarrow> or_header p (trim_end line) (process_update_line p line)
      | EndedPatch \<Rightarrow> Ok p)"

section \<open>Deltas\<close>

text \<open>
  One character of \<open>push_delta\<close>, and the loop, which the first error stops. \<open>process_line\<close>
  never gives \<open>Panic\<close> (\<open>process_line_no_panic\<close> below).
\<close>

definition end_line :: "streaming_patch_parser \<Rightarrow> streaming_patch_parser" where
  "end_line p = p\<lparr>line_buffer := [], line_number := line_number p + 1\<rparr>"

definition push_char ::
  "streaming_patch_parser \<Rightarrow> uchar \<Rightarrow> parse_error option \<times> streaming_patch_parser" where
  "push_char p ch =
     (if ch = newline then
        (case process_line (end_line p) (strip_cr (line_buffer p)) of
           Ok p' \<Rightarrow> (None, p')
         | Err e \<Rightarrow> (Some e, end_line p)
         | Panic \<Rightarrow> (None, end_line p))
      else (None, p\<lparr>line_buffer := line_buffer p @ [ch]\<rparr>))"

fun push_chars ::
  "streaming_patch_parser \<Rightarrow> ustr \<Rightarrow> parse_error option \<times> streaming_patch_parser" where
  "push_chars p [] = (None, p)"
| "push_chars p (ch # chs) =
     (case push_char p ch of
        (None, p) \<Rightarrow> push_chars p chs
      | (Some e, p) \<Rightarrow> (Some e, p))"

definition push_delta ::
  "streaming_patch_parser \<Rightarrow> ustr \<Rightarrow> (hunk list, parse_error) outcome \<times> streaming_patch_parser" where
  "push_delta p d =
     (case push_chars p d of
        (None, p) \<Rightarrow> (Ok (stream_hunks p), p)
      | (Some e, p) \<Rightarrow> (Err e, p))"

definition finish_line ::
  "streaming_patch_parser \<Rightarrow> (streaming_patch_parser, parse_error) outcome" where
  "finish_line p =
     (if line_buffer p = [] then Ok p
      else if trim (line_buffer p) = END_PATCH_MARKER then
        (case ensure_update_hunk_is_not_empty (end_line p) (trim (line_buffer p)) of
           Some e \<Rightarrow> Err e
         | None \<Rightarrow> Ok ((end_line p)\<lparr>mode := EndedPatch\<rparr>))
      else process_line (end_line p) (line_buffer p))"

definition finish ::
  "streaming_patch_parser \<Rightarrow> (hunk list, parse_error) outcome \<times> streaming_patch_parser" where
  "finish p =
     (case finish_line p of
        Err e \<Rightarrow> (Err e, end_line p)
      | Panic \<Rightarrow> (Panic, end_line p)
      | Ok p' \<Rightarrow>
          if mode p' = EndedPatch then (Ok (stream_hunks p'), p')
          else (Err (InvalidPatchError last_line_message), p'))"

section \<open>Delivery in pieces\<close>

lemma handle_headers_no_panic: "handle_hunk_headers_and_end_patch p l \<noteq> Panic"
  by (simp add: handle_hunk_headers_and_end_patch_def start_hunk_def split: option.splits)

lemma process_update_body_no_panic: "process_update_body line ul n m cs \<noteq> Panic"
  by (simp add: process_update_body_def split: list.splits option.splits)

lemma process_line_no_panic: "process_line p line \<noteq> Panic"
  using handle_headers_no_panic process_update_body_no_panic
  by (auto simp: process_line_def or_header_def process_add_line_def process_update_line_def
      invalid_header_def Let_def obind_iffs split: streaming_parser_mode.splits option.splits hunk.splits)

lemma push_chars_append:
  "push_chars p (a @ b) =
     (case push_chars p a of (None, p) \<Rightarrow> push_chars p b | (Some e, p) \<Rightarrow> (Some e, p))"
  by (induction p a rule: push_chars.induct) (auto split: prod.splits option.splits)

text \<open>A line without a newline only fills the buffer; its newline processes it.\<close>

lemma push_chars_buffer:
  "newline \<notin> set l \<Longrightarrow> push_chars p l = (None, p\<lparr>line_buffer := line_buffer p @ l\<rparr>)"
  by (induction l arbitrary: p) (auto simp: push_char_def)

lemma push_chars_line:
  assumes "newline \<notin> set l" "line_buffer p = []"
  shows "push_chars p (l @ newline # rest) =
    (case process_line (end_line p) (strip_cr l) of
       Ok p' \<Rightarrow> push_chars p' rest
     | Err e \<Rightarrow> (Some e, end_line p)
     | Panic \<Rightarrow> push_chars (end_line p) rest)"
  using assms by (simp add: push_chars_append push_chars_buffer push_char_def end_line_def split: outcome.splits)

text \<open>Feeding a list of deltas, as the stream delivers them, until one is rejected.\<close>

fun push_deltas ::
  "streaming_patch_parser \<Rightarrow> ustr list \<Rightarrow> (hunk list, parse_error) outcome \<times> streaming_patch_parser" where
  "push_deltas p [] = (Ok (stream_hunks p), p)"
| "push_deltas p (d # ds) =
     (case push_delta p d of (Ok _, p) \<Rightarrow> push_deltas p ds | (r, p) \<Rightarrow> (r, p))"

lemma push_deltas_eq: "push_deltas p ds = push_delta p (concat ds)"
proof (induction ds arbitrary: p)
  case (Cons d ds)
  then show ?case
    by (auto simp: push_delta_def push_chars_append split: prod.splits option.splits)
qed (simp add: push_delta_def)

text \<open>
  How the text of a patch is cut into deltas does not matter: the parser reaches the same
  state and the same hunks or error as for the whole text in one delta.
\<close>

theorem push_deltas_concat: "push_deltas p ds = push_delta p (concat ds)"
  by (rule push_deltas_eq)

section \<open>The states the parser reaches\<close>

inductive stream_reachable :: "streaming_patch_parser \<Rightarrow> bool" where
  start: "stream_reachable default_parser"
| char: "stream_reachable p \<Longrightarrow> push_char p ch = (e, p') \<Longrightarrow> stream_reachable p'"

text \<open>
  The invariant: hunks appear only after the begin marker, the mode names the kind of the last
  hunk, and every hunk but the one being written is well formed.
\<close>

definition open_update :: "hunk \<Rightarrow> bool" where
  "open_update h \<longleftrightarrow> (case h of UpdateFile _ _ cs \<Rightarrow> (\<forall>c \<in> set (butlast cs). chunk_has_lines c) | _ \<Rightarrow> False)"

definition stream_inv :: "streaming_patch_parser \<Rightarrow> bool" where
  "stream_inv p \<longleftrightarrow>
     (case mode p of
        NotStarted \<Rightarrow> stream_hunks p = []
      | StartedPatch \<Rightarrow> stream_hunks p = []
      | AddFileMode \<Rightarrow> list_all wf_hunk (stream_hunks p)
          \<and> (\<exists>hs path contents. stream_hunks p = hs @ [AddFile path contents])
      | DeleteFileMode \<Rightarrow> list_all wf_hunk (stream_hunks p)
          \<and> (\<exists>hs path. stream_hunks p = hs @ [DeleteFile path])
      | UpdateFileMode _ \<Rightarrow>
          (\<exists>hs h. stream_hunks p = hs @ [h] \<and> list_all wf_hunk hs \<and> open_update h)
      | EndedPatch \<Rightarrow> list_all wf_hunk (stream_hunks p))"

lemma last_opt_snoc [simp]: "last_opt (xs @ [x]) = Some x"
  by (simp add: last_opt_def)

lemma open_updateE:
  assumes "open_update h"
  obtains path m cs where "h = UpdateFile path m cs" "\<forall>c \<in> set (butlast cs). chunk_has_lines c"
  using assms by (cases h) (auto simp: open_update_def)

lemma open_update_closed:
  assumes "open_update (UpdateFile path m cs)" "cs \<noteq> []" "\<not> last_chunk_is_empty cs"
  shows "wf_hunk (UpdateFile path m cs)"
  using assms by (cases cs rule: rev_cases)
    (auto simp: open_update_def last_chunk_is_empty_def chunk_is_empty_def chunk_has_lines_def)

text \<open>The check before a header closes the hunk being written.\<close>

lemma ensure_closes:
  assumes "stream_inv p" "ensure_update_hunk_is_not_empty p l = None"
  shows "list_all wf_hunk (stream_hunks p)"
proof (cases "mode p")
  case (UpdateFileMode n)
  with assms(1) obtain hs h where h: "stream_hunks p = hs @ [h]" "list_all wf_hunk hs" "open_update h"
    by (auto simp: stream_inv_def)
  then obtain path m cs where u: "h = UpdateFile path m cs" by (blast elim: open_updateE)
  have "cs \<noteq> []" "\<not> last_chunk_is_empty cs"
    using assms(2) h u UpdateFileMode
    by (auto simp: ensure_update_hunk_is_not_empty_def split: list.splits if_splits)
  with h u show ?thesis using open_update_closed [of path m cs] by simp
qed (use assms(1) in \<open>simp_all add: stream_inv_def\<close>)

lemma handle_headers_inv:
  assumes "stream_inv p" "handle_hunk_headers_and_end_patch p l = Ok (True, p')"
  shows "stream_inv p'"
proof -
  have closed: "stream_inv p'" if "start_hunk p l' hs m = Ok (True, p')"
    "\<And>gs. list_all wf_hunk gs \<Longrightarrow> stream_inv (p\<lparr>stream_hunks := gs @ hs, mode := m\<rparr>)" for l' hs m
    using that ensure_closes [OF assms(1), of l'] by (auto simp: start_hunk_def split: option.splits)
  have inv: "stream_inv (p\<lparr>stream_hunks := gs, mode := EndedPatch\<rparr>)"
    "stream_inv (p\<lparr>stream_hunks := gs @ [AddFile path []], mode := AddFileMode\<rparr>)"
    "stream_inv (p\<lparr>stream_hunks := gs @ [DeleteFile path], mode := DeleteFileMode\<rparr>)"
    "stream_inv (p\<lparr>stream_hunks := gs @ [UpdateFile path None []], mode := UpdateFileMode n\<rparr>)"
    if "list_all wf_hunk gs" for gs path n
    using that by (simp_all add: stream_inv_def open_update_def)
  show ?thesis
    using assms(2) unfolding handle_hunk_headers_and_end_patch_def
    by (auto split: if_splits option.splits intro: closed [OF _ inv(2)] closed [OF _ inv(3)]
        closed [OF _ inv(4)] closed [of _ "[]", simplified, OF _ inv(1)])
qed

lemma handle_headers_False: "handle_hunk_headers_and_end_patch p l = Ok (False, p') \<Longrightarrow> p' = p"
  by (auto simp: handle_hunk_headers_and_end_patch_def start_hunk_def split: if_splits option.splits)

lemma or_header_inv:
  assumes "stream_inv p" "or_header p l other = Ok p'" "other = Ok p' \<Longrightarrow> stream_inv p'"
  shows "stream_inv p'"
  using assms handle_headers_inv [OF assms(1), of l p']
  by (auto simp: or_header_def obind_iffs split: if_splits)

lemma open_update_snoc:
  "\<forall>c \<in> set (butlast cs). chunk_has_lines c \<Longrightarrow> \<not> last_chunk_is_empty cs \<Longrightarrow>
   \<forall>c \<in> set cs. chunk_has_lines c"
  by (cases cs rule: rev_cases)
    (auto simp: last_chunk_is_empty_def chunk_is_empty_def chunk_has_lines_def)

lemma update_last_chunk_butlast: "butlast (update_last_chunk f cs) = butlast cs"
  by (simp add: update_last_chunk_def Let_def)

lemma process_update_body_open:
  assumes "process_update_body line ul n m cs = Ok (m', cs')"
    and "\<forall>c \<in> set (butlast cs). chunk_has_lines c"
  shows "\<forall>c \<in> set (butlast cs'). chunk_has_lines c"
proof -
  consider "cs' = []" | ctx where "cs' = cs @ [new_chunk ctx]" "\<not> last_chunk_is_empty cs"
    | "butlast cs' = butlast cs"
    using assms(1) unfolding process_update_body_def
    by (auto simp: update_last_chunk_butlast starts_with_def split: list.splits option.splits if_splits)
  then show ?thesis
    by cases (use assms(2) in \<open>auto dest: open_update_snoc\<close>)
qed

lemma process_line_inv:
  assumes "stream_inv p" "process_line p line = Ok p'"
  shows "stream_inv p'"
proof (cases "mode p")
  case AddFileMode
  then have "or_header p (trim line) (process_add_line p line) = Ok p'"
    using assms(2) by (simp add: process_line_def)
  then show ?thesis
  proof (rule or_header_inv [OF assms(1)])
    assume "process_add_line p line = Ok p'"
    with assms(1) AddFileMode show "stream_inv p'"
      by (auto simp: process_add_line_def stream_inv_def set_last_hunk_def invalid_header_def split: option.splits)
  qed
next
  case (UpdateFileMode n)
  then have "or_header p (trim_end line) (process_update_line p line) = Ok p'"
    using assms(2) by (simp add: process_line_def)
  then show ?thesis
  proof (rule or_header_inv [OF assms(1)])
    assume u: "process_update_line p line = Ok p'"
    from assms(1) UpdateFileMode obtain hs path m cs where
      "stream_hunks p = hs @ [UpdateFile path m cs]" "list_all wf_hunk hs"
      "\<forall>c \<in> set (butlast cs). chunk_has_lines c"
      by (auto simp: stream_inv_def elim: open_updateE)
    with u UpdateFileMode show "stream_inv p'"
      by (auto simp: process_update_line_def obind_iffs stream_inv_def set_last_hunk_def open_update_def
          dest: process_update_body_open)
  qed
next
  case DeleteFileMode
  with assms show ?thesis
    using or_header_inv [OF assms(1), of "trim line" "invalid_header p (trim line)" p']
    by (simp add: process_line_def Let_def invalid_header_def)
next
  case StartedPatch
  with assms show ?thesis
    using or_header_inv [OF assms(1), of "trim line" "invalid_header p (trim line)" p']
    by (auto simp: process_line_def Let_def invalid_header_def split: if_splits)
qed (use assms in \<open>auto simp: process_line_def stream_inv_def Let_def split: if_splits\<close>)

lemma end_line_simps [simp]:
  "mode (end_line p) = mode p" "stream_hunks (end_line p) = stream_hunks p" "line_buffer (end_line p) = []"
  by (simp_all add: end_line_def)

lemma stream_inv_cong: "mode p' = mode p \<Longrightarrow> stream_hunks p' = stream_hunks p \<Longrightarrow> stream_inv p' = stream_inv p"
  by (cases "mode p") (simp_all add: stream_inv_def)

lemma stream_inv_end_line [simp]: "stream_inv (end_line p) = stream_inv p"
  by (rule stream_inv_cong) simp_all

lemma push_char_inv:
  assumes "stream_inv p" "push_char p ch = (e, p')"
  shows "stream_inv p'"
proof (cases "ch = newline")
  case True
  with assms process_line_inv [of "end_line p" "strip_cr (line_buffer p)" p'] show ?thesis
    by (auto simp: push_char_def split: outcome.splits)
next
  case False
  with assms show ?thesis using stream_inv_cong [of p' p] by (auto simp: push_char_def)
qed

lemma stream_reachable_inv: "stream_reachable p \<Longrightarrow> stream_inv p"
proof (induction rule: stream_reachable.induct)
  case start
  show ?case by (simp add: default_parser_def stream_inv_def)
qed (rule push_char_inv)

lemma push_chars_reachable:
  "stream_reachable p \<Longrightarrow> push_chars p d = (e, p') \<Longrightarrow> stream_reachable p'"
proof (induction p d rule: push_chars.induct)
  case (2 p ch chs)
  then show ?case
    by (auto split: prod.splits option.splits intro: stream_reachable.char)
qed simp

lemma finish_line_cases:
  assumes "finish_line p = Ok p'"
  obtains "p' = p"
  | "p' = (end_line p)\<lparr>mode := EndedPatch\<rparr>"
    "ensure_update_hunk_is_not_empty (end_line p) (trim (line_buffer p)) = None"
  | "process_line (end_line p) (line_buffer p) = Ok p'"
  using assms unfolding finish_line_def by (fastforce split: if_splits option.splits)

lemma finish_wf:
  assumes "stream_inv p" "fst (finish p) = Ok hs"
  shows "list_all wf_hunk hs"
proof -
  obtain p' where p': "finish_line p = Ok p'" "mode p' = EndedPatch" "hs = stream_hunks p'"
    using assms(2) by (auto simp: finish_def split: outcome.splits if_splits)
  from finish_line_cases [OF p'(1)] show ?thesis
  proof cases
    case 2
    then show ?thesis using ensure_closes [of "end_line p"] assms(1) p'(3) by simp
  next
    case 3
    then have "stream_inv p'" using assms(1) process_line_inv [of "end_line p"] by simp
    with p' show ?thesis by (simp add: stream_inv_def)
  qed (use assms p' in \<open>simp add: stream_inv_def\<close>)
qed

text \<open>
  Whatever is streamed, if the parser finishes successfully every hunk it returns is well
  formed: an update has chunks, each chunk has lines, and an added file ends with a newline.
\<close>

theorem stream_finish_wf:
  assumes "push_deltas default_parser ds = (r, p)" "fst (finish p) = Ok hs"
  shows "list_all wf_hunk hs"
proof -
  have "push_delta default_parser (concat ds) = (r, p)"
    using assms(1) push_deltas_eq [of default_parser ds] by simp
  then obtain e where "push_chars default_parser (concat ds) = (e, p)"
    by (auto simp: push_delta_def split: prod.splits option.splits)
  then have "stream_reachable p"
    using push_chars_reachable stream_reachable.start by blast
  then show ?thesis using finish_wf stream_reachable_inv assms(2) by blast
qed

section \<open>Agreement with the batch parser on printed patches\<close>

text \<open>
  The streaming parser trims the end of every line of an update hunk, so a move path and a
  change context must not end in white space, and a context must not be empty.
\<close>

fun stream_hunk_ok :: "hunk \<Rightarrow> bool" where
  "stream_hunk_ok (UpdateFile p m cs) \<longleftrightarrow>
     (case m of None \<Rightarrow> True | Some d \<Rightarrow> path_ok d)
     \<and> (\<forall>c \<in> set cs. case change_context c of None \<Rightarrow> True | Some ctx \<Rightarrow> path_ok ctx)"
| "stream_hunk_ok h \<longleftrightarrow> True"

fun process_lines ::
  "streaming_patch_parser \<Rightarrow> ustr list \<Rightarrow> (streaming_patch_parser, parse_error) outcome" where
  "process_lines p [] = Ok p"
| "process_lines p (l # ls) = obind (process_line (end_line p) l) (\<lambda>p. process_lines p ls)"

lemma process_lines_append:
  "process_lines p (ls @ ls') = obind (process_lines p ls) (\<lambda>p. process_lines p ls')"
proof (induction ls arbitrary: p)
  case (Cons l ls)
  then show ?case by (cases "process_line (end_line p) l") simp_all
qed simp

lemma or_header_buffer:
  assumes "or_header p l other = Ok p'" "other = Ok p' \<Longrightarrow> line_buffer p' = line_buffer p"
  shows "line_buffer p' = line_buffer p"
  using assms by (auto simp: or_header_def obind_iffs handle_hunk_headers_and_end_patch_def start_hunk_def
      split: if_splits option.splits)

lemma process_line_buffer:
  assumes "process_line p line = Ok p'"
  shows "line_buffer p' = line_buffer p"
proof -
  have "process_add_line p line = Ok p' \<Longrightarrow> line_buffer p' = line_buffer p"
    "process_update_line p line = Ok p' \<Longrightarrow> line_buffer p' = line_buffer p"
    by (auto simp: process_add_line_def process_update_line_def invalid_header_def set_last_hunk_def
        obind_iffs split: option.splits hunk.splits)
  with assms show ?thesis
    by (auto simp: process_line_def Let_def invalid_header_def split: streaming_parser_mode.splits if_splits
        dest: or_header_buffer)
qed

lemma push_chars_lines:
  assumes "process_lines p ls = Ok p'" "line_buffer p = []" "\<forall>l \<in> set ls. line_ok l"
  shows "push_chars p (concat (map (\<lambda>l. l @ [newline]) ls) @ rest) = push_chars p' rest
    \<and> line_buffer p' = []"
  using assms
proof (induction ls arbitrary: p)
  case (Cons l ls)
  from Cons.prems(1) obtain q where q: "process_line (end_line p) l = Ok q" "process_lines q ls = Ok p'"
    by (auto simp: obind_iffs)
  have "strip_cr l = l" "newline \<notin> set l"
    using Cons.prems(3) by (auto simp: strip_cr_def line_ok_def ends_with_def)
  with Cons.IH [OF q(2)] Cons.prems process_line_buffer [OF q(1)] q(1) show ?case
    by (simp add: push_chars_line)
qed simp

lemma join_with_snoc:
  "join_with [d] (ls @ [e]) = concat (map (\<lambda>l. l @ [d]) ls) @ e"
  by (induction ls) (auto simp: join_with_Cons)

text \<open>A parser between two hunks: it has \<open>hs\<close>, and a header may follow.\<close>

definition between :: "streaming_patch_parser \<Rightarrow> hunk list \<Rightarrow> bool" where
  "between p hs \<longleftrightarrow> stream_hunks p = hs \<and> mode p \<notin> {NotStarted, EndedPatch}
     \<and> (case last_opt hs of
          Some (UpdateFile _ _ cs) \<Rightarrow> cs \<noteq> [] \<and> \<not> last_chunk_is_empty cs | _ \<Rightarrow> True)"

lemma between_ensure: "between p hs \<Longrightarrow> ensure_update_hunk_is_not_empty (end_line p) l = None"
  by (auto simp: between_def ensure_update_hunk_is_not_empty_def split: option.splits hunk.splits list.splits)

lemma between_header:
  assumes "between p hs" "trim l = l" "trim_end l = l" "strip_prefix ENVIRONMENT_ID_MARKER l = None"
    and "handle_hunk_headers_and_end_patch (end_line p) l = start_hunk (end_line p) l gs m"
  shows "process_line (end_line p) l = Ok ((end_line p)\<lparr>stream_hunks := hs @ gs, mode := m\<rparr>)"
proof -
  have "or_header (end_line p) l other = Ok ((end_line p)\<lparr>stream_hunks := hs @ gs, mode := m\<rparr>)" for other
    using assms(5) between_ensure [OF assms(1)] assms(1) by (simp add: or_header_def start_hunk_def between_def)
  with assms show ?thesis
    by (cases "mode p") (simp_all add: between_def process_line_def is_environment_id_preamble_line_def starts_with_def)
qed

lemma no_header:
  assumes "l = [] \<or> hd l \<noteq> chr CHR ''*''"
  shows "handle_hunk_headers_and_end_patch p l = Ok (False, p)"
proof -
  have "l \<noteq> END_PATCH_MARKER" "strip_prefix ADD_FILE_MARKER l = None"
    "strip_prefix DELETE_FILE_MARKER l = None" "strip_prefix UPDATE_FILE_MARKER l = None"
    using assms by (cases l; simp add: marker_defs str_Cons)+
  then show ?thesis by (simp add: handle_hunk_headers_and_end_patch_def)
qed

lemma trim_end_Cons: "\<not> is_whitespace c \<Longrightarrow> trim_end (c # s) = c # trim_end s"
  by (cases "\<forall>x \<in> set s. is_whitespace x") (auto simp: trim_end_def dropWhile_append)

lemma not_whitespace [simp]:
  "\<not> is_whitespace (chr CHR ''+'')" "\<not> is_whitespace (chr CHR ''-'')"
  "\<not> is_whitespace (chr CHR ''@'')" "\<not> is_whitespace (chr CHR ''*'')"
  by (simp_all add: is_whitespace_def chr_def)

text \<open>The lines of an added file.\<close>

lemma process_plus_add:
  assumes "mode p = AddFileMode" "stream_hunks p = hs @ [AddFile path contents]"
  shows "process_line (end_line p) (chr CHR ''+'' # l) =
    Ok ((end_line p)\<lparr>stream_hunks := hs @ [AddFile path (contents @ l @ [newline])]\<rparr>)"
proof -
  have "trim (chr CHR ''+'' # l) = chr CHR ''+'' # trim_end l"
    by (simp add: trim_def trim_start_Cons trim_end_Cons)
  with assms show ?thesis
    by (simp add: process_line_def or_header_def no_header process_add_line_def set_last_hunk_def)
qed

lemma process_lines_add:
  assumes "mode p = AddFileMode" "stream_hunks p = hs @ [AddFile path contents]"
  shows "\<exists>p'. process_lines p (map ((#) (chr CHR ''+'')) ls) = Ok p' \<and> mode p' = AddFileMode
    \<and> stream_hunks p' = hs @ [AddFile path (contents @ concat (map (\<lambda>l. l @ [newline]) ls))]"
  using assms
proof (induction ls arbitrary: p contents)
  case (Cons l ls)
  let ?q = "(end_line p)\<lparr>stream_hunks := hs @ [AddFile path (contents @ l @ [newline])]\<rparr>"
  have "process_line (end_line p) (chr CHR ''+'' # l) = Ok ?q" by (rule process_plus_add [OF Cons.prems])
  moreover have "mode ?q = AddFileMode" using Cons.prems by simp
  ultimately show ?case using Cons.IH [of ?q "contents @ l @ [newline]"] by simp
qed simp

text \<open>The lines of an update hunk.\<close>

definition updating :: "streaming_patch_parser \<Rightarrow> hunk list \<Rightarrow> ustr \<Rightarrow> ustr option \<Rightarrow> update_file_chunk list \<Rightarrow> bool" where
  "updating p hs path m cs \<longleftrightarrow>
     (\<exists>n. mode p = UpdateFileMode n) \<and> stream_hunks p = hs @ [UpdateFile path m cs]"

lemma updating_line:
  assumes "updating p hs path m cs" "handle_hunk_headers_and_end_patch (end_line p) (trim_end l) = Ok (False, end_line p)"
    and "process_update_body l (trim_end l) (line_number (end_line p)) m cs = Ok (m', cs')"
  shows "\<exists>p'. process_line (end_line p) l = Ok p' \<and> updating p' hs path m' cs'"
  using assms by (auto simp: updating_def process_line_def or_header_def process_update_line_def set_last_hunk_def)

lemma updating_chunk_line:
  assumes "updating p hs path m (cs @ [c])" "ch \<in> {chr CHR ''+'', chr CHR ''-''}"
  shows "\<exists>p'. process_line (end_line p) (ch # l) = Ok p' \<and> updating p' hs path m
    (cs @ [if ch = chr CHR ''+'' then c\<lparr>new_lines := new_lines c @ [l]\<rparr> else c\<lparr>old_lines := old_lines c @ [l]\<rparr>])"
proof (rule updating_line [OF assms(1)])
  have te: "trim_end (ch # l) = ch # trim_end l" using assms(2) by (auto simp: trim_end_Cons)
  show "handle_hunk_headers_and_end_patch (end_line p) (trim_end (ch # l)) = Ok (False, end_line p)"
    using assms(2) te by (intro no_header) auto
  have "ch # x \<noteq> EMPTY_CHANGE_CONTEXT_MARKER" "strip_prefix CHANGE_CONTEXT_MARKER (ch # x) = None"
    "ch # x \<noteq> EOF_MARKER" for x
    using assms(2) by (auto simp: marker_defs str_Cons)
  with assms(2) te show "process_update_body (ch # l) (trim_end (ch # l)) (line_number (end_line p)) m (cs @ [c]) =
      Ok (m, cs @ [if ch = chr CHR ''+'' then c\<lparr>new_lines := new_lines c @ [l]\<rparr> else c\<lparr>old_lines := old_lines c @ [l]\<rparr>])"
    by (auto simp: process_update_body_def update_last_chunk_def starts_with_def)
qed

lemma updating_chunk_lines:
  assumes "updating p hs path m (cs @ [c])"
  shows "\<exists>p'. process_lines p (map ((#) (chr CHR ''-'')) old @ map ((#) (chr CHR ''+'')) new) = Ok p'
    \<and> updating p' hs path m (cs @ [c\<lparr>old_lines := old_lines c @ old, new_lines := new_lines c @ new\<rparr>])"
  using assms
proof (induction old arbitrary: p c)
  case Nil
  then show ?case
  proof (induction new arbitrary: p c)
    case (Cons l new)
    from updating_chunk_line [OF Cons.prems, of "chr CHR ''+''" l] obtain q where
      "process_line (end_line p) (chr CHR ''+'' # l) = Ok q"
      "updating q hs path m (cs @ [c\<lparr>new_lines := new_lines c @ [l]\<rparr>])" by auto
    with Cons.IH [OF this(2)] show ?case by simp
  qed simp
next
  case (Cons l old)
  from updating_chunk_line [OF Cons.prems, of "chr CHR ''-''" l] obtain q where
    "process_line (end_line p) (chr CHR ''-'' # l) = Ok q"
    "updating q hs path m (cs @ [c\<lparr>old_lines := old_lines c @ [l]\<rparr>])" by auto
  with Cons.IH [OF this(2)] show ?case by simp
qed

lemma updating_context_line:
  assumes "updating p hs path m cs" "\<not> last_chunk_is_empty cs"
    and "case ctx of None \<Rightarrow> True | Some x \<Rightarrow> path_ok x"
  shows "\<exists>p'. process_line (end_line p)
      (case ctx of None \<Rightarrow> EMPTY_CHANGE_CONTEXT_MARKER | Some x \<Rightarrow> CHANGE_CONTEXT_MARKER @ x) = Ok p'
    \<and> updating p' hs path m (cs @ [new_chunk ctx])" (is "\<exists>p'. process_line _ ?l = _ \<and> _")
proof (rule updating_line [OF assms(1)])
  have te: "trim_end ?l = ?l"
    using assms(3) by (auto simp: path_ok_def marker_ends is_whitespace_def intro!: trim_end_id split: option.splits)
  have hd: "hd ?l = chr CHR ''@''" "?l \<noteq> []" by (auto simp: marker_defs split: option.splits)
  then show "handle_hunk_headers_and_end_patch (end_line p) (trim_end ?l) = Ok (False, end_line p)"
    using te by (intro no_header) simp
  have "strip_prefix MOVE_TO_MARKER ?l = None" using hd by (cases ?l) (simp_all add: marker_defs str_Cons)
  moreover have "CHANGE_CONTEXT_MARKER @ x \<noteq> EMPTY_CHANGE_CONTEXT_MARKER" for x
    by (simp add: marker_defs str_Cons)
  ultimately show "process_update_body ?l (trim_end ?l) (line_number (end_line p)) m cs = Ok (m, cs @ [new_chunk ctx])"
    unfolding te using assms(2) by (cases ctx) (simp_all add: process_update_body_def starts_with_def)
qed

lemma updating_eof_line:
  assumes "updating p hs path m (cs @ [c])" "chunk_has_lines c"
  shows "\<exists>p'. process_line (end_line p) EOF_MARKER = Ok p'
    \<and> updating p' hs path m (cs @ [c\<lparr>is_end_of_file := True\<rparr>])"
proof (rule updating_line [OF assms(1)])
  have te: "trim_end EOF_MARKER = EOF_MARKER" by (rule trim_end_id) (simp add: marker_ends is_whitespace_def)
  then show "handle_hunk_headers_and_end_patch (end_line p) (trim_end EOF_MARKER) = Ok (False, end_line p)"
    by (simp add: handle_hunk_headers_and_end_patch_def) (simp add: marker_defs str_Cons)
  have "EOF_MARKER \<noteq> EMPTY_CHANGE_CONTEXT_MARKER" "strip_prefix CHANGE_CONTEXT_MARKER EOF_MARKER = None"
    by (simp_all add: marker_defs str_Cons)
  moreover have "\<not> last_chunk_is_empty (cs @ [c])"
    using assms(2) by (auto simp: last_chunk_is_empty_def chunk_is_empty_def chunk_has_lines_def)
  ultimately show "process_update_body EOF_MARKER (trim_end EOF_MARKER) (line_number (end_line p)) m (cs @ [c]) =
      Ok (m, cs @ [c\<lparr>is_end_of_file := True\<rparr>])"
    using te by (simp add: process_update_body_def starts_with_def)
qed

lemma updating_chunk:
  assumes "updating p hs path m cs" "\<not> last_chunk_is_empty cs" "chunk_ok c"
    and "case change_context c of None \<Rightarrow> True | Some ctx \<Rightarrow> path_ok ctx"
  shows "\<exists>p'. process_lines p (render_chunk c) = Ok p' \<and> updating p' hs path m (cs @ [c])"
proof -
  have c: "chunk_has_lines c" using assms(3) by (simp add: chunk_ok_def)
  obtain p1 where p1: "process_line (end_line p) (hd (render_chunk c)) = Ok p1"
    "updating p1 hs path m (cs @ [new_chunk (change_context c)])"
    using updating_context_line [OF assms(1,2,4)] by (auto simp: render_chunk_def)
  let ?c = "\<lparr>change_context = change_context c, old_lines = old_lines c, new_lines = new_lines c,
    is_end_of_file = False\<rparr>"
  obtain p2 where p2: "process_lines p1 (map ((#) (chr CHR ''-'')) (old_lines c) @ map ((#) (chr CHR ''+'')) (new_lines c)) = Ok p2"
    "updating p2 hs path m (cs @ [?c])"
    using updating_chunk_lines [OF p1(2), of "old_lines c" "new_lines c"]
    by (auto simp: new_chunk_def)
  have split: "render_chunk c = hd (render_chunk c) #
      (map ((#) (chr CHR ''-'')) (old_lines c) @ map ((#) (chr CHR ''+'')) (new_lines c))
      @ (if is_end_of_file c then [EOF_MARKER] else [])"
    by (simp add: render_chunk_def)
  show ?thesis
  proof (cases "is_end_of_file c")
    case True
    then have "?c\<lparr>is_end_of_file := True\<rparr> = c" by (cases c) simp
    with updating_eof_line [OF p2(2)] c obtain p3 where
      "process_line (end_line p2) EOF_MARKER = Ok p3" "updating p3 hs path m (cs @ [c])"
      by (auto simp: chunk_has_lines_def)
    with p1(1) p2(1) True show ?thesis
      by (subst split) (simp del: append_assoc add: process_lines_append)
  next
    case False
    then have "?c = c" by (cases c) simp
    with p1(1) p2 False show ?thesis by (subst split) simp
  qed
qed

lemma updating_chunks:
  assumes "updating p hs path m cs" "\<not> last_chunk_is_empty cs" "\<forall>c \<in> set ds. chunk_ok c"
    and "\<forall>c \<in> set ds. case change_context c of None \<Rightarrow> True | Some ctx \<Rightarrow> path_ok ctx"
  shows "\<exists>p'. process_lines p (concat (map render_chunk ds)) = Ok p' \<and> updating p' hs path m (cs @ ds)"
  using assms
proof (induction ds arbitrary: p cs)
  case (Cons d ds)
  then obtain q where q: "process_lines p (render_chunk d) = Ok q" "updating q hs path m (cs @ [d])"
    using updating_chunk [of p hs path m cs d] by auto
  have "\<not> last_chunk_is_empty (cs @ [d])"
    using Cons.prems(3) by (auto simp: last_chunk_is_empty_def chunk_is_empty_def chunk_ok_def chunk_has_lines_def)
  with Cons.IH [OF q(2)] Cons.prems q(1) show ?case by (simp add: process_lines_append)
qed simp

lemma updating_move_line:
  assumes "updating p hs path None []" "path_ok d"
  shows "\<exists>p'. process_line (end_line p) (MOVE_TO_MARKER @ d) = Ok p' \<and> updating p' hs path (Some d) []"
proof (rule updating_line [OF assms(1)])
  have te: "trim_end (MOVE_TO_MARKER @ d) = MOVE_TO_MARKER @ d"
    using assms(2) by (intro trim_end_id) (simp add: path_ok_def)
  then show "handle_hunk_headers_and_end_patch (end_line p) (trim_end (MOVE_TO_MARKER @ d)) = Ok (False, end_line p)"
    by (simp add: handle_hunk_headers_and_end_patch_def) (simp add: marker_defs str_Cons)
  from te show "process_update_body (MOVE_TO_MARKER @ d) (trim_end (MOVE_TO_MARKER @ d))
      (line_number (end_line p)) None [] = Ok (Some d, [])"
    by (simp add: process_update_body_def)
qed

text \<open>The header line of a hunk between two hunks.\<close>

lemma path_ok_header:
  assumes "path_ok path"
  shows "trim_end (ADD_FILE_MARKER @ path) = ADD_FILE_MARKER @ path"
    "trim_end (DELETE_FILE_MARKER @ path) = DELETE_FILE_MARKER @ path"
    "trim_end (UPDATE_FILE_MARKER @ path) = UPDATE_FILE_MARKER @ path"
  using assms by (intro trim_end_id; simp add: path_ok_def)+

lemma header_not_end:
  "ADD_FILE_MARKER @ path \<noteq> END_PATCH_MARKER" "DELETE_FILE_MARKER @ path \<noteq> END_PATCH_MARKER"
  "UPDATE_FILE_MARKER @ path \<noteq> END_PATCH_MARKER"
  by (simp_all add: marker_defs str_Cons)

lemma header_handled:
  "handle_hunk_headers_and_end_patch p (ADD_FILE_MARKER @ path) =
     start_hunk p (ADD_FILE_MARKER @ path) [AddFile path []] AddFileMode"
  "handle_hunk_headers_and_end_patch p (DELETE_FILE_MARKER @ path) =
     start_hunk p (DELETE_FILE_MARKER @ path) [DeleteFile path] DeleteFileMode"
  "handle_hunk_headers_and_end_patch p (UPDATE_FILE_MARKER @ path) =
     start_hunk p (UPDATE_FILE_MARKER @ path) [UpdateFile path None []] (UpdateFileMode (line_number p))"
  by (simp_all add: handle_hunk_headers_and_end_patch_def header_not_end header_prefixes)

lemmas header_facts = trim_header path_ok_header header_prefixes header_handled

lemma process_lines_hunk:
  assumes "between p hs" "hunk_ok h" "stream_hunk_ok h"
  shows "\<exists>p'. process_lines p (render_hunk h) = Ok p' \<and> between p' (hs @ [h])"
proof (cases h)
  case (AddFile path contents)
  let ?q = "(end_line p)\<lparr>stream_hunks := hs @ [AddFile path []], mode := AddFileMode\<rparr>"
  have "path_ok path" using assms(2) AddFile by simp
  then have "process_line (end_line p) (ADD_FILE_MARKER @ path) = Ok ?q"
    by (intro between_header [OF assms(1)]) (simp_all add: header_facts)
  moreover have "concat (map (\<lambda>l. l @ [newline]) (butlast (split_on newline contents))) = contents"
    using assms(2) AddFile by (intro concat_split_on) simp
  ultimately show ?thesis
    using process_lines_add [of ?q hs path "[]" "butlast (split_on newline contents)"] AddFile
    by (auto simp: between_def)
next
  case (DeleteFile path)
  let ?q = "(end_line p)\<lparr>stream_hunks := hs @ [DeleteFile path], mode := DeleteFileMode\<rparr>"
  have "path_ok path" using assms(2) DeleteFile by simp
  then have "process_line (end_line p) (DELETE_FILE_MARKER @ path) = Ok ?q"
    by (intro between_header [OF assms(1)]) (simp_all add: header_facts)
  then show ?thesis using DeleteFile by (auto simp: between_def)
next
  case (UpdateFile path m cs)
  let ?q = "(end_line p)\<lparr>stream_hunks := hs @ [UpdateFile path None []],
    mode := UpdateFileMode (line_number (end_line p))\<rparr>"
  have "path_ok path" using assms(2) UpdateFile by simp
  then have q: "process_line (end_line p) (UPDATE_FILE_MARKER @ path) = Ok ?q"
    by (intro between_header [OF assms(1)]) (simp_all add: header_facts)
  have uq: "updating ?q hs path None []" by (simp add: updating_def)
  obtain q' where q': "process_lines ?q (case m of None \<Rightarrow> [] | Some d \<Rightarrow> [MOVE_TO_MARKER @ d]) = Ok q'"
    "updating q' hs path m []"
    using uq updating_move_line [OF uq] assms(3) UpdateFile
    by (cases m) (auto simp: obind_iffs)
  obtain p' where "process_lines q' (concat (map render_chunk cs)) = Ok p'" "updating p' hs path m cs"
    using updating_chunks [OF q'(2), of cs] assms(2,3) UpdateFile
    by (auto simp: last_chunk_is_empty_def last_opt_def)
  moreover have "cs \<noteq> []" "\<not> last_chunk_is_empty cs"
    using assms(2) UpdateFile by (cases cs rule: rev_cases;
        auto simp: last_chunk_is_empty_def chunk_is_empty_def chunk_ok_def chunk_has_lines_def)+
  ultimately show ?thesis
    using q q'(1) UpdateFile by (auto simp: process_lines_append between_def updating_def)
qed

lemma process_lines_hunks:
  assumes "between p gs" "\<forall>h \<in> set hs. hunk_ok h \<and> stream_hunk_ok h"
  shows "\<exists>p'. process_lines p (concat (map render_hunk hs)) = Ok p' \<and> between p' (gs @ hs)"
  using assms
proof (induction hs arbitrary: p gs)
  case (Cons h hs)
  then obtain q where "process_lines p (render_hunk h) = Ok q" "between q (gs @ [h])"
    using process_lines_hunk [of p gs h] by auto
  with Cons.IH [OF this(2)] Cons.prems show ?case by (simp add: process_lines_append)
qed simp

lemma stream_render_patch:
  assumes "\<forall>h \<in> set hs. hunk_ok h \<and> stream_hunk_ok h" "env_option_ok env"
  shows "\<exists>p. push_delta default_parser (render_patch env hs) = (Ok hs, p) \<and> fst (finish p) = Ok hs"
proof -
  let ?ls = "BEGIN_PATCH_MARKER # render_lines env hs"
  let ?s = "(end_line default_parser)\<lparr>mode := StartedPatch\<rparr>"
  have s: "process_line (end_line default_parser) BEGIN_PATCH_MARKER = Ok ?s"
    by (simp add: process_line_def default_parser_def)
  obtain q where q: "process_lines ?s (case env of None \<Rightarrow> [] | Some e \<Rightarrow> [ENVIRONMENT_ID_MARKER @ e]) = Ok q"
    "between q []"
    by (cases env) (auto simp: between_def process_line_def is_environment_id_preamble_line_def
        last_opt_def default_parser_def)
  obtain p' where p': "process_lines q (concat (map render_hunk hs)) = Ok p'" "between p' hs"
    using process_lines_hunks [OF q(2) assms(1)] by auto
  have run: "process_lines default_parser ?ls = Ok p'"
    using s q(1) p'(1) by (simp add: render_lines_def process_lines_append)
  have "line_ok l" if "l \<in> set ?ls" for l
    using that render_lines_ok [OF _ assms(2), of hs l] assms(1)
    by (auto intro: line_okI simp: marker_line_facts)
  then have "push_chars default_parser (concat (map (\<lambda>l. l @ [newline]) ?ls) @ END_PATCH_MARKER)
      = push_chars p' END_PATCH_MARKER \<and> line_buffer p' = []"
    using push_chars_lines [OF run] by (simp add: default_parser_def)
  moreover have "render_patch env hs = concat (map (\<lambda>l. l @ [newline]) ?ls) @ END_PATCH_MARKER"
    using join_with_snoc [of newline ?ls END_PATCH_MARKER] by (simp add: render_patch_lines)
  ultimately have "push_chars default_parser (render_patch env hs) =
      (None, p'\<lparr>line_buffer := END_PATCH_MARKER\<rparr>)"
    by (simp add: push_chars_buffer marker_lines)
  moreover have "fst (finish (p'\<lparr>line_buffer := END_PATCH_MARKER\<rparr>)) = Ok hs"
    using p'(2) between_ensure [of "p'\<lparr>line_buffer := END_PATCH_MARKER\<rparr>" hs END_PATCH_MARKER]
    by (simp add: finish_def finish_line_def between_def)
  ultimately show ?thesis using p'(2) by (simp add: push_delta_def between_def)
qed

text \<open>
  C15: the two parsers agree on printed patches in which no move destination and no change context is empty or
  ends in white space. Streamed in any pieces, the text of such a patch
  gives the hunks it was printed from, both as the running preview and from \<open>finish\<close>, and
  they are the hunks the batch parser returns for the whole text.
\<close>

theorem streaming_agrees:
  assumes "\<forall>h \<in> set hs. hunk_ok h \<and> stream_hunk_ok h" "env_option_ok env"
    and "concat ds = render_patch env hs"
  shows "\<exists>p args. push_deltas default_parser ds = (Ok hs, p) \<and> fst (finish p) = Ok hs
    \<and> parse_patch (concat ds) = Ok args \<and> hunks args = hs"
  using stream_render_patch [OF assms(1,2)] parse_rendered_patch [of hs env] assms
  by (auto simp: push_deltas_eq)

theorem streaming_agrees_witness:
  "let hs = [UpdateFile (str ''a'') (Some (str ''b''))
       [\<lparr>change_context = Some (str ''fn f''), old_lines = [str ''x''], new_lines = [], is_end_of_file = True\<rparr>],
       DeleteFile (str ''c'')];
     ds = [take 20 (render_patch None hs), drop 20 (render_patch None hs)]
   in \<exists>p args. push_deltas default_parser ds = (Ok hs, p) \<and> fst (finish p) = Ok hs
    \<and> parse_patch (concat ds) = Ok args \<and> hunks args = hs"
  unfolding Let_def
  by (rule streaming_agrees)
    (simp_all add: path_ok_def line_ok_def chunk_ok_def chunk_has_lines_def env_option_ok_def
      ends_with_def strip_suffix_def str_Cons chr_def newline_def carriage_return_def is_whitespace_def)

text \<open>The condition is needed: the streaming parser trims a change context at its end, the batch parser keeps it.\<close>

lemma trailing_space_disagrees:
  "(case parse_update_file_chunk [str ''@@ f '', str ''-x''] 1 False of
      Ok (c, _) \<Rightarrow> change_context c = Some (str ''f '') | _ \<Rightarrow> False)
   \<and> (case process_update_body (str ''@@ f '') (trim_end (str ''@@ f '')) 1 None [] of
        Ok (_, [c]) \<Rightarrow> change_context c = Some (str ''f'') | _ \<Rightarrow> False)"
  by code_simp

theorem stream_finish_wf_witness:
  "\<exists>p. push_deltas default_parser [render_patch None [DeleteFile (str ''c'')]]
       = (Ok [DeleteFile (str ''c'')], p)
    \<and> list_all wf_hunk [DeleteFile (str ''c'')]"
proof -
  have "\<forall>h \<in> set [DeleteFile (str ''c'')]. hunk_ok h \<and> stream_hunk_ok h" "env_option_ok None"
    by (simp_all add: path_ok_def env_option_ok_def str_Cons chr_def newline_def is_whitespace_def)
  from stream_render_patch [OF this] obtain p where
    p: "push_deltas default_parser [render_patch None [DeleteFile (str ''c'')]] = (Ok [DeleteFile (str ''c'')], p)"
    "fst (finish p) = Ok [DeleteFile (str ''c'')]"
    by (auto simp: push_deltas_eq)
  from stream_finish_wf [OF p] p(1) show ?thesis by blast
qed

text \<open>
  \<open>finish\<close> accepts an end marker in every mode: a text that consists of the end marker alone
  finishes with no hunks, where the batch parser asks for the begin marker.
\<close>

lemma finish_without_begin:
  "fst (finish (snd (push_delta default_parser END_PATCH_MARKER))) = Ok []
   \<and> parse_patch END_PATCH_MARKER = Err (InvalidPatchError first_line_message)"
proof
  show "fst (finish (snd (push_delta default_parser END_PATCH_MARKER))) = Ok []"
    by (simp add: push_delta_def push_chars_buffer marker_lines finish_def finish_line_def
        ensure_update_hunk_is_not_empty_def default_parser_def last_opt_def end_line_def)
  show "parse_patch END_PATCH_MARKER = Err (InvalidPatchError first_line_message)"
    by code_simp
qed

end
