(* ===== verification/Bash_Script.thy ===== *)
theory Bash_Script
  imports Absolute_Path "HOL-Library.Multiset"
begin

text \<open>
  Reading the commands out of a shell script: \<open>codex-rs/shell-command/src/bash.rs\<close> and
  \<open>shell_detect.rs\<close>. The tree-sitter grammar is not part of the repository: the parse of a script
  is an argument that gives a syntax tree or nothing. A node has its kind, whether it is named,
  the byte it starts at, its text if that is valid UTF-8, and its children.
\<close>

section \<open>Syntax trees\<close>

datatype node = Node (kind: ustr) (is_named: bool) (start_byte: nat) (utf8_text: "ustr option") (children: "node list")

record tree =
  root_node :: node
  has_error :: bool

definition named_children :: "node \<Rightarrow> node list" where
  "named_children n = filter is_named (children n)"

lemma children_size: "c \<in> set (children n) \<Longrightarrow> size c < size n"
  by (cases n) (auto dest: size_list_estimation' [where f = size, OF _ order_refl])

lemma size_list_filter: "size_list size (filter P ns) \<le> size_list size ns" for ns :: "node list"
  by (induction ns) auto

lemma size_list_rev [simp]: "size_list size (rev ns) = size_list size ns" for ns :: "node list"
  by (induction ns) auto

lemma size_list_append [simp]: "size_list size (xs @ ys) = size_list size xs + size_list size ys" for xs :: "node list"
  by (induction xs) auto

lemma children_size_list: "size_list size (children n) < size n"
  by (cases n) simp

section \<open>Strings and words\<close>

definition dquote :: uchar where "dquote = 34"
definition squote :: uchar where "squote = 39"

definition strip_quotes :: "uchar \<Rightarrow> ustr \<Rightarrow> ustr option" where
  "strip_quotes q s = Option.bind (strip_prefix [q] s) (strip_suffix [q])"

definition parse_double_quoted_string :: "node \<Rightarrow> ustr option" where
  "parse_double_quoted_string n =
     (if kind n \<noteq> str ''string'' then None
      else if list_ex (\<lambda>part. kind part \<noteq> str ''string_content'') (named_children n) then None
      else Option.bind (utf8_text n) (strip_quotes dquote))"

definition parse_raw_string :: "node \<Rightarrow> ustr option" where
  "parse_raw_string n =
     (if kind n \<noteq> str ''raw_string'' then None
      else Option.bind (utf8_text n) (strip_quotes squote))"

fun concatenate_parts :: "node list \<Rightarrow> ustr \<Rightarrow> ustr option" where
  "concatenate_parts [] acc = Some acc"
| "concatenate_parts (part # parts) acc =
     (if kind part \<in> {str ''word'', str ''number''} then
        Option.bind (utf8_text part) (\<lambda>t. concatenate_parts parts (acc @ t))
      else if kind part = str ''string'' then
        Option.bind (parse_double_quoted_string part) (\<lambda>t. concatenate_parts parts (acc @ t))
      else if kind part = str ''raw_string'' then
        Option.bind (parse_raw_string part) (\<lambda>t. concatenate_parts parts (acc @ t))
      else None)"

definition first_named_child :: "node \<Rightarrow> node option" where
  "first_named_child n = (case named_children n of [] \<Rightarrow> None | c # _ \<Rightarrow> Some c)"

text \<open>One child of a command node, and the loop over them.\<close>

definition plain_word :: "node \<Rightarrow> ustr option" where
  "plain_word child =
     (if kind child = str ''command_name'' then
        Option.bind (first_named_child child) (\<lambda>word_node.
          if kind word_node \<noteq> str ''word'' then None else utf8_text word_node)
      else if kind child \<in> {str ''word'', str ''number''} then utf8_text child
      else if kind child = str ''string'' then parse_double_quoted_string child
      else if kind child = str ''raw_string'' then parse_raw_string child
      else if kind child = str ''concatenation'' then
        Option.bind (concatenate_parts (named_children child) []) (\<lambda>t. if t = [] then None else Some t)
      else None)"

fun collect_words :: "(node \<Rightarrow> ustr option) \<Rightarrow> node list \<Rightarrow> ustr list option" where
  "collect_words f [] = Some []"
| "collect_words f (c # cs) =
     Option.bind (f c) (\<lambda>w. Option.bind (collect_words f cs) (\<lambda>ws. Some (w # ws)))"

definition parse_plain_command_from_node :: "node \<Rightarrow> ustr list option" where
  "parse_plain_command_from_node cmd =
     (if kind cmd \<noteq> str ''command'' then None else collect_words plain_word (named_children cmd))"

section \<open>Word-only command sequences\<close>

definition ALLOWED_KINDS :: "ustr list" where
  "ALLOWED_KINDS =
     [str ''program'', str ''list'', str ''pipeline'', str ''command'', str ''command_name'', str ''word'',
      str ''string'', str ''string_content'', str ''raw_string'', str ''number'', str ''concatenation'']"

definition ALLOWED_PUNCT_TOKENS :: "ustr list" where
  "ALLOWED_PUNCT_TOKENS = [str ''&&'', str ''||'', str '';'', str ''|'', [dquote], [squote]]"

text \<open>The two tests a node has to pass: the named and the unnamed branch of the walk.\<close>

definition node_allowed :: "node \<Rightarrow> bool" where
  "node_allowed n \<longleftrightarrow>
     (if is_named n then kind n \<in> set ALLOWED_KINDS
      else
        \<not> (list_ex (\<lambda>c. c \<in> {chr CHR ''&'', chr CHR '';'', chr CHR ''|''}) (kind n)
           \<and> kind n \<notin> set ALLOWED_PUNCT_TOKENS)
        \<and> (kind n \<in> set ALLOWED_PUNCT_TOKENS \<or> trim (kind n) = []))"

text \<open>The walk pops the last node pushed; here the top of the stack is the head of the list.\<close>

function walk_commands :: "node list \<Rightarrow> node list \<Rightarrow> node list option" where
  "walk_commands [] command_nodes = Some command_nodes"
| "walk_commands (n # stack) command_nodes =
     (if \<not> node_allowed n then None
      else walk_commands (rev (children n) @ stack)
             (if is_named n \<and> kind n = str ''command'' then command_nodes @ [n] else command_nodes))"
  by pat_completeness auto
termination
proof (relation "measure (\<lambda>(stack, _). size_list size stack)")
  show "((rev (children n) @ stack, cs'), n # stack, cs) \<in> measure (\<lambda>(stack, _). size_list size stack)"
    for n stack cs cs' using children_size_list [of n] by simp
qed simp

definition try_parse_word_only_commands_sequence :: "tree \<Rightarrow> ustr list list option" where
  "try_parse_word_only_commands_sequence t =
     (if has_error t then None
      else Option.bind (walk_commands [root_node t] []) (\<lambda>command_nodes.
             those (map parse_plain_command_from_node (sort_key start_byte command_nodes))))"

section \<open>Here-documents\<close>

definition is_literal_word_or_number :: "node \<Rightarrow> bool" where
  "is_literal_word_or_number n \<longleftrightarrow>
     kind n \<in> {str ''word'', str ''number''} \<and> named_children n = []"

definition is_allowed_heredoc_attachment_kind :: "ustr \<Rightarrow> bool" where
  "is_allowed_heredoc_attachment_kind k \<longleftrightarrow>
     k \<in> {str ''heredoc_body'', str ''simple_heredoc_body'', str ''heredoc_redirect'',
           str ''herestring_redirect'', str ''redirected_statement''}"

fun heredoc_words :: "node list \<Rightarrow> ustr list \<Rightarrow> ustr list option" where
  "heredoc_words [] ws = Some ws"
| "heredoc_words (child # cs) ws =
     (if kind child = str ''command_name'' then
        Option.bind (first_named_child child) (\<lambda>word_node.
          if \<not> is_literal_word_or_number word_node then None
          else Option.bind (utf8_text word_node) (\<lambda>w. heredoc_words cs (ws @ [w])))
      else if kind child \<in> {str ''word'', str ''number''} then
        (if \<not> is_literal_word_or_number child then None
         else Option.bind (utf8_text child) (\<lambda>w. heredoc_words cs (ws @ [w])))
      else if kind child = str ''comment'' \<or> is_allowed_heredoc_attachment_kind (kind child)
      then heredoc_words cs ws
      else None)"

definition parse_heredoc_command_words :: "node \<Rightarrow> ustr list option" where
  "parse_heredoc_command_words cmd =
     (if kind cmd \<noteq> str ''command'' then None
      else Option.bind (heredoc_words (named_children cmd) []) (\<lambda>ws. if ws = [] then None else Some ws))"

lemma named_children_size_list: "size_list size (named_children n) < size n"
  using size_list_filter [of is_named "children n"] children_size_list [of n]
  by (simp add: named_children_def)

function find_single_command_loop :: "node list \<Rightarrow> node option \<Rightarrow> node option" where
  "find_single_command_loop [] single_command = single_command"
| "find_single_command_loop (n # stack) single_command =
     (if kind n = str ''command'' \<and> single_command \<noteq> None then None
      else find_single_command_loop (rev (named_children n) @ stack)
             (if kind n = str ''command'' then Some n else single_command))"
  by pat_completeness auto
termination
proof (relation "measure (\<lambda>(stack, _). size_list size stack)")
  show "((rev (named_children n) @ stack, r'), n # stack, r) \<in> measure (\<lambda>(stack, _). size_list size stack)"
    for n stack r r' using named_children_size_list [of n] by simp
qed simp

definition find_single_command_node :: "node \<Rightarrow> node option" where
  "find_single_command_node root = find_single_command_loop [root] None"

function has_kind_loop :: "node list \<Rightarrow> ustr \<Rightarrow> bool" where
  "has_kind_loop [] k \<longleftrightarrow> False"
| "has_kind_loop (n # stack) k \<longleftrightarrow> kind n = k \<or> has_kind_loop (rev (named_children n) @ stack) k"
  by pat_completeness auto
termination
proof (relation "measure (\<lambda>(stack, _). size_list size stack)")
  show "((rev (named_children n) @ stack, k), n # stack, k) \<in> measure (\<lambda>(stack, _). size_list size stack)"
    for n stack k using named_children_size_list [of n] by simp
qed simp

definition has_named_descendant_kind :: "node \<Rightarrow> ustr \<Rightarrow> bool" where
  "has_named_descendant_kind n k = has_kind_loop [n] k"

section \<open>Shell invocations\<close>

datatype shell_type = Zsh | Bash | PowerShell | Sh | Cmd

definition shell_of_name :: "ustr \<Rightarrow> shell_type option" where
  "shell_of_name s =
     (if s = str ''zsh'' then Some Zsh
      else if s = str ''sh'' then Some Sh
      else if s = str ''cmd'' then Some Cmd
      else if s = str ''bash'' then Some Bash
      else if s \<in> {str ''pwsh'', str ''powershell''} then Some PowerShell
      else None)"

function detect_shell_type :: "ustr \<Rightarrow> shell_type option" where
  "detect_shell_type shell_path =
     (case shell_of_name shell_path of
        Some t \<Rightarrow> Some t
      | None \<Rightarrow>
          (case file_stem shell_path of
             Some shell_name \<Rightarrow>
               if \<not> path_eq shell_name shell_path then detect_shell_type shell_name else None
           | None \<Rightarrow> None))"
  by pat_completeness auto
termination
  by (relation "measure length") (auto simp: path_eq_def dest: file_stem_shorter)

declare detect_shell_type.simps [simp del]

definition extract_bash_command :: "ustr list \<Rightarrow> (ustr \<times> ustr) option" where
  "extract_bash_command command =
     (case command of
        [shell, flag, script] \<Rightarrow>
          if flag \<notin> {str ''-lc'', str ''-c''} \<or> detect_shell_type shell \<notin> {Some Zsh, Some Bash, Some Sh}
          then None else Some (shell, script)
      | _ \<Rightarrow> None)"

definition parse_shell_lc_plain_commands :: "(ustr \<Rightarrow> tree option) \<Rightarrow> ustr list \<Rightarrow> ustr list list option" where
  "parse_shell_lc_plain_commands try_parse_shell command =
     Option.bind (extract_bash_command command) (\<lambda>(_, script).
     Option.bind (try_parse_shell script) try_parse_word_only_commands_sequence)"

definition parse_shell_lc_single_command_prefix :: "(ustr \<Rightarrow> tree option) \<Rightarrow> ustr list \<Rightarrow> ustr list option" where
  "parse_shell_lc_single_command_prefix try_parse_shell command =
     Option.bind (extract_bash_command command) (\<lambda>(_, script).
     Option.bind (try_parse_shell script) (\<lambda>t.
       let root = root_node t in
       if has_error t then None
       else if \<not> has_named_descendant_kind root (str ''heredoc_redirect'') then None
       else if has_named_descendant_kind root (str ''file_redirect'') then None
       else Option.bind (find_single_command_node root) parse_heredoc_command_words))"

section \<open>The walks visit every node\<close>

text \<open>The reference: the nodes of a tree, and those reached through named children only.\<close>

fun nodes :: "node \<Rightarrow> node list" where
  "nodes (Node k nm st tx cs) = Node k nm st tx cs # concat (map nodes cs)"

fun named_nodes :: "node \<Rightarrow> node list" where
  "named_nodes (Node k nm st tx cs) = Node k nm st tx cs # concat (map named_nodes (filter is_named cs))"

lemma nodes_unfold: "nodes n = n # concat (map nodes (children n))"
  by (cases n) simp

lemma named_nodes_unfold: "named_nodes n = n # concat (map named_nodes (named_children n))"
  by (cases n) (simp add: named_children_def)

definition is_command :: "node \<Rightarrow> bool" where
  "is_command n \<longleftrightarrow> is_named n \<and> kind n = str ''command''"

lemma mset_concat_rev: "mset (concat (map f (rev xs))) = mset (concat (map f xs))"
  by (induction xs) simp_all

lemma walk_commands_correct:
  "(case walk_commands stack acc of
      None \<Rightarrow> \<exists>n \<in> set (concat (map nodes stack)). \<not> node_allowed n
    | Some cs \<Rightarrow> (\<forall>n \<in> set (concat (map nodes stack)). node_allowed n)
        \<and> mset cs = mset acc + mset (filter is_command (concat (map nodes stack))))"
proof (induction stack acc rule: walk_commands.induct)
  case (2 n stack acc)
  show ?case
  proof (cases "node_allowed n")
    case False
    then show ?thesis by (auto simp: nodes_unfold [of n])
  next
    case True
    let ?acc = "if is_named n \<and> kind n = str ''command'' then acc @ [n] else acc"
    have sets: "set (concat (map nodes (n # stack))) =
        insert n (set (concat (map nodes (rev (children n) @ stack))))"
      by (auto simp: nodes_unfold [of n])
    have msets: "mset acc + mset (filter is_command (concat (map nodes (n # stack)))) =
        mset ?acc + mset (filter is_command (concat (map nodes (rev (children n) @ stack))))"
      by (simp add: nodes_unfold [of n] is_command_def filter_concat mset_concat_rev)
    have step: "walk_commands (n # stack) acc = walk_commands (rev (children n) @ stack) ?acc"
      using True by simp
    have "case walk_commands (rev (children n) @ stack) ?acc of
        None \<Rightarrow> \<exists>n \<in> set (concat (map nodes (rev (children n) @ stack))). \<not> node_allowed n
      | Some cs \<Rightarrow> (\<forall>n \<in> set (concat (map nodes (rev (children n) @ stack))). node_allowed n)
          \<and> mset cs = mset ?acc + mset (filter is_command (concat (map nodes (rev (children n) @ stack))))"
      using "2.IH" True by simp
    with True show ?thesis unfolding sets msets step
      by (cases "walk_commands (rev (children n) @ stack) ?acc") (simp_all only: option.case, blast+)
  qed
qed simp

abbreviation command_kind :: "node \<Rightarrow> bool" where
  "command_kind n \<equiv> kind n = str ''command''"

lemma find_single_command_loop_iff:
  "find_single_command_loop stack r = Some c \<longleftrightarrow>
     (r = None \<and> mset (filter command_kind (concat (map named_nodes stack))) = {#c#})
   \<or> (r = Some c \<and> filter command_kind (concat (map named_nodes stack)) = [])"
proof (induction stack r rule: find_single_command_loop.induct)
  case (2 n stack r)
  have m: "mset (filter command_kind (concat (map named_nodes (n # stack)))) =
      (if command_kind n then {#n#} else {#})
      + mset (filter command_kind (concat (map named_nodes (rev (named_children n) @ stack))))"
    by (simp add: named_nodes_unfold [of n] filter_concat mset_concat_rev)
  have empty: "filter command_kind (concat (map named_nodes (n # stack))) = [] \<longleftrightarrow>
      \<not> command_kind n \<and> filter command_kind (concat (map named_nodes (rev (named_children n) @ stack))) = []"
    by (auto simp: filter_empty_conv named_nodes_unfold [of n])
  define L where "L = filter command_kind (concat (map named_nodes (rev (named_children n) @ stack)))"
  have step: "find_single_command_loop (n # stack) r =
      (if command_kind n \<and> r \<noteq> None then None
       else find_single_command_loop (rev (named_children n) @ stack) (if command_kind n then Some n else r))"
    by simp
  show ?case
    using 2 unfolding m empty step L_def [symmetric] by (cases "command_kind n"; cases r) auto
qed auto

lemma has_kind_loop_iff:
  "has_kind_loop stack k \<longleftrightarrow> (\<exists>n \<in> set (concat (map named_nodes stack)). kind n = k)"
proof (induction stack k rule: has_kind_loop.induct)
  case (2 n stack k)
  then show ?case by (auto simp: named_nodes_unfold [of n])
qed simp

text \<open>
  A script is split into plain commands only if every node of its syntax tree, at any
  depth, is on the allow list; then the result has one word list per command node of the tree,
  in the order of the source. No command of an accepted script escapes the list.
\<close>

theorem word_only_commands_complete:
  assumes "try_parse_word_only_commands_sequence t = Some cmds"
  shows "\<not> has_error t \<and> (\<forall>n \<in> set (nodes (root_node t)). node_allowed n)
    \<and> (\<exists>cs. mset cs = mset (filter is_command (nodes (root_node t))) \<and> sorted (map start_byte cs)
         \<and> map parse_plain_command_from_node cs = map Some cmds)"
proof -
  from assms obtain ns where ns: "walk_commands [root_node t] [] = Some ns"
    and words: "those (map parse_plain_command_from_node (sort_key start_byte ns)) = Some cmds"
    and err: "\<not> has_error t"
    by (auto simp: try_parse_word_only_commands_sequence_def bind_eq_Some_conv split: if_splits)
  have those: "those xs = Some ys \<Longrightarrow> xs = map Some ys" for xs :: "'a option list" and ys
    by (induction xs arbitrary: ys) (auto split: option.splits)
  have "mset ns = mset (filter is_command (nodes (root_node t)))"
    and "\<forall>n \<in> set (nodes (root_node t)). node_allowed n"
    using walk_commands_correct [of "[root_node t]" "[]"] ns by simp_all
  then show ?thesis
    using err those [OF words] by (intro conjI exI [of _ "sort_key start_byte ns"]) simp_all
qed

definition word_node :: "string \<Rightarrow> nat \<Rightarrow> node" where
  "word_node w at = Node (str ''word'') True at (Some (str w)) []"

definition command_node :: "string \<Rightarrow> nat \<Rightarrow> node" where
  "command_node w at = Node (str ''command'') True at (Some (str w))
     [Node (str ''command_name'') True at (Some (str w)) [word_node w at]]"

definition two_commands :: tree where
  "two_commands = \<lparr>root_node = Node (str ''program'') True 0 None
     [Node (str ''list'') True 0 None
       [command_node ''ls'' 0, Node (str ''&&'') False 3 None [], command_node ''pwd'' 6]],
     has_error = False\<rparr>"

theorem word_only_commands_complete_witness:
  "try_parse_word_only_commands_sequence two_commands = Some [[str ''ls''], [str ''pwd'']]
    \<and> \<not> has_error two_commands \<and> list_all node_allowed (nodes (root_node two_commands))
    \<and> (\<exists>cs. mset cs = mset (filter is_command (nodes (root_node two_commands))) \<and> sorted (map start_byte cs)
         \<and> map parse_plain_command_from_node cs = map Some [[str ''ls''], [str ''pwd'']])"
proof -
  have "try_parse_word_only_commands_sequence two_commands = Some [[str ''ls''], [str ''pwd'']]" by code_simp
  with word_only_commands_complete [OF this] show ?thesis by (simp only: list_all_iff) blast
qed

end
