(* ===== verification/Command_Safety.thy ===== *)
theory Command_Safety
  imports Bash_Script
begin

text \<open>
  The built-in safety heuristics of \<open>codex-rs/shell-command/src/command_safety\<close>:
  \<open>is_safe_command.rs\<close> (commands that run without asking) and \<open>is_dangerous_command.rs\<close>
  (commands that always ask), on Linux. The branches under \<open>cfg(windows)\<close> are not modelled; the
  script parser of \<open>Bash_Script\<close> takes the tree-sitter parse as an argument.
\<close>

section \<open>Git\<close>

definition executable_name_lookup_key :: "ustr \<Rightarrow> ustr option" where
  "executable_name_lookup_key raw = file_name raw"

definition is_git_global_option_with_value :: "ustr \<Rightarrow> bool" where
  "is_git_global_option_with_value arg \<longleftrightarrow>
     arg \<in> {str ''-C'', str ''-c'', str ''--config-env'', str ''--exec-path'', str ''--git-dir'',
             str ''--namespace'', str ''--super-prefix'', str ''--work-tree''}"

definition is_git_global_option_with_inline_value :: "ustr \<Rightarrow> bool" where
  "is_git_global_option_with_inline_value arg \<longleftrightarrow>
     starts_with (str ''--config-env='') arg \<or> starts_with (str ''--exec-path='') arg
     \<or> starts_with (str ''--git-dir='') arg \<or> starts_with (str ''--namespace='') arg
     \<or> starts_with (str ''--super-prefix='') arg \<or> starts_with (str ''--work-tree='') arg
     \<or> ((starts_with (str ''-C'') arg \<or> starts_with (str ''-c'') arg) \<and> 2 < length arg)"

text \<open>The loop of \<open>find_git_subcommand\<close> over \<open>command.iter().enumerate().skip(1)\<close>.\<close>

fun find_subcommand_loop :: "ustr list \<Rightarrow> nat \<Rightarrow> bool \<Rightarrow> ustr list \<Rightarrow> (nat \<times> ustr) option" where
  "find_subcommand_loop [] idx skip_next subcommands = None"
| "find_subcommand_loop (arg # args) idx skip_next subcommands =
     (if skip_next then find_subcommand_loop args (Suc idx) False subcommands
      else if is_git_global_option_with_inline_value arg then
        find_subcommand_loop args (Suc idx) False subcommands
      else if is_git_global_option_with_value arg then
        find_subcommand_loop args (Suc idx) True subcommands
      else if arg = str ''--'' \<or> starts_with (str ''-'') arg then
        find_subcommand_loop args (Suc idx) False subcommands
      else if arg \<in> set subcommands then Some (idx, arg)
      else None)"

definition find_git_subcommand :: "ustr list \<Rightarrow> ustr list \<Rightarrow> (nat \<times> ustr) option" where
  "find_git_subcommand command subcommands =
     (case command of
        [] \<Rightarrow> None
      | cmd0 # args \<Rightarrow>
          if executable_name_lookup_key cmd0 \<noteq> Some (str ''git'') then None
          else find_subcommand_loop args 1 False subcommands)"

datatype git_option_pattern = Exact ustr | ShortWithInlineValue ustr | Prefix ustr

fun git_option_matches :: "git_option_pattern \<Rightarrow> ustr \<Rightarrow> bool" where
  "git_option_matches (Exact option) arg \<longleftrightarrow> arg = option"
| "git_option_matches (ShortWithInlineValue option) arg \<longleftrightarrow> starts_with option arg \<and> length option < length arg"
| "git_option_matches (Prefix prefix) arg \<longleftrightarrow> starts_with prefix arg"

definition UNSAFE_GIT_GLOBAL_OPTIONS :: "git_option_pattern list" where
  "UNSAFE_GIT_GLOBAL_OPTIONS =
     [Exact (str ''-C''), ShortWithInlineValue (str ''-C''), Exact (str ''-c''), ShortWithInlineValue (str ''-c''),
      Exact (str ''-p''), Exact (str ''--config-env''), Prefix (str ''--config-env=''),
      Exact (str ''--exec-path''), Prefix (str ''--exec-path=''), Exact (str ''--git-dir''),
      Prefix (str ''--git-dir=''), Exact (str ''--namespace''), Prefix (str ''--namespace=''),
      Exact (str ''--paginate''), Exact (str ''--super-prefix''), Prefix (str ''--super-prefix=''),
      Exact (str ''--work-tree''), Prefix (str ''--work-tree='')]"

definition UNSAFE_GIT_SUBCOMMAND_OPTIONS :: "git_option_pattern list" where
  "UNSAFE_GIT_SUBCOMMAND_OPTIONS =
     [Exact (str ''--output''), Prefix (str ''--output=''), Exact (str ''--ext-diff''),
      Exact (str ''--textconv''), Exact (str ''--exec''), Prefix (str ''--exec='')]"

definition git_matches_option_pattern :: "ustr \<Rightarrow> git_option_pattern list \<Rightarrow> bool" where
  "git_matches_option_pattern arg patterns \<longleftrightarrow> list_ex (\<lambda>p. git_option_matches p arg) patterns"

definition git_has_unsafe_global_option :: "ustr list \<Rightarrow> bool" where
  "git_has_unsafe_global_option args \<longleftrightarrow>
     list_ex (\<lambda>arg. git_matches_option_pattern arg UNSAFE_GIT_GLOBAL_OPTIONS) args"

definition git_subcommand_args_are_read_only :: "ustr list \<Rightarrow> bool" where
  "git_subcommand_args_are_read_only args \<longleftrightarrow>
     \<not> list_ex (\<lambda>arg. git_matches_option_pattern arg UNSAFE_GIT_SUBCOMMAND_OPTIONS) args"

definition is_read_only_branch_arg :: "ustr \<Rightarrow> bool" where
  "is_read_only_branch_arg arg \<longleftrightarrow>
     arg \<in> {str ''--list'', str ''-l'', str ''--show-current'', str ''-a'', str ''--all'', str ''-r'',
             str ''--remotes'', str ''-v'', str ''-vv'', str ''--verbose''}
     \<or> starts_with (str ''--format='') arg"

fun branch_args_loop :: "ustr list \<Rightarrow> bool \<Rightarrow> bool" where
  "branch_args_loop [] saw_read_only_flag = saw_read_only_flag"
| "branch_args_loop (arg # args) saw_read_only_flag =
     (if is_read_only_branch_arg arg then branch_args_loop args True else False)"

definition git_branch_is_read_only :: "ustr list \<Rightarrow> bool" where
  "git_branch_is_read_only branch_args \<longleftrightarrow> branch_args = [] \<or> branch_args_loop branch_args False"

definition read_only_subcommands :: "ustr list" where
  "read_only_subcommands = [str ''status'', str ''log'', str ''diff'', str ''show'', str ''branch'']"

text \<open>The slices \<open>command[1..idx]\<close> and \<open>command[idx + 1..]\<close>; out of range they would panic.\<close>

definition is_safe_git_command :: "ustr list \<Rightarrow> (bool, unit) outcome" where
  "is_safe_git_command command =
     (case find_git_subcommand command read_only_subcommands of
        None \<Rightarrow> Ok False
      | Some (subcommand_idx, subcommand) \<Rightarrow>
          obind (slice_range 1 subcommand_idx command) (\<lambda>global_args.
            if git_has_unsafe_global_option global_args then Ok False
            else obind (slice_from (subcommand_idx + 1) command) (\<lambda>subcommand_args.
              if subcommand \<in> {str ''status'', str ''log'', str ''diff'', str ''show''} then
                Ok (git_subcommand_args_are_read_only subcommand_args)
              else if subcommand = str ''branch'' then
                Ok (git_subcommand_args_are_read_only subcommand_args \<and> git_branch_is_read_only subcommand_args)
              else Ok False)))"

section \<open>Safe commands\<close>

definition all_digits :: "ustr \<Rightarrow> bool" where
  "all_digits s \<longleftrightarrow> s \<noteq> [] \<and> list_all is_ascii_digit s"

definition is_valid_sed_n_arg :: "ustr option \<Rightarrow> bool" where
  "is_valid_sed_n_arg arg =
     (case arg of
        None \<Rightarrow> False
      | Some s \<Rightarrow>
          (case strip_suffix (str ''p'') s of
             None \<Rightarrow> False
           | Some core \<Rightarrow>
               (case split_on (chr CHR '','') core of
                  [num] \<Rightarrow> all_digits num
                | [a, b] \<Rightarrow> all_digits a \<and> all_digits b
                | _ \<Rightarrow> False)))"

definition always_safe_names :: "ustr list" where
  "always_safe_names =
     [str ''cat'', str ''cd'', str ''cut'', str ''echo'', str ''expr'', str ''false'', str ''grep'', str ''head'',
      str ''id'', str ''ls'', str ''nl'', str ''paste'', str ''pwd'', str ''rev'', str ''seq'', str ''stat'',
      str ''tail'', str ''tr'', str ''true'', str ''uname'', str ''uniq'', str ''wc'', str ''which'', str ''whoami'']"

definition base64_arg_unsafe :: "ustr \<Rightarrow> bool" where
  "base64_arg_unsafe arg \<longleftrightarrow>
     arg \<in> {str ''-o'', str ''--output''} \<or> starts_with (str ''--output='') arg
     \<or> (starts_with (str ''-o'') arg \<and> arg \<noteq> str ''-o'')"

definition UNSAFE_FIND_OPTIONS :: "ustr list" where
  "UNSAFE_FIND_OPTIONS =
     [str ''-exec'', str ''-execdir'', str ''-ok'', str ''-okdir'', str ''-delete'',
      str ''-fls'', str ''-fprint'', str ''-fprint0'', str ''-fprintf'']"

definition ripgrep_arg_unsafe :: "ustr \<Rightarrow> bool" where
  "ripgrep_arg_unsafe arg \<longleftrightarrow>
     arg \<in> {str ''--search-zip'', str ''-z''}
     \<or> list_ex (\<lambda>opt. arg = opt \<or> starts_with (opt @ str ''='') arg) [str ''--pre'', str ''--hostname-bin'']"

definition is_safe_to_call_with_exec :: "ustr list \<Rightarrow> (bool, unit) outcome" where
  "is_safe_to_call_with_exec command =
     (case command of
        [] \<Rightarrow> Ok False
      | cmd0 # args \<Rightarrow>
          (case executable_name_lookup_key cmd0 of
             None \<Rightarrow> Ok False
           | Some cmd \<Rightarrow>
               if cmd \<in> {str ''numfmt'', str ''tac''} then Ok True
               else if cmd \<in> set always_safe_names then Ok True
               else if cmd = str ''base64'' then Ok (\<not> list_ex base64_arg_unsafe args)
               else if cmd = str ''find'' then Ok (\<not> list_ex (\<lambda>arg. arg \<in> set UNSAFE_FIND_OPTIONS) command)
               else if cmd = str ''rg'' then Ok (\<not> list_ex ripgrep_arg_unsafe command)
               else if cmd = str ''git'' then is_safe_git_command command
               else if cmd = str ''sed'' then
                 Ok (length command \<le> 4 \<and> vec_get command 1 = Some (str ''-n'')
                     \<and> is_valid_sed_n_arg (vec_get command 2))
               else Ok False))"

definition zsh_to_bash :: "ustr \<Rightarrow> ustr" where
  "zsh_to_bash s = (if s = str ''zsh'' then str ''bash'' else s)"

definition all_safe :: "ustr list list \<Rightarrow> (bool, unit) outcome" where
  "all_safe cmds = foldr (\<lambda>cmd rest. obind (is_safe_to_call_with_exec cmd) (\<lambda>ok. if ok then rest else Ok False)) cmds (Ok True)"

definition is_known_safe_command :: "(ustr \<Rightarrow> tree option) \<Rightarrow> ustr list \<Rightarrow> (bool, unit) outcome" where
  "is_known_safe_command try_parse_shell cmd =
     (let command = map zsh_to_bash cmd in
      obind (is_safe_to_call_with_exec command) (\<lambda>ok.
        if ok then Ok True
        else (case parse_shell_lc_plain_commands try_parse_shell command of
                Some all_commands \<Rightarrow> if all_commands \<noteq> [] then all_safe all_commands else Ok False
              | None \<Rightarrow> Ok False)))"

section \<open>Dangerous commands\<close>

fun is_dangerous_to_call_with_exec :: "ustr list \<Rightarrow> bool" where
  "is_dangerous_to_call_with_exec [] = False"
| "is_dangerous_to_call_with_exec (cmd0 # args) =
     (if cmd0 = str ''rm'' then vec_get (cmd0 # args) 1 \<in> {Some (str ''-f''), Some (str ''-rf'')}
      else if cmd0 = str ''sudo'' then is_dangerous_to_call_with_exec args
      else False)"

definition command_might_be_dangerous :: "(ustr \<Rightarrow> tree option) \<Rightarrow> ustr list \<Rightarrow> bool" where
  "command_might_be_dangerous try_parse_shell command \<longleftrightarrow>
     is_dangerous_to_call_with_exec command
     \<or> (case parse_shell_lc_plain_commands try_parse_shell command of
          Some all_commands \<Rightarrow> list_ex is_dangerous_to_call_with_exec all_commands
        | None \<Rightarrow> False)"

section \<open>Git commands\<close>

lemma find_subcommand_loop_Some:
  "find_subcommand_loop args idx skip subs = Some (k, sub) \<Longrightarrow>
   idx \<le> k \<and> k - idx < length args \<and> args ! (k - idx) = sub \<and> sub \<in> set subs"
proof (induction args idx skip subs rule: find_subcommand_loop.induct)
  case (2 arg args idx skip subs)
  show ?case
  proof (cases "k = idx")
    case True
    with 2 show ?thesis by (auto split: if_splits)
  next
    case False
    with "2.prems" obtain skip' where "find_subcommand_loop args (Suc idx) skip' subs = Some (k, sub)"
      by (auto split: if_splits)
    with 2 False have "Suc idx \<le> k \<and> k - Suc idx < length args \<and> args ! (k - Suc idx) = sub \<and> sub \<in> set subs"
      by (auto split: if_splits)
    then show ?thesis by (auto simp: nth_Cons')
  qed
qed simp

lemma find_git_subcommand_Some:
  assumes "find_git_subcommand command subs = Some (i, sub)"
  shows "1 \<le> i" "i < length command" "command ! i = sub" "sub \<in> set subs"
  using assms find_subcommand_loop_Some [of "tl command" 1 False subs i sub]
  by (auto simp: find_git_subcommand_def nth_Cons' split: list.splits if_splits)

lemma unsafe_value_options:
  "is_git_global_option_with_value arg \<Longrightarrow> git_matches_option_pattern arg UNSAFE_GIT_GLOBAL_OPTIONS"
  by (auto simp: is_git_global_option_with_value_def git_matches_option_pattern_def UNSAFE_GIT_GLOBAL_OPTIONS_def)

lemma unsafe_inline_options:
  "is_git_global_option_with_inline_value arg \<Longrightarrow> git_matches_option_pattern arg UNSAFE_GIT_GLOBAL_OPTIONS"
  by (auto simp: is_git_global_option_with_inline_value_def git_matches_option_pattern_def UNSAFE_GIT_GLOBAL_OPTIONS_def)

text \<open>Without an unsafe global option, everything in front of the subcommand is a lone flag.\<close>

lemma find_subcommand_loop_flags:
  assumes "find_subcommand_loop args idx False subs = Some (k, sub)"
    and "\<forall>a \<in> set (take (k - idx) args). \<not> git_matches_option_pattern a UNSAFE_GIT_GLOBAL_OPTIONS"
  shows "\<forall>a \<in> set (take (k - idx) args). starts_with (str ''-'') a"
  using assms
proof (induction args arbitrary: idx)
  case (Cons a args)
  have "idx \<le> k" using find_subcommand_loop_Some [OF Cons.prems(1)] by simp
  show ?case
  proof (cases "k = idx")
    case False
    with \<open>idx \<le> k\<close> have k: "k - idx = Suc (k - Suc idx)" by simp
    have safe: "\<not> is_git_global_option_with_inline_value a" "\<not> is_git_global_option_with_value a"
      using Cons.prems(2) k unsafe_value_options unsafe_inline_options by auto
    with Cons.prems(1) False have "find_subcommand_loop args (Suc idx) False subs = Some (k, sub)"
      and "starts_with (str ''-'') a"
      by (auto split: if_splits simp: starts_with_def str_Cons)
    with Cons.IH [of "Suc idx"] Cons.prems(2) k show ?thesis by simp
  qed simp
qed simp

lemma is_safe_git_command_no_panic: "is_safe_git_command c \<noteq> Panic"
  by (auto simp: is_safe_git_command_def obind_iffs slice_range_def split: option.splits
      dest: find_git_subcommand_Some)

lemma is_safe_to_call_no_panic: "is_safe_to_call_with_exec c \<noteq> Panic"
  by (simp add: is_safe_to_call_with_exec_def is_safe_git_command_no_panic split: list.splits option.splits)

lemma is_known_safe_command_no_panic: "is_known_safe_command try_parse_shell c \<noteq> Panic"
proof -
  have "all_safe cs \<noteq> Panic" for cs
    by (induction cs) (use is_safe_to_call_no_panic in \<open>auto simp: all_safe_def obind_iffs split: if_splits\<close>)
  then show ?thesis
    using is_safe_to_call_no_panic
    by (auto simp: is_known_safe_command_def Let_def obind_iffs split: option.splits if_splits)
qed

text \<open>
  A git command that is auto-approved is a plain read-only call. Its subcommand is one of
  the read-only ones; every argument in front of it is a flag without a value and none is an
  option that redirects git to another repository, configuration, pager or program; and no
  argument after it writes a file or runs a program.
\<close>

theorem safe_git_command_plain:
  assumes "is_safe_git_command command = Ok True"
  shows "\<exists>i. 1 \<le> i \<and> i < length command \<and> command ! i \<in> set read_only_subcommands
    \<and> (\<forall>a \<in> set (take (i - 1) (tl command)).
         starts_with (str ''-'') a \<and> \<not> git_matches_option_pattern a UNSAFE_GIT_GLOBAL_OPTIONS)
    \<and> (\<forall>a \<in> set (drop (i + 1) command). \<not> git_matches_option_pattern a UNSAFE_GIT_SUBCOMMAND_OPTIONS)
    \<and> (command ! i = str ''branch'' \<longrightarrow> (\<forall>a \<in> set (drop (i + 1) command). is_read_only_branch_arg a))"
proof -
  from assms obtain i sub where f: "find_git_subcommand command read_only_subcommands = Some (i, sub)"
    by (auto simp: is_safe_git_command_def split: option.splits)
  note i = find_git_subcommand_Some [OF f]
  from assms f i have global: "\<not> git_has_unsafe_global_option (take (i - 1) (drop 1 command))"
    and args: "git_subcommand_args_are_read_only (drop (i + 1) command)"
    and branch: "sub = str ''branch'' \<Longrightarrow> git_branch_is_read_only (drop (i + 1) command)"
    by (auto simp: is_safe_git_command_def obind_iffs slice_range_def split: if_splits)
  from f have "find_subcommand_loop (tl command) 1 False read_only_subcommands = Some (i, sub)"
    by (auto simp: find_git_subcommand_def split: list.splits if_splits)
  with global have flags: "\<forall>a \<in> set (take (i - 1) (tl command)). starts_with (str ''-'') a"
    by (intro find_subcommand_loop_flags) (auto simp: git_has_unsafe_global_option_def list_ex_iff drop_Suc)
  have loop: "branch_args_loop as saw \<Longrightarrow> \<forall>a \<in> set as. is_read_only_branch_arg a" for as saw
    by (induction as saw rule: branch_args_loop.induct) (auto split: if_splits)
  show ?thesis
    using i global args flags branch loop
    by (intro exI [of _ i]) (auto simp: git_has_unsafe_global_option_def git_subcommand_args_are_read_only_def
        git_branch_is_read_only_def list_ex_iff drop_Suc)
qed

theorem safe_git_command_plain_witness:
  "\<exists>i. 1 \<le> i \<and> i < length [str ''/usr/bin/git'', str ''--no-pager'', str ''log'', str ''-p'']
    \<and> [str ''/usr/bin/git'', str ''--no-pager'', str ''log'', str ''-p''] ! i \<in> set read_only_subcommands
    \<and> (\<forall>a \<in> set (take (i - 1) (tl [str ''/usr/bin/git'', str ''--no-pager'', str ''log'', str ''-p''])).
         starts_with (str ''-'') a \<and> \<not> git_matches_option_pattern a UNSAFE_GIT_GLOBAL_OPTIONS)
    \<and> (\<forall>a \<in> set (drop (i + 1) [str ''/usr/bin/git'', str ''--no-pager'', str ''log'', str ''-p'']).
         \<not> git_matches_option_pattern a UNSAFE_GIT_SUBCOMMAND_OPTIONS)
    \<and> ([str ''/usr/bin/git'', str ''--no-pager'', str ''log'', str ''-p''] ! i = str ''branch'' \<longrightarrow>
         (\<forall>a \<in> set (drop (i + 1) [str ''/usr/bin/git'', str ''--no-pager'', str ''log'', str ''-p'']).
            is_read_only_branch_arg a))"
  by (rule safe_git_command_plain) code_simp

section \<open>The sed argument\<close>

text \<open>
  The argument check of \<open>sed -n\<close> accepts exactly the texts that the regular expression
  \<open>^(\d+,)?\d+p$\<close> of its comment describes.
\<close>

theorem is_valid_sed_n_arg_iff:
  "is_valid_sed_n_arg (Some s) \<longleftrightarrow>
     (\<exists>a. all_digits a \<and> s = a @ str ''p'') \<or> (\<exists>a b. all_digits a \<and> all_digits b \<and> s = a @ str '','' @ b @ str ''p'')"
proof -
  let ?c = "chr CHR '',''"
  have nc: "?c \<notin> set a" if "all_digits a" for a
    using that by (auto simp: all_digits_def list_all_iff is_ascii_digit_def chr_def)
  have one: "split_on ?c core = [num] \<longleftrightarrow> core = num \<and> ?c \<notin> set num" for core num
    using join_split_on [of ?c core] split_on_pieces [of num ?c core] split_on_notin [of ?c num] by auto
  have two: "split_on ?c core = [a, b] \<longleftrightarrow> core = a @ ?c # b \<and> ?c \<notin> set a \<and> ?c \<notin> set b" for core a b
  proof
    assume l: "split_on ?c core = [a, b]"
    show "core = a @ ?c # b \<and> ?c \<notin> set a \<and> ?c \<notin> set b"
      using join_split_on [of ?c core] split_on_pieces [of a ?c core] split_on_pieces [of b ?c core] l by simp
  next
    assume "core = a @ ?c # b \<and> ?c \<notin> set a \<and> ?c \<notin> set b"
    then show "split_on ?c core = [a, b]"
      using split_on_append [of ?c a b] split_on_notin [of ?c b] by simp
  qed
  have core: "(case split_on ?c core of [num] \<Rightarrow> all_digits num | [a, b] \<Rightarrow> all_digits a \<and> all_digits b | _ \<Rightarrow> False)
      \<longleftrightarrow> all_digits core \<or> (\<exists>a b. core = a @ ?c # b \<and> all_digits a \<and> all_digits b)" (is "?l \<longleftrightarrow> ?r") for core
  proof
    assume ?l
    then consider num where "split_on ?c core = [num]" "all_digits num"
      | a b where "split_on ?c core = [a, b]" "all_digits a" "all_digits b"
      by (auto split: list.splits)
    then show ?r
    proof cases
      case (1 num)
      then show ?thesis using one [of core num] by simp
    next
      case (2 a b)
      then show ?thesis using two [of core a b] by blast
    qed
  next
    assume ?r
    then consider "all_digits core" | a b where "core = a @ ?c # b" "all_digits a" "all_digits b" by blast
    then show ?l
    proof cases
      case 1
      then show ?thesis using one [of core core] nc [of core] by simp
    next
      case (2 a b)
      then show ?thesis using two [of core a b] nc [of a] nc [of b] by simp
    qed
  qed
  have "is_valid_sed_n_arg (Some s) \<longleftrightarrow> (\<exists>core. s = core @ str ''p'' \<and>
      (all_digits core \<or> (\<exists>a b. core = a @ ?c # b \<and> all_digits a \<and> all_digits b)))"
  proof (cases "strip_suffix (str ''p'') s")
    case None
    then show ?thesis using strip_suffix_None_iff [of "str ''p''" s] by (simp add: is_valid_sed_n_arg_def)
  next
    case (Some core)
    then have "s = core @ str ''p''" by (simp add: strip_suffix_Some_iff)
    with Some show ?thesis by (simp add: is_valid_sed_n_arg_def core)
  qed
  then show ?thesis by (auto simp: str_Cons)
qed

section \<open>Safe and dangerous exclude each other\<close>

definition safe_names :: "ustr list" where
  "safe_names = always_safe_names @
     [str ''numfmt'', str ''tac'', str ''base64'', str ''find'', str ''rg'', str ''git'', str ''sed'']"

lemma safe_names_facts:
  "list_all (\<lambda>n. stem n = n \<and> file_name n = Some n \<and> shell_of_name n = None
     \<and> n \<notin> {str ''rm'', str ''sudo'', str ''bash'', str ''zsh'', str ''sh'', str ''cmd'', str ''pwsh'', str ''powershell''})
   safe_names"
  by code_simp

lemma shell_names_facts:
  "list_all (\<lambda>n. file_name n = Some n)
     [str ''rm'', str ''sudo'', str ''bash'', str ''zsh'', str ''sh'', str ''cmd'', str ''pwsh'', str ''powershell'']"
  by code_simp

lemma is_safe_name:
  assumes "is_safe_to_call_with_exec (c # args) = Ok True"
  shows "\<exists>n \<in> set safe_names. file_name c = Some n"
  using assms
  by (auto simp: is_safe_to_call_with_exec_def executable_name_lookup_key_def safe_names_def
      split: option.splits if_splits)

lemma safe_name_not_shell:
  assumes "file_name c = Some n" "n \<in> set safe_names"
  shows "detect_shell_type c = None"
    and "c \<notin> {str ''rm'', str ''sudo'', str ''zsh''}"
proof -
  have n: "stem n = n" "file_name n = Some n" "shell_of_name n = None"
    "n \<notin> {str ''rm'', str ''sudo'', str ''bash'', str ''zsh'', str ''sh'', str ''cmd'', str ''pwsh'', str ''powershell''}"
    using safe_names_facts assms(2) by (auto simp: list_all_iff)
  have c: "c \<notin> {str ''rm'', str ''sudo'', str ''bash'', str ''zsh'', str ''sh'', str ''cmd'', str ''pwsh'', str ''powershell''}"
    using shell_names_facts assms(1) n(4) by auto
  then have "shell_of_name c = None" by (simp add: shell_of_name_def)
  moreover have "detect_shell_type n = None"
    using n by (subst detect_shell_type.simps) (simp add: file_stem_def path_eq_def)
  ultimately show "detect_shell_type c = None"
    using assms(1) n(1) by (subst detect_shell_type.simps) (simp add: file_stem_def)
  show "c \<notin> {str ''rm'', str ''sudo'', str ''zsh''}" using c by simp
qed

lemma safe_not_dangerous_exec:
  assumes "is_safe_to_call_with_exec c = Ok True"
  shows "\<not> is_dangerous_to_call_with_exec c"
proof (cases c)
  case (Cons c0 args)
  with assms is_safe_name [of c0 args] safe_name_not_shell(2) [of c0] show ?thesis by auto
qed simp

lemma all_safe_iff: "all_safe cmds = Ok True \<longleftrightarrow> (\<forall>c \<in> set cmds. is_safe_to_call_with_exec c = Ok True)"
  by (induction cmds) (auto simp: all_safe_def obind_iffs split: if_splits)

lemma detect_rm_sudo: "detect_shell_type (str ''rm'') = None \<and> detect_shell_type (str ''sudo'') = None"
  by code_simp

lemma extract_zsh_to_bash:
  assumes "script \<noteq> str ''zsh''" "extract_bash_command c = Some (sh, script)"
    and "extract_bash_command (map zsh_to_bash c) = Some (sh', script')"
  shows "script' = script"
  using assms by (auto simp: extract_bash_command_def zsh_to_bash_def split: list.splits if_splits)

text \<open>
  C17: no command is both auto-approved and flagged as dangerous, whether it is called directly
  or inside a shell script, and whatever the script parser returns. Excluded is only a shell call whose whole script is the
  single word \<open>zsh\<close>, because the safety check rewrites that word before it parses the script.
\<close>

theorem known_safe_not_dangerous:
  assumes "is_known_safe_command try_parse_shell c = Ok True" "\<forall>sh. extract_bash_command c \<noteq> Some (sh, str ''zsh'')"
  shows "\<not> command_might_be_dangerous try_parse_shell c"
proof (cases "is_safe_to_call_with_exec (map zsh_to_bash c) = Ok True")
  case True
  then obtain c0 args where c: "c = c0 # args"
    by (cases c) (auto simp: is_safe_to_call_with_exec_def)
  obtain n where n: "n \<in> set safe_names" "file_name (zsh_to_bash c0) = Some n"
    using is_safe_name [of "zsh_to_bash c0" "map zsh_to_bash args"] True c by auto
  have c0: "zsh_to_bash c0 = c0"
  proof (rule ccontr)
    assume "zsh_to_bash c0 \<noteq> c0"
    then have "zsh_to_bash c0 = str ''bash''" by (simp add: zsh_to_bash_def split: if_splits)
    with n have "str ''bash'' \<in> set safe_names" using shell_names_facts by simp
    then show False using safe_names_facts by (auto simp: list_all_iff)
  qed
  note ns = safe_name_not_shell [OF n(2) [unfolded c0] n(1)]
  have "extract_bash_command c = None"
    using ns(1) by (auto simp: c extract_bash_command_def split: list.splits)
  then show ?thesis
    using ns(2) by (simp add: c command_might_be_dangerous_def parse_shell_lc_plain_commands_def)
next
  case False
  with assms(1) obtain cmds where cmds: "parse_shell_lc_plain_commands try_parse_shell (map zsh_to_bash c) = Some cmds"
    "all_safe cmds = Ok True"
    by (auto simp: is_known_safe_command_def Let_def obind_iffs split: option.splits if_splits)
  then obtain sh' script' where ex: "extract_bash_command (map zsh_to_bash c) = Some (sh', script')"
    by (auto simp: parse_shell_lc_plain_commands_def bind_eq_Some_conv)
  then have "c ! 0 \<notin> {str ''rm'', str ''sudo''} \<and> c \<noteq> []"
    using detect_rm_sudo by (auto simp: extract_bash_command_def zsh_to_bash_def split: list.splits if_splits)
  then have "\<not> is_dangerous_to_call_with_exec c" by (cases c) auto
  moreover have "cmds' = cmds" if p: "parse_shell_lc_plain_commands try_parse_shell c = Some cmds'" for cmds'
  proof -
    from p obtain sh script where script: "extract_bash_command c = Some (sh, script)"
      by (auto simp: parse_shell_lc_plain_commands_def bind_eq_Some_conv)
    then have "script \<noteq> str ''zsh''" using assms(2) by blast
    from extract_zsh_to_bash [OF this script ex] script ex cmds(1) p show ?thesis
      by (simp add: parse_shell_lc_plain_commands_def)
  qed
  ultimately show ?thesis
    using cmds(2) safe_not_dangerous_exec
    by (auto simp: command_might_be_dangerous_def all_safe_iff list_ex_iff split: option.splits)
qed

theorem known_safe_not_dangerous_witness:
  "let script = [str ''/bin/zsh'', str ''-lc'', str ''ls && pwd'']; search = [str ''grep'', str ''zsh'', str ''f'']
   in is_known_safe_command (\<lambda>_. Some two_commands) script = Ok True
    \<and> \<not> command_might_be_dangerous (\<lambda>_. Some two_commands) script
    \<and> is_known_safe_command (\<lambda>_. Some two_commands) search = Ok True
    \<and> \<not> command_might_be_dangerous (\<lambda>_. Some two_commands) search"
proof -
  have safe: "is_known_safe_command (\<lambda>_. Some two_commands) [str ''/bin/zsh'', str ''-lc'', str ''ls && pwd''] = Ok True"
    "is_known_safe_command (\<lambda>_. Some two_commands) [str ''grep'', str ''zsh'', str ''f''] = Ok True" by code_simp+
  have "map_option snd (extract_bash_command [str ''/bin/zsh'', str ''-lc'', str ''ls && pwd'']) \<noteq> Some (str ''zsh'')"
    "map_option snd (extract_bash_command [str ''grep'', str ''zsh'', str ''f'']) \<noteq> Some (str ''zsh'')" by code_simp+
  then have "\<forall>sh. extract_bash_command [str ''/bin/zsh'', str ''-lc'', str ''ls && pwd''] \<noteq> Some (sh, str ''zsh'')"
    "\<forall>sh. extract_bash_command [str ''grep'', str ''zsh'', str ''f''] \<noteq> Some (sh, str ''zsh'')" by auto
  with safe known_safe_not_dangerous [OF safe(1)] known_safe_not_dangerous [OF safe(2)] show ?thesis unfolding Let_def by blast
qed

end
