(* ===== verification/Exec_Policy.thy ===== *)
theory Exec_Policy
  imports Absolute_Path "HOL-Library.List_Lexorder"
begin

text \<open>
  The execution policy of \<open>codex-rs/execpolicy/src\<close>: decisions (\<open>decision.rs\<close>), prefix patterns,
  rules and host names (\<open>rule.rs\<close>), the policy with its matching and evaluation (\<open>policy.rs\<close>) and
  executable names (\<open>executable_name.rs\<close>). \<open>PrefixRule\<close> is the only implementation of the trait
  \<open>Rule\<close>, so a rule is a prefix rule. A \<open>MultiMap\<close> is an association list with distinct keys; a
  \<open>HashMap\<close> that is only read by key is a map. Where a message shows the debug text of a rule or
  a re-quoted command, the error value holds the rule or the command itself.
\<close>

section \<open>Decisions\<close>

datatype decision = Allow | Prompt | Forbidden

fun decision_rank :: "decision \<Rightarrow> nat" where
  "decision_rank Allow = 0"
| "decision_rank Prompt = 1"
| "decision_rank Forbidden = 2"

instantiation decision :: linorder
begin

definition less_eq_decision :: "decision \<Rightarrow> decision \<Rightarrow> bool" where
  "less_eq_decision a b \<longleftrightarrow> decision_rank a \<le> decision_rank b"

definition less_decision :: "decision \<Rightarrow> decision \<Rightarrow> bool" where
  "less_decision a b \<longleftrightarrow> decision_rank a < decision_rank b"

instance
proof
  show "a = b" if "a \<le> b" "b \<le> a" for a b :: decision
    using that by (cases a; cases b) (simp_all add: less_eq_decision_def)
qed (auto simp: less_eq_decision_def less_decision_def)

end

lemma decision_le [simp]: "Allow \<le> d" "d \<le> Forbidden"
  by (cases d; simp add: less_eq_decision_def)+

lemma Forbidden_le_iff [simp]: "Forbidden \<le> d \<longleftrightarrow> d = Forbidden"
  by (cases d) (simp_all add: less_eq_decision_def)

lemma le_Allow_iff [simp]: "d \<le> Allow \<longleftrightarrow> d = Allow"
  by (cases d) (simp_all add: less_eq_decision_def)

section \<open>Errors\<close>

record error_location =
  location_path :: ustr
  location_range :: "(nat \<times> nat) \<times> (nat \<times> nat)" \<comment> \<open>start and end, as (line, column)\<close>

datatype pattern_token = Single ustr | Alts "ustr list"

record prefix_pattern =
  first :: ustr
  rest :: "pattern_token list"

record prefix_rule =
  pattern :: prefix_pattern
  rule_decision :: decision
  justification :: "ustr option"

datatype rule_match =
    PrefixRuleMatch "ustr list" decision "ustr option" "ustr option"
      \<comment> \<open>matched prefix, decision, resolved program, justification\<close>
  | HeuristicsRuleMatch "ustr list" decision

datatype policy_error =
    InvalidDecision ustr
  | InvalidPattern ustr
  | InvalidExample ustr
  | InvalidRule ustr
  | ExampleDidNotMatch "prefix_rule list" "ustr list list" "error_location option"
  | ExampleDidMatch rule_match "ustr list" "error_location option"

fun with_location :: "policy_error \<Rightarrow> error_location \<Rightarrow> policy_error" where
  "with_location (ExampleDidNotMatch rs es None) l = ExampleDidNotMatch rs es (Some l)"
| "with_location (ExampleDidMatch r e None) l = ExampleDidMatch r e (Some l)"
| "with_location other l = other"

definition decision_parse :: "ustr \<Rightarrow> (decision, policy_error) outcome" where
  "decision_parse raw =
     (if raw = str ''allow'' then Ok Allow
      else if raw = str ''prompt'' then Ok Prompt
      else if raw = str ''forbidden'' then Ok Forbidden
      else Err (InvalidDecision raw))"

section \<open>Patterns and rules\<close>

fun token_matches :: "pattern_token \<Rightarrow> ustr \<Rightarrow> bool" where
  "token_matches (Single expected) token \<longleftrightarrow> expected = token"
| "token_matches (Alts alternatives) token \<longleftrightarrow> list_ex (\<lambda>alt. alt = token) alternatives"

fun alternatives :: "pattern_token \<Rightarrow> ustr list" where
  "alternatives (Single expected) = [expected]"
| "alternatives (Alts alts) = alts"

text \<open>\<open>cmd[0]\<close> and the slices are in range because of the length check before them.\<close>

definition matches_prefix :: "prefix_pattern \<Rightarrow> ustr list \<Rightarrow> ustr list option" where
  "matches_prefix pat cmd =
     (let pattern_length = length (rest pat) + 1 in
      if length cmd < pattern_length \<or> cmd ! 0 \<noteq> first pat then None
      else if list_all (\<lambda>(pattern_token, cmd_token). token_matches pattern_token cmd_token)
                (zip (rest pat) (take (pattern_length - 1) (drop 1 cmd)))
      then Some (take pattern_length cmd)
      else None)"

fun match_decision :: "rule_match \<Rightarrow> decision" where
  "match_decision (PrefixRuleMatch _ d _ _) = d"
| "match_decision (HeuristicsRuleMatch _ d) = d"

fun with_resolved_program :: "rule_match \<Rightarrow> ustr \<Rightarrow> rule_match" where
  "with_resolved_program (PrefixRuleMatch p d _ j) program = PrefixRuleMatch p d (Some program) j"
| "with_resolved_program other program = other"

definition rule_program :: "prefix_rule \<Rightarrow> ustr" where
  "rule_program r = first (pattern r)"

definition rule_matches :: "prefix_rule \<Rightarrow> ustr list \<Rightarrow> rule_match option" where
  "rule_matches r cmd =
     map_option (\<lambda>matched_prefix. PrefixRuleMatch matched_prefix (rule_decision r) None (justification r))
       (matches_prefix (pattern r) cmd)"

section \<open>Network rules\<close>

datatype network_rule_protocol = Http | Https | Socks5Tcp | Socks5Udp

definition protocol_parse :: "ustr \<Rightarrow> (network_rule_protocol, policy_error) outcome" where
  "protocol_parse raw =
     (if raw = str ''http'' then Ok Http
      else if raw \<in> {str ''https'', str ''https_connect'', str ''http-connect''} then Ok Https
      else if raw = str ''socks5_tcp'' then Ok Socks5Tcp
      else if raw = str ''socks5_udp'' then Ok Socks5Udp
      else Err (InvalidRule
        (str ''network_rule protocol must be one of http, https, socks5_tcp, socks5_udp (got ''
         @ raw @ str '')'')))"

fun as_policy_string :: "network_rule_protocol \<Rightarrow> ustr" where
  "as_policy_string Http = str ''http''"
| "as_policy_string Https = str ''https''"
| "as_policy_string Socks5Tcp = str ''socks5_tcp''"
| "as_policy_string Socks5Udp = str ''socks5_udp''"

record network_rule =
  rule_host :: ustr
  protocol :: network_rule_protocol
  network_decision :: decision
  network_justification :: "ustr option"

text \<open>\<open>str::split_once(c)\<close> and, for a text with one \<open>c\<close>, \<open>rsplit_once(c)\<close>.\<close>

definition split_once :: "uchar \<Rightarrow> ustr \<Rightarrow> (ustr \<times> ustr) option" where
  "split_once c s = (if c \<in> set s then Some (takeWhile (\<lambda>x. x \<noteq> c) s, tl (dropWhile (\<lambda>x. x \<noteq> c) s)) else None)"

definition rsplit_once :: "uchar \<Rightarrow> ustr \<Rightarrow> (ustr \<times> ustr) option" where
  "rsplit_once c s =
     (if c \<in> set s then Some (rev (tl (dropWhile (\<lambda>x. x \<noteq> c) (rev s))), rev (takeWhile (\<lambda>x. x \<noteq> c) (rev s)))
      else None)"

definition is_port :: "ustr \<Rightarrow> bool" where
  "is_port p \<longleftrightarrow> p \<noteq> [] \<and> list_all is_ascii_digit p"

definition host_cannot_be_empty :: policy_error where
  "host_cannot_be_empty = InvalidRule (str ''network_rule host cannot be empty'')"

text \<open>The bracket and port handling of \<open>normalize_network_rule_host\<close>.\<close>

definition strip_port :: "ustr \<Rightarrow> ustr \<Rightarrow> (ustr, policy_error) outcome" where
  "strip_port raw host =
     (case strip_prefix [chr CHR ''['' ] host of
        Some stripped \<Rightarrow>
          (case split_once (chr CHR '']'') stripped of
             None \<Rightarrow> Err (InvalidRule (str ''network_rule host has an invalid bracketed IPv6 literal''))
           | Some (inside, suffix) \<Rightarrow>
               if suffix \<noteq> [] \<and>
                  \<not> (case strip_prefix [chr CHR '':''] suffix of Some port \<Rightarrow> is_port port | None \<Rightarrow> False)
               then Err (InvalidRule (str ''network_rule host contains an unsupported suffix: '' @ raw))
               else Ok inside)
      | None \<Rightarrow>
          if count_list host (chr CHR '':'') = 1 then
            (case rsplit_once (chr CHR '':'') host of
               Some (candidate, port) \<Rightarrow>
                 if candidate \<noteq> [] \<and> is_port port then Ok candidate else Ok host
             | None \<Rightarrow> Ok host)
          else Ok host)"

definition normalize_network_rule_host :: "ustr \<Rightarrow> (ustr, policy_error) outcome" where
  "normalize_network_rule_host raw =
     (let host = trim raw in
      if host = [] then Err host_cannot_be_empty
      else if contains_str (str ''://'') host \<or> contains_char (chr CHR ''/'') host
              \<or> contains_char (chr CHR ''?'') host \<or> contains_char (chr CHR ''#'') host
      then Err (InvalidRule
        (str ''network_rule host must be a hostname or IP literal (without scheme or path)''))
      else obind (strip_port raw host) (\<lambda>host.
        let normalized = to_ascii_lowercase (trim (trim_end_matches (chr CHR ''.'') host)) in
        if normalized = [] then Err host_cannot_be_empty
        else if contains_char (chr CHR ''*'') normalized then
          Err (InvalidRule (str ''network_rule host must be a specific host; wildcards are not allowed''))
        else if list_ex is_whitespace normalized then
          Err (InvalidRule (str ''network_rule host cannot contain whitespace''))
        else Ok normalized))"

section \<open>The policy\<close>

type_synonym multimap = "(ustr \<times> prefix_rule list) list"

record policy =
  rules_by_program :: multimap
  network_rules :: "network_rule list"
  host_executables_by_name :: "ustr \<Rightarrow> ustr list option"

definition get_vec :: "multimap \<Rightarrow> ustr \<Rightarrow> prefix_rule list option" where
  "get_vec m k = map_of m k"

fun multimap_insert :: "ustr \<Rightarrow> prefix_rule \<Rightarrow> multimap \<Rightarrow> multimap" where
  "multimap_insert k r [] = [(k, [r])]"
| "multimap_insert k r ((k', rs) # m) =
     (if k = k' then (k', rs @ [r]) # m else (k', rs) # multimap_insert k r m)"

definition empty_policy :: policy where
  "empty_policy = \<lparr>rules_by_program = [], network_rules = [], host_executables_by_name = (\<lambda>_. None)\<rparr>"

fun render_pattern_token :: "pattern_token \<Rightarrow> ustr" where
  "render_pattern_token (Single value) = value"
| "render_pattern_token (Alts alts) = str ''['' @ join_with (str ''|'') alts @ str '']''"

text \<open>\<open>sort\<close> and \<open>dedup\<close>; Rust orders strings by their UTF-8 bytes, which is the order of scalars.\<close>

definition get_allowed_prefixes :: "policy \<Rightarrow> ustr list list" where
  "get_allowed_prefixes p =
     remdups_adj (sort (concat (map (\<lambda>(_, rules).
       map (\<lambda>r. first (pattern r) # map render_pattern_token (rest (pattern r)))
         (filter (\<lambda>r. rule_decision r = Allow) rules)) (rules_by_program p))))"

definition add_prefix_rule :: "ustr list \<Rightarrow> decision \<Rightarrow> policy \<Rightarrow> (policy, policy_error) outcome" where
  "add_prefix_rule prefix d p =
     (case prefix of
        [] \<Rightarrow> Err (InvalidPattern (str ''prefix cannot be empty''))
      | first_token # tokens \<Rightarrow>
          Ok (p\<lparr>rules_by_program := multimap_insert first_token
            \<lparr>pattern = \<lparr>first = first_token, rest = map Single tokens\<rparr>,
             rule_decision = d, justification = None\<rparr> (rules_by_program p)\<rparr>))"

definition blank :: "ustr option \<Rightarrow> bool" where
  "blank j \<longleftrightarrow> (case j of Some raw \<Rightarrow> trim raw = [] | None \<Rightarrow> False)"

definition empty_justification :: policy_error where
  "empty_justification = InvalidRule (str ''justification cannot be empty'')"

definition add_network_rule ::
  "ustr \<Rightarrow> network_rule_protocol \<Rightarrow> decision \<Rightarrow> ustr option \<Rightarrow> policy \<Rightarrow> (policy, policy_error) outcome" where
  "add_network_rule raw proto d j p =
     obind (normalize_network_rule_host raw) (\<lambda>h.
       if blank j then Err empty_justification
       else Ok (p\<lparr>network_rules := network_rules p @
         [\<lparr>rule_host = h, protocol = proto, network_decision = d, network_justification = j\<rparr>]\<rparr>))"

definition set_host_executable_paths :: "ustr \<Rightarrow> ustr list \<Rightarrow> policy \<Rightarrow> policy" where
  "set_host_executable_paths name paths p =
     p\<lparr>host_executables_by_name := (host_executables_by_name p)(name \<mapsto> paths)\<rparr>"

fun insert_all :: "multimap \<Rightarrow> (ustr \<times> prefix_rule list) list \<Rightarrow> multimap" where
  "insert_all m [] = m"
| "insert_all m ((k, rs) # entries) = insert_all (foldl (\<lambda>m r. multimap_insert k r m) m rs) entries"

definition merge_overlay :: "policy \<Rightarrow> policy \<Rightarrow> policy" where
  "merge_overlay p overlay =
     \<lparr>rules_by_program = insert_all (rules_by_program p) (rules_by_program overlay),
      network_rules = network_rules p @ network_rules overlay,
      host_executables_by_name = host_executables_by_name p ++ host_executables_by_name overlay\<rparr>"

definition upsert_domain :: "ustr \<Rightarrow> ustr list \<Rightarrow> ustr list" where
  "upsert_domain h entries = filter (\<lambda>entry. entry \<noteq> h) entries @ [h]"

fun compile_network_rule :: "ustr list \<times> ustr list \<Rightarrow> network_rule \<Rightarrow> ustr list \<times> ustr list" where
  "compile_network_rule (allowed, denied) r =
     (case network_decision r of
        Allow \<Rightarrow> (upsert_domain (rule_host r) allowed, filter (\<lambda>entry. entry \<noteq> rule_host r) denied)
      | Forbidden \<Rightarrow> (filter (\<lambda>entry. entry \<noteq> rule_host r) allowed, upsert_domain (rule_host r) denied)
      | Prompt \<Rightarrow> (allowed, denied))"

definition compiled_network_domains :: "policy \<Rightarrow> ustr list \<times> ustr list" where
  "compiled_network_domains p = foldl compile_network_rule ([], []) (network_rules p)"

section \<open>Matching\<close>

text \<open>On Unix the lookup key of an executable is its file name.\<close>

definition executable_lookup_key :: "ustr \<Rightarrow> ustr" where
  "executable_lookup_key raw = raw"

definition executable_path_lookup_key :: "ustr \<Rightarrow> ustr option" where
  "executable_path_lookup_key p = map_option executable_lookup_key (file_name p)"

definition match_exact_rules :: "policy \<Rightarrow> ustr list \<Rightarrow> rule_match list option" where
  "match_exact_rules p cmd =
     (case cmd of
        [] \<Rightarrow> None
      | program # _ \<Rightarrow>
          Some (case get_vec (rules_by_program p) program of
                  Some rules \<Rightarrow> List.map_filter (\<lambda>r. rule_matches r cmd) rules
                | None \<Rightarrow> []))"

definition match_host_executable_rules :: "path_env \<Rightarrow> policy \<Rightarrow> ustr list \<Rightarrow> rule_match list" where
  "match_host_executable_rules env p cmd =
     (case cmd of
        [] \<Rightarrow> []
      | first_token # args \<Rightarrow>
     (case abs_try_from env first_token of
        None \<Rightarrow> []
      | Some program \<Rightarrow>
     (case executable_path_lookup_key program of
        None \<Rightarrow> []
      | Some basename \<Rightarrow>
     (case get_vec (rules_by_program p) basename of
        None \<Rightarrow> []
      | Some rules \<Rightarrow>
          if (case host_executables_by_name p basename of
                Some paths \<Rightarrow> \<not> list_ex (\<lambda>path. path = program) paths
              | None \<Rightarrow> False)
          then []
          else map (\<lambda>m. with_resolved_program m program)
                 (List.map_filter (\<lambda>r. rule_matches r (basename # args)) rules)))))"

definition matches_for_command_with_options ::
  "path_env \<Rightarrow> policy \<Rightarrow> ustr list \<Rightarrow> (ustr list \<Rightarrow> decision) option \<Rightarrow> bool \<Rightarrow> rule_match list" where
  "matches_for_command_with_options env p cmd heuristics_fallback resolve_host_executables =
     (let exact = (case match_exact_rules p cmd of Some ms \<Rightarrow> ms | None \<Rightarrow> []);
          matched_rules =
            (if exact \<noteq> [] then exact
             else if resolve_host_executables then match_host_executable_rules env p cmd
             else [])
      in case (matched_rules, heuristics_fallback) of
           ([], Some heuristics) \<Rightarrow> [HeuristicsRuleMatch cmd (heuristics cmd)]
         | _ \<Rightarrow> matched_rules)"

section \<open>Evaluation\<close>

record evaluation =
  decision :: decision
  matched_rules :: "rule_match list"

text \<open>\<open>Evaluation::from_matches\<close>: the \<open>expect\<close> on an empty list is the panic.\<close>

definition from_matches :: "rule_match list \<Rightarrow> (evaluation, policy_error) outcome" where
  "from_matches ms =
     (case map match_decision ms of
        [] \<Rightarrow> Panic
      | d # ds \<Rightarrow> Ok \<lparr>decision = foldl max d ds, matched_rules = ms\<rparr>)"

definition check_with_options ::
  "path_env \<Rightarrow> policy \<Rightarrow> ustr list \<Rightarrow> (ustr list \<Rightarrow> decision) \<Rightarrow> bool \<Rightarrow> (evaluation, policy_error) outcome" where
  "check_with_options env p cmd heuristics resolve =
     from_matches (matches_for_command_with_options env p cmd (Some heuristics) resolve)"

definition check_multiple_with_options ::
  "path_env \<Rightarrow> policy \<Rightarrow> ustr list list \<Rightarrow> (ustr list \<Rightarrow> decision) \<Rightarrow> bool \<Rightarrow> (evaluation, policy_error) outcome" where
  "check_multiple_with_options env p commands heuristics resolve =
     from_matches (concat (map (\<lambda>command.
       matches_for_command_with_options env p command (Some heuristics) resolve) commands))"

text \<open>The variants with default options, which do not resolve host executables.\<close>

definition check :: "path_env \<Rightarrow> policy \<Rightarrow> ustr list \<Rightarrow> (ustr list \<Rightarrow> decision) \<Rightarrow> (evaluation, policy_error) outcome" where
  "check env p cmd heuristics = check_with_options env p cmd heuristics False"

definition check_multiple ::
  "path_env \<Rightarrow> policy \<Rightarrow> ustr list list \<Rightarrow> (ustr list \<Rightarrow> decision) \<Rightarrow> (evaluation, policy_error) outcome" where
  "check_multiple env p commands heuristics = check_multiple_with_options env p commands heuristics False"

definition matches_for_command ::
  "path_env \<Rightarrow> policy \<Rightarrow> ustr list \<Rightarrow> (ustr list \<Rightarrow> decision) option \<Rightarrow> rule_match list" where
  "matches_for_command env p cmd heuristics_fallback =
     matches_for_command_with_options env p cmd heuristics_fallback False"

fun is_heuristics :: "rule_match \<Rightarrow> bool" where
  "is_heuristics (HeuristicsRuleMatch _ _) = True"
| "is_heuristics _ = False"

definition is_match :: "evaluation \<Rightarrow> bool" where
  "is_match e \<longleftrightarrow> list_ex (\<lambda>m. \<not> is_heuristics m) (matched_rules e)"

section \<open>Well-formed policies\<close>

definition rules_for :: "multimap \<Rightarrow> ustr \<Rightarrow> prefix_rule list" where
  "rules_for m k = (case get_vec m k of Some rs \<Rightarrow> rs | None \<Rightarrow> [])"

text \<open>Each program is a key once, and its rules are rules for that program.\<close>

definition policy_wf :: "policy \<Rightarrow> bool" where
  "policy_wf p \<longleftrightarrow> distinct (map fst (rules_by_program p))
     \<and> (\<forall>(k, rs) \<in> set (rules_by_program p). rs \<noteq> [] \<and> (\<forall>r \<in> set rs. rule_program r = k))"

lemma rules_for_insert [simp]:
  "rules_for (multimap_insert k r m) k' = rules_for m k' @ (if k' = k then [r] else [])"
  by (induction k r m rule: multimap_insert.induct) (auto simp: rules_for_def get_vec_def)

lemma keys_insert: "set (map fst (multimap_insert k r m)) = insert k (set (map fst m))"
  by (induction k r m rule: multimap_insert.induct) auto

lemma distinct_insert: "distinct (map fst m) \<Longrightarrow> distinct (map fst (multimap_insert k r m))"
proof (induction k r m rule: multimap_insert.induct)
  case (2 k r k' rs m)
  then show ?case using keys_insert [of k r m] by (auto simp: image_iff)
qed simp

lemma entries_insert:
  "(k', rs) \<in> set (multimap_insert k r m) \<Longrightarrow>
   (k', rs) \<in> set m \<or> (k' = k \<and> (\<exists>rs'. rs = rs' @ [r] \<and> (rs' = [] \<or> (k, rs') \<in> set m)))"
  by (induction k r m rule: multimap_insert.induct) (auto split: if_splits)

definition multimap_wf :: "multimap \<Rightarrow> bool" where
  "multimap_wf m \<longleftrightarrow> distinct (map fst m)
     \<and> (\<forall>(k, rs) \<in> set m. rs \<noteq> [] \<and> (\<forall>r \<in> set rs. rule_program r = k))"

lemma policy_wf_multimap: "policy_wf p \<longleftrightarrow> multimap_wf (rules_by_program p)"
  by (simp add: policy_wf_def multimap_wf_def)

lemma multimap_wf_insert:
  assumes "multimap_wf m" "rule_program r = k"
  shows "multimap_wf (multimap_insert k r m)"
  unfolding multimap_wf_def
proof (intro conjI ballI)
  show "distinct (map fst (multimap_insert k r m))"
    using assms by (simp add: multimap_wf_def distinct_insert)
  fix e assume "e \<in> set (multimap_insert k r m)"
  with assms show "case e of (k, rs) \<Rightarrow> rs \<noteq> [] \<and> (\<forall>r \<in> set rs. rule_program r = k)"
    by (cases e) (fastforce simp: multimap_wf_def dest!: entries_insert)
qed

lemma multimap_wf_foldl_insert:
  "multimap_wf m \<Longrightarrow> \<forall>r \<in> set rs. rule_program r = k \<Longrightarrow>
   multimap_wf (foldl (\<lambda>m r. multimap_insert k r m) m rs)"
  by (induction rs arbitrary: m) (auto intro: multimap_wf_insert)

lemma multimap_wf_insert_all:
  "multimap_wf m \<Longrightarrow> \<forall>(k, rs) \<in> set es. \<forall>r \<in> set rs. rule_program r = k \<Longrightarrow>
   multimap_wf (insert_all m es)"
  by (induction m es rule: insert_all.induct) (auto intro: multimap_wf_foldl_insert)

lemma rules_for_foldl_insert:
  "rules_for (foldl (\<lambda>m r. multimap_insert k r m) m rs) k' = rules_for m k' @ (if k' = k then rs else [])"
  by (induction rs arbitrary: m) auto

lemma rules_for_insert_all:
  "distinct (map fst es) \<Longrightarrow> rules_for (insert_all m es) k = rules_for m k @ rules_for es k"
proof (induction m es rule: insert_all.induct)
  case (2 m k' rs es)
  have new: "rules_for es k' = []"
    using 2(2) map_of_eq_None_iff [of es k'] by (simp add: rules_for_def get_vec_def)
  have "rules_for ((k', rs) # es) k = (if k = k' then rs else rules_for es k)"
    by (simp add: rules_for_def get_vec_def)
  with 2 new show ?case by (simp add: rules_for_foldl_insert)
qed (simp add: rules_for_def get_vec_def)

lemma policy_wf_empty: "policy_wf empty_policy"
  by (simp add: policy_wf_def empty_policy_def)

lemma policy_wf_add_prefix_rule: "policy_wf p \<Longrightarrow> add_prefix_rule prefix d p = Ok p' \<Longrightarrow> policy_wf p'"
  by (auto simp: add_prefix_rule_def policy_wf_multimap rule_program_def intro!: multimap_wf_insert
      split: list.splits)

lemma policy_wf_merge_overlay:
  assumes "policy_wf p" "policy_wf q"
  shows "policy_wf (merge_overlay p q)"
  using assms unfolding policy_wf_multimap
  by (simp add: merge_overlay_def) (intro multimap_wf_insert_all; auto simp: multimap_wf_def)

section \<open>Prefix patterns\<close>

lemma matches_prefix_Some_iff:
  "matches_prefix pat cmd = Some pre \<longleftrightarrow>
     (\<exists>toks args. cmd = first pat # toks @ args \<and> list_all2 token_matches (rest pat) toks
        \<and> pre = first pat # toks)"
proof
  assume "matches_prefix pat cmd = Some pre"
  then have len: "length (rest pat) < length cmd" and hd: "cmd ! 0 = first pat"
    and toks: "list_all (\<lambda>(t, c). token_matches t c) (zip (rest pat) (take (length (rest pat)) (drop 1 cmd)))"
    and pre: "pre = take (Suc (length (rest pat))) cmd"
    by (auto simp: matches_prefix_def Let_def split: if_splits)
  from len hd obtain xs where cmd: "cmd = first pat # xs" by (cases cmd) auto
  have "list_all2 token_matches (rest pat) (take (length (rest pat)) xs)"
    using toks len by (auto simp: cmd list_all2_iff list_all_iff)
  then show "\<exists>toks args. cmd = first pat # toks @ args \<and> list_all2 token_matches (rest pat) toks
        \<and> pre = first pat # toks"
    by (intro exI [of _ "take (length (rest pat)) xs"] exI [of _ "drop (length (rest pat)) xs"])
      (simp add: pre cmd)
next
  assume "\<exists>toks args. cmd = first pat # toks @ args \<and> list_all2 token_matches (rest pat) toks
        \<and> pre = first pat # toks"
  then show "matches_prefix pat cmd = Some pre"
    by (auto simp: matches_prefix_def Let_def list_all2_iff list_all_iff)
qed

lemma matches_prefix_Single:
  "matches_prefix \<lparr>first = t, rest = map Single ts\<rparr> (t # ts @ args) = Some (t # ts)"
  unfolding matches_prefix_Some_iff by (auto simp: list_all2_conv_all_nth)

section \<open>Evaluation takes the strictest match\<close>

lemma foldl_max_Max: "foldl max d ds = Max (insert d (set ds))" for d :: "'a :: linorder"
proof (induction ds arbitrary: d)
  case (Cons x ds)
  have "foldl max d (x # ds) = Max (insert (max d x) (set ds))" using Cons by simp
  also have "\<dots> = Max (insert d (set (x # ds)))"
    by (cases "ds = []") (simp_all add: max.assoc)
  finally show ?case .
qed simp

lemma from_matches_Ok:
  "ms \<noteq> [] \<Longrightarrow> from_matches ms = Ok \<lparr>decision = Max (match_decision ` set ms), matched_rules = ms\<rparr>"
  by (cases ms) (simp_all add: from_matches_def foldl_max_Max)

lemma from_matches_Panic [simp]: "from_matches ms = Panic \<longleftrightarrow> ms = []"
  by (cases ms) (simp_all add: from_matches_def)

lemma matches_with_fallback_not_Nil:
  "matches_for_command_with_options env p cmd (Some h) resolve \<noteq> []"
  by (simp add: matches_for_command_with_options_def Let_def split: list.splits)

text \<open>
  Evaluating one command always gives a verdict, and it is the strictest decision of the
  rules that matched, or of the heuristics when no rule did; the \<open>expect\<close> in \<open>from_matches\<close>
  cannot fail.
\<close>

theorem check_strictest:
  "\<exists>e. check_with_options env p cmd h resolve = Ok e \<and> matched_rules e \<noteq> []
     \<and> matched_rules e = matches_for_command_with_options env p cmd (Some h) resolve
     \<and> decision e = Max (match_decision ` set (matched_rules e))"
  using matches_with_fallback_not_Nil [of env p cmd h resolve]
  by (simp add: check_with_options_def from_matches_Ok)

lemma check_decision:
  "check_with_options env p cmd h resolve = Ok e \<Longrightarrow>
   decision e = Max (match_decision ` set (matches_for_command_with_options env p cmd (Some h) resolve))"
  using matches_with_fallback_not_Nil [of env p cmd h resolve]
  by (auto simp: check_with_options_def from_matches_Ok)

lemma check_Ok:
  "\<exists>e. check_with_options env p cmd h resolve = Ok e"
  using matches_with_fallback_not_Nil [of env p cmd h resolve]
  by (simp add: check_with_options_def from_matches_Ok)

text \<open>The decision for one command, as a total function.\<close>

definition verdict :: "path_env \<Rightarrow> policy \<Rightarrow> (ustr list \<Rightarrow> decision) \<Rightarrow> bool \<Rightarrow> ustr list \<Rightarrow> decision" where
  "verdict env p h resolve cmd =
     Max (match_decision ` set (matches_for_command_with_options env p cmd (Some h) resolve))"

lemma check_verdict: "check_with_options env p cmd h resolve = Ok e \<Longrightarrow> decision e = verdict env p h resolve cmd"
  by (simp add: verdict_def check_decision)

lemma Max_UNION:
  fixes F :: "'a \<Rightarrow> 'b :: linorder set"
  assumes "finite A" "A \<noteq> {}" "\<And>x. x \<in> A \<Longrightarrow> finite (F x) \<and> F x \<noteq> {}"
  shows "Max (\<Union>x \<in> A. F x) = Max ((\<lambda>x. Max (F x)) ` A)"
proof (rule antisym)
  have "y \<le> Max ((\<lambda>x. Max (F x)) ` A)" if "x \<in> A" "y \<in> F x" for x y
  proof -
    have "y \<le> Max (F x)" using that assms by simp
    also have "\<dots> \<le> Max ((\<lambda>x. Max (F x)) ` A)" using that assms by (intro Max_ge) auto
    finally show ?thesis .
  qed
  then show "Max (\<Union>x \<in> A. F x) \<le> Max ((\<lambda>x. Max (F x)) ` A)"
    using assms by (intro Max.boundedI) auto
  show "Max ((\<lambda>x. Max (F x)) ` A) \<le> Max (\<Union>x \<in> A. F x)"
    using assms by (intro Max.boundedI) (auto intro!: Max_mono)
qed

lemma check_multiple_eval:
  "check_multiple_with_options env p cmds h resolve =
     (if cmds = [] then Panic
      else Ok \<lparr>decision = Max (verdict env p h resolve ` set cmds),
        matched_rules = concat (map (\<lambda>c. matches_for_command_with_options env p c (Some h) resolve) cmds)\<rparr>)"
proof (cases "cmds = []")
  case False
  let ?ms = "\<lambda>c. matches_for_command_with_options env p c (Some h) resolve"
  have ne: "match_decision ` set (?ms c) \<noteq> {}" for c
    using matches_with_fallback_not_Nil by simp
  have "Max (\<Union>c \<in> set cmds. match_decision ` set (?ms c)) = Max ((\<lambda>c. Max (match_decision ` set (?ms c))) ` set cmds)"
    using False ne by (intro Max_UNION) auto
  moreover have "concat (map ?ms cmds) \<noteq> []"
    using False matches_with_fallback_not_Nil by (cases cmds) auto
  ultimately show ?thesis
    using False by (simp add: check_multiple_with_options_def from_matches_Ok verdict_def image_UN)
qed (simp add: check_multiple_with_options_def)

text \<open>
  The verdict on a compound command is the strictest verdict on its parts; the evaluation
  panics exactly when there are no parts, which its callers have to exclude.
\<close>

theorem check_multiple_strictest:
  "check_multiple_with_options env p cmds h resolve =
     (if cmds = [] then Panic
      else Ok \<lparr>decision = Max (verdict env p h resolve ` set cmds),
        matched_rules = concat (map (\<lambda>c. matches_for_command_with_options env p c (Some h) resolve) cmds)\<rparr>)"
  by (rule check_multiple_eval)

section \<open>Policies that are merged\<close>

text \<open>
  The contract of a rule source that can be overlaid: the matches of the merged source are the
  matches of both. Then a merge can only make a verdict stricter.
\<close>

locale overlaid_rules =
  fixes matches :: "'p \<Rightarrow> 'c \<Rightarrow> 'm list"
    and merge :: "'p \<Rightarrow> 'p \<Rightarrow> 'p"
    and wf :: "'p \<Rightarrow> bool"
    and severity :: "'m \<Rightarrow> 'd :: linorder"
  assumes matches_merge: "wf p \<Longrightarrow> wf q \<Longrightarrow> set (matches (merge p q) c) = set (matches p c) \<union> set (matches q c)"
    and wf_merge: "wf p \<Longrightarrow> wf q \<Longrightarrow> wf (merge p q)"
begin

lemma merge_Max:
  assumes "wf p" "wf q" "matches p c \<noteq> []" "matches q c \<noteq> []"
  shows "Max (severity ` set (matches (merge p q) c)) =
    max (Max (severity ` set (matches p c))) (Max (severity ` set (matches q c)))"
  using assms by (simp add: matches_merge image_Un Max_Un)

lemma merge_left:
  assumes "wf p" "wf q" "matches p c \<noteq> []"
  shows "matches (merge p q) c \<noteq> []"
    and "Max (severity ` set (matches p c)) \<le> Max (severity ` set (matches (merge p q) c))"
proof -
  have sub: "set (matches p c) \<subseteq> set (matches (merge p q) c)"
    using assms by (simp add: matches_merge)
  then show "matches (merge p q) c \<noteq> []" using assms(3) by auto
  show "Max (severity ` set (matches p c)) \<le> Max (severity ` set (matches (merge p q) c))"
    using sub assms(3) by (intro Max_mono) auto
qed

lemma merge_right:
  assumes "wf p" "wf q" "matches q c \<noteq> []"
  shows "matches (merge p q) c \<noteq> []"
    and "Max (severity ` set (matches q c)) \<le> Max (severity ` set (matches (merge p q) c))"
proof -
  have sub: "set (matches q c) \<subseteq> set (matches (merge p q) c)"
    using assms by (simp add: matches_merge)
  then show "matches (merge p q) c \<noteq> []" using assms(3) by auto
  show "Max (severity ` set (matches q c)) \<le> Max (severity ` set (matches (merge p q) c))"
    using sub assms(3) by (intro Max_mono) auto
qed

end

definition exact_matches :: "policy \<Rightarrow> ustr list \<Rightarrow> rule_match list" where
  "exact_matches p cmd = (case match_exact_rules p cmd of Some ms \<Rightarrow> ms | None \<Rightarrow> [])"

lemma exact_matches_Cons:
  "exact_matches p (c # args) = List.map_filter (\<lambda>r. rule_matches r (c # args)) (rules_for (rules_by_program p) c)"
  by (simp add: exact_matches_def match_exact_rules_def rules_for_def List.map_filter_simps split: option.splits)

lemma exact_matches_Nil [simp]: "exact_matches p [] = []"
  by (simp add: exact_matches_def match_exact_rules_def)

lemma exact_matches_merge:
  assumes "policy_wf q"
  shows "exact_matches (merge_overlay p q) cmd = exact_matches p cmd @ exact_matches q cmd"
  using assms by (cases cmd)
    (simp_all add: exact_matches_Cons merge_overlay_def rules_for_insert_all policy_wf_def map_filter_append)

interpretation policies: overlaid_rules exact_matches merge_overlay policy_wf match_decision
  by unfold_locales (simp_all add: exact_matches_merge policy_wf_merge_overlay)

lemma verdict_exact:
  "exact_matches p cmd \<noteq> [] \<Longrightarrow> verdict env p h resolve cmd = Max (match_decision ` set (exact_matches p cmd))"
  by (cases "exact_matches p cmd")
    (simp_all add: verdict_def matches_for_command_with_options_def flip: exact_matches_def)

text \<open>Rules found by the file name of an absolute program merge as well, when both policies know the same executables.\<close>

lemma match_host_executable_rules_eq:
  "match_host_executable_rules env p cmd =
     (case cmd of
        [] \<Rightarrow> []
      | first_token # args \<Rightarrow>
     (case abs_try_from env first_token of
        None \<Rightarrow> []
      | Some program \<Rightarrow>
     (case executable_path_lookup_key program of
        None \<Rightarrow> []
      | Some basename \<Rightarrow>
          if (case host_executables_by_name p basename of
                Some paths \<Rightarrow> \<not> list_ex (\<lambda>path. path = program) paths
              | None \<Rightarrow> False)
          then []
          else map (\<lambda>m. with_resolved_program m program)
                 (List.map_filter (\<lambda>r. rule_matches r (basename # args)) (rules_for (rules_by_program p) basename)))))"
  by (auto simp: match_host_executable_rules_def rules_for_def List.map_filter_simps split: list.split option.split)

lemma host_matches_merge:
  assumes "policy_wf q" "host_executables_by_name p = H" "host_executables_by_name q = H"
  shows "match_host_executable_rules env (merge_overlay p q) cmd =
    match_host_executable_rules env p cmd @ match_host_executable_rules env q cmd"
  unfolding match_host_executable_rules_eq using assms
  by (auto simp: merge_overlay_def rules_for_insert_all policy_wf_def map_filter_append split: list.split option.split)

interpretation resolved: overlaid_rules "match_host_executable_rules env" merge_overlay
  "\<lambda>p. policy_wf p \<and> host_executables_by_name p = H" match_decision for env H
proof
  fix p q :: policy
  fix c
  assume wf: "policy_wf p \<and> host_executables_by_name p = H" "policy_wf q \<and> host_executables_by_name q = H"
  then show "set (match_host_executable_rules env (merge_overlay p q) c) =
      set (match_host_executable_rules env p c) \<union> set (match_host_executable_rules env q c)"
    by (simp add: host_matches_merge)
  have "host_executables_by_name (merge_overlay p q) = H"
    using wf by (auto simp: merge_overlay_def map_add_def split: option.splits)
  with wf show "policy_wf (merge_overlay p q) \<and> host_executables_by_name (merge_overlay p q) = H"
    by (simp add: policy_wf_merge_overlay)
qed

text \<open>The rules that judge a command: those for the program as it is spelled, or else those for its file name.\<close>

definition applicable :: "path_env \<Rightarrow> policy \<Rightarrow> bool \<Rightarrow> ustr list \<Rightarrow> rule_match list" where
  "applicable env p resolve cmd =
     (if exact_matches p cmd \<noteq> [] then exact_matches p cmd
      else if resolve then match_host_executable_rules env p cmd else [])"

lemma matches_applicable:
  "matches_for_command_with_options env p cmd (Some h) resolve =
     (if applicable env p resolve cmd = [] then [HeuristicsRuleMatch cmd (h cmd)] else applicable env p resolve cmd)"
  by (simp add: matches_for_command_with_options_def applicable_def Let_def flip: exact_matches_def split: list.split)

lemma verdict_applicable:
  "verdict env p h resolve cmd =
     (if applicable env p resolve cmd = [] then h cmd else Max (match_decision ` set (applicable env p resolve cmd)))"
  by (simp add: verdict_def matches_applicable)

lemma merged_by_file_name:
  assumes "policy_wf p" "policy_wf q" "exact_matches p cmd = []" "exact_matches q cmd = []"
    and "host_executables_by_name p = host_executables_by_name q"
  shows "set (applicable env (merge_overlay p q) resolve cmd) =
    set (applicable env p resolve cmd) \<union> set (applicable env q resolve cmd)"
proof -
  have "exact_matches (merge_overlay p q) cmd = []" using assms by (simp add: exact_matches_merge)
  with assms resolved.matches_merge [of p "host_executables_by_name q" q env cmd] show ?thesis
    by (cases resolve) (simp_all add: applicable_def)
qed

text \<open>The name under which the rules for the file name of a program are looked up.\<close>

definition file_name_key :: "path_env \<Rightarrow> ustr list \<Rightarrow> ustr option" where
  "file_name_key env cmd =
     (case cmd of [] \<Rightarrow> None | t # _ \<Rightarrow> Option.bind (abs_try_from env t) executable_path_lookup_key)"

lemma host_matches_merge_right:
  assumes "policy_wf q"
    and "\<And>n. file_name_key env cmd = Some n \<Longrightarrow> host_executables_by_name (merge_overlay p q) n = host_executables_by_name q n"
  shows "set (match_host_executable_rules env q cmd) \<subseteq> set (match_host_executable_rules env (merge_overlay p q) cmd)"
proof (cases "file_name_key env cmd")
  case None
  then show ?thesis
    by (auto simp: match_host_executable_rules_eq file_name_key_def split: list.splits bind_splits option.splits)
next
  case (Some n)
  then obtain t args program where cmd: "cmd = t # args" "abs_try_from env t = Some program" "executable_path_lookup_key program = Some n"
    by (auto simp: file_name_key_def split: list.splits bind_splits)
  have rules: "rules_for (rules_by_program (merge_overlay p q)) n = rules_for (rules_by_program p) n @ rules_for (rules_by_program q) n"
    using assms(1) by (simp add: merge_overlay_def rules_for_insert_all policy_wf_def)
  show ?thesis
    by (auto simp: match_host_executable_rules_eq cmd rules assms(2) [OF Some] map_filter_append)
qed

text \<open>
  C16: what a merged policy says of a command. Where a policy has rules for the program as it is spelled, the merged verdict is the
  stricter of the verdicts of the policies that have such rules; rules that apply only by the file name of
  the program do not count then. Where neither has such rules and both list the same host executables, it is the stricter of the
  verdicts of the policies that have rules for the file name.
\<close>

theorem merged_verdict:
  assumes "policy_wf p" "policy_wf q"
  shows "(exact_matches p cmd \<noteq> [] \<or> exact_matches q cmd \<noteq> [] \<longrightarrow>
      verdict env (merge_overlay p q) h resolve cmd =
        (if exact_matches q cmd = [] then verdict env p h resolve cmd
         else if exact_matches p cmd = [] then verdict env q h resolve cmd
         else max (verdict env p h resolve cmd) (verdict env q h resolve cmd)))
    \<and> (exact_matches p cmd = [] \<and> exact_matches q cmd = [] \<and> host_executables_by_name p = host_executables_by_name q \<longrightarrow>
      verdict env (merge_overlay p q) h resolve cmd =
        (if applicable env q resolve cmd = [] then verdict env p h resolve cmd
         else if applicable env p resolve cmd = [] then verdict env q h resolve cmd
         else max (verdict env p h resolve cmd) (verdict env q h resolve cmd)))"
proof (intro conjI impI)
  assume "exact_matches p cmd \<noteq> [] \<or> exact_matches q cmd \<noteq> []"
  with assms(2) policies.merge_Max [OF assms, of cmd] show "verdict env (merge_overlay p q) h resolve cmd =
      (if exact_matches q cmd = [] then verdict env p h resolve cmd
       else if exact_matches p cmd = [] then verdict env q h resolve cmd
       else max (verdict env p h resolve cmd) (verdict env q h resolve cmd))"
    by (auto simp: verdict_exact exact_matches_merge)
next
  assume "exact_matches p cmd = [] \<and> exact_matches q cmd = [] \<and> host_executables_by_name p = host_executables_by_name q"
  then have "set (applicable env (merge_overlay p q) resolve cmd) =
      set (applicable env p resolve cmd) \<union> set (applicable env q resolve cmd)"
    using merged_by_file_name [OF assms] by simp
  moreover from this have "applicable env (merge_overlay p q) resolve cmd = [] \<longleftrightarrow>
      applicable env p resolve cmd = [] \<and> applicable env q resolve cmd = []" by (metis Un_empty set_empty)
  ultimately show "verdict env (merge_overlay p q) h resolve cmd =
      (if applicable env q resolve cmd = [] then verdict env p h resolve cmd
       else if applicable env p resolve cmd = [] then verdict env q h resolve cmd
       else max (verdict env p h resolve cmd) (verdict env q h resolve cmd))"
    by (auto simp: verdict_applicable image_Un Max_Un)
qed

lemma exact_matches_add_prefix_rule:
  assumes "add_prefix_rule (t # ts) d p = Ok p'"
  shows "exact_matches p' (t # ts @ args) =
    exact_matches p (t # ts @ args) @ [PrefixRuleMatch (t # ts) d None None]"
  using assms
  by (auto simp: add_prefix_rule_def exact_matches_Cons map_filter_append List.map_filter_simps
      rule_matches_def matches_prefix_Single)

text \<open>
  Adding a prefix rule takes effect at once and adds only strictness: for every command
  that starts with the prefix, the new verdict is the rule's decision, joined with the verdict
  of the rules that matched the command before.
\<close>

theorem add_prefix_rule_enforced:
  assumes "add_prefix_rule prefix d p = Ok p'"
  shows "verdict env p' h resolve (prefix @ args) =
    (if exact_matches p (prefix @ args) = [] then d
     else max (verdict env p h resolve (prefix @ args)) d)"
proof -
  obtain t ts where prefix: "prefix = t # ts"
    using assms by (cases prefix) (auto simp: add_prefix_rule_def)
  have "exact_matches p' (prefix @ args) =
      exact_matches p (prefix @ args) @ [PrefixRuleMatch prefix d None None]"
    using exact_matches_add_prefix_rule [OF assms [unfolded prefix]] by (simp add: prefix)
  then show ?thesis
    by (simp add: verdict_exact) (simp add: max.commute)
qed

theorem add_prefix_rule_enforced_witness:
  "\<exists>p'. add_prefix_rule [str ''git'', str ''push''] Forbidden empty_policy = Ok p'
    \<and> verdict \<lparr>home_dir = None, current_dir = None\<rparr> p' (\<lambda>_. Allow) True [str ''git'', str ''push'', str ''-f''] =
      (if exact_matches empty_policy [str ''git'', str ''push'', str ''-f''] = [] then Forbidden
       else max (verdict \<lparr>home_dir = None, current_dir = None\<rparr> empty_policy (\<lambda>_. Allow) True
         [str ''git'', str ''push'', str ''-f'']) Forbidden)"
proof -
  obtain p' where p': "add_prefix_rule [str ''git'', str ''push''] Forbidden empty_policy = Ok p'"
    by (simp add: add_prefix_rule_def)
  from this add_prefix_rule_enforced [OF this, of _ _ _ "[str ''-f'']"] show ?thesis by auto
qed

definition single_rule :: "ustr \<Rightarrow> decision \<Rightarrow> policy" where
  "single_rule program d = (case add_prefix_rule [program] d empty_policy of Ok p \<Rightarrow> p | _ \<Rightarrow> empty_policy)"

lemma single_rule_wf [simp]: "policy_wf (single_rule program d)"
  using policy_wf_add_prefix_rule [OF policy_wf_empty, of "[program]" d] by (simp add: single_rule_def add_prefix_rule_def)

theorem merged_verdict_witness:
  "let env = \<lparr>home_dir = None, current_dir = None\<rparr>; git = [str ''/usr/bin/git'']; ls = [str ''ls''] in
   verdict env (merge_overlay (single_rule (str ''ls'') Prompt) (single_rule (str ''ls'') Forbidden)) (\<lambda>_. Allow) True ls = Forbidden
   \<and> verdict env (merge_overlay (single_rule (str ''git'') Prompt) (single_rule (str ''git'') Forbidden)) (\<lambda>_. Allow) True git = Forbidden"
proof -
  let ?env = "\<lparr>home_dir = None, current_dir = None\<rparr>"
  have "exact_matches (single_rule (str ''ls'') Prompt) [str ''ls''] \<noteq> []" "exact_matches (single_rule (str ''ls'') Forbidden) [str ''ls''] \<noteq> []"
    "verdict ?env (single_rule (str ''ls'') Prompt) (\<lambda>_. Allow) True [str ''ls''] = Prompt"
    "verdict ?env (single_rule (str ''ls'') Forbidden) (\<lambda>_. Allow) True [str ''ls''] = Forbidden"
    "max Prompt Forbidden = Forbidden" by code_simp+
  moreover have "exact_matches (single_rule (str ''git'') d) [str ''/usr/bin/git''] = []"
    "host_executables_by_name (single_rule (str ''git'') d) = Map.empty" for d
    by (simp_all add: single_rule_def add_prefix_rule_def exact_matches_Cons rules_for_def get_vec_def empty_policy_def List.map_filter_simps)
  moreover have "applicable ?env (single_rule (str ''git'') Prompt) True [str ''/usr/bin/git''] \<noteq> []"
    "applicable ?env (single_rule (str ''git'') Forbidden) True [str ''/usr/bin/git''] \<noteq> []"
    "verdict ?env (single_rule (str ''git'') Prompt) (\<lambda>_. Allow) True [str ''/usr/bin/git''] = Prompt"
    "verdict ?env (single_rule (str ''git'') Forbidden) (\<lambda>_. Allow) True [str ''/usr/bin/git''] = Forbidden" by code_simp+
  ultimately show ?thesis
    using merged_verdict [of "single_rule (str ''ls'') Prompt" "single_rule (str ''ls'') Forbidden" "[str ''ls'']" ?env "\<lambda>_. Allow" True]
      merged_verdict [of "single_rule (str ''git'') Prompt" "single_rule (str ''git'') Forbidden" "[str ''/usr/bin/git'']" ?env "\<lambda>_. Allow" True]
    unfolding Let_def by simp
qed

text \<open>
  The exact rules take precedence over rules for the file name across the two policies: a rule for the full path in one of them
  lifts what the other says of the program's name.
\<close>

lemma path_rule_overrides_name_rule:
  "let env = \<lparr>home_dir = None, current_dir = None\<rparr>; git = [str ''/usr/bin/git''] in
   verdict env (single_rule (str ''git'') Forbidden) (\<lambda>_. Allow) True git = Forbidden
   \<and> verdict env (merge_overlay (single_rule (str ''/usr/bin/git'') Allow) (single_rule (str ''git'') Forbidden)) (\<lambda>_. Allow) True git = Allow"
  by code_simp

section \<open>Network rules\<close>

text \<open>The reference: the decision of the last rule for a host that is not a prompt rule.\<close>

definition last_network_decision :: "network_rule list \<Rightarrow> ustr \<Rightarrow> decision option" where
  "last_network_decision rules h =
     map_option network_decision
       (last_opt (filter (\<lambda>r. rule_host r = h \<and> network_decision r \<noteq> Prompt) rules))"

lemma last_network_decision_snoc:
  "last_network_decision (rules @ [r]) h =
     (if rule_host r = h \<and> network_decision r \<noteq> Prompt then Some (network_decision r)
      else last_network_decision rules h)"
  by (simp add: last_network_decision_def last_opt_def)

lemma upsert_domain_simps [simp]:
  "set (upsert_domain h xs) = insert h (set xs)" "distinct xs \<Longrightarrow> distinct (upsert_domain h xs)"
  by (auto simp: upsert_domain_def)

lemma compile_network_rules:
  fixes rules :: "network_rule list"
  defines "c \<equiv> foldl compile_network_rule ([], []) rules"
  shows "distinct (fst c)" "distinct (snd c)"
    and "set (fst c) = {h. last_network_decision rules h = Some Allow}"
    and "set (snd c) = {h. last_network_decision rules h = Some Forbidden}"
proof -
  have "distinct (fst c) \<and> distinct (snd c)
    \<and> set (fst c) = {h. last_network_decision rules h = Some Allow}
    \<and> set (snd c) = {h. last_network_decision rules h = Some Forbidden}"
    unfolding c_def
  proof (induction rules rule: rev_induct)
    case Nil
    show ?case by (simp add: last_network_decision_def last_opt_def)
  next
    case (snoc r rules)
    obtain a d where ad: "foldl compile_network_rule ([], []) rules = (a, d)" by fastforce
    with snoc show ?case
      by (cases "network_decision r") (auto simp: last_network_decision_snoc)
  qed
  then show "distinct (fst c)" "distinct (snd c)"
    "set (fst c) = {h. last_network_decision rules h = Some Allow}"
    "set (snd c) = {h. last_network_decision rules h = Some Forbidden}" by simp_all
qed

text \<open>
  The compiled domain lists implement last-rule-wins: a host is allowed (denied) exactly
  when the last rule for it that is not a prompt rule allows (forbids) it; no host is listed
  twice and none is in both lists.
\<close>

theorem compiled_network_domains_last_wins:
  "set (fst (compiled_network_domains p)) = {h. last_network_decision (network_rules p) h = Some Allow}
   \<and> set (snd (compiled_network_domains p)) = {h. last_network_decision (network_rules p) h = Some Forbidden}
   \<and> distinct (fst (compiled_network_domains p)) \<and> distinct (snd (compiled_network_domains p))
   \<and> set (fst (compiled_network_domains p)) \<inter> set (snd (compiled_network_domains p)) = {}"
  using compile_network_rules [of "network_rules p"] by (auto simp: compiled_network_domains_def)

section \<open>Host names\<close>

lemma set_trim_end_matches: "set (trim_end_matches c s) \<subseteq> set s"
  by (auto simp: trim_end_matches_def dest!: set_dropWhileD)

lemma split_once_subset: "split_once c s = Some (a, b) \<Longrightarrow> set a \<subseteq> set s"
  by (auto simp: split_once_def dest: set_takeWhileD split: if_splits)

lemma rsplit_once_subset: "rsplit_once c s = Some (a, b) \<Longrightarrow> set a \<subseteq> set s"
  by (auto simp: rsplit_once_def split: if_splits)
    (metis list.set_sel(2) set_dropWhileD set_rev tl_Nil in_set_dropD drop_Suc drop0)

lemma strip_port_subset:
  assumes "strip_port raw h = Ok h'"
  shows "set h' \<subseteq> set h"
proof (cases "strip_prefix [chr CHR ''['' ] h")
  case None
  with assms show ?thesis
    by (auto simp: strip_port_def split: if_splits option.splits dest!: rsplit_once_subset)
next
  case (Some stripped)
  then have "h = chr CHR ''['' # stripped" by (simp add: strip_prefix_Some_iff)
  with assms Some show ?thesis
    by (auto simp: strip_port_def split: if_splits option.splits dest!: split_once_subset)
qed

lemma ascii_lower_idem [simp]: "ascii_lower (ascii_lower c) = ascii_lower c"
  by (simp add: ascii_lower_def)

text \<open>
  Every host a network rule stores is clean: not empty, in ASCII lower case, without white
  space, wildcards, slashes, question marks or fragment signs.
\<close>

theorem normalize_network_rule_host_clean:
  assumes "normalize_network_rule_host raw = Ok h"
  shows "h \<noteq> [] \<and> to_ascii_lowercase h = h \<and> (\<forall>c \<in> set h. \<not> is_whitespace c)
    \<and> set h \<inter> {chr CHR ''*'', chr CHR ''/'', chr CHR ''?'', chr CHR ''#''} = {}"
proof -
  from assms obtain h' where h': "strip_port raw (trim raw) = Ok h'"
    and h: "h = to_ascii_lowercase (trim (trim_end_matches (chr CHR ''.'') h'))"
    and ok: "h \<noteq> []" "chr CHR ''*'' \<notin> set h" "\<not> list_ex is_whitespace h"
    and no: "chr CHR ''/'' \<notin> set (trim raw)" "chr CHR ''?'' \<notin> set (trim raw)" "chr CHR ''#'' \<notin> set (trim raw)"
    by (auto simp: normalize_network_rule_host_def Let_def obind_iffs contains_char_def split: if_splits)
  have sub: "set h \<subseteq> ascii_lower ` set (trim raw)"
    using strip_port_subset [OF h'] set_trim [of "trim_end_matches (chr CHR ''.'') h'"]
      set_trim_end_matches [of "chr CHR ''.''" h'] by (auto simp: h to_ascii_lowercase_def)
  have "ascii_lower c = x \<longleftrightarrow> c = x" if "x \<in> {47, 63, 35}" for c x
    using that by (auto simp: ascii_lower_def)
  then have "set h \<inter> {chr CHR ''/'', chr CHR ''?'', chr CHR ''#''} = {}"
    using sub no by (fastforce simp: chr_def)
  moreover have "to_ascii_lowercase h = h" by (simp add: h to_ascii_lowercase_def)
  ultimately show ?thesis using ok by (auto simp: list_ex_iff)
qed

theorem normalize_network_rule_host_clean_witness:
  "\<exists>h. normalize_network_rule_host (str '' API.GitHub.com:443 '') = Ok h
    \<and> h = str ''api.github.com''
    \<and> h \<noteq> [] \<and> to_ascii_lowercase h = h \<and> (\<forall>c \<in> set h. \<not> is_whitespace c)
    \<and> set h \<inter> {chr CHR ''*'', chr CHR ''/'', chr CHR ''?'', chr CHR ''#''} = {}"
proof -
  have "normalize_network_rule_host (str '' API.GitHub.com:443 '') = Ok (str ''api.github.com'')"
    by code_simp
  with normalize_network_rule_host_clean [OF this] show ?thesis by blast
qed

text \<open>
  Normalising twice may change the host: dots are trimmed after the port is looked for, so a
  port survives in front of a final dot and is dropped the next time.
\<close>

lemma normalize_network_rule_host_not_idempotent:
  "normalize_network_rule_host (str ''a:80.'') = Ok (str ''a:80'')
   \<and> normalize_network_rule_host (str ''a:80'') = Ok (str ''a'')"
  by code_simp

end
