(* ===== verification/Policy_Parser.thy ===== *)
theory Policy_Parser
  imports Exec_Policy
begin

text \<open>
  Building and amending an execution policy: \<open>codex-rs/execpolicy/src/parser.rs\<close> (the builtins that
  a policy file calls, the builder they fill and the validation of the examples) and
  \<open>codex-rs/execpolicy/src/amend.rs\<close> (appending a rule to a policy file). The Starlark evaluator is
  not part of the repository: a policy file is what its builtin calls do to the builder. The
  shell splitter \<open>shlex::split\<close> and the JSON quoting of \<open>serde_json::to_string\<close> are arguments.
\<close>

section \<open>Starlark values\<close>

datatype starlark_value = SvStr ustr | SvList "starlark_value list" | SvOther ustr \<comment> \<open>type name\<close>

fun get_type :: "starlark_value \<Rightarrow> ustr" where
  "get_type (SvStr _) = str ''string''"
| "get_type (SvList _) = str ''list''"
| "get_type (SvOther t) = t"

fun unpack_str :: "starlark_value \<Rightarrow> ustr option" where
  "unpack_str (SvStr s) = Some s"
| "unpack_str _ = None"

definition unpack_str_or :: "(ustr \<Rightarrow> policy_error) \<Rightarrow> starlark_value \<Rightarrow> (ustr, policy_error) outcome" where
  "unpack_str_or err v = (case unpack_str v of Some s \<Rightarrow> Ok s | None \<Rightarrow> Err (err (get_type v)))"

section \<open>Arguments of the builtins\<close>

fun parse_pattern_token :: "starlark_value \<Rightarrow> (pattern_token, policy_error) outcome" where
  "parse_pattern_token (SvStr s) = Ok (Single s)"
| "parse_pattern_token (SvList vs) =
     obind (omap (unpack_str_or (\<lambda>t. InvalidPattern
       (str ''pattern alternative must be a string (got '' @ t @ str '')''))) vs) (\<lambda>tokens.
       case tokens of
         [] \<Rightarrow> Err (InvalidPattern (str ''pattern alternatives cannot be empty''))
       | [single] \<Rightarrow> Ok (Single single)
       | _ \<Rightarrow> Ok (Alts tokens))"
| "parse_pattern_token (SvOther t) =
     Err (InvalidPattern (str ''pattern element must be a string or list of strings (got '' @ t @ str '')''))"

definition parse_pattern :: "starlark_value list \<Rightarrow> (pattern_token list, policy_error) outcome" where
  "parse_pattern items =
     obind (omap parse_pattern_token items) (\<lambda>tokens.
       if tokens = [] then Err (InvalidPattern (str ''pattern cannot be empty'')) else Ok tokens)"

definition parse_string_example ::
  "(ustr \<Rightarrow> ustr list option) \<Rightarrow> ustr \<Rightarrow> (ustr list, policy_error) outcome" where
  "parse_string_example shlex_split raw =
     (case shlex_split raw of
        None \<Rightarrow> Err (InvalidExample (str ''example string has invalid shell syntax''))
      | Some tokens \<Rightarrow>
          if tokens = [] then Err (InvalidExample (str ''example cannot be an empty string''))
          else Ok tokens)"

definition parse_list_example :: "starlark_value list \<Rightarrow> (ustr list, policy_error) outcome" where
  "parse_list_example vs =
     obind (omap (unpack_str_or (\<lambda>t. InvalidExample
       (str ''example tokens must be strings (got '' @ t @ str '')''))) vs) (\<lambda>tokens.
       if tokens = [] then Err (InvalidExample (str ''example cannot be an empty list'')) else Ok tokens)"

fun parse_example ::
  "(ustr \<Rightarrow> ustr list option) \<Rightarrow> starlark_value \<Rightarrow> (ustr list, policy_error) outcome" where
  "parse_example shlex_split (SvStr raw) = parse_string_example shlex_split raw"
| "parse_example shlex_split (SvList vs) = parse_list_example vs"
| "parse_example shlex_split (SvOther t) =
     Err (InvalidExample (str ''example must be a string or list of strings (got '' @ t @ str '')''))"

definition parse_examples ::
  "(ustr \<Rightarrow> ustr list option) \<Rightarrow> starlark_value list option \<Rightarrow> (ustr list list, policy_error) outcome" where
  "parse_examples shlex_split examples =
     (case examples of None \<Rightarrow> Ok [] | Some items \<Rightarrow> omap (parse_example shlex_split) items)"

definition parse_literal_absolute_path :: "path_env \<Rightarrow> ustr \<Rightarrow> (ustr, policy_error) outcome" where
  "parse_literal_absolute_path env raw =
     (if \<not> is_absolute raw then
        Err (InvalidRule (str ''host_executable paths must be absolute (got '' @ raw @ str '')''))
      else (case abs_try_from env raw of
              Some p \<Rightarrow> Ok p
            | None \<Rightarrow> Err (InvalidRule (str ''invalid absolute path `'' @ raw @ str ''`''))))"

definition validate_host_executable_name :: "ustr \<Rightarrow> (unit, policy_error) outcome" where
  "validate_host_executable_name name =
     (if name = [] then Err (InvalidRule (str ''host_executable name cannot be empty''))
      else if length (components name) \<noteq> 1 \<or> file_name name \<noteq> Some name then
        Err (InvalidRule (str ''host_executable name must be a bare executable name (got '' @ name @ str '')''))
      else Ok ())"

definition parse_network_rule_decision :: "ustr \<Rightarrow> (decision, policy_error) outcome" where
  "parse_network_rule_decision raw = (if raw = str ''deny'' then Ok Forbidden else decision_parse raw)"

section \<open>The builder\<close>

record pending_example_validation =
  pending_rules :: "prefix_rule list"
  pending_matches :: "ustr list list"
  pending_not_matches :: "ustr list list"
  pending_location :: "error_location option"

record policy_builder =
  built :: policy \<comment> \<open>the rules, network rules and host executables so far\<close>
  pending_example_validations :: "pending_example_validation list"

definition new_builder :: policy_builder where
  "new_builder = \<lparr>built = empty_policy, pending_example_validations = []\<rparr>"

definition add_rule :: "prefix_rule \<Rightarrow> policy \<Rightarrow> policy" where
  "add_rule r p = p\<lparr>rules_by_program := multimap_insert (rule_program r) r (rules_by_program p)\<rparr>"

definition opt_decision :: "ustr option \<Rightarrow> (decision, policy_error) outcome" where
  "opt_decision d = (case d of Some raw \<Rightarrow> decision_parse raw | None \<Rightarrow> Ok Allow)"

definition opt_justification :: "ustr option \<Rightarrow> (ustr option, policy_error) outcome" where
  "opt_justification j = (if blank j then Err empty_justification else Ok j)"

text \<open>\<open>prefix_rule(pattern, decision, match, not_match, justification)\<close>.\<close>

definition prefix_rules ::
  "pattern_token list \<Rightarrow> decision \<Rightarrow> ustr option \<Rightarrow> (prefix_rule list, policy_error) outcome" where
  "prefix_rules tokens d j =
     (case tokens of
        [] \<Rightarrow> Err (InvalidPattern (str ''pattern cannot be empty''))
      | first_token # remaining \<Rightarrow>
          Ok (map (\<lambda>head. \<lparr>pattern = \<lparr>first = head, rest = remaining\<rparr>, rule_decision = d, justification = j\<rparr>)
                (alternatives first_token)))"

definition builtin_prefix_rule ::
  "(ustr \<Rightarrow> ustr list option) \<Rightarrow> starlark_value list \<Rightarrow> ustr option \<Rightarrow> starlark_value list option
    \<Rightarrow> starlark_value list option \<Rightarrow> ustr option \<Rightarrow> error_location option \<Rightarrow> policy_builder
    \<Rightarrow> (policy_builder, policy_error) outcome" where
  "builtin_prefix_rule shlex_split pat d matches not_matches j location b =
     obind (opt_decision d) (\<lambda>d.
     obind (opt_justification j) (\<lambda>j.
     obind (parse_pattern pat) (\<lambda>pattern_tokens.
     obind (parse_examples shlex_split matches) (\<lambda>matches.
     obind (parse_examples shlex_split not_matches) (\<lambda>not_matches.
     obind (prefix_rules pattern_tokens d j) (\<lambda>rules.
       Ok (b\<lparr>built := foldl (\<lambda>p r. add_rule r p) (built b) rules,
             pending_example_validations := pending_example_validations b @
               [\<lparr>pending_rules = rules, pending_matches = matches, pending_not_matches = not_matches,
                 pending_location = location\<rparr>]\<rparr>)))))))"

text \<open>\<open>network_rule(host, protocol, decision, justification)\<close>.\<close>

definition builtin_network_rule ::
  "ustr \<Rightarrow> ustr \<Rightarrow> ustr \<Rightarrow> ustr option \<Rightarrow> policy_builder \<Rightarrow> (policy_builder, policy_error) outcome" where
  "builtin_network_rule h proto d j b =
     obind (protocol_parse proto) (\<lambda>proto.
     obind (parse_network_rule_decision d) (\<lambda>d.
     obind (opt_justification j) (\<lambda>j.
     obind (normalize_network_rule_host h) (\<lambda>h.
       Ok (b\<lparr>built := (built b)\<lparr>network_rules := network_rules (built b) @
         [\<lparr>rule_host = h, protocol = proto, network_decision = d, network_justification = j\<rparr>]\<rparr>\<rparr>)))))"

text \<open>\<open>host_executable(name, paths)\<close>.\<close>

definition wrong_basename :: "ustr \<Rightarrow> ustr \<Rightarrow> policy_error" where
  "wrong_basename raw name =
     InvalidRule (str ''host_executable path `'' @ raw @ str ''` must have basename `'' @ name @ str ''`'')"

fun host_paths_loop ::
  "path_env \<Rightarrow> ustr \<Rightarrow> starlark_value list \<Rightarrow> ustr list \<Rightarrow> (ustr list, policy_error) outcome" where
  "host_paths_loop env name [] parsed = Ok parsed"
| "host_paths_loop env name (v # vs) parsed =
     obind (unpack_str_or (\<lambda>t. InvalidRule
       (str ''host_executable paths must be strings (got '' @ t @ str '')'')) v) (\<lambda>raw.
     obind (parse_literal_absolute_path env raw) (\<lambda>path.
       if executable_path_lookup_key path \<noteq> Some (executable_lookup_key name) then Err (wrong_basename raw name)
       else host_paths_loop env name vs
              (if list_ex (\<lambda>existing. existing = path) parsed then parsed else parsed @ [path])))"

definition builtin_host_executable ::
  "path_env \<Rightarrow> ustr \<Rightarrow> starlark_value list \<Rightarrow> policy_builder \<Rightarrow> (policy_builder, policy_error) outcome" where
  "builtin_host_executable env name paths b =
     obind (validate_host_executable_name name) (\<lambda>_.
     obind (host_paths_loop env name paths []) (\<lambda>parsed.
       Ok (b\<lparr>built := set_host_executable_paths (executable_lookup_key name) parsed (built b)\<rparr>)))"

section \<open>Validating the examples\<close>

definition validate_match_examples ::
  "path_env \<Rightarrow> policy \<Rightarrow> prefix_rule list \<Rightarrow> ustr list list \<Rightarrow> (unit, policy_error) outcome" where
  "validate_match_examples env p rules matches =
     (let unmatched = filter (\<lambda>example. matches_for_command_with_options env p example None True = []) matches in
      if unmatched = [] then Ok () else Err (ExampleDidNotMatch rules unmatched None))"

fun validate_not_match_examples ::
  "path_env \<Rightarrow> policy \<Rightarrow> ustr list list \<Rightarrow> (unit, policy_error) outcome" where
  "validate_not_match_examples env p [] = Ok ()"
| "validate_not_match_examples env p (example # examples) =
     (case matches_for_command_with_options env p example None True of
        m # _ \<Rightarrow> Err (ExampleDidMatch m example None)
      | [] \<Rightarrow> validate_not_match_examples env p examples)"

definition attach_validation_location ::
  "error_location option \<Rightarrow> (unit, policy_error) outcome \<Rightarrow> (unit, policy_error) outcome" where
  "attach_validation_location location r =
     (case (r, location) of (Err e, Some l) \<Rightarrow> Err (with_location e l) | _ \<Rightarrow> r)"

definition validation_policy :: "policy_builder \<Rightarrow> prefix_rule list \<Rightarrow> policy" where
  "validation_policy b rules =
     foldl (\<lambda>p r. add_rule r p)
       \<lparr>rules_by_program = [], network_rules = [],
        host_executables_by_name = host_executables_by_name (built b)\<rparr> rules"

fun validate_pending :: "path_env \<Rightarrow> policy_builder \<Rightarrow> pending_example_validation list
    \<Rightarrow> (unit, policy_error) outcome" where
  "validate_pending env b [] = Ok ()"
| "validate_pending env b (v # vs) =
     (let p = validation_policy b (pending_rules v) in
      obind (attach_validation_location (pending_location v)
               (validate_not_match_examples env p (pending_not_matches v))) (\<lambda>_.
      obind (attach_validation_location (pending_location v)
               (validate_match_examples env p (pending_rules v) (pending_matches v))) (\<lambda>_.
        validate_pending env b vs)))"

definition validate_pending_examples_from ::
  "path_env \<Rightarrow> policy_builder \<Rightarrow> nat \<Rightarrow> (unit, policy_error) outcome" where
  "validate_pending_examples_from env b start =
     obind (slice_from start (pending_example_validations b)) (validate_pending env b)"

text \<open>
  \<open>PolicyParser::parse\<close>; \<open>run\<close> is the evaluation of the policy file, which reaches the builder
  only through the builtins.
\<close>

definition policy_parse ::
  "path_env \<Rightarrow> (policy_builder \<Rightarrow> (policy_builder, policy_error) outcome) \<Rightarrow> policy_builder
    \<Rightarrow> (policy_builder, policy_error) outcome" where
  "policy_parse env run b =
     (let pending_validation_count = length (pending_example_validations b) in
      obind (run b) (\<lambda>b'.
      obind (validate_pending_examples_from env b' pending_validation_count) (\<lambda>_. Ok b')))"

section \<open>Amending a policy file\<close>

text \<open>The new contents of the policy file after \<open>append_locked_line\<close>.\<close>

definition append_locked_line :: "ustr \<Rightarrow> ustr \<Rightarrow> ustr" where
  "append_locked_line contents line =
     (if list_ex (\<lambda>existing. existing = line) (lines contents) then contents
      else contents
           @ (if contents \<noteq> [] \<and> \<not> ends_with [newline] contents then [newline] else [])
           @ line @ [newline])"

definition allow_prefix_rule_line :: "(ustr \<Rightarrow> ustr) \<Rightarrow> ustr list \<Rightarrow> ustr option" where
  "allow_prefix_rule_line json prefix =
     (if prefix = [] then None
      else Some (str ''prefix_rule(pattern=['' @ join_with (str '', '') (map json prefix)
                 @ str ''], decision='' @ [34] @ str ''allow'' @ [34] @ str '')''))"

fun network_decision_string :: "decision \<Rightarrow> ustr" where
  "network_decision_string Allow = str ''allow''"
| "network_decision_string Prompt = str ''prompt''"
| "network_decision_string Forbidden = str ''deny''"

definition network_rule_line ::
  "(ustr \<Rightarrow> ustr) \<Rightarrow> ustr \<Rightarrow> network_rule_protocol \<Rightarrow> decision \<Rightarrow> ustr option \<Rightarrow> (ustr, policy_error) outcome" where
  "network_rule_line json h proto d j =
     obind (normalize_network_rule_host h) (\<lambda>h.
       if blank j then Err empty_justification
       else Ok (str ''network_rule('' @ join_with (str '', '')
         ([str ''host='' @ json h, str ''protocol='' @ json (as_policy_string proto),
           str ''decision='' @ json (network_decision_string d)]
          @ (case j of Some raw \<Rightarrow> [str ''justification='' @ json raw] | None \<Rightarrow> [])) @ str '')''))"

section \<open>Amending is idempotent\<close>

text \<open>
  Appending a rule to a policy file adds it as the last line and leaves the lines before
  it alone; a file that already has the rule is not touched, so that appending twice is
  appending once.
\<close>

theorem append_locked_line_correct:
  assumes "newline \<notin> set line" "\<not> ends_with [carriage_return] line"
    and "\<not> ends_with [carriage_return] contents"
  shows "lines (append_locked_line contents line) =
      (if line \<in> set (lines contents) then lines contents else lines contents @ [line])
    \<and> append_locked_line (append_locked_line contents line) line = append_locked_line contents line"
proof -
  have "lines (append_locked_line contents line) =
      (if line \<in> set (lines contents) then lines contents else lines contents @ [line])"
    using lines_append_line [OF assms] by (simp add: append_locked_line_def list_ex_iff)
  moreover from this have "line \<in> set (lines (append_locked_line contents line))" by auto
  ultimately show ?thesis by (simp add: append_locked_line_def list_ex_iff)
qed

theorem append_locked_line_correct_witness:
  "lines (append_locked_line (str ''a'') (str ''b'')) =
      (if str ''b'' \<in> set (lines (str ''a'')) then lines (str ''a'') else lines (str ''a'') @ [str ''b''])
    \<and> append_locked_line (append_locked_line (str ''a'') (str ''b'')) (str ''b'') =
      append_locked_line (str ''a'') (str ''b'')"
  by (rule append_locked_line_correct)
    (simp_all add: ends_with_def strip_suffix_def str_Cons chr_def newline_def carriage_return_def)

section \<open>What a policy file can build\<close>

inductive builder_step ::
  "(ustr \<Rightarrow> ustr list option) \<Rightarrow> path_env \<Rightarrow> policy_builder \<Rightarrow> policy_builder \<Rightarrow> bool"
  for shlex_split :: "ustr \<Rightarrow> ustr list option" and env :: path_env where
  prefix: "builtin_prefix_rule shlex_split pat d ms nms j loc b = Ok b' \<Longrightarrow> builder_step shlex_split env b b'"
| network: "builtin_network_rule h proto d j b = Ok b' \<Longrightarrow> builder_step shlex_split env b b'"
| host: "builtin_host_executable env name paths b = Ok b' \<Longrightarrow> builder_step shlex_split env b b'"

text \<open>Hosts are clean, and the paths of a host executable are normal, distinct and named like it.\<close>

definition clean_host :: "ustr \<Rightarrow> bool" where
  "clean_host h \<longleftrightarrow> h \<noteq> [] \<and> to_ascii_lowercase h = h \<and> list_all (\<lambda>c. \<not> is_whitespace c) h"

definition host_paths_ok :: "ustr \<Rightarrow> ustr list \<Rightarrow> bool" where
  "host_paths_ok name paths \<longleftrightarrow> distinct paths
     \<and> (\<forall>p \<in> set paths. is_normal_abs p \<and> file_name p = Some name)"

definition built_ok :: "policy \<Rightarrow> bool" where
  "built_ok p \<longleftrightarrow> policy_wf p \<and> (\<forall>r \<in> set (network_rules p). clean_host (rule_host r))
     \<and> (\<forall>name paths. host_executables_by_name p name = Some paths \<longrightarrow> host_paths_ok name paths)"

lemma built_ok_empty: "built_ok empty_policy"
  by (simp add: built_ok_def policy_wf_empty) (simp add: empty_policy_def)

lemma normalize_host_clean: "normalize_network_rule_host raw = Ok h \<Longrightarrow> clean_host h"
  by (auto simp: normalize_network_rule_host_def Let_def obind_iffs clean_host_def to_ascii_lowercase_def
      list_ex_iff list_all_iff split: if_splits)

lemma policy_wf_add_rule: "policy_wf p \<Longrightarrow> policy_wf (add_rule r p)"
  by (simp add: add_rule_def policy_wf_multimap multimap_wf_insert)

lemma built_ok_add_rules: "built_ok p \<Longrightarrow> built_ok (foldl (\<lambda>p r. add_rule r p) p rs)"
proof (induction rs arbitrary: p)
  case (Cons r rs)
  from Cons.prems have "built_ok (add_rule r p)"
    by (simp add: built_ok_def policy_wf_add_rule) (simp add: add_rule_def)
  from Cons.IH [OF this] show ?case by simp
qed simp

lemma policy_wf_cong: "rules_by_program p = rules_by_program q \<Longrightarrow> policy_wf p = policy_wf q"
  by (simp add: policy_wf_def)

lemma parse_literal_absolute_path_normal:
  "parse_literal_absolute_path env raw = Ok p \<Longrightarrow> is_normal_abs p"
  by (auto simp: parse_literal_absolute_path_def abs_try_from_def from_absolute_path_def Let_def
      intro: normalize_path_absolute split: if_splits)

lemma host_paths_loop_ok:
  "host_paths_loop env name vs parsed = Ok paths \<Longrightarrow> host_paths_ok name parsed \<Longrightarrow> host_paths_ok name paths"
proof (induction env name vs parsed rule: host_paths_loop.induct)
  case (2 env name v vs parsed)
  from "2.prems"(1) obtain raw path where raw: "parse_literal_absolute_path env raw = Ok path"
    and name: "executable_path_lookup_key path = Some (executable_lookup_key name)"
    and loop: "host_paths_loop env name vs (if list_ex (\<lambda>q. q = path) parsed then parsed else parsed @ [path]) = Ok paths"
    and v: "unpack_str_or (\<lambda>t. InvalidRule (str ''host_executable paths must be strings (got '' @ t @ str '')'')) v = Ok raw"
    by (auto simp: obind_iffs split: if_splits)
  have "file_name path = Some name"
    using name by (auto simp: executable_path_lookup_key_def executable_lookup_key_def)
  then have "host_paths_ok name (if list_ex (\<lambda>q. q = path) parsed then parsed else parsed @ [path])"
    using "2.prems"(2) parse_literal_absolute_path_normal [OF raw]
    by (simp add: host_paths_ok_def list_ex_iff)
  with "2.IH" [OF v raw _ loop] name show ?case by blast
qed simp

lemma builder_step_ok:
  assumes "builder_step shlex_split env b b'" "built_ok (built b)"
  shows "built_ok (built b')"
  using assms(1)
proof (cases rule: builder_step.cases)
  case (prefix pat d ms nms j loc)
  with assms(2) show ?thesis by (auto simp: builtin_prefix_rule_def obind_iffs intro: built_ok_add_rules)
next
  case (network h proto d j)
  then obtain r where r: "built b' = (built b)\<lparr>network_rules := network_rules (built b) @ [r]\<rparr>"
    "normalize_network_rule_host h = Ok (rule_host r)"
    by (fastforce simp: builtin_network_rule_def obind_iffs)
  with assms(2) normalize_host_clean [OF r(2)] show ?thesis
    using policy_wf_cong [of "built b'" "built b"] by (auto simp: built_ok_def)
next
  case (host name paths)
  then obtain parsed where parsed: "host_paths_loop env name paths [] = Ok parsed"
    "built b' = set_host_executable_paths (executable_lookup_key name) parsed (built b)"
    by (auto simp: builtin_host_executable_def obind_iffs)
  moreover have "host_paths_ok name parsed"
    using host_paths_loop_ok [OF parsed(1)] by (simp add: host_paths_ok_def)
  ultimately show ?thesis
    using assms(2) policy_wf_cong [of "built b'" "built b"]
    by (auto simp: built_ok_def set_host_executable_paths_def executable_lookup_key_def)
qed

text \<open>
  Whatever sequence of builtin calls a policy file makes, the policy it builds is well
  formed: every rule is filed under its program, every network host is clean, and every path
  of a host executable is a normalised absolute path, listed once, whose file name is the name
  it is registered for.
\<close>

theorem built_policy_ok:
  assumes "(builder_step shlex_split env)\<^sup>*\<^sup>* new_builder b"
  shows "built_ok (built b)"
  using assms by (induction rule: rtranclp_induct) (auto simp: new_builder_def built_ok_empty intro: builder_step_ok)

definition no_env :: path_env where
  "no_env = \<lparr>home_dir = None, current_dir = None\<rparr>"

theorem built_policy_ok_witness:
  "\<exists>b. (builder_step (\<lambda>_. None) no_env)\<^sup>*\<^sup>* new_builder b
    \<and> host_executables_by_name (built b) (str ''git'') = Some [str ''/usr/bin/git''] \<and> built_ok (built b)"
proof -
  let ?vs = "[SvStr (str ''/usr/bin/git''), SvStr (str ''/usr/./bin/git'')]"
  let ?b = "new_builder\<lparr>built := set_host_executable_paths (str ''git'') [str ''/usr/bin/git''] (built new_builder)\<rparr>"
  have "validate_host_executable_name (str ''git'') = Ok ()" by code_simp
  moreover have "host_paths_loop no_env (str ''git'') ?vs [] = Ok [str ''/usr/bin/git'']" by code_simp
  ultimately have "builtin_host_executable no_env (str ''git'') ?vs new_builder = Ok ?b"
    by (simp add: builtin_host_executable_def executable_lookup_key_def)
  then have "(builder_step (\<lambda>_. None) no_env)\<^sup>*\<^sup>* new_builder ?b" by (intro r_into_rtranclp builder_step.host)
  from this built_policy_ok [OF this] show ?thesis
    by (intro exI [of _ ?b]) (simp add: set_host_executable_paths_def)
qed

section \<open>What a prefix rule matches\<close>

lemma rules_for_add_rules:
  "rules_for (rules_by_program (foldl (\<lambda>p r. add_rule r p) p rs)) k =
     rules_for (rules_by_program p) k @ filter (\<lambda>r. rule_program r = k) rs"
  by (induction rs arbitrary: p) (auto simp: add_rule_def)

lemma token_matches_alternatives: "token_matches t x \<longleftrightarrow> x \<in> set (alternatives t)"
  by (cases t) (auto simp: list_ex_iff)

lemma rule_matches_Some_iff:
  "rule_matches r cmd = Some m \<longleftrightarrow>
     (\<exists>toks args. cmd = rule_program r # toks @ args \<and> list_all2 token_matches (rest (pattern r)) toks
        \<and> m = PrefixRuleMatch (rule_program r # toks) (rule_decision r) None (justification r))"
  by (auto simp: rule_matches_def rule_program_def matches_prefix_Some_iff)

lemma exact_matches_add_rules:
  "set (exact_matches (foldl (\<lambda>p r. add_rule r p) p rs) cmd) =
     set (exact_matches p cmd) \<union> {m. \<exists>r \<in> set rs. rule_matches r cmd = Some m}"
proof (cases cmd)
  case (Cons c args)
  have "rule_matches r cmd = Some m \<Longrightarrow> rule_program r = c" for r m
    by (auto simp: rule_matches_Some_iff Cons)
  then show ?thesis
    by (auto simp: Cons exact_matches_Cons rules_for_add_rules map_filter_append set_map_filter)
qed (auto simp: rule_matches_Some_iff)

lemma prefix_rules_match:
  assumes "prefix_rules tokens d j = Ok rules"
  shows "(\<exists>r \<in> set rules. rule_matches r cmd = Some m) \<longleftrightarrow>
    (\<exists>toks args. cmd = toks @ args \<and> list_all2 token_matches tokens toks \<and> m = PrefixRuleMatch toks d None j)"
proof -
  obtain t ts where tokens: "tokens = t # ts" using assms by (cases tokens) (auto simp: prefix_rules_def)
  with assms have rules: "rules = map (\<lambda>head.
      \<lparr>pattern = \<lparr>first = head, rest = ts\<rparr>, rule_decision = d, justification = j\<rparr>) (alternatives t)"
    by (simp add: prefix_rules_def)
  show ?thesis
    unfolding tokens rules
    by (auto simp: rule_matches_Some_iff rule_program_def token_matches_alternatives list_all2_Cons1)
qed

text \<open>
  A \<open>prefix_rule\<close> call makes the policy match exactly the additional commands its pattern
  describes: those that start with one token per pattern element, each equal to the element or
  to one of its alternatives, with the call's decision and justification.
\<close>

theorem builtin_prefix_rule_matches:
  assumes "builtin_prefix_rule shlex_split pat d ms nms j loc b = Ok b'"
    and "parse_pattern pat = Ok tokens" "opt_decision d = Ok dec"
  shows "set (exact_matches (built b') cmd) = set (exact_matches (built b) cmd) \<union>
    {PrefixRuleMatch toks dec None j | toks args. cmd = toks @ args \<and> list_all2 token_matches tokens toks}"
proof -
  from assms obtain rules where rules: "prefix_rules tokens dec j = Ok rules"
    and b': "built b' = foldl (\<lambda>p r. add_rule r p) (built b) rules"
    by (auto simp: builtin_prefix_rule_def opt_justification_def obind_iffs split: if_splits)
  show ?thesis unfolding b' exact_matches_add_rules prefix_rules_match [OF rules] by blast
qed

theorem builtin_prefix_rule_matches_witness:
  "\<exists>b' tokens. builtin_prefix_rule (\<lambda>_. None) [SvStr (str ''git''), SvList [SvStr (str ''log''), SvStr (str ''show'')]]
      None None None None None new_builder = Ok b'
    \<and> tokens = [Single (str ''git''), Alts [str ''log'', str ''show'']]
    \<and> set (exact_matches (built b') [str ''git'', str ''show'', str ''-p'']) =
        set (exact_matches (built new_builder) [str ''git'', str ''show'', str ''-p'']) \<union>
        {PrefixRuleMatch toks Allow None None | toks args.
           [str ''git'', str ''show'', str ''-p''] = toks @ args \<and> list_all2 token_matches tokens toks}"
proof -
  let ?pat = "[SvStr (str ''git''), SvList [SvStr (str ''log''), SvStr (str ''show'')]]"
  have pat: "parse_pattern ?pat = Ok [Single (str ''git''), Alts [str ''log'', str ''show'']]"
    by (simp add: parse_pattern_def unpack_str_or_def)
  then obtain b' where b': "builtin_prefix_rule (\<lambda>_. None) ?pat None None None None None new_builder = Ok b'"
    by (simp add: builtin_prefix_rule_def opt_decision_def opt_justification_def blank_def parse_examples_def
        prefix_rules_def)
  have "opt_decision None = Ok Allow" by (simp add: opt_decision_def)
  from builtin_prefix_rule_matches [OF b' pat this] b' show ?thesis by blast
qed

section \<open>Examples\<close>

lemma validate_not_match_examples_Ok:
  "validate_not_match_examples env p examples = Ok () \<longleftrightarrow>
     (\<forall>e \<in> set examples. matches_for_command_with_options env p e None True = [])"
  by (induction env p examples rule: validate_not_match_examples.induct) (auto split: list.splits)

lemma validate_match_examples_Ok:
  "validate_match_examples env p rules examples = Ok () \<longleftrightarrow>
     (\<forall>e \<in> set examples. matches_for_command_with_options env p e None True \<noteq> [])"
  by (auto simp: validate_match_examples_def Let_def filter_empty_conv)

lemma attach_validation_location_Ok [simp]: "attach_validation_location l r = Ok u \<longleftrightarrow> r = Ok u"
  by (auto simp: attach_validation_location_def split: outcome.splits option.splits)

lemma validate_pending_Ok:
  "validate_pending env b vs = Ok () \<longleftrightarrow>
     (\<forall>v \<in> set vs.
        (\<forall>e \<in> set (pending_matches v).
           matches_for_command_with_options env (validation_policy b (pending_rules v)) e None True \<noteq> [])
      \<and> (\<forall>e \<in> set (pending_not_matches v).
           matches_for_command_with_options env (validation_policy b (pending_rules v)) e None True = []))"
proof (induction vs)
  case (Cons v vs)
  then show ?case
    by (auto simp: Let_def obind_iffs validate_not_match_examples_Ok validate_match_examples_Ok)
qed simp

lemma validate_pending_no_panic: "validate_pending env b vs \<noteq> Panic"
proof (induction vs)
  case (Cons v vs)
  have "attach_validation_location l r = Panic \<longleftrightarrow> r = Panic" for l r
    by (auto simp: attach_validation_location_def split: outcome.splits option.splits)
  moreover have "validate_not_match_examples env p es \<noteq> Panic" for p es
    by (induction env p es rule: validate_not_match_examples.induct) (auto split: list.splits)
  moreover have "validate_match_examples env p rs es \<noteq> Panic" for p rs es
    by (simp add: validate_match_examples_def Let_def)
  ultimately show ?case using Cons by (auto simp: Let_def obind_iffs)
qed simp

lemma builder_step_pending:
  assumes "builder_step shlex_split env b b'"
  shows "\<exists>vs. pending_example_validations b' = pending_example_validations b @ vs"
  using assms
  by cases (auto simp: builtin_prefix_rule_def builtin_network_rule_def builtin_host_executable_def obind_iffs)

lemma builder_steps_pending:
  assumes "(builder_step shlex_split env)\<^sup>*\<^sup>* b b'"
  shows "\<exists>vs. pending_example_validations b' = pending_example_validations b @ vs"
  using assms by (induction rule: rtranclp_induct) (auto dest!: builder_step_pending)

text \<open>
  Parsing a policy file validates every example of the file: it never panics on the slice
  of new validations, and it succeeds only if each \<open>match\<close> example of the rules the file adds is
  matched by its rules and no \<open>not_match\<close> example is.
\<close>

theorem policy_parse_validates:
  assumes "run b = Ok b'" "(builder_step shlex_split env)\<^sup>*\<^sup>* b b'"
  shows "policy_parse env run b \<noteq> Panic
    \<and> (policy_parse env run b = Ok b' \<longleftrightarrow>
        (\<forall>v \<in> set (drop (length (pending_example_validations b)) (pending_example_validations b')).
          (\<forall>e \<in> set (pending_matches v).
             matches_for_command_with_options env (validation_policy b' (pending_rules v)) e None True \<noteq> [])
        \<and> (\<forall>e \<in> set (pending_not_matches v).
             matches_for_command_with_options env (validation_policy b' (pending_rules v)) e None True = [])))"
proof -
  let ?vs = "drop (length (pending_example_validations b)) (pending_example_validations b')"
  have "length (pending_example_validations b) \<le> length (pending_example_validations b')"
    using builder_steps_pending [OF assms(2)] by auto
  then have run: "policy_parse env run b = obind (validate_pending env b' ?vs) (\<lambda>_. Ok b')"
    using assms(1) by (simp add: policy_parse_def validate_pending_examples_from_def slice_from_def)
  then have "policy_parse env run b = Ok b' \<longleftrightarrow> validate_pending env b' ?vs = Ok ()"
    by (auto simp: obind_iffs)
  with run show ?thesis unfolding validate_pending_Ok
    using validate_pending_no_panic [of env b' ?vs] by (auto simp: obind_iffs)
qed

theorem policy_parse_validates_witness:
  "\<exists>run b'. run new_builder = Ok b' \<and> pending_example_validations b' \<noteq> []
    \<and> policy_parse no_env run new_builder \<noteq> Panic
    \<and> (policy_parse no_env run new_builder = Ok b' \<longleftrightarrow>
        (\<forall>v \<in> set (drop (length (pending_example_validations new_builder)) (pending_example_validations b')).
          (\<forall>e \<in> set (pending_matches v).
             matches_for_command_with_options no_env (validation_policy b' (pending_rules v)) e None True \<noteq> [])
        \<and> (\<forall>e \<in> set (pending_not_matches v).
             matches_for_command_with_options no_env (validation_policy b' (pending_rules v)) e None True = [])))"
proof -
  let ?run = "builtin_prefix_rule (\<lambda>_. None) [SvStr (str ''ls'')] None (Some [SvList [SvStr (str ''ls'')]]) None None None"
  obtain b' where b': "?run new_builder = Ok b'" and ne: "pending_example_validations b' \<noteq> []"
    by (auto simp: builtin_prefix_rule_def opt_decision_def opt_justification_def blank_def parse_examples_def
        parse_pattern_def parse_list_example_def unpack_str_or_def prefix_rules_def)
  then have "(builder_step (\<lambda>_. None) no_env)\<^sup>*\<^sup>* new_builder b'"
    by (intro r_into_rtranclp builder_step.prefix)
  from policy_parse_validates [of ?run new_builder b', OF b' this] b' ne show ?thesis by blast
qed

end
