(* ===== verification/Exec_Approval.thy ===== *)
theory Exec_Approval
  imports Approval_Policy Command_Safety Policy_Parser
begin

text \<open>
  Whether a shell command may run, must be approved or is refused:
  \<open>create_exec_approval_requirement_for_command\<close> of \<open>codex-rs/core/src/exec_policy.rs\<close> with
  everything it calls there. It splits the command into the segments of a shell script
  (\<open>Bash_Script\<close>), evaluates the execution policy on them (\<open>Exec_Policy\<close>), judges the segments no
  rule matches by the safety heuristics (\<open>Command_Safety\<close>) and the approval settings
  (\<open>Approval_Policy\<close>), and proposes an amendment of the policy. The build is a Unix one: the
  PowerShell origin of a command does not exist and \<open>cfg!(windows)\<close> is false. The shell grammar
  (\<open>try_parse_shell\<close>) and the quoting of a command for a message (\<open>shlex\<close>) are arguments.
\<close>

section \<open>Prefixes that are never suggested\<close>

definition BANNED_PREFIX_SUGGESTIONS :: "ustr list list" where
  "BANNED_PREFIX_SUGGESTIONS = map (map str)
     [[''python3''], [''python3'', ''-''], [''python3'', ''-c''],
      [''python''], [''python'', ''-''], [''python'', ''-c''],
      [''py''], [''py'', ''-3''], [''pythonw''], [''pyw''], [''pypy''], [''pypy3''],
      [''git''],
      [''bash''], [''bash'', ''-lc''], [''sh''], [''sh'', ''-c''], [''sh'', ''-lc''],
      [''zsh''], [''zsh'', ''-lc''], [''/bin/zsh''], [''/bin/zsh'', ''-lc''],
      [''/bin/bash''], [''/bin/bash'', ''-lc''],
      [''pwsh''], [''pwsh'', ''-Command''], [''pwsh'', ''-c''],
      [''powershell''], [''powershell'', ''-Command''], [''powershell'', ''-c''],
      [''powershell.exe''], [''powershell.exe'', ''-Command''], [''powershell.exe'', ''-c''],
      [''env''], [''sudo''],
      [''node''], [''node'', ''-e''], [''perl''], [''perl'', ''-e''], [''ruby''], [''ruby'', ''-e''],
      [''php''], [''php'', ''-r''], [''lua''], [''lua'', ''-e''], [''osascript'']]"

section \<open>Commands without a rule\<close>

record unmatched_command_context =
  ctx_approval_policy :: ask_for_approval
  ctx_permission_profile :: permission_profile
  ctx_sandbox_policy :: sandbox_policy
  ctx_sandbox_permissions :: sandbox_permissions
  ctx_used_complex_parsing :: bool

definition sandbox_is_explicitly_disabled :: "permission_profile \<Rightarrow> bool" where
  "sandbox_is_explicitly_disabled profile \<longleftrightarrow> (case profile of Managed _ _ \<Rightarrow> False | _ \<Rightarrow> True)"

text \<open>The last match of the function, for a command that is not flagged as dangerous.\<close>

definition decision_for_harmless_command :: "unmatched_command_context \<Rightarrow> decision" where
  "decision_for_harmless_command ctx =
     (let by_sandbox =
            (case sandbox_kind (ctx_sandbox_policy ctx) of
               Restricted \<Rightarrow> if requests_sandbox_override (ctx_sandbox_permissions ctx) then Prompt else Allow
             | _ \<Rightarrow> Allow)
      in case ctx_approval_policy ctx of
           Never \<Rightarrow> Allow
         | OnFailure \<Rightarrow> Allow
         | UnlessTrusted \<Rightarrow> Prompt
         | OnRequest \<Rightarrow> by_sandbox
         | Granular _ \<Rightarrow> by_sandbox)"

text \<open>\<open>is_known_safe_command\<close> cannot panic (\<open>is_known_safe_command_no_panic\<close>), so comparing with \<open>Ok True\<close> loses nothing.\<close>

definition render_decision_for_unmatched_command ::
  "(ustr \<Rightarrow> tree option) \<Rightarrow> unmatched_command_context \<Rightarrow> ustr list \<Rightarrow> decision" where
  "render_decision_for_unmatched_command try_parse_shell ctx command =
     (if is_known_safe_command try_parse_shell command = Ok True \<and> \<not> ctx_used_complex_parsing ctx
         \<and> ctx_approval_policy ctx = UnlessTrusted
      then Allow
      else if command_might_be_dangerous try_parse_shell command
      then (case ctx_approval_policy ctx of
              Never \<Rightarrow>
                if sandbox_is_explicitly_disabled (ctx_permission_profile ctx) then Allow else Forbidden
            | _ \<Rightarrow> Prompt)
      else decision_for_harmless_command ctx)"

section \<open>The segments of a command\<close>

record exec_policy_commands =
  segments :: "ustr list list"
  used_complex_parsing :: bool

definition commands_for_exec_policy :: "(ustr \<Rightarrow> tree option) \<Rightarrow> ustr list \<Rightarrow> exec_policy_commands" where
  "commands_for_exec_policy try_parse_shell command =
     (let fallback =
            (case parse_shell_lc_single_command_prefix try_parse_shell command of
               Some single_command \<Rightarrow> \<lparr>segments = [single_command], used_complex_parsing = True\<rparr>
             | None \<Rightarrow> \<lparr>segments = [command], used_complex_parsing = False\<rparr>)
      in case parse_shell_lc_plain_commands try_parse_shell command of
           Some commands \<Rightarrow>
             if commands \<noteq> [] then \<lparr>segments = commands, used_complex_parsing = False\<rparr> else fallback
         | None \<Rightarrow> fallback)"

section \<open>Proposed amendments\<close>

definition is_policy_match :: "rule_match \<Rightarrow> bool" where
  "is_policy_match m \<longleftrightarrow> (case m of PrefixRuleMatch _ _ _ _ \<Rightarrow> True | HeuristicsRuleMatch _ _ \<Rightarrow> False)"

text \<open>\<open>Iterator::find_map\<close>.\<close>

fun find_map :: "('a \<Rightarrow> 'b option) \<Rightarrow> 'a list \<Rightarrow> 'b option" where
  "find_map f [] = None"
| "find_map f (x # xs) = (case f x of Some y \<Rightarrow> Some y | None \<Rightarrow> find_map f xs)"

definition heuristics_command :: "decision \<Rightarrow> rule_match \<Rightarrow> exec_policy_amendment option" where
  "heuristics_command d m =
     (case m of HeuristicsRuleMatch command d' \<Rightarrow> if d' = d then Some command else None | _ \<Rightarrow> None)"

definition try_derive_execpolicy_amendment_for_prompt_rules ::
  "rule_match list \<Rightarrow> exec_policy_amendment option" where
  "try_derive_execpolicy_amendment_for_prompt_rules ms =
     (if list_ex (\<lambda>m. is_policy_match m \<and> match_decision m = Prompt) ms then None
      else find_map (heuristics_command Prompt) ms)"

definition try_derive_execpolicy_amendment_for_allow_rules ::
  "rule_match list \<Rightarrow> exec_policy_amendment option" where
  "try_derive_execpolicy_amendment_for_allow_rules ms =
     (if list_ex is_policy_match ms then None else find_map (heuristics_command Allow) ms)"

definition prefix_rule_would_approve_all_commands ::
  "path_env \<Rightarrow> policy \<Rightarrow> ustr list \<Rightarrow> ustr list list \<Rightarrow> (ustr list \<Rightarrow> decision) \<Rightarrow> bool" where
  "prefix_rule_would_approve_all_commands env p prefix commands fallback =
     (case add_prefix_rule prefix Allow p of
        Ok policy_with_prefix_rule \<Rightarrow>
          list_all (\<lambda>command.
            case check_with_options env policy_with_prefix_rule command fallback True of
              Ok e \<Rightarrow> decision e = Allow
            | _ \<Rightarrow> False) commands
      | _ \<Rightarrow> False)"

definition derive_requested_execpolicy_amendment_from_prefix_rule ::
  "path_env \<Rightarrow> ustr list option \<Rightarrow> rule_match list \<Rightarrow> policy \<Rightarrow> ustr list list \<Rightarrow> (ustr list \<Rightarrow> decision)
    \<Rightarrow> exec_policy_amendment option" where
  "derive_requested_execpolicy_amendment_from_prefix_rule env prefix_rule ms p commands fallback =
     (case prefix_rule of
        None \<Rightarrow> None
      | Some prefix \<Rightarrow>
          if prefix = [] then None
          else if list_ex (\<lambda>banned. prefix = banned) BANNED_PREFIX_SUGGESTIONS then None
          else if list_ex is_policy_match ms then None
          else if prefix_rule_would_approve_all_commands env p prefix commands fallback then Some prefix
          else None)"

section \<open>Reasons\<close>

definition render_shlex_command :: "(ustr list \<Rightarrow> ustr option) \<Rightarrow> ustr list \<Rightarrow> ustr" where
  "render_shlex_command shlex_try_join args =
     (case shlex_try_join args of Some s \<Rightarrow> s | None \<Rightarrow> join_with (str '' '') args)"

definition matches_deciding :: "decision \<Rightarrow> rule_match \<Rightarrow> (ustr list \<times> ustr option) option" where
  "matches_deciding d m =
     (case m of
        PrefixRuleMatch matched_prefix d' _ j \<Rightarrow> if d' = d then Some (matched_prefix, j) else None
      | _ \<Rightarrow> None)"

definition backquoted :: "ustr \<Rightarrow> ustr" where
  "backquoted s = str ''`'' @ s @ str ''`''"

definition derive_prompt_reason ::
  "(ustr list \<Rightarrow> ustr option) \<Rightarrow> ustr list \<Rightarrow> evaluation \<Rightarrow> ustr option" where
  "derive_prompt_reason shlex_try_join args e =
     (let command = render_shlex_command shlex_try_join args in
      case max_by_key (\<lambda>(n, _). n)
             (map (\<lambda>(matched_prefix, j). (length matched_prefix, j))
               (List.map_filter (matches_deciding Prompt) (matched_rules e))) of
        Some (_, Some j) \<Rightarrow> Some (backquoted command @ str '' requires approval: '' @ j)
      | Some (_, None) \<Rightarrow> Some (backquoted command @ str '' requires approval by policy'')
      | None \<Rightarrow> None)"

definition derive_forbidden_reason :: "(ustr list \<Rightarrow> ustr option) \<Rightarrow> ustr list \<Rightarrow> evaluation \<Rightarrow> ustr" where
  "derive_forbidden_reason shlex_try_join args e =
     (let command = render_shlex_command shlex_try_join args in
      case max_by_key (\<lambda>(matched_prefix, _). length matched_prefix)
             (List.map_filter (matches_deciding Forbidden) (matched_rules e)) of
        Some (_, Some j) \<Rightarrow> backquoted command @ str '' rejected: '' @ j
      | Some (matched_prefix, None) \<Rightarrow>
          backquoted command @ str '' rejected: policy forbids commands starting with ''
          @ backquoted (render_shlex_command shlex_try_join matched_prefix)
      | None \<Rightarrow> backquoted command @ str '' rejected: blocked by policy'')"

section \<open>The requirement\<close>

record exec_approval_request =
  req_command :: "ustr list"
  req_approval_policy :: ask_for_approval
  req_permission_profile :: permission_profile
  req_sandbox_policy :: sandbox_policy
  req_sandbox_permissions :: sandbox_permissions
  req_prefix_rule :: "ustr list option"

definition exec_policy_fallback ::
  "(ustr \<Rightarrow> tree option) \<Rightarrow> exec_approval_request \<Rightarrow> ustr list \<Rightarrow> decision" where
  "exec_policy_fallback try_parse_shell req =
     render_decision_for_unmatched_command try_parse_shell
       \<lparr>ctx_approval_policy = req_approval_policy req, ctx_permission_profile = req_permission_profile req,
        ctx_sandbox_policy = req_sandbox_policy req, ctx_sandbox_permissions = req_sandbox_permissions req,
        ctx_used_complex_parsing = used_complex_parsing (commands_for_exec_policy try_parse_shell (req_command req))\<rparr>"

definition has_allow_rule :: "path_env \<Rightarrow> policy \<Rightarrow> ustr list \<Rightarrow> bool" where
  "has_allow_rule env p command \<longleftrightarrow>
     list_ex (\<lambda>m. is_policy_match m \<and> match_decision m = Allow)
       (matches_for_command_with_options env p command None True)"

definition requirement_for_evaluation ::
  "path_env \<Rightarrow> (ustr \<Rightarrow> tree option) \<Rightarrow> (ustr list \<Rightarrow> ustr option) \<Rightarrow> policy \<Rightarrow> exec_approval_request
    \<Rightarrow> evaluation \<Rightarrow> exec_approval_requirement" where
  "requirement_for_evaluation env try_parse_shell shlex_try_join p req e =
     (let cmds = commands_for_exec_policy try_parse_shell (req_command req);
          auto_amendment_allowed = \<not> used_complex_parsing cmds;
          requested_amendment =
            (if auto_amendment_allowed
             then derive_requested_execpolicy_amendment_from_prefix_rule env (req_prefix_rule req)
                    (matched_rules e) p (segments cmds) (exec_policy_fallback try_parse_shell req)
             else None)
      in case decision e of
           Forbidden \<Rightarrow> ForbiddenExec (derive_forbidden_reason shlex_try_join (req_command req) e)
         | Prompt \<Rightarrow>
             (let prompt_is_rule =
                    list_ex (\<lambda>m. is_policy_match m \<and> match_decision m = Prompt) (matched_rules e)
              in case prompt_is_rejected_by_policy (req_approval_policy req) prompt_is_rule of
                   Some reason \<Rightarrow> ForbiddenExec reason
                 | None \<Rightarrow>
                     NeedsApproval (derive_prompt_reason shlex_try_join (req_command req) e)
                       (case requested_amendment of
                          Some a \<Rightarrow> Some a
                        | None \<Rightarrow>
                            if auto_amendment_allowed
                            then try_derive_execpolicy_amendment_for_prompt_rules (matched_rules e)
                            else None))
         | Allow \<Rightarrow>
             Skip (list_all (has_allow_rule env p) (segments cmds))
               (if auto_amendment_allowed
                then try_derive_execpolicy_amendment_for_allow_rules (matched_rules e)
                else None))"

definition create_exec_approval_requirement_for_command ::
  "path_env \<Rightarrow> (ustr \<Rightarrow> tree option) \<Rightarrow> (ustr list \<Rightarrow> ustr option) \<Rightarrow> policy \<Rightarrow> exec_approval_request
    \<Rightarrow> (exec_approval_requirement, policy_error) outcome" where
  "create_exec_approval_requirement_for_command env try_parse_shell shlex_try_join p req =
     obind (check_multiple_with_options env p
              (segments (commands_for_exec_policy try_parse_shell (req_command req)))
              (exec_policy_fallback try_parse_shell req) True) (\<lambda>e.
       Ok (requirement_for_evaluation env try_parse_shell shlex_try_join p req e))"

section \<open>Rules and heuristics\<close>

abbreviation rule_hits :: "path_env \<Rightarrow> policy \<Rightarrow> ustr list \<Rightarrow> rule_match list" where
  "rule_hits env p c \<equiv> matches_for_command_with_options env p c None True"

lemma rule_matches_policy_match: "rule_matches r c = Some m \<Longrightarrow> is_policy_match m"
  by (auto simp: rule_matches_def is_policy_match_def)

lemma with_resolved_program_match [simp]: "is_policy_match (with_resolved_program m x) = is_policy_match m"
  by (cases m) (simp_all add: is_policy_match_def)

lemma exact_hits: "rule_hits env p c =
    (if exact_matches p c \<noteq> [] then exact_matches p c else match_host_executable_rules env p c)"
  by (simp add: matches_for_command_with_options_def Let_def exact_matches_def split: list.split)

lemma exact_matches_policy: "m \<in> set (exact_matches p c) \<Longrightarrow> is_policy_match m"
  by (cases c) (auto simp: exact_matches_Cons set_map_filter dest: rule_matches_policy_match)

lemma host_matches_policy: "m \<in> set (match_host_executable_rules env p c) \<Longrightarrow> is_policy_match m"
  by (auto simp: match_host_executable_rules_def set_map_filter split: list.splits option.splits if_splits)
    (erule rule_matches_policy_match)+

lemma rule_hits_policy: "m \<in> set (rule_hits env p c) \<Longrightarrow> is_policy_match m"
  by (auto simp: exact_hits dest: exact_matches_policy host_matches_policy split: if_splits)

lemma matches_with_fallback:
  "matches_for_command_with_options env p c (Some h) True =
     (if rule_hits env p c = [] then [HeuristicsRuleMatch c (h c)] else rule_hits env p c)"
  by (simp add: matches_for_command_with_options_def Let_def split: list.split)

lemma verdict_hits:
  "verdict env p h True c =
     (if rule_hits env p c = [] then h c else Max (match_decision ` set (rule_hits env p c)))"
  by (simp add: verdict_def matches_with_fallback)

lemma verdict_Allow_iff:
  "verdict env p h True c = Allow \<longleftrightarrow>
     (if rule_hits env p c = [] then h c = Allow
      else list_all (\<lambda>m. match_decision m = Allow) (rule_hits env p c))"
proof (cases "rule_hits env p c = []")
  case False
  let ?ds = "match_decision ` set (rule_hits env p c)"
  have "Max ?ds = Allow \<longleftrightarrow> (\<forall>d \<in> ?ds. d \<le> Allow)"
    using False by (metis List.finite_set Max_le_iff finite_imageI image_is_empty le_Allow_iff set_empty)
  with False show ?thesis by (simp add: verdict_hits list_all_iff)
qed (simp add: verdict_hits)

lemma segments_not_Nil: "segments (commands_for_exec_policy tp c) \<noteq> []"
  by (simp add: commands_for_exec_policy_def Let_def split: option.splits)

lemma fallback_Allow_iff:
  "exec_policy_fallback tp req c = Allow \<longleftrightarrow>
     (case req_approval_policy req of
        UnlessTrusted \<Rightarrow> is_known_safe_command tp c = Ok True
          \<and> \<not> used_complex_parsing (commands_for_exec_policy tp (req_command req))
      | Never \<Rightarrow> command_might_be_dangerous tp c \<longrightarrow> sandbox_is_explicitly_disabled (req_permission_profile req)
      | OnFailure \<Rightarrow> \<not> command_might_be_dangerous tp c
      | _ \<Rightarrow> \<not> command_might_be_dangerous tp c
          \<and> \<not> (sandbox_kind (req_sandbox_policy req) = Restricted
                \<and> requests_sandbox_override (req_sandbox_permissions req)))"
  by (auto simp: exec_policy_fallback_def render_decision_for_unmatched_command_def
      decision_for_harmless_command_def Let_def split: ask_for_approval.split sandbox_kind.split)

section \<open>The requirement decides as the rules and settings say\<close>

text \<open>
  The reference: a segment may run without a question when the rules that match it all allow it, or
  when no rule matches and the approval setting leaves the segment to the sandbox.
\<close>

definition segment_allowed ::
  "path_env \<Rightarrow> (ustr \<Rightarrow> tree option) \<Rightarrow> policy \<Rightarrow> exec_approval_request \<Rightarrow> ustr list \<Rightarrow> bool" where
  "segment_allowed env tp p req c \<longleftrightarrow>
     (if rule_hits env p c \<noteq> [] then list_all (\<lambda>m. match_decision m = Allow) (rule_hits env p c)
      else (case req_approval_policy req of
              UnlessTrusted \<Rightarrow> is_known_safe_command tp c = Ok True
                \<and> \<not> used_complex_parsing (commands_for_exec_policy tp (req_command req))
            | Never \<Rightarrow> command_might_be_dangerous tp c \<longrightarrow> sandbox_is_explicitly_disabled (req_permission_profile req)
            | OnFailure \<Rightarrow> \<not> command_might_be_dangerous tp c
            | _ \<Rightarrow> \<not> command_might_be_dangerous tp c
                \<and> \<not> (sandbox_kind (req_sandbox_policy req) = Restricted
                      \<and> requests_sandbox_override (req_sandbox_permissions req))))"

definition may_ask :: "ask_for_approval \<Rightarrow> bool \<Rightarrow> bool" where
  "may_ask approval by_rule \<longleftrightarrow>
     (case approval of
        Never \<Rightarrow> False
      | Granular g \<Rightarrow> if by_rule then rules_approval g else sandbox_approval g
      | _ \<Rightarrow> True)"

lemma segment_allowed_verdict:
  "segment_allowed env tp p req c \<longleftrightarrow> verdict env p (exec_policy_fallback tp req) True c = Allow"
  by (simp add: segment_allowed_def verdict_Allow_iff fallback_Allow_iff)

lemma rejected_by_policy_iff: "prompt_is_rejected_by_policy approval by_rule = None \<longleftrightarrow> may_ask approval by_rule"
  by (simp add: prompt_is_rejected_by_policy_def may_ask_def split: ask_for_approval.split)

lemma list_ex_policy_hits:
  "list_ex (\<lambda>m. is_policy_match m \<and> P m) (rule_hits env p c) \<longleftrightarrow> list_ex P (rule_hits env p c)"
  using rule_hits_policy [of _ env p c] by (auto simp: list_ex_iff)

lemma list_ex_policy_matches:
  "list_ex (\<lambda>m. is_policy_match m \<and> P m) (matches_for_command_with_options env p c (Some h) True) \<longleftrightarrow>
   list_ex P (rule_hits env p c)"
  using list_ex_policy_hits [of P env p c]
  by (cases "rule_hits env p c = []") (simp_all add: matches_with_fallback is_policy_match_def)

lemma has_allow_rule_hits:
  "verdict env p h True c = Allow \<Longrightarrow> has_allow_rule env p c \<longleftrightarrow> rule_hits env p c \<noteq> []"
  unfolding has_allow_rule_def list_ex_policy_hits
  by (cases "rule_hits env p c") (auto simp: verdict_Allow_iff split: if_splits)

definition asking_rule :: "path_env \<Rightarrow> policy \<Rightarrow> ustr list \<Rightarrow> bool" where
  "asking_rule env p c \<longleftrightarrow> list_ex (\<lambda>m. match_decision m = Prompt) (rule_hits env p c)"

lemma prompt_is_rule_iff:
  "list_ex (\<lambda>m. is_policy_match m \<and> match_decision m = Prompt)
     (concat (map (\<lambda>c. matches_for_command_with_options env p c (Some h) True) cs)) \<longleftrightarrow>
   list_ex (asking_rule env p) cs"
  by (induction cs) (simp_all add: list_ex_policy_matches asking_rule_def)

lemma Max_decision_cases:
  assumes "finite A" "A \<noteq> {}"
  shows "Max A = Forbidden \<longleftrightarrow> Forbidden \<in> A" "Max A = Allow \<longleftrightarrow> A \<subseteq> {Allow}"
    "Max A = Prompt \<longleftrightarrow> Prompt \<in> A \<and> Forbidden \<notin> A"
proof -
  have F: "Max A = Forbidden \<longleftrightarrow> Forbidden \<in> A"
    using assms by (metis Forbidden_le_iff Max_ge Max_in)
  have A: "Max A = Allow \<longleftrightarrow> A \<subseteq> {Allow}"
    using assms Max_in [of A] Max_ge [of A] le_Allow_iff by (metis singletonD singletonI subset_iff)
  show "Max A = Forbidden \<longleftrightarrow> Forbidden \<in> A" "Max A = Allow \<longleftrightarrow> A \<subseteq> {Allow}" by (fact F A)+
  show "Max A = Prompt \<longleftrightarrow> Prompt \<in> A \<and> Forbidden \<notin> A"
  proof
    assume "Max A = Prompt"
    with F Max_in [OF assms] show "Prompt \<in> A \<and> Forbidden \<notin> A" by simp
  next
    assume "Prompt \<in> A \<and> Forbidden \<notin> A"
    with F A show "Max A = Prompt" by (cases "Max A") auto
  qed
qed

lemma create_requirement_eval:
  defines "cmds tp req \<equiv> segments (commands_for_exec_policy tp (req_command req))"
  shows "create_exec_approval_requirement_for_command env tp sj p req =
    Ok (requirement_for_evaluation env tp sj p req
      \<lparr>decision = Max (verdict env p (exec_policy_fallback tp req) True ` set (cmds tp req)),
       matched_rules = concat (map (\<lambda>c.
         matches_for_command_with_options env p c (Some (exec_policy_fallback tp req)) True) (cmds tp req))\<rparr>)"
  by (simp add: create_exec_approval_requirement_for_command_def check_multiple_eval segments_not_Nil cmds_def)

text \<open>
  C5: the requirement for a command. It is computed for every command without a panic, and each
  outcome means what it should. Nothing is skipped unless every segment of the script is allowed by
  its rules or, where it has none, by the approval setting: a command flagged as dangerous without a
  rule is skipped only where the user never wants to be asked and has disabled the sandbox. The
  sandbox is bypassed exactly when rules allow every segment. The user is asked only if no segment is
  forbidden, some segment needs it and the approval setting permits a question of that origin;
  otherwise the command is refused.
\<close>

theorem approval_requirement_spec:
  "\<exists>r. create_exec_approval_requirement_for_command env tp sj p req = Ok r \<and>
     (let segs = segments (commands_for_exec_policy tp (req_command req));
          judged = (\<lambda>d. list_ex (\<lambda>c. verdict env p (exec_policy_fallback tp req) True c = d) segs);
          askable = may_ask (req_approval_policy req) (list_ex (asking_rule env p) segs)
      in case r of
           Skip bypass_sandbox _ \<Rightarrow> list_all (segment_allowed env tp p req) segs
             \<and> bypass_sandbox = list_all (\<lambda>c. rule_hits env p c \<noteq> []) segs
         | NeedsApproval _ _ \<Rightarrow> judged Prompt \<and> \<not> judged Forbidden \<and> askable
         | ForbiddenExec _ \<Rightarrow> judged Forbidden \<or> judged Prompt \<and> \<not> askable)"
proof -
  let ?h = "exec_policy_fallback tp req" and ?segs = "segments (commands_for_exec_policy tp (req_command req))"
  let ?d = "Max (verdict env p ?h True ` set ?segs)"
  have ne: "verdict env p ?h True ` set ?segs \<noteq> {}" using segments_not_Nil by simp
  have judged: "list_ex (\<lambda>c. verdict env p ?h True c = d) ?segs \<longleftrightarrow> d \<in> verdict env p ?h True ` set ?segs" for d
    by (auto simp: list_ex_iff)
  note [simp] = create_requirement_eval requirement_for_evaluation_def Let_def prompt_is_rule_iff judged
  note d = Max_decision_cases [OF finite_imageI [OF finite_set] ne]
  show ?thesis
  proof (cases ?d)
    case Allow
    then have allow: "verdict env p ?h True c = Allow" if "c \<in> set ?segs" for c
      using that d(2) by auto
    then show ?thesis
      using Allow by (auto simp: list_all_iff segment_allowed_verdict has_allow_rule_hits [OF allow])
  next
    case Prompt
    with d(3) have "Prompt \<in> verdict env p ?h True ` set ?segs \<and> Forbidden \<notin> verdict env p ?h True ` set ?segs"
      by simp
    with Prompt show ?thesis
      using rejected_by_policy_iff [of "req_approval_policy req" "list_ex (asking_rule env p) ?segs"]
      by (cases "prompt_is_rejected_by_policy (req_approval_policy req) (list_ex (asking_rule env p) ?segs)") simp_all
  next
    case Forbidden
    with d(1) show ?thesis by simp
  qed
qed

section \<open>Amendments take effect\<close>

lemma matches_prefix_extend: "matches_prefix pat c = Some pre \<Longrightarrow> matches_prefix pat (c @ args) = Some pre"
  by (auto simp: matches_prefix_Some_iff)

lemma rule_matches_extend: "rule_matches r c \<noteq> None \<Longrightarrow> rule_matches r (c @ args) \<noteq> None"
  using matches_prefix_extend [of "pattern r" c _ args] by (auto simp: rule_matches_def)

lemma exact_matches_extend: "exact_matches p c \<noteq> [] \<Longrightarrow> exact_matches p (c @ args) \<noteq> []"
  using rule_matches_extend [of _ c args]
  by (cases c) (auto simp: exact_matches_Cons map_filter_Nil_iff, blast)

text \<open>Host executable rules apply to a command through its file name.\<close>

definition host_alias :: "path_env \<Rightarrow> policy \<Rightarrow> ustr list \<Rightarrow> ustr list option" where
  "host_alias env p c =
     (case c of
        [] \<Rightarrow> None
      | first_token # args \<Rightarrow>
          Option.bind (abs_try_from env first_token) (\<lambda>program.
          Option.bind (executable_path_lookup_key program) (\<lambda>basename.
            if (case host_executables_by_name p basename of
                  Some paths \<Rightarrow> \<not> list_ex (\<lambda>path. path = program) paths | None \<Rightarrow> False)
            then None else Some (basename # args))))"

lemma host_matches_alias:
  "match_host_executable_rules env p c \<noteq> [] \<longleftrightarrow>
     (\<exists>c'. host_alias env p c = Some c' \<and> exact_matches p c' \<noteq> [])"
proof (cases c)
  case (Cons t args)
  show ?thesis
  proof (cases "Option.bind (abs_try_from env t) executable_path_lookup_key")
    case None
    then show ?thesis
      by (cases "abs_try_from env t") (simp_all add: Cons match_host_executable_rules_def host_alias_def)
  next
    case (Some b)
    then show ?thesis
      by (cases "abs_try_from env t"; cases "get_vec (rules_by_program p) b")
        (simp_all add: Cons match_host_executable_rules_def host_alias_def exact_matches_Cons rules_for_def
          List.map_filter_simps split: if_split)
  qed
qed (simp add: match_host_executable_rules_def host_alias_def)

lemma rule_hits_Nil_iff:
  "rule_hits env p c = [] \<longleftrightarrow> exact_matches p c = []
     \<and> (\<forall>c'. host_alias env p c = Some c' \<longrightarrow> exact_matches p c' = [])"
  using host_matches_alias [of env p c] by (auto simp: exact_hits)

lemma host_alias_extend: "host_alias env p c = Some c' \<Longrightarrow> host_alias env p (c @ args) = Some (c' @ args)"
  by (auto simp: host_alias_def split: list.splits bind_splits if_splits)

lemma rule_hits_extend: "rule_hits env p c \<noteq> [] \<Longrightarrow> rule_hits env p (c @ args) \<noteq> []"
  unfolding rule_hits_Nil_iff using exact_matches_extend host_alias_extend by blast

lemma matches_prefix_literal:
  "matches_prefix \<lparr>first = t, rest = map Single ts\<rparr> c = (if starts_with (t # ts) c then Some (t # ts) else None)"
proof (cases "starts_with (t # ts) c")
  case False
  have "\<not> (\<exists>pre. matches_prefix \<lparr>first = t, rest = map Single ts\<rparr> c = Some pre)"
  proof
    assume "\<exists>pre. matches_prefix \<lparr>first = t, rest = map Single ts\<rparr> c = Some pre"
    then obtain toks args where c: "c = t # toks @ args" "list_all2 token_matches (map Single ts) toks"
      by (auto simp: matches_prefix_Some_iff)
    then have "toks = ts" by (simp add: list_all2_conv_all_nth list_eq_iff_nth_eq)
    with c(1) False show False by (simp add: starts_with_iff)
  qed
  with False show ?thesis by auto
qed (auto simp: starts_with_iff matches_prefix_Single)

lemma exact_matches_add:
  assumes "add_prefix_rule a d p = Ok p'"
  shows "exact_matches p' c = exact_matches p c @ (if starts_with a c then [PrefixRuleMatch a d None None] else [])"
proof (cases c)
  case Nil
  with assms show ?thesis by (cases a) (auto simp: add_prefix_rule_def starts_with_iff)
next
  case (Cons t args)
  with assms show ?thesis
    by (cases a)
      (auto simp: add_prefix_rule_def exact_matches_Cons map_filter_append List.map_filter_simps
        rule_matches_def matches_prefix_literal starts_with_iff)
qed

lemma host_alias_add: "add_prefix_rule a d p = Ok p' \<Longrightarrow> host_alias env p' = host_alias env p"
  by (cases a) (auto simp: add_prefix_rule_def host_alias_def fun_eq_iff split: list.split)

lemma add_hits:
  assumes "add_prefix_rule a d p = Ok p'" "rule_hits env p c = []" "rule_hits env p' c \<noteq> []"
  shows "starts_with a c \<or> (\<exists>c'. host_alias env p c = Some c' \<and> starts_with a c')"
  using assms unfolding rule_hits_Nil_iff
  by (auto simp: exact_matches_add [OF assms(1)] host_alias_add [OF assms(1)] split: if_splits)

text \<open>
  A plain file name is looked up under itself, also after it was resolved against the working directory; the
  exception is \<open>~\<close>, which stands for the home directory.
\<close>

lemma components_join_name:
  assumes "name_ok n"
  shows "components (path_join base n) = components base @ [Normal n]"
proof -
  have n: "split_on slash n = [n]" "\<not> is_absolute n" "seg_component n = Normal n" "n \<noteq> []" "n \<noteq> dot"
    using assms by (auto simp: name_ok_def split_on_notin is_absolute_def seg_component_def split: list.splits)
  have abs: "is_absolute (b @ x) = is_absolute b" if "b \<noteq> []" for b x
    using that by (cases b) (simp_all add: is_absolute_def)
  consider "base = []" | "base = [slash]" | b where "base = b @ [slash]" "b \<noteq> []" | "base \<noteq> []" "last base \<noteq> slash"
    by (metis append_Nil append_butlast_last_id)
  then show ?thesis
  proof cases
    case 3
    then show ?thesis using n split_on_append_sep [of slash b n] split_on_append_sep [of slash b "[]"]
      by (simp add: path_join_def components_def abs Let_def)
  next
    case 4
    then show ?thesis using n split_on_append_sep [of slash base n]
      by (simp add: path_join_def components_def abs Let_def)
  qed (use n in \<open>simp_all add: path_join_def components_def is_absolute_def dot_def\<close>)
qed

lemma file_name_display:
  assumes "list_all name_ok ns" "name_ok n"
  shows "file_name (npath_display (r, ns @ [n])) = Some n"
proof (cases r)
  case True
  then show ?thesis
    using components_abs_display [of "ns @ [n]"] assms by (simp add: file_name_def last_opt_def abs_display_def)
next
  case False
  have "split_on slash (join_with [slash] (ns @ [n])) = ns @ [n]"
    using assms by (intro split_on_join) (auto simp: list_all_iff name_ok_def)
  moreover have "seg_component n = Normal n" "n \<noteq> []" "n \<noteq> dot" using assms(2) by (auto simp: name_ok_def seg_component_def)
  ultimately show ?thesis
    using False by (simp add: file_name_def components_def npath_display_def last_opt_def Let_def)
qed

lemma file_name_normalized:
  assumes "name_ok n"
  shows "file_name (normalize_path (path_join base n)) = Some n"
proof -
  obtain r ns where np: "foldl normalize_step (False, []) (components base) = (r, ns)" by fastforce
  have "list_all name_ok (snd (foldl normalize_step (False, []) (components base)))"
    by (rule foldl_normalize_ok) (auto dest: components_Normal)
  then have "list_all name_ok ns" by (simp add: np)
  moreover have "npath_display (r, ns @ [n]) \<noteq> []"
    using assms file_name_display [OF calculation assms, of r] by (auto simp: file_name_def components_def is_absolute_def last_opt_def dot_def)
  ultimately show ?thesis
    using file_name_display [OF _ assms] by (simp add: normalize_path_def components_join_name [OF assms] np)
qed

lemma plain_name_lookup:
  assumes "name_ok b" "b \<noteq> str ''~''" "abs_try_from env b = Some program"
  shows "executable_path_lookup_key program = Some b"
proof -
  have rel: "\<not> is_absolute b" using assms(1) by (auto simp: name_ok_def is_absolute_def split: list.splits)
  have "maybe_expand_home_directory (home_dir env) b = b"
    using assms(1,2) by (auto simp: maybe_expand_home_directory_def name_ok_def str_Cons strip_prefix_Some_iff split: option.splits)
  with assms(3) rel obtain cwd where "program = normalize_path (path_join cwd b)"
    by (auto simp: abs_try_from_def from_absolute_path_def absolutize_from_def path_with_base_def split: if_splits)
  then show ?thesis
    using file_name_normalized [OF assms(1)] by (simp add: executable_path_lookup_key_def executable_lookup_key_def)
qed

lemma file_name_ok: "file_name p = Some n \<Longrightarrow> name_ok n"
proof -
  assume "file_name p = Some n"
  then have "components p \<noteq> []" "last (components p) = Normal n"
    by (auto simp: file_name_def last_opt_def split: if_splits option.splits component.splits)
  then show "name_ok n" by (metis components_Normal last_in_set)
qed

lemma host_alias_head: "host_alias env p c = Some (b # args) \<Longrightarrow> name_ok b"
  by (auto simp: host_alias_def executable_path_lookup_key_def executable_lookup_key_def
      split: list.splits bind_splits if_splits dest: file_name_ok)

lemma amendment_not_shadowed:
  assumes "add_prefix_rule a d p = Ok p'" "rule_hits env p c = []" "rule_hits env p' c \<noteq> []"
    and "hd a \<noteq> str ''~''"
  shows "rule_hits env p a = []"
proof (cases "starts_with a c")
  case True
  with assms(2) rule_hits_extend show ?thesis by (auto simp: starts_with_iff)
next
  case False
  then obtain c' where c': "host_alias env p c = Some c'" "starts_with a c'"
    using add_hits [OF assms(1-3)] by blast
  obtain b ts where a: "a = b # ts" using assms(1) by (cases a) (auto simp: add_prefix_rule_def)
  obtain args where args: "c' = b # ts @ args" using c'(2) by (auto simp: a starts_with_iff)
  have "exact_matches p c' = []" using assms(2) c'(1) by (auto simp: rule_hits_Nil_iff)
  then have exact: "exact_matches p a = []" using exact_matches_extend [of p a args] by (auto simp: a args)
  have "a' = a" if "host_alias env p a = Some a'" for a'
    using that assms(4) plain_name_lookup [OF host_alias_head [OF c'(1) [unfolded args]]]
    by (auto simp: a host_alias_def split: bind_splits if_splits)
  with exact show ?thesis by (auto simp: rule_hits_Nil_iff)
qed

lemma find_map_Some: "find_map f xs = Some y \<Longrightarrow> \<exists>x \<in> set xs. f x = Some y"
  by (induction xs) (auto split: option.splits)

lemma all_allowed_skips:
  assumes "\<And>c. c \<in> set (segments (commands_for_exec_policy tp (req_command req))) \<Longrightarrow>
      verdict env p (exec_policy_fallback tp req) True c = Allow"
  shows "\<exists>b x. create_exec_approval_requirement_for_command env tp sj p req = Ok (Skip b x)"
proof -
  let ?A = "verdict env p (exec_policy_fallback tp req) True ` set (segments (commands_for_exec_policy tp (req_command req)))"
  have "?A \<noteq> {}" "?A \<subseteq> {Allow}" using segments_not_Nil assms by auto
  then have "Max ?A = Allow" using Max_decision_cases(2) [of ?A] by simp
  then show ?thesis by (simp add: create_requirement_eval requirement_for_evaluation_def Let_def)
qed

lemma check_Allow_verdict:
  "(case check_with_options env p c h True of Ok e \<Rightarrow> decision e = Allow | _ \<Rightarrow> False) \<Longrightarrow>
   verdict env p h True c = Allow"
  by (auto simp: check_verdict split: outcome.splits)

lemma needs_approval_amendment:
  assumes "requirement_for_evaluation env tp sj p req e = NeedsApproval reason (Some a)"
  shows "decision e = Prompt
    \<and> (derive_requested_execpolicy_amendment_from_prefix_rule env (req_prefix_rule req) (matched_rules e) p
         (segments (commands_for_exec_policy tp (req_command req))) (exec_policy_fallback tp req) = Some a
       \<or> find_map (heuristics_command Prompt) (matched_rules e) = Some a)"
proof (cases "decision e")
  case Prompt
  let ?cmds = "commands_for_exec_policy tp (req_command req)"
  let ?rule = "list_ex (\<lambda>m. is_policy_match m \<and> match_decision m = Prompt) (matched_rules e)"
  show ?thesis
    using assms Prompt
    by (cases "prompt_is_rejected_by_policy (req_approval_policy req) ?rule"; cases "used_complex_parsing ?cmds";
        cases "derive_requested_execpolicy_amendment_from_prefix_rule env (req_prefix_rule req) (matched_rules e) p
          (segments ?cmds) (exec_policy_fallback tp req)"; cases ?rule)
      (simp_all add: requirement_for_evaluation_def try_derive_execpolicy_amendment_for_prompt_rules_def)
qed (use assms in \<open>simp_all add: requirement_for_evaluation_def Let_def\<close>)

text \<open>What is known of a proposed amendment: it was requested and approves every segment, or it is an unmatched segment.\<close>

lemma proposed_amendment_cases:
  fixes tp req
  defines "segs \<equiv> segments (commands_for_exec_policy tp (req_command req))" and "h \<equiv> exec_policy_fallback tp req"
  assumes "create_exec_approval_requirement_for_command env tp sj p req = Ok (NeedsApproval reason (Some a))"
  obtains (requested) p' c where "add_prefix_rule a Allow p = Ok p'"
      "\<And>c. c \<in> set segs \<Longrightarrow> verdict env p' h True c = Allow"
      "c \<in> set segs" "rule_hits env p c = []" "rule_hits env p' c \<noteq> []"
  | (derived) "a \<in> set segs" "rule_hits env p a = []" "h a = Prompt"
proof -
  let ?A = "verdict env p h True ` set segs"
  let ?ms = "concat (map (\<lambda>c. matches_for_command_with_options env p c (Some h) True) segs)"
  have prompt: "Max ?A = Prompt"
    and cases: "derive_requested_execpolicy_amendment_from_prefix_rule env (req_prefix_rule req) ?ms p segs h = Some a
      \<or> find_map (heuristics_command Prompt) ?ms = Some a"
    using needs_approval_amendment [OF assms(3) [unfolded create_requirement_eval outcome.inject]]
    by (simp_all add: segs_def h_def)
  from cases show thesis
  proof
    assume r: "derive_requested_execpolicy_amendment_from_prefix_rule env (req_prefix_rule req) ?ms p segs h = Some a"
    then have none: "\<not> list_ex is_policy_match ?ms"
      and all: "prefix_rule_would_approve_all_commands env p a segs h"
      by (auto simp: derive_requested_execpolicy_amendment_from_prefix_rule_def split: option.splits if_splits)
    obtain p' where p': "add_prefix_rule a Allow p = Ok p'"
      using all by (auto simp: prefix_rule_would_approve_all_commands_def split: outcome.splits)
    have allow: "verdict env p' h True c = Allow" if "c \<in> set segs" for c
      using all that by (auto simp: prefix_rule_would_approve_all_commands_def p' list_all_iff intro!: check_Allow_verdict)
    have "rule_hits env p c = []" if "c \<in> set segs" for c
      using none that list_ex_policy_matches [of "\<lambda>_. True" env p c h]
      by (cases "rule_hits env p c") (auto simp: list_ex_iff)
    moreover obtain c where c: "c \<in> set segs" "verdict env p h True c = Prompt"
      using prompt Max_in [of ?A] segments_not_Nil [of tp "req_command req"] by (fastforce simp: segs_def)
    moreover have "rule_hits env p' c \<noteq> []"
    proof
      assume "rule_hits env p' c = []"
      with allow [OF c(1)] c calculation(1) show False by (simp add: verdict_hits)
    qed
    ultimately show thesis using requested [OF p' allow] by blast
  next
    assume "find_map (heuristics_command Prompt) ?ms = Some a"
    then obtain c m where "c \<in> set segs" "m \<in> set (matches_for_command_with_options env p c (Some h) True)"
      "heuristics_command Prompt m = Some a"
      by (auto dest!: find_map_Some)
    then show thesis
      using derived rule_hits_policy [of m env p c]
      by (auto simp: matches_with_fallback heuristics_command_def is_policy_match_def
          split: if_splits rule_match.splits)
  qed
qed

end
