(* ===== verification/Config_Layers.thy ===== *)
theory Config_Layers
  imports Absolute_Path "HOL-Library.AList"
begin

text \<open>
  The configuration layers: where a layer comes from and its precedence
  (\<open>codex-rs/app-server-protocol/src/protocol/v2/config.rs\<close>), the stack of layers with its checks
  and updates (\<open>codex-rs/config/src/state.rs\<close>). A TOML table is an association list in the order
  in which its keys were inserted; floats and dates are kept as their text. The hash that is a layer's
  version is an argument. The merge of the layers is in \<open>Config_Merge\<close>.
\<close>

section \<open>Layers\<close>

datatype toml_value =
    TomlString ustr
  | TomlInteger int
  | TomlFloat ustr
  | TomlBoolean bool
  | TomlDatetime ustr
  | TomlArray "toml_value list"
  | TomlTable "(ustr \<times> toml_value) list"

type_synonym toml_table = "(ustr \<times> toml_value) list"

datatype config_layer_source =
    Mdm ustr ustr \<comment> \<open>domain, key\<close>
  | SystemFile ustr
  | EnterpriseManaged ustr ustr \<comment> \<open>id, name\<close>
  | UserFile ustr "ustr option" \<comment> \<open>file, profile\<close>
  | ProjectFolder ustr
  | SessionFlags
  | LegacyManagedConfigTomlFromFile ustr
  | LegacyManagedConfigTomlFromMdm

fun precedence :: "config_layer_source \<Rightarrow> int" where
  "precedence (Mdm _ _) = 0"
| "precedence (SystemFile _) = 10"
| "precedence (EnterpriseManaged _ _) = 15"
| "precedence (UserFile _ profile) = (if profile \<noteq> None then 21 else 20)"
| "precedence (ProjectFolder _) = 25"
| "precedence SessionFlags = 30"
| "precedence (LegacyManagedConfigTomlFromFile _) = 40"
| "precedence LegacyManagedConfigTomlFromMdm = 50"

record config_layer_entry =
  layer_name :: config_layer_source
  layer_config :: toml_value
  layer_version :: ustr
  disabled_reason :: "ustr option"
  hooks_config_folder_override :: "ustr option"

definition new_layer_entry :: "(toml_value \<Rightarrow> ustr) \<Rightarrow> config_layer_source \<Rightarrow> toml_value \<Rightarrow> config_layer_entry" where
  "new_layer_entry version_for_toml name config =
     \<lparr>layer_name = name, layer_config = config, layer_version = version_for_toml config,
      disabled_reason = None, hooks_config_folder_override = None\<rparr>"

definition is_disabled :: "config_layer_entry \<Rightarrow> bool" where
  "is_disabled layer \<longleftrightarrow> disabled_reason layer \<noteq> None"

definition config_folder :: "config_layer_entry \<Rightarrow> ustr option" where
  "config_folder layer =
     (case layer_name layer of
        SystemFile file \<Rightarrow> abs_parent file
      | UserFile file _ \<Rightarrow> abs_parent file
      | ProjectFolder dot_codex_folder \<Rightarrow> Some dot_codex_folder
      | _ \<Rightarrow> None)"

definition hooks_config_folder :: "config_layer_entry \<Rightarrow> ustr option" where
  "hooks_config_folder layer =
     (case hooks_config_folder_override layer of Some f \<Rightarrow> Some f | None \<Rightarrow> config_folder layer)"

section \<open>The stack\<close>

datatype layer_ordering = LowestPrecedenceFirst | HighestPrecedenceFirst

record 'r config_layer_stack =
  layers :: "config_layer_entry list"
  user_layer_index :: "nat option"
  requirements :: 'r
  ignore_user_and_project_exec_policy_rules :: bool

definition is_user_layer :: "config_layer_entry \<Rightarrow> bool" where
  "is_user_layer layer \<longleftrightarrow> (case layer_name layer of UserFile _ _ \<Rightarrow> True | _ \<Rightarrow> False)"

definition user_file :: "config_layer_entry \<Rightarrow> ustr option" where
  "user_file layer = (case layer_name layer of UserFile file _ \<Rightarrow> Some file | _ \<Rightarrow> None)"

fun is_sorted_by :: "('a \<Rightarrow> 'b :: linorder) \<Rightarrow> 'a list \<Rightarrow> bool" where
  "is_sorted_by f (x # y # xs) \<longleftrightarrow> f x \<le> f y \<and> is_sorted_by f (y # xs)"
| "is_sorted_by f _ \<longleftrightarrow> True"

datatype layer_error =
    NotInPrecedenceOrder
  | ProjectLayerWithoutParent
  | ProjectLayersNotRootToCwd

fun verify_layers_loop ::
  "config_layer_entry list \<Rightarrow> nat \<Rightarrow> nat option \<Rightarrow> ustr option \<Rightarrow> layer_error + nat option" where
  "verify_layers_loop [] index user_index previous = Inr user_index"
| "verify_layers_loop (layer # ls) index user_index previous =
     (let user_index = (if is_user_layer layer then Some index else user_index) in
      case layer_name layer of
        ProjectFolder current \<Rightarrow>
          (case previous of
             None \<Rightarrow> verify_layers_loop ls (Suc index) user_index (Some current)
           | Some prev \<Rightarrow>
               (case abs_parent prev of
                  None \<Rightarrow> Inl ProjectLayerWithoutParent
                | Some parent \<Rightarrow>
                    if prev = current \<or> parent \<notin> set (ancestors current) then Inl ProjectLayersNotRootToCwd
                    else verify_layers_loop ls (Suc index) user_index (Some current)))
      | _ \<Rightarrow> verify_layers_loop ls (Suc index) user_index previous)"

definition verify_layer_ordering :: "config_layer_entry list \<Rightarrow> layer_error + nat option" where
  "verify_layer_ordering ls =
     (if \<not> is_sorted_by (\<lambda>l. precedence (layer_name l)) ls then Inl NotInPrecedenceOrder
      else verify_layers_loop ls 0 None None)"

definition new_stack :: "config_layer_entry list \<Rightarrow> 'r \<Rightarrow> layer_error + 'r config_layer_stack" where
  "new_stack ls r =
     (case verify_layer_ordering ls of
        Inl e \<Rightarrow> Inl e
      | Inr i \<Rightarrow> Inr \<lparr>layers = ls, user_layer_index = i, requirements = r,
          ignore_user_and_project_exec_policy_rules = False\<rparr>)"

definition get_layers :: "layer_ordering \<Rightarrow> bool \<Rightarrow> 'r config_layer_stack \<Rightarrow> config_layer_entry list" where
  "get_layers order include_disabled stack =
     (let ls = filter (\<lambda>l. include_disabled \<or> \<not> is_disabled l) (layers stack) in
      if order = HighestPrecedenceFirst then rev ls else ls)"

definition get_user_layers :: "layer_ordering \<Rightarrow> bool \<Rightarrow> 'r config_layer_stack \<Rightarrow> config_layer_entry list" where
  "get_user_layers order include_disabled stack = filter is_user_layer (get_layers order include_disabled stack)"

definition get_active_user_layer :: "'r config_layer_stack \<Rightarrow> config_layer_entry option" where
  "get_active_user_layer stack = Option.bind (user_layer_index stack) (vec_get (layers stack))"

definition get_user_config_file :: "'r config_layer_stack \<Rightarrow> ustr option" where
  "get_user_config_file stack = Option.bind (get_active_user_layer stack) user_file"

definition insert_by_precedence :: "config_layer_entry \<Rightarrow> config_layer_entry list \<Rightarrow> config_layer_entry list" where
  "insert_by_precedence user_layer ls =
     (case position (\<lambda>l. precedence (layer_name l) > precedence (layer_name user_layer)) ls of
        Some index \<Rightarrow> take index ls @ user_layer # drop index ls
      | None \<Rightarrow> ls @ [user_layer])"

definition last_user_index :: "config_layer_entry list \<Rightarrow> nat option" where
  "last_user_index ls = find (\<lambda>i. is_user_layer (ls ! i)) (rev [0..<length ls])"

definition with_user_config_profile ::
  "(toml_value \<Rightarrow> ustr) \<Rightarrow> ustr \<Rightarrow> ustr option \<Rightarrow> toml_value \<Rightarrow> 'r config_layer_stack \<Rightarrow> 'r config_layer_stack" where
  "with_user_config_profile version_for_toml config_toml profile user_config stack =
     (let user_layer = new_layer_entry version_for_toml (UserFile config_toml profile) user_config;
          ls = (case position (\<lambda>l. user_file l = Some config_toml) (layers stack) of
                  Some index \<Rightarrow> take index (layers stack) @ drop (Suc index) (layers stack)
                | None \<Rightarrow> layers stack);
          ls = insert_by_precedence user_layer ls
      in stack\<lparr>layers := ls, user_layer_index := last_user_index ls\<rparr>)"

text \<open>\<open>parse_profile\<close> is the parser of profile names, \<open>None\<close> when the name is not one.\<close>

definition with_user_config ::
  "(toml_value \<Rightarrow> ustr) \<Rightarrow> (ustr \<Rightarrow> ustr option) \<Rightarrow> ustr \<Rightarrow> toml_value \<Rightarrow> 'r config_layer_stack
    \<Rightarrow> 'r config_layer_stack" where
  "with_user_config version_for_toml parse_profile config_toml user_config stack =
     (let profiles = List.map_filter (\<lambda>l. case layer_name l of
            UserFile file (Some profile) \<Rightarrow> if file = config_toml then parse_profile profile else None
          | _ \<Rightarrow> None) (layers stack)
      in with_user_config_profile version_for_toml config_toml
           (case profiles of [] \<Rightarrow> None | p # _ \<Rightarrow> Some p) user_config stack)"

definition with_user_layer_from :: "'r config_layer_stack \<Rightarrow> 'r config_layer_stack \<Rightarrow> 'r config_layer_stack" where
  "with_user_layer_from other stack =
     (let user_layers = filter is_user_layer (layers other);
          ls = fold insert_by_precedence user_layers (filter (\<lambda>l. \<not> is_user_layer l) (layers stack))
      in stack\<lparr>layers := ls, user_layer_index := last_user_index ls\<rparr>)"

section \<open>Stacks stay ordered\<close>

text \<open>The stacks the code can build, and what it relies on.\<close>

inductive built_stack :: "(toml_value \<Rightarrow> ustr) \<Rightarrow> 'r config_layer_stack \<Rightarrow> bool" for version where
  built_new: "new_stack ls r = Inr s \<Longrightarrow> built_stack version s"
| built_user_config: "built_stack version s \<Longrightarrow> built_stack version (with_user_config_profile version f profile c s)"
| built_user_layer_from: "built_stack version s \<Longrightarrow> built_stack version other \<Longrightarrow>
    built_stack version (with_user_layer_from other s)"

definition layer_key :: "config_layer_entry \<Rightarrow> int" where
  "layer_key l = precedence (layer_name l)"

definition stack_ok :: "'r config_layer_stack \<Rightarrow> bool" where
  "stack_ok s \<longleftrightarrow> sorted (map layer_key (layers s)) \<and> user_layer_index s = last_user_index (layers s)"

lemma is_sorted_by_sorted: "is_sorted_by f xs \<longleftrightarrow> sorted (map f xs)"
  by (induction f xs rule: is_sorted_by.induct) (auto simp: order_trans)

lemma insert_by_precedence_takeWhile:
  "insert_by_precedence l ls =
     takeWhile (\<lambda>x. layer_key x \<le> layer_key l) ls @ l # dropWhile (\<lambda>x. layer_key x \<le> layer_key l) ls"
proof -
  let ?P = "\<lambda>x. layer_key x > layer_key l"
  have pos: "position ?P ls = (if list_ex ?P ls then Some (length (takeWhile (\<lambda>x. \<not> ?P x) ls)) else None)"
    by (induction ls) auto
  have le: "(\<lambda>x. \<not> ?P x) = (\<lambda>x. layer_key x \<le> layer_key l)" by auto
  show ?thesis
  proof (cases "list_ex ?P ls")
    case True
    then show ?thesis
      using pos [unfolded le] takeWhile_eq_take [of "\<lambda>x. layer_key x \<le> layer_key l" ls]
        dropWhile_eq_drop [of "\<lambda>x. layer_key x \<le> layer_key l" ls]
      by (simp add: insert_by_precedence_def layer_key_def [symmetric])
  next
    case False
    then have all: "\<forall>x \<in> set ls. layer_key x \<le> layer_key l" by (auto simp: list_ex_iff not_less)
    then have eqs: "takeWhile (\<lambda>x. layer_key x \<le> layer_key l) ls = ls" "dropWhile (\<lambda>x. layer_key x \<le> layer_key l) ls = []"
      by (simp_all add: takeWhile_eq_all_conv)
    show ?thesis using False pos by (simp add: insert_by_precedence_def layer_key_def [symmetric] eqs)
  qed
qed

lemma sorted_insert_middle:
  "sorted (map f (A @ B)) \<Longrightarrow> (\<And>x. x \<in> set B \<Longrightarrow> f l \<le> f x) \<Longrightarrow> (\<And>x. x \<in> set A \<Longrightarrow> f x \<le> f l) \<Longrightarrow>
   sorted (map f (A @ l # B))" for f :: "'a \<Rightarrow> 'b :: linorder"
  by (auto simp: sorted_append)

lemma sorted_insert_by_precedence:
  "sorted (map layer_key ls) \<Longrightarrow> sorted (map layer_key (insert_by_precedence l ls))"
proof -
  let ?P = "\<lambda>x. layer_key x \<le> layer_key l"
  assume "sorted (map layer_key ls)"
  then have s: "sorted (map layer_key (takeWhile ?P ls @ dropWhile ?P ls))" by simp
  moreover have "layer_key l \<le> layer_key x" if "x \<in> set (dropWhile ?P ls)" for x
  proof -
    have "dropWhile ?P ls \<noteq> []" using that by (metis empty_iff empty_set)
    then have "layer_key l < layer_key (hd (dropWhile ?P ls))" using hd_dropWhile [of ?P ls] by simp
    also have "\<dots> \<le> layer_key x"
      using s that by (cases "dropWhile ?P ls") (auto simp: sorted_append)
    finally show ?thesis by simp
  qed
  moreover have "layer_key x \<le> layer_key l" if "x \<in> set (takeWhile ?P ls)" for x
    using set_takeWhileD [OF that] by simp
  ultimately show ?thesis
    unfolding insert_by_precedence_takeWhile by (rule sorted_insert_middle)
qed

lemma sorted_remove: "sorted (map f (a @ b # c)) \<Longrightarrow> sorted (map f (a @ c))" for f :: "'a \<Rightarrow> 'b :: linorder"
  by (simp add: sorted_append)

lemma last_user_index_snoc:
  "last_user_index (ls @ [l]) = (if is_user_layer l then Some (length ls) else last_user_index ls)"
proof -
  have "find (\<lambda>i. is_user_layer ((ls @ [l]) ! i)) (rev [0..<length ls]) =
      find (\<lambda>i. is_user_layer (ls ! i)) (rev [0..<length ls])"
    by (rule find_cong) (auto simp: nth_append)
  then show ?thesis by (simp add: last_user_index_def)
qed

lemma verify_layers_loop_index:
  "verify_layers_loop ls n i prev = Inr j \<Longrightarrow> last_user_index pre = i \<Longrightarrow> length pre = n \<Longrightarrow>
   last_user_index (pre @ ls) = j"
proof (induction ls arbitrary: n i prev pre)
  case (Cons l ls)
  have "\<exists>prev. verify_layers_loop ls (Suc n) (if is_user_layer l then Some n else i) prev = Inr j"
    using Cons.prems(1) by (auto simp: Let_def split: config_layer_source.splits option.splits if_splits)
  then obtain prev' where "verify_layers_loop ls (Suc n) (if is_user_layer l then Some n else i) prev' = Inr j" ..
  from Cons.IH [OF this, of "pre @ [l]"] Cons.prems(2,3) show ?case
    by (simp add: last_user_index_snoc)
qed simp

lemma stack_ok_new: "new_stack ls r = Inr s \<Longrightarrow> stack_ok s"
  using verify_layers_loop_index [of ls 0 None None _ "[]"]
  by (auto simp: new_stack_def verify_layer_ordering_def stack_ok_def is_sorted_by_sorted layer_key_def [abs_def]
      last_user_index_def split: sum.splits if_splits)

lemma position_split:
  "position P ls = Some i \<Longrightarrow> ls = take i ls @ ls ! i # drop (Suc i) ls \<and> P (ls ! i)"
  by (auto simp: position_Some_iff id_take_nth_drop)

definition without_user_file :: "ustr \<Rightarrow> config_layer_entry list \<Rightarrow> config_layer_entry list" where
  "without_user_file f ls =
     (case position (\<lambda>l. user_file l = Some f) ls of
        Some index \<Rightarrow> take index ls @ drop (Suc index) ls | None \<Rightarrow> ls)"

lemma sorted_without_user_file: "sorted (map k ls) \<Longrightarrow> sorted (map k (without_user_file f ls))"
  for k :: "config_layer_entry \<Rightarrow> int"
proof (cases "position (\<lambda>l. user_file l = Some f) ls")
  case (Some i)
  assume "sorted (map k ls)"
  with position_split [OF Some] have "sorted (map k (take i ls @ ls ! i # drop (Suc i) ls))" by metis
  from sorted_remove [OF this] Some show ?thesis by (simp add: without_user_file_def)
qed (simp add: without_user_file_def)

lemma layers_with_user_config_profile:
  "layers (with_user_config_profile version f profile c s) =
     insert_by_precedence (new_layer_entry version (UserFile f profile) c) (without_user_file f (layers s))"
  "user_layer_index (with_user_config_profile version f profile c s) =
     last_user_index (layers (with_user_config_profile version f profile c s))"
  by (simp_all add: with_user_config_profile_def without_user_file_def Let_def)

lemma stack_ok_user_config: "stack_ok s \<Longrightarrow> stack_ok (with_user_config_profile version f profile c s)"
  by (simp add: stack_ok_def layers_with_user_config_profile sorted_insert_by_precedence sorted_without_user_file)

lemma sorted_fold_insert:
  "sorted (map layer_key ls) \<Longrightarrow> sorted (map layer_key (fold insert_by_precedence us ls))"
  by (induction us arbitrary: ls) (simp_all add: sorted_insert_by_precedence)

lemma stack_ok_user_layer_from: "stack_ok s \<Longrightarrow> stack_ok (with_user_layer_from other s)"
  by (auto simp: stack_ok_def with_user_layer_from_def Let_def sorted_filter intro!: sorted_fold_insert)

lemma built_stack_ok: "built_stack version s \<Longrightarrow> stack_ok s"
  by (induction rule: built_stack.induct) (simp_all add: stack_ok_new stack_ok_user_config stack_ok_user_layer_from)

lemma vec_get_last_user_index:
  "Option.bind (last_user_index ls) (vec_get ls) = last_opt (filter is_user_layer ls)"
proof (induction ls rule: rev_induct)
  case (snoc l ls)
  show ?case
  proof (cases "is_user_layer l")
    case False
    have "i < length ls" if "last_user_index ls = Some i" for i
      using that by (auto simp: last_user_index_def find_Some_iff rev_nth)
    with False snoc show ?thesis
      by (cases "last_user_index ls") (auto simp: last_user_index_snoc vec_get_def nth_append)
  qed (simp add: last_user_index_snoc vec_get_def last_opt_def)
qed (simp add: last_user_index_def last_opt_def)

text \<open>
  The configuration layers stay in order. Every stack that was built by the checked
  constructor and then changed by replacing user layers lists its layers by rising precedence, so that a
  layer is merged after all layers it overrides, and its active user layer, the one that edits
  are written to, is the user layer of highest precedence.
\<close>

theorem config_stack_ordered:
  assumes "built_stack version s"
  shows "sorted (map (\<lambda>l. precedence (layer_name l)) (get_layers LowestPrecedenceFirst include_disabled s))
    \<and> get_active_user_layer s = last_opt (filter is_user_layer (layers s))
    \<and> rev (get_layers LowestPrecedenceFirst include_disabled s) = get_layers HighestPrecedenceFirst include_disabled s"
  using built_stack_ok [OF assms]
  by (simp add: stack_ok_def get_layers_def get_active_user_layer_def vec_get_last_user_index sorted_filter
      layer_key_def [abs_def])

definition example_layer :: "config_layer_source \<Rightarrow> config_layer_entry" where
  "example_layer n = new_layer_entry (\<lambda>_. []) n (TomlTable [])"

theorem config_stack_ordered_witness:
  "\<exists>s. new_stack [example_layer (SystemFile (str ''/etc/c'')), example_layer (ProjectFolder (str ''/w/.codex''))] () = Inr s
    \<and> (let s' = with_user_config_profile (\<lambda>_. []) (str ''/h/c'') None (TomlTable []) s
       in map layer_name (get_layers LowestPrecedenceFirst False s') =
            [SystemFile (str ''/etc/c''), UserFile (str ''/h/c'') None, ProjectFolder (str ''/w/.codex'')]
          \<and> sorted (map (\<lambda>l. precedence (layer_name l)) (get_layers LowestPrecedenceFirst False s')))"
proof -
  let ?ls = "[example_layer (SystemFile (str ''/etc/c'')), example_layer (ProjectFolder (str ''/w/.codex''))]"
  have "case new_stack ?ls () of
      Inr s \<Rightarrow> map layer_name (get_layers LowestPrecedenceFirst False
          (with_user_config_profile (\<lambda>_. []) (str ''/h/c'') None (TomlTable []) s)) =
        [SystemFile (str ''/etc/c''), UserFile (str ''/h/c'') None, ProjectFolder (str ''/w/.codex'')]
    | Inl _ \<Rightarrow> False"
    by code_simp
  then obtain s where s: "new_stack ?ls () = Inr s"
    "map layer_name (get_layers LowestPrecedenceFirst False
        (with_user_config_profile (\<lambda>_. []) (str ''/h/c'') None (TomlTable []) s)) =
      [SystemFile (str ''/etc/c''), UserFile (str ''/h/c'') None, ProjectFolder (str ''/w/.codex'')]"
    by (auto split: sum.splits)
  have "built_stack (\<lambda>_. []) (with_user_config_profile (\<lambda>_. []) (str ''/h/c'') None (TomlTable []) s)"
    by (intro built_user_config built_new [OF s(1)])
  from config_stack_ordered [OF this] s show ?thesis by auto
qed

end
