(* ===== verification/Policy_Manager.thy ===== *)
theory Policy_Manager
  imports Exec_Approval Config_Layers Patch_Apply
begin

text \<open>
  The execution policy over the life of a session: the amendments that are written to the user's
  rules file (\<open>codex-rs/execpolicy/src/amend.rs\<close>) and the \<open>ExecPolicyManager\<close> of
  \<open>codex-rs/core/src/exec_policy.rs\<close>, which loads the policy from the configuration layers and
  updates file and memory together. The file system is an argument with every call able to fail;
  the evaluation of a rules file is an argument, as in \<open>Policy_Parser\<close>. An update holds the
  semaphore from its first to its last step, so that updates are steps on the manager's policy. The
  semaphore is never closed and the blocking task is awaited, so their two errors do not occur.
\<close>

section \<open>Appending to the rules file\<close>

record 's rules_fs =
  create_dir :: "'s \<Rightarrow> ustr \<Rightarrow> io_error option \<times> 's"
  open_append :: "'s \<Rightarrow> ustr \<Rightarrow> io_error option \<times> 's" \<comment> \<open>creates a missing file\<close>
  lock_file :: "'s \<Rightarrow> ustr \<Rightarrow> io_error option \<times> 's"
  seek_start :: "'s \<Rightarrow> ustr \<Rightarrow> io_error option \<times> 's"
  read_all :: "'s \<Rightarrow> ustr \<Rightarrow> io_error + ustr"
  write_all :: "'s \<Rightarrow> ustr \<Rightarrow> ustr \<Rightarrow> io_error option \<times> 's" \<comment> \<open>at the end of the file\<close>

datatype amend_error =
    EmptyPrefix
  | InvalidNetworkRule policy_error
  | MissingParent ustr
  | CreatePolicyDir ustr io_error
  | OpenPolicyFile ustr io_error
  | WritePolicyFile ustr io_error
  | LockPolicyFile ustr io_error
  | SeekPolicyFile ustr io_error
  | ReadPolicyFile ustr io_error

text \<open>The operator \<open>?\<close> on a fallible call: stop with the error, or go on in the new state.\<close>

definition io_then :: "io_error option \<times> 's \<Rightarrow> (io_error \<Rightarrow> 'e) \<Rightarrow> ('s \<Rightarrow> 'e option \<times> 's) \<Rightarrow> 'e option \<times> 's" where
  "io_then r err k = (case r of (Some e, s) \<Rightarrow> (Some (err e), s) | (None, s) \<Rightarrow> k s)"

definition append_locked_line_io :: "'s rules_fs \<Rightarrow> 's \<Rightarrow> ustr \<Rightarrow> ustr \<Rightarrow> amend_error option \<times> 's" where
  "append_locked_line_io ops s path line =
     io_then (open_append ops s path) (OpenPolicyFile path) (\<lambda>s.
     io_then (lock_file ops s path) (LockPolicyFile path) (\<lambda>s.
     io_then (seek_start ops s path) (SeekPolicyFile path) (\<lambda>s.
       case read_all ops s path of
         Inl e \<Rightarrow> (Some (ReadPolicyFile path e), s)
       | Inr contents \<Rightarrow>
           if list_ex (\<lambda>existing. existing = line) (lines contents) then (None, s)
           else io_then (if contents \<noteq> [] \<and> \<not> ends_with [newline] contents
                         then write_all ops s path [newline] else (None, s)) (WritePolicyFile path) (\<lambda>s.
                io_then (write_all ops s path (line @ [newline])) (WritePolicyFile path) (\<lambda>s. (None, s))))))"

definition append_rule_line :: "'s rules_fs \<Rightarrow> 's \<Rightarrow> ustr \<Rightarrow> ustr \<Rightarrow> amend_error option \<times> 's" where
  "append_rule_line ops s path rule =
     (case abs_parent path of
        None \<Rightarrow> (Some (MissingParent path), s)
      | Some dir \<Rightarrow>
          (case create_dir ops s dir of
             (Some e, s) \<Rightarrow>
               if io_kind e = AlreadyExists then append_locked_line_io ops s path rule
               else (Some (CreatePolicyDir dir e), s)
           | (None, s) \<Rightarrow> append_locked_line_io ops s path rule))"

text \<open>\<open>serde_json::to_string\<close> of a string (\<open>json\<close>) does not fail.\<close>

definition blocking_append_allow_prefix_rule ::
  "(ustr \<Rightarrow> ustr) \<Rightarrow> 's rules_fs \<Rightarrow> 's \<Rightarrow> ustr \<Rightarrow> ustr list \<Rightarrow> amend_error option \<times> 's" where
  "blocking_append_allow_prefix_rule json ops s path prefix =
     (case allow_prefix_rule_line json prefix of
        None \<Rightarrow> (Some EmptyPrefix, s)
      | Some rule \<Rightarrow> append_rule_line ops s path rule)"

definition blocking_append_network_rule ::
  "(ustr \<Rightarrow> ustr) \<Rightarrow> 's rules_fs \<Rightarrow> 's \<Rightarrow> ustr \<Rightarrow> ustr \<Rightarrow> network_rule_protocol \<Rightarrow> decision \<Rightarrow> ustr option
    \<Rightarrow> amend_error option \<times> 's" where
  "blocking_append_network_rule json ops s path h proto d j =
     (case network_rule_line json h proto d j of
        Ok rule \<Rightarrow> append_rule_line ops s path rule
      | Err e \<Rightarrow> (Some (InvalidNetworkRule e), s)
      | Panic \<Rightarrow> (None, s))"

section \<open>Updating the manager\<close>

datatype exec_policy_update_error =
    AppendRule ustr amend_error
  | AddRule policy_error

definition default_policy_path :: "ustr \<Rightarrow> ustr" where
  "default_policy_path codex_home = path_join (path_join codex_home (str ''rules'')) (str ''default.rules'')"

definition already_allowed :: "path_env \<Rightarrow> policy \<Rightarrow> ustr list \<Rightarrow> bool" where
  "already_allowed env p command \<longleftrightarrow>
     (case check_multiple_with_options env p [command] (\<lambda>_. Forbidden) True of
        Ok e \<Rightarrow> decision e = Allow
          \<and> list_ex (\<lambda>m. is_policy_match m \<and> match_decision m = Allow) (matched_rules e)
      | _ \<Rightarrow> False)"

text \<open>The result of an update is its error, the new policy of the manager and the file system.\<close>

definition append_amendment_and_update ::
  "path_env \<Rightarrow> (ustr \<Rightarrow> ustr) \<Rightarrow> 's rules_fs \<Rightarrow> ustr \<Rightarrow> exec_policy_amendment \<Rightarrow> policy \<times> 's
    \<Rightarrow> exec_policy_update_error option \<times> policy \<times> 's" where
  "append_amendment_and_update env json ops codex_home amendment st =
     (case st of (p, s) \<Rightarrow>
        let policy_path = default_policy_path codex_home in
        case blocking_append_allow_prefix_rule json ops s policy_path amendment of
          (Some e, s) \<Rightarrow> (Some (AppendRule policy_path e), p, s)
        | (None, s) \<Rightarrow>
            if already_allowed env p amendment then (None, p, s)
            else (case add_prefix_rule amendment Allow p of
                    Ok p' \<Rightarrow> (None, p', s)
                  | Err e \<Rightarrow> (Some (AddRule e), p, s)
                  | Panic \<Rightarrow> (None, p, s)))"

definition append_network_rule_and_update ::
  "(ustr \<Rightarrow> ustr) \<Rightarrow> 's rules_fs \<Rightarrow> ustr \<Rightarrow> ustr \<Rightarrow> network_rule_protocol \<Rightarrow> decision \<Rightarrow> ustr option
    \<Rightarrow> policy \<times> 's \<Rightarrow> exec_policy_update_error option \<times> policy \<times> 's" where
  "append_network_rule_and_update json ops codex_home h proto d j st =
     (case st of (p, s) \<Rightarrow>
        let policy_path = default_policy_path codex_home in
        case blocking_append_network_rule json ops s policy_path h proto d j of
          (Some e, s) \<Rightarrow> (Some (AppendRule policy_path e), p, s)
        | (None, s) \<Rightarrow>
            (case add_network_rule h proto d j p of
               Ok p' \<Rightarrow> (None, p', s)
             | Err e \<Rightarrow> (Some (AddRule e), p, s)
             | Panic \<Rightarrow> (None, p, s)))"

section \<open>Loading the policy\<close>

datatype exec_policy_error =
    ReadDir ustr io_error
  | ReadFile ustr io_error
  | ParsePolicy ustr policy_error

text \<open>\<open>Path::extension\<close>: what follows the last dot of the file name, unless the dot leads it.\<close>

definition path_extension :: "ustr \<Rightarrow> ustr option" where
  "path_extension p =
     (case file_name p of
        None \<Rightarrow> None
      | Some n \<Rightarrow>
          if 46 \<in> set n \<and> rev (tl (dropWhile (\<lambda>c. c \<noteq> 46) (rev n))) \<noteq> []
          then Some (rev (takeWhile (\<lambda>c. c \<noteq> 46) (rev n))) else None)"

text \<open>
  A directory listing: opening it fails, or each entry fails, has a path whose type cannot be read, or
  is a path and whether it is a file. All paths are in one directory, so that their order is that
  of their texts.
\<close>

type_synonym dir_entry = "io_error + ustr \<times> (io_error + bool)"

fun collect_loop :: "ustr \<Rightarrow> dir_entry list \<Rightarrow> ustr list \<Rightarrow> (ustr list, exec_policy_error) outcome" where
  "collect_loop dir [] paths = Ok paths"
| "collect_loop dir (Inl e # es) paths = Err (ReadDir dir e)"
| "collect_loop dir (Inr (path, Inl e) # es) paths = Err (ReadDir dir e)"
| "collect_loop dir (Inr (path, Inr is_file) # es) paths =
     collect_loop dir es (if path_extension path = Some (str ''rules'') \<and> is_file then paths @ [path] else paths)"

definition collect_policy_files ::
  "(ustr \<Rightarrow> io_error + dir_entry list) \<Rightarrow> ustr \<Rightarrow> (ustr list, exec_policy_error) outcome" where
  "collect_policy_files read_dir dir =
     (case read_dir dir of
        Inl e \<Rightarrow> if io_kind e = NotFound then Ok [] else Err (ReadDir dir e)
      | Inr es \<Rightarrow> obind (collect_loop dir es []) (\<lambda>paths. Ok (sort paths)))"

definition has_project_or_user_rules :: "config_layer_entry \<Rightarrow> bool" where
  "has_project_or_user_rules layer \<longleftrightarrow>
     (case layer_name layer of UserFile _ _ \<Rightarrow> True | ProjectFolder _ \<Rightarrow> True | _ \<Rightarrow> False)"

fun layer_policy_paths ::
  "(ustr \<Rightarrow> io_error + dir_entry list) \<Rightarrow> bool \<Rightarrow> config_layer_entry list \<Rightarrow> ustr list
    \<Rightarrow> (ustr list, exec_policy_error) outcome" where
  "layer_policy_paths read_dir ignore_rules [] paths = Ok paths"
| "layer_policy_paths read_dir ignore_rules (layer # ls) paths =
     (if ignore_rules \<and> has_project_or_user_rules layer then layer_policy_paths read_dir ignore_rules ls paths
      else (case config_folder layer of
              None \<Rightarrow> layer_policy_paths read_dir ignore_rules ls paths
            | Some folder \<Rightarrow>
                obind (collect_policy_files read_dir (path_join folder (str ''rules''))) (\<lambda>layer_paths.
                  layer_policy_paths read_dir ignore_rules ls (paths @ layer_paths))))"

fun parse_policy_files ::
  "path_env \<Rightarrow> (ustr \<Rightarrow> ustr \<Rightarrow> policy_builder \<Rightarrow> (policy_builder, policy_error) outcome)
    \<Rightarrow> (ustr \<Rightarrow> io_error + ustr) \<Rightarrow> ustr list \<Rightarrow> policy_builder \<Rightarrow> (policy_builder, exec_policy_error) outcome" where
  "parse_policy_files env run read_file [] b = Ok b"
| "parse_policy_files env run read_file (path # paths) b =
     (case read_file path of
        Inl e \<Rightarrow> Err (ReadFile path e)
      | Inr contents \<Rightarrow>
          (case policy_parse env (run path contents) b of
             Ok b' \<Rightarrow> parse_policy_files env run read_file paths b'
           | Err e \<Rightarrow> Err (ParsePolicy path e)
           | Panic \<Rightarrow> Panic))"

definition load_exec_policy ::
  "path_env \<Rightarrow> (ustr \<Rightarrow> ustr \<Rightarrow> policy_builder \<Rightarrow> (policy_builder, policy_error) outcome)
    \<Rightarrow> (ustr \<Rightarrow> io_error + dir_entry list) \<Rightarrow> (ustr \<Rightarrow> io_error + ustr) \<Rightarrow> policy option config_layer_stack
    \<Rightarrow> (policy, exec_policy_error) outcome" where
  "load_exec_policy env run read_dir read_file stack =
     obind (layer_policy_paths read_dir (ignore_user_and_project_exec_policy_rules stack)
              (get_layers LowestPrecedenceFirst False stack) []) (\<lambda>paths.
     obind (parse_policy_files env run read_file paths new_builder) (\<lambda>b.
       case requirements stack of
         None \<Rightarrow> Ok (built b)
       | Some requirements_policy \<Rightarrow> Ok (merge_overlay (built b) requirements_policy)))"

definition load_exec_policy_with_warning ::
  "path_env \<Rightarrow> (ustr \<Rightarrow> ustr \<Rightarrow> policy_builder \<Rightarrow> (policy_builder, policy_error) outcome)
    \<Rightarrow> (ustr \<Rightarrow> io_error + dir_entry list) \<Rightarrow> (ustr \<Rightarrow> io_error + ustr) \<Rightarrow> policy option config_layer_stack
    \<Rightarrow> (policy \<times> exec_policy_error option, exec_policy_error) outcome" where
  "load_exec_policy_with_warning env run read_dir read_file stack =
     (case load_exec_policy env run read_dir read_file stack of
        Ok p \<Rightarrow> Ok (p, None)
      | Err (ParsePolicy path e) \<Rightarrow> Ok (empty_policy, Some (ParsePolicy path e))
      | Err e \<Rightarrow> Err e
      | Panic \<Rightarrow> Panic)"

definition exec_policy_config_folders :: "policy option config_layer_stack \<Rightarrow> ustr list" where
  "exec_policy_config_folders stack = List.map_filter config_folder (get_layers LowestPrecedenceFirst False stack)"

definition child_uses_parent_exec_policy ::
  "policy option config_layer_stack \<Rightarrow> policy option config_layer_stack \<Rightarrow> bool" where
  "child_uses_parent_exec_policy parent child \<longleftrightarrow>
     exec_policy_config_folders parent = exec_policy_config_folders child
     \<and> ignore_user_and_project_exec_policy_rules parent = ignore_user_and_project_exec_policy_rules child
     \<and> requirements parent = requirements child"

section \<open>An amendment that is approved takes effect\<close>

lemma already_allowed_hits: "already_allowed env p a \<Longrightarrow> rule_hits env p a \<noteq> []"
  by (auto simp: already_allowed_def check_multiple_eval verdict_hits split: if_splits)

lemma add_prefix_rule_Ok: "a \<noteq> [] \<Longrightarrow> \<exists>p'. add_prefix_rule a d p = Ok p'"
  by (cases a) (simp_all add: add_prefix_rule_def)

lemma verdict_added:
  assumes "add_prefix_rule a d p = Ok p'" "rule_hits env p a = []"
  shows "verdict env p' h True a = d"
  using assms exact_matches_add [OF assms(1), of a]
  by (simp add: verdict_hits exact_hits rule_hits_Nil_iff starts_with_iff split: if_splits)

text \<open>A successful update of an amendment that no rule shadows stores the policy with the new rule.\<close>

lemma update_stores:
  assumes "append_amendment_and_update env json ops codex_home a (p, s) = (None, p', s')"
    and "rule_hits env p a = []" "add_prefix_rule a Allow p = Ok q"
  shows "p' = q"
  using assms already_allowed_hits [of env p a]
  by (auto simp: append_amendment_and_update_def Let_def split: option.splits prod.splits if_splits)

text \<open>
  C29: approving a proposed amendment has the effect it was proposed for. If a command needs approval
  and the user accepts the proposed amendment, then after the update succeeded the same command either
  runs without a question, or the amendment is one of its segments, which needed approval before and
  is allowed now. Excluded are amendments for the program \<open>~\<close>, which is looked up as the home directory.
\<close>

theorem amendment_takes_effect:
  assumes "create_exec_approval_requirement_for_command env tp sj p req = Ok (NeedsApproval reason (Some a))"
    and "append_amendment_and_update env json ops codex_home a (p, s) = (None, p', s')"
    and "hd a \<noteq> str ''~''" "a \<noteq> []"
  shows "(\<exists>bypass_sandbox x.
            create_exec_approval_requirement_for_command env tp sj p' req = Ok (Skip bypass_sandbox x))
    \<or> (a \<in> set (segments (commands_for_exec_policy tp (req_command req)))
        \<and> verdict env p (exec_policy_fallback tp req) True a = Prompt
        \<and> verdict env p' (exec_policy_fallback tp req) True a = Allow)"
  using assms(1)
proof (cases rule: proposed_amendment_cases)
  case (requested q c)
  then have "p' = q"
    using update_stores [OF assms(2)] amendment_not_shadowed assms(3) by blast
  with all_allowed_skips [of tp req env p' sj] requested(2) show ?thesis by blast
next
  case derived
  obtain q where q: "add_prefix_rule a Allow p = Ok q" using add_prefix_rule_Ok [OF assms(4)] by blast
  with update_stores [OF assms(2) derived(2)] have "p' = q" by blast
  with verdict_added [OF q derived(2)] derived show ?thesis by (simp add: verdict_hits)
qed

section \<open>The memory is never ahead of the file\<close>

text \<open>
  What is relied on of the file system: the calls before the read leave the contents of the file alone
  and a write appends to it. \<open>contents s path\<close> is the text of the file, empty when it is missing.
\<close>

definition appending_fs :: "'s rules_fs \<Rightarrow> ('s \<Rightarrow> ustr \<Rightarrow> ustr) \<Rightarrow> bool" where
  "appending_fs ops contents \<longleftrightarrow>
     (\<forall>s path t s' e.
        (read_all ops s path = Inr t \<longrightarrow> t = contents s path)
        \<and> (write_all ops s path t = (None, s') \<longrightarrow> contents s' path = contents s path @ t)
        \<and> (lock_file ops s path = (e, s') \<longrightarrow> contents s' path = contents s path)
        \<and> (seek_start ops s path = (e, s') \<longrightarrow> contents s' path = contents s path)
        \<and> (open_append ops s path = (e, s') \<longrightarrow> contents s' path = contents s path)
        \<and> (create_dir ops s t = (e, s') \<longrightarrow> contents s' path = contents s path))"

lemma append_locked_line_io_contents:
  assumes "appending_fs ops contents" "append_locked_line_io ops s path line = (None, s')"
  shows "contents s' path = append_locked_line (contents s path) line"
proof -
  note laws = assms(1) [unfolded appending_fs_def, rule_format]
  obtain s1 s2 s3 t where s: "open_append ops s path = (None, s1)" "lock_file ops s1 path = (None, s2)"
    "seek_start ops s2 path = (None, s3)" "read_all ops s3 path = Inr t"
    using assms(2) by (auto simp: append_locked_line_io_def io_then_def split: prod.splits option.splits sum.splits)
  then have t: "t = contents s path" "contents s3 path = contents s path"
    using laws by metis+
  show ?thesis
  proof (cases "list_ex (\<lambda>existing. existing = line) (lines t)")
    case True
    with assms(2) s t show ?thesis by (simp add: append_locked_line_io_def io_then_def append_locked_line_def)
  next
    case False
    let ?nl = "contents s path \<noteq> [] \<and> \<not> ends_with [newline] (contents s path)"
    from False assms(2) s obtain s4 where
      s4: "(if ?nl then write_all ops s3 path [newline] else (None, s3)) = (None, s4)"
      and s': "write_all ops s4 path (line @ [newline]) = (None, s')"
      by (auto simp: append_locked_line_io_def io_then_def t split: prod.splits option.splits if_splits)
    have "contents s4 path = contents s path @ (if ?nl then [newline] else [])"
      using s4 laws t(2) by (cases ?nl) auto
    moreover have "contents s' path = contents s4 path @ line @ [newline]" using s' laws by metis
    ultimately show ?thesis using False t(1) by (simp add: append_locked_line_def)
  qed
qed

lemma append_rule_line_contents:
  assumes "appending_fs ops contents" "append_rule_line ops s path line = (None, s')"
  shows "contents s' path = append_locked_line (contents s path) line"
proof -
  obtain dir e s1 where "create_dir ops s dir = (e, s1)" and s1: "append_locked_line_io ops s1 path line = (None, s')"
    using assms(2) by (auto simp: append_rule_line_def split: option.splits prod.splits if_splits)
  then have "contents s1 path = contents s path"
    using assms(1) unfolding appending_fs_def by blast
  with append_locked_line_io_contents [OF assms(1) s1] show ?thesis by simp
qed

lemma added_hits: "add_prefix_rule a d p = Ok p' \<Longrightarrow> rule_hits env p' a \<noteq> []"
  using exact_matches_add [of a d p p' a] by (simp add: rule_hits_Nil_iff starts_with_iff)

text \<open>
  An amendment reaches the file before it reaches the memory. An update that fails leaves the
  policy in memory as it was; one that succeeds has appended the rule to the rules file, once and as a
  line of its own, and the policy in memory has a rule for the amendment.
\<close>

theorem amendment_recorded:
  assumes "appending_fs ops contents"
    and "append_amendment_and_update env json ops codex_home a (p, s) = (r, p', s')"
  shows "case r of
      Some _ \<Rightarrow> p' = p
    | None \<Rightarrow> (\<exists>line. allow_prefix_rule_line json a = Some line
          \<and> contents s' (default_policy_path codex_home) =
              append_locked_line (contents s (default_policy_path codex_home)) line)
        \<and> rule_hits env p' a \<noteq> []
        \<and> (p' = p \<or> add_prefix_rule a Allow p = Ok p')"
proof (cases r)
  case None
  then obtain line where line: "allow_prefix_rule_line json a = Some line"
    and s': "append_rule_line ops s (default_policy_path codex_home) line = (None, s')"
    and p': "already_allowed env p a \<and> p' = p \<or> add_prefix_rule a Allow p = Ok p' \<or> a = []"
    using assms(2)
    by (auto simp: append_amendment_and_update_def blocking_append_allow_prefix_rule_def Let_def add_prefix_rule_def
        split: option.splits prod.splits if_splits outcome.splits list.splits)
  have "a \<noteq> []" using line by (auto simp: allow_prefix_rule_line_def)
  with None line p' append_rule_line_contents [OF assms(1) s'] show ?thesis
    using already_allowed_hits added_hits by auto
next
  case (Some e)
  with assms(2) show ?thesis
    by (auto simp: append_amendment_and_update_def Let_def split: option.splits prod.splits if_splits outcome.splits)
qed

text \<open>A rules file system in memory, in which no call fails.\<close>

definition mem_rules :: "(ustr \<Rightarrow> ustr) rules_fs" where
  "mem_rules =
     \<lparr>create_dir = (\<lambda>s _. (None, s)), open_append = (\<lambda>s _. (None, s)), lock_file = (\<lambda>s _. (None, s)),
      seek_start = (\<lambda>s _. (None, s)), read_all = (\<lambda>s p. Inr (s p)),
      write_all = (\<lambda>s p t. (None, s(p := s p @ t)))\<rparr>"

lemma appending_mem_rules: "appending_fs mem_rules (\<lambda>s. s)"
  by (auto simp: appending_fs_def mem_rules_def)

definition cargo_request :: exec_approval_request where
  "cargo_request = \<lparr>req_command = [str ''cargo'', str ''test''], req_approval_policy = UnlessTrusted,
     req_permission_profile = Managed ManagedUnrestricted NetworkRestricted, req_sandbox_policy = unrestricted,
     req_sandbox_permissions = UseDefault, req_prefix_rule = Some [str ''cargo'']\<rparr>"

definition cargo_update :: "exec_policy_update_error option \<times> policy \<times> (ustr \<Rightarrow> ustr)" where
  "cargo_update = append_amendment_and_update no_env (\<lambda>x. x) mem_rules (str ''/h'') [str ''cargo''] (empty_policy, \<lambda>_. [])"

lemma cargo_update_eval: "cargo_update = (None, snd cargo_update)"
proof -
  have "fst cargo_update = None" by code_simp
  then show ?thesis by (metis prod.collapse)
qed

text \<open>A program named by a relative path, in a process with a home and a working directory.\<close>

definition gradle_env :: path_env where
  "gradle_env = \<lparr>home_dir = Some (str ''/h''), current_dir = Some (str ''/w'')\<rparr>"

definition gradle_request :: exec_approval_request where
  "gradle_request = cargo_request\<lparr>req_command := [str ''./gradlew'', str ''test''], req_prefix_rule := Some [str ''./gradlew'']\<rparr>"

definition gradle_update :: "exec_policy_update_error option \<times> policy \<times> (ustr \<Rightarrow> ustr)" where
  "gradle_update = append_amendment_and_update gradle_env (\<lambda>x. x) mem_rules (str ''/h'') [str ''./gradlew''] (empty_policy, \<lambda>_. [])"

theorem amendment_takes_effect_witness:
  "create_exec_approval_requirement_for_command gradle_env (\<lambda>_. None) (\<lambda>_. None) empty_policy gradle_request =
      Ok (NeedsApproval None (Some [str ''./gradlew'']))
    \<and> (\<exists>bypass_sandbox x. create_exec_approval_requirement_for_command gradle_env (\<lambda>_. None) (\<lambda>_. None)
          (fst (snd gradle_update)) gradle_request = Ok (Skip bypass_sandbox x))"
proof -
  let ?p = "fst (snd gradle_update)" and ?a = "[str ''./gradlew'']"
  have req: "create_exec_approval_requirement_for_command gradle_env (\<lambda>_. None) (\<lambda>_. None) empty_policy gradle_request =
      Ok (NeedsApproval None (Some ?a))" by code_simp
  have "fst gradle_update = None" by code_simp
  then have upd: "append_amendment_and_update gradle_env (\<lambda>x. x) mem_rules (str ''/h'') ?a (empty_policy, \<lambda>_. []) =
      (None, ?p, snd (snd gradle_update))"
    unfolding gradle_update_def by (metis prod.collapse)
  have a: "hd ?a \<noteq> str ''~''" "?a \<notin> set (segments (commands_for_exec_policy (\<lambda>_. None) (req_command gradle_request)))"
    by code_simp+
  from amendment_takes_effect [OF req upd a(1)] req a(2) show ?thesis by blast
qed

theorem amendment_recorded_witness:
  "snd (snd cargo_update) (str ''/h/rules/default.rules'') =
      append_locked_line [] (str ''prefix_rule(pattern=[cargo], decision='' @ [34] @ str ''allow'' @ [34] @ str '')'')
    \<and> rule_hits no_env (fst (snd cargo_update)) [str ''cargo''] \<noteq> []"
proof -
  have upd: "append_amendment_and_update no_env (\<lambda>x. x) mem_rules (str ''/h'') [str ''cargo''] (empty_policy, \<lambda>_. []) =
      (None, fst (snd cargo_update), snd (snd cargo_update))"
    using cargo_update_eval unfolding cargo_update_def by (metis prod.collapse)
  have "default_policy_path (str ''/h'') = str ''/h/rules/default.rules''"
    "allow_prefix_rule_line (\<lambda>x. x) [str ''cargo''] =
      Some (str ''prefix_rule(pattern=[cargo], decision='' @ [34] @ str ''allow'' @ [34] @ str '')'')"
    by code_simp+
  with amendment_recorded [OF appending_mem_rules upd] show ?thesis by auto
qed

section \<open>Managed requirements\<close>

text \<open>What is relied on of the evaluation of a rules file: it changes the builder only through the builtins.\<close>

definition only_builtins ::
  "(ustr \<Rightarrow> ustr list option) \<Rightarrow> path_env
    \<Rightarrow> (ustr \<Rightarrow> ustr \<Rightarrow> policy_builder \<Rightarrow> (policy_builder, policy_error) outcome) \<Rightarrow> bool" where
  "only_builtins shlex_split env run \<longleftrightarrow>
     (\<forall>path t b b'. run path t b = Ok b' \<longrightarrow> (builder_step shlex_split env)\<^sup>*\<^sup>* b b')"

lemma policy_parse_built_ok:
  assumes "only_builtins shlex_split env run" "policy_parse env (run path t) b = Ok b'" "built_ok (built b)"
  shows "built_ok (built b')"
proof -
  have "(builder_step shlex_split env)\<^sup>*\<^sup>* b b'"
    using assms(1,2) by (auto simp: only_builtins_def policy_parse_def Let_def obind_iffs)
  then show ?thesis using assms(3) by (induction rule: rtranclp_induct) (auto intro: builder_step_ok)
qed

lemma parse_policy_files_built_ok:
  assumes "only_builtins shlex_split env run"
  shows "parse_policy_files env run read_file paths b = Ok b' \<Longrightarrow> built_ok (built b) \<Longrightarrow> built_ok (built b')"
proof (induction paths arbitrary: b)
  case (Cons path paths)
  then obtain t b1 where "policy_parse env (run path t) b = Ok b1" "parse_policy_files env run read_file paths b1 = Ok b'"
    by (auto split: sum.splits outcome.splits)
  with Cons policy_parse_built_ok [OF assms this(1)] show ?case by blast
qed simp

text \<open>
  C11: managed requirements hold. In a policy that was loaded a command is judged at least as strictly as the
  managed requirements judge it, whatever the rules files of the user and the project say: always, when the
  requirements have rules for the program as the command spells it; and when they have rules for its file name only, provided
  that no rule of the loaded policy names the program as spelled and that the executables listed for the name are those of the requirements.
\<close>

theorem requirements_enforced:
  assumes "load_exec_policy env run read_dir read_file stack = Ok p"
    and "only_builtins shlex_split env run"
    and "requirements stack = Some q" "policy_wf q"
    and "exact_matches q cmd \<noteq> []
      \<or> (exact_matches p cmd = [] \<and> match_host_executable_rules env q cmd \<noteq> []
          \<and> (\<forall>n. file_name_key env cmd = Some n \<longrightarrow> host_executables_by_name p n = host_executables_by_name q n))"
  shows "verdict env q h True cmd \<le> verdict env p h True cmd"
proof -
  obtain paths b where b: "parse_policy_files env run read_file paths new_builder = Ok b"
    and p: "p = merge_overlay (built b) q"
    using assms(1,3) by (auto simp: load_exec_policy_def obind_iffs)
  have "built_ok (built new_builder)" using built_ok_empty by (simp add: new_builder_def)
  from parse_policy_files_built_ok [OF assms(2) b this] have wf: "policy_wf (built b)"
    unfolding built_ok_def by (rule conjunct1)
  from assms(5) show ?thesis
  proof
    assume exact: "exact_matches q cmd \<noteq> []"
    note merged = policies.merge_right [OF wf assms(4) exact]
    show ?thesis
      unfolding p verdict_exact [OF exact] verdict_exact [OF merged(1)] by (rule merged(2))
  next
    assume by_name: "exact_matches p cmd = [] \<and> match_host_executable_rules env q cmd \<noteq> []
      \<and> (\<forall>n. file_name_key env cmd = Some n \<longrightarrow> host_executables_by_name p n = host_executables_by_name q n)"
    have "exact_matches q cmd = []" using by_name assms(4) by (simp add: p exact_matches_merge)
    with by_name have "set (applicable env q True cmd) \<subseteq> set (applicable env p True cmd)" "applicable env q True cmd \<noteq> []"
      using host_matches_merge_right [OF assms(4), of env cmd "built b"] by (simp_all add: applicable_def p)
    then show ?thesis by (auto simp: verdict_applicable intro!: Max_mono)
  qed
qed

definition managed_policy :: policy where
  "managed_policy = add_rule \<lparr>pattern = \<lparr>first = str ''rm'', rest = []\<rparr>, rule_decision = Forbidden, justification = None\<rparr> empty_policy"

definition managed_stack :: "policy option config_layer_stack" where
  "managed_stack = \<lparr>layers = [example_layer (UserFile (str ''/h/config.toml'') None)], user_layer_index = Some 0,
     requirements = Some managed_policy, ignore_user_and_project_exec_policy_rules = False\<rparr>"

definition one_rules_file :: "ustr \<Rightarrow> io_error + dir_entry list" where
  "one_rules_file dir = Inr [Inr (path_join dir (str ''a.rules''), Inr True)]"

text \<open>A rules file that allows every \<open>rm\<close>, and one that does not parse.\<close>

definition allow_rm :: "ustr \<Rightarrow> ustr \<Rightarrow> policy_builder \<Rightarrow> (policy_builder, policy_error) outcome" where
  "allow_rm _ _ b = builtin_prefix_rule (\<lambda>_. None) [SvStr (str ''rm'')] None None None None None b"

definition broken_rules :: "ustr \<Rightarrow> ustr \<Rightarrow> policy_builder \<Rightarrow> (policy_builder, policy_error) outcome" where
  "broken_rules _ _ b = Err (InvalidRule [])"

definition loaded_verdict :: "ustr list \<Rightarrow> (policy, exec_policy_error) outcome \<Rightarrow> decision option" where
  "loaded_verdict cmd r =
     (case r of Ok p \<Rightarrow> Some (verdict no_env p (\<lambda>_. Allow) True cmd) | _ \<Rightarrow> None)"

theorem requirements_enforced_witness:
  "let load = load_exec_policy no_env allow_rm one_rules_file (\<lambda>_. Inr []) managed_stack in
   loaded_verdict [str ''rm'', str ''x''] load = Some Forbidden \<and> loaded_verdict [str ''/bin/rm'', str ''x''] load = Some Forbidden"
proof -
  let ?load = "load_exec_policy no_env allow_rm one_rules_file (\<lambda>_. Inr []) managed_stack"
  have "case ?load of Ok p \<Rightarrow> exact_matches p [str ''/bin/rm'', str ''x''] = [] \<and> host_executables_by_name p (str ''rm'') = None
      | _ \<Rightarrow> False" by code_simp
  then obtain p where p: "?load = Ok p"
    and path: "exact_matches p [str ''/bin/rm'', str ''x''] = []" "host_executables_by_name p (str ''rm'') = None"
    by (auto split: outcome.splits)
  have wf: "policy_wf managed_policy" by (simp add: managed_policy_def policy_wf_add_rule policy_wf_empty)
  have q: "verdict no_env managed_policy (\<lambda>_. Allow) True [str ''rm'', str ''x''] = Forbidden"
    "verdict no_env managed_policy (\<lambda>_. Allow) True [str ''/bin/rm'', str ''x''] = Forbidden"
    "exact_matches managed_policy [str ''rm'', str ''x''] \<noteq> []"
    "match_host_executable_rules no_env managed_policy [str ''/bin/rm'', str ''x''] \<noteq> []" by code_simp+
  have run: "only_builtins (\<lambda>_. None) no_env allow_rm"
    by (auto simp: only_builtins_def allow_rm_def intro!: r_into_rtranclp builder_step.prefix)
  have req: "requirements managed_stack = Some managed_policy" by (simp add: managed_stack_def)
  have "file_name_key no_env [str ''/bin/rm'', str ''x''] = Some (str ''rm'')"
    "host_executables_by_name managed_policy (str ''rm'') = None" by code_simp+
  with q requirements_enforced [OF p run req wf, of "[str ''rm'', str ''x'']" "\<lambda>_. Allow"]
    requirements_enforced [OF p run req wf, of "[str ''/bin/rm'', str ''x'']" "\<lambda>_. Allow"] path
  show ?thesis by (simp add: loaded_verdict_def p)
qed

text \<open>A rule for the full path of a program in a rules file lifts what the requirements say of the program by its name.\<close>

definition allow_bin_rm :: "ustr \<Rightarrow> ustr \<Rightarrow> policy_builder \<Rightarrow> (policy_builder, policy_error) outcome" where
  "allow_bin_rm _ _ b = builtin_prefix_rule (\<lambda>_. None) [SvStr (str ''/bin/rm'')] None None None None None b"

lemma path_rule_evades_requirements:
  "verdict no_env managed_policy (\<lambda>_. Allow) True [str ''/bin/rm'', str ''x''] = Forbidden"
  "loaded_verdict [str ''/bin/rm'', str ''x'']
     (load_exec_policy no_env allow_bin_rm one_rules_file (\<lambda>_. Inr []) managed_stack) = Some Allow"
  by code_simp+

text \<open>
  A rules file that does not parse is only worth a warning, but the policy that is used instead of
  the loaded one is empty: it has lost the managed requirements together with the user's rules.
\<close>

lemma warning_drops_requirements:
  "case load_exec_policy_with_warning no_env broken_rules one_rules_file (\<lambda>_. Inr []) managed_stack of
     Ok (p, Some (ParsePolicy _ _)) \<Rightarrow> verdict no_env p (\<lambda>_. Allow) True [str ''rm'', str ''x''] = Allow
   | _ \<Rightarrow> False"
  by code_simp

section \<open>Sharing a policy with a child session\<close>

lemma layer_policy_paths_folders:
  "layer_policy_paths read_dir False ls paths =
     foldr (\<lambda>folder k paths. obind (collect_policy_files read_dir (path_join folder (str ''rules'')))
       (\<lambda>layer_paths. k (paths @ layer_paths))) (List.map_filter config_folder ls) Ok paths"
  by (induction ls arbitrary: paths) (auto simp: List.map_filter_simps split: option.split)

text \<open>
  A child session that keeps its parent's manager would have loaded the same policy, when the
  user's and project's rules are not ignored.
\<close>

lemma child_loads_same_policy:
  assumes "child_uses_parent_exec_policy parent child" "\<not> ignore_user_and_project_exec_policy_rules parent"
  shows "load_exec_policy env run read_dir read_file child = load_exec_policy env run read_dir read_file parent"
  using assms
  by (simp add: load_exec_policy_def child_uses_parent_exec_policy_def exec_policy_config_folders_def
      layer_policy_paths_folders)

section \<open>The network rule is written as it is stored\<close>

lemma strip_port_no_panic: "strip_port raw h \<noteq> Panic"
  by (simp add: strip_port_def split: option.splits prod.splits)

lemma normalize_host_no_panic: "normalize_network_rule_host raw \<noteq> Panic"
  by (auto simp: normalize_network_rule_host_def Let_def obind_iffs strip_port_no_panic)

lemma network_rule_no_panic:
  "network_rule_line json h proto d j \<noteq> Panic" "add_network_rule h proto d j p \<noteq> Panic"
  by (auto simp: network_rule_line_def add_network_rule_def obind_iffs normalize_host_no_panic)

text \<open>The rule that is appended to the file is accepted in memory: the second check cannot fail after the first.\<close>

lemma network_update_consistent:
  "append_network_rule_and_update json ops codex_home h proto d j (p, s) = (r, p', s') \<Longrightarrow>
   case r of
     None \<Rightarrow> add_network_rule h proto d j p = Ok p'
   | Some (AppendRule _ _) \<Rightarrow> p' = p
   | Some (AddRule _) \<Rightarrow> False"
  by (cases "normalize_network_rule_host h")
    (auto simp: append_network_rule_and_update_def blocking_append_network_rule_def network_rule_line_def
      add_network_rule_def Let_def normalize_host_no_panic split: prod.splits option.splits if_splits)

end
