(* ===== verification/Network_Hosts.thy ===== *)
theory Network_Hosts
  imports Prelude "HOL-Library.Word"
begin

text \<open>
  Hosts and domain patterns of the network proxy: \<open>codex-rs/network-proxy/src/policy.rs\<close>. It
  classifies IP addresses, normalises host names and compiles and compares the domain patterns of a
  policy. IP addresses are machine words, and their textual forms are parsed as the standard
  library does. The glob matcher and the URL library's host parser are arguments.
\<close>

unbundle bit_operations_syntax

section \<open>IP addresses\<close>

datatype ip_addr = V4 "32 word" | V6 "128 word"

text \<open>\<open>Parser::read_number\<close> of the standard library: digits up to a maximal number, with or without leading zeros.\<close>

definition digit_value :: "nat \<Rightarrow> uchar \<Rightarrow> nat option" where
  "digit_value radix c =
     (let v = (if 48 \<le> c \<and> c \<le> 57 then Some (c - 48)
               else if 97 \<le> c \<and> c \<le> 122 then Some (c - 97 + 10)
               else if 65 \<le> c \<and> c \<le> 90 then Some (c - 65 + 10)
               else None)
      in case v of Some n \<Rightarrow> if n < radix then Some n else None | None \<Rightarrow> None)"

fun read_digits :: "nat \<Rightarrow> nat \<Rightarrow> nat \<Rightarrow> nat \<Rightarrow> nat \<Rightarrow> ustr \<Rightarrow> (nat \<times> nat \<times> ustr) option" where
  "read_digits radix maximum max_digits value n [] = Some (value, n, [])"
| "read_digits radix maximum max_digits value n (c # cs) =
     (case digit_value radix c of
        None \<Rightarrow> Some (value, n, c # cs)
      | Some d \<Rightarrow>
          if maximum < value * radix + d \<or> max_digits < Suc n then None
          else read_digits radix maximum max_digits (value * radix + d) (Suc n) cs)"

definition read_number :: "nat \<Rightarrow> nat \<Rightarrow> nat \<Rightarrow> bool \<Rightarrow> ustr \<Rightarrow> (nat \<times> ustr) option" where
  "read_number radix maximum max_digits allow_zero_prefix s =
     (case read_digits radix maximum max_digits 0 0 s of
        None \<Rightarrow> None
      | Some (value, n, rest) \<Rightarrow>
          if n = 0 \<or> \<not> allow_zero_prefix \<and> s \<noteq> [] \<and> hd s = 48 \<and> 1 < n then None else Some (value, rest))"

definition read_char :: "uchar \<Rightarrow> ustr \<Rightarrow> ustr option" where
  "read_char c s = (case s of x # xs \<Rightarrow> if x = c then Some xs else None | [] \<Rightarrow> None)"

text \<open>\<open>read_separator\<close>: a separator before every element but the first.\<close>

definition read_separator :: "uchar \<Rightarrow> nat \<Rightarrow> (ustr \<Rightarrow> 'a option) \<Rightarrow> ustr \<Rightarrow> 'a option" where
  "read_separator sep index p s = (if 0 < index then Option.bind (read_char sep s) p else p s)"

fun read_octets :: "nat \<Rightarrow> nat \<Rightarrow> nat list \<Rightarrow> ustr \<Rightarrow> (nat list \<times> ustr) option" where
  "read_octets 0 i acc s = Some (acc, s)"
| "read_octets (Suc k) i acc s =
     Option.bind (read_separator 46 i (read_number 10 255 3 False) s) (\<lambda>(v, s).
       read_octets k (Suc i) (acc @ [v]) s)"

definition read_ipv4_addr :: "ustr \<Rightarrow> (nat list \<times> ustr) option" where
  "read_ipv4_addr s = read_octets 4 0 [] s"

text \<open>\<open>read_groups\<close>: the groups read, whether the last two came from an embedded IPv4 address, and the rest.\<close>

fun read_groups :: "nat \<Rightarrow> nat \<Rightarrow> nat list \<Rightarrow> ustr \<Rightarrow> nat list \<times> bool \<times> ustr" where
  "read_groups 0 i acc s = (acc, False, s)"
| "read_groups (Suc k) i acc s =
     (case (if 0 < k then read_separator 58 i read_ipv4_addr s else None) of
        Some (octets, s) \<Rightarrow>
          (acc @ [octets ! 0 * 256 + octets ! 1, octets ! 2 * 256 + octets ! 3], True, s)
      | None \<Rightarrow>
          (case read_separator 58 i (read_number 16 65535 4 True) s of
             Some (g, s) \<Rightarrow> read_groups k (Suc i) (acc @ [g]) s
           | None \<Rightarrow> (acc, False, s)))"

definition read_ipv6_addr :: "ustr \<Rightarrow> (nat list \<times> ustr) option" where
  "read_ipv6_addr s =
     (case read_groups 8 0 [] s of (front, front_ipv4, s) \<Rightarrow>
        if length front = 8 then Some (front, s)
        else if front_ipv4 then None
        else Option.bind (read_char 58 s) (\<lambda>s.
             Option.bind (read_char 58 s) (\<lambda>s.
               case read_groups (8 - (length front + 1)) 0 [] s of (back, _, s) \<Rightarrow>
                 Some (front @ replicate (8 - length front - length back) 0 @ back, s))))"

definition from_digits :: "nat \<Rightarrow> nat list \<Rightarrow> nat" where
  "from_digits base ds = foldl (\<lambda>n d. n * base + d) 0 ds"

text \<open>\<open>str::parse::<IpAddr>\<close>, which must consume the whole text.\<close>

definition parse_ip_addr :: "ustr \<Rightarrow> ip_addr option" where
  "parse_ip_addr s =
     (case read_ipv4_addr s of
        Some (octets, r) \<Rightarrow> if r = [] then Some (V4 (word_of_nat (from_digits 256 octets))) else None
      | None \<Rightarrow>
          (case read_ipv6_addr s of
             Some (groups, r) \<Rightarrow> if r = [] then Some (V6 (word_of_nat (from_digits 65536 groups))) else None
           | None \<Rightarrow> None))"

section \<open>Addresses that are not public\<close>

definition ipv4_of :: "nat \<Rightarrow> nat \<Rightarrow> nat \<Rightarrow> nat \<Rightarrow> 32 word" where
  "ipv4_of a b c d = word_of_nat (from_digits 256 [a, b, c, d])"

definition octet :: "nat \<Rightarrow> 32 word \<Rightarrow> nat" where
  "octet i ip = unat (drop_bit (24 - 8 * i) ip AND 255)"

definition ipv4_in_cidr :: "32 word \<Rightarrow> 32 word \<Rightarrow> nat \<Rightarrow> bool" where
  "ipv4_in_cidr ip base prefix \<longleftrightarrow>
     (let mask = (if prefix = 0 then 0 else push_bit (32 - prefix) (- 1)) in ip AND mask = base AND mask)"

text \<open>\<open>Ipv4Addr::is_loopback\<close>, \<open>is_private\<close>, \<open>is_link_local\<close>, \<open>is_unspecified\<close>, \<open>is_multicast\<close>, \<open>is_broadcast\<close>.\<close>

definition ipv4_is_loopback :: "32 word \<Rightarrow> bool" where
  "ipv4_is_loopback ip \<longleftrightarrow> octet 0 ip = 127"

definition ipv4_is_private :: "32 word \<Rightarrow> bool" where
  "ipv4_is_private ip \<longleftrightarrow> octet 0 ip = 10
     \<or> octet 0 ip = 172 \<and> 16 \<le> octet 1 ip \<and> octet 1 ip \<le> 31
     \<or> octet 0 ip = 192 \<and> octet 1 ip = 168"

definition ipv4_is_link_local :: "32 word \<Rightarrow> bool" where
  "ipv4_is_link_local ip \<longleftrightarrow> octet 0 ip = 169 \<and> octet 1 ip = 254"

definition ipv4_is_multicast :: "32 word \<Rightarrow> bool" where
  "ipv4_is_multicast ip \<longleftrightarrow> 224 \<le> octet 0 ip \<and> octet 0 ip \<le> 239"

definition is_non_public_ipv4 :: "32 word \<Rightarrow> bool" where
  "is_non_public_ipv4 ip \<longleftrightarrow>
     ipv4_is_loopback ip \<or> ipv4_is_private ip \<or> ipv4_is_link_local ip \<or> ip = 0 \<or> ipv4_is_multicast ip \<or> ip = - 1
     \<or> ipv4_in_cidr ip (ipv4_of 0 0 0 0) 8
     \<or> ipv4_in_cidr ip (ipv4_of 100 64 0 0) 10
     \<or> ipv4_in_cidr ip (ipv4_of 192 0 0 0) 24
     \<or> ipv4_in_cidr ip (ipv4_of 192 0 2 0) 24
     \<or> ipv4_in_cidr ip (ipv4_of 198 18 0 0) 15
     \<or> ipv4_in_cidr ip (ipv4_of 198 51 100 0) 24
     \<or> ipv4_in_cidr ip (ipv4_of 203 0 113 0) 24
     \<or> ipv4_in_cidr ip (ipv4_of 240 0 0 0) 4"

text \<open>\<open>Ipv6Addr::to_ipv4\<close>: an address of the form \<open>::a.b.c.d\<close> or \<open>::ffff:a.b.c.d\<close>.\<close>

definition to_ipv4 :: "128 word \<Rightarrow> 32 word option" where
  "to_ipv4 ip = (if drop_bit 32 ip \<in> {0, 65535} then Some (ucast ip) else None)"

definition is_non_public_ipv6 :: "128 word \<Rightarrow> bool" where
  "is_non_public_ipv6 ip =
     (case to_ipv4 ip of
        Some v4 \<Rightarrow> is_non_public_ipv4 v4 \<or> ip = 1
      | None \<Rightarrow> ip = 1 \<or> ip = 0 \<or> drop_bit 120 ip = 255
          \<or> drop_bit 112 ip AND 65024 = 64512
          \<or> drop_bit 112 ip AND 65472 = 65152)"

definition is_non_public_ip :: "ip_addr \<Rightarrow> bool" where
  "is_non_public_ip ip = (case ip of V4 v \<Rightarrow> is_non_public_ipv4 v | V6 v \<Rightarrow> is_non_public_ipv6 v)"

definition ip_is_loopback :: "ip_addr \<Rightarrow> bool" where
  "ip_is_loopback ip = (case ip of V4 v \<Rightarrow> ipv4_is_loopback v | V6 v \<Rightarrow> v = 1)"

section \<open>Host names\<close>

fun split_once_str :: "ustr \<Rightarrow> ustr \<Rightarrow> (ustr \<times> ustr) option" where
  "split_once_str pat s =
     (case strip_prefix pat s of
        Some r \<Rightarrow> Some ([], r)
      | None \<Rightarrow> (case s of [] \<Rightarrow> None | c # cs \<Rightarrow> map_option (\<lambda>(a, b). (c # a, b)) (split_once_str pat cs)))"

definition unscoped_ip_literal :: "ustr \<Rightarrow> ustr option" where
  "unscoped_ip_literal h =
     Option.bind (split_once_str (str ''%'') h) (\<lambda>(ip, _). if parse_ip_addr ip \<noteq> None then Some ip else None)"

definition scoped_literal :: "ustr \<Rightarrow> ustr \<Rightarrow> ustr option" where
  "scoped_literal delimiter h =
     Option.bind (split_once_str delimiter h) (\<lambda>(ip, scope).
       if parse_ip_addr ip \<noteq> None then Some (ip @ str ''%'' @ scope) else None)"

definition normalize_ip_literal :: "ustr \<Rightarrow> ustr option" where
  "normalize_ip_literal h =
     (if parse_ip_addr h \<noteq> None then Some h
      else case scoped_literal (str ''%25'') h of
             Some r \<Rightarrow> Some r
           | None \<Rightarrow> scoped_literal (str ''%'') h)"

definition normalize_dns_host_or_ip_literal :: "ustr \<Rightarrow> ustr" where
  "normalize_dns_host_or_ip_literal h =
     (let h = trim_end_matches (chr CHR ''.'') (to_ascii_lowercase h) in
      case normalize_ip_literal h of Some ip \<Rightarrow> ip | None \<Rightarrow> h)"

definition normalize_host :: "ustr \<Rightarrow> ustr" where
  "normalize_host raw =
     (let h = trim raw in
      if starts_with (str ''['') h \<and> chr CHR '']'' \<in> set h
      then normalize_dns_host_or_ip_literal (takeWhile (\<lambda>c. c \<noteq> chr CHR '']'') (drop 1 h))
      else if count_list h (chr CHR '':'') = 1
      then normalize_dns_host_or_ip_literal (takeWhile (\<lambda>c. c \<noteq> chr CHR '':'') h)
      else normalize_dns_host_or_ip_literal h)"

text \<open>\<open>Host::parse\<close> fails on an empty host.\<close>

definition host_parse :: "ustr \<Rightarrow> ustr option" where
  "host_parse input = (let normalized = normalize_host input in if normalized = [] then None else Some normalized)"

definition is_loopback_host :: "ustr \<Rightarrow> bool" where
  "is_loopback_host h0 =
     (let h = (case unscoped_ip_literal h0 of Some ip \<Rightarrow> ip | None \<Rightarrow> h0) in
      h = str ''localhost'' \<or> (case parse_ip_addr h of Some ip \<Rightarrow> ip_is_loopback ip | None \<Rightarrow> False))"

section \<open>Domain patterns\<close>

definition normalize_pattern :: "ustr \<Rightarrow> ustr" where
  "normalize_pattern raw =
     (let p = trim raw in
      if p = str ''*'' then str ''*''
      else case strip_prefix (str ''**.'') p of
             Some domain \<Rightarrow> str ''**.'' @ normalize_host domain
           | None \<Rightarrow>
               (case strip_prefix (str ''*.'') p of
                  Some domain \<Rightarrow> str ''*.'' @ normalize_host domain
                | None \<Rightarrow> normalize_host p))"

datatype domain_pattern = ApexAndSubdomains ustr | SubdomainsOnly ustr | ExactDomain ustr

definition parse_domain :: "ustr \<Rightarrow> (ustr \<Rightarrow> domain_pattern) \<Rightarrow> domain_pattern" where
  "parse_domain domain build = (let d = trim domain in if d = [] then ExactDomain [] else build d)"

definition domain_pattern_parse :: "ustr \<Rightarrow> domain_pattern" where
  "domain_pattern_parse raw =
     (let p = trim raw in
      if p = [] then ExactDomain []
      else case strip_prefix (str ''**.'') p of
             Some domain \<Rightarrow> parse_domain domain ApexAndSubdomains
           | None \<Rightarrow>
               (case strip_prefix (str ''*.'') p of
                  Some domain \<Rightarrow> parse_domain domain SubdomainsOnly
                | None \<Rightarrow> ExactDomain p))"

text \<open>\<open>url_host\<close> is \<open>url::Host::parse\<close> followed by \<open>to_string\<close>.\<close>

definition parse_domain_for_constraints :: "(ustr \<Rightarrow> ustr option) \<Rightarrow> ustr \<Rightarrow> ustr" where
  "parse_domain_for_constraints url_host raw =
     (let domain = trim_end_matches (chr CHR ''.'') (trim raw) in
      if domain = [] then []
      else let h = (if starts_with (str ''['') domain \<and> ends_with (str '']'') domain
                    then take (length domain - 1 - 1) (drop 1 domain) else domain)
           in if contains_char (chr CHR ''*'') h \<or> contains_char (chr CHR ''?'') h \<or> contains_char (chr CHR ''%'') h
              then domain
              else (case url_host h of Some s \<Rightarrow> s | None \<Rightarrow> []))"

definition parse_for_constraints :: "(ustr \<Rightarrow> ustr option) \<Rightarrow> ustr \<Rightarrow> domain_pattern" where
  "parse_for_constraints url_host raw =
     (let p = trim raw in
      if p = [] then ExactDomain []
      else case strip_prefix (str ''**.'') p of
             Some domain \<Rightarrow> ApexAndSubdomains (parse_domain_for_constraints url_host domain)
           | None \<Rightarrow>
               (case strip_prefix (str ''*.'') p of
                  Some domain \<Rightarrow> SubdomainsOnly (parse_domain_for_constraints url_host domain)
                | None \<Rightarrow> ExactDomain (parse_domain_for_constraints url_host p)))"

definition normalize_domain :: "ustr \<Rightarrow> ustr" where
  "normalize_domain d = to_ascii_lowercase (trim_end_matches (chr CHR ''.'') d)"

definition domain_eq :: "ustr \<Rightarrow> ustr \<Rightarrow> bool" where
  "domain_eq left right \<longleftrightarrow> normalize_domain left = normalize_domain right"

definition is_subdomain_or_equal :: "ustr \<Rightarrow> ustr \<Rightarrow> bool" where
  "is_subdomain_or_equal child parent \<longleftrightarrow>
     normalize_domain child = normalize_domain parent
     \<or> ends_with (str ''.'' @ normalize_domain parent) (normalize_domain child)"

definition is_strict_subdomain :: "ustr \<Rightarrow> ustr \<Rightarrow> bool" where
  "is_strict_subdomain child parent \<longleftrightarrow>
     normalize_domain child \<noteq> normalize_domain parent
     \<and> ends_with (str ''.'' @ normalize_domain parent) (normalize_domain child)"

fun allows :: "domain_pattern \<Rightarrow> domain_pattern \<Rightarrow> bool" where
  "allows (ExactDomain domain) (ExactDomain candidate) \<longleftrightarrow> domain_eq candidate domain"
| "allows (ExactDomain domain) _ \<longleftrightarrow> False"
| "allows (SubdomainsOnly domain) (ExactDomain candidate) \<longleftrightarrow> is_strict_subdomain candidate domain"
| "allows (SubdomainsOnly domain) (SubdomainsOnly candidate) \<longleftrightarrow> is_subdomain_or_equal candidate domain"
| "allows (SubdomainsOnly domain) (ApexAndSubdomains candidate) \<longleftrightarrow> is_strict_subdomain candidate domain"
| "allows (ApexAndSubdomains domain) (ExactDomain candidate) \<longleftrightarrow> is_subdomain_or_equal candidate domain"
| "allows (ApexAndSubdomains domain) (SubdomainsOnly candidate) \<longleftrightarrow> is_subdomain_or_equal candidate domain"
| "allows (ApexAndSubdomains domain) (ApexAndSubdomains candidate) \<longleftrightarrow> is_subdomain_or_equal candidate domain"

definition expand_domain_pattern :: "ustr \<Rightarrow> ustr list" where
  "expand_domain_pattern pat =
     (case domain_pattern_parse pat of
        ExactDomain domain \<Rightarrow> [domain]
      | SubdomainsOnly domain \<Rightarrow> [str ''?*.'' @ domain]
      | ApexAndSubdomains domain \<Rightarrow> [domain, str ''?*.'' @ domain])"

definition is_global_wildcard_domain_pattern :: "ustr \<Rightarrow> bool" where
  "is_global_wildcard_domain_pattern pat \<longleftrightarrow>
     list_ex (\<lambda>candidate. candidate = str ''*'') (expand_domain_pattern (normalize_pattern pat))"

section \<open>Compiled pattern sets\<close>

text \<open>
  A \<open>GlobSet\<close> is the list of its globs; \<open>valid_glob\<close> says whether a glob compiles and
  \<open>glob_match\<close> whether it matches a host, ignoring case.
\<close>

record glob_lib =
  valid_glob :: "ustr \<Rightarrow> bool"
  glob_match :: "ustr \<Rightarrow> ustr \<Rightarrow> bool"

fun add_globs :: "glob_lib \<Rightarrow> ustr list \<Rightarrow> ustr list \<Rightarrow> ustr list option" where
  "add_globs lib [] globs = Some globs"
| "add_globs lib (candidate # cs) globs =
     (if candidate \<in> set globs then add_globs lib cs globs
      else if valid_glob lib candidate then add_globs lib cs (globs @ [candidate])
      else None)"

fun compile_globset_loop :: "glob_lib \<Rightarrow> bool \<Rightarrow> ustr list \<Rightarrow> ustr list \<Rightarrow> ustr list option" where
  "compile_globset_loop lib reject_global [] globs = Some globs"
| "compile_globset_loop lib reject_global (pat # pats) globs =
     (if reject_global \<and> is_global_wildcard_domain_pattern pat then None
      else Option.bind (add_globs lib (expand_domain_pattern (normalize_pattern pat)) globs)
             (compile_globset_loop lib reject_global pats))"

definition compile_allowlist_globset :: "glob_lib \<Rightarrow> ustr list \<Rightarrow> ustr list option" where
  "compile_allowlist_globset lib patterns = compile_globset_loop lib False patterns []"

definition compile_denylist_globset :: "glob_lib \<Rightarrow> ustr list \<Rightarrow> ustr list option" where
  "compile_denylist_globset lib patterns = compile_globset_loop lib True patterns []"

definition globset_is_match :: "glob_lib \<Rightarrow> ustr list \<Rightarrow> ustr \<Rightarrow> bool" where
  "globset_is_match lib globs h \<longleftrightarrow> list_ex (\<lambda>g. glob_match lib g h) globs"

section \<open>Comparing patterns\<close>

text \<open>The hosts a pattern stands for, as normalised names: the domain itself, its subdomains, or both.\<close>

definition subdomain_hosts :: "ustr \<Rightarrow> ustr set" where
  "subdomain_hosts d = {x @ str ''.'' @ d | x. x \<noteq> []}"

fun pattern_hosts :: "domain_pattern \<Rightarrow> ustr set" where
  "pattern_hosts (ExactDomain d) = {normalize_domain d}"
| "pattern_hosts (SubdomainsOnly d) = subdomain_hosts (normalize_domain d)"
| "pattern_hosts (ApexAndSubdomains d) = insert (normalize_domain d) (subdomain_hosts (normalize_domain d))"

fun pattern_domain :: "domain_pattern \<Rightarrow> ustr" where
  "pattern_domain (ExactDomain d) = d"
| "pattern_domain (SubdomainsOnly d) = d"
| "pattern_domain (ApexAndSubdomains d) = d"

definition no_leading_dot :: "ustr \<Rightarrow> bool" where
  "no_leading_dot d \<longleftrightarrow> \<not> starts_with (str ''.'') (normalize_domain d)"

lemma strict_subdomain_iff:
  "no_leading_dot c \<Longrightarrow> is_strict_subdomain c d \<longleftrightarrow> normalize_domain c \<in> subdomain_hosts (normalize_domain d)"
  by (auto simp: is_strict_subdomain_def subdomain_hosts_def ends_with_iff no_leading_dot_def)

lemma subdomain_or_equal_iff:
  "no_leading_dot c \<Longrightarrow> is_subdomain_or_equal c d \<longleftrightarrow>
     normalize_domain c \<in> insert (normalize_domain d) (subdomain_hosts (normalize_domain d))"
  using strict_subdomain_iff [of c d] by (auto simp: is_subdomain_or_equal_def is_strict_subdomain_def)

lemma subdomain_hosts_trans: "c \<in> subdomain_hosts d \<Longrightarrow> subdomain_hosts c \<subseteq> subdomain_hosts d"
  by (auto simp: subdomain_hosts_def)

lemma label_in_subdomain_hosts: "a # str ''.'' @ c \<in> subdomain_hosts c"
  unfolding subdomain_hosts_def by (intro CollectI exI [of _ "[a]"]) simp

lemma label_subdomain:
  assumes "a # str ''.'' @ c \<in> subdomain_hosts d" "\<not> starts_with (str ''.'') c"
  shows "c \<in> insert d (subdomain_hosts d)"
proof -
  obtain y where y: "y \<noteq> []" "a # str ''.'' @ c = y @ str ''.'' @ d"
    using assms(1) by (auto simp: subdomain_hosts_def)
  then obtain y' where y': "str ''.'' @ c = y' @ str ''.'' @ d" by (cases y) auto
  show ?thesis
  proof (cases y')
    case Nil
    with y' show ?thesis by simp
  next
    case (Cons b z)
    with y' have c: "c = z @ str ''.'' @ d" by (simp add: str_Cons)
    with assms(2) have "z \<noteq> []" by auto
    with c show ?thesis by (auto simp: subdomain_hosts_def)
  qed
qed

lemma subdomain_hosts_subset_iff:
  assumes "\<not> starts_with (str ''.'') c"
  shows "subdomain_hosts c \<subseteq> subdomain_hosts d \<longleftrightarrow> c \<in> insert d (subdomain_hosts d)"
    and "subdomain_hosts c \<subseteq> insert d (subdomain_hosts d) \<longleftrightarrow> c \<in> insert d (subdomain_hosts d)"
proof -
  have "c \<in> insert d (subdomain_hosts d)" if "subdomain_hosts c \<subseteq> insert d (subdomain_hosts d)"
  proof -
    obtain a where "a # str ''.'' @ c \<noteq> d" using n_not_Suc_n by (metis list.inject)
    with that label_in_subdomain_hosts [of a c] have "a # str ''.'' @ c \<in> subdomain_hosts d" by blast
    with label_subdomain assms show ?thesis by blast
  qed
  then show "subdomain_hosts c \<subseteq> subdomain_hosts d \<longleftrightarrow> c \<in> insert d (subdomain_hosts d)"
    "subdomain_hosts c \<subseteq> insert d (subdomain_hosts d) \<longleftrightarrow> c \<in> insert d (subdomain_hosts d)"
    using subdomain_hosts_trans [of c d] by blast+
qed

lemma subdomain_hosts_not_single: "\<not> subdomain_hosts c \<subseteq> {d}"
proof
  assume "subdomain_hosts c \<subseteq> {d}"
  then have "0 # str ''.'' @ c = d" "1 # str ''.'' @ c = d" using label_in_subdomain_hosts by blast+
  then show False by (metis list.inject zero_neq_one)
qed

text \<open>
  The comparison of two domain patterns is exact. A managed pattern allows a
  candidate, whose domain does not start with a dot, exactly when every host the
  candidate stands for is a host the managed pattern stands for.
\<close>

theorem allows_iff_subset:
  assumes "no_leading_dot (pattern_domain candidate)"
  shows "allows managed candidate \<longleftrightarrow> pattern_hosts candidate \<subseteq> pattern_hosts managed"
  using assms unfolding no_leading_dot_def
  by (cases "(managed, candidate)" rule: allows.cases)
    (auto simp: domain_eq_def strict_subdomain_iff subdomain_or_equal_iff no_leading_dot_def
      subdomain_hosts_subset_iff subdomain_hosts_not_single dest: subdomain_hosts_trans)

theorem allows_iff_subset_witness:
  "let managed = parse_for_constraints Some (str ''*.example.com''); candidate = parse_for_constraints Some (str ''**.api.example.com'')
   in allows managed candidate \<and> pattern_hosts candidate \<subseteq> pattern_hosts managed"
proof -
  let ?m = "parse_for_constraints Some (str ''*.example.com'')" and ?c = "parse_for_constraints Some (str ''**.api.example.com'')"
  have "no_leading_dot (pattern_domain ?c)" "allows ?m ?c" by code_simp+
  with allows_iff_subset [of ?c ?m] show ?thesis by (simp add: Let_def)
qed

section \<open>The ranges that are not public\<close>

lemma unat_shift: "unat (drop_bit n w) = unat w div 2 ^ n" for w :: "'a :: len word"
  by (simp flip: drop_bit_eq_div add: unsigned_drop_bit_eq take_bit_nat_eq_self)

lemma unat_low_bits: "unat (take_bit n w) = unat w mod 2 ^ n" for w :: "'a :: len word"
  by (simp flip: take_bit_eq_mod add: unsigned_take_bit_eq)

lemma drop_bit_high_mask: "drop_bit n (w AND push_bit n (- 1)) = drop_bit n w" for w :: "32 word"
  by (rule bit_word_eqI) (auto simp: bit_simps dest: bit_imp_le_length)

lemma and_high_mask: "w AND push_bit n (- 1) = push_bit n (drop_bit n w)" for w :: "32 word"
  by (rule bit_word_eqI) (auto simp: bit_simps)

text \<open>Comparing under a network mask compares the quotients by the size of the block.\<close>

lemma ipv4_in_cidr_iff:
  assumes "0 < prefix"
  shows "ipv4_in_cidr ip base prefix \<longleftrightarrow> unat ip div 2 ^ (32 - prefix) = unat base div 2 ^ (32 - prefix)"
proof -
  let ?n = "32 - prefix"
  have "ip AND push_bit ?n (- 1) = base AND push_bit ?n (- 1) \<longleftrightarrow> drop_bit ?n ip = drop_bit ?n base"
    using drop_bit_high_mask [of ?n] and_high_mask [of _ ?n] by metis
  also have "\<dots> \<longleftrightarrow> unat (drop_bit ?n ip) = unat (drop_bit ?n base)" by (simp only: word_unat_eq_iff)
  finally show ?thesis using assms by (simp only: unat_shift ipv4_in_cidr_def) simp
qed

lemma octet_div: "octet i ip = unat ip div 2 ^ (24 - 8 * i) mod 256"
proof -
  have "drop_bit n ip AND 255 = take_bit 8 (drop_bit n ip)" for n
    by (simp only: take_bit_eq_mask) (simp add: mask_eq_exp_minus_1)
  then show ?thesis by (simp only: octet_def unat_low_bits unat_shift) simp
qed

lemma octet_0: "octet 0 ip = unat ip div 16777216"
proof -
  have "unat ip < 2 ^ LENGTH(32)" by (rule unsigned_less)
  then have "unat ip div 16777216 < 256" by (simp add: div_less_iff_less_mult)
  then show ?thesis by (simp add: octet_div)
qed

lemma octet_1: "octet 1 ip = unat ip div 65536 mod 256"
  by (simp add: octet_div)

lemma div_mod_range:
  fixes m :: nat
  assumes "hi < 256"
  shows "m div 256 = c \<and> lo \<le> m mod 256 \<and> m mod 256 \<le> hi \<longleftrightarrow> 256 * c + lo \<le> m \<and> m \<le> 256 * c + hi"
proof
  assume "m div 256 = c \<and> lo \<le> m mod 256 \<and> m mod 256 \<le> hi"
  then show "256 * c + lo \<le> m \<and> m \<le> 256 * c + hi" using mult_div_mod_eq [of 256 m] by linarith
next
  assume r: "256 * c + lo \<le> m \<and> m \<le> 256 * c + hi"
  then have "m div 256 = c" using assms by (intro div_nat_eqI) simp_all
  with r show "m div 256 = c \<and> lo \<le> m mod 256 \<and> m mod 256 \<le> hi" using mult_div_mod_eq [of 256 m] by linarith
qed

lemma two_octets:
  assumes "hi < 256"
  shows "octet 0 ip = a \<and> lo \<le> octet 1 ip \<and> octet 1 ip \<le> hi \<longleftrightarrow>
    (256 * a + lo) * 65536 \<le> unat ip \<and> unat ip < (256 * a + hi + 1) * 65536"
proof -
  have "octet 0 ip = unat ip div 65536 div 256" by (simp add: octet_0 div_mult2_eq [symmetric])
  then have "octet 0 ip = a \<and> lo \<le> octet 1 ip \<and> octet 1 ip \<le> hi \<longleftrightarrow>
      256 * a + lo \<le> unat ip div 65536 \<and> unat ip div 65536 \<le> 256 * a + hi"
    unfolding octet_1 using div_mod_range [OF assms, of "unat ip div 65536" a lo] by (simp only:)
  also have "\<dots> \<longleftrightarrow> (256 * a + lo) * 65536 \<le> unat ip \<and> unat ip < (256 * a + hi + 1) * 65536"
    by (simp add: less_eq_div_iff_mult_less_eq) (auto simp: div_less_iff_less_mult less_Suc_eq_le [symmetric])
  finally show ?thesis .
qed

text \<open>The blocks of addresses that are not public, by their first and last address.\<close>

definition NON_PUBLIC_IPV4_RANGES :: "(nat \<times> nat) list" where
  "NON_PUBLIC_IPV4_RANGES =
     [(0, 16777215), (167772160, 184549375), (1681915904, 1686110207), (2130706432, 2147483647),
      (2851995648, 2852061183), (2886729728, 2887778303), (3221225472, 3221225727), (3221225984, 3221226239),
      (3232235520, 3232301055), (3323068416, 3323199487), (3325256704, 3325256959), (3405803776, 3405804031),
      (3758096384, 4294967295)]"

lemma div_eq_range: "0 < k \<Longrightarrow> n div k = c \<longleftrightarrow> c * k \<le> n \<and> n < c * k + k" for n :: nat
  using div_nat_eqI [of k c n] div_times_less_eq_dividend [of n k] dividend_less_div_times [of k n]
  by (auto simp: mult.commute)

lemma unat_blocks:
  "unat (ipv4_of 0 0 0 0) = 0" "unat (ipv4_of 100 64 0 0) = 1681915904" "unat (ipv4_of 192 0 0 0) = 3221225472"
  "unat (ipv4_of 192 0 2 0) = 3221225984" "unat (ipv4_of 198 18 0 0) = 3323068416"
  "unat (ipv4_of 198 51 100 0) = 3325256704" "unat (ipv4_of 203 0 113 0) = 3405803776"
  "unat (ipv4_of 240 0 0 0) = 4026531840"
  by (simp_all add: ipv4_of_def from_digits_def)

lemma ipv4_helper_ranges:
  "ipv4_is_loopback ip \<longleftrightarrow> 2130706432 \<le> unat ip \<and> unat ip \<le> 2147483647"
  "ipv4_is_private ip \<longleftrightarrow> 167772160 \<le> unat ip \<and> unat ip \<le> 184549375
     \<or> 2886729728 \<le> unat ip \<and> unat ip \<le> 2887778303 \<or> 3232235520 \<le> unat ip \<and> unat ip \<le> 3232301055"
  "ipv4_is_link_local ip \<longleftrightarrow> 2851995648 \<le> unat ip \<and> unat ip \<le> 2852061183"
  "ipv4_is_multicast ip \<longleftrightarrow> 3758096384 \<le> unat ip \<and> unat ip \<le> 4026531839"
proof -
  note octets = two_octets [of 31 ip 172 16] two_octets [of 168 ip 192 168] two_octets [of 254 ip 169 254]
  show "ipv4_is_loopback ip \<longleftrightarrow> 2130706432 \<le> unat ip \<and> unat ip \<le> 2147483647"
    "ipv4_is_multicast ip \<longleftrightarrow> 3758096384 \<le> unat ip \<and> unat ip \<le> 4026531839"
    by (simp_all add: ipv4_is_loopback_def ipv4_is_multicast_def octet_0) arith+
  have "octet 0 ip = 10 \<longleftrightarrow> 167772160 \<le> unat ip \<and> unat ip \<le> 184549375" by (simp add: octet_0) arith
  moreover have "octet 0 ip = 172 \<and> 16 \<le> octet 1 ip \<and> octet 1 ip \<le> 31 \<longleftrightarrow> 2886729728 \<le> unat ip \<and> unat ip \<le> 2887778303"
    using octets(1) by auto
  moreover have "octet 0 ip = 192 \<and> octet 1 ip = 168 \<longleftrightarrow> 3232235520 \<le> unat ip \<and> unat ip \<le> 3232301055"
    using octets(2) by auto
  ultimately show "ipv4_is_private ip \<longleftrightarrow> 167772160 \<le> unat ip \<and> unat ip \<le> 184549375
     \<or> 2886729728 \<le> unat ip \<and> unat ip \<le> 2887778303 \<or> 3232235520 \<le> unat ip \<and> unat ip \<le> 3232301055"
    unfolding ipv4_is_private_def by simp
  show "ipv4_is_link_local ip \<longleftrightarrow> 2851995648 \<le> unat ip \<and> unat ip \<le> 2852061183"
    using octets(3) unfolding ipv4_is_link_local_def by auto
qed

lemma ipv4_block_ranges:
  "ipv4_in_cidr ip (ipv4_of 0 0 0 0) 8 \<longleftrightarrow> unat ip \<le> 16777215"
  "ipv4_in_cidr ip (ipv4_of 100 64 0 0) 10 \<longleftrightarrow> 1681915904 \<le> unat ip \<and> unat ip \<le> 1686110207"
  "ipv4_in_cidr ip (ipv4_of 192 0 0 0) 24 \<longleftrightarrow> 3221225472 \<le> unat ip \<and> unat ip \<le> 3221225727"
  "ipv4_in_cidr ip (ipv4_of 192 0 2 0) 24 \<longleftrightarrow> 3221225984 \<le> unat ip \<and> unat ip \<le> 3221226239"
  "ipv4_in_cidr ip (ipv4_of 198 18 0 0) 15 \<longleftrightarrow> 3323068416 \<le> unat ip \<and> unat ip \<le> 3323199487"
  "ipv4_in_cidr ip (ipv4_of 198 51 100 0) 24 \<longleftrightarrow> 3325256704 \<le> unat ip \<and> unat ip \<le> 3325256959"
  "ipv4_in_cidr ip (ipv4_of 203 0 113 0) 24 \<longleftrightarrow> 3405803776 \<le> unat ip \<and> unat ip \<le> 3405804031"
  "ipv4_in_cidr ip (ipv4_of 240 0 0 0) 4 \<longleftrightarrow> 4026531840 \<le> unat ip \<and> unat ip \<le> 4294967295"
  by (auto simp: ipv4_in_cidr_iff unat_blocks div_eq_range)

text \<open>\<open>281470681743360\<close> is \<open>::ffff:0.0.0.0\<close>.\<close>

lemma unat_mapped: "unat (281470681743360 + ucast v :: 128 word) = 281470681743360 + unat v" for v :: "32 word"
proof -
  have v: "unat v < 2 ^ LENGTH(32)" by (rule unsigned_less)
  have "(281470681743360 + ucast v :: 128 word) = word_of_nat (281470681743360 + unat v)" by (simp add: unsigned_ucast_eq)
  moreover have "unat (word_of_nat (281470681743360 + unat v) :: 128 word) = 281470681743360 + unat v"
    using v by (simp only: unsigned_of_nat) (simp add: take_bit_nat_eq_self_iff)
  ultimately show ?thesis by simp
qed

lemma drop_bit_mapped: "drop_bit 32 (281470681743360 + ucast v :: 128 word) = 65535" for v :: "32 word"
proof -
  have v: "unat v < 2 ^ LENGTH(32)" by (rule unsigned_less)
  have "unat (drop_bit 32 (281470681743360 + ucast v :: 128 word)) = 65535"
    using v by (simp only: unat_shift unat_mapped) simp
  also have "\<dots> = unat (65535 :: 128 word)" by simp
  finally show ?thesis by (simp only: word_unat_eq_iff)
qed

lemma ucast_mapped: "ucast (281470681743360 + ucast v :: 128 word) = v" for v :: "32 word"
proof -
  have v: "unat v < 2 ^ LENGTH(32)" by (rule unsigned_less)
  have "unat (ucast (281470681743360 + ucast v :: 128 word) :: 32 word) = (281470681743360 + unat v) mod 4294967296"
    by (simp only: unsigned_ucast_eq unat_mapped) (simp add: take_bit_eq_mod)
  also have "\<dots> = unat v" using v mod_mult_self3 [of 65535 4294967296 "unat v"] by simp
  finally show ?thesis by (simp only: word_unat_eq_iff)
qed

text \<open>
  C36: the addresses that are refused as not public are exactly the reserved blocks of IPv4, given
  here by their bounds, and an IPv4 address that is written as an IPv6 address (\<open>::ffff:a.b.c.d\<close>)
  is judged as the IPv4 address it stands for.
\<close>

theorem non_public_ranges:
  "(is_non_public_ip (V4 v) \<longleftrightarrow> list_ex (\<lambda>(lo, hi). lo \<le> unat v \<and> unat v \<le> hi) NON_PUBLIC_IPV4_RANGES)
    \<and> (is_non_public_ip (V6 (281470681743360 + ucast v)) \<longleftrightarrow> is_non_public_ip (V4 v))"
proof
  have "unat v < 2 ^ LENGTH(32)" by (rule unsigned_less)
  then have top: "unat v \<le> 4294967295" by simp
  have "unat (- 1 :: 32 word) = 4294967295" by (simp add: unsigned_minus_1_eq_mask mask_eq_exp_minus_1)
  then have ends: "v = 0 \<longleftrightarrow> unat v = 0" "v = - 1 \<longleftrightarrow> unat v = 4294967295"
    by (simp_all add: word_unat_eq_iff)
  have low: "unat v = 0 \<or> unat v \<le> 16777215 \<longleftrightarrow> unat v \<le> 16777215"
    and high: "3758096384 \<le> unat v \<and> unat v \<le> 4026531839 \<or> unat v = 4294967295
      \<or> 4026531840 \<le> unat v \<and> unat v \<le> 4294967295 \<longleftrightarrow> 3758096384 \<le> unat v \<and> unat v \<le> 4294967295"
    using top by auto
  have "is_non_public_ipv4 v \<longleftrightarrow>
      list_ex (\<lambda>(lo, hi). lo \<le> unat v \<and> unat v \<le> hi) NON_PUBLIC_IPV4_RANGES"
    unfolding is_non_public_ipv4_def ipv4_helper_ranges ipv4_block_ranges ends
    using low high by (simp only: NON_PUBLIC_IPV4_RANGES_def list_ex_Nil_iff list_ex_Cons_iff prod.case le0 simp_thms) argo
  then show "is_non_public_ip (V4 v) \<longleftrightarrow> list_ex (\<lambda>(lo, hi). lo \<le> unat v \<and> unat v \<le> hi) NON_PUBLIC_IPV4_RANGES"
    by (simp add: is_non_public_ip_def)
  let ?m = "281470681743360 + ucast v :: 128 word"
  have "to_ipv4 ?m = Some v" by (simp only: to_ipv4_def drop_bit_mapped ucast_mapped) simp
  moreover have "?m \<noteq> 1"
  proof
    assume "?m = 1"
    then have "drop_bit 32 (1 :: 128 word) = 65535" using drop_bit_mapped [of v] by metis
    then show False by simp
  qed
  ultimately show "is_non_public_ip (V6 ?m) \<longleftrightarrow> is_non_public_ip (V4 v)"
    by (simp only: is_non_public_ip_def is_non_public_ipv6_def ip_addr.case option.case) simp
qed

section \<open>Patterns do not depend on case\<close>

definition not_letter :: "uchar \<Rightarrow> bool" where
  "not_letter x \<longleftrightarrow> \<not> (65 \<le> x \<and> x \<le> 90) \<and> \<not> (97 \<le> x \<and> x \<le> 122)"

lemma ascii_lower_eq_iff: "not_letter x \<Longrightarrow> ascii_lower c = x \<longleftrightarrow> c = x"
  by (auto simp: not_letter_def ascii_lower_def)

lemma eq_ascii_lower_iff: "not_letter x \<Longrightarrow> x = ascii_lower c \<longleftrightarrow> x = c"
  by (auto simp: not_letter_def ascii_lower_def)

lemma is_whitespace_ascii_lower [simp]: "is_whitespace (ascii_lower c) = is_whitespace c"
  by (auto simp: ascii_lower_def is_whitespace_def)

lemma lowercase_idem [simp]: "to_ascii_lowercase (to_ascii_lowercase s) = to_ascii_lowercase s"
  by (auto simp: to_ascii_lowercase_def ascii_lower_def)

lemma dropWhile_lowercase:
  "(\<And>c. P (ascii_lower c) = P c) \<Longrightarrow> dropWhile P (to_ascii_lowercase s) = to_ascii_lowercase (dropWhile P s)"
  "(\<And>c. P (ascii_lower c) = P c) \<Longrightarrow> takeWhile P (to_ascii_lowercase s) = to_ascii_lowercase (takeWhile P s)"
  by (simp_all add: to_ascii_lowercase_def dropWhile_map takeWhile_map comp_def)

lemma trim_lowercase: "trim (to_ascii_lowercase s) = to_ascii_lowercase (trim s)"
  by (simp add: trim_def trim_start_def trim_end_def dropWhile_lowercase)
    (simp add: to_ascii_lowercase_def rev_map dropWhile_map comp_def)

lemma strip_prefix_lowercase:
  "list_all not_letter p \<Longrightarrow> strip_prefix p (to_ascii_lowercase s) = map_option to_ascii_lowercase (strip_prefix p s)"
  by (induction p s rule: strip_prefix.induct)
    (simp_all add: to_ascii_lowercase_def eq_ascii_lower_iff)

lemma mem_lowercase: "not_letter x \<Longrightarrow> x \<in> set (to_ascii_lowercase s) \<longleftrightarrow> x \<in> set s"
  by (simp add: to_ascii_lowercase_def image_iff eq_ascii_lower_iff)

lemma count_lowercase: "not_letter x \<Longrightarrow> count_list (to_ascii_lowercase s) x = count_list s x"
  by (induction s) (auto simp: to_ascii_lowercase_def ascii_lower_eq_iff)

lemma normalize_dns_lowercase:
  "normalize_dns_host_or_ip_literal (to_ascii_lowercase h) = normalize_dns_host_or_ip_literal h"
  by (simp add: normalize_dns_host_or_ip_literal_def)

lemma punctuation_not_letter:
  "not_letter (chr CHR ''['')" "not_letter (chr CHR '']'')" "not_letter (chr CHR '':'')"
  "list_all not_letter (str ''['')" "list_all not_letter (str ''**.'')" "list_all not_letter (str ''*.'')"
  by code_simp+

lemma normalize_host_lowercase: "normalize_host (to_ascii_lowercase h) = normalize_host h"
proof -
  have drop: "drop 1 (to_ascii_lowercase s) = to_ascii_lowercase (drop 1 s)" for s
    by (simp add: to_ascii_lowercase_def drop_map)
  have "starts_with (str ''['') (to_ascii_lowercase s) = starts_with (str ''['') s" for s
    by (simp add: starts_with_def strip_prefix_lowercase punctuation_not_letter)
  then show ?thesis
    by (simp only: normalize_host_def Let_def trim_lowercase mem_lowercase count_lowercase punctuation_not_letter drop
        dropWhile_lowercase ascii_lower_eq_iff normalize_dns_lowercase)
qed

lemma normalize_pattern_lowercase: "normalize_pattern (to_ascii_lowercase p) = normalize_pattern p"
proof -
  have "to_ascii_lowercase s = str ''*'' \<longleftrightarrow> s = str ''*''" for s
    by (cases s) (auto simp: to_ascii_lowercase_def str_Cons ascii_lower_eq_iff not_letter_def chr_def)
  then show ?thesis
    by (auto simp: normalize_pattern_def Let_def trim_lowercase strip_prefix_lowercase punctuation_not_letter
        normalize_host_lowercase split: option.split)
qed

lemma normalize_pattern_cong: "to_ascii_lowercase p = to_ascii_lowercase q \<Longrightarrow> normalize_pattern p = normalize_pattern q"
  using normalize_pattern_lowercase by metis

section \<open>What a compiled set contains\<close>

lemma add_globs_set: "add_globs lib cs globs = Some r \<Longrightarrow> set r = set cs \<union> set globs"
  by (induction cs globs rule: add_globs.induct) (auto split: if_splits)

lemma compile_globset_set:
  "compile_globset_loop lib reject pats globs = Some r \<Longrightarrow>
   set r = set globs \<union> (\<Union>p \<in> set pats. set (expand_domain_pattern (normalize_pattern p)))"
proof (induction pats arbitrary: globs)
  case (Cons p pats)
  then obtain g where "add_globs lib (expand_domain_pattern (normalize_pattern p)) globs = Some g"
    "compile_globset_loop lib reject pats g = Some r"
    by (auto simp: bind_eq_Some_conv split: if_splits)
  with Cons.IH add_globs_set show ?case by fastforce
qed simp

end
