(* ===== verification/Network_Proxy.thy ===== *)
theory Network_Proxy
  imports Network_Hosts Absolute_Path
begin

text \<open>
  The policy state of the network proxy: its settings (\<open>codex-rs/network-proxy/src/config.rs\<close>), the
  managed constraints on them (\<open>state.rs\<close>) and the shared state with its operations
  (\<open>runtime.rs\<close>). The settings are those without MITM hooks, for which the validation of hooks
  succeeds and nothing is compiled from them. The glob matcher, the URL library's host parser, the DNS
  lookup (\<open>None\<close> when it fails or times out) and the reloader's new states are arguments. A
  constraint error keeps the name of the field and leaves out the texts shown with it.
\<close>

section \<open>Settings\<close>

datatype network_domain_permission = PermNone | PermAllow | PermDeny

fun permission_rank :: "network_domain_permission \<Rightarrow> nat" where
  "permission_rank PermNone = 0"
| "permission_rank PermAllow = 1"
| "permission_rank PermDeny = 2"

instantiation network_domain_permission :: linorder
begin

definition less_eq_network_domain_permission :: "network_domain_permission \<Rightarrow> network_domain_permission \<Rightarrow> bool" where
  "less_eq_network_domain_permission a b \<longleftrightarrow> permission_rank a \<le> permission_rank b"

definition less_network_domain_permission :: "network_domain_permission \<Rightarrow> network_domain_permission \<Rightarrow> bool" where
  "less_network_domain_permission a b \<longleftrightarrow> permission_rank a < permission_rank b"

instance
proof
  show "a = b" if "a \<le> b" "b \<le> a" for a b :: network_domain_permission
    using that by (cases a; cases b) (simp_all add: less_eq_network_domain_permission_def)
qed (auto simp: less_eq_network_domain_permission_def less_network_domain_permission_def)

end

record domain_entry =
  entry_pattern :: ustr
  entry_permission :: network_domain_permission

fun effective_loop ::
  "domain_entry list \<Rightarrow> ustr list \<Rightarrow> (ustr \<rightharpoonup> network_domain_permission) \<Rightarrow>
    ustr list \<times> (ustr \<rightharpoonup> network_domain_permission)" where
  "effective_loop [] order perms = (order, perms)"
| "effective_loop (e # es) order perms =
     (case perms (entry_pattern e) of
        None \<Rightarrow> effective_loop es (order @ [entry_pattern e]) (perms(entry_pattern e \<mapsto> entry_permission e))
      | Some p \<Rightarrow>
          effective_loop es order
            (if p < entry_permission e then perms(entry_pattern e \<mapsto> entry_permission e) else perms))"

definition effective_entries :: "domain_entry list \<Rightarrow> domain_entry list" where
  "effective_entries es =
     (case effective_loop es [] Map.empty of (order, perms) \<Rightarrow>
        List.map_filter (\<lambda>pat. map_option (\<lambda>p. \<lparr>entry_pattern = pat, entry_permission = p\<rparr>) (perms pat)) order)"

datatype network_mode = Limited | Full

definition allows_method :: "network_mode \<Rightarrow> ustr \<Rightarrow> bool" where
  "allows_method mode method \<longleftrightarrow>
     (case mode of Full \<Rightarrow> True | Limited \<Rightarrow> method \<in> {str ''GET'', str ''HEAD'', str ''OPTIONS''})"

fun network_mode_rank :: "network_mode \<Rightarrow> nat" where
  "network_mode_rank Limited = 0"
| "network_mode_rank Full = 1"

text \<open>The Unix sockets are a map from paths to whether they are allowed, in the order of the paths.\<close>

record network_settings =
  np_enabled :: bool
  proxy_url :: ustr
  enable_socks5 :: bool
  socks_url :: ustr
  enable_socks5_udp :: bool
  np_allow_upstream_proxy :: bool
  np_dangerously_allow_non_loopback_proxy :: bool
  np_dangerously_allow_all_unix_sockets :: bool
  np_mode :: network_mode
  domains :: "domain_entry list option"
  unix_sockets :: "(ustr \<times> bool) list option"
  np_allow_local_binding :: bool
  mitm :: bool

definition domain_entries :: "network_domain_permission \<Rightarrow> network_settings \<Rightarrow> ustr list option" where
  "domain_entries permission s =
     (case domains s of
        None \<Rightarrow> None
      | Some es \<Rightarrow>
          let ps = map entry_pattern (filter (\<lambda>e. entry_permission e = permission) (effective_entries es))
          in if ps = [] then None else Some ps)"

definition allowed_domains :: "network_settings \<Rightarrow> ustr list option" where
  "allowed_domains s = domain_entries PermAllow s"

definition denied_domains :: "network_settings \<Rightarrow> ustr list option" where
  "denied_domains s = domain_entries PermDeny s"

definition or_empty :: "'a list option \<Rightarrow> 'a list" where
  "or_empty x = (case x of Some xs \<Rightarrow> xs | None \<Rightarrow> [])"

definition allow_unix_sockets :: "network_settings \<Rightarrow> ustr list" where
  "allow_unix_sockets s = map fst (filter snd (or_empty (unix_sockets s)))"

definition some_nonempty :: "'a list \<Rightarrow> 'a list option" where
  "some_nonempty xs = (if xs = [] then None else Some xs)"

definition upsert_domain_permission ::
  "ustr \<Rightarrow> network_domain_permission \<Rightarrow> (ustr \<Rightarrow> ustr) \<Rightarrow> network_settings \<Rightarrow> network_settings" where
  "upsert_domain_permission h permission norm_host s =
     s\<lparr>domains := some_nonempty
        (filter (\<lambda>e. norm_host (entry_pattern e) \<noteq> norm_host h) (or_empty (domains s))
         @ [\<lparr>entry_pattern = h, entry_permission = permission\<rparr>])\<rparr>"

fun add_domain_entries :: "ustr list \<Rightarrow> network_domain_permission \<Rightarrow> domain_entry list \<Rightarrow> domain_entry list" where
  "add_domain_entries [] permission es = es"
| "add_domain_entries (p # ps) permission es =
     add_domain_entries ps permission
       (if list_ex (\<lambda>e. entry_pattern e = p \<and> entry_permission e = permission) es then es
        else es @ [\<lparr>entry_pattern = p, entry_permission = permission\<rparr>])"

definition set_domain_entries ::
  "ustr list \<Rightarrow> network_domain_permission \<Rightarrow> network_settings \<Rightarrow> network_settings" where
  "set_domain_entries ps permission s =
     s\<lparr>domains := some_nonempty (add_domain_entries ps permission
        (filter (\<lambda>e. entry_permission e \<noteq> permission) (or_empty (domains s))))\<rparr>"

definition set_allowed_domains :: "ustr list \<Rightarrow> network_settings \<Rightarrow> network_settings" where
  "set_allowed_domains ps s = set_domain_entries ps PermAllow s"

definition set_denied_domains :: "ustr list \<Rightarrow> network_settings \<Rightarrow> network_settings" where
  "set_denied_domains ps s = set_domain_entries ps PermDeny s"

section \<open>Bind addresses\<close>

type_synonym socket_addr = "ip_addr \<times> nat"

definition loopback_at :: "nat \<Rightarrow> socket_addr" where
  "loopback_at port = (V4 (ipv4_of 127 0 0 1), port)"

definition clamp_non_loopback :: "socket_addr \<Rightarrow> bool \<Rightarrow> socket_addr" where
  "clamp_non_loopback addr allow_non_loopback =
     (if ip_is_loopback (fst addr) then addr
      else if allow_non_loopback then addr
      else loopback_at (snd addr))"

definition clamp_bind_addrs ::
  "socket_addr \<Rightarrow> socket_addr \<Rightarrow> network_settings \<Rightarrow> socket_addr \<times> socket_addr" where
  "clamp_bind_addrs http_addr socks_addr cfg =
     (let http_addr = clamp_non_loopback http_addr (np_dangerously_allow_non_loopback_proxy cfg);
          socks_addr = clamp_non_loopback socks_addr (np_dangerously_allow_non_loopback_proxy cfg)
      in if allow_unix_sockets cfg = [] \<and> \<not> np_dangerously_allow_all_unix_sockets cfg
         then (http_addr, socks_addr)
         else (loopback_at (snd http_addr), loopback_at (snd socks_addr)))"

text \<open>On Unix a socket path is valid when it is absolute.\<close>

definition validate_unix_socket_allowlist_paths :: "network_settings \<Rightarrow> bool" where
  "validate_unix_socket_allowlist_paths cfg \<longleftrightarrow> list_all is_absolute (allow_unix_sockets cfg)"

section \<open>Managed constraints\<close>

record network_constraints =
  c_enabled :: "bool option"
  c_mode :: "network_mode option"
  c_allow_upstream_proxy :: "bool option"
  c_dangerously_allow_non_loopback_proxy :: "bool option"
  c_dangerously_allow_all_unix_sockets :: "bool option"
  c_allowed_domains :: "ustr list option"
  c_allowlist_expansion_enabled :: "bool option"
  c_denied_domains :: "ustr list option"
  c_denylist_expansion_enabled :: "bool option"
  c_allow_unix_sockets :: "ustr list option"
  c_allow_local_binding :: "bool option"

datatype constraint_error = InvalidValue ustr \<comment> \<open>field name\<close>

text \<open>A chain of checks that stops at the first one that fails.\<close>

definition fail_if :: "bool \<Rightarrow> string \<Rightarrow> constraint_error option" where
  "fail_if b field = (if b then Some (InvalidValue (str field)) else None)"

fun first_error :: "constraint_error option list \<Rightarrow> constraint_error option" where
  "first_error [] = None"
| "first_error (Some e # cs) = Some e"
| "first_error (None # cs) = first_error cs"

definition validate_non_global_wildcard_domain_patterns :: "string \<Rightarrow> ustr list \<Rightarrow> constraint_error option" where
  "validate_non_global_wildcard_domain_patterns field patterns =
     fail_if (list_ex is_global_wildcard_domain_pattern patterns) field"

definition lower_set :: "ustr list \<Rightarrow> ustr set" where
  "lower_set xs = set (map to_ascii_lowercase xs)"

definition check_allowed_domains ::
  "(ustr \<Rightarrow> ustr option) \<Rightarrow> network_settings \<Rightarrow> network_constraints \<Rightarrow> constraint_error option" where
  "check_allowed_domains url_host cfg cons =
     (case c_allowed_domains cons of
        None \<Rightarrow> None
      | Some managed \<Rightarrow>
          first_error
            [validate_non_global_wildcard_domain_patterns ''network.allowed_domains'' managed,
             let candidate = or_empty (allowed_domains cfg);
                 denied_overrides = lower_set (or_empty (denied_domains cfg))
             in case c_allowlist_expansion_enabled cons of
                  Some True \<Rightarrow>
                    fail_if (\<not> lower_set managed \<subseteq> lower_set candidate \<union> denied_overrides) ''network.allowed_domains''
                | Some False \<Rightarrow>
                    fail_if (lower_set candidate \<noteq> lower_set managed - denied_overrides) ''network.allowed_domains''
                | None \<Rightarrow>
                    fail_if (\<not> list_all (\<lambda>entry. list_ex (\<lambda>m.
                        allows (parse_for_constraints url_host m) (parse_for_constraints url_host entry)) managed) candidate)
                      ''network.allowed_domains''])"

definition check_denied_domains :: "network_settings \<Rightarrow> network_constraints \<Rightarrow> constraint_error option" where
  "check_denied_domains cfg cons =
     (case c_denied_domains cons of
        None \<Rightarrow> None
      | Some managed \<Rightarrow>
          first_error
            [validate_non_global_wildcard_domain_patterns ''network.denied_domains'' managed,
             let candidate = lower_set (or_empty (denied_domains cfg)) in
             if c_denylist_expansion_enabled cons = Some False
             then fail_if (candidate \<noteq> lower_set managed) ''network.denied_domains''
             else fail_if (\<not> lower_set managed \<subseteq> candidate) ''network.denied_domains''])"

definition validate_policy_against_constraints ::
  "(ustr \<Rightarrow> ustr option) \<Rightarrow> network_settings \<Rightarrow> network_constraints \<Rightarrow> constraint_error option" where
  "validate_policy_against_constraints url_host cfg cons =
     first_error
       [validate_non_global_wildcard_domain_patterns ''network.denied_domains'' (or_empty (denied_domains cfg)),
        fail_if (np_enabled cfg \<and> c_enabled cons = Some False) ''network.enabled'',
        (case c_mode cons of
           None \<Rightarrow> None
         | Some max_mode \<Rightarrow> fail_if (network_mode_rank max_mode < network_mode_rank (np_mode cfg)) ''network.mode''),
        fail_if (np_allow_upstream_proxy cfg \<and> c_allow_upstream_proxy cons = Some False)
          ''network.allow_upstream_proxy'',
        fail_if (np_dangerously_allow_non_loopback_proxy cfg
            \<and> c_dangerously_allow_non_loopback_proxy cons = Some False)
          ''network.dangerously_allow_non_loopback_proxy'',
        fail_if (np_dangerously_allow_all_unix_sockets cfg
            \<and> \<not> (case c_dangerously_allow_all_unix_sockets cons of
                    Some b \<Rightarrow> b | None \<Rightarrow> c_allow_unix_sockets cons = None))
          ''network.dangerously_allow_all_unix_sockets'',
        fail_if (np_allow_local_binding cfg \<and> c_allow_local_binding cons = Some False)
          ''network.allow_local_binding'',
        check_allowed_domains url_host cfg cons,
        check_denied_domains cfg cons,
        (case c_allow_unix_sockets cons of
           None \<Rightarrow> None
         | Some allowed \<Rightarrow>
             fail_if (\<not> lower_set (allow_unix_sockets cfg) \<subseteq> lower_set allowed) ''network.allow_unix_sockets'')]"

section \<open>The shared state\<close>

definition MAX_BLOCKED_EVENTS :: nat where "MAX_BLOCKED_EVENTS = 200"

definition u64_max :: nat where "u64_max = 2 ^ 64 - 1"

record 'b config_state =
  config :: network_settings
  allow_set :: "ustr list"
  deny_set :: "ustr list"
  constraints :: network_constraints
  blocked :: "'b list"
  blocked_total :: nat

definition build_config_state ::
  "glob_lib \<Rightarrow> network_settings \<Rightarrow> network_constraints \<Rightarrow> 'b config_state option" where
  "build_config_state lib cfg cons =
     (let allowed = or_empty (allowed_domains cfg); denied = or_empty (denied_domains cfg) in
      if \<not> validate_unix_socket_allowlist_paths cfg then None
      else if validate_non_global_wildcard_domain_patterns ''network.denied_domains'' denied \<noteq> None then None
      else (case (compile_denylist_globset lib denied, compile_allowlist_globset lib allowed) of
              (Some deny, Some allow) \<Rightarrow>
                Some \<lparr>config = cfg, allow_set = allow, deny_set = deny, constraints = cons,
                  blocked = [], blocked_total = 0\<rparr>
            | _ \<Rightarrow> None))"

datatype host_block_reason = Denied | NotAllowed | NotAllowedLocal

datatype host_block_decision = HostAllowed | HostBlocked host_block_reason

definition globset_matches_host_or_unscoped :: "glob_lib \<Rightarrow> ustr list \<Rightarrow> ustr \<Rightarrow> bool" where
  "globset_matches_host_or_unscoped lib globs h \<longleftrightarrow>
     globset_is_match lib globs h
     \<or> (case unscoped_ip_literal h of Some ip \<Rightarrow> globset_is_match lib globs ip | None \<Rightarrow> False)"

definition is_explicit_local_allowlisted :: "ustr list \<Rightarrow> ustr \<Rightarrow> bool" where
  "is_explicit_local_allowlisted allowed h \<longleftrightarrow>
     list_ex (\<lambda>raw.
       let pat = trim raw in
       \<not> (pat = str ''*'' \<or> starts_with (str ''*.'') pat \<or> starts_with (str ''**.'') pat)
       \<and> \<not> (contains_char (chr CHR ''*'') pat \<or> contains_char (chr CHR ''?'') pat)
       \<and> (normalize_host pat = h
          \<or> (case unscoped_ip_literal h of Some ip \<Rightarrow> normalize_host pat = ip | None \<Rightarrow> False))) allowed"

definition host_resolves_to_non_public_ip :: "(ustr \<Rightarrow> nat \<Rightarrow> ip_addr list option) \<Rightarrow> ustr \<Rightarrow> nat \<Rightarrow> bool" where
  "host_resolves_to_non_public_ip lookup h port \<longleftrightarrow>
     (case parse_ip_addr h of
        Some ip \<Rightarrow> is_non_public_ip ip
      | None \<Rightarrow> (case lookup h port of Some addrs \<Rightarrow> list_ex is_non_public_ip addrs | None \<Rightarrow> True))"

definition is_local_literal :: "ustr \<Rightarrow> bool" where
  "is_local_literal h \<longleftrightarrow>
     (let no_scope = (case unscoped_ip_literal h of Some ip \<Rightarrow> ip | None \<Rightarrow> h) in
      if is_loopback_host h then True
      else (case parse_ip_addr no_scope of Some ip \<Rightarrow> is_non_public_ip ip | None \<Rightarrow> False))"

text \<open>\<open>host_blocked\<close> on the state it reads after \<open>reload_if_needed\<close>.\<close>

definition host_blocked ::
  "glob_lib \<Rightarrow> (ustr \<Rightarrow> nat \<Rightarrow> ip_addr list option) \<Rightarrow> ustr \<Rightarrow> nat \<Rightarrow> 'b config_state \<Rightarrow> host_block_decision" where
  "host_blocked lib lookup raw port st =
     (case host_parse raw of
        None \<Rightarrow> HostBlocked NotAllowed
      | Some h \<Rightarrow>
          let allowed = allowed_domains (config st) in
          if globset_matches_host_or_unscoped lib (deny_set st) h then HostBlocked Denied
          else let is_allowlisted = globset_matches_host_or_unscoped lib (allow_set st) h in
          if \<not> np_allow_local_binding (config st)
             \<and> (if is_local_literal h then \<not> is_explicit_local_allowlisted (or_empty allowed) h
                else host_resolves_to_non_public_ip lookup h port)
          then HostBlocked NotAllowedLocal
          else if allowed = None \<or> \<not> is_allowlisted then HostBlocked NotAllowed
          else HostAllowed)"

section \<open>Updating the shared state\<close>

definition record_blocked :: "'b \<Rightarrow> 'b config_state \<Rightarrow> 'b config_state" where
  "record_blocked entry st =
     (let events = blocked st @ [entry] in
      st\<lparr>blocked := drop (length events - MAX_BLOCKED_EVENTS) events,
         blocked_total := min u64_max (blocked_total st + 1)\<rparr>)"

definition blocked_snapshot :: "'b config_state \<Rightarrow> 'b list" where
  "blocked_snapshot st = blocked st"

definition drain_blocked :: "'b config_state \<Rightarrow> 'b list \<times> 'b config_state" where
  "drain_blocked st = (blocked st, st\<lparr>blocked := []\<rparr>)"

definition force_reload :: "'b config_state \<Rightarrow> 'b config_state \<Rightarrow> 'b config_state" where
  "force_reload new_state st = new_state\<lparr>blocked := blocked st\<rparr>"

definition replace_config_state :: "'b config_state \<Rightarrow> 'b config_state \<Rightarrow> 'b config_state" where
  "replace_config_state new_state st = new_state\<lparr>blocked := blocked st, blocked_total := blocked_total st\<rparr>"

text \<open>
  The other updates read the state, prepare their result without the lock, and write it under
  the lock later; what they prepared is a pending update. \<open>reload_if_needed\<close> writes in any case, the
  others write only if what they checked still holds, and start again otherwise.
\<close>

datatype 'b pending_update =
    PendingReload "'b config_state"
  | PendingMode network_mode network_constraints \<comment> \<open>mode, constraints it was checked against\<close>
  | PendingDomain "'b config_state" network_settings network_constraints \<comment> \<open>new state, settings and constraints read\<close>

definition prepare_reload :: "'b config_state \<Rightarrow> 'b config_state \<Rightarrow> 'b pending_update" where
  "prepare_reload new_state st =
     PendingReload (new_state\<lparr>blocked := blocked st, blocked_total := blocked_total st\<rparr>)"

definition prepare_mode ::
  "(ustr \<Rightarrow> ustr option) \<Rightarrow> network_mode \<Rightarrow> 'b config_state \<Rightarrow> constraint_error + 'b pending_update" where
  "prepare_mode url_host mode st =
     (case validate_policy_against_constraints url_host ((config st)\<lparr>np_mode := mode\<rparr>) (constraints st) of
        Some e \<Rightarrow> Inl e
      | None \<Rightarrow> Inr (PendingMode mode (constraints st)))"

datatype domain_list_kind = AllowList | DenyList

definition list_permission :: "domain_list_kind \<Rightarrow> network_domain_permission" where
  "list_permission target = (case target of AllowList \<Rightarrow> PermAllow | DenyList \<Rightarrow> PermDeny)"

definition list_entries :: "domain_list_kind \<Rightarrow> network_settings \<Rightarrow> ustr list" where
  "list_entries target s = or_empty (domain_entries (list_permission target) s)"

definition opposite :: "domain_list_kind \<Rightarrow> domain_list_kind" where
  "opposite target = (case target of AllowList \<Rightarrow> DenyList | DenyList \<Rightarrow> AllowList)"

datatype 'b domain_update =
    InvalidHost
  | AlreadyListed
  | Constrained constraint_error
  | CompileFailed
  | Prepared "'b pending_update"

definition prepare_domain ::
  "glob_lib \<Rightarrow> (ustr \<Rightarrow> ustr option) \<Rightarrow> ustr \<Rightarrow> domain_list_kind \<Rightarrow> 'b config_state \<Rightarrow> 'b domain_update" where
  "prepare_domain lib url_host raw target st =
     (case host_parse raw of
        None \<Rightarrow> InvalidHost
      | Some h \<Rightarrow>
          let contains = (\<lambda>kind. list_ex (\<lambda>entry. normalize_host entry = h) (list_entries kind (config st))) in
          if contains target \<and> \<not> contains (opposite target) then AlreadyListed
          else let candidate = upsert_domain_permission h (list_permission target) normalize_host (config st) in
          (case validate_policy_against_constraints url_host candidate (constraints st) of
             Some e \<Rightarrow> Constrained e
           | None \<Rightarrow>
               (case build_config_state lib candidate (constraints st) of
                  None \<Rightarrow> CompileFailed
                | Some new_state \<Rightarrow>
                    Prepared (PendingDomain (new_state\<lparr>blocked := blocked st, blocked_total := blocked_total st\<rparr>)
                      (config st) (constraints st)))))"

fun commit :: "'b pending_update \<Rightarrow> 'b config_state \<Rightarrow> 'b config_state option" where
  "commit (PendingReload new_state) st = Some new_state"
| "commit (PendingMode mode cons) st =
     (if constraints st \<noteq> cons then None else Some (st\<lparr>config := (config st)\<lparr>np_mode := mode\<rparr>\<rparr>))"
| "commit (PendingDomain new_state previous_cfg cons) st =
     (if constraints st \<noteq> cons \<or> config st \<noteq> previous_cfg then None else Some new_state)"

section \<open>The policy holds in every interleaving\<close>

text \<open>
  The steps of the system: the shared state with the updates that were prepared and not yet
  written. States that come from outside (a reload, a replacement) are checked states.
\<close>

definition state_ok :: "glob_lib \<Rightarrow> (ustr \<Rightarrow> ustr option) \<Rightarrow> 'b config_state \<Rightarrow> bool" where
  "state_ok lib url_host st \<longleftrightarrow>
     validate_policy_against_constraints url_host (config st) (constraints st) = None
     \<and> compile_denylist_globset lib (or_empty (denied_domains (config st))) = Some (deny_set st)
     \<and> compile_allowlist_globset lib (or_empty (allowed_domains (config st))) = Some (allow_set st)
     \<and> length (blocked st) \<le> MAX_BLOCKED_EVENTS"

inductive proxy_step ::
  "glob_lib \<Rightarrow> (ustr \<Rightarrow> ustr option) \<Rightarrow> 'b config_state \<times> 'b pending_update list
    \<Rightarrow> 'b config_state \<times> 'b pending_update list \<Rightarrow> bool" for lib url_host where
  step_record: "proxy_step lib url_host (st, ps) (record_blocked e st, ps)"
| step_drain: "proxy_step lib url_host (st, ps) (snd (drain_blocked st), ps)"
| step_force_reload: "state_ok lib url_host new \<Longrightarrow> proxy_step lib url_host (st, ps) (force_reload new st, ps)"
| step_replace: "state_ok lib url_host new \<Longrightarrow> proxy_step lib url_host (st, ps) (replace_config_state new st, ps)"
| step_prepare_reload: "state_ok lib url_host new \<Longrightarrow>
    proxy_step lib url_host (st, ps) (st, prepare_reload new st # ps)"
| step_prepare_mode: "prepare_mode url_host mode st = Inr p \<Longrightarrow> proxy_step lib url_host (st, ps) (st, p # ps)"
| step_prepare_domain: "prepare_domain lib url_host raw target st = Prepared p \<Longrightarrow>
    proxy_step lib url_host (st, ps) (st, p # ps)"
| step_commit: "commit p st = Some st' \<Longrightarrow> proxy_step lib url_host (st, ps @ p # qs) (st', ps @ qs)"
| step_retry: "commit p st = None \<Longrightarrow> proxy_step lib url_host (st, ps @ p # qs) (st, ps @ qs)"

inductive_cases proxy_stepE: "proxy_step lib url_host s s'"

definition mode_ok :: "network_mode \<Rightarrow> network_constraints \<Rightarrow> bool" where
  "mode_ok mode cons \<longleftrightarrow>
     (case c_mode cons of None \<Rightarrow> True | Some max_mode \<Rightarrow> network_mode_rank mode \<le> network_mode_rank max_mode)"

fun pending_ok :: "glob_lib \<Rightarrow> (ustr \<Rightarrow> ustr option) \<Rightarrow> 'b pending_update \<Rightarrow> bool" where
  "pending_ok lib url_host (PendingReload new) \<longleftrightarrow> state_ok lib url_host new"
| "pending_ok lib url_host (PendingMode mode cons) \<longleftrightarrow> mode_ok mode cons"
| "pending_ok lib url_host (PendingDomain new _ _) \<longleftrightarrow> state_ok lib url_host new"

lemma first_error_None_iff: "first_error cs = None \<longleftrightarrow> list_all (\<lambda>c. c = None) cs"
  by (induction cs rule: first_error.induct) auto

lemma fail_if_None [simp]: "fail_if b f = None \<longleftrightarrow> \<not> b"
  by (simp add: fail_if_def)

lemma domains_mode [simp]:
  "domain_entries p (s\<lparr>np_mode := m\<rparr>) = domain_entries p s"
  "allow_unix_sockets (s\<lparr>np_mode := m\<rparr>) = allow_unix_sockets s"
  "allowed_domains (s\<lparr>np_mode := m\<rparr>) = allowed_domains s"
  "denied_domains (s\<lparr>np_mode := m\<rparr>) = denied_domains s"
  by (simp_all add: domain_entries_def allow_unix_sockets_def allowed_domains_def denied_domains_def)

lemma check_domains_mode [simp]:
  "check_allowed_domains url_host (s\<lparr>np_mode := m\<rparr>) cons = check_allowed_domains url_host s cons"
  "check_denied_domains (s\<lparr>np_mode := m\<rparr>) cons = check_denied_domains s cons"
  by (simp_all add: check_allowed_domains_def check_denied_domains_def cong: option.case_cong)

text \<open>The mode is constrained on its own: a mode that fits the constraints can be set in every valid configuration.\<close>

lemma validate_mode:
  "validate_policy_against_constraints url_host (s\<lparr>np_mode := m\<rparr>) cons = None \<longleftrightarrow>
   validate_policy_against_constraints url_host (s\<lparr>np_mode := Limited\<rparr>) cons = None \<and> mode_ok m cons"
  by (auto simp: validate_policy_against_constraints_def first_error_None_iff mode_ok_def not_less
      split: option.splits)

lemma validate_mode_iff:
  "validate_policy_against_constraints url_host s cons = None \<Longrightarrow>
   validate_policy_against_constraints url_host (s\<lparr>np_mode := m\<rparr>) cons = None \<longleftrightarrow> mode_ok m cons"
  using validate_mode [where m = "np_mode s" and s = s] validate_mode [where m = m and s = s] by simp

lemma state_ok_cong:
  "config a = config b \<Longrightarrow> constraints a = constraints b \<Longrightarrow> allow_set a = allow_set b \<Longrightarrow> deny_set a = deny_set b \<Longrightarrow>
   state_ok lib url_host a \<Longrightarrow> length (blocked b) \<le> MAX_BLOCKED_EVENTS \<Longrightarrow> state_ok lib url_host b"
  by (simp add: state_ok_def)

lemma commit_ok:
  assumes "state_ok lib url_host st" "pending_ok lib url_host p" "commit p st = Some st'"
  shows "state_ok lib url_host st'"
proof (cases p)
  case (PendingMode mode cons)
  with assms show ?thesis
    by (auto simp: state_ok_def validate_mode_iff split: if_splits)
qed (use assms in \<open>auto split: if_splits\<close>)

lemma build_config_state_ok:
  assumes "validate_policy_against_constraints url_host cfg cons = None" "build_config_state lib cfg cons = Some new"
    and "length bs \<le> MAX_BLOCKED_EVENTS"
  shows "state_ok lib url_host (new\<lparr>blocked := bs, blocked_total := n\<rparr>)"
  using assms
  by (auto simp: build_config_state_def state_ok_def Let_def split: if_splits option.splits)

lemma prepare_ok:
  assumes "state_ok lib url_host st"
  shows "prepare_mode url_host mode st = Inr p \<Longrightarrow> pending_ok lib url_host p"
    and "prepare_domain lib url_host raw target st = Prepared p \<Longrightarrow> pending_ok lib url_host p"
    and "state_ok lib url_host new \<Longrightarrow> pending_ok lib url_host (prepare_reload new st)"
proof -
  show "prepare_mode url_host mode st = Inr p \<Longrightarrow> pending_ok lib url_host p"
    using assms by (auto simp: prepare_mode_def state_ok_def validate_mode_iff split: option.splits)
  show "prepare_domain lib url_host raw target st = Prepared p \<Longrightarrow> pending_ok lib url_host p"
    using assms by (auto simp: prepare_domain_def Let_def state_ok_def [of lib url_host st] intro!: build_config_state_ok
        split: option.splits if_splits)
  show "state_ok lib url_host new \<Longrightarrow> pending_ok lib url_host (prepare_reload new st)"
    using assms by (simp add: prepare_reload_def state_ok_def)
qed

definition system_ok ::
  "glob_lib \<Rightarrow> (ustr \<Rightarrow> ustr option) \<Rightarrow> 'b config_state \<times> 'b pending_update list \<Rightarrow> bool" where
  "system_ok lib url_host s \<longleftrightarrow> state_ok lib url_host (fst s) \<and> list_all (pending_ok lib url_host) (snd s)"

lemma proxy_step_ok: "proxy_step lib url_host s s' \<Longrightarrow> system_ok lib url_host s \<Longrightarrow> system_ok lib url_host s'"
proof (induction rule: proxy_step.induct)
  case (step_record st ps e)
  then show ?case by (simp add: system_ok_def state_ok_def record_blocked_def Let_def)
next
  case (step_commit p st st' ps qs)
  then show ?case using commit_ok by (auto simp: system_ok_def)
qed (auto simp: system_ok_def prepare_ok drain_blocked_def force_reload_def replace_config_state_def state_ok_def)

lemma proxy_steps_ok:
  "(proxy_step lib url_host)\<^sup>*\<^sup>* s s' \<Longrightarrow> system_ok lib url_host s \<Longrightarrow> system_ok lib url_host s'"
  by (induction rule: rtranclp_induct) (auto intro: proxy_step_ok)

definition pattern_matches :: "glob_lib \<Rightarrow> ustr \<Rightarrow> ustr \<Rightarrow> bool" where
  "pattern_matches lib pat h \<longleftrightarrow>
     list_ex (\<lambda>g. glob_match lib g h) (expand_domain_pattern (normalize_pattern pat))"

lemma compiled_set_matches:
  "compile_globset_loop lib reject pats [] = Some globs \<Longrightarrow>
   globset_is_match lib globs h \<longleftrightarrow> list_ex (\<lambda>p. pattern_matches lib p h) pats"
  unfolding globset_is_match_def pattern_matches_def list_ex_iff
  by (drule compile_globset_set) (simp only: set_simps Un_empty_left UN_iff bex_UN)

lemma deny_set_matches:
  "state_ok lib url_host st \<Longrightarrow>
   globset_is_match lib (deny_set st) h \<longleftrightarrow> list_ex (\<lambda>p. pattern_matches lib p h) (or_empty (denied_domains (config st)))"
  by (rule compiled_set_matches) (auto simp: state_ok_def compile_denylist_globset_def)

lemma allow_set_matches:
  "state_ok lib url_host st \<Longrightarrow>
   globset_is_match lib (allow_set st) h \<longleftrightarrow> list_ex (\<lambda>p. pattern_matches lib p h) (or_empty (allowed_domains (config st)))"
  by (rule compiled_set_matches) (auto simp: state_ok_def compile_allowlist_globset_def)

lemma managed_denied_in_config:
  assumes "state_ok lib url_host st" "c_denied_domains (constraints st) = Some managed" "m \<in> set managed"
  shows "\<exists>p \<in> set (or_empty (denied_domains (config st))). normalize_pattern p = normalize_pattern m"
proof -
  have "check_denied_domains (config st) (constraints st) = None"
    using assms(1) by (simp add: state_ok_def validate_policy_against_constraints_def first_error_None_iff)
  with assms(2) have "lower_set managed \<subseteq> lower_set (or_empty (denied_domains (config st)))"
    by (auto simp: check_denied_domains_def first_error_None_iff Let_def split: if_splits)
  with assms(3) obtain p where "p \<in> set (or_empty (denied_domains (config st)))"
    "to_ascii_lowercase m = to_ascii_lowercase p"
    by (auto simp: lower_set_def)
  with normalize_pattern_cong [OF this(2)] show ?thesis by auto
qed

lemma managed_host_denied:
  assumes ok: "state_ok lib url_host st"
    and "c_denied_domains (constraints st) = Some managed" "m \<in> set managed"
    and "host_parse raw = Some h" "pattern_matches lib m h"
  shows "host_blocked lib lookup raw port st = HostBlocked Denied"
proof -
  from managed_denied_in_config [OF ok assms(2,3)] assms(5)
  have "list_ex (\<lambda>p. pattern_matches lib p h) (or_empty (denied_domains (config st)))"
    by (simp add: list_ex_iff pattern_matches_def) metis
  then have "globset_matches_host_or_unscoped lib (deny_set st) h"
    using deny_set_matches [OF ok] by (simp add: globset_matches_host_or_unscoped_def)
  with assms(4) show ?thesis by (simp add: host_blocked_def Let_def)
qed

text \<open>
  A host that the administrator denies stays denied. Start from a state that respects its
  constraints and let any sequence of requests, reloads, mode changes and changes of the domain
  lists happen, with the reads and writes of concurrent updates interleaved in any way. Then a host
  that matches a denied pattern of the managed constraints is refused, whatever the user's lists
  have become, and the state still respects its constraints.
\<close>

theorem managed_denial_enforced:
  assumes "(proxy_step lib url_host)\<^sup>*\<^sup>* (st0, []) (st, ps)" "state_ok lib url_host st0"
    and "c_denied_domains (constraints st) = Some managed" "m \<in> set managed"
    and "host_parse raw = Some h" "pattern_matches lib m h"
  shows "host_blocked lib lookup raw port st = HostBlocked Denied
    \<and> validate_policy_against_constraints url_host (config st) (constraints st) = None"
proof -
  have ok: "state_ok lib url_host st"
    using proxy_steps_ok [OF assms(1)] assms(2) by (simp add: system_ok_def)
  with managed_host_denied [OF ok assms(3-6)] show ?thesis by (simp add: state_ok_def)
qed

text \<open>
  What a host that is let through has passed. It matches no denied pattern and some allowed
  one; and unless local addresses are permitted, it is either no local address and resolves
  only to public addresses, or it is a local address that the allowed patterns name explicitly.
\<close>

theorem allowed_host_checked:
  assumes "state_ok lib url_host st" "host_blocked lib lookup raw port st = HostAllowed"
  shows "\<exists>h. host_parse raw = Some h
    \<and> \<not> list_ex (\<lambda>p. pattern_matches lib p h) (or_empty (denied_domains (config st)))
    \<and> list_ex (\<lambda>p. pattern_matches lib p h
          \<or> (case unscoped_ip_literal h of Some ip \<Rightarrow> pattern_matches lib p ip | None \<Rightarrow> False))
        (or_empty (allowed_domains (config st)))
    \<and> (np_allow_local_binding (config st)
       \<or> (if is_local_literal h then is_explicit_local_allowlisted (or_empty (allowed_domains (config st))) h
          else case parse_ip_addr h of
                 Some ip \<Rightarrow> \<not> is_non_public_ip ip
               | None \<Rightarrow> (case lookup h port of Some addrs \<Rightarrow> list_all (\<lambda>ip. \<not> is_non_public_ip ip) addrs | None \<Rightarrow> False)))"
proof -
  obtain h where h: "host_parse raw = Some h"
    using assms(2) by (auto simp: host_blocked_def split: option.splits)
  have deny: "\<not> globset_matches_host_or_unscoped lib (deny_set st) h"
    and allow: "globset_matches_host_or_unscoped lib (allow_set st) h"
    and loc: "np_allow_local_binding (config st)
      \<or> (if is_local_literal h then is_explicit_local_allowlisted (or_empty (allowed_domains (config st))) h
         else \<not> host_resolves_to_non_public_ip lookup h port)"
    using assms(2) h by (auto simp: host_blocked_def Let_def split: if_splits)
  have "\<not> list_ex (\<lambda>p. pattern_matches lib p h) (or_empty (denied_domains (config st)))"
    using deny deny_set_matches [OF assms(1)] by (simp add: globset_matches_host_or_unscoped_def)
  moreover have "list_ex (\<lambda>p. pattern_matches lib p h
        \<or> (case unscoped_ip_literal h of Some ip \<Rightarrow> pattern_matches lib p ip | None \<Rightarrow> False))
      (or_empty (allowed_domains (config st)))"
    using allow allow_set_matches [OF assms(1)]
    by (auto simp: globset_matches_host_or_unscoped_def list_ex_iff split: option.splits)
  ultimately show ?thesis
    using h loc by (auto simp: host_resolves_to_non_public_ip_def list_ex_iff list_all_iff split: option.splits if_splits)
qed

text \<open>An update whose reads are not overtaken is written: the retry loops do not spin without interference.\<close>

lemma undisturbed_update_commits:
  "prepare_mode url_host mode st = Inr p \<Longrightarrow> commit p st \<noteq> None"
  "prepare_domain lib url_host raw target st = Prepared p \<Longrightarrow> commit p st \<noteq> None"
  by (auto simp: prepare_mode_def prepare_domain_def Let_def split: option.splits if_splits)

section \<open>The strongest permission wins\<close>

definition permissions_for :: "domain_entry list \<Rightarrow> ustr \<Rightarrow> network_domain_permission set" where
  "permissions_for es pat = entry_permission ` set (filter (\<lambda>e. entry_pattern e = pat) es)"

definition strongest :: "network_domain_permission set \<Rightarrow> network_domain_permission option" where
  "strongest S = (if S = {} then None else Some (Max S))"

lemma permissions_for_simps [simp]:
  "permissions_for [] pat = {}"
  "permissions_for (e # es) pat =
     (if entry_pattern e = pat then insert (entry_permission e) (permissions_for es pat) else permissions_for es pat)"
  by (simp_all add: permissions_for_def)

lemma finite_permissions_for [simp]: "finite (permissions_for es pat)"
  by (simp add: permissions_for_def)

lemma strongest_insert2:
  "finite S \<Longrightarrow> strongest (insert p (insert q S)) = strongest (insert (if p < q then q else p) S)"
  by (cases "S = {}") (auto simp: strongest_def max_def)

lemma effective_loop_strongest:
  "effective_loop es order perms = (order', perms') \<Longrightarrow>
   perms' pat = strongest (set_option (perms pat) \<union> permissions_for es pat)"
proof (induction es order perms rule: effective_loop.induct)
  case (1 order perms)
  then show ?case by (cases "perms pat") (auto simp: strongest_def)
next
  case (2 e es order perms)
  show ?case
  proof (cases "perms (entry_pattern e)")
    case None
    with "2.prems" have "effective_loop es (order @ [entry_pattern e]) (perms(entry_pattern e \<mapsto> entry_permission e))
      = (order', perms')" by simp
    from "2.IH"(1) [OF None this] None show ?thesis by auto
  next
    case (Some p)
    with "2.prems" have "effective_loop es order
        (if p < entry_permission e then perms(entry_pattern e \<mapsto> entry_permission e) else perms) = (order', perms')"
      by simp
    from "2.IH"(2) [OF Some this] Some show ?thesis by (auto simp: strongest_insert2)
  qed
qed

lemma effective_loop_order:
  "effective_loop es order perms = (order', perms') \<Longrightarrow> set order = dom perms \<Longrightarrow> set order' = dom perms'"
  by (induction es order perms rule: effective_loop.induct) (auto split: option.splits if_splits)

lemma effective_entries_iff:
  "e \<in> set (effective_entries es) \<longleftrightarrow> strongest (permissions_for es (entry_pattern e)) = Some (entry_permission e)"
proof -
  obtain order perms where loop: "effective_loop es [] Map.empty = (order, perms)" by fastforce
  have "e \<in> set (effective_entries es) \<longleftrightarrow> perms (entry_pattern e) = Some (entry_permission e)"
    using effective_loop_order [OF loop] by (cases e) (auto simp: effective_entries_def loop set_map_filter)
  with effective_loop_strongest [OF loop] show ?thesis by simp
qed

lemma domain_entries_iff:
  "pat \<in> set (or_empty (domain_entries p s)) \<longleftrightarrow>
   strongest (permissions_for (or_empty (domains s)) pat) = Some p"
proof -
  have "pat \<in> set (or_empty (domain_entries p s)) \<longleftrightarrow>
      \<lparr>entry_pattern = pat, entry_permission = p\<rparr> \<in> set (effective_entries (or_empty (domains s)))"
  proof (cases "domains s")
    case None
    then show ?thesis by (simp add: domain_entries_def or_empty_def effective_entries_def List.map_filter_simps)
  next
    case (Some es)
    have "pat \<in> set (map entry_pattern (filter (\<lambda>e. entry_permission e = p) xs)) \<longleftrightarrow>
        \<lparr>entry_pattern = pat, entry_permission = p\<rparr> \<in> set xs" for xs
      by (induction xs) (auto intro: domain_entry.equality, metis domain_entry.select_convs(1))
    moreover have "or_empty (domain_entries p s) =
        map entry_pattern (filter (\<lambda>e. entry_permission e = p) (effective_entries es))"
      using Some by (simp add: domain_entries_def or_empty_def Let_def)
    ultimately show ?thesis using Some by (simp only: or_empty_def option.case)
  qed
  then show ?thesis by (simp add: effective_entries_iff)
qed

text \<open>A pattern that has a denying entry is denied, whatever other entries it has.\<close>

lemma deny_wins:
  "pat \<in> set (or_empty (denied_domains s)) \<longleftrightarrow> PermDeny \<in> permissions_for (or_empty (domains s)) pat"
proof -
  have "p \<le> PermDeny" for p by (cases p) (simp_all add: less_eq_network_domain_permission_def)
  then show ?thesis
    by (auto simp: denied_domains_def domain_entries_iff strongest_def intro: Max_eqI dest: Max_in [rotated])
      (metis Max_in empty_iff finite_permissions_for)+
qed

section \<open>Events that concurrent updates lose\<close>

text \<open>
  A change of a domain list carries the recorded events it read at its start. An event that is
  recorded while the change is prepared is overwritten: the check before the write
  compares the settings and the constraints only. The same holds for a reload. A forced reload keeps the events
  and forgets their number.
\<close>

lemma update_loses_events:
  assumes "prepare_domain lib url_host raw target st = Prepared p" "commit p (record_blocked e st) = Some st'"
  shows "blocked st' = blocked st \<and> blocked_total st' = blocked_total st"
  using assms by (auto simp: prepare_domain_def Let_def split: option.splits if_splits)

lemma reload_loses_events:
  "commit (prepare_reload new st) (record_blocked e st) = Some st' \<Longrightarrow>
   blocked st' = blocked st \<and> blocked_total st' = blocked_total st"
  by (auto simp: prepare_reload_def)

lemma force_reload_total: "blocked_total (force_reload new st) = blocked_total new"
  by (simp add: force_reload_def)

section \<open>Examples\<close>

definition example_globs :: glob_lib where
  "example_globs = \<lparr>valid_glob = (\<lambda>_. True),
     glob_match = (\<lambda>g h. case strip_prefix (str ''?*'') g of
        Some suffix \<Rightarrow> h \<noteq> suffix \<and> ends_with suffix h | None \<Rightarrow> g = h)\<rparr>"

definition example_settings :: network_settings where
  "example_settings = \<lparr>np_enabled = True, proxy_url = [], enable_socks5 = True, socks_url = [], enable_socks5_udp = True,
     np_allow_upstream_proxy = True, np_dangerously_allow_non_loopback_proxy = False,
     np_dangerously_allow_all_unix_sockets = False, np_mode = Full,
     domains = Some [\<lparr>entry_pattern = str ''Evil.com'', entry_permission = PermDeny\<rparr>,
                     \<lparr>entry_pattern = str ''*.a.com'', entry_permission = PermAllow\<rparr>],
     unix_sockets = None, np_allow_local_binding = False, mitm = False\<rparr>"

definition example_constraints :: network_constraints where
  "example_constraints = \<lparr>c_enabled = None, c_mode = None, c_allow_upstream_proxy = None,
     c_dangerously_allow_non_loopback_proxy = None, c_dangerously_allow_all_unix_sockets = None,
     c_allowed_domains = None, c_allowlist_expansion_enabled = None, c_denied_domains = Some [str ''evil.COM''],
     c_denylist_expansion_enabled = None, c_allow_unix_sockets = None, c_allow_local_binding = None\<rparr>"

definition example_state :: "unit config_state" where
  "example_state = \<lparr>config = example_settings, allow_set = [str ''?*.a.com''], deny_set = [str ''evil.com''],
     constraints = example_constraints, blocked = [], blocked_total = 0\<rparr>"

lemma example_state_ok: "state_ok example_globs Some example_state"
  by code_simp

definition example_update :: "unit config_state option" where
  "example_update =
     (case prepare_domain example_globs Some (str ''b.com'') AllowList example_state of
        Prepared p \<Rightarrow> commit p (record_blocked () example_state) | _ \<Rightarrow> None)"

theorem managed_denial_enforced_witness:
  "\<exists>st. example_update = Some st
    \<and> host_blocked example_globs (\<lambda>_ _. Some []) (str ''EVIL.com:443'') 443 st = HostBlocked Denied"
proof -
  have "case prepare_domain example_globs Some (str ''b.com'') AllowList example_state of
      Prepared p \<Rightarrow> commit p (record_blocked () example_state) \<noteq> None | _ \<Rightarrow> False" by code_simp
  then obtain p st where p: "prepare_domain example_globs Some (str ''b.com'') AllowList example_state = Prepared p"
    and st: "commit p (record_blocked () example_state) = Some st"
    by (auto split: domain_update.splits)
  have "(proxy_step example_globs Some)\<^sup>*\<^sup>* (example_state, []) (st, [])"
    using step_prepare_domain [OF p, of "[]"] step_record [of example_globs Some example_state "[p]" "()"]
      step_commit [OF st, of example_globs Some "[]" "[]"]
    by (auto intro: converse_rtranclp_into_rtranclp)
  moreover have "c_denied_domains (constraints st) = Some [str ''evil.COM'']"
    using p st by (auto simp: prepare_domain_def Let_def record_blocked_def build_config_state_def example_state_def
        example_constraints_def split: option.splits if_splits)
  moreover have "host_parse (str ''EVIL.com:443'') = Some (str ''evil.com'')"
    "pattern_matches example_globs (str ''evil.COM'') (str ''evil.com'')" by code_simp+
  ultimately show ?thesis
    using managed_denial_enforced [of example_globs Some example_state st "[]" "[str ''evil.COM'']" "str ''evil.COM''"]
      example_state_ok p st by (auto simp: example_update_def)
qed

theorem allowed_host_checked_witness:
  "host_blocked example_globs (\<lambda>_ _. Some [V4 (ipv4_of 8 8 8 8)]) (str ''x.A.com'') 443 example_state = HostAllowed
    \<and> (\<exists>h. host_parse (str ''x.A.com'') = Some h
        \<and> \<not> list_ex (\<lambda>p. pattern_matches example_globs p h) (or_empty (denied_domains (config example_state))))"
proof -
  have "host_blocked example_globs (\<lambda>_ _. Some [V4 (ipv4_of 8 8 8 8)]) (str ''x.A.com'') 443 example_state = HostAllowed"
    by code_simp
  with allowed_host_checked [OF example_state_ok this] show ?thesis by blast
qed

end
