(* ===== verification/Config_Merge.thy ===== *)
theory Config_Merge
  imports Config_Layers Network_Hosts
begin

text \<open>
  How the configuration layers become one configuration: the renaming of legacy keys
  (\<open>codex-rs/config/src/key_aliases.rs\<close>), the merge of TOML values (\<open>merge.rs\<close>), the
  effective configuration of a stack (\<open>state.rs\<close>) and the origins of its values
  (\<open>fingerprint.rs\<close>). The crate keeps the keys of a table in the order of their insertion, so an
  insertion is \<open>AList.update\<close> and a removal \<open>AList.delete\<close>. The lookups \<open>toml_at\<close>, \<open>leaf_at\<close> and
  \<open>touches\<close> belong to the specification.
\<close>

section \<open>Legacy keys\<close>

record config_key_alias =
  table_path :: "ustr list"
  legacy_key :: ustr
  canonical_key :: ustr

definition memories_alias :: config_key_alias where
  "memories_alias =
     \<lparr>table_path = [str ''memories''], legacy_key = str ''no_memories_if_mcp_or_web_search'',
      canonical_key = str ''disable_on_external_context''\<rparr>"

definition CONFIG_KEY_ALIASES :: "config_key_alias list" where
  "CONFIG_KEY_ALIASES = [memories_alias]"

definition normalize_alias :: "ustr list \<Rightarrow> config_key_alias \<Rightarrow> toml_table \<Rightarrow> toml_table" where
  "normalize_alias path a table =
     (if path = table_path a then
        (case map_of table (legacy_key a) of
           None \<Rightarrow> table
         | Some v \<Rightarrow>
             let table = AList.delete (legacy_key a) table in
             if map_of table (canonical_key a) = None then AList.update (canonical_key a) v table else table)
      else table)"

definition normalize_key_aliases :: "ustr list \<Rightarrow> toml_table \<Rightarrow> toml_table" where
  "normalize_key_aliases path table = fold (normalize_alias path) CONFIG_KEY_ALIASES table"

definition table_of :: "(ustr \<times> toml_value) list \<Rightarrow> toml_table" where
  "table_of kvs = foldl (\<lambda>t (k, v). AList.update k v t) [] kvs"

lemma table_child_size [termination_simp]: "(k, v) \<in> set t \<Longrightarrow> size v < Suc (size_list (size_prod f size) t)"
  by (induction t) auto

fun normalized_with_key_aliases :: "toml_value \<Rightarrow> ustr list \<Rightarrow> toml_value" where
  "normalized_with_key_aliases (TomlTable t) path =
     TomlTable (normalize_key_aliases path
       (table_of (map (\<lambda>(k, child). (k, normalized_with_key_aliases child (path @ [k]))) t)))"
| "normalized_with_key_aliases (TomlArray items) path =
     TomlArray (map (\<lambda>item. normalized_with_key_aliases item path) items)"
| "normalized_with_key_aliases v path = v"

section \<open>Merging\<close>

definition is_permission_network_domains_path :: "ustr list \<Rightarrow> bool" where
  "is_permission_network_domains_path path \<longleftrightarrow>
     (case path of
        [permissions, _, network, domains] \<Rightarrow>
          permissions = str ''permissions'' \<and> network = str ''network'' \<and> domains = str ''domains''
      | _ \<Rightarrow> False)"

definition normalize_network_domain_keys :: "toml_table \<Rightarrow> toml_table" where
  "normalize_network_domain_keys table = table_of (map (\<lambda>(pat, v). (normalize_host pat, v)) table)"

definition prepare_table :: "ustr list \<Rightarrow> toml_table \<Rightarrow> toml_table" where
  "prepare_table path table =
     (let table = normalize_key_aliases path table in
      if is_permission_network_domains_path path then normalize_network_domain_keys table else table)"

text \<open>The weight of a value bounds the work of the merge; preparing a table does not raise it.\<close>

fun weight :: "toml_value \<Rightarrow> nat" where
  "weight (TomlTable t) = Suc (sum_list (map (\<lambda>(k, v). Suc (weight v)) t))"
| "weight (TomlArray items) = 1"
| "weight _ = 1"

abbreviation weight_table :: "toml_table \<Rightarrow> nat" where
  "weight_table t \<equiv> sum_list (map (\<lambda>(k, v). Suc (weight v)) t)"

lemma weight_delete: "weight_table (AList.delete k t) + (case map_of t k of Some v \<Rightarrow> Suc (weight v) | None \<Rightarrow> 0) \<le> weight_table t"
  by (induction t) (auto split: option.splits)

lemma weight_update: "weight_table (AList.update k v t) \<le> Suc (weight v) + weight_table t"
  by (induction t) auto

lemma weight_table_of: "weight_table (table_of kvs) \<le> weight_table kvs"
proof -
  have "weight_table (foldl (\<lambda>t (k, v). AList.update k v t) t0 kvs) \<le> weight_table t0 + weight_table kvs" for t0
  proof (induction kvs arbitrary: t0)
    case (Cons kv kvs)
    obtain k v where "kv = (k, v)" by fastforce
    with Cons [of "AList.update k v t0"] weight_update [of k v t0] show ?case by simp
  qed simp
  from this [of "[]"] show ?thesis by (simp add: table_of_def)
qed

lemma weight_normalize_alias: "weight_table (normalize_alias path a t) \<le> weight_table t"
proof (cases "path = table_path a \<and> map_of t (legacy_key a) \<noteq> None")
  case True
  then obtain v where "path = table_path a" "map_of t (legacy_key a) = Some v" by blast
  with weight_delete [of "legacy_key a" t] weight_update [of "canonical_key a" v "AList.delete (legacy_key a) t"]
  show ?thesis by (auto simp: normalize_alias_def Let_def)
qed (auto simp: normalize_alias_def split: option.splits)

lemma weight_prepare_table: "weight_table (prepare_table path t) \<le> weight_table t"
proof -
  have "weight_table (normalize_key_aliases path t) \<le> weight_table t"
    by (simp add: normalize_key_aliases_def CONFIG_KEY_ALIASES_def weight_normalize_alias)
  moreover have "weight_table (map (\<lambda>(pat, v). (normalize_host pat, v)) u) = weight_table u" for u
    by (induction u) auto
  ultimately show ?thesis
    using weight_table_of [of "map (\<lambda>(pat, v). (normalize_host pat, v)) (normalize_key_aliases path t)"]
    by (simp add: prepare_table_def normalize_network_domain_keys_def Let_def)
qed

function merge_toml_values_at_path :: "toml_value \<Rightarrow> toml_value \<Rightarrow> ustr list \<Rightarrow> toml_value"
  and merge_entries :: "toml_table \<Rightarrow> toml_table \<Rightarrow> ustr list \<Rightarrow> toml_table" where
  "merge_toml_values_at_path base overlay path =
     (case (base, overlay) of
        (TomlTable base_table, TomlTable overlay_table) \<Rightarrow>
          TomlTable (merge_entries (prepare_table path base_table) (prepare_table path overlay_table) path)
      | _ \<Rightarrow> normalized_with_key_aliases overlay path)"
| "merge_entries base_table [] path = base_table"
| "merge_entries base_table ((key, v) # entries) path =
     merge_entries
       (case map_of base_table key of
          Some existing \<Rightarrow> AList.update key (merge_toml_values_at_path existing v (path @ [key])) base_table
        | None \<Rightarrow> AList.update key (normalized_with_key_aliases v (path @ [key])) base_table)
       entries path"
  by pat_completeness auto
termination
proof (relation "measure (\<lambda>x. case x of Inl (_, overlay, _) \<Rightarrow> weight overlay | Inr (_, entries, _) \<Rightarrow> weight_table entries)")
qed (auto simp: weight_prepare_table le_imp_less_Suc)

declare merge_toml_values_at_path.simps [simp del]

definition merge_toml_values :: "toml_value \<Rightarrow> toml_value \<Rightarrow> toml_value" where
  "merge_toml_values base overlay = merge_toml_values_at_path base overlay []"

definition effective_config :: "'r config_layer_stack \<Rightarrow> toml_value" where
  "effective_config stack =
     foldl merge_toml_values (TomlTable []) (map layer_config (get_layers LowestPrecedenceFirst False stack))"

definition effective_user_config :: "'r config_layer_stack \<Rightarrow> toml_value option" where
  "effective_user_config stack =
     (let user_layers = get_user_layers LowestPrecedenceFirst False stack in
      if user_layers = [] then None
      else Some (foldl merge_toml_values (TomlTable []) (map layer_config user_layers)))"

section \<open>Origins\<close>

record config_layer_metadata =
  meta_name :: config_layer_source
  meta_version :: ustr

definition layer_metadata :: "config_layer_entry \<Rightarrow> config_layer_metadata" where
  "layer_metadata layer = \<lparr>meta_name = layer_name layer, meta_version = layer_version layer\<rparr>"

lemma array_item_size [termination_simp]: "(i, v) \<in> set (enumerate n items) \<Longrightarrow> size v < Suc (size_list size items)"
  by (induction items arbitrary: n) fastforce+

fun record_origins ::
  "toml_value \<Rightarrow> config_layer_metadata \<Rightarrow> ustr list \<Rightarrow> (ustr \<rightharpoonup> config_layer_metadata) \<Rightarrow> (ustr \<rightharpoonup> config_layer_metadata)"
 where
  "record_origins (TomlTable t) meta path origins =
     fold (\<lambda>(k, v). record_origins v meta (path @ [k])) t origins"
| "record_origins (TomlArray items) meta path origins =
     fold (\<lambda>(i, item). record_origins item meta (path @ [show_nat i])) (enumerate 0 items) origins"
| "record_origins v meta path origins =
     (if path = [] then origins else origins(join_with [46] path \<mapsto> meta))"

definition origins :: "'r config_layer_stack \<Rightarrow> (ustr \<rightharpoonup> config_layer_metadata)" where
  "origins stack =
     fold (\<lambda>layer. record_origins (normalized_with_key_aliases (layer_config layer) []) (layer_metadata layer) [])
       (get_layers LowestPrecedenceFirst False stack) Map.empty"

section \<open>Reading a configuration\<close>

fun toml_at :: "toml_value \<Rightarrow> ustr list \<Rightarrow> toml_value option" where
  "toml_at v [] = Some v"
| "toml_at (TomlTable t) (k # ks) = (case map_of t k of Some v \<Rightarrow> toml_at v ks | None \<Rightarrow> None)"
| "toml_at _ (k # ks) = None"

fun is_table :: "toml_value \<Rightarrow> bool" where
  "is_table (TomlTable _) = True"
| "is_table _ = False"

definition leaf_at :: "toml_value \<Rightarrow> ustr list \<Rightarrow> toml_value option" where
  "leaf_at v ks = (case toml_at v ks of Some x \<Rightarrow> if is_table x then None else Some x | None \<Rightarrow> None)"

text \<open>A value speaks about a path if it has an entry there, or a value that is not a table on the way.\<close>

fun touches :: "toml_value \<Rightarrow> ustr list \<Rightarrow> bool" where
  "touches v [] = True"
| "touches (TomlTable t) (k # ks) = (case map_of t k of Some v \<Rightarrow> touches v ks | None \<Rightarrow> False)"
| "touches _ (k # ks) = True"

fun toml_ok :: "toml_value \<Rightarrow> bool" where
  "toml_ok (TomlTable t) \<longleftrightarrow> distinct (map fst t) \<and> list_all (\<lambda>(k, v). toml_ok v) t"
| "toml_ok (TomlArray items) \<longleftrightarrow> list_all toml_ok items"
| "toml_ok _ \<longleftrightarrow> True"

definition below_domains :: "ustr list \<Rightarrow> bool" where
  "below_domains path \<longleftrightarrow> length path > 4 \<and> is_permission_network_domains_path (take 4 path)"

definition no_legacy :: "ustr list \<Rightarrow> toml_value \<Rightarrow> bool" where
  "no_legacy path v \<longleftrightarrow>
     (\<forall>a \<in> set CONFIG_KEY_ALIASES. \<forall>qs. table_path a = path @ qs \<longrightarrow> toml_at v (qs @ [legacy_key a]) = None)"

lemma leaf_at_simps [simp]:
  "leaf_at v [] = (if is_table v then None else Some v)"
  "leaf_at (TomlTable t) (k # ks) = (case map_of t k of Some v \<Rightarrow> leaf_at v ks | None \<Rightarrow> None)"
  "\<not> is_table v \<Longrightarrow> leaf_at v (k # ks) = None"
  by (auto simp: leaf_at_def split: option.splits) (cases v; simp)

lemma touches_not_table [simp]: "\<not> is_table v \<Longrightarrow> touches v ks"
  by (cases v; cases ks) auto

lemma not_touches_leaf: "\<not> touches v ks \<Longrightarrow> leaf_at v ks = None"
  by (induction v ks rule: touches.induct) (auto split: option.splits)

section \<open>What the steps do to a table\<close>

abbreviation table_ok :: "toml_table \<Rightarrow> bool" where
  "table_ok t \<equiv> toml_ok (TomlTable t)"

declare toml_ok.simps(1) [simp del]
lemmas table_ok_iff = toml_ok.simps(1)

lemma toml_ok_map_of: "table_ok t \<Longrightarrow> map_of t k = Some v \<Longrightarrow> toml_ok v"
  by (auto simp: table_ok_iff list_all_iff dest: map_of_SomeD)

lemma table_ok_update: "table_ok t \<Longrightarrow> toml_ok v \<Longrightarrow> table_ok (AList.update k v t)"
  by (induction t) (auto simp: table_ok_iff AList.update_keys)

lemma table_ok_delete: "table_ok t \<Longrightarrow> table_ok (AList.delete k t)"
  by (auto simp: table_ok_iff AList.delete_eq list_all_iff distinct_map inj_on_def)

lemma table_of_ok: "list_all (\<lambda>(k, v). toml_ok v) kvs \<Longrightarrow> table_ok (table_of kvs)"
proof -
  have "table_ok t \<Longrightarrow> table_ok (foldl (\<lambda>t (k, v). AList.update k v t) t kvs)"
    if "list_all (\<lambda>(k, v). toml_ok v) kvs" for t
    using that
  proof (induction kvs arbitrary: t)
    case (Cons kv kvs)
    then show ?case using table_ok_update [of t "snd kv" "fst kv"] by (cases kv) simp
  qed simp
  then show "list_all (\<lambda>(k, v). toml_ok v) kvs \<Longrightarrow> table_ok (table_of kvs)" by (simp add: table_of_def table_ok_iff)
qed

lemma table_of_distinct: "distinct (map fst kvs) \<Longrightarrow> table_of kvs = kvs"
proof -
  have "distinct (map fst (t @ kvs)) \<Longrightarrow> foldl (\<lambda>t (k, v). AList.update k v t) t kvs = t @ kvs" for t
  proof (induction kvs arbitrary: t)
    case (Cons kv kvs)
    obtain k v where kv: "kv = (k, v)" by fastforce
    with Cons.prems have "k \<notin> fst ` set t" by auto
    then have "AList.update k v t = t @ [(k, v)]" by (induction t) auto
    with Cons.IH [of "t @ [kv]"] Cons.prems kv show ?case by simp
  qed simp
  from this [of "[]"] show "distinct (map fst kvs) \<Longrightarrow> table_of kvs = kvs" by (simp add: table_of_def)
qed

lemma normalize_alias_ok: "table_ok t \<Longrightarrow> table_ok (normalize_alias path a t)"
  by (auto simp: normalize_alias_def Let_def table_ok_update table_ok_delete toml_ok_map_of split: option.split)

lemma normalize_key_aliases_ok: "table_ok t \<Longrightarrow> table_ok (normalize_key_aliases path t)"
  by (simp add: normalize_key_aliases_def CONFIG_KEY_ALIASES_def normalize_alias_ok)

lemma prepare_table_ok: "table_ok t \<Longrightarrow> table_ok (prepare_table path t)"
proof -
  have "table_ok t \<Longrightarrow> table_ok (normalize_network_domain_keys t)" for t
    using table_of_ok [of "map (\<lambda>(pat, v). (normalize_host pat, v)) t"]
    by (simp add: normalize_network_domain_keys_def table_ok_iff list_all_iff split_beta)
  then show "table_ok t \<Longrightarrow> table_ok (prepare_table path t)"
    by (simp add: prepare_table_def Let_def normalize_key_aliases_ok)
qed

lemma normalized_ok: "toml_ok v \<Longrightarrow> toml_ok (normalized_with_key_aliases v path)"
proof (induction v path rule: normalized_with_key_aliases.induct)
  case (1 t path)
  then have "list_all (\<lambda>(k, v). toml_ok v) (map (\<lambda>(k, child). (k, normalized_with_key_aliases child (path @ [k]))) t)"
    by (auto simp: table_ok_iff list_all_iff)
  from normalize_key_aliases_ok [OF table_of_ok [OF this]] show ?case by simp
qed (auto simp: list_all_iff)

lemma merge_ok:
  "toml_ok base \<Longrightarrow> toml_ok overlay \<Longrightarrow> toml_ok (merge_toml_values_at_path base overlay path)"
  "table_ok base_table \<Longrightarrow> table_ok entries \<Longrightarrow> table_ok (merge_entries base_table entries path)"
proof (induction base overlay path and base_table entries path rule: merge_toml_values_at_path_merge_entries.induct)
  case (1 base overlay path)
  then show ?case
    using prepare_table_ok normalized_ok [of overlay path]
    by (subst merge_toml_values_at_path.simps) (auto simp del: normalized_with_key_aliases.simps split: toml_value.split)
next
  case (3 base_table key v entries path)
  let ?v' = "case map_of base_table key of
      Some existing \<Rightarrow> merge_toml_values_at_path existing v (path @ [key])
    | None \<Rightarrow> normalized_with_key_aliases v (path @ [key])"
  have v: "toml_ok v" and entries: "table_ok entries" using 3(4) by (simp_all add: table_ok_iff)
  have "toml_ok ?v'"
    using 3(1) v normalized_ok [OF v] toml_ok_map_of [OF 3(3)] by (auto split: option.split)
  then have "table_ok (AList.update key ?v' base_table)" by (rule table_ok_update [OF 3(3)])
  with 3(2) entries show ?case by (auto split: option.splits)
qed simp

lemma merge_entries_lookup:
  "distinct (map fst entries) \<Longrightarrow>
   map_of (merge_entries base_table entries path) k =
     (case map_of entries k of
        None \<Rightarrow> map_of base_table k
      | Some v \<Rightarrow> Some (case map_of base_table k of
            Some existing \<Rightarrow> merge_toml_values_at_path existing v (path @ [k])
          | None \<Rightarrow> normalized_with_key_aliases v (path @ [k])))"
proof (induction entries arbitrary: base_table)
  case (Cons kv entries)
  obtain key v where kv: "kv = (key, v)" by fastforce
  have "map_of entries key = None" using Cons.prems kv by (simp add: map_of_eq_None_iff)
  with Cons kv show ?case
    by (cases "map_of base_table key") (auto simp: update_conv' split: option.split)
qed simp

section \<open>Legacy keys are gone\<close>

lemma memories_alias_facts:
  "length (table_path memories_alias) = 1"
  "legacy_key memories_alias \<noteq> canonical_key memories_alias"
  "table_path memories_alias \<noteq> [str ''permissions'']"
  by (simp_all add: memories_alias_def str_Cons chr_def)

lemma normalized_deep: "length path \<ge> 2 \<Longrightarrow> toml_ok v \<Longrightarrow> normalized_with_key_aliases v path = v"
proof (induction v path rule: normalized_with_key_aliases.induct)
  case (1 t path)
  then have "map (\<lambda>(k, child). (k, normalized_with_key_aliases child (path @ [k]))) t = t"
    by (auto simp: table_ok_iff list_all_iff intro!: map_idI)
  moreover have "normalize_key_aliases path u = u" for u
    using 1(2) memories_alias_facts(1) by (auto simp: normalize_key_aliases_def CONFIG_KEY_ALIASES_def normalize_alias_def)
  ultimately show ?case using 1(3) by (simp add: table_ok_iff table_of_distinct)
qed (auto simp: list_all_iff intro!: map_idI)

lemma map_of_normalize_key_aliases:
  "map_of (normalize_key_aliases path t) k =
    (if path = table_path memories_alias then
       if k = legacy_key memories_alias then None
       else if k = canonical_key memories_alias
       then (case map_of t k of Some v \<Rightarrow> Some v | None \<Rightarrow> map_of t (legacy_key memories_alias))
       else map_of t k
     else map_of t k)"
  using memories_alias_facts(2)
  by (auto simp: normalize_key_aliases_def CONFIG_KEY_ALIASES_def normalize_alias_def Let_def update_conv'
      delete_conv' split: option.splits)

lemma map_of_pairs: "map_of (map (\<lambda>(k, v). (k, f k v)) t) k = map_option (f k) (map_of t k)"
  by (induction t) auto

text \<open>Renaming a child's key happens only where its own children are too deep for a legacy key.\<close>

lemma map_of_normalized:
  assumes "table_ok t" "normalized_with_key_aliases (TomlTable t) path = TomlTable u"
  shows "map_of u k = map_option (\<lambda>v. normalized_with_key_aliases v (path @ [k])) (map_of (normalize_key_aliases path t) k)"
proof -
  let ?n = "\<lambda>k v. normalized_with_key_aliases v (path @ [k])"
  have u: "u = normalize_key_aliases path (map (\<lambda>(k, v). (k, ?n k v)) t)"
    using assms by (simp add: table_of_distinct table_ok_iff split_beta comp_def)
  have "?n k' v = v" if "path = table_path memories_alias" "map_of t j = Some v" for k' j v
    using that memories_alias_facts(1) normalized_deep [of "path @ [k']" v] toml_ok_map_of [OF assms(1)]
    by simp
  then show ?thesis
    by (cases "map_of t (legacy_key memories_alias)")
      (auto simp: u map_of_normalize_key_aliases map_of_pairs split: option.split)
qed

lemma no_legacy_iff:
  "no_legacy path v \<longleftrightarrow>
     (\<forall>qs. table_path memories_alias = path @ qs \<longrightarrow> toml_at v (qs @ [legacy_key memories_alias]) = None)"
  by (simp add: no_legacy_def CONFIG_KEY_ALIASES_def)

lemma no_legacy_child: "no_legacy path (TomlTable t) \<Longrightarrow> map_of t k = Some v \<Longrightarrow> no_legacy (path @ [k]) v"
  by (fastforce simp: no_legacy_iff)

lemma no_legacy_lookup:
  assumes "no_legacy path (TomlTable t)"
  shows "map_of (normalize_key_aliases path t) k = map_of t k"
  using assms [unfolded no_legacy_iff, rule_format, of "[]"]
  by (cases "map_of t (legacy_key memories_alias)") (auto simp: map_of_normalize_key_aliases split: option.split)

lemma prepare_lookup:
  "\<not> below_domains (path @ k # ks) \<Longrightarrow>
   map_of (prepare_table path t) k = map_of (normalize_key_aliases path t) k"
  by (cases "is_permission_network_domains_path path")
    (auto simp: prepare_table_def below_domains_def Let_def is_permission_network_domains_path_def split: list.splits)

section \<open>A merge gives precedence to the overlay\<close>

lemma normalized_is_table [simp]: "is_table (normalized_with_key_aliases v path) = is_table v"
  by (cases v) auto

lemma merge_not_both_tables:
  "\<not> (is_table base \<and> is_table overlay) \<Longrightarrow>
   merge_toml_values_at_path base overlay path = normalized_with_key_aliases overlay path"
  by (subst merge_toml_values_at_path.simps) (cases base; cases overlay; simp)

lemma merged_lookup:
  assumes "table_ok b" "table_ok t" "no_legacy path (TomlTable b)" "\<not> below_domains (path @ k # ks)"
  shows "map_of (merge_entries (prepare_table path b) (prepare_table path t) path) k =
    (case map_of (prepare_table path t) k of
       None \<Rightarrow> map_of b k
     | Some v \<Rightarrow> Some (case map_of b k of
           Some existing \<Rightarrow> merge_toml_values_at_path existing v (path @ [k])
         | None \<Rightarrow> normalized_with_key_aliases v (path @ [k])))"
proof -
  have "map_of (prepare_table path b) k = map_of b k"
    using prepare_lookup [OF assms(4)] no_legacy_lookup [OF assms(3)] by simp
  with merge_entries_lookup [of "prepare_table path t" "prepare_table path b" path k] prepare_table_ok [OF assms(2), of path]
  show ?thesis by (auto simp: table_ok_iff split: option.split)
qed

lemma normalized_lookup:
  assumes "table_ok t" "\<not> below_domains (path @ k # ks)" "normalized_with_key_aliases (TomlTable t) path = TomlTable u"
  shows "map_of u k = map_option (\<lambda>v. normalized_with_key_aliases v (path @ [k])) (map_of (prepare_table path t) k)"
  using map_of_normalized [OF assms(1,3)] prepare_lookup [OF assms(2)] by simp

lemma merge_leaf:
  assumes "toml_ok base" "toml_ok overlay" "no_legacy path base" "\<not> below_domains (path @ ks)"
  shows "leaf_at (merge_toml_values_at_path base overlay path) ks =
    (if touches (normalized_with_key_aliases overlay path) ks
     then leaf_at (normalized_with_key_aliases overlay path) ks else leaf_at base ks)"
  using assms
proof (induction ks arbitrary: base overlay path)
  case Nil
  then show ?case by (subst merge_toml_values_at_path.simps) (auto split: toml_value.split)
next
  case (Cons k ks)
  show ?case
  proof (cases "is_table base \<and> is_table overlay")
    case False
    then show ?thesis
      by (auto simp: merge_not_both_tables not_touches_leaf)
  next
    case True
    then obtain b t where bt: "base = TomlTable b" "overlay = TomlTable t" by (cases base; cases overlay) auto
    note bt' = Cons.prems [unfolded bt]
    obtain u where u: "normalized_with_key_aliases overlay path = TomlTable u" using bt by simp
    have step: "merge_toml_values_at_path base overlay path =
        TomlTable (merge_entries (prepare_table path b) (prepare_table path t) path)"
      using bt by (subst merge_toml_values_at_path.simps) simp
    have "leaf_at (merge_toml_values_at_path x v (path @ [k])) ks =
        (if touches (normalized_with_key_aliases v (path @ [k])) ks
         then leaf_at (normalized_with_key_aliases v (path @ [k])) ks else leaf_at x ks)"
      if "map_of b k = Some x" "map_of (prepare_table path t) k = Some v" for x v
      using Cons.IH [of x v "path @ [k]"] that bt'(4) toml_ok_map_of [OF prepare_table_ok [OF bt'(2)]]
        toml_ok_map_of [OF bt'(1)] no_legacy_child [OF bt'(3)] by simp
    then show ?thesis
      unfolding step u
      by (auto simp: merged_lookup [OF bt'] normalized_lookup [OF bt'(2,4) u [unfolded bt]] bt(1) not_touches_leaf
          split: option.split)
  qed
qed

text \<open>No legacy key comes back.\<close>

lemma merge_at_None:
  assumes "toml_ok base" "toml_ok overlay" "no_legacy path base" "\<not> below_domains (path @ ks)"
    and "toml_at (normalized_with_key_aliases overlay path) ks = None" "toml_at base ks = None"
  shows "toml_at (merge_toml_values_at_path base overlay path) ks = None"
  using assms
proof (induction ks arbitrary: base overlay path)
  case (Cons k ks)
  show ?case
  proof (cases "is_table base \<and> is_table overlay")
    case False
    with Cons.prems show ?thesis by (simp add: merge_not_both_tables)
  next
    case True
    then obtain b t where bt: "base = TomlTable b" "overlay = TomlTable t" by (cases base; cases overlay) auto
    note bt' = Cons.prems(1-4) [unfolded bt]
    obtain u where u: "normalized_with_key_aliases overlay path = TomlTable u" using bt by simp
    have None_at: "map_of u k = None \<or> (\<exists>v. map_of u k = Some v \<and> toml_at v ks = None)"
      "map_of b k = None \<or> (\<exists>v. map_of b k = Some v \<and> toml_at v ks = None)"
      using Cons.prems(5,6) u bt(1) by (auto split: option.splits)
    have "toml_at v ks = None" if "map_of (merge_entries (prepare_table path b) (prepare_table path t) path) k = Some v" for v
      using that Cons.IH [of _ _ "path @ [k]"] bt'(4) None_at toml_ok_map_of [OF prepare_table_ok [OF bt'(2)]]
        toml_ok_map_of [OF bt'(1)] no_legacy_child [OF bt'(3)]
      by (auto simp: merged_lookup [OF bt'] normalized_lookup [OF bt'(2,4) u [unfolded bt]] split: option.splits)
    then show ?thesis
      using bt by (subst merge_toml_values_at_path.simps) (auto split: option.split)
  qed
qed simp

lemma normalized_no_legacy:
  assumes "toml_ok v"
  shows "no_legacy [] (normalized_with_key_aliases v [])"
proof -
  obtain m where m: "table_path memories_alias = [m]" using memories_alias_facts(1) by (cases "table_path memories_alias") auto
  have "toml_at (normalized_with_key_aliases v []) [m, legacy_key memories_alias] = None"
  proof (cases v)
    case (TomlTable t)
    obtain u where u: "normalized_with_key_aliases (TomlTable t) [] = TomlTable u" by simp
    note top = map_of_normalized [OF assms [unfolded TomlTable] u, of m]
    show ?thesis
    proof (cases "map_of (normalize_key_aliases [] t) m")
      case (Some w)
      have "toml_ok w" using toml_ok_map_of [OF normalize_key_aliases_ok [OF assms [unfolded TomlTable]] Some] .
      then have "toml_at (normalized_with_key_aliases w [m]) [legacy_key memories_alias] = None"
      proof (cases w)
        case (TomlTable t2)
        obtain u2 where u2: "normalized_with_key_aliases (TomlTable t2) [m] = TomlTable u2" by simp
        have "map_of u2 (legacy_key memories_alias) = None"
          using map_of_normalized [OF \<open>toml_ok w\<close> [unfolded TomlTable] u2] m by (simp add: map_of_normalize_key_aliases)
        then show ?thesis using u2 unfolding TomlTable by (simp del: normalized_with_key_aliases.simps)
      qed simp_all
      with top Some u show ?thesis unfolding TomlTable by (simp del: normalized_with_key_aliases.simps)
    qed (use top u in \<open>simp add: TomlTable del: normalized_with_key_aliases.simps\<close>)
  qed simp_all
  then show ?thesis by (simp add: no_legacy_iff m)
qed

lemma merge_no_legacy:
  assumes "toml_ok base" "toml_ok overlay" "no_legacy [] base"
  shows "no_legacy [] (merge_toml_values base overlay)"
proof -
  let ?ks = "table_path memories_alias @ [legacy_key memories_alias]"
  have "toml_at (normalized_with_key_aliases overlay []) ?ks = None" "toml_at base ?ks = None"
    using normalized_no_legacy [OF assms(2)] assms(3) by (simp_all add: no_legacy_iff)
  with merge_at_None [of base overlay "[]" ?ks] assms show ?thesis
    using memories_alias_facts(1) by (simp add: no_legacy_iff merge_toml_values_def below_domains_def)
qed

section \<open>The effective configuration\<close>

abbreviation layer_values :: "config_layer_entry \<Rightarrow> toml_value" where
  "layer_values l \<equiv> normalized_with_key_aliases (layer_config l) []"

lemma find_append: "find P (xs @ ys) = (case find P xs of Some x \<Rightarrow> Some x | None \<Rightarrow> find P ys)"
  by (induction xs) auto

lemma merge_layers_leaf:
  assumes "list_all (\<lambda>l. toml_ok (layer_config l)) ls" "\<not> below_domains ks" "toml_ok base" "no_legacy [] base"
  shows "leaf_at (foldl merge_toml_values base (map layer_config ls)) ks =
    (case find (\<lambda>l. touches (layer_values l) ks) (rev ls) of
       Some l \<Rightarrow> leaf_at (layer_values l) ks
     | None \<Rightarrow> leaf_at base ks)"
  using assms
proof (induction ls arbitrary: base)
  case (Cons l ls)
  have "toml_ok (merge_toml_values base (layer_config l))" "no_legacy [] (merge_toml_values base (layer_config l))"
    using Cons.prems merge_no_legacy merge_ok(1) by (simp_all add: merge_toml_values_def)
  with Cons.IH Cons.prems merge_leaf [of base "layer_config l" "[]" ks] show ?case
    by (auto simp: merge_toml_values_def find_append split: option.split)
qed simp

text \<open>
  C35: the effective configuration. Apart from the entries of network domain tables, whose keys are
  normalised host names, a setting has the value of the enabled layer of highest precedence that says
  anything about it: that has an entry at its path, or a value that is no table on the way to it.
  Legacy keys count under their current names.
\<close>

theorem effective_config_highest_layer:
  assumes "list_all (\<lambda>l. toml_ok (layer_config l)) (layers stack)" "\<not> below_domains ks"
  shows "leaf_at (effective_config stack) ks =
    (case find (\<lambda>l. touches (layer_values l) ks) (get_layers HighestPrecedenceFirst False stack) of
       Some l \<Rightarrow> leaf_at (layer_values l) ks
     | None \<Rightarrow> None)"
proof -
  let ?ls = "get_layers LowestPrecedenceFirst False stack"
  have ls: "list_all (\<lambda>l. toml_ok (layer_config l)) ?ls" using assms(1) by (auto simp: get_layers_def list_all_iff)
  have "no_legacy [] (TomlTable [])" using memories_alias_facts(1) by (cases "table_path memories_alias") (simp_all add: no_legacy_iff)
  from merge_layers_leaf [OF ls assms(2) _ this] show ?thesis
    by (cases ks) (simp_all add: effective_config_def get_layers_def table_ok_iff split: option.split)
qed

definition example_stack :: "unit config_layer_stack" where
  "example_stack = \<lparr>layers =
     [example_layer (SystemFile (str ''/etc/c''))\<lparr>layer_config := TomlTable
        [(str ''model'', TomlString (str ''a'')), (str ''tui'', TomlTable [(str ''x'', TomlInteger 1), (str ''y'', TomlInteger 2)])]\<rparr>,
      example_layer SessionFlags\<lparr>layer_config := TomlTable
        [(str ''tui'', TomlTable [(str ''x'', TomlInteger 3)]),
         (str ''memories'', TomlTable [(legacy_key memories_alias, TomlBoolean True)])]\<rparr>],
     user_layer_index = None, requirements = (), ignore_user_and_project_exec_policy_rules = False\<rparr>"

theorem effective_config_highest_layer_witness:
  "list_all (\<lambda>l. toml_ok (layer_config l)) (layers example_stack)
   \<and> leaf_at (effective_config example_stack) [str ''tui'', str ''x''] = Some (TomlInteger 3)
   \<and> leaf_at (effective_config example_stack) [str ''tui'', str ''y''] = Some (TomlInteger 2)"
proof (intro conjI)
  show ok: "list_all (\<lambda>l. toml_ok (layer_config l)) (layers example_stack)" by code_simp
  have "\<not> below_domains [str ''tui'', str ''x'']" "\<not> below_domains [str ''tui'', str ''y'']" by code_simp+
  note vals = this [THEN effective_config_highest_layer [OF ok]]
  show "leaf_at (effective_config example_stack) [str ''tui'', str ''x''] = Some (TomlInteger 3)"
    unfolding vals by code_simp
  show "leaf_at (effective_config example_stack) [str ''tui'', str ''y''] = Some (TomlInteger 2)"
    unfolding vals by code_simp
qed

text \<open>The legacy key is read under its current name.\<close>

lemma legacy_key_effective:
  "leaf_at (effective_config example_stack) (table_path memories_alias @ [canonical_key memories_alias]) = Some (TomlBoolean True)"
  by code_simp

section \<open>Settings have origins\<close>

fun is_scalar :: "toml_value \<Rightarrow> bool" where
  "is_scalar (TomlTable _) = False"
| "is_scalar (TomlArray _) = False"
| "is_scalar _ = True"

lemma fold_dom_mono: "(\<And>x o'. x \<in> set xs \<Longrightarrow> dom o' \<subseteq> dom (f x o')) \<Longrightarrow> dom o' \<subseteq> dom (fold f xs o')"
proof (induction xs arbitrary: o')
  case (Cons x xs)
  have "dom o' \<subseteq> dom (f x o')" "dom (f x o') \<subseteq> dom (fold f xs (f x o'))" by (simp_all add: Cons)
  then show ?case by simp
qed simp

lemma record_origins_mono: "dom os \<subseteq> dom (record_origins v meta path os)"
proof (induction v meta path os rule: record_origins.induct)
  case (1 t meta path os)
  have "dom os \<subseteq> dom (fold (\<lambda>(k, v). record_origins v meta (path @ [k])) t os)"
    using 1 by (intro fold_dom_mono) (simp split: prod.split)
  then show ?case by simp
next
  case (2 items meta path os)
  have "dom os \<subseteq> dom (fold (\<lambda>(i, v). record_origins v meta (path @ [show_nat i])) (enumerate 0 items) os)"
    using 2 by (intro fold_dom_mono) (simp split: prod.split)
  then show ?case by simp
qed auto

lemma fold_dom_member:
  "(\<And>x os. dom os \<subseteq> dom (f x os)) \<Longrightarrow> x \<in> set xs \<Longrightarrow> (\<And>os. k \<in> dom (f x os)) \<Longrightarrow> k \<in> dom (fold f xs os)"
proof (induction xs arbitrary: os)
  case (Cons y ys)
  then have "dom (f y os) \<subseteq> dom (fold f ys (f y os))" by (intro fold_dom_mono)
  with Cons show ?case by (cases "x = y") (simp_all add: subset_iff del: domIff)
qed simp

lemma record_origins_scalar:
  "toml_at v ks = Some w \<Longrightarrow> is_scalar w \<Longrightarrow> path @ ks \<noteq> [] \<Longrightarrow>
   join_with [46] (path @ ks) \<in> dom (record_origins v meta path os)"
proof (induction v ks arbitrary: path os rule: toml_at.induct)
  case (1 v)
  then show ?case by (cases v) auto
next
  case (2 t k ks)
  then obtain x where x: "map_of t k = Some x" "toml_at x ks = Some w" by (auto split: option.splits)
  have "join_with [46] (path @ k # ks) \<in> dom (fold (\<lambda>(k, v). record_origins v meta (path @ [k])) t os)"
    using 2(1) [OF x(1,2) 2(3), of "path @ [k]"] map_of_SomeD [OF x(1)] record_origins_mono
    by (intro fold_dom_member [where x = "(k, x)"]) (auto split: prod.split)
  then show ?case by simp
qed simp_all

text \<open>Every scalar that an enabled layer sets has an origin under its path.\<close>

lemma scalar_has_origin:
  assumes "l \<in> set (get_layers LowestPrecedenceFirst False stack)" "toml_at (layer_values l) ks = Some w" "is_scalar w" "ks \<noteq> []"
  shows "origins stack (join_with [46] ks) \<noteq> None"
proof -
  have "join_with [46] ks \<in> dom (origins stack)"
    unfolding origins_def using record_origins_scalar [of "layer_values l" ks w "[]"] assms record_origins_mono
    by (intro fold_dom_member [where x = l]) auto
  then show ?thesis by auto
qed

section \<open>Origins that do not name the setting\<close>

text \<open>
  The origins are recorded under the keys as the layers spell them, while a merge of two domain tables
  normalises their keys: the domain that is in force then has no origin.
\<close>

definition domain_layer :: "config_layer_source \<Rightarrow> string \<Rightarrow> config_layer_entry" where
  "domain_layer n host = example_layer n\<lparr>layer_config := TomlTable
     [(str ''permissions'', TomlTable [(str ''p'', TomlTable [(str ''network'', TomlTable
        [(str ''domains'', TomlTable [(str host, TomlString (str ''allow''))])])])])]\<rparr>"

definition domain_stack :: "unit config_layer_stack" where
  "domain_stack = \<lparr>layers = [domain_layer (SystemFile (str ''/etc/c'')) ''A.com'', domain_layer SessionFlags ''B.com''],
     user_layer_index = None, requirements = (), ignore_user_and_project_exec_policy_rules = False\<rparr>"

lemma normalised_domain_has_no_origin:
  "leaf_at (effective_config domain_stack)
       [str ''permissions'', str ''p'', str ''network'', str ''domains'', str ''a.com''] = Some (TomlString (str ''allow''))"
  "origins domain_stack (str ''permissions.p.network.domains.a.com'') = None"
  by code_simp+

end
