(* ===== verification/Read_Deny.thy ===== *)
theory Read_Deny
  imports Sandbox_Profiles "HOL-Library.List_Lexorder"
begin

text \<open>
  The matcher for denied reads of \<open>codex-rs/protocol/src/permissions.rs\<close> (\<open>ReadDenyMatcher\<close>), which
  tools ask before they read a file themselves. Compiling and matching a glob is left to the
  \<open>globset\<close> crate, a parameter.
\<close>

section \<open>The matcher\<close>

record path_globs =
  path_glob_error :: "ustr \<Rightarrow> ustr option" \<comment> \<open>why a pattern does not compile\<close>
  path_glob_match :: "ustr \<Rightarrow> ustr \<Rightarrow> bool" \<comment> \<open>pattern, path\<close>

definition deny_glob :: "host_env \<Rightarrow> ustr \<Rightarrow> sandbox_entry \<Rightarrow> ustr option" where
  "deny_glob env cwd e =
     (case entry_path e of GlobPattern pat \<Rightarrow> Some (host_join env cwd pat) | _ \<Rightarrow> None)"

definition get_unreadable_globs_with_cwd :: "host_env \<Rightarrow> sandbox_policy \<Rightarrow> ustr \<Rightarrow> ustr list" where
  "get_unreadable_globs_with_cwd env policy cwd =
     (if sandbox_kind policy \<noteq> Restricted then []
      else remdups_adj (sort (List.map_filter (deny_glob env cwd)
             (filter (\<lambda>e. access e = Deny) (sandbox_entries policy)))))"

definition push_unique :: "ustr list \<Rightarrow> ustr \<Rightarrow> ustr list" where
  "push_unique candidates c = (if list_ex (\<lambda>existing. path_eq existing c) candidates then candidates else candidates @ [c])"

definition normalized_and_canonical_candidates :: "host_env \<Rightarrow> ustr \<Rightarrow> ustr list" where
  "normalized_and_canonical_candidates env path =
     (let candidates = push_unique [] (case host_abs env path of Some normalized \<Rightarrow> normalized | None \<Rightarrow> path) in
      case Option.bind (canonicalize env path) (host_abs env) of
        Some canonical_absolute \<Rightarrow> push_unique candidates canonical_absolute
      | None \<Rightarrow> candidates)"

datatype invalid_deny_read_glob_behavior = FailClosed | ReturnError

record read_deny_matcher =
  denied_candidates :: "ustr list list"
  deny_read_matchers :: "ustr list"
  invalid_pattern :: bool

fun add_glob_matchers ::
  "path_globs \<Rightarrow> invalid_deny_read_glob_behavior \<Rightarrow> ustr list \<Rightarrow> read_deny_matcher \<Rightarrow> (read_deny_matcher, ustr) outcome" where
  "add_glob_matchers lib behavior [] m = Ok m"
| "add_glob_matchers lib behavior (pat # pats) m =
     (case path_glob_error lib pat of
        None \<Rightarrow> add_glob_matchers lib behavior pats (m\<lparr>deny_read_matchers := deny_read_matchers m @ [pat]\<rparr>)
      | Some err \<Rightarrow>
          (case behavior of
             FailClosed \<Rightarrow> add_glob_matchers lib behavior pats (m\<lparr>invalid_pattern := True\<rparr>)
           | ReturnError \<Rightarrow>
               Err (str ''invalid deny-read glob pattern `'' @ pat @ str ''`: '' @ err)))"

definition build_matcher ::
  "path_globs \<Rightarrow> host_env \<Rightarrow> sandbox_policy \<Rightarrow> ustr \<Rightarrow> invalid_deny_read_glob_behavior
    \<Rightarrow> (read_deny_matcher option, ustr) outcome" where
  "build_matcher lib env policy cwd behavior =
     (if \<not> has_denied_read_restrictions policy then Ok None
      else obind (add_glob_matchers lib behavior (get_unreadable_globs_with_cwd env policy cwd)
             \<lparr>denied_candidates = map (normalized_and_canonical_candidates env) (get_unreadable_roots_with_cwd env policy cwd),
              deny_read_matchers = [], invalid_pattern = False\<rparr>) (\<lambda>m. Ok (Some m)))"

text \<open>\<open>new\<close> holds an error for impossible (\<open>unreachable!\<close>).\<close>

definition matcher_new ::
  "path_globs \<Rightarrow> host_env \<Rightarrow> sandbox_policy \<Rightarrow> ustr \<Rightarrow> (read_deny_matcher option, unit) outcome" where
  "matcher_new lib env policy cwd =
     (case build_matcher lib env policy cwd FailClosed of Ok m \<Rightarrow> Ok m | _ \<Rightarrow> Panic)"

definition matcher_try_new ::
  "path_globs \<Rightarrow> host_env \<Rightarrow> sandbox_policy \<Rightarrow> ustr \<Rightarrow> (read_deny_matcher option, ustr) outcome" where
  "matcher_try_new lib env policy cwd = build_matcher lib env policy cwd ReturnError"

definition is_read_denied :: "path_globs \<Rightarrow> host_env \<Rightarrow> read_deny_matcher \<Rightarrow> ustr \<Rightarrow> bool" where
  "is_read_denied lib env m path \<longleftrightarrow>
     (if invalid_pattern m then True
      else let path_candidates = normalized_and_canonical_candidates env path in
        if list_ex (\<lambda>denied. list_ex (\<lambda>candidate. list_ex (\<lambda>d. path_eq candidate d \<or> path_starts_with candidate d) denied)
             path_candidates) (denied_candidates m)
        then True
        else list_ex (\<lambda>pat. list_ex (path_glob_match lib pat) path_candidates) (deny_read_matchers m))"

section \<open>The matcher refuses what the policy denies\<close>

lemma add_glob_matchers_closed:
  "add_glob_matchers lib FailClosed pats m =
     Ok (m\<lparr>deny_read_matchers := deny_read_matchers m @ filter (\<lambda>p. path_glob_error lib p = None) pats,
          invalid_pattern := invalid_pattern m \<or> list_ex (\<lambda>p. path_glob_error lib p \<noteq> None) pats\<rparr>)"
  by (induction pats arbitrary: m) (auto split: option.split)

lemma matcher_new_eq:
  "matcher_new lib env policy cwd =
     Ok (if \<not> has_denied_read_restrictions policy then None
         else Some \<lparr>denied_candidates = map (normalized_and_canonical_candidates env) (get_unreadable_roots_with_cwd env policy cwd),
           deny_read_matchers = filter (\<lambda>p. path_glob_error lib p = None) (get_unreadable_globs_with_cwd env policy cwd),
           invalid_pattern = list_ex (\<lambda>p. path_glob_error lib p \<noteq> None) (get_unreadable_globs_with_cwd env policy cwd)\<rparr>)"
  by (simp add: matcher_new_def build_matcher_def add_glob_matchers_closed)

lemma set_unreadable_globs:
  "sandbox_kind policy = Restricted \<Longrightarrow>
   set (get_unreadable_globs_with_cwd env policy cwd) =
     {host_join env cwd pat |e pat. e \<in> set (sandbox_entries policy) \<and> access e = Deny \<and> entry_path e = GlobPattern pat}"
  by (force simp: get_unreadable_globs_with_cwd_def set_map_filter deny_glob_def split: file_system_path.split_asm)

lemma root_normal: "is_normal_abs [slash]"
  unfolding is_normal_abs_def slash_is_display by (intro exI [of _ "[]"]) simp

lemma lexical_candidate: "is_normal_abs p \<Longrightarrow> p \<in> set (normalized_and_canonical_candidates env p)"
  by (auto simp: normalized_and_canonical_candidates_def push_unique_def host_abs_def Let_def split: option.splits)

lemma dedup_loop_covers: "p \<in> set ps \<Longrightarrow> \<exists>q \<in> set seen \<union> set (dedup_loop seen ps). path_eq p q"
proof (induction seen ps rule: dedup_loop.induct)
  case (2 seen q ps)
  show ?case
  proof (cases "list_ex (path_eq q) seen")
    case True
    with 2 show ?thesis by (auto simp: list_ex_iff)
  next
    case False
    with 2 show ?thesis by (auto simp: path_eq_def)
  qed
qed simp

lemma dedup_loop_subset: "set (dedup_loop seen ps) \<subseteq> set ps"
  by (induction seen ps rule: dedup_loop.induct) auto

lemma dedup_normal:
  assumes "p \<in> set ps" "\<forall>q \<in> set ps. normalize_effective_absolute_path env q = q \<and> is_normal_abs q"
  shows "p \<in> set (dedup_absolute_paths env ps True)"
proof -
  have ps: "map (normalize_effective_absolute_path env) ps = ps" using assms(2) by (simp add: map_idI)
  obtain q where "q \<in> set (dedup_loop [] ps)" "path_eq p q" using dedup_loop_covers [OF assms(1), of "[]"] by auto
  with dedup_loop_subset [of "[]" ps] assms path_eq_normal [of p q] show ?thesis
    by (auto simp: dedup_absolute_paths_def ps)
qed

text \<open>
  An entry that denies a path, in a policy resolved in \<open>cwd\<close>, also denies its own root.
\<close>

lemma denying_entry_denies_root:
  assumes "sandbox_kind policy = Restricted" "e \<in> set (matching_entries env policy cwd target)" "resolved_access e = Deny"
    and "\<forall>f \<in> set (matching_entries env policy cwd target).
      specificity f < specificity e \<or> (specificity f = specificity e \<and> resolved_access f \<le> resolved_access e)"
    and "resolve_candidate_path env (resolved_path e) cwd = Some (resolved_path e)"
  shows "\<not> can_read_path_with_cwd env policy (resolved_path e) cwd"
proof -
  have e: "e \<in> set (matching_entries env policy cwd (resolved_path e))"
    using assms(2) by (auto simp: matching_entries_def)
  have sub: "set (matching_entries env policy cwd (resolved_path e)) \<subseteq> set (matching_entries env policy cwd target)"
    using assms(2) by (auto simp: matching_entries_def intro: path_starts_with_trans)
  from assms(1,5) show ?thesis
  proof (cases rule: resolve_access_cases)
    case (entry f)
    with e assms(3) have "specificity e < specificity f \<or> Deny \<le> resolved_access f" by auto
    with entry(1) sub assms(4) have "Deny \<le> resolved_access f" by fastforce
    then have "resolved_access f = Deny" by (cases "resolved_access f") (simp_all add: less_eq_access_mode_def)
    with entry(2) show ?thesis by (simp add: can_read_path_with_cwd_def can_read_def)
  qed (use e in simp)
qed

text \<open>
  C23: a tool that asks the matcher reads nothing that a denial of the policy forbids. When the most specific
  entry that contains a path denies it, the matcher refuses the path, unless the denial is the one of the whole
  file system; a path that a deny pattern of the policy matches is refused as well, and a
  pattern that does not compile refuses everything. The roots of the denials are taken to be free of symbolic links.
\<close>

theorem denied_reads_refused:
  assumes "sandbox_kind policy = Restricted" "policy_ok policy" "env_ok env" "is_absolute cwd"
    and "is_normal_abs target" "matcher_new lib env policy cwd = Ok (Some m)"
    and "\<forall>e \<in> set (resolved_entries_with_cwd env policy cwd).
      resolved_access e = Deny \<longrightarrow> normalize_effective_absolute_path env (resolved_path e) = resolved_path e"
    and "(\<exists>e \<in> set (matching_entries env policy cwd target). resolved_path e \<noteq> [slash] \<and> resolved_access e = Deny
           \<and> (\<forall>f \<in> set (matching_entries env policy cwd target).
                specificity f < specificity e \<or> (specificity f = specificity e \<and> resolved_access f \<le> resolved_access e)))
      \<or> (\<exists>e pat. e \<in> set (sandbox_entries policy) \<and> access e = Deny \<and> entry_path e = GlobPattern pat
           \<and> (path_glob_match lib (host_join env cwd pat) target \<or> path_glob_error lib (host_join env cwd pat) \<noteq> None))"
  shows "is_read_denied lib env m target"
proof -
  have m: "m = \<lparr>denied_candidates = map (normalized_and_canonical_candidates env) (get_unreadable_roots_with_cwd env policy cwd),
           deny_read_matchers = filter (\<lambda>p. path_glob_error lib p = None) (get_unreadable_globs_with_cwd env policy cwd),
           invalid_pattern = list_ex (\<lambda>p. path_glob_error lib p \<noteq> None) (get_unreadable_globs_with_cwd env policy cwd)\<rparr>"
    using assms(6) by (simp add: matcher_new_eq split: if_splits)
  note target = lexical_candidate [OF assms(5), of env]
  from assms(8) show ?thesis
  proof
    assume "\<exists>e \<in> set (matching_entries env policy cwd target). resolved_path e \<noteq> [slash] \<and> resolved_access e = Deny
           \<and> (\<forall>f \<in> set (matching_entries env policy cwd target).
                specificity f < specificity e \<or> (specificity f = specificity e \<and> resolved_access f \<le> resolved_access e))"
    then obtain e where e: "e \<in> set (matching_entries env policy cwd target)" "resolved_path e \<noteq> [slash]" "resolved_access e = Deny"
      "\<forall>f \<in> set (matching_entries env policy cwd target).
         specificity f < specificity e \<or> (specificity f = specificity e \<and> resolved_access f \<le> resolved_access e)"
      by blast
    have r: "e \<in> set (resolved_entries_with_cwd env policy cwd)" "path_starts_with target (resolved_path e)"
      using e(1) by (auto simp: matching_entries_def)
    have normal: "is_normal_abs (resolved_path e)" using resolved_path_normal [OF assms(2-4) r(1)] .
    from denying_entry_denies_root [OF assms(1) e(1,3,4) candidate_normal [OF normal]]
    have "\<not> can_read_path_with_cwd env policy (resolved_path e) cwd" .
    moreover have "\<not> path_eq [slash] (resolved_path e)"
      using e(2) normal path_eq_normal [OF root_normal normal] by simp
    ultimately have "resolved_path e \<in> set (get_unreadable_roots_with_cwd env policy cwd)"
      using assms(1) r(1) e(3) assms(7) resolved_path_normal [OF assms(2-4)]
      by (auto simp: get_unreadable_roots_with_cwd_def host_abs_cwd [OF assms(4)] absolute_root_path_for_cwd_def
          ancestors_last opt_path_eq_def Let_def intro!: dedup_normal)
    with r(2) target lexical_candidate [OF normal, of env] show ?thesis
      by (fastforce simp: is_read_denied_def m list_ex_iff Let_def)
  next
    assume "\<exists>e pat. e \<in> set (sandbox_entries policy) \<and> access e = Deny \<and> entry_path e = GlobPattern pat
           \<and> (path_glob_match lib (host_join env cwd pat) target \<or> path_glob_error lib (host_join env cwd pat) \<noteq> None)"
    then obtain pat where "pat \<in> set (get_unreadable_globs_with_cwd env policy cwd)"
      "path_glob_match lib pat target \<or> path_glob_error lib pat \<noteq> None"
      using assms(1) by (auto simp: set_unreadable_globs)
    with target show ?thesis by (auto simp: is_read_denied_def m list_ex_iff Let_def)
  qed
qed

section \<open>Examples\<close>

definition secret_policy :: sandbox_policy where
  "secret_policy = restricted
     [entry_for (Special Root) Read, entry_for (PathEntry (str ''/w/secret'')) Deny,
      entry_for (GlobPattern (str ''*.env'')) Deny]"

definition no_globs :: path_globs where
  "no_globs = \<lparr>path_glob_error = (\<lambda>_. None), path_glob_match = (\<lambda>_ _. False)\<rparr>"

definition secret_matcher :: read_deny_matcher where
  "secret_matcher = \<lparr>denied_candidates = [[str ''/w/secret'']], deny_read_matchers = [str ''/w/*.env''],
     invalid_pattern = False\<rparr>"

theorem denied_reads_refused_witness:
  "matcher_new no_globs plain_host secret_policy (str ''/w'') = Ok (Some secret_matcher)
   \<and> is_read_denied no_globs plain_host secret_matcher (str ''/w/secret/x'')"
proof -
  have m: "matcher_new no_globs plain_host secret_policy (str ''/w'') =
      Ok (Some secret_matcher)" by code_simp
  have "sandbox_kind secret_policy = Restricted" "is_absolute (str ''/w'')" by code_simp+
  moreover have "is_normal_abs (str ''/w/secret'')" "is_normal_abs (str ''/w/secret/x'')"
    unfolding is_normal_abs_def
    by (intro exI [of _ "[str ''w'', str ''secret'']"], code_simp)
      (intro exI [of _ "[str ''w'', str ''secret'', str ''x'']"], code_simp)
  moreover from this(1) have "policy_ok secret_policy"
    by (auto simp: policy_ok_def secret_policy_def restricted_def entry_for_def)
  moreover have "env_ok plain_host" by (simp add: env_ok_def plain_host_def)
  moreover have "\<forall>e \<in> set (resolved_entries_with_cwd plain_host secret_policy (str ''/w'')).
      resolved_access e = Deny \<longrightarrow> normalize_effective_absolute_path plain_host (resolved_path e) = resolved_path e" by code_simp
  moreover have "\<exists>e \<in> set (matching_entries plain_host secret_policy (str ''/w'') (str ''/w/secret/x'')).
      resolved_path e \<noteq> [slash] \<and> resolved_access e = Deny
      \<and> (\<forall>f \<in> set (matching_entries plain_host secret_policy (str ''/w'') (str ''/w/secret/x'')).
           specificity f < specificity e \<or> (specificity f = specificity e \<and> resolved_access f \<le> resolved_access e))"
    by code_simp
  ultimately have "is_read_denied no_globs plain_host secret_matcher (str ''/w/secret/x'')"
    using denied_reads_refused [OF _ _ _ _ _ m] by blast
  with m show ?thesis by simp
qed

end
