(* ===== verification/Policy_Transforms.thy ===== *)
theory Policy_Transforms
  imports Read_Deny
begin

text \<open>
  Additional permissions for a command: \<open>codex-rs/sandboxing/src/policy_transforms.rs\<close>, which normalises,
  merges and intersects permission overlays and applies them to a profile. \<open>cwd\<close> is an absolute path.
\<close>

section \<open>Overlays\<close>

record network_permissions =
  net_enabled :: "bool option"

record file_system_permissions =
  fsp_entries :: "sandbox_entry list"
  fsp_glob_scan_max_depth :: "nat option" \<comment> \<open>not zero\<close>

record additional_permission_profile =
  overlay_network :: "network_permissions option"
  overlay_file_system :: "file_system_permissions option"

definition fsp_is_empty :: "file_system_permissions \<Rightarrow> bool" where
  "fsp_is_empty p \<longleftrightarrow> fsp_entries p = []"

definition net_is_empty :: "network_permissions \<Rightarrow> bool" where
  "net_is_empty n \<longleftrightarrow> net_enabled n = None"

definition overlay_is_empty :: "additional_permission_profile \<Rightarrow> bool" where
  "overlay_is_empty p \<longleftrightarrow> overlay_network p = None \<and> overlay_file_system p = None"

definition opt_filter :: "('a \<Rightarrow> bool) \<Rightarrow> 'a option \<Rightarrow> 'a option" where
  "opt_filter P x = (case x of Some a \<Rightarrow> if P a then Some a else None | None \<Rightarrow> None)"

definition entries_contain :: "sandbox_entry list \<Rightarrow> sandbox_entry \<Rightarrow> bool" where
  "entries_contain es e \<longleftrightarrow> list_ex (\<lambda>x. entry_eq x e) es"

definition push_entry :: "sandbox_entry list \<Rightarrow> sandbox_entry \<Rightarrow> sandbox_entry list" where
  "push_entry es e = (if entries_contain es e then es else es @ [e])"

text \<open>\<open>NonZeroUsize::new\<close>.\<close>

definition non_zero :: "nat option \<Rightarrow> nat option" where
  "non_zero d = opt_filter (\<lambda>n. n \<noteq> 0) d"

section \<open>Normalising\<close>

definition normalize_entry :: "host_env \<Rightarrow> sandbox_entry \<Rightarrow> (sandbox_entry, ustr) outcome" where
  "normalize_entry env e =
     (case entry_path e of
        GlobPattern pat \<Rightarrow>
          if access e \<noteq> Deny then Err (str ''glob file system permissions only support deny-read entries'')
          else Ok e
      | PathEntry path \<Rightarrow>
          Ok (entry_for (PathEntry
            (case Option.bind (canonicalize_preserving_symlinks env path) (host_abs env) of
               Some p \<Rightarrow> p
             | None \<Rightarrow> path)) (access e))
      | Special _ \<Rightarrow> Ok e)"

fun normalize_entries :: "host_env \<Rightarrow> sandbox_entry list \<Rightarrow> sandbox_entry list \<Rightarrow> (sandbox_entry list, ustr) outcome" where
  "normalize_entries env [] out = Ok out"
| "normalize_entries env (e # es) out =
     obind (normalize_entry env e) (\<lambda>e. normalize_entries env es (push_entry out e))"

definition normalize_additional_permissions ::
  "host_env \<Rightarrow> additional_permission_profile \<Rightarrow> (additional_permission_profile, ustr) outcome" where
  "normalize_additional_permissions env p =
     (let network = opt_filter (\<lambda>n. \<not> net_is_empty n) (overlay_network p) in
      case overlay_file_system p of
        None \<Rightarrow> Ok \<lparr>overlay_network = network, overlay_file_system = None\<rparr>
      | Some perms \<Rightarrow>
          obind (normalize_entries env (fsp_entries perms) []) (\<lambda>entries.
            let perms = \<lparr>fsp_entries = entries, fsp_glob_scan_max_depth = fsp_glob_scan_max_depth perms\<rparr> in
            Ok \<lparr>overlay_network = network,
                overlay_file_system = (if fsp_is_empty perms then None else Some perms)\<rparr>))"

section \<open>Merging\<close>

datatype glob_scan_depth = Bounded nat | Unbounded

definition effective_glob_scan_depth :: "sandbox_entry list \<Rightarrow> nat option \<Rightarrow> glob_scan_depth option" where
  "effective_glob_scan_depth entries depth =
     (if list_ex (\<lambda>e. access e = Deny \<and> (case entry_path e of GlobPattern _ \<Rightarrow> True | _ \<Rightarrow> False)) entries
      then Some (case depth of Some d \<Rightarrow> Bounded d | None \<Rightarrow> Unbounded)
      else None)"

definition merge_glob_scan_max_depth ::
  "sandbox_entry list \<Rightarrow> nat option \<Rightarrow> sandbox_entry list \<Rightarrow> nat option \<Rightarrow> nat option" where
  "merge_glob_scan_max_depth left_entries left_depth right_entries right_depth =
     (case (effective_glob_scan_depth left_entries left_depth, effective_glob_scan_depth right_entries right_depth) of
        (Some Unbounded, _) \<Rightarrow> None
      | (_, Some Unbounded) \<Rightarrow> None
      | (Some (Bounded l), Some (Bounded r)) \<Rightarrow> Some (max l r)
      | (Some (Bounded d), None) \<Rightarrow> Some d
      | (None, Some (Bounded d)) \<Rightarrow> Some d
      | (None, None) \<Rightarrow> None)"

definition merge_permission_entries :: "sandbox_entry list \<Rightarrow> sandbox_entry list \<Rightarrow> sandbox_entry list" where
  "merge_permission_entries base permissions = foldl push_entry [] (base @ permissions)"

definition merge_networks :: "network_permissions option \<Rightarrow> network_permissions option \<Rightarrow> network_permissions option" where
  "merge_networks base permissions =
     (if Option.bind base net_enabled = Some True \<or> Option.bind permissions net_enabled = Some True
      then Some \<lparr>net_enabled = Some True\<rparr> else None)"

definition merge_permission_profiles ::
  "additional_permission_profile option \<Rightarrow> additional_permission_profile option \<Rightarrow> additional_permission_profile option" where
  "merge_permission_profiles base permissions =
     (case permissions of
        None \<Rightarrow> base
      | Some p \<Rightarrow>
          opt_filter (\<lambda>p. \<not> overlay_is_empty p) (Some
            (case base of
               None \<Rightarrow> p
             | Some b \<Rightarrow>
                 \<lparr>overlay_network = merge_networks (overlay_network b) (overlay_network p),
                  overlay_file_system =
                    (case (overlay_file_system b, overlay_file_system p) of
                       (Some bf, Some pf) \<Rightarrow>
                         opt_filter (\<lambda>f. \<not> fsp_is_empty f)
                           (Some \<lparr>fsp_entries = merge_permission_entries (fsp_entries bf) (fsp_entries pf),
                              fsp_glob_scan_max_depth =
                                non_zero (merge_glob_scan_max_depth (fsp_entries bf) (fsp_glob_scan_max_depth bf)
                                  (fsp_entries pf) (fsp_glob_scan_max_depth pf))\<rparr>)
                     | (Some bf, None) \<Rightarrow> Some bf
                     | (None, Some pf) \<Rightarrow> Some pf
                     | (None, None) \<Rightarrow> None)\<rparr>)))"

section \<open>Intersecting\<close>

fun resolve_permission_path :: "host_env \<Rightarrow> file_system_path \<Rightarrow> ustr \<Rightarrow> ustr option" where
  "resolve_permission_path env (PathEntry path) cwd = Some path"
| "resolve_permission_path env (GlobPattern _) cwd = None"
| "resolve_permission_path env (Special Root) cwd = host_abs env (last (ancestors cwd))"
| "resolve_permission_path env (Special (ProjectRoots subpath)) cwd =
     map_option (\<lambda>c. case subpath of Some s \<Rightarrow> host_join env c s | None \<Rightarrow> c) (host_abs env cwd)"
| "resolve_permission_path env (Special Tmpdir) cwd =
     (case tmpdir_var env of None \<Rightarrow> None | Some t \<Rightarrow> if t = [] then None else host_abs env t)"
| "resolve_permission_path env (Special SlashTmp) cwd = opt_filter (is_dir env) (host_abs env slash_tmp)"
| "resolve_permission_path env (Special Minimal) cwd = None"
| "resolve_permission_path env (Special (Unknown _ _)) cwd = None"

definition materialize_cwd_dependent_entry :: "host_env \<Rightarrow> sandbox_entry \<Rightarrow> ustr \<Rightarrow> sandbox_entry" where
  "materialize_cwd_dependent_entry env e cwd =
     (case entry_path e of
        Special (ProjectRoots s) \<Rightarrow>
          (case resolve_permission_path env (entry_path e) cwd of
             Some path \<Rightarrow> entry_for (PathEntry path) (access e)
           | None \<Rightarrow> e)
      | GlobPattern pat \<Rightarrow> entry_for (GlobPattern (host_join env cwd pat)) (access e)
      | _ \<Rightarrow> e)"

fun access_covers :: "access_mode \<Rightarrow> access_mode \<Rightarrow> bool" where
  "access_covers requested Read = can_read requested"
| "access_covers requested Write = can_write requested"
| "access_covers requested Deny = False"

definition granted_file_system_entry_within_request ::
  "path_globs \<Rightarrow> host_env \<Rightarrow> file_system_permissions \<Rightarrow> sandbox_policy \<Rightarrow> read_deny_matcher option \<Rightarrow> sandbox_entry
    \<Rightarrow> ustr \<Rightarrow> bool" where
  "granted_file_system_entry_within_request lib env requested requested_policy matcher granted_entry cwd \<longleftrightarrow>
     (if \<not> can_read (access granted_entry) then False
      else case resolve_permission_path env (entry_path granted_entry) cwd of
             Some path \<Rightarrow>
               if (case matcher of Some m \<Rightarrow> is_read_denied lib env m path | None \<Rightarrow> False) then False
               else access_covers (resolve_access_with_cwd env requested_policy path cwd) (access granted_entry)
           | None \<Rightarrow>
               list_ex (\<lambda>r. access_covers (access r) (access granted_entry)
                  \<and> file_system_path_eq (entry_path r) (entry_path granted_entry)) (fsp_entries requested))"

text \<open>\<open>Path::parent\<close> of an absolute path, and the directory all matches of a glob lie in.\<close>

definition path_parent :: "ustr \<Rightarrow> ustr option" where
  "path_parent p =
     (case rev (components p) of
        [] \<Rightarrow> None
      | RootDir # _ \<Rightarrow> None
      | _ # rest \<Rightarrow> Some ([slash] @ join_with [slash] (map os_str (tl (rev rest)))))"

definition is_glob_char :: "uchar \<Rightarrow> bool" where
  "is_glob_char c \<longleftrightarrow> c \<in> {chr CHR ''*'', chr CHR ''?'', chr CHR ''['', chr CHR '']''}"

definition glob_static_prefix_path :: "host_env \<Rightarrow> ustr \<Rightarrow> ustr \<Rightarrow> ustr option" where
  "glob_static_prefix_path env pat cwd =
     (let resolved_pattern = host_join env cwd pat in
      Option.bind
        (case position is_glob_char resolved_pattern of
           Some 0 \<Rightarrow> None
         | Some index \<Rightarrow>
             let prefix = take index resolved_pattern in
             if last prefix = slash \<or> last prefix = chr (CHR 0x5C) then Some prefix else path_parent prefix
         | None \<Rightarrow> Some resolved_pattern)
        (host_abs env))"

definition paths_overlap :: "ustr \<Rightarrow> ustr \<Rightarrow> bool" where
  "paths_overlap left right \<longleftrightarrow> path_starts_with left right \<or> path_starts_with right left"

definition deny_entry_constrains_accepted_grant :: "host_env \<Rightarrow> sandbox_entry \<Rightarrow> sandbox_entry list \<Rightarrow> ustr \<Rightarrow> bool" where
  "deny_entry_constrains_accepted_grant env deny_entry accepted_entries cwd \<longleftrightarrow>
     list_ex (\<lambda>e. case resolve_permission_path env (entry_path e) cwd of
         None \<Rightarrow> False
       | Some grant_path \<Rightarrow>
           (case entry_path deny_entry of
              GlobPattern pat \<Rightarrow>
                (case glob_static_prefix_path env pat cwd of Some prefix \<Rightarrow> paths_overlap prefix grant_path | None \<Rightarrow> False)
            | p \<Rightarrow>
                (case resolve_permission_path env p cwd of
                   Some deny_path \<Rightarrow> paths_overlap deny_path grant_path
                 | None \<Rightarrow> False)))
       (filter (\<lambda>e. can_read (access e)) accepted_entries)"

fun retain_constraining_deny_entries ::
  "host_env \<Rightarrow> sandbox_entry list \<Rightarrow> sandbox_entry list \<Rightarrow> ustr \<Rightarrow> sandbox_entry list \<Rightarrow> sandbox_entry list
    \<Rightarrow> sandbox_entry list \<times> sandbox_entry list" where
  "retain_constraining_deny_entries env [] accepted cwd out retained = (retained, out)"
| "retain_constraining_deny_entries env (e # es) accepted cwd out retained =
     (if access e \<noteq> Deny \<or> \<not> deny_entry_constrains_accepted_grant env e accepted cwd
      then retain_constraining_deny_entries env es accepted cwd out retained
      else let e = materialize_cwd_dependent_entry env e cwd in
           retain_constraining_deny_entries env es accepted cwd (push_entry out e) (retained @ [e]))"

definition accepted_entries ::
  "path_globs \<Rightarrow> host_env \<Rightarrow> file_system_permissions \<Rightarrow> sandbox_policy \<Rightarrow> read_deny_matcher option \<Rightarrow> sandbox_entry list
    \<Rightarrow> ustr \<Rightarrow> sandbox_entry list" where
  "accepted_entries lib env requested requested_policy matcher granted cwd =
     foldl push_entry [] (map (\<lambda>e. materialize_cwd_dependent_entry env e cwd)
       (filter (\<lambda>e. granted_file_system_entry_within_request lib env requested requested_policy matcher e cwd) granted))"

definition intersect_file_system ::
  "path_globs \<Rightarrow> host_env \<Rightarrow> file_system_permissions \<Rightarrow> file_system_permissions \<Rightarrow> ustr
    \<Rightarrow> (file_system_permissions, unit) outcome" where
  "intersect_file_system lib env requested granted cwd =
     (let requested_policy = restricted (fsp_entries requested) in
      obind (matcher_new lib env requested_policy cwd) (\<lambda>matcher.
        let accepted = accepted_entries lib env requested requested_policy matcher (fsp_entries granted) cwd in
        case retain_constraining_deny_entries env (fsp_entries requested) accepted cwd accepted [] of
          (requested_retained, entries) \<Rightarrow>
            (case retain_constraining_deny_entries env (fsp_entries granted) accepted cwd entries [] of
               (granted_retained, entries) \<Rightarrow>
                 Ok \<lparr>fsp_entries = entries,
                     fsp_glob_scan_max_depth =
                       non_zero (merge_glob_scan_max_depth requested_retained (fsp_glob_scan_max_depth requested)
                         granted_retained (fsp_glob_scan_max_depth granted))\<rparr>)))"

definition intersect_permission_profiles ::
  "path_globs \<Rightarrow> host_env \<Rightarrow> additional_permission_profile \<Rightarrow> additional_permission_profile \<Rightarrow> ustr
    \<Rightarrow> (additional_permission_profile, unit) outcome" where
  "intersect_permission_profiles lib env requested granted cwd =
     obind
       (case overlay_file_system requested of
          None \<Rightarrow> Ok None
        | Some requested_fs \<Rightarrow>
            (let granted_fs = (case overlay_file_system granted of
                    Some g \<Rightarrow> g
                  | None \<Rightarrow> \<lparr>fsp_entries = [], fsp_glob_scan_max_depth = None\<rparr>)
             in obind (intersect_file_system lib env requested_fs granted_fs cwd) (\<lambda>perms.
                  Ok (opt_filter (\<lambda>f. \<not> fsp_is_empty f) (Some perms)))))
       (\<lambda>file_system.
          Ok \<lparr>overlay_network =
                (if overlay_network requested = Some \<lparr>net_enabled = Some True\<rparr>
                    \<and> overlay_network granted = Some \<lparr>net_enabled = Some True\<rparr>
                 then Some \<lparr>net_enabled = Some True\<rparr> else None),
              overlay_file_system = file_system\<rparr>)"

section \<open>Applying an overlay\<close>

definition merge_file_system_policy_with_additional_permissions ::
  "sandbox_policy \<Rightarrow> file_system_permissions \<Rightarrow> sandbox_policy" where
  "merge_file_system_policy_with_additional_permissions policy additional =
     (if sandbox_kind policy = Restricted
      then policy\<lparr>sandbox_entries := foldl push_entry (sandbox_entries policy) (fsp_entries additional),
             glob_scan_max_depth := merge_glob_scan_max_depth (sandbox_entries policy) (glob_scan_max_depth policy)
               (fsp_entries additional) (fsp_glob_scan_max_depth additional)\<rparr>
      else policy)"

definition effective_file_system_sandbox_policy ::
  "sandbox_policy \<Rightarrow> additional_permission_profile option \<Rightarrow> sandbox_policy" where
  "effective_file_system_sandbox_policy policy additional =
     (case Option.bind additional overlay_file_system of
        None \<Rightarrow> policy
      | Some perms \<Rightarrow>
          if fsp_is_empty perms then policy else merge_file_system_policy_with_additional_permissions policy perms)"

definition merge_network_access :: "bool \<Rightarrow> additional_permission_profile \<Rightarrow> bool" where
  "merge_network_access base_network_access additional \<longleftrightarrow>
     base_network_access
     \<or> (case Option.bind (overlay_network additional) net_enabled of Some b \<Rightarrow> b | None \<Rightarrow> False)"

definition effective_network_sandbox_policy ::
  "network_sandbox_policy \<Rightarrow> additional_permission_profile option \<Rightarrow> network_sandbox_policy" where
  "effective_network_sandbox_policy network additional =
     (case additional of
        None \<Rightarrow> network
      | Some p \<Rightarrow>
          if merge_network_access (network_is_enabled network) p then NetworkEnabled else NetworkRestricted)"

definition effective_permission_profile ::
  "permission_profile \<Rightarrow> additional_permission_profile option \<Rightarrow> (permission_profile, unit) outcome" where
  "effective_permission_profile profile additional =
     from_runtime_permissions_with_enforcement (profile_enforcement profile)
       (effective_file_system_sandbox_policy (file_system_sandbox_policy profile) additional)
       (effective_network_sandbox_policy (network_sandbox_policy_of profile) additional)"

definition should_require_platform_sandbox :: "sandbox_policy \<Rightarrow> network_sandbox_policy \<Rightarrow> bool \<Rightarrow> bool" where
  "should_require_platform_sandbox policy network has_managed_network_requirements \<longleftrightarrow>
     (if has_managed_network_requirements then True
      else if \<not> network_is_enabled network then sandbox_kind policy \<noteq> ExternalSandbox
      else case sandbox_kind policy of
             Restricted \<Rightarrow> \<not> has_full_disk_write_access policy
           | _ \<Rightarrow> False)"

section \<open>Lists of entries\<close>

lemma special_paths_share_target_refl [simp]: "special_paths_share_target v v"
  by (cases v) (simp_all add: opt_path_eq_def path_eq_def split: option.split)

lemma file_system_path_eq_refl [simp]: "file_system_path_eq p p"
  by (cases p) (simp_all add: path_eq_def)

lemma entry_eq_refl [simp]: "entry_eq e e"
  by (simp add: entry_eq_def)

lemma set_push_entry: "set es \<subseteq> set (push_entry es e)" "set (push_entry es e) \<subseteq> insert e (set es)"
  "\<exists>x \<in> set (push_entry es e). entry_eq x e"
  by (auto simp: push_entry_def entries_contain_def list_ex_iff)

lemma set_push_entries: "set (foldl push_entry es xs) \<subseteq> set es \<union> set xs"
proof (induction xs arbitrary: es)
  case (Cons x xs)
  from Cons.IH [of "push_entry es x"] set_push_entry(2) [of es x] show ?case by auto
qed simp

lemma push_entries_keep: "set es \<subseteq> set (foldl push_entry es xs)"
proof (induction xs arbitrary: es)
  case (Cons x xs)
  from Cons.IH [of "push_entry es x"] set_push_entry(1) [of es x] show ?case by auto
qed simp

lemma push_entries_cover: "x \<in> set xs \<Longrightarrow> \<exists>y \<in> set (foldl push_entry es xs). entry_eq y x"
proof (induction xs arbitrary: es)
  case (Cons z xs)
  then show ?case using set_push_entry(3) [of es z] push_entries_keep [of "push_entry es z" xs] by auto
qed simp

lemma retain_eq:
  "snd (retain_constraining_deny_entries env es accepted cwd out retained) =
     foldl push_entry out (map (\<lambda>e. materialize_cwd_dependent_entry env e cwd)
       (filter (\<lambda>e. access e = Deny \<and> deny_entry_constrains_accepted_grant env e accepted cwd) es))"
  by (induction es arbitrary: out retained) (auto simp: Let_def)

section \<open>What an intersection lets read\<close>

lemma resolve_permission_path_eq:
  assumes "is_absolute cwd"
  shows "resolve_permission_path env p cwd = resolve_entry_path env p (host_abs env cwd)"
proof -
  have "is_normal_abs slash_tmp" unfolding is_normal_abs_def by (intro exI [of _ "[str ''tmp'']"]) code_simp
  with root_normal have "host_abs env [slash] = Some [slash]" "host_abs env slash_tmp = Some slash_tmp"
    by (simp_all add: host_abs_def)
  then show ?thesis
    using assms by (cases "(env, p, cwd)" rule: resolve_permission_path.cases)
      (auto simp: resolve_entry_path_def host_abs_cwd absolute_root_path_for_cwd_def ancestors_last opt_filter_def
        split: option.splits)
qed

lemma materialize_cases:
  assumes "is_absolute cwd"
  shows "access (materialize_cwd_dependent_entry env e cwd) = access e"
    and "resolve_entry env (host_abs env cwd) (materialize_cwd_dependent_entry env e cwd) = resolve_entry env (host_abs env cwd) e"
  using assms
  by (auto simp: materialize_cwd_dependent_entry_def entry_for_def resolve_entry_def resolve_entry_path_def
      split: file_system_path.splits special_path.splits option.splits)

text \<open>Entries that no longer depend on the working directory, with normal paths.\<close>

definition settled_entry :: "sandbox_entry \<Rightarrow> bool" where
  "settled_entry e \<longleftrightarrow>
     (case entry_path e of
        PathEntry p \<Rightarrow> is_normal_abs p
      | Special (ProjectRoots _) \<Rightarrow> False
      | _ \<Rightarrow> True)"

lemma materialize_settled:
  assumes "is_absolute cwd" "\<And>p. entry_path e = PathEntry p \<Longrightarrow> is_normal_abs p"
  shows "settled_entry (materialize_cwd_dependent_entry env e cwd)"
  using assms host_join_normal [OF normalize_path_absolute [OF assms(1)]] normalize_path_absolute [OF assms(1)]
  by (auto simp: materialize_cwd_dependent_entry_def settled_entry_def entry_for_def host_abs_cwd
      split: file_system_path.splits special_path.splits option.splits)

lemma settled_eq_resolve:
  assumes "entry_eq x y" "settled_entry x" "settled_entry y"
  shows "resolve_entry env c x = resolve_entry env c y"
proof (cases "(entry_path x, entry_path y)" rule: file_system_path_eq.cases)
  case (1 p q)
  with assms show ?thesis by (auto simp: entry_eq_def settled_entry_def resolve_entry_def resolve_entry_path_def path_eq_normal)
next
  case (3 p q)
  with assms show ?thesis
    by (cases "(p, q)" rule: special_paths_share_target.cases)
      (auto simp: entry_eq_def settled_entry_def resolve_entry_def resolve_entry_path_def)
qed (use assms in \<open>auto simp: entry_eq_def resolve_entry_def resolve_entry_path_def\<close>)

definition request_matcher :: "path_globs \<Rightarrow> host_env \<Rightarrow> file_system_permissions \<Rightarrow> ustr \<Rightarrow> read_deny_matcher option" where
  "request_matcher lib env requested cwd =
     (case matcher_new lib env (restricted (fsp_entries requested)) cwd of
        Ok m \<Rightarrow> m | _ \<Rightarrow> None)"

definition accepted_grants ::
  "path_globs \<Rightarrow> host_env \<Rightarrow> file_system_permissions \<Rightarrow> file_system_permissions \<Rightarrow> ustr \<Rightarrow> sandbox_entry list" where
  "accepted_grants lib env requested granted cwd =
     accepted_entries lib env requested (restricted (fsp_entries requested)) (request_matcher lib env requested cwd)
       (fsp_entries granted) cwd"

definition constraining ::
  "path_globs \<Rightarrow> host_env \<Rightarrow> file_system_permissions \<Rightarrow> file_system_permissions \<Rightarrow> ustr \<Rightarrow> sandbox_entry list \<Rightarrow> sandbox_entry list" where
  "constraining lib env requested granted cwd es =
     map (\<lambda>e. materialize_cwd_dependent_entry env e cwd)
       (filter (\<lambda>e. access e = Deny \<and> deny_entry_constrains_accepted_grant env e (accepted_grants lib env requested granted cwd) cwd) es)"

lemma intersect_entries:
  "\<exists>r. intersect_file_system lib env requested granted cwd = Ok r \<and>
     fsp_entries r = foldl push_entry (accepted_grants lib env requested granted cwd)
       (constraining lib env requested granted cwd (fsp_entries requested @ fsp_entries granted))"
proof -
  have "matcher_new lib env (restricted (fsp_entries requested)) cwd = Ok (request_matcher lib env requested cwd)"
    by (simp add: request_matcher_def matcher_new_eq)
  then show ?thesis
    by (simp add: intersect_file_system_def constraining_def Let_def retain_eq split_beta flip: accepted_grants_def)
qed

lemma intersect_ok: "intersect_file_system lib env requested granted cwd = Ok r \<Longrightarrow>
    fsp_entries r = foldl push_entry (accepted_grants lib env requested granted cwd)
      (constraining lib env requested granted cwd (fsp_entries requested @ fsp_entries granted))"
  using intersect_entries [of lib env requested granted cwd] by auto

lemma in_accepted_grants:
  assumes "e \<in> set (accepted_grants lib env requested granted cwd)"
  obtains g where "g \<in> set (fsp_entries granted)" "e = materialize_cwd_dependent_entry env g cwd"
    "granted_file_system_entry_within_request lib env requested (restricted (fsp_entries requested))
       (request_matcher lib env requested cwd) g cwd"
  using assms set_push_entries by (fastforce simp: accepted_grants_def accepted_entries_def)

lemma in_constraining:
  assumes "e \<in> set (constraining lib env requested granted cwd es)" "is_absolute cwd"
  obtains d where "d \<in> set es" "e = materialize_cwd_dependent_entry env d cwd" "access d = Deny" "access e = Deny"
  using assms by (auto simp: constraining_def materialize_cases)

lemma resolved_restricted:
  "r \<in> set (resolved_entries_with_cwd env (restricted es) cwd) \<longleftrightarrow>
     (\<exists>e \<in> set es. resolve_entry env (host_abs env cwd) e = Some r)"
  by (simp add: resolved_entry_iff restricted_def)

lemma resolve_entry_access: "resolve_entry env c e = Some r \<Longrightarrow> resolved_access r = access e
    \<and> resolve_entry_path env (entry_path e) c = Some (resolved_path r)"
  by (auto simp: resolve_entry_def)

text \<open>The readable entries of the intersection are granted, and the request covers them.\<close>

lemma intersect_readable:
  assumes "is_absolute cwd" "intersect_file_system lib env requested granted cwd = Ok i"
    and "r \<in> set (resolved_entries_with_cwd env (restricted (fsp_entries i)) cwd)" "resolved_access r \<noteq> Deny"
  obtains e where "e \<in> set (accepted_grants lib env requested granted cwd)" "resolve_entry env (host_abs env cwd) e = Some r"
    "r \<in> set (resolved_entries_with_cwd env (restricted (fsp_entries granted)) cwd)"
    "can_read (resolve_access_with_cwd env (restricted (fsp_entries requested)) (resolved_path r) cwd)"
proof -
  obtain e where e: "e \<in> set (fsp_entries i)" "resolve_entry env (host_abs env cwd) e = Some r"
    using assms(3) by (auto simp: resolved_restricted)
  have acc: "access e \<noteq> Deny" using e(2) assms(4) resolve_entry_access by fastforce
  then have "e \<notin> set (constraining lib env requested granted cwd es)" for es
    using in_constraining [OF _ assms(1)] by metis
  then have a: "e \<in> set (accepted_grants lib env requested granted cwd)"
    using e(1) set_push_entries unfolding intersect_ok [OF assms(2)] by fastforce
  then obtain g where g: "g \<in> set (fsp_entries granted)" "e = materialize_cwd_dependent_entry env g cwd"
    "granted_file_system_entry_within_request lib env requested (restricted (fsp_entries requested))
       (request_matcher lib env requested cwd) g cwd" by (rule in_accepted_grants)
  have res: "resolve_entry env (host_abs env cwd) g = Some r"
    using e(2) g(2) materialize_cases(2) [OF assms(1)] by simp
  then have "resolve_permission_path env (entry_path g) cwd = Some (resolved_path r)" "resolved_access r = access g"
    by (simp_all add: resolve_permission_path_eq [OF assms(1)] resolve_entry_access)
  with g(3) assms(4) have "can_read (resolve_access_with_cwd env (restricted (fsp_entries requested)) (resolved_path r) cwd)"
    by (cases "access g") (auto simp: granted_file_system_entry_within_request_def can_read_def can_write_def split: if_splits)
  with that [OF a e(2)] g(1) res show ?thesis by (auto simp: resolved_restricted)
qed

text \<open>Every denial that overlaps a readable entry of the intersection is part of it.\<close>

lemma intersect_denials:
  assumes "is_absolute cwd" "intersect_file_system lib env requested granted cwd = Ok i"
    and ok: "policy_ok (restricted (fsp_entries requested))" "policy_ok (restricted (fsp_entries granted))"
    and "r \<in> set (resolved_entries_with_cwd env (restricted (fsp_entries i)) cwd)" "resolved_access r \<noteq> Deny"
    and d: "d \<in> set (resolved_entries_with_cwd env (restricted (fsp_entries requested @ fsp_entries granted)) cwd)"
      "resolved_access d = Deny" "paths_overlap (resolved_path d) (resolved_path r)"
  shows "d \<in> set (resolved_entries_with_cwd env (restricted (fsp_entries i)) cwd)"
proof -
  let ?es = "fsp_entries requested @ fsp_entries granted"
  obtain e where e: "e \<in> set (accepted_grants lib env requested granted cwd)" "resolve_entry env (host_abs env cwd) e = Some r"
    using intersect_readable [OF assms(1,2,5,6)] .
  obtain x where x: "x \<in> set ?es" "resolve_entry env (host_abs env cwd) x = Some d"
    using d(1) by (auto simp: resolved_restricted)
  have "access e \<noteq> Deny" using resolve_entry_access [OF e(2)] assms(6) by simp
  moreover have "resolve_permission_path env (entry_path e) cwd = Some (resolved_path r)"
    "resolve_permission_path env (entry_path x) cwd = Some (resolved_path d)"
    using e(2) x(2) by (simp_all add: resolve_permission_path_eq [OF assms(1)] resolve_entry_access)
  ultimately have "deny_entry_constrains_accepted_grant env x (accepted_grants lib env requested granted cwd) cwd"
    using e(1) d(3) unfolding deny_entry_constrains_accepted_grant_def list_ex_iff
    by (intro bexI [of _ e]) (auto simp: can_read_def split: file_system_path.splits)
  moreover have "access x = Deny" using resolve_entry_access [OF x(2)] d(2) by simp
  ultimately have "materialize_cwd_dependent_entry env x cwd \<in> set (constraining lib env requested granted cwd ?es)"
    using x(1) by (auto simp: constraining_def)
  then obtain y where y: "y \<in> set (fsp_entries i)" "entry_eq y (materialize_cwd_dependent_entry env x cwd)"
    using push_entries_cover unfolding intersect_ok [OF assms(2)] by blast
  have normal: "settled_entry (materialize_cwd_dependent_entry env z cwd)" if "z \<in> set ?es" for z
    using ok that by (intro materialize_settled [OF assms(1)]) (auto simp: policy_ok_def restricted_def)
  have "settled_entry y"
    using y(1) set_push_entries normal unfolding intersect_ok [OF assms(2)]
    by (fastforce elim: in_accepted_grants in_constraining [OF _ assms(1)])
  from settled_eq_resolve [OF y(2) this normal [OF x(1)], of env "host_abs env cwd"] y(1) x(2)
  show ?thesis by (auto simp: resolved_restricted materialize_cases(2) [OF assms(1)])
qed

text \<open>A path that a policy denies although one of its entries contains it is denied by an entry.\<close>

lemma denying_entry:
  assumes "sandbox_kind policy = Restricted" "resolve_candidate_path env path cwd = Some target"
    and "\<not> can_read_path_with_cwd env policy path cwd" "matching_entries env policy cwd target \<noteq> []"
  obtains d where "d \<in> set (matching_entries env policy cwd target)" "resolved_access d = Deny"
    "\<forall>f \<in> set (matching_entries env policy cwd target). specificity f \<le> specificity d"
  using assms(1,2)
proof (cases rule: resolve_access_cases)
  case (entry e)
  with assms(3) have "resolved_access e = Deny" by (auto simp: can_read_path_with_cwd_def can_read_def)
  with that entry(1,3) show ?thesis by fastforce
qed (use assms(4) in simp)

lemma reading_entry:
  assumes "sandbox_kind policy = Restricted" "resolve_candidate_path env path cwd = Some target"
    and "can_read_path_with_cwd env policy path cwd"
  obtains r where "r \<in> set (matching_entries env policy cwd target)" "resolved_access r \<noteq> Deny"
    "\<forall>f \<in> set (matching_entries env policy cwd target).
       specificity f < specificity r \<or> specificity f = specificity r \<and> resolved_access f \<noteq> Deny"
  using assms(1,2)
proof (cases rule: resolve_access_cases)
  case (entry e)
  with assms(3) have "resolved_access e \<noteq> Deny" by (auto simp: can_read_path_with_cwd_def can_read_def)
  moreover have "\<not> Deny \<le> resolved_access e" using calculation by (cases "resolved_access e") (simp_all add: less_eq_access_mode_def)
  ultimately show ?thesis using that entry(1,3) by metis
qed (use assms(3) in \<open>simp add: can_read_path_with_cwd_def can_read_def\<close>)

lemma starts_with_shorter:
  assumes "path_starts_with p a" "path_starts_with p b" "length (components a) \<le> length (components b)"
  shows "path_starts_with b a"
  using path_starts_with_comparable [OF assms(1,2)] assms(3) by (auto simp: path_starts_with_def starts_with_iff)

text \<open>
  A policy with a denial that is not one of the intersection does not deny what the intersection lets read: the
  argument is the same for the request and the grant.
\<close>

lemma intersect_reads:
  assumes abs: "is_absolute cwd" and i: "intersect_file_system lib env requested granted cwd = Ok i"
    and ok: "policy_ok (restricted (fsp_entries requested))" "policy_ok (restricted (fsp_entries granted))" "env_ok env"
    and "can_read_path_with_cwd env (restricted (fsp_entries i)) path cwd"
  shows "can_read_path_with_cwd env (restricted (fsp_entries requested)) path cwd
    \<and> can_read_path_with_cwd env (restricted (fsp_entries granted)) path cwd"
proof -
  let ?I = "restricted (fsp_entries i)" and ?R = "restricted (fsp_entries requested)" and ?G = "restricted (fsp_entries granted)"
  have kind: "sandbox_kind (restricted es) = Restricted" for es by (simp add: restricted_def)
  obtain target where target: "resolve_candidate_path env path cwd = Some target" using candidate_exists [OF abs] by blast
  obtain r where r: "r \<in> set (matching_entries env ?I cwd target)" "resolved_access r \<noteq> Deny"
    "\<forall>f \<in> set (matching_entries env ?I cwd target).
       specificity f < specificity r \<or> specificity f = specificity r \<and> resolved_access f \<noteq> Deny"
    using reading_entry [OF kind target assms(6)] .
  have rI: "r \<in> set (resolved_entries_with_cwd env ?I cwd)" and rt: "path_starts_with target (resolved_path r)"
    using r(1) by (simp_all add: matching_entries_def)
  obtain e where rG: "r \<in> set (resolved_entries_with_cwd env ?G cwd)"
    and rR: "can_read (resolve_access_with_cwd env ?R (resolved_path r) cwd)"
    using intersect_readable [OF abs i rI r(2)] .
  have above: "specificity d < specificity r"
    if "d \<in> set (matching_entries env (restricted es) cwd target)" "resolved_access d = Deny"
      "set es \<subseteq> set (fsp_entries requested @ fsp_entries granted)" for d es
  proof -
    have d: "d \<in> set (resolved_entries_with_cwd env (restricted (fsp_entries requested @ fsp_entries granted)) cwd)"
      "path_starts_with target (resolved_path d)"
      using that by (auto simp: matching_entries_def resolved_restricted)
    have "paths_overlap (resolved_path d) (resolved_path r)"
      using path_starts_with_comparable [OF d(2) rt] by (auto simp: paths_overlap_def)
    from intersect_denials [OF abs i ok(1,2) rI r(2) d(1) that(2) this] r(3) d(2) that(2)
    show ?thesis by (auto simp: matching_entries_def)
  qed
  have "can_read_path_with_cwd env ?G path cwd"
  proof (rule ccontr)
    have "r \<in> set (matching_entries env ?G cwd target)" using rG rt by (simp add: matching_entries_def)
    moreover assume "\<not> can_read_path_with_cwd env ?G path cwd"
    ultimately obtain d where "d \<in> set (matching_entries env ?G cwd target)" "resolved_access d = Deny"
      "specificity r \<le> specificity d"
      using denying_entry [OF kind target] by (metis empty_iff list.set(1))
    with above [of d "fsp_entries granted"] show False by simp
  qed
  moreover have "can_read_path_with_cwd env ?R path cwd"
  proof (rule ccontr)
    have normal: "is_normal_abs (resolved_path r)" using resolved_path_normal [OF ok(2,3) abs rG] .
    have "can_read_path_with_cwd env ?R (resolved_path r) cwd" using rR by (simp add: can_read_path_with_cwd_def)
    then obtain m where m: "m \<in> set (matching_entries env ?R cwd (resolved_path r))" "resolved_access m \<noteq> Deny"
      "\<forall>f \<in> set (matching_entries env ?R cwd (resolved_path r)).
         specificity f < specificity m \<or> specificity f = specificity m \<and> resolved_access f \<noteq> Deny"
      by (rule reading_entry [OF kind candidate_normal [OF normal]])
    have mt: "m \<in> set (matching_entries env ?R cwd target)"
      using m(1) rt by (auto simp: matching_entries_def intro: path_starts_with_trans)
    assume "\<not> can_read_path_with_cwd env ?R path cwd"
    then obtain d where d: "d \<in> set (matching_entries env ?R cwd target)" "resolved_access d = Deny"
      "specificity m \<le> specificity d"
      using denying_entry [OF kind target] mt by (metis empty_iff list.set(1))
    have "specificity d < specificity r" using above [of d "fsp_entries requested"] d by simp
    moreover have "path_starts_with target (resolved_path d)" using d(1) by (simp add: matching_entries_def)
    ultimately have "path_starts_with (resolved_path r) (resolved_path d)"
      using starts_with_shorter [OF _ rt] by (simp add: specificity_def)
    with d(1) have "d \<in> set (matching_entries env ?R cwd (resolved_path r))" by (simp add: matching_entries_def)
    with m(3) d(2,3) show False by auto
  qed
  ultimately show ?thesis by blast
qed

text \<open>The entries of an overlay; one without a file system part has none.\<close>

definition overlay_entries :: "additional_permission_profile option \<Rightarrow> sandbox_entry list" where
  "overlay_entries additional = (case Option.bind additional overlay_file_system of Some p \<Rightarrow> fsp_entries p | None \<Rightarrow> [])"

lemma nothing_readable: "\<not> can_read_path_with_cwd env (restricted []) path cwd"
proof -
  have "resolved_entries_with_cwd env (restricted []) cwd = []"
    by (simp add: resolved_entries_with_cwd_def restricted_def List.map_filter_simps)
  then show ?thesis
    by (simp add: can_read_path_with_cwd_def resolve_access_with_cwd_def can_read_def restricted_def split: option.split)
qed

text \<open>
  C12: a grant never reaches beyond the request. When a client answers a request for permissions with a grant of its own,
  with or without a file system part, what the agent gets lets a path be read only if both the request and the grant let it be
  read, and opens the network only if both do.
\<close>

theorem intersection_confined:
  assumes "is_absolute cwd" "env_ok env" "intersect_permission_profiles lib env requested granted cwd = Ok i"
    and "policy_ok (restricted (overlay_entries (Some requested)))" "policy_ok (restricted (overlay_entries (Some granted)))"
  shows "(can_read_path_with_cwd env (restricted (overlay_entries (Some i))) path cwd \<longrightarrow>
        can_read_path_with_cwd env (restricted (overlay_entries (Some requested))) path cwd
        \<and> can_read_path_with_cwd env (restricted (overlay_entries (Some granted))) path cwd)
    \<and> (effective_network_sandbox_policy NetworkRestricted (Some i) = NetworkEnabled \<longrightarrow>
        effective_network_sandbox_policy NetworkRestricted (Some requested) = NetworkEnabled
        \<and> effective_network_sandbox_policy NetworkRestricted (Some granted) = NetworkEnabled)"
proof (intro conjI impI)
  let ?gr = "case overlay_file_system granted of Some g \<Rightarrow> g | None \<Rightarrow> \<lparr>fsp_entries = [], fsp_glob_scan_max_depth = None\<rparr>"
  have gr: "fsp_entries ?gr = overlay_entries (Some granted)" by (simp add: overlay_entries_def split: option.split)
  assume read: "can_read_path_with_cwd env (restricted (overlay_entries (Some i))) path cwd"
  then obtain perms where perms: "overlay_file_system i = Some perms"
    using nothing_readable by (auto simp: overlay_entries_def split: option.splits)
  then obtain rq where rq: "overlay_file_system requested = Some rq" "intersect_file_system lib env rq ?gr cwd = Ok perms"
    using assms(3) by (auto simp: intersect_permission_profiles_def obind_iffs opt_filter_def Let_def split: if_splits option.splits)
  show "can_read_path_with_cwd env (restricted (overlay_entries (Some requested))) path cwd"
    "can_read_path_with_cwd env (restricted (overlay_entries (Some granted))) path cwd"
    using intersect_reads [OF assms(1) rq(2) _ _ assms(2), of path] assms(4,5) read
    by (simp_all add: gr, simp_all add: overlay_entries_def rq(1) perms)
next
  have net: "overlay_network i \<noteq> None \<longrightarrow> overlay_network requested = Some \<lparr>net_enabled = Some True\<rparr>
      \<and> overlay_network granted = Some \<lparr>net_enabled = Some True\<rparr>"
    using assms(3) by (auto simp: intersect_permission_profiles_def obind_iffs split: if_split_asm)
  assume "effective_network_sandbox_policy NetworkRestricted (Some i) = NetworkEnabled"
  with net show "effective_network_sandbox_policy NetworkRestricted (Some requested) = NetworkEnabled"
    "effective_network_sandbox_policy NetworkRestricted (Some granted) = NetworkEnabled"
    by (auto simp: effective_network_sandbox_policy_def merge_network_access_def network_is_enabled_def split: if_splits)
qed

section \<open>What an overlay adds\<close>

lemma effective_entries_eq:
  "sandbox_kind policy = Restricted \<Longrightarrow>
   sandbox_kind (effective_file_system_sandbox_policy policy additional) = Restricted
   \<and> sandbox_entries (effective_file_system_sandbox_policy policy additional) =
       foldl push_entry (sandbox_entries policy) (overlay_entries additional)"
  by (auto simp: effective_file_system_sandbox_policy_def merge_file_system_policy_with_additional_permissions_def
      overlay_entries_def fsp_is_empty_def split: option.split)

lemma effective_matching:
  assumes "sandbox_kind policy = Restricted"
  shows "set (matching_entries env policy cwd target) \<subseteq>
      set (matching_entries env (effective_file_system_sandbox_policy policy additional) cwd target)"
    and "set (matching_entries env (effective_file_system_sandbox_policy policy additional) cwd target) \<subseteq>
      set (matching_entries env policy cwd target) \<union> set (matching_entries env (restricted (overlay_entries additional)) cwd target)"
  using effective_entries_eq [OF assms, of additional] set_push_entries [of "sandbox_entries policy" "overlay_entries additional"]
    push_entries_keep [of "sandbox_entries policy" "overlay_entries additional"]
  by (auto simp: matching_entries_def resolved_entry_iff restricted_def)

text \<open>
  An overlay opens what it names and no more. Without denials of its own it leaves readable what
  the policy lets read; and where it makes a denied path readable, one of its grants contains the path and lies
  strictly inside every directory the policy denies around it: a grant for the denied
  directory itself does not lift the denial.
\<close>

theorem overlay_reads:
  fixes additional :: "additional_permission_profile option"
  assumes "sandbox_kind policy = Restricted" "resolve_candidate_path env path cwd = Some target"
  defines "effective \<equiv> effective_file_system_sandbox_policy policy additional"
  shows "(can_read_path_with_cwd env policy path cwd \<and> list_all (\<lambda>e. access e \<noteq> Deny) (overlay_entries additional) \<longrightarrow>
        can_read_path_with_cwd env effective path cwd)
    \<and> (\<not> can_read_path_with_cwd env policy path cwd \<and> can_read_path_with_cwd env effective path cwd \<longrightarrow>
        (\<exists>g \<in> set (matching_entries env (restricted (overlay_entries additional)) cwd target).
           resolved_access g \<noteq> Deny
           \<and> (\<forall>d \<in> set (matching_entries env policy cwd target). resolved_access d = Deny \<longrightarrow> specificity d < specificity g)))"
proof (intro conjI impI)
  note sub = effective_matching [OF assms(1), where env = env and cwd = cwd and target = target and additional = additional, folded effective_def]
  have kind: "sandbox_kind effective = Restricted" using effective_entries_eq [OF assms(1)] by (simp add: effective_def)
  {
    assume *: "can_read_path_with_cwd env policy path cwd \<and> list_all (\<lambda>e. access e \<noteq> Deny) (overlay_entries additional)"
    obtain r where r: "r \<in> set (matching_entries env policy cwd target)" "resolved_access r \<noteq> Deny"
      "\<forall>f \<in> set (matching_entries env policy cwd target).
         specificity f < specificity r \<or> specificity f = specificity r \<and> resolved_access f \<noteq> Deny"
      using reading_entry [OF assms(1,2)] * by blast
    show "can_read_path_with_cwd env effective path cwd"
    proof (rule ccontr)
      assume "\<not> can_read_path_with_cwd env effective path cwd"
      then obtain d where d: "d \<in> set (matching_entries env effective cwd target)" "resolved_access d = Deny"
        "\<forall>f \<in> set (matching_entries env effective cwd target). specificity f \<le> specificity d"
        using denying_entry [OF kind assms(2)] r(1) sub(1) by (metis empty_iff list.set(1) subsetD)
      have "d \<notin> set (matching_entries env (restricted (overlay_entries additional)) cwd target)"
        using * d(2) by (auto simp: matching_entries_def resolved_restricted list_all_iff dest!: resolve_entry_access)
      with d sub r show False by fastforce
    qed
  }
  {
    assume *: "\<not> can_read_path_with_cwd env policy path cwd \<and> can_read_path_with_cwd env effective path cwd"
    obtain g where g: "g \<in> set (matching_entries env effective cwd target)" "resolved_access g \<noteq> Deny"
      "\<forall>f \<in> set (matching_entries env effective cwd target).
         specificity f < specificity g \<or> specificity f = specificity g \<and> resolved_access f \<noteq> Deny"
      using reading_entry [OF kind assms(2)] * by blast
    have "g \<notin> set (matching_entries env policy cwd target)"
    proof
      assume g': "g \<in> set (matching_entries env policy cwd target)"
      then obtain d where "d \<in> set (matching_entries env policy cwd target)" "resolved_access d = Deny"
        "specificity g \<le> specificity d"
        using denying_entry [OF assms(1,2)] * by (metis empty_iff list.set(1))
      with g(3) sub(1) show False by fastforce
    qed
    with g sub show "\<exists>g \<in> set (matching_entries env (restricted (overlay_entries additional)) cwd target).
           resolved_access g \<noteq> Deny
           \<and> (\<forall>d \<in> set (matching_entries env policy cwd target). resolved_access d = Deny \<longrightarrow> specificity d < specificity g)"
      by (intro bexI [of _ g]) auto
  }
qed

section \<open>Examples\<close>

definition write_request :: additional_permission_profile where
  "write_request = \<lparr>overlay_network = None, overlay_file_system = Some \<lparr>fsp_entries =
     [entry_for (PathEntry (str ''/w'')) Write, entry_for (PathEntry (str ''/w/sub'')) Read,
      entry_for (PathEntry (str ''/w/secret'')) Deny], fsp_glob_scan_max_depth = None\<rparr>\<rparr>"

definition write_grant :: additional_permission_profile where
  "write_grant = \<lparr>overlay_network = None, overlay_file_system = Some \<lparr>fsp_entries =
     [entry_for (PathEntry (str ''/w'')) Write], fsp_glob_scan_max_depth = None\<rparr>\<rparr>"

definition agreed :: file_system_permissions where
  "agreed = \<lparr>fsp_entries = [entry_for (PathEntry (str ''/w'')) Write, entry_for (PathEntry (str ''/w/secret'')) Deny],
     fsp_glob_scan_max_depth = None\<rparr>"

text \<open>
  The intersection forgets a carve-out of the request: the request lets \<open>/w/sub\<close> be read only, the
  intersection lets it be written.
\<close>

lemma carveout_forgotten:
  "intersect_permission_profiles no_globs plain_host write_request write_grant (str ''/w'') =
     Ok \<lparr>overlay_network = None, overlay_file_system = Some agreed\<rparr>
   \<and> \<not> can_write_path_with_cwd plain_host (restricted (fsp_entries (the (overlay_file_system write_request)))) (str ''/w/sub/x'') (str ''/w'')
   \<and> can_write_path_with_cwd plain_host (restricted (fsp_entries agreed)) (str ''/w/sub/x'') (str ''/w'')"
  by code_simp

text \<open>An overlay that grants the reading of a directory takes the right to write it away.\<close>

lemma read_grant_narrows_write:
  "let policy = restricted [entry_for (Special Root) Read, entry_for (PathEntry (str ''/w'')) Write];
       overlay = \<lparr>overlay_network = None, overlay_file_system = Some \<lparr>fsp_entries =
         [entry_for (PathEntry (str ''/w/sub'')) Read], fsp_glob_scan_max_depth = None\<rparr>\<rparr>
   in can_write_path_with_cwd plain_host policy (str ''/w/sub/x'') (str ''/w'')
      \<and> \<not> can_write_path_with_cwd plain_host (effective_file_system_sandbox_policy policy (Some overlay)) (str ''/w/sub/x'') (str ''/w'')"
  by code_simp

lemma normal_w: "is_normal_abs (str ''/w'')" "is_normal_abs (str ''/w/sub'')" "is_normal_abs (str ''/w/secret'')"
  "is_normal_abs (str ''/w/secret/key'')"
  unfolding is_normal_abs_def
  by (intro exI [of _ "[str ''w'']"], code_simp) (intro exI [of _ "[str ''w'', str ''sub'']"], code_simp,
    intro exI [of _ "[str ''w'', str ''secret'']"], code_simp, intro exI [of _ "[str ''w'', str ''secret'', str ''key'']"], code_simp)

definition network_only :: additional_permission_profile where
  "network_only = \<lparr>overlay_network = Some \<lparr>net_enabled = Some True\<rparr>, overlay_file_system = None\<rparr>"

theorem intersection_confined_witness:
  "can_read_path_with_cwd plain_host (restricted (fsp_entries agreed)) (str ''/w/sub/x'') (str ''/w'')
   \<and> can_read_path_with_cwd plain_host (restricted (overlay_entries (Some write_request))) (str ''/w/sub/x'') (str ''/w'')
   \<and> can_read_path_with_cwd plain_host (restricted (overlay_entries (Some write_grant))) (str ''/w/sub/x'') (str ''/w'')
   \<and> intersect_permission_profiles no_globs plain_host network_only network_only (str ''/w'') = Ok network_only
   \<and> effective_network_sandbox_policy NetworkRestricted (Some network_only) = NetworkEnabled"
proof -
  have i: "intersect_permission_profiles no_globs plain_host write_request write_grant (str ''/w'') =
     Ok \<lparr>overlay_network = None, overlay_file_system = Some agreed\<rparr>" by code_simp
  have n: "intersect_permission_profiles no_globs plain_host network_only network_only (str ''/w'') = Ok network_only"
    "effective_network_sandbox_policy NetworkRestricted (Some network_only) = NetworkEnabled" by code_simp+
  have "is_absolute (str ''/w'')" by code_simp
  moreover have "env_ok plain_host" by (simp add: env_ok_def plain_host_def)
  moreover have "policy_ok (restricted (overlay_entries (Some write_request)))" "policy_ok (restricted (overlay_entries (Some write_grant)))"
    "policy_ok (restricted (overlay_entries (Some network_only)))"
    using normal_w by (auto simp: policy_ok_def overlay_entries_def write_request_def write_grant_def network_only_def
        restricted_def entry_for_def)
  moreover have "can_read_path_with_cwd plain_host (restricted (fsp_entries agreed)) (str ''/w/sub/x'') (str ''/w'')" by code_simp
  moreover have "overlay_entries (Some \<lparr>overlay_network = None, overlay_file_system = Some agreed\<rparr>) = fsp_entries agreed"
    by (simp add: overlay_entries_def)
  ultimately show ?thesis
    using intersection_confined [OF _ _ i, of "str ''/w/sub/x''"] intersection_confined [OF _ _ n(1)] n by simp
qed

definition key_overlay :: "additional_permission_profile option" where
  "key_overlay = Some \<lparr>overlay_network = None, overlay_file_system = Some \<lparr>fsp_entries =
     [entry_for (PathEntry (str ''/w/secret/key'')) Read], fsp_glob_scan_max_depth = None\<rparr>\<rparr>"

theorem overlay_reads_witness:
  "\<not> can_read_path_with_cwd plain_host secret_policy (str ''/w/secret/key'') (str ''/w'')
   \<and> can_read_path_with_cwd plain_host (effective_file_system_sandbox_policy secret_policy key_overlay) (str ''/w/secret/key'') (str ''/w'')
   \<and> (\<exists>g \<in> set (matching_entries plain_host (restricted (overlay_entries key_overlay)) (str ''/w'') (str ''/w/secret/key'')).
        resolved_access g \<noteq> Deny)"
proof -
  have "sandbox_kind secret_policy = Restricted" by code_simp
  moreover have "resolve_candidate_path plain_host (str ''/w/secret/key'') (str ''/w'') = Some (str ''/w/secret/key'')" by code_simp
  moreover have "\<not> can_read_path_with_cwd plain_host secret_policy (str ''/w/secret/key'') (str ''/w'')" by code_simp
  moreover have "can_read_path_with_cwd plain_host (effective_file_system_sandbox_policy secret_policy key_overlay)
      (str ''/w/secret/key'') (str ''/w'')" by code_simp
  ultimately show ?thesis using overlay_reads [of secret_policy plain_host "str ''/w/secret/key''" "str ''/w''"] by blast
qed

end
