(* ===== verification/Network_Approval.thy ===== *)
theory Network_Approval
  imports Approval_Policy "HOL-Library.AList"
begin

text \<open>
  The approval of network access (\<open>codex-rs/core/src/tools/network_approval.rs\<close> with
  \<open>network_policy_decision.rs\<close> and the decision types of \<open>codex-rs/network-proxy/src/network_policy.rs\<close>).
  Requests of the proxy run concurrently; each lock of the service is taken for one step, so a request is
  a little machine whose steps interleave with those of other requests. What the session, the hooks and
  the reviewer answer is an input of the machine. The shared \<open>PendingHostApproval\<close> objects are cells of
  a store; a cancellation token is the id of its call. Storing a network rule after an answer is a matter
  of the session and does not change the service.
\<close>

section \<open>Decisions\<close>

datatype network_protocol = ProxyHttp | ProxyHttpsConnect | ProxySocks5Tcp | ProxySocks5Udp

datatype network_approval_protocol = ApproveHttp | ApproveHttps | ApproveSocks5Tcp | ApproveSocks5Udp

datatype network_decision_source = BaselinePolicy | ModeGuard | ProxyState | Decider

datatype network_policy_decision = PolicyDeny | PolicyAsk

datatype network_decision =
    NetworkAllow
  | NetworkDeny ustr network_decision_source network_policy_decision

definition REASON_POLICY_DENIED :: ustr where "REASON_POLICY_DENIED = str ''policy_denied''"

definition deny_with_source :: "ustr \<Rightarrow> network_decision_source \<Rightarrow> network_decision" where
  "deny_with_source reason source =
     NetworkDeny (if reason = [] then REASON_POLICY_DENIED else reason) source PolicyDeny"

definition network_deny :: "ustr \<Rightarrow> network_decision" where
  "network_deny reason = deny_with_source reason Decider"

datatype network_policy_rule_action = RuleAllow | RuleDeny

record network_policy_amendment =
  amendment_host :: ustr
  amendment_action :: network_policy_rule_action

datatype review_decision =
    Approved
  | ApprovedExecpolicyAmendment exec_policy_amendment
  | ApprovedForSession
  | NetworkPolicyAmendment network_policy_amendment
  | ReviewDenied
  | TimedOut
  | Abort

datatype pending_approval_decision = AllowOnce | AllowForSession | DenyPending

definition to_network_decision :: "pending_approval_decision \<Rightarrow> network_decision" where
  "to_network_decision d =
     (case d of DenyPending \<Rightarrow> network_deny (str ''not_allowed'') | _ \<Rightarrow> NetworkAllow)"

datatype network_approval_outcome = DeniedByUser | DeniedByPolicy ustr

definition network_approval_outcome_to_result :: "network_approval_outcome option \<Rightarrow> (unit, ustr) outcome" where
  "network_approval_outcome_to_result oc =
     (case oc of
        Some DeniedByUser \<Rightarrow> Err (str ''rejected by user'')
      | Some (DeniedByPolicy message) \<Rightarrow> Err message
      | None \<Rightarrow> Ok ())"

section \<open>The service\<close>

record network_policy_request =
  request_protocol :: network_protocol
  request_host :: ustr
  request_port :: nat
  request_client_addr :: "ustr option"
  request_method :: "ustr option"
  request_command :: "ustr option"
  request_exec_policy_hint :: "ustr option"

definition approval_protocol :: "network_protocol \<Rightarrow> network_approval_protocol" where
  "approval_protocol p =
     (case p of
        ProxyHttp \<Rightarrow> ApproveHttp | ProxyHttpsConnect \<Rightarrow> ApproveHttps
      | ProxySocks5Tcp \<Rightarrow> ApproveSocks5Tcp | ProxySocks5Udp \<Rightarrow> ApproveSocks5Udp)"

definition protocol_key_label :: "network_approval_protocol \<Rightarrow> ustr" where
  "protocol_key_label p =
     (case p of
        ApproveHttp \<Rightarrow> str ''http'' | ApproveHttps \<Rightarrow> str ''https''
      | ApproveSocks5Tcp \<Rightarrow> str ''socks5-tcp'' | ApproveSocks5Udp \<Rightarrow> str ''socks5-udp'')"

record host_approval_key =
  key_host :: ustr
  key_protocol :: ustr
  key_port :: nat

definition from_request :: "network_policy_request \<Rightarrow> network_approval_protocol \<Rightarrow> host_approval_key" where
  "from_request request protocol =
     \<lparr>key_host = to_ascii_lowercase (request_host request), key_protocol = protocol_key_label protocol,
      key_port = request_port request\<rparr>"

definition request_key :: "network_policy_request \<Rightarrow> host_approval_key" where
  "request_key request = from_request request (approval_protocol (request_protocol request))"

record 't active_call =
  call_turn_id :: ustr
  call_trigger :: 't
  call_command :: ustr

record 't network_approval_service =
  active_calls :: "(ustr \<times> 't active_call) list"
  call_outcomes :: "ustr \<rightharpoonup> network_approval_outcome"
  pending_host_approvals :: "host_approval_key \<rightharpoonup> nat"
  pending_cells :: "nat \<Rightarrow> pending_approval_decision option"
  next_cell :: nat
  session_approved_hosts :: "host_approval_key set"
  session_denied_hosts :: "host_approval_key set"
  cancelled_calls :: "ustr set"

definition default_service :: "'t network_approval_service" where
  "default_service = \<lparr>active_calls = [], call_outcomes = Map.empty, pending_host_approvals = Map.empty,
     pending_cells = (\<lambda>_. None), next_cell = 0, session_approved_hosts = {}, session_denied_hosts = {},
     cancelled_calls = {}\<rparr>"

definition register_call :: "ustr \<Rightarrow> 't active_call \<Rightarrow> 't network_approval_service \<Rightarrow> 't network_approval_service" where
  "register_call registration_id call sv = sv\<lparr>active_calls := AList.update registration_id call (active_calls sv)\<rparr>"

definition remove_call ::
  "ustr \<Rightarrow> 't network_approval_service \<Rightarrow> network_approval_outcome option \<times> 't network_approval_service" where
  "remove_call registration_id sv =
     (call_outcomes sv registration_id,
      sv\<lparr>active_calls := AList.delete registration_id (active_calls sv),
         call_outcomes := (call_outcomes sv)(registration_id := None)\<rparr>)"

definition finish_call ::
  "ustr \<Rightarrow> 't network_approval_service \<Rightarrow> (unit, ustr) outcome \<times> 't network_approval_service" where
  "finish_call registration_id sv =
     (case remove_call registration_id sv of (oc, sv) \<Rightarrow> (network_approval_outcome_to_result oc, sv))"

definition resolve_single_active_call :: "'t network_approval_service \<Rightarrow> (ustr \<times> 't active_call) option" where
  "resolve_single_active_call sv = (case active_calls sv of [c] \<Rightarrow> Some c | _ \<Rightarrow> None)"

definition get_or_create_pending_approval ::
  "host_approval_key \<Rightarrow> 't network_approval_service \<Rightarrow> nat \<times> bool \<times> 't network_approval_service" where
  "get_or_create_pending_approval key sv =
     (case pending_host_approvals sv key of
        Some c \<Rightarrow> (c, False, sv)
      | None \<Rightarrow>
          let c = next_cell sv in
          (c, True, sv\<lparr>pending_host_approvals := (pending_host_approvals sv)(key \<mapsto> c),
             pending_cells := (pending_cells sv)(c := None), next_cell := Suc c\<rparr>))"

definition record_call_outcome ::
  "ustr \<Rightarrow> network_approval_outcome \<Rightarrow> 't network_approval_service \<Rightarrow> 't network_approval_service" where
  "record_call_outcome registration_id oc sv =
     (if map_of (active_calls sv) registration_id = None \<or> call_outcomes sv registration_id = Some DeniedByUser then sv
      else sv\<lparr>call_outcomes := (call_outcomes sv)(registration_id \<mapsto> oc),
              cancelled_calls := insert registration_id (cancelled_calls sv)\<rparr>)"

definition sync_session_approved_hosts_to ::
  "'t network_approval_service \<Rightarrow> 't network_approval_service \<Rightarrow> 't network_approval_service" where
  "sync_session_approved_hosts_to sv other = other\<lparr>session_approved_hosts := session_approved_hosts sv\<rparr>"

definition allows_network_approval_flow :: "ask_for_approval \<Rightarrow> bool" where
  "allows_network_approval_flow approval \<longleftrightarrow> approval \<noteq> Never"

definition permission_profile_allows_network_approval_flow :: "permission_profile \<Rightarrow> bool" where
  "permission_profile_allows_network_approval_flow profile \<longleftrightarrow> (case profile of Managed _ _ \<Rightarrow> True | _ \<Rightarrow> False)"

definition format_network_target :: "ustr \<Rightarrow> ustr \<Rightarrow> nat \<Rightarrow> ustr" where
  "format_network_target protocol host port = protocol @ str ''://'' @ host @ str '':'' @ show_nat port"

definition policy_denial_message :: "network_policy_request \<Rightarrow> ustr" where
  "policy_denial_message request =
     str ''Network access to \"'' @
     format_network_target (key_protocol (request_key request)) (request_host request) (request_port request) @
     str ''\" was blocked by policy.''"

section \<open>One request\<close>

text \<open>The steps that remain after the answer, each under its own lock.\<close>

datatype settle_action =
    RecordOwner ustr network_approval_outcome
  | RecordSingle network_approval_outcome
  | RemoveDenied host_approval_key
  | InsertApproved host_approval_key
  | RemoveApproved host_approval_key
  | InsertDenied host_approval_key
  | SetDecision nat pending_approval_decision
  | RemovePending host_approval_key

definition exec_action ::
  "settle_action \<Rightarrow> 't network_approval_service \<Rightarrow> 't network_approval_service \<times> settle_action list" where
  "exec_action a sv =
     (case a of
        RecordOwner i oc \<Rightarrow> (record_call_outcome i oc sv, [])
      | RecordSingle oc \<Rightarrow>
          (case resolve_single_active_call sv of Some (i, _) \<Rightarrow> (sv, [RecordOwner i oc]) | None \<Rightarrow> (sv, []))
      | RemoveDenied k \<Rightarrow> (sv\<lparr>session_denied_hosts := session_denied_hosts sv - {k}\<rparr>, [])
      | InsertApproved k \<Rightarrow> (sv\<lparr>session_approved_hosts := insert k (session_approved_hosts sv)\<rparr>, [])
      | RemoveApproved k \<Rightarrow> (sv\<lparr>session_approved_hosts := session_approved_hosts sv - {k}\<rparr>, [])
      | InsertDenied k \<Rightarrow> (sv\<lparr>session_denied_hosts := insert k (session_denied_hosts sv)\<rparr>, [])
      | SetDecision c d \<Rightarrow> (sv\<lparr>pending_cells := (pending_cells sv)(c \<mapsto> d)\<rparr>, [])
      | RemovePending k \<Rightarrow> (sv\<lparr>pending_host_approvals := (pending_host_approvals sv)(k := None)\<rparr>, []))"

text \<open>
  What hooks or reviewer answer. A review by the guardian carries the message for its rejection; the
  message for its timeout is an argument.
\<close>

datatype answer =
    HookAllow
  | HookDeny ustr
  | Review "ustr option" review_decision

definition resolve_review ::
  "ustr \<Rightarrow> ustr option \<Rightarrow> review_decision \<Rightarrow> pending_approval_decision \<times> network_approval_outcome option \<times> bool" where
  "resolve_review timeout_message guardian d =
     (case d of
        Approved \<Rightarrow> (AllowOnce, None, False)
      | ApprovedExecpolicyAmendment _ \<Rightarrow> (AllowOnce, None, False)
      | ApprovedForSession \<Rightarrow> (AllowForSession, None, False)
      | NetworkPolicyAmendment a \<Rightarrow>
          (case amendment_action a of
             RuleAllow \<Rightarrow> (AllowForSession, None, False)
           | RuleDeny \<Rightarrow> (DenyPending, Some DeniedByUser, True))
      | TimedOut \<Rightarrow> (DenyPending, Some (DeniedByPolicy timeout_message), False)
      | _ \<Rightarrow>
          (DenyPending, Some (case guardian of Some message \<Rightarrow> DeniedByPolicy message | None \<Rightarrow> DeniedByUser), False))"

definition record_owner :: "ustr option \<Rightarrow> network_approval_outcome option \<Rightarrow> settle_action list" where
  "record_owner owner oc = (case (owner, oc) of (Some i, Some oc) \<Rightarrow> [RecordOwner i oc] | _ \<Rightarrow> [])"

definition settle ::
  "ustr \<Rightarrow> host_approval_key \<Rightarrow> nat \<Rightarrow> ustr option \<Rightarrow> answer \<Rightarrow> pending_approval_decision \<times> settle_action list" where
  "settle timeout_message key c owner a =
     (case a of
        HookAllow \<Rightarrow> (AllowOnce, [SetDecision c AllowOnce, RemovePending key])
      | HookDeny message \<Rightarrow>
          (DenyPending, record_owner owner (Some (DeniedByPolicy message)) @ [SetDecision c DenyPending, RemovePending key])
      | Review guardian d \<Rightarrow>
          (case resolve_review timeout_message guardian d of
             (resolved, oc, cache_session_deny) \<Rightarrow>
               (resolved,
                record_owner owner oc
                @ (if resolved = AllowForSession then [RemoveDenied key, InsertApproved key] else [])
                @ (if cache_session_deny then [RemoveApproved key, InsertDenied key] else [])
                @ [SetDecision c resolved, RemovePending key])))"

definition refuse_actions :: "network_policy_request \<Rightarrow> nat \<Rightarrow> settle_action list" where
  "refuse_actions request c =
     [SetDecision c DenyPending, RemovePending (request_key request),
      RecordSingle (DeniedByPolicy (policy_denial_message request))]"

datatype handler =
    CheckDenied
  | CheckApproved
  | GetPending
  | Waiting nat
  | Gate nat
  | Asking nat "ustr option" \<comment> \<open>cell, call that owns the request\<close>
  | Settling nat pending_approval_decision "settle_action list"
  | Returned network_decision

datatype input =
    NoInput
  | TurnIs "(permission_profile \<times> ask_for_approval) option"
  | AnswerIs answer

definition turn_permits_question :: "(permission_profile \<times> ask_for_approval) option \<Rightarrow> bool" where
  "turn_permits_question turn \<longleftrightarrow>
     (case turn of
        None \<Rightarrow> False
      | Some (profile, approval) \<Rightarrow>
          permission_profile_allows_network_approval_flow profile \<and> allows_network_approval_flow approval)"

fun handle_inline_policy_request ::
  "ustr \<Rightarrow> input \<Rightarrow> network_policy_request \<Rightarrow> handler \<Rightarrow> 't network_approval_service
    \<Rightarrow> (handler \<times> 't network_approval_service) option" where
  "handle_inline_policy_request tm NoInput request CheckDenied sv =
     Some (if request_key request \<in> session_denied_hosts sv then Returned (network_deny (str ''not_allowed''))
           else CheckApproved, sv)"
| "handle_inline_policy_request tm NoInput request CheckApproved sv =
     Some (if request_key request \<in> session_approved_hosts sv then Returned NetworkAllow else GetPending, sv)"
| "handle_inline_policy_request tm NoInput request GetPending sv =
     (case get_or_create_pending_approval (request_key request) sv of
        (c, is_owner, sv) \<Rightarrow> Some (if is_owner then Gate c else Waiting c, sv))"
| "handle_inline_policy_request tm NoInput request (Waiting c) sv =
     (case pending_cells sv c of Some d \<Rightarrow> Some (Returned (to_network_decision d), sv) | None \<Rightarrow> None)"
| "handle_inline_policy_request tm (TurnIs turn) request (Gate c) sv =
     Some (if turn_permits_question turn then Asking c (map_option fst (resolve_single_active_call sv))
           else Settling c DenyPending (refuse_actions request c), sv)"
| "handle_inline_policy_request tm (AnswerIs a) request (Asking c owner) sv =
     (case settle tm (request_key request) c owner a of (d, as) \<Rightarrow> Some (Settling c d as, sv))"
| "handle_inline_policy_request tm NoInput request (Settling c d []) sv = Some (Returned (to_network_decision d), sv)"
| "handle_inline_policy_request tm NoInput request (Settling c d (a # as)) sv =
     (case exec_action a sv of (sv, new) \<Rightarrow> Some (Settling c d (new @ as), sv))"
| "handle_inline_policy_request tm _ request _ sv = None"

section \<open>Requests that interleave\<close>

text \<open>
  The requests in progress, and a log of the answers that were given. Besides the steps of the requests,
  new requests arrive, and the calls of tools begin, end and record blocked requests.
\<close>

type_synonym process = "network_policy_request \<times> handler"
type_synonym 't approvals = "'t network_approval_service \<times> process list \<times> (host_approval_key \<times> answer) list"

definition answer_log :: "input \<Rightarrow> network_policy_request \<Rightarrow> (host_approval_key \<times> answer) list" where
  "answer_log inp request = (case inp of AnswerIs a \<Rightarrow> [(request_key request, a)] | _ \<Rightarrow> [])"

inductive request_step :: "ustr \<Rightarrow> 't approvals \<Rightarrow> 't approvals \<Rightarrow> bool" for tm where
  "i < length ps \<Longrightarrow> ps ! i = (request, h) \<Longrightarrow>
   handle_inline_policy_request tm inp request h sv = Some (h', sv') \<Longrightarrow>
   request_step tm (sv, ps, log) (sv', ps[i := (request, h')], answer_log inp request @ log)"

inductive approval_step :: "ustr \<Rightarrow> 't approvals \<Rightarrow> 't approvals \<Rightarrow> bool" for tm where
  request_steps: "request_step tm s t \<Longrightarrow> approval_step tm s t"
| request_arrives: "approval_step tm (sv, ps, log) (sv, ps @ [(request, CheckDenied)], log)"
| call_begins: "approval_step tm (sv, ps, log) (register_call r call sv, ps, log)"
| call_ends: "approval_step tm (sv, ps, log) (snd (remove_call r sv), ps, log)"
| outcome_recorded: "approval_step tm (sv, ps, log) (record_call_outcome r oc sv, ps, log)"

section \<open>The invariant\<close>

fun cell_of :: "handler \<Rightarrow> nat option" where
  "cell_of (Waiting c) = Some c"
| "cell_of (Gate c) = Some c"
| "cell_of (Asking c _) = Some c"
| "cell_of (Settling c _ _) = Some c"
| "cell_of _ = None"

definition removes_pending :: "settle_action \<Rightarrow> bool" where
  "removes_pending a \<longleftrightarrow> (case a of RemovePending _ \<Rightarrow> True | _ \<Rightarrow> False)"

fun cell_owned :: "handler \<Rightarrow> nat option" where
  "cell_owned (Gate c) = Some c"
| "cell_owned (Asking c _) = Some c"
| "cell_owned (Settling c d as) = (if list_ex removes_pending as then Some c else None)"
| "cell_owned _ = None"

fun cell_to_set :: "handler \<Rightarrow> nat option" where
  "cell_to_set (Gate c) = Some c"
| "cell_to_set (Asking c _) = Some c"
| "cell_to_set (Settling c d as) = (if SetDecision c d \<in> set as then Some c else None)"
| "cell_to_set _ = None"

fun action_ok :: "host_approval_key \<Rightarrow> nat \<Rightarrow> pending_approval_decision \<Rightarrow> settle_action \<Rightarrow> bool" where
  "action_ok key c d (RemovePending k) \<longleftrightarrow> k = key"
| "action_ok key c d (SetDecision c' d') \<longleftrightarrow> c' = c \<and> d' = d"
| "action_ok key c d (InsertApproved k) \<longleftrightarrow> k = key \<and> d \<noteq> DenyPending"
| "action_ok key c d _ \<longleftrightarrow> True"

fun binding :: "settle_action \<Rightarrow> bool" where
  "binding (SetDecision _ _) = True"
| "binding (RemovePending _) = True"
| "binding _ = False"

fun grants :: "host_approval_key set \<Rightarrow> host_approval_key \<Rightarrow> handler \<Rightarrow> bool" where
  "grants G key (Settling c d as) \<longleftrightarrow>
     distinct (filter binding as) \<and> list_all (action_ok key c d) as \<and> (d \<noteq> DenyPending \<longrightarrow> key \<in> G)"
| "grants G key (Returned d) \<longleftrightarrow> d = NetworkAllow \<longrightarrow> key \<in> G"
| "grants G key _ \<longleftrightarrow> True"

text \<open>\<open>f\<close> tells which host a cell was made for, \<open>G\<close> which hosts may be let through.\<close>

definition process_ok ::
  "(nat \<Rightarrow> host_approval_key) \<Rightarrow> host_approval_key set \<Rightarrow> 't network_approval_service \<Rightarrow> process \<Rightarrow> bool" where
  "process_ok f G sv p \<longleftrightarrow>
     (\<forall>c. cell_of (snd p) = Some c \<longrightarrow> c < next_cell sv \<and> f c = request_key (fst p))
     \<and> (\<forall>c. cell_owned (snd p) = Some c \<longrightarrow> pending_host_approvals sv (request_key (fst p)) = Some c)
     \<and> grants G (request_key (fst p)) (snd p)"

definition owned_cells :: "process list \<Rightarrow> nat list" where
  "owned_cells ps = List.map_filter (cell_owned \<circ> snd) ps"

definition cells_to_set :: "process list \<Rightarrow> nat list" where
  "cells_to_set ps = List.map_filter (cell_to_set \<circ> snd) ps"

definition service_ok ::
  "(nat \<Rightarrow> host_approval_key) \<Rightarrow> host_approval_key set \<Rightarrow> 't network_approval_service \<Rightarrow> nat list \<Rightarrow> nat list \<Rightarrow> bool" where
  "service_ok f G sv owned to_set \<longleftrightarrow>
     session_approved_hosts sv \<subseteq> G
     \<and> (\<forall>k c. pending_host_approvals sv k = Some c \<longrightarrow> c < next_cell sv \<and> f c = k \<and> c \<in> set owned)
     \<and> (\<forall>c d. c < next_cell sv \<longrightarrow> pending_cells sv c = Some d \<longrightarrow> d \<noteq> DenyPending \<longrightarrow> f c \<in> G)
     \<and> (\<forall>c. c < next_cell sv \<longrightarrow> pending_cells sv c = None \<longrightarrow> c \<in> set to_set)
     \<and> distinct owned"

definition approvals_ok_for ::
  "(nat \<Rightarrow> host_approval_key) \<Rightarrow> host_approval_key set \<Rightarrow> 't network_approval_service \<Rightarrow> process list \<Rightarrow> bool" where
  "approvals_ok_for f G sv ps \<longleftrightarrow>
     list_all (process_ok f G sv) ps \<and> service_ok f G sv (owned_cells ps) (cells_to_set ps)"

definition approvals_ok :: "host_approval_key set \<Rightarrow> 't network_approval_service \<Rightarrow> process list \<Rightarrow> bool" where
  "approvals_ok G sv ps \<longleftrightarrow> (\<exists>f. approvals_ok_for f G sv ps)"

lemma cells_simps [simp]:
  "owned_cells [] = []" "cells_to_set [] = []"
  "owned_cells (p # ps) = (case cell_owned (snd p) of Some c \<Rightarrow> [c] | None \<Rightarrow> []) @ owned_cells ps"
  "cells_to_set (p # ps) = (case cell_to_set (snd p) of Some c \<Rightarrow> [c] | None \<Rightarrow> []) @ cells_to_set ps"
  "owned_cells (ps @ qs) = owned_cells ps @ owned_cells qs"
  "cells_to_set (ps @ qs) = cells_to_set ps @ cells_to_set qs"
  by (simp_all add: owned_cells_def cells_to_set_def List.map_filter_def split: option.split)

lemma removes_pending_simps [simp]:
  "removes_pending (RemovePending k)" "(\<nexists>k. a = RemovePending k) \<Longrightarrow> \<not> removes_pending a"
  by (cases a; simp add: removes_pending_def)+

lemma in_owned_cells: "c \<in> set (owned_cells ps) \<longleftrightarrow> (\<exists>p \<in> set ps. cell_owned (snd p) = Some c)"
  by (induction ps) (auto split: option.splits)

lemma owned_once:
  "distinct (owned_cells ps) \<Longrightarrow> i < length ps \<Longrightarrow> j < length ps \<Longrightarrow> i \<noteq> j \<Longrightarrow>
   cell_owned (snd (ps ! i)) = Some c \<Longrightarrow> cell_owned (snd (ps ! j)) \<noteq> Some c"
proof (induction ps arbitrary: i j)
  case (Cons p ps)
  have in_tail: "c \<in> set (owned_cells ps)" if "n < length ps" "cell_owned (snd (ps ! n)) = Some c" for n
    using that nth_mem by (auto simp: in_owned_cells)
  show ?case
  proof (cases i)
    case 0
    with Cons.prems obtain n where "j = Suc n" by (cases j) auto
    with 0 Cons.prems in_tail [of n] show ?thesis by auto
  next
    case (Suc m)
    with Cons.prems in_tail [of m] have "c \<notin> set (case cell_owned (snd p) of Some c \<Rightarrow> [c] | None \<Rightarrow> [])" by auto
    with Suc Cons.prems Cons.IH [of m] show ?thesis by (cases j) (auto split: option.splits)
  qed
qed simp

lemma in_cells_to_set: "c \<in> set (cells_to_set ps) \<longleftrightarrow> (\<exists>p \<in> set ps. cell_to_set (snd p) = Some c)"
  by (induction ps) (auto split: option.splits)

lemma grants_mono: "grants G key h \<Longrightarrow> G \<subseteq> G' \<Longrightarrow> grants G' key h"
  by (cases "(G, key, h)" rule: grants.cases) auto

lemma process_ok_mono: "process_ok f G sv p \<Longrightarrow> G \<subseteq> G' \<Longrightarrow> process_ok f G' sv p"
  by (auto simp: process_ok_def intro: grants_mono)

lemma approvals_ok_mono: "approvals_ok_for f G sv ps \<Longrightarrow> G \<subseteq> G' \<Longrightarrow> approvals_ok_for f G' sv ps"
  by (auto simp: approvals_ok_for_def service_ok_def list_all_iff process_ok_mono)

text \<open>The parts of the service that requests share.\<close>

definition same_requests :: "'t network_approval_service \<Rightarrow> 't network_approval_service \<Rightarrow> bool" where
  "same_requests sv sv' \<longleftrightarrow>
     pending_host_approvals sv' = pending_host_approvals sv \<and> pending_cells sv' = pending_cells sv
     \<and> next_cell sv' = next_cell sv \<and> session_approved_hosts sv' \<subseteq> session_approved_hosts sv"

lemma same_requests_ok:
  assumes "approvals_ok_for f G sv ps" "same_requests sv sv'"
  shows "approvals_ok_for f G sv' ps"
proof -
  have "process_ok f G sv' = process_ok f G sv" using assms(2) by (auto simp: process_ok_def same_requests_def)
  with assms show ?thesis by (auto simp: approvals_ok_for_def service_ok_def same_requests_def)
qed

lemma same_requests_calls [simp]:
  "same_requests sv (register_call r call sv)" "same_requests sv (snd (remove_call r sv))"
  "same_requests sv (record_call_outcome r oc sv)" "same_requests sv sv"
  "same_requests sv (sv\<lparr>session_denied_hosts := D\<rparr>)"
  "same_requests sv (sv\<lparr>session_approved_hosts := session_approved_hosts sv - D\<rparr>)"
  by (auto simp: same_requests_def register_call_def remove_call_def record_call_outcome_def)

lemma replace_ok:
  assumes "approvals_ok_for f G sv (us @ (rq, h) # vs)"
    and "cell_of h' = None \<or> cell_of h' = cell_of h
      \<or> (\<exists>c. cell_of h' = Some c \<and> pending_host_approvals sv (request_key rq) = Some c)"
    and "cell_owned h' = cell_owned h" "cell_to_set h' = cell_to_set h" "grants G (request_key rq) h'"
  shows "approvals_ok_for f G sv (us @ (rq, h') # vs)"
proof -
  have "process_ok f G sv (rq, h')"
    using assms by (auto simp: approvals_ok_for_def service_ok_def process_ok_def)
  with assms(1,3,4) show ?thesis by (simp add: approvals_ok_for_def)
qed

lemma create_ok:
  assumes "approvals_ok_for f G sv (us @ (rq, GetPending) # vs)" "pending_host_approvals sv (request_key rq) = None"
  shows "approvals_ok_for (f(next_cell sv := request_key rq)) G
    (sv\<lparr>pending_host_approvals := (pending_host_approvals sv)(request_key rq \<mapsto> next_cell sv),
        pending_cells := (pending_cells sv)(next_cell sv := None), next_cell := Suc (next_cell sv)\<rparr>)
    (us @ (rq, Gate (next_cell sv)) # vs)"
    (is "approvals_ok_for ?f G ?sv _")
proof -
  have owned_cell: "cell_owned h = Some c \<Longrightarrow> cell_of h = Some c" for h c
    by (cases h) (auto split: if_splits)
  have old: "process_ok f G sv p" if "p \<in> set us \<union> set vs" for p
    using assms(1) that by (auto simp: approvals_ok_for_def list_all_iff)
  have new: "process_ok ?f G ?sv p" if "p \<in> set us \<union> set vs" for p
    unfolding process_ok_def
  proof (intro conjI allI impI)
    fix c assume "cell_owned (snd p) = Some c"
    with old [OF that] assms(2) show "pending_host_approvals ?sv (request_key (fst p)) = Some c"
      by (cases "request_key (fst p) = request_key rq") (auto simp: process_ok_def)
  qed (use old [OF that] in \<open>auto simp: process_ok_def\<close>)
  have small: "c < next_cell sv" if "p \<in> set us \<union> set vs" "cell_owned (snd p) = Some c" for p c
    using old [OF that(1)] owned_cell [OF that(2)] by (simp add: process_ok_def)
  have "next_cell sv \<notin> set (owned_cells us)" "next_cell sv \<notin> set (owned_cells vs)"
    using small [of _ "next_cell sv"] by (auto simp: in_owned_cells)
  moreover have "process_ok ?f G ?sv (rq, Gate (next_cell sv))" by (simp add: process_ok_def)
  ultimately show ?thesis
    using new assms by (auto simp: approvals_ok_for_def service_ok_def list_all_iff less_Suc_eq)
qed

lemma set_decision_ok:
  assumes "approvals_ok_for f G sv (us @ (rq, Settling c d (SetDecision c d # as)) # vs)"
  shows "approvals_ok_for f G (sv\<lparr>pending_cells := (pending_cells sv)(c \<mapsto> d)\<rparr>) (us @ (rq, Settling c d as) # vs)"
proof -
  have p: "process_ok f G sv (rq, Settling c d (SetDecision c d # as))"
    using assms by (simp add: approvals_ok_for_def)
  then have "SetDecision c d \<notin> set as" "d \<noteq> DenyPending \<longrightarrow> f c \<in> G" by (auto simp: process_ok_def)
  moreover have "process_ok f G (sv\<lparr>pending_cells := (pending_cells sv)(c \<mapsto> d)\<rparr>) = process_ok f G sv"
    by (simp add: process_ok_def [abs_def])
  moreover have "process_ok f G sv (rq, Settling c d as)" using p by (auto simp: process_ok_def split: if_splits)
  ultimately show ?thesis using assms by (auto simp: approvals_ok_for_def service_ok_def)
qed

lemma removes_own: "list_all (action_ok key c d) as \<Longrightarrow> list_ex removes_pending as \<Longrightarrow> RemovePending key \<in> set as"
proof (induction as)
  case (Cons a as)
  then show ?case by (cases a) (auto simp: removes_pending_def)
qed simp

lemma remove_pending_ok:
  assumes "approvals_ok_for f G sv (us @ (rq, Settling c d (RemovePending (request_key rq) # as)) # vs)"
  shows "approvals_ok_for f G (sv\<lparr>pending_host_approvals := (pending_host_approvals sv)(request_key rq := None)\<rparr>)
    (us @ (rq, Settling c d as) # vs)" (is "approvals_ok_for f G ?sv _")
proof -
  have p: "process_ok f G sv (rq, Settling c d (RemovePending (request_key rq) # as))"
    and owned: "distinct (owned_cells (us @ (rq, Settling c d (RemovePending (request_key rq) # as)) # vs))"
    and sv: "service_ok f G sv (owned_cells (us @ (rq, Settling c d (RemovePending (request_key rq) # as)) # vs))
      (cells_to_set (us @ (rq, Settling c d as) # vs))"
    using assms by (simp_all add: approvals_ok_for_def service_ok_def)
  have gone: "\<not> list_ex removes_pending as"
    using p removes_own [of "request_key rq" c d as] by (auto simp: process_ok_def)
  have own: "cell_owned (Settling c d (RemovePending (request_key rq) # as)) = Some c" by simp
  then have c: "pending_host_approvals sv (request_key rq) = Some c" "f c = request_key rq"
    using p unfolding process_ok_def by auto
  have "process_ok f G ?sv q" if q: "q \<in> set us \<union> set vs" for q
  proof -
    have ok: "process_ok f G sv q" using assms q by (auto simp: approvals_ok_for_def list_all_iff)
    have "cell_owned (snd q) \<noteq> Some c"
      using owned q in_owned_cells [of c us] in_owned_cells [of c vs] by auto
    with ok c show ?thesis by (cases "cell_owned (snd q)") (auto simp: process_ok_def)
  qed
  moreover have "process_ok f G ?sv (rq, Settling c d as)" using p gone by (auto simp: process_ok_def)
  moreover have "service_ok f G ?sv (owned_cells (us @ (rq, Settling c d as) # vs)) (cells_to_set (us @ (rq, Settling c d as) # vs))"
  proof -
    have "k = request_key rq" if "pending_host_approvals sv k = Some c" for k
      using sv c(2) that unfolding service_ok_def by metis
    with sv gone show ?thesis by (fastforce simp: service_ok_def split: if_splits)
  qed
  ultimately show ?thesis by (simp add: approvals_ok_for_def list_all_iff)
qed

lemma exec_action_ok:
  assumes "approvals_ok_for f G sv (us @ (rq, Settling c d (a # as)) # vs)" "exec_action a sv = (sv', new)"
  shows "approvals_ok_for f G sv' (us @ (rq, Settling c d (new @ as)) # vs)"
proof -
  have g: "grants G (request_key rq) (Settling c d (a # as))"
    using assms(1) by (simp add: approvals_ok_for_def process_ok_def)
  consider (set) "a = SetDecision c d" | (remove) "a = RemovePending (request_key rq)"
    | (approve) "a = InsertApproved (request_key rq)" "request_key rq \<in> G"
    | (other) "same_requests sv sv'" "\<nexists>k. a = RemovePending k" "\<nexists>c d. a = SetDecision c d"
        "new = [] \<or> (\<exists>i oc. a = RecordSingle oc \<and> new = [RecordOwner i oc])"
    using g assms(2) by (cases a) (auto simp: exec_action_def split: option.splits)
  then show ?thesis
  proof cases
    case set
    with set_decision_ok assms show ?thesis by (auto simp: exec_action_def)
  next
    case remove
    with remove_pending_ok assms show ?thesis by (auto simp: exec_action_def)
  next
    case approve
    then have "approvals_ok_for f G sv (us @ (rq, Settling c d as) # vs)"
      using assms(1) g by (intro replace_ok [OF assms(1)]) auto
    moreover have "process_ok f G (sv\<lparr>session_approved_hosts := H\<rparr>) = process_ok f G sv" for H
      by (simp add: fun_eq_iff process_ok_def)
    moreover have "sv' = sv\<lparr>session_approved_hosts := insert (request_key rq) (session_approved_hosts sv)\<rparr>" "new = []"
      using approve(1) assms(2) by (simp_all add: exec_action_def)
    ultimately show ?thesis using approve(2) by (simp add: approvals_ok_for_def service_ok_def)
  next
    case other
    have "binding a = False" using other(2,3) by (cases a) auto
    then have "approvals_ok_for f G sv (us @ (rq, Settling c d (new @ as)) # vs)"
      using other(2-4) g by (intro replace_ok [OF assms(1)]) auto
    then show ?thesis using other(1) by (rule same_requests_ok)
  qed
qed

text \<open>The answers that let a request through.\<close>

definition approves :: "answer \<Rightarrow> bool" where
  "approves a \<longleftrightarrow>
     (case a of
        HookAllow \<Rightarrow> True
      | HookDeny _ \<Rightarrow> False
      | Review _ d \<Rightarrow>
          (case d of
             Approved \<Rightarrow> True
           | ApprovedExecpolicyAmendment _ \<Rightarrow> True
           | ApprovedForSession \<Rightarrow> True
           | NetworkPolicyAmendment m \<Rightarrow> amendment_action m = RuleAllow
           | _ \<Rightarrow> False))"

lemma settle_grants:
  assumes "settle tm key c owner a = (d, as)" "approves a \<Longrightarrow> key \<in> G"
  shows "grants G key (Settling c d as) \<and> cell_owned (Settling c d as) = Some c \<and> cell_to_set (Settling c d as) = Some c"
proof (cases a)
  case (Review guardian r)
  then show ?thesis
    using assms
    by (cases r) (auto simp: settle_def resolve_review_def record_owner_def approves_def
        split: option.splits network_policy_rule_action.splits)
qed (use assms in \<open>auto simp: settle_def record_owner_def approves_def split: option.splits\<close>)

definition granted :: "host_approval_key set \<Rightarrow> (host_approval_key \<times> answer) list \<Rightarrow> host_approval_key set" where
  "granted A log = A \<union> {k. \<exists>a. (k, a) \<in> set log \<and> approves a}"

lemma allow_decision: "to_network_decision d = NetworkAllow \<longleftrightarrow> d \<noteq> DenyPending"
  by (cases d) (simp_all add: to_network_decision_def network_deny_def deny_with_source_def)

lemma request_step_ok:
  assumes "approvals_ok_for f (granted A log) sv (us @ (rq, h) # vs)"
    and "handle_inline_policy_request tm inp rq h sv = Some (h', sv')"
  shows "approvals_ok (granted A (answer_log inp rq @ log)) sv' (us @ (rq, h') # vs)"
proof -
  let ?G = "granted A log"
  have h: "grants ?G (request_key rq) h" "session_approved_hosts sv \<subseteq> ?G"
    using assms(1) by (simp_all add: approvals_ok_for_def process_ok_def service_ok_def)
  have quiet: ?thesis
    if "sv' = sv" "answer_log inp rq = []" "cell_of h' = None \<or> cell_of h' = cell_of h"
      "cell_owned h' = cell_owned h" "cell_to_set h' = cell_to_set h" "grants ?G (request_key rq) h'"
    using that replace_ok [OF assms(1), of h'] by (auto simp: approvals_ok_def)
  from assms(2) show ?thesis
  proof (cases "(tm, inp, rq, h, sv)" rule: handle_inline_policy_request.cases)
    case (3 _ request _)
    then show ?thesis
      using assms create_ok [of f _ sv us rq vs] replace_ok [of f _ sv us rq GetPending vs "Waiting _"]
      by (auto simp: get_or_create_pending_approval_def answer_log_def approvals_ok_def Let_def split: option.splits)
  next
    case (4 _ request c _)
    then obtain d where d: "pending_cells sv c = Some d" "h' = Returned (to_network_decision d)" "sv' = sv"
      using assms(2) by (auto split: option.splits)
    have "f c = request_key rq" "c < next_cell sv"
      using assms(1) 4 by (simp_all add: approvals_ok_for_def process_ok_def)
    then have "d \<noteq> DenyPending \<longrightarrow> request_key rq \<in> granted A log"
      using assms(1) d(1) by (auto simp: approvals_ok_for_def service_ok_def)
    then have "approvals_ok_for f (granted A log) sv (us @ (rq, h') # vs)"
      using d(2) 4 by (intro replace_ok [OF assms(1)]) (auto simp: allow_decision)
    then show ?thesis using 4 d(3) by (auto simp: answer_log_def approvals_ok_def)
  next
    case (6 _ a request c owner _)
    let ?G = "granted A (answer_log inp rq @ log)"
    obtain d as where s: "settle tm (request_key rq) c owner a = (d, as)" by fastforce
    have "approvals_ok_for f ?G sv (us @ (rq, h) # vs)"
      by (rule approvals_ok_mono [OF assms(1)]) (auto simp: granted_def)
    moreover have "approves a \<Longrightarrow> request_key rq \<in> ?G" using 6 by (auto simp: granted_def answer_log_def)
    ultimately show ?thesis
      using settle_grants [OF s, of ?G] 6 s assms(2) replace_ok [of f ?G sv us rq h vs "Settling c d as"]
      by (auto simp: approvals_ok_def)
  next
    case (8 _ request c d a as _)
    then show ?thesis
      using assms exec_action_ok [of f _ sv us rq c d a as vs]
      by (auto simp: answer_log_def approvals_ok_def split: prod.splits)
  qed (rule quiet; use assms(2) h in \<open>auto simp: answer_log_def allow_decision refuse_actions_def
        network_deny_def deny_with_source_def split: if_splits\<close>)+
qed

section \<open>What the service promises\<close>

text \<open>A session starts with no request in progress, some hosts approved and some denied.\<close>

definition fresh_service :: "host_approval_key set \<Rightarrow> host_approval_key set \<Rightarrow> 't network_approval_service" where
  "fresh_service A D = default_service\<lparr>session_approved_hosts := A, session_denied_hosts := D\<rparr>"

lemma fresh_ok: "approvals_ok (granted A []) (fresh_service A D) []"
  by (simp add: approvals_ok_def approvals_ok_for_def service_ok_def fresh_service_def default_service_def granted_def)

lemma request_step_split:
  assumes "request_step tm (sv, ps, log) t"
  obtains us rq h vs inp h' sv' where
    "ps = us @ (rq, h) # vs" "handle_inline_policy_request tm inp rq h sv = Some (h', sv')"
    "t = (sv', us @ (rq, h') # vs, answer_log inp rq @ log)"
  using assms
proof cases
  case (1 i request h inp h' sv')
  have "ps = take i ps @ (request, h) # drop (Suc i) ps" using 1 by (metis id_take_nth_drop)
  moreover have "ps[i := (request, h')] = take i ps @ (request, h') # drop (Suc i) ps"
    using 1 by (simp add: upd_conv_take_nth_drop)
  ultimately show ?thesis using that 1 by metis
qed

lemma reachable_ok:
  assumes "(approval_step tm)\<^sup>*\<^sup>* (fresh_service A D, [], []) (sv, ps, log)"
  shows "approvals_ok (granted A log) sv ps"
  using assms
proof (induction "(sv, ps, log)" arbitrary: sv ps log rule: rtranclp_induct)
  case base
  show ?case by (rule fresh_ok)
next
  case (step s)
  obtain sv1 ps1 log1 where s: "s = (sv1, ps1, log1)" by (cases s) auto
  with step obtain f where f: "approvals_ok_for f (granted A log1) sv1 ps1" by (auto simp: approvals_ok_def)
  have same: "approvals_ok (granted A log1) sv' ps1" if "same_requests sv1 sv'" for sv'
    using same_requests_ok [OF f that] by (auto simp: approvals_ok_def)
  from step(2) [unfolded s] show ?case
  proof cases
    case request_steps
    then show ?thesis by (rule request_step_split) (use request_step_ok f in blast)
  next
    case (request_arrives request)
    with f have "approvals_ok_for f (granted A log) sv ps"
      by (simp add: approvals_ok_for_def process_ok_def)
    then show ?thesis by (auto simp: approvals_ok_def)
  qed (use same in simp_all)
qed

text \<open>
  C14: nothing is let through without consent. However requests, answers and calls interleave, a request
  is allowed only if its host was approved when the session started or somebody, the user, a
  hook or the reviewer, gave an approving answer for that very host, protocol and port.
\<close>

theorem network_allow_needs_answer:
  assumes "(approval_step tm)\<^sup>*\<^sup>* (fresh_service A D, [], []) (sv, ps, log)"
    and "(request, Returned NetworkAllow) \<in> set ps"
  shows "request_key request \<in> A \<or> (\<exists>a. (request_key request, a) \<in> set log \<and> approves a)"
proof -
  from reachable_ok [OF assms(1)] assms(2) have "request_key request \<in> granted A log"
    by (auto simp: approvals_ok_def approvals_ok_for_def list_all_iff process_ok_def)
  then show ?thesis by (auto simp: granted_def)
qed

definition asking :: "handler \<Rightarrow> bool" where
  "asking h \<longleftrightarrow> (case h of Asking _ _ \<Rightarrow> True | _ \<Rightarrow> False)"

text \<open>
  Nobody is asked the same question twice at a time. Of all requests in progress for one host,
  protocol and port at most one is waiting for an answer; the others wait for that one.
\<close>

theorem one_question_per_host:
  assumes "(approval_step tm)\<^sup>*\<^sup>* (fresh_service A D, [], []) (sv, ps, log)"
  shows "length (filter (\<lambda>p. asking (snd p) \<and> request_key (fst p) = key) ps) \<le> 1"
proof -
  obtain f where f: "list_all (process_ok f (granted A log) sv) ps" "distinct (owned_cells ps)"
    using reachable_ok [OF assms(1)] by (auto simp: approvals_ok_def approvals_ok_for_def service_ok_def)
  have cell: "\<exists>c. cell_owned (snd (ps ! i)) = Some c \<and> pending_host_approvals sv (request_key (fst (ps ! i))) = Some c"
    if "i < length ps" "asking (snd (ps ! i))" for i
    using f(1) that by (cases "snd (ps ! i)") (fastforce simp: list_all_length process_ok_def asking_def)+
  have "i = j"
    if "i < length ps" "asking (snd (ps ! i))" "j < length ps" "asking (snd (ps ! j))"
      "request_key (fst (ps ! i)) = request_key (fst (ps ! j))" for i j
    using cell [OF that(1,2)] cell [OF that(3,4)] that(5) owned_once [OF f(2) that(1,3)] by (metis option.inject)
  then have "card {i. i < length ps \<and> asking (snd (ps ! i)) \<and> request_key (fst (ps ! i)) = key} \<le> Suc 0"
    by (subst card_le_Suc0_iff_eq) auto
  then show ?thesis by (simp add: length_filter_conv_card)
qed

section \<open>Every request gets its decision\<close>

definition action_weight :: "settle_action \<Rightarrow> nat" where
  "action_weight a = (case a of RecordSingle _ \<Rightarrow> 2 | _ \<Rightarrow> 1)"

fun steps_left :: "handler \<Rightarrow> nat" where
  "steps_left CheckDenied = 12"
| "steps_left CheckApproved = 11"
| "steps_left GetPending = 10"
| "steps_left (Gate _) = 9"
| "steps_left (Asking _ _) = 8"
| "steps_left (Settling _ _ as) = Suc (sum_list (map action_weight as))"
| "steps_left (Waiting _) = 1"
| "steps_left (Returned _) = 0"

definition all_steps_left :: "process list \<Rightarrow> nat" where
  "all_steps_left ps = sum_list (map (steps_left \<circ> snd) ps)"

lemma settle_steps: "settle tm key c owner a = (d, as) \<Longrightarrow> steps_left (Settling c d as) < 8"
  by (cases a; cases owner)
    (auto simp: settle_def record_owner_def resolve_review_def action_weight_def
      split: review_decision.splits network_policy_rule_action.splits)

lemma handler_step_decreases:
  "handle_inline_policy_request tm inp rq h sv = Some (h', sv') \<Longrightarrow> steps_left h' < steps_left h"
proof (cases "(tm, inp, rq, h, sv)" rule: handle_inline_policy_request.cases)
  case (6 _ a request c owner _)
  assume "handle_inline_policy_request tm inp rq h sv = Some (h', sv')"
  with 6 settle_steps show ?thesis by (auto split: prod.splits)
next
  case (8 _ request c d a as _)
  assume "handle_inline_policy_request tm inp rq h sv = Some (h', sv')"
  with 8 show ?thesis by (cases a) (auto simp: exec_action_def action_weight_def split: option.splits)
qed (auto simp: refuse_actions_def action_weight_def get_or_create_pending_approval_def Let_def
    split: option.splits if_splits prod.splits)

lemma request_step_decreases:
  assumes "request_step tm (sv, ps, log) (sv', ps', log')"
  shows "all_steps_left ps' < all_steps_left ps \<and> length ps' = length ps"
  using assms by (rule request_step_split) (auto simp: all_steps_left_def dest: handler_step_decreases)

lemma request_steps_bounded: "(request_step tm ^^ n) (sv, ps, log) t \<Longrightarrow> n \<le> all_steps_left ps"
proof (induction n arbitrary: sv ps log)
  case (Suc n)
  then obtain sv1 ps1 log1 where "request_step tm (sv, ps, log) (sv1, ps1, log1)" "(request_step tm ^^ n) (sv1, ps1, log1) t"
    by (metis prod_cases3 relpowp_Suc_D2)
  with Suc.IH [of sv1 ps1 log1] request_step_decreases [of tm sv ps log sv1 ps1 log1] show ?case by simp
qed simp

definition answered :: "process \<Rightarrow> bool" where
  "answered p \<longleftrightarrow> (case snd p of Returned _ \<Rightarrow> True | _ \<Rightarrow> False)"

lemma handler_not_blocked:
  assumes "\<not> answered (rq, h)" "\<And>c. h = Waiting c \<Longrightarrow> pending_cells sv c \<noteq> None"
  shows "\<exists>inp h' sv'. handle_inline_policy_request tm inp rq h sv = Some (h', sv')"
proof (cases h)
  case (Gate c)
  show ?thesis unfolding Gate by (rule exI [of _ "TurnIs None"]) simp
next
  case (Asking c owner)
  show ?thesis unfolding Asking by (rule exI [of _ "AnswerIs HookAllow"]) (simp split: prod.split)
next
  case (Settling c d as)
  show ?thesis unfolding Settling by (rule exI [of _ NoInput]) (cases as; simp split: prod.split)
qed (use assms in \<open>auto simp: answered_def intro!: exI [of _ NoInput] split: prod.split\<close>)

lemma process_steps:
  assumes "p \<in> set ps" "handle_inline_policy_request tm inp (fst p) (snd p) sv = Some (h', sv')"
  shows "\<exists>t. request_step tm (sv, ps, log) t"
proof -
  obtain i where "i < length ps" "ps ! i = (fst p, snd p)" using assms(1) by (metis in_set_conv_nth prod.collapse)
  from request_step.intros [OF this assms(2)] show ?thesis by blast
qed

lemma no_deadlock:
  assumes "approvals_ok G sv ps" "\<nexists>t. request_step tm (sv, ps, log) t"
  shows "list_all answered ps"
proof -
  obtain f where f: "approvals_ok_for f G sv ps" using assms(1) by (auto simp: approvals_ok_def)
  have running: "answered p" if "p \<in> set ps" "\<And>c. snd p = Waiting c \<Longrightarrow> pending_cells sv c \<noteq> None" for p
  proof (rule ccontr)
    assume "\<not> answered p"
    with handler_not_blocked [of "fst p" "snd p" sv tm] that(2) obtain inp h' sv' where
      "handle_inline_policy_request tm inp (fst p) (snd p) sv = Some (h', sv')" by auto
    from process_steps [OF that(1) this] assms(2) show False by blast
  qed
  have "pending_cells sv c \<noteq> None" if "p \<in> set ps" "snd p = Waiting c" for p c
  proof
    assume "pending_cells sv c = None"
    moreover have "c < next_cell sv"
      using f that by (auto simp: approvals_ok_for_def list_all_iff process_ok_def)
    ultimately obtain q where q: "q \<in> set ps" "cell_to_set (snd q) = Some c"
      using f by (auto simp: approvals_ok_for_def service_ok_def in_cells_to_set)
    with running [of q] show False by (cases "snd q") (auto simp: answered_def)
  qed
  with running show ?thesis by (auto simp: list_all_iff)
qed

text \<open>
  C37: every request is answered. In a state that requests, answers and calls can lead to, take any
  schedule of the requests in progress, with the session and the reviewers giving their
  answers and no request given up by its client half way. It takes at most as many steps as the handlers have left, twelve for each request that has not
  begun to settle, and where no step is left every request has its decision: no request waits
  for a decision that is never made.
\<close>

theorem requests_get_answered:
  assumes "(approval_step tm)\<^sup>*\<^sup>* (fresh_service A D, [], []) (sv, ps, log)"
    and "(request_step tm ^^ n) (sv, ps, log) (sv', ps', log')"
  shows "n \<le> all_steps_left ps \<and> ((\<nexists>t. request_step tm (sv', ps', log') t) \<longrightarrow> list_all answered ps')"
proof
  show "n \<le> all_steps_left ps" using assms(2) by (rule request_steps_bounded)
  have "(approval_step tm)\<^sup>*\<^sup>* (sv, ps, log) (sv', ps', log')"
    using relpowp_imp_rtranclp [OF assms(2)] by (rule rtranclp_mono [THEN predicate2D, rotated]) (auto intro: request_steps)
  with assms(1) have "(approval_step tm)\<^sup>*\<^sup>* (fresh_service A D, [], []) (sv', ps', log')" by simp
  from no_deadlock [OF reachable_ok [OF this]]
  show "(\<nexists>t. request_step tm (sv', ps', log') t) \<longrightarrow> list_all answered ps'" by blast
qed

section \<open>A run\<close>

text \<open>Two requests for one host: the second waits for the answer that the first asks for.\<close>

datatype move = Arrive network_policy_request | Take nat input

fun make_moves :: "ustr \<Rightarrow> move list \<Rightarrow> 't approvals \<Rightarrow> 't approvals option" where
  "make_moves tm [] s = Some s"
| "make_moves tm (Arrive request # ms) (sv, ps, log) = make_moves tm ms (sv, ps @ [(request, CheckDenied)], log)"
| "make_moves tm (Take i inp # ms) (sv, ps, log) =
     (if i < length ps then
        (case handle_inline_policy_request tm inp (fst (ps ! i)) (snd (ps ! i)) sv of
           Some (h, sv) \<Rightarrow> make_moves tm ms (sv, ps[i := (fst (ps ! i), h)], answer_log inp (fst (ps ! i)) @ log)
         | None \<Rightarrow> None)
      else None)"

definition takes :: "move list \<Rightarrow> bool" where
  "takes ms \<longleftrightarrow> list_all (\<lambda>m. case m of Take _ _ \<Rightarrow> True | _ \<Rightarrow> False) ms"

lemma take_step:
  "i < length ps \<Longrightarrow> handle_inline_policy_request tm inp (fst (ps ! i)) (snd (ps ! i)) sv = Some (h, sv') \<Longrightarrow>
   request_step tm (sv, ps, log) (sv', ps[i := (fst (ps ! i), h)], answer_log inp (fst (ps ! i)) @ log)"
  by (rule request_step.intros [of i ps _ "snd (ps ! i)"]) simp_all

lemma make_moves_reach: "make_moves tm ms s = Some t \<Longrightarrow> (approval_step tm)\<^sup>*\<^sup>* s t"
proof (induction tm ms s rule: make_moves.induct)
  case (2 tm request ms sv ps log)
  then show ?case
    using request_arrives [of tm sv ps log request] by (auto intro: converse_rtranclp_into_rtranclp)
next
  case (3 tm i inp ms sv ps log)
  then show ?case
    by (auto split: if_splits option.splits intro: converse_rtranclp_into_rtranclp dest!: take_step intro!: request_steps)
qed simp

lemma make_moves_requests: "make_moves tm ms s = Some t \<Longrightarrow> takes ms \<Longrightarrow> (request_step tm ^^ length ms) s t"
proof (induction tm ms s rule: make_moves.induct)
  case (3 tm i inp ms sv ps log)
  then show ?case
    using take_step [of i ps tm inp sv _ _ log]
    by (auto simp: takes_def simp del: relpowp.simps split: if_splits option.splits intro: relpowp_Suc_I2)
qed (simp_all add: takes_def)

definition example_request :: network_policy_request where
  "example_request = \<lparr>request_protocol = ProxyHttp, request_host = str ''a'', request_port = 80,
     request_client_addr = None, request_method = None, request_command = None, request_exec_policy_hint = None\<rparr>"

definition example_turn :: "(permission_profile \<times> ask_for_approval) option" where
  "example_turn = Some (Managed ManagedUnrestricted NetworkRestricted, OnRequest)"

definition to_question :: "move list" where
  "to_question = [Arrive example_request, Arrive example_request, Take 0 NoInput, Take 0 NoInput, Take 0 NoInput,
     Take 1 NoInput, Take 1 NoInput, Take 1 NoInput, Take 0 (TurnIs example_turn)]"

definition to_decision :: "move list" where
  "to_decision = [Take 0 (AnswerIs HookAllow), Take 0 NoInput, Take 1 NoInput, Take 0 NoInput, Take 0 NoInput]"

lemmas example_defs = example_request_def example_turn_def to_question_def to_decision_def fresh_service_def
  default_service_def request_key_def from_request_def approval_protocol_def protocol_key_label_def
  get_or_create_pending_approval_def turn_permits_question_def permission_profile_allows_network_approval_flow_def
  allows_network_approval_flow_def settle_def exec_action_def to_network_decision_def answer_log_def
  resolve_single_active_call_def

lemma to_question_run:
  "\<exists>sv. make_moves [] to_question (fresh_service {} {} :: unit network_approval_service, [], []) =
     Some (sv, [(example_request, Asking 0 None), (example_request, Waiting 0)], [])"
  by (simp add: example_defs)


theorem network_allow_needs_answer_witness:
  "\<exists>(sv :: unit network_approval_service) ps log.
     (approval_step [])\<^sup>*\<^sup>* (fresh_service {} {}, [], []) (sv, ps, log)
     \<and> (example_request, Returned NetworkAllow) \<in> set ps
     \<and> (\<exists>a. (request_key example_request, a) \<in> set log \<and> approves a)"
proof -
  obtain sv :: "unit network_approval_service" where
    "make_moves [] (to_question @ to_decision) (fresh_service {} {}, [], []) =
       Some (sv, [(example_request, Returned NetworkAllow), (example_request, Returned NetworkAllow)],
                 [(request_key example_request, HookAllow)])"
    by (simp add: example_defs)
  note run = make_moves_reach [OF this]
  from network_allow_needs_answer [OF run, of example_request] run show ?thesis by fastforce
qed

theorem one_question_per_host_witness:
  "\<exists>sv :: unit network_approval_service.
     (approval_step [])\<^sup>*\<^sup>* (fresh_service {} {}, [], [])
       (sv, [(example_request, Asking 0 None), (example_request, Waiting 0)], [])
     \<and> length (filter (\<lambda>p. asking (snd p) \<and> request_key (fst p) = request_key example_request)
         [(example_request, Asking 0 None), (example_request, Waiting 0)]) \<le> 1"
proof -
  obtain sv :: "unit network_approval_service" where
    "(approval_step [])\<^sup>*\<^sup>* (fresh_service {} {}, [], [])
       (sv, [(example_request, Asking 0 None), (example_request, Waiting 0)], [])"
    using to_question_run make_moves_reach by blast
  with one_question_per_host [OF this, of "request_key example_request"] show ?thesis by blast
qed

theorem requests_get_answered_witness:
  "\<exists>(sv :: unit network_approval_service) ps sv' ps' log'.
     (approval_step [])\<^sup>*\<^sup>* (fresh_service {} {}, [], []) (sv, ps, [])
     \<and> (request_step [] ^^ 5) (sv, ps, []) (sv', ps', log')
     \<and> 5 \<le> all_steps_left ps \<and> list_all answered ps'"
proof -
  obtain sv :: "unit network_approval_service" where
    q: "make_moves [] to_question (fresh_service {} {}, [], []) =
       Some (sv, [(example_request, Asking 0 None), (example_request, Waiting 0)], [])"
      and r: "pending_cells sv 0 = None"
    by (simp add: example_defs)
  let ?ps = "[(example_request, Returned NetworkAllow), (example_request, Returned NetworkAllow)]"
  obtain sv' log' where d: "make_moves [] to_decision (sv, [(example_request, Asking 0 None), (example_request, Waiting 0)], []) =
      Some (sv', ?ps, log')"
    using r by (simp add: example_defs)
  have stuck: "\<nexists>t. request_step [] (sv', ?ps, log') t"
    by (auto elim!: request_step.cases simp: less_Suc_eq)
  have "(request_step [] ^^ 5) (sv, [(example_request, Asking 0 None), (example_request, Waiting 0)], []) (sv', ?ps, log')"
    using make_moves_requests [OF d] by (simp add: to_decision_def takes_def numeral_eq_Suc)
  from requests_get_answered [OF make_moves_reach [OF q] this] make_moves_reach [OF q] this stuck
  show ?thesis by blast
qed

end
