(* ===== verification/Tool_Orchestrator.thy ===== *)
theory Tool_Orchestrator
  imports Policy_Transforms Network_Approval Patch_Safety
begin

text \<open>
  Running a tool: \<open>codex-rs/core/src/tools/orchestrator.rs\<close> with the approval and sandbox helpers of
  \<open>tools/sandboxing.rs\<close>, \<open>SandboxManager::select_initial\<close> of \<open>codex-rs/sandboxing/src/manager.rs\<close> and the
  calls of \<open>tools/network_approval.rs\<close> that bracket an attempt.

  A tool is a record of the functions of its traits, over the state of the tool and the session; the
  hooks, the guardian and the generators of ids are the record of the session. What happens
  is written down in the order of the code: answers of hooks, decisions on approvals, attempts.
  Telemetry leaves no trace.
\<close>

section \<open>Sandbox selection\<close>

datatype sandboxable_preference = PreferAuto | PreferRequire | PreferForbid

datatype windows_sandbox_level = WindowsDisabled | WindowsRestricted | WindowsElevated

definition select_initial ::
  "target_os \<Rightarrow> sandbox_policy \<Rightarrow> network_sandbox_policy \<Rightarrow> sandboxable_preference \<Rightarrow> windows_sandbox_level \<Rightarrow> bool
    \<Rightarrow> sandbox_type" where
  "select_initial os policy network pref level has_managed_network_requirements =
     (let platform = (case get_platform_sandbox os (level \<noteq> WindowsDisabled) of Some t \<Rightarrow> t | None \<Rightarrow> NoSandbox) in
      case pref of
        PreferForbid \<Rightarrow> NoSandbox
      | PreferRequire \<Rightarrow> platform
      | PreferAuto \<Rightarrow>
          if should_require_platform_sandbox policy network has_managed_network_requirements then platform else NoSandbox)"

definition unsandboxed_execution_allowed :: "sandbox_policy \<Rightarrow> bool" where
  "unsandboxed_execution_allowed policy \<longleftrightarrow> \<not> has_denied_read_restrictions policy"

definition requires_escalated_permissions :: "sandbox_permissions \<Rightarrow> bool" where
  "requires_escalated_permissions p \<longleftrightarrow> p = RequireEscalated"

datatype sandbox_override = NoOverride | BypassSandboxFirstAttempt

definition sandbox_override_for_first_attempt ::
  "sandbox_permissions \<Rightarrow> exec_approval_requirement \<Rightarrow> sandbox_policy \<Rightarrow> sandbox_override" where
  "sandbox_override_for_first_attempt permissions requirement policy =
     (if \<not> unsandboxed_execution_allowed policy then NoOverride
      else if (case requirement of Skip bypass_sandbox _ \<Rightarrow> bypass_sandbox | _ \<Rightarrow> False) then BypassSandboxFirstAttempt
      else if requires_escalated_permissions permissions then BypassSandboxFirstAttempt
      else NoOverride)"

definition sandbox_permissions_preserving_denied_reads :: "sandbox_permissions \<Rightarrow> sandbox_policy \<Rightarrow> sandbox_permissions" where
  "sandbox_permissions_preserving_denied_reads permissions policy =
     (if requires_escalated_permissions permissions \<and> \<not> unsandboxed_execution_allowed policy then UseDefault else permissions)"

definition managed_network_for_sandbox_permissions :: "'n option \<Rightarrow> sandbox_permissions \<Rightarrow> 'n option" where
  "managed_network_for_sandbox_permissions network permissions =
     (if requires_escalated_permissions permissions then None else network)"

section \<open>Network decisions of a failed attempt\<close>

record network_policy_decision_payload =
  payload_decision :: network_policy_decision
  payload_source :: network_decision_source
  payload_protocol :: "network_approval_protocol option"
  payload_host :: "ustr option"
  payload_reason :: "ustr option"
  payload_port :: "nat option"

record network_approval_context =
  context_host :: ustr
  context_protocol :: network_approval_protocol

definition is_ask_from_decider :: "network_policy_decision_payload \<Rightarrow> bool" where
  "is_ask_from_decider p \<longleftrightarrow> payload_decision p = PolicyAsk \<and> payload_source p = Decider"

definition network_approval_context_from_payload :: "network_policy_decision_payload \<Rightarrow> network_approval_context option" where
  "network_approval_context_from_payload payload =
     (if \<not> is_ask_from_decider payload then None
      else Option.bind (payload_protocol payload) (\<lambda>protocol.
           Option.bind (payload_host payload) (\<lambda>host.
             if trim host = [] then None else Some \<lparr>context_host = trim host, context_protocol = protocol\<rparr>)))"

section \<open>Tools and their session\<close>

datatype ('x, 'e) tool_error =
    Rejected ustr
  | SandboxDenied 'x "network_policy_decision_payload option" \<comment> \<open>output of the attempt\<close>
  | OtherError 'e

datatype permission_request_decision = PermissionAllow | PermissionDeny ustr

record approval_ctx =
  ctx_call_id :: ustr
  ctx_guardian_review_id :: "ustr option"
  ctx_retry_reason :: "ustr option"
  ctx_network_approval_context :: "network_approval_context option"

record sandbox_attempt =
  attempt_sandbox :: sandbox_type
  attempt_permissions :: permission_profile
  attempt_enforce_managed_network :: bool
  attempt_sandbox_cwd :: ustr
  attempt_workspace_roots :: "ustr list"
  attempt_linux_sandbox_exe :: "ustr option"
  attempt_use_legacy_landlock :: bool
  attempt_windows_sandbox_level :: windows_sandbox_level
  attempt_windows_private_desktop :: bool
  attempt_network_denial_token :: "ustr option" \<comment> \<open>the id of the call it cancels\<close>

datatype network_approval_mode = Immediate | Deferred

record 't network_approval_spec =
  spec_network :: bool \<comment> \<open>whether a proxy is given\<close>
  spec_mode :: network_approval_mode
  spec_trigger :: 't
  spec_command :: ustr

record active_network_approval =
  active_registration_id :: "ustr option"
  active_mode :: network_approval_mode
  active_token :: ustr

record deferred_network_approval =
  deferred_registration_id :: ustr
  deferred_token :: ustr
  finish_outcome :: "network_approval_outcome option option" \<comment> \<open>the outcome, once known\<close>

record ('w, 't, 'p, 'o, 'x, 'e) tool_runtime =
  exec_approval_requirement_of :: "'w \<Rightarrow> exec_approval_requirement option"
  sandbox_permissions_of :: "'w \<Rightarrow> sandbox_permissions"
  should_bypass_approval :: "'w \<Rightarrow> ask_for_approval \<Rightarrow> bool \<Rightarrow> bool"
  wants_no_sandbox_approval :: "'w \<Rightarrow> ask_for_approval \<Rightarrow> bool"
  permission_request_payload :: "'w \<Rightarrow> 'p option"
  start_approval :: "approval_ctx \<Rightarrow> 'w \<Rightarrow> review_decision \<times> 'w"
  sandbox_preference :: "'w \<Rightarrow> sandboxable_preference"
  escalate_on_failure :: "'w \<Rightarrow> bool"
  network_approval_spec_of :: "'w \<Rightarrow> 't network_approval_spec option"
  tool_sandbox_cwd :: "'w \<Rightarrow> ustr option"
  tool_run :: "sandbox_attempt \<Rightarrow> 'w \<times> 't network_approval_service
    \<Rightarrow> ('o, ('x, 'e) tool_error) outcome \<times> 'w \<times> 't network_approval_service"

record ('w, 'p) session_env =
  strict_auto_review_enabled :: "'w \<Rightarrow> bool"
  run_permission_request_hooks :: "ustr \<Rightarrow> 'p \<Rightarrow> 'w \<Rightarrow> permission_request_decision option \<times> 'w"
  guardian_rejection_message :: "'w \<Rightarrow> ustr \<Rightarrow> ustr"
  guardian_timeout_message :: ustr
  new_guardian_review_id :: "'w \<Rightarrow> ustr \<times> 'w"
  new_registration_id :: "'w \<Rightarrow> ustr \<times> 'w"

record turn_context =
  turn_sub_id :: ustr
  turn_permission_profile :: permission_profile
  turn_approval_policy :: ask_for_approval
  turn_auto_review :: bool \<comment> \<open>whether the reviewer of the configuration is \<open>AutoReview\<close>\<close>
  turn_network :: bool \<comment> \<open>whether a managed proxy runs\<close>
  turn_windows_sandbox_level :: windows_sandbox_level
  turn_use_legacy_landlock :: bool
  turn_cwd :: ustr
  turn_workspace_roots :: "ustr list"
  turn_linux_sandbox_exe :: "ustr option"
  turn_windows_private_desktop :: bool

datatype tool_event =
    HookAnswered permission_request_decision
  | Decided approval_ctx review_decision
  | Attempted sandbox_attempt

record ('w, 't) tool_session =
  session_world :: 'w
  session_approvals :: "'t network_approval_service"
  session_events :: "tool_event list"

definition record_event :: "tool_event \<Rightarrow> ('w, 't) tool_session \<Rightarrow> ('w, 't) tool_session" where
  "record_event e s = s\<lparr>session_events := session_events s @ [e]\<rparr>"

text \<open>The default methods of \<open>Approvable\<close>, and the override of the patch tool.\<close>

definition default_should_bypass_approval :: "ask_for_approval \<Rightarrow> bool \<Rightarrow> bool" where
  "default_should_bypass_approval policy already_approved \<longleftrightarrow> (if already_approved then True else policy = Never)"

definition default_wants_no_sandbox_approval :: "ask_for_approval \<Rightarrow> bool" where
  "default_wants_no_sandbox_approval policy \<longleftrightarrow>
     (case policy of
        OnFailure \<Rightarrow> True | UnlessTrusted \<Rightarrow> True | Never \<Rightarrow> False | OnRequest \<Rightarrow> False
      | Granular g \<Rightarrow> sandbox_approval g)"

definition patch_wants_no_sandbox_approval :: "ask_for_approval \<Rightarrow> bool" where
  "patch_wants_no_sandbox_approval policy \<longleftrightarrow>
     (case policy of
        Never \<Rightarrow> False | Granular g \<Rightarrow> sandbox_approval g | OnFailure \<Rightarrow> True | OnRequest \<Rightarrow> True | UnlessTrusted \<Rightarrow> True)"

definition routes_approval_to_guardian :: "turn_context \<Rightarrow> bool" where
  "routes_approval_to_guardian turn \<longleftrightarrow>
     (case turn_approval_policy turn of OnRequest \<Rightarrow> True | Granular _ \<Rightarrow> True | _ \<Rightarrow> False) \<and> turn_auto_review turn"

section \<open>Network approval of an attempt\<close>

definition begin_network_approval ::
  "('w, 'p) session_env \<Rightarrow> ustr \<Rightarrow> bool \<Rightarrow> 't network_approval_spec option \<Rightarrow> ('w, 't) tool_session
    \<Rightarrow> active_network_approval option \<times> ('w, 't) tool_session" where
  "begin_network_approval env turn_id managed_network_active spec s =
     (case spec of
        None \<Rightarrow> (None, s)
      | Some spec \<Rightarrow>
          if \<not> managed_network_active \<or> \<not> spec_network spec then (None, s)
          else case new_registration_id env (session_world s) of (i, w) \<Rightarrow>
            (Some \<lparr>active_registration_id = Some i, active_mode = spec_mode spec, active_token = i\<rparr>,
             s\<lparr>session_world := w,
               session_approvals := register_call i
                 \<lparr>call_turn_id = turn_id, call_trigger = spec_trigger spec, call_command = spec_command spec\<rparr>
                 (session_approvals s)\<rparr>))"

definition lift_rejection :: "(unit, ustr) outcome \<Rightarrow> (unit, ('x, 'e) tool_error) outcome" where
  "lift_rejection r = (case r of Ok u \<Rightarrow> Ok u | Err message \<Rightarrow> Err (Rejected message) | Panic \<Rightarrow> Panic)"

definition finish_immediate_network_approval ::
  "active_network_approval \<Rightarrow> ('w, 't) tool_session \<Rightarrow> (unit, ('x, 'e) tool_error) outcome \<times> ('w, 't) tool_session" where
  "finish_immediate_network_approval active s =
     (case active_registration_id active of
        None \<Rightarrow> (Ok (), s)
      | Some i \<Rightarrow>
          (case finish_call i (session_approvals s) of
             (r, sv) \<Rightarrow> (lift_rejection r, s\<lparr>session_approvals := sv\<rparr>)))"

definition into_deferred :: "active_network_approval \<Rightarrow> deferred_network_approval option" where
  "into_deferred active =
     (case (active_mode active, active_registration_id active) of
        (Deferred, Some i) \<Rightarrow>
          Some \<lparr>deferred_registration_id = i, deferred_token = active_token active, finish_outcome = None\<rparr>
      | _ \<Rightarrow> None)"

text \<open>\<open>DeferredNetworkApproval::finish\<close> removes the call the first time and remembers its outcome.\<close>

definition deferred_finish ::
  "deferred_network_approval \<Rightarrow> 't network_approval_service
    \<Rightarrow> (unit, ustr) outcome \<times> deferred_network_approval \<times> 't network_approval_service" where
  "deferred_finish deferred sv =
     (case finish_outcome deferred of
        Some oc \<Rightarrow> (network_approval_outcome_to_result oc, deferred, sv)
      | None \<Rightarrow>
          (case remove_call (deferred_registration_id deferred) sv of
             (oc, sv) \<Rightarrow> (network_approval_outcome_to_result oc, deferred\<lparr>finish_outcome := Some oc\<rparr>, sv)))"

definition finish_deferred_network_approval ::
  "deferred_network_approval option \<Rightarrow> ('w, 't) tool_session
    \<Rightarrow> (unit, ('x, 'e) tool_error) outcome \<times> ('w, 't) tool_session" where
  "finish_deferred_network_approval deferred s =
     (case deferred of
        None \<Rightarrow> (Ok (), s)
      | Some d \<Rightarrow>
          (case deferred_finish d (session_approvals s) of
             (r, _, sv) \<Rightarrow> (lift_rejection r, s\<lparr>session_approvals := sv\<rparr>)))"

section \<open>The orchestrator\<close>

text \<open>
  A panic in the tool unwinds through \<open>run_attempt\<close>: neither of the two finishing calls is reached, and no destructor
  stands in for them.
\<close>

definition run_attempt ::
  "('w, 'p) session_env \<Rightarrow> ('w, 't, 'p, 'o, 'x, 'e) tool_runtime \<Rightarrow> turn_context \<Rightarrow> sandbox_attempt \<Rightarrow> bool
    \<Rightarrow> ('w, 't) tool_session
    \<Rightarrow> ('o, ('x, 'e) tool_error) outcome \<times> deferred_network_approval option \<times> ('w, 't) tool_session" where
  "run_attempt env tool turn attempt managed_network_active s =
     (case begin_network_approval env (turn_sub_id turn) managed_network_active
             (network_approval_spec_of tool (session_world s)) s of
        (network_approval, s) \<Rightarrow>
          let attempt = attempt\<lparr>attempt_network_denial_token := map_option active_token network_approval\<rparr>;
              s = record_event (Attempted attempt) s
          in case tool_run tool attempt (session_world s, session_approvals s) of
               (run_result, w, sv) \<Rightarrow>
                 let s = s\<lparr>session_world := w, session_approvals := sv\<rparr> in
                 if run_result = Panic then (Panic, None, s)
                 else
                 (case network_approval of
                    None \<Rightarrow> (run_result, None, s)
                  | Some active \<Rightarrow>
                      (case active_mode active of
                         Immediate \<Rightarrow>
                           (case finish_immediate_network_approval active s of
                              (Err err, s) \<Rightarrow> (Err err, None, s)
                            | (_, s) \<Rightarrow> (run_result, None, s))
                       | Deferred \<Rightarrow>
                           (case run_result of
                              Ok _ \<Rightarrow> (run_result, into_deferred active, s)
                            | _ \<Rightarrow>
                                (case finish_deferred_network_approval (into_deferred active) s of
                                   (Err err, s) \<Rightarrow> (Err err, None, s)
                                 | (_, s) \<Rightarrow> (run_result, None, s))))))"

definition request_approval ::
  "('w, 'p) session_env \<Rightarrow> ('w, 't, 'p, 'o, 'x, 'e) tool_runtime \<Rightarrow> ustr \<Rightarrow> approval_ctx \<Rightarrow> bool \<Rightarrow> ('w, 't) tool_session
    \<Rightarrow> (review_decision, ('x, 'e) tool_error) outcome \<times> ('w, 't) tool_session" where
  "request_approval env tool permission_request_run_id ctx evaluate_permission_request_hooks s =
     (let hooked =
            (case (evaluate_permission_request_hooks, permission_request_payload tool (session_world s)) of
               (True, Some payload) \<Rightarrow>
                 (case run_permission_request_hooks env permission_request_run_id payload (session_world s) of
                    (Some d, w) \<Rightarrow> (Some d, record_event (HookAnswered d) (s\<lparr>session_world := w\<rparr>))
                  | (None, w) \<Rightarrow> (None, s\<lparr>session_world := w\<rparr>))
             | _ \<Rightarrow> (None, s))
      in case hooked of
           (Some PermissionAllow, s) \<Rightarrow> (Ok Approved, s)
         | (Some (PermissionDeny message), s) \<Rightarrow> (Err (Rejected message), s)
         | (None, s) \<Rightarrow>
             (case start_approval tool ctx (session_world s) of
                (decision, w) \<Rightarrow> (Ok decision, record_event (Decided ctx decision) (s\<lparr>session_world := w\<rparr>))))"

definition reject_if_not_approved ::
  "('w, 'p) session_env \<Rightarrow> ustr option \<Rightarrow> review_decision \<Rightarrow> 'w \<Rightarrow> (unit, ('x, 'e) tool_error) outcome" where
  "reject_if_not_approved env guardian_review_id decision w =
     (case decision of
        Approved \<Rightarrow> Ok ()
      | ApprovedExecpolicyAmendment _ \<Rightarrow> Ok ()
      | ApprovedForSession \<Rightarrow> Ok ()
      | NetworkPolicyAmendment amendment \<Rightarrow>
          (case amendment_action amendment of RuleAllow \<Rightarrow> Ok () | RuleDeny \<Rightarrow> Err (Rejected (str ''rejected by user'')))
      | TimedOut \<Rightarrow> Err (Rejected (guardian_timeout_message env))
      | _ \<Rightarrow>
          Err (Rejected (case guardian_review_id of
             Some review_id \<Rightarrow> guardian_rejection_message env w review_id
           | None \<Rightarrow> str ''rejected by user'')))"

text \<open>Ask for an approval and stop unless it is given, as \<open>run\<close> does three times.\<close>

definition review_id_for :: "('w, 'p) session_env \<Rightarrow> bool \<Rightarrow> ('w, 't) tool_session \<Rightarrow> ustr option \<times> ('w, 't) tool_session" where
  "review_id_for env use_guardian s =
     (if use_guardian
      then case new_guardian_review_id env (session_world s) of (i, w) \<Rightarrow> (Some i, s\<lparr>session_world := w\<rparr>)
      else (None, s))"

definition require_approval ::
  "('w, 'p) session_env \<Rightarrow> ('w, 't, 'p, 'o, 'x, 'e) tool_runtime \<Rightarrow> ustr \<Rightarrow> bool \<Rightarrow> bool \<Rightarrow> ustr \<Rightarrow> ustr option
    \<Rightarrow> network_approval_context option \<Rightarrow> ('w, 't) tool_session \<Rightarrow> (unit, ('x, 'e) tool_error) outcome \<times> ('w, 't) tool_session" where
  "require_approval env tool call_id use_guardian hooks run_id reason network_context s =
     (let (review_id, s) = review_id_for env use_guardian s;
          ctx = \<lparr>ctx_call_id = call_id, ctx_guardian_review_id = review_id, ctx_retry_reason = reason,
            ctx_network_approval_context = network_context\<rparr>
      in case request_approval env tool run_id ctx hooks s of
           (Ok decision, s) \<Rightarrow> (reject_if_not_approved env review_id decision (session_world s), s)
         | (Err err, s) \<Rightarrow> (Err err, s)
         | (Panic, s) \<Rightarrow> (Panic, s))"

definition initial_approval ::
  "('w, 'p) session_env \<Rightarrow> ('w, 't, 'p, 'o, 'x, 'e) tool_runtime \<Rightarrow> ustr \<Rightarrow> bool \<Rightarrow> bool \<Rightarrow> exec_approval_requirement
    \<Rightarrow> ('w, 't) tool_session \<Rightarrow> (bool, ('x, 'e) tool_error) outcome \<times> ('w, 't) tool_session" where
  "initial_approval env tool call_id strict_auto_review use_guardian requirement s =
     (case requirement of
        Skip _ _ \<Rightarrow>
          if strict_auto_review
          then (case require_approval env tool call_id True False call_id None None s of
                  (r, s) \<Rightarrow> (obind r (\<lambda>_. Ok True), s))
          else (Ok False, s)
      | ForbiddenExec reason \<Rightarrow> (Err (Rejected reason), s)
      | NeedsApproval reason _ \<Rightarrow>
          (case require_approval env tool call_id use_guardian (\<not> strict_auto_review) call_id reason None s of
             (r, s) \<Rightarrow> (obind r (\<lambda>_. Ok True), s)))"

definition new_attempt :: "turn_context \<Rightarrow> ustr \<Rightarrow> sandbox_type \<Rightarrow> ustr option \<Rightarrow> sandbox_attempt" where
  "new_attempt turn cwd sandbox linux_sandbox_exe =
     \<lparr>attempt_sandbox = sandbox, attempt_permissions = turn_permission_profile turn,
      attempt_enforce_managed_network = turn_network turn, attempt_sandbox_cwd = cwd,
      attempt_workspace_roots = turn_workspace_roots turn, attempt_linux_sandbox_exe = linux_sandbox_exe,
      attempt_use_legacy_landlock = turn_use_legacy_landlock turn,
      attempt_windows_sandbox_level = turn_windows_sandbox_level turn,
      attempt_windows_private_desktop = turn_windows_private_desktop turn,
      attempt_network_denial_token = None\<rparr>"

definition build_denial_reason_from_output :: "'x \<Rightarrow> ustr" where
  "build_denial_reason_from_output x = str ''command failed; retry without sandbox?''"

definition selected_sandbox ::
  "target_os \<Rightarrow> ('w, 't, 'p, 'o, 'x, 'e) tool_runtime \<Rightarrow> turn_context \<Rightarrow> 'w \<Rightarrow> sandbox_type" where
  "selected_sandbox os tool turn w =
     select_initial os (file_system_sandbox_policy (turn_permission_profile turn))
       (network_sandbox_policy_of (turn_permission_profile turn)) (sandbox_preference tool w)
       (turn_windows_sandbox_level turn) (turn_network turn)"

text \<open>Whether a denied attempt may be retried, and the network access it asked for.\<close>

definition denial_context :: "turn_context \<Rightarrow> network_policy_decision_payload option \<Rightarrow> network_approval_context option" where
  "denial_context turn payload =
     (if turn_network turn then Option.bind payload network_approval_context_from_payload else None)"

definition may_retry ::
  "('w, 't, 'p, 'o, 'x, 'e) tool_runtime \<Rightarrow> turn_context \<Rightarrow> ask_for_approval \<Rightarrow> network_policy_decision_payload option \<Rightarrow> 'w \<Rightarrow> bool" where
  "may_retry tool turn approval_policy payload w \<longleftrightarrow>
     (let policy = file_system_sandbox_policy (turn_permission_profile turn);
          context = denial_context turn payload
      in \<not> (payload \<noteq> None \<and> context = None)
         \<and> escalate_on_failure tool w
         \<and> (wants_no_sandbox_approval tool w approval_policy
            \<or> approval_policy = OnRequest \<and> context \<noteq> None
               \<and> (case default_exec_approval_requirement approval_policy policy of NeedsApproval _ _ \<Rightarrow> True | _ \<Rightarrow> False))
         \<and> \<not> (\<not> unsandboxed_execution_allowed policy \<and> context = None))"

definition retry_reason_for :: "network_approval_context option \<Rightarrow> 'x \<Rightarrow> ustr" where
  "retry_reason_for context out =
     (case context of
        Some c \<Rightarrow> str ''Network access to \"'' @ context_host c @ str ''\" is blocked by policy.''
      | None \<Rightarrow> build_denial_reason_from_output out)"

definition retry ::
  "target_os \<Rightarrow> ('w, 'p) session_env \<Rightarrow> ('w, 't, 'p, 'o, 'x, 'e) tool_runtime \<Rightarrow> turn_context \<Rightarrow> ustr \<Rightarrow> ask_for_approval
    \<Rightarrow> bool \<Rightarrow> bool \<Rightarrow> bool \<Rightarrow> ustr \<Rightarrow> 'x \<Rightarrow> network_policy_decision_payload option \<Rightarrow> ('w, 't) tool_session
    \<Rightarrow> ('o \<times> deferred_network_approval option, ('x, 'e) tool_error) outcome \<times> ('w, 't) tool_session" where
  "retry os env tool turn call_id approval_policy strict_auto_review use_guardian already_approved cwd out payload s =
     (let context = denial_context turn payload;
          reason = retry_reason_for context out;
          bypass_retry_approval = (\<not> strict_auto_review
            \<and> should_bypass_approval tool (session_world s) approval_policy already_approved \<and> context = None);
          (approval, s) =
            (if bypass_retry_approval then (Ok (), s)
             else require_approval env tool call_id use_guardian (\<not> strict_auto_review) (call_id @ str '':retry'')
                    (Some reason) context s)
      in case approval of
           Err err \<Rightarrow> (Err err, s)
         | Panic \<Rightarrow> (Panic, s)
         | Ok _ \<Rightarrow>
             let unsandboxed_allowed = unsandboxed_execution_allowed (file_system_sandbox_policy (turn_permission_profile turn));
                 attempt = (if unsandboxed_allowed then new_attempt turn cwd NoSandbox None
                   else new_attempt turn cwd (selected_sandbox os tool turn (session_world s)) (turn_linux_sandbox_exe turn))
             in case run_attempt env tool turn attempt (turn_network turn) s of
                  (r, deferred, s) \<Rightarrow> (obind r (\<lambda>x. Ok (x, deferred)), s))"

definition run ::
  "target_os \<Rightarrow> ('w, 'p) session_env \<Rightarrow> ('w, 't, 'p, 'o, 'x, 'e) tool_runtime \<Rightarrow> turn_context \<Rightarrow> ustr \<Rightarrow> ask_for_approval
    \<Rightarrow> ('w, 't) tool_session
    \<Rightarrow> ('o \<times> deferred_network_approval option, ('x, 'e) tool_error) outcome \<times> ('w, 't) tool_session" where
  "run os env tool turn call_id approval_policy s =
     (let strict_auto_review = strict_auto_review_enabled env (session_world s);
          use_guardian = (routes_approval_to_guardian turn \<or> strict_auto_review);
          policy = file_system_sandbox_policy (turn_permission_profile turn);
          requirement = (case exec_approval_requirement_of tool (session_world s) of
              Some r \<Rightarrow> r
            | None \<Rightarrow> default_exec_approval_requirement approval_policy policy)
      in case initial_approval env tool call_id strict_auto_review use_guardian requirement s of
           (Err err, s) \<Rightarrow> (Err err, s)
         | (Panic, s) \<Rightarrow> (Panic, s)
         | (Ok already_approved, s) \<Rightarrow>
             let initial_sandbox =
                   (case sandbox_override_for_first_attempt (sandbox_permissions_of tool (session_world s)) requirement policy of
                      BypassSandboxFirstAttempt \<Rightarrow> NoSandbox
                    | NoOverride \<Rightarrow> selected_sandbox os tool turn (session_world s));
                 cwd = (case tool_sandbox_cwd tool (session_world s) of Some d \<Rightarrow> d | None \<Rightarrow> turn_cwd turn)
             in case run_attempt env tool turn (new_attempt turn cwd initial_sandbox (turn_linux_sandbox_exe turn))
                       (turn_network turn) s of
                  (Ok x, deferred, s) \<Rightarrow> (Ok (x, deferred), s)
                | (Err (SandboxDenied out payload), _, s) \<Rightarrow>
                    if may_retry tool turn approval_policy payload (session_world s)
                    then retry os env tool turn call_id approval_policy strict_auto_review use_guardian already_approved cwd
                           out payload s
                    else (Err (SandboxDenied out payload), s)
                | (Err err, _, s) \<Rightarrow> (Err err, s)
                | (Panic, _, s) \<Rightarrow> (Panic, s))"

section \<open>The trace of a run\<close>

definition approved_decision :: "review_decision \<Rightarrow> bool" where
  "approved_decision d \<longleftrightarrow> approves (Review None d)"

fun approving :: "tool_event \<Rightarrow> bool" where
  "approving (HookAnswered d) \<longleftrightarrow> d = PermissionAllow"
| "approving (Decided _ d) \<longleftrightarrow> approved_decision d"
| "approving (Attempted _) \<longleftrightarrow> False"

fun by_guardian :: "tool_event \<Rightarrow> bool" where
  "by_guardian (Decided ctx _) \<longleftrightarrow> ctx_guardian_review_id ctx \<noteq> None"
| "by_guardian _ \<longleftrightarrow> False"

fun is_attempt :: "tool_event \<Rightarrow> bool" where
  "is_attempt (Attempted _) \<longleftrightarrow> True"
| "is_attempt _ \<longleftrightarrow> False"

lemma reject_if_not_approved_iff:
  "(reject_if_not_approved env i d w = (Ok () :: (unit, ('x, 'e) tool_error) outcome) \<longleftrightarrow> approved_decision d)
   \<and> (\<not> approved_decision d \<longrightarrow> (\<exists>m. reject_if_not_approved env i d w = (Err (Rejected m) :: (unit, ('x, 'e) tool_error) outcome)))"
  by (auto simp: reject_if_not_approved_def approved_decision_def approves_def
      split: review_decision.splits network_policy_rule_action.splits option.splits)

lemma request_approval_event:
  assumes "request_approval env tool run_id ctx hooks s = (r, s')"
  shows "session_approvals s' = session_approvals s"
    and "(\<exists>d. r = Ok d \<and> session_events s' = session_events s @ [Decided ctx d])
      \<or> hooks \<and> r = Ok Approved \<and> session_events s' = session_events s @ [HookAnswered PermissionAllow]
      \<or> (\<exists>m. hooks \<and> r = Err (Rejected m) \<and> session_events s' = session_events s @ [HookAnswered (PermissionDeny m)])"
  using assms by (auto simp: request_approval_def record_event_def Let_def
      split: bool.splits option.splits prod.splits permission_request_decision.splits)

lemma require_approval_event:
  assumes "require_approval env tool call_id g hooks run_id reason nc s = (r, s')"
  obtains e where "session_events s' = session_events s @ [e]" "\<not> is_attempt e" "session_approvals s' = session_approvals s"
    "approving e \<Longrightarrow> r = Ok ()" "\<not> approving e \<Longrightarrow> \<exists>m. r = Err (Rejected m)" "g \<Longrightarrow> \<not> hooks \<Longrightarrow> by_guardian e"
proof -
  obtain i s1 where i: "review_id_for env g s = (i, s1)" by fastforce
  then have s1: "session_events s1 = session_events s" "session_approvals s1 = session_approvals s" "g \<Longrightarrow> i \<noteq> None"
    by (auto simp: review_id_for_def split: if_splits prod.splits)
  have r: "(case request_approval env tool run_id
        \<lparr>ctx_call_id = call_id, ctx_guardian_review_id = i, ctx_retry_reason = reason, ctx_network_approval_context = nc\<rparr> hooks s1 of
           (Ok decision, s) \<Rightarrow> (reject_if_not_approved env i decision (session_world s), s)
         | (Err err, s) \<Rightarrow> (Err err, s)
         | (Panic, s) \<Rightarrow> (Panic, s)) = (r, s')"
    using assms by (simp add: require_approval_def i)
  obtain q s2 where q: "request_approval env tool run_id
        \<lparr>ctx_call_id = call_id, ctx_guardian_review_id = i, ctx_retry_reason = reason, ctx_network_approval_context = nc\<rparr> hooks s1 = (q, s2)"
    by fastforce
  have kept: "session_approvals s2 = session_approvals s" using request_approval_event(1) [OF q] s1(2) by simp
  from request_approval_event(2) [OF q] show ?thesis
  proof (elim disjE exE conjE)
    fix d assume d: "q = Ok d" "session_events s2 = session_events s1 @ [Decided
      \<lparr>ctx_call_id = call_id, ctx_guardian_review_id = i, ctx_retry_reason = reason, ctx_network_approval_context = nc\<rparr> d]"
    then have "r = reject_if_not_approved env i d (session_world s2)" "s' = s2" using r q by auto
    with reject_if_not_approved_iff [of env i d] kept s1 d(2) show ?thesis by (intro that [of "Decided
      \<lparr>ctx_call_id = call_id, ctx_guardian_review_id = i, ctx_retry_reason = reason, ctx_network_approval_context = nc\<rparr> d"]) auto
  next
    assume d: "q = Ok Approved" "hooks" "session_events s2 = session_events s1 @ [HookAnswered PermissionAllow]"
    then have "r = Ok ()" "s' = s2" using r q by (simp_all add: reject_if_not_approved_def)
    with kept s1 d show ?thesis by (intro that [of "HookAnswered PermissionAllow"]) auto
  next
    fix m assume d: "q = Err (Rejected m)" "hooks" "session_events s2 = session_events s1 @ [HookAnswered (PermissionDeny m)]"
    then have "r = Err (Rejected m)" "s' = s2" using r q by simp_all
    with kept s1 d show ?thesis by (intro that [of "HookAnswered (PermissionDeny m)"]) auto
  qed
qed

lemma run_attempt_event:
  assumes "run_attempt env tool turn a managed s = (r, deferred, s')"
  obtains token where "session_events s' = session_events s @ [Attempted (a\<lparr>attempt_network_denial_token := token\<rparr>)]"
proof -
  obtain na s1 where b: "begin_network_approval env (turn_sub_id turn) managed (network_approval_spec_of tool (session_world s)) s = (na, s1)"
    by fastforce
  then have "session_events s1 = session_events s"
    by (auto simp: begin_network_approval_def split: option.splits if_splits prod.splits)
  then show ?thesis
    using assms that [of "map_option active_token na"]
    by (auto simp: run_attempt_def b record_event_def finish_immediate_network_approval_def finish_deferred_network_approval_def
        Let_def split: prod.splits option.splits network_approval_mode.splits outcome.splits if_splits)
qed

text \<open>What is known of the answers before an attempt, and of the attempt.\<close>

definition consent :: "bool \<Rightarrow> tool_event list \<Rightarrow> bool" where
  "consent strict es \<longleftrightarrow> (\<exists>e. es = [e] \<and> approving e \<and> (strict \<longrightarrow> by_guardian e))"

definition requirement_of ::
  "('w, 't, 'p, 'o, 'x, 'e) tool_runtime \<Rightarrow> turn_context \<Rightarrow> ask_for_approval \<Rightarrow> 'w \<Rightarrow> exec_approval_requirement" where
  "requirement_of tool turn approval_policy w =
     (case exec_approval_requirement_of tool w of
        Some r \<Rightarrow> r
      | None \<Rightarrow> default_exec_approval_requirement approval_policy (file_system_sandbox_policy (turn_permission_profile turn)))"

definition first_answers :: "bool \<Rightarrow> exec_approval_requirement \<Rightarrow> tool_event list \<Rightarrow> bool" where
  "first_answers strict requirement es \<longleftrightarrow>
     consent strict es \<or> es = [] \<and> \<not> strict \<and> (\<exists>b m. requirement = Skip b m)"

definition first_attempt ::
  "target_os \<Rightarrow> ('w, 't, 'p, 'o, 'x, 'e) tool_runtime \<Rightarrow> turn_context \<Rightarrow> exec_approval_requirement \<Rightarrow> sandbox_attempt \<Rightarrow> bool" where
  "first_attempt os tool turn requirement a \<longleftrightarrow>
     attempt_linux_sandbox_exe a = turn_linux_sandbox_exe turn \<and> attempt_permissions a = turn_permission_profile turn
     \<and> (\<exists>w. attempt_sandbox a =
          (case sandbox_override_for_first_attempt (sandbox_permissions_of tool w) requirement
                  (file_system_sandbox_policy (turn_permission_profile turn)) of
             BypassSandboxFirstAttempt \<Rightarrow> NoSandbox
           | NoOverride \<Rightarrow> selected_sandbox os tool turn w))"

definition second_attempt ::
  "target_os \<Rightarrow> ('w, 't, 'p, 'o, 'x, 'e) tool_runtime \<Rightarrow> turn_context \<Rightarrow> sandbox_attempt \<Rightarrow> bool" where
  "second_attempt os tool turn a \<longleftrightarrow>
     attempt_permissions a = turn_permission_profile turn
     \<and> (if unsandboxed_execution_allowed (file_system_sandbox_policy (turn_permission_profile turn))
        then attempt_sandbox a = NoSandbox
        else attempt_linux_sandbox_exe a = turn_linux_sandbox_exe turn \<and> (\<exists>w. attempt_sandbox a = selected_sandbox os tool turn w))"

definition second_answers ::
  "('w, 't, 'p, 'o, 'x, 'e) tool_runtime \<Rightarrow> turn_context \<Rightarrow> ask_for_approval \<Rightarrow> bool \<Rightarrow> bool \<Rightarrow> tool_event list \<Rightarrow> bool" where
  "second_answers tool turn approval_policy strict already_approved es \<longleftrightarrow>
     consent strict es
     \<or> es = [] \<and> \<not> strict \<and> (\<exists>w payload. may_retry tool turn approval_policy payload w \<and> denial_context turn payload = None
          \<and> should_bypass_approval tool w approval_policy already_approved)"

lemma initial_approval_events:
  assumes "initial_approval env tool call_id strict g requirement s = (r, s')" "strict \<Longrightarrow> g"
  obtains (granted) es where "r = Ok (es \<noteq> [])" "session_events s' = session_events s @ es"
      "first_answers strict requirement es" "session_approvals s' = session_approvals s"
  | (refused) es m where "r = Err (Rejected m)" "session_events s' = session_events s @ es"
      "es = [] \<or> (\<exists>e. es = [e] \<and> \<not> approving e \<and> \<not> is_attempt e)" "session_approvals s' = session_approvals s"
proof -
  have asked: thesis
    if q: "require_approval env tool call_id g' hooks run_id reason nc s = (q, s')" "strict \<Longrightarrow> g' \<and> \<not> hooks"
      "r = obind q (\<lambda>_. Ok True)" for g' hooks run_id reason nc q
  proof -
    obtain e where e: "session_events s' = session_events s @ [e]" "\<not> is_attempt e" "session_approvals s' = session_approvals s"
      "approving e \<Longrightarrow> q = Ok ()" "\<not> approving e \<Longrightarrow> \<exists>m. q = Err (Rejected m)" "g' \<Longrightarrow> \<not> hooks \<Longrightarrow> by_guardian e"
      using require_approval_event [OF q(1)] by metis
    show thesis
    proof (cases "approving e")
      case True
      then have "first_answers strict requirement [e]" using e(6) q(2) by (auto simp: first_answers_def consent_def)
      with True e q(3) granted [of "[e]"] show thesis by simp
    next
      case False
      with e q(3) refused [of _ "[e]"] show thesis by auto
    qed
  qed
  from assms(1) show thesis
  proof (cases requirement)
    case (Skip b m)
    show thesis
    proof (cases strict)
      case True
      with assms(1) Skip show thesis by (auto simp: initial_approval_def split: prod.splits intro: asked)
    next
      case False
      with assms(1) Skip granted [of "[]"] show thesis by (auto simp: initial_approval_def first_answers_def)
    qed
  next
    case (NeedsApproval reason m)
    with assms show thesis by (auto simp: initial_approval_def split: prod.splits intro: asked)
  next
    case (ForbiddenExec reason)
    with assms(1) refused [of reason "[]"] show thesis by (auto simp: initial_approval_def)
  qed
qed

lemma retry_events:
  assumes "retry os env tool turn call_id ap strict g already_approved cwd out payload s = (r, s')" "strict \<Longrightarrow> g"
    and "may_retry tool turn ap payload (session_world s)"
  obtains (refused) e m where "r = Err (Rejected m)" "session_events s' = session_events s @ [e]" "\<not> approving e" "\<not> is_attempt e"
  | (retried) es a where "session_events s' = session_events s @ es @ [Attempted a]" "second_attempt os tool turn a"
      "second_answers tool turn ap strict already_approved es"
proof -
  let ?policy = "file_system_sandbox_policy (turn_permission_profile turn)"
  let ?attempt = "\<lambda>s. if unsandboxed_execution_allowed ?policy then new_attempt turn cwd NoSandbox None
      else new_attempt turn cwd (selected_sandbox os tool turn (session_world s)) (turn_linux_sandbox_exe turn)"
  let ?bypass = "\<not> strict \<and> should_bypass_approval tool (session_world s) ap already_approved \<and> denial_context turn payload = None"
  have attempted: "\<exists>a. session_events s' = session_events s1 @ [Attempted a] \<and> second_attempt os tool turn a"
    if ra: "(case run_attempt env tool turn (?attempt s1) (turn_network turn) s1 of
          (r, deferred, s) \<Rightarrow> (obind r (\<lambda>x. Ok (x, deferred)), s)) = (r, s')" for s1
  proof -
    obtain q deferred where "run_attempt env tool turn (?attempt s1) (turn_network turn) s1 = (q, deferred, s')"
      using ra by (cases "run_attempt env tool turn (?attempt s1) (turn_network turn) s1") simp
    then obtain token where "session_events s' = session_events s1 @ [Attempted (?attempt s1\<lparr>attempt_network_denial_token := token\<rparr>)]"
      by (rule run_attempt_event)
    moreover have "second_attempt os tool turn (?attempt s1\<lparr>attempt_network_denial_token := token\<rparr>)"
      by (auto simp: second_attempt_def new_attempt_def)
    ultimately show ?thesis by blast
  qed
  show thesis
  proof (cases ?bypass)
    case True
    with assms(1) obtain a where "session_events s' = session_events s @ [Attempted a]" "second_attempt os tool turn a"
      using attempted [of s] by (auto simp: retry_def Let_def)
    moreover have "second_answers tool turn ap strict already_approved []"
      using True assms(3) by (auto simp: second_answers_def)
    ultimately show thesis using retried [of "[]" a] by simp
  next
    case False
    obtain q s1 where q: "require_approval env tool call_id g (\<not> strict) (call_id @ str '':retry'')
        (Some (retry_reason_for (denial_context turn payload) out)) (denial_context turn payload) s = (q, s1)"
      by fastforce
    have rest: "(case q of Err err \<Rightarrow> (Err err, s1) | Panic \<Rightarrow> (Panic, s1)
         | Ok _ \<Rightarrow> (case run_attempt env tool turn (?attempt s1) (turn_network turn) s1 of
              (r, deferred, s) \<Rightarrow> (obind r (\<lambda>x. Ok (x, deferred)), s))) = (r, s')"
      using assms(1) unfolding retry_def Let_def if_not_P [OF False] q prod.case .
    obtain e where e: "session_events s1 = session_events s @ [e]" "\<not> is_attempt e"
      "approving e \<Longrightarrow> q = Ok ()" "\<not> approving e \<Longrightarrow> \<exists>m. q = Err (Rejected m)" "g \<Longrightarrow> \<not> \<not> strict \<Longrightarrow> by_guardian e"
      using require_approval_event [OF q] by metis
    show thesis
    proof (cases "approving e")
      case True
      then have "second_answers tool turn ap strict already_approved [e]"
        using e(5) assms(2) by (auto simp: second_answers_def consent_def)
      with True e rest attempted [of s1] retried [of "[e]"] show thesis by auto
    next
      case False
      with e rest refused [of _ e] show thesis by auto
    qed
  qed
qed

lemma run_cases:
  assumes "run os env tool turn call_id ap s = (r, s')"
  defines "strict \<equiv> strict_auto_review_enabled env (session_world s)"
    and "requirement \<equiv> requirement_of tool turn ap (session_world s)"
  obtains (refused) es m where "r = Err (Rejected m)" "session_events s' = session_events s @ es"
      "es = [] \<or> (\<exists>e. es = [e] \<and> \<not> approving e \<and> \<not> is_attempt e)"
  | (once) es a where "session_events s' = session_events s @ es @ [Attempted a]"
      "first_answers strict requirement es" "first_attempt os tool turn requirement a"
  | (retry_refused) es a e m where "r = Err (Rejected m)" "session_events s' = session_events s @ es @ [Attempted a, e]"
      "first_answers strict requirement es" "first_attempt os tool turn requirement a" "\<not> approving e" "\<not> is_attempt e"
  | (twice) es a es2 a2 where "session_events s' = session_events s @ es @ Attempted a # es2 @ [Attempted a2]"
      "first_answers strict requirement es" "first_attempt os tool turn requirement a"
      "second_answers tool turn ap strict (es \<noteq> []) es2" "second_attempt os tool turn a2"
proof -
  let ?g = "routes_approval_to_guardian turn \<or> strict"
  obtain q s1 where q: "initial_approval env tool call_id strict ?g requirement s = (q, s1)" by fastforce
  note run = assms(1) [unfolded run_def Let_def, folded requirement_of_def, folded strict_def, folded requirement_def, unfolded q prod.case]
  consider (granted) es where "q = Ok (es \<noteq> [])" "session_events s1 = session_events s @ es" "first_answers strict requirement es"
    | (not_granted) es m where "q = Err (Rejected m)" "session_events s1 = session_events s @ es"
      "es = [] \<or> (\<exists>e. es = [e] \<and> \<not> approving e \<and> \<not> is_attempt e)"
    by (rule initial_approval_events [OF q]) simp_all
  then show thesis
  proof cases
    case first: (granted es)
    let ?sandbox = "case sandbox_override_for_first_attempt (sandbox_permissions_of tool (session_world s1)) requirement
        (file_system_sandbox_policy (turn_permission_profile turn)) of
          BypassSandboxFirstAttempt \<Rightarrow> NoSandbox | NoOverride \<Rightarrow> selected_sandbox os tool turn (session_world s1)"
    let ?cwd = "case tool_sandbox_cwd tool (session_world s1) of Some d \<Rightarrow> d | None \<Rightarrow> turn_cwd turn"
    let ?attempt = "new_attempt turn ?cwd ?sandbox (turn_linux_sandbox_exe turn)"
    obtain x deferred s2 where a: "run_attempt env tool turn ?attempt (turn_network turn) s1 = (x, deferred, s2)" by (metis prod_cases3)
    obtain token where ev: "session_events s2 = session_events s1 @ [Attempted (?attempt\<lparr>attempt_network_denial_token := token\<rparr>)]"
      using run_attempt_event [OF a] .
    let ?a = "?attempt\<lparr>attempt_network_denial_token := token\<rparr>"
    have fst: "first_attempt os tool turn requirement ?a" unfolding first_attempt_def new_attempt_def by auto
    have finished: thesis if "s' = s2" using once [of es ?a] ev first fst that by simp
    note run = run [unfolded first(1) outcome.case a prod.case]
    show thesis
    proof (cases "\<exists>out payload. x = Err (SandboxDenied out payload) \<and> may_retry tool turn ap payload (session_world s2)")
      case True
      then obtain out payload where x: "x = Err (SandboxDenied out payload)" "may_retry tool turn ap payload (session_world s2)" by blast
      from run have "retry os env tool turn call_id ap strict ?g (es \<noteq> []) ?cwd out payload s2 = (r, s')" by (simp add: x)
      then consider (again_refused) e m where "r = Err (Rejected m)" "session_events s' = session_events s2 @ [e]" "\<not> approving e" "\<not> is_attempt e"
        | (again) es2 a2 where "session_events s' = session_events s2 @ es2 @ [Attempted a2]" "second_attempt os tool turn a2"
            "second_answers tool turn ap strict (es \<noteq> []) es2"
        by (rule retry_events [OF _ _ x(2)]) simp_all
      then show thesis
      proof cases
        case (again_refused e m)
        with retry_refused [of m es ?a e] ev first fst show thesis by simp
      next
        case (again es2 a2)
        with twice [of es ?a es2 a2] ev first fst show thesis by simp
      qed
    next
      case False
      with run show thesis by (intro finished) (auto split: outcome.splits tool_error.splits if_splits)
    qed
  next
    case (not_granted es m)
    with run show thesis by (intro refused) auto
  qed
qed

section \<open>Denied reads keep the sandbox\<close>

lemma answers_are_not_attempts:
  "first_answers strict requirement es \<Longrightarrow> list_all (\<lambda>e. \<not> is_attempt e \<and> approving e) es"
  "second_answers tool turn ap strict al es \<Longrightarrow> list_all (\<lambda>e. \<not> is_attempt e \<and> approving e) es"
proof -
  have "\<not> is_attempt e" if "approving e" for e using that by (cases e) auto
  then show "first_answers strict requirement es \<Longrightarrow> list_all (\<lambda>e. \<not> is_attempt e \<and> approving e) es"
    "second_answers tool turn ap strict al es \<Longrightarrow> list_all (\<lambda>e. \<not> is_attempt e \<and> approving e) es"
    by (auto simp: first_answers_def second_answers_def consent_def)
qed

definition denies_path :: "sandbox_entry \<Rightarrow> bool" where
  "denies_path e \<longleftrightarrow> access e = Deny
     \<and> (case entry_path e of Special Minimal \<Rightarrow> False | Special (Unknown _ _) \<Rightarrow> False | _ \<Rightarrow> True)"

lemma denies_path_narrows: "denies_path e \<Longrightarrow> narrows_write policy e"
  by (auto simp: denies_path_def narrows_write_def can_write_def has_same_target_write_override_def list_ex_iff
      less_access_mode_def split: file_system_path.splits special_path.splits)

lemma denials_need_sandbox:
  assumes "sandbox_kind policy = Restricted" "list_ex denies_path (sandbox_entries policy)"
    and "get_platform_sandbox os (level \<noteq> WindowsDisabled) = Some t"
  shows "select_initial os policy network PreferAuto level managed = t"
proof -
  have "\<not> has_full_disk_write_access policy"
    using assms(1,2) denies_path_narrows
    by (auto simp: has_full_disk_write_access_def has_write_narrowing_entries_def list_ex_iff)
  with assms show ?thesis by (simp add: select_initial_def should_require_platform_sandbox_def)
qed

text \<open>
  C6: where the profile of a turn denies reading a path, every attempt to run a tool stays in the sandbox of
  the platform with the permissions of the turn. Rules that allow the command, a request for
  escalation and the approval of the user do not change that.
\<close>

theorem denied_reads_stay_sandboxed:
  assumes "run os env tool turn call_id ap s = (r, s')" "session_events s = []"
    and "\<forall>w. sandbox_preference tool w = PreferAuto"
    and "sandbox_kind (file_system_sandbox_policy (turn_permission_profile turn)) = Restricted"
    and "list_ex denies_path (sandbox_entries (file_system_sandbox_policy (turn_permission_profile turn)))"
    and "get_platform_sandbox os (turn_windows_sandbox_level turn \<noteq> WindowsDisabled) = Some t"
    and "Attempted a \<in> set (session_events s')"
  shows "attempt_sandbox a = t \<and> attempt_permissions a = turn_permission_profile turn
    \<and> attempt_linux_sandbox_exe a = turn_linux_sandbox_exe turn"
proof -
  let ?policy = "file_system_sandbox_policy (turn_permission_profile turn)"
  have selected: "selected_sandbox os tool turn w = t" for w
    using denials_need_sandbox [OF assms(4,5,6)] assms(3) by (simp add: selected_sandbox_def)
  have not_allowed: "\<not> unsandboxed_execution_allowed ?policy"
    using assms(4,5) by (auto simp: unsandboxed_execution_allowed_def has_denied_read_restrictions_def denies_path_def list_ex_iff)
  have a1: ?thesis if "first_attempt os tool turn requirement a" for requirement
    using that selected not_allowed by (auto simp: first_attempt_def sandbox_override_for_first_attempt_def)
  have a2: ?thesis if "second_attempt os tool turn a"
    using that selected not_allowed by (auto simp: second_attempt_def)
  from assms(1) show ?thesis
  proof (cases rule: run_cases)
    case (refused es m)
    with assms(2,7) show ?thesis by auto
  next
    case (once es b)
    with assms(2,7) answers_are_not_attempts(1) [OF once(2)] a1 show ?thesis by (auto simp: list_all_iff)
  next
    case (retry_refused es b e m)
    with assms(2,7) answers_are_not_attempts(1) [OF retry_refused(3)] a1 show ?thesis by (auto simp: list_all_iff)
  next
    case (twice es b es2 b2)
    with assms(2,7) answers_are_not_attempts(1) [OF twice(2)] answers_are_not_attempts(2) [OF twice(4)] a1 a2 show ?thesis
      by (auto simp: list_all_iff)
  qed
qed

section \<open>Nothing leaves the sandbox unasked\<close>

lemma split_at_attempt:
  assumes "es @ Attempted a # rest = pre @ Attempted b # post" "list_all (\<lambda>e. \<not> is_attempt e) es"
  obtains "pre = es" "a = b" "post = rest"
  | pre' where "pre = es @ Attempted a # pre'" "rest = pre' @ Attempted b # post"
  using assms by (auto simp: append_eq_append_conv2 append_eq_Cons_conv Cons_eq_append_conv)

text \<open>
  C9: a tool is run outside the sandbox only with consent. If an attempt of a tool is made outside the
  sandbox although the policy of the turn calls for one, then a hook, the user or the reviewer approved the
  call before in the same run; or it is the first attempt and a rule of the execution policy lets the command
  bypass the sandbox, or the call asked for escalation and the execution policy skips the question.
\<close>

theorem unsandboxed_needs_consent:
  assumes "run os env tool turn call_id ap s = (r, s')" "session_events s = []"
    and "\<forall>w p b. should_bypass_approval tool w p b = default_should_bypass_approval p b"
    and "\<forall>w. \<not> wants_no_sandbox_approval tool w Never"
    and "\<forall>w. selected_sandbox os tool turn w \<noteq> NoSandbox"
    and "session_events s' = pre @ Attempted a # post" "attempt_sandbox a = NoSandbox"
  shows "list_ex approving pre
    \<or> \<not> list_ex is_attempt pre
       \<and> (\<exists>b m. requirement_of tool turn ap (session_world s) = Skip b m
            \<and> (b \<or> (\<exists>w. sandbox_permissions_of tool w = RequireEscalated)))"
proof -
  let ?req = "requirement_of tool turn ap (session_world s)" and ?strict = "strict_auto_review_enabled env (session_world s)"
  have first: ?thesis if "pre = es" "first_answers ?strict ?req es" "first_attempt os tool turn ?req a" for es
  proof (cases "es = []")
    case True
    with that(2) obtain b m where req: "?req = Skip b m" by (auto simp: first_answers_def consent_def)
    have "NoSandbox \<noteq> selected_sandbox os tool turn w" for w using assms(5) by metis
    with req that(3) assms(7) have "b \<or> (\<exists>w. sandbox_permissions_of tool w = RequireEscalated)"
      by (auto simp: first_attempt_def sandbox_override_for_first_attempt_def requires_escalated_permissions_def split: if_splits)
    with True that(1) req show ?thesis by auto
  next
    case False
    with answers_are_not_attempts(1) [OF that(2)] that(1) show ?thesis by (cases es) auto
  qed
  have second: ?thesis
    if "pre = es @ Attempted b # es2" "second_answers tool turn ap ?strict (es \<noteq> []) es2" "first_answers ?strict ?req es" for es b es2
  proof (cases "es2 = [] \<and> es = []")
    case True
    with that(2) obtain w payload where "may_retry tool turn ap payload w" "denial_context turn payload = None"
      "should_bypass_approval tool w ap False" by (auto simp: second_answers_def consent_def)
    with assms(3,4) have False by (auto simp: default_should_bypass_approval_def may_retry_def Let_def)
    then show ?thesis ..
  next
    case False
    with answers_are_not_attempts(1) [OF that(3)] answers_are_not_attempts(2) [OF that(2)] that(1) show ?thesis
      by (cases es; cases es2) auto
  qed
  from assms(1) show ?thesis
  proof (cases rule: run_cases)
    case (refused es m)
    with assms(2,6) show ?thesis by (auto simp: append_eq_Cons_conv Cons_eq_append_conv)
  next
    case (once es b)
    have "list_all (\<lambda>e. \<not> is_attempt e) es" using answers_are_not_attempts(1) [OF once(2)] by (simp add: list_all_iff)
    then show ?thesis using once assms(2,6) first [of es] by (elim split_at_attempt [of es b "[]" pre a post, rotated]) auto
  next
    case (retry_refused es b e m)
    have "list_all (\<lambda>e. \<not> is_attempt e) es" using answers_are_not_attempts(1) [OF retry_refused(3)] by (simp add: list_all_iff)
    then show ?thesis using retry_refused assms(2,6) first [of es]
      by (elim split_at_attempt [of es b "[e]" pre a post, rotated]) (auto simp: Cons_eq_append_conv)
  next
    case (twice es b es2 b2)
    have "list_all (\<lambda>e. \<not> is_attempt e) es" "list_all (\<lambda>e. \<not> is_attempt e) es2"
      using answers_are_not_attempts(1) [OF twice(2)] answers_are_not_attempts(2) [OF twice(4)] by (simp_all add: list_all_iff)
    note free = this
    have "es @ Attempted b # es2 @ [Attempted b2] = pre @ Attempted a # post" using twice(1) assms(2,6) by simp
    from this free(1) show ?thesis
    proof (cases rule: split_at_attempt)
      case 1
      with twice first [of es] show ?thesis by simp
    next
      case (2 pre')
      from this(2) free(2) have "pre' = es2" by (cases rule: split_at_attempt) simp_all
      with 2(1) twice second [of es b es2] show ?thesis by simp
    qed
  qed
qed

section \<open>Strict review and refusals\<close>

lemma consent_last: "consent strict es \<Longrightarrow> strict \<Longrightarrow> es \<noteq> [] \<and> approving (last es) \<and> by_guardian (last es)"
  by (auto simp: consent_def)

text \<open>
  Under strict automatic review every single attempt has its own review. Directly before each attempt, the
  retry outside the sandbox included, the guardian approved the call; no hook and no earlier approval
  takes its place.
\<close>

theorem strict_review_each_attempt:
  assumes "run os env tool turn call_id ap s = (r, s')" "session_events s = []"
    and "strict_auto_review_enabled env (session_world s)"
    and "session_events s' = pre @ Attempted a # post"
  shows "pre \<noteq> [] \<and> approving (last pre) \<and> by_guardian (last pre)"
proof -
  have first: "es \<noteq> [] \<and> approving (last es) \<and> by_guardian (last es)" "list_all (\<lambda>e. \<not> is_attempt e) es"
    if "first_answers (strict_auto_review_enabled env (session_world s)) req es" for req es
    using that assms(3) consent_last [of True es] answers_are_not_attempts(1) [OF that] by (auto simp: first_answers_def list_all_iff)
  from assms(1) show ?thesis
  proof (cases rule: run_cases)
    case (refused es m)
    with assms(2,4) show ?thesis by (auto simp: append_eq_Cons_conv Cons_eq_append_conv)
  next
    case (once es b)
    then have "es @ Attempted b # [] = pre @ Attempted a # post" using assms(2,4) by simp
    from this first(2) [OF once(2)] show ?thesis by (cases rule: split_at_attempt) (use first(1) [OF once(2)] in simp_all)
  next
    case (retry_refused es b e m)
    then have "es @ Attempted b # [e] = pre @ Attempted a # post" using assms(2,4) by simp
    from this first(2) [OF retry_refused(3)] show ?thesis
      by (cases rule: split_at_attempt) (use first(1) [OF retry_refused(3)] retry_refused(6) in \<open>auto simp: Cons_eq_append_conv\<close>)
  next
    case (twice es b es2 b2)
    have es2: "es2 \<noteq> [] \<and> approving (last es2) \<and> by_guardian (last es2)" "list_all (\<lambda>e. \<not> is_attempt e) es2"
      using twice(4) assms(3) consent_last [of True es2] answers_are_not_attempts(2) [OF twice(4)]
      by (auto simp: second_answers_def list_all_iff)
    have "es @ Attempted b # es2 @ [Attempted b2] = pre @ Attempted a # post" using twice(1) assms(2,4) by simp
    from this first(2) [OF twice(2)] show ?thesis
    proof (cases rule: split_at_attempt)
      case 1
      with first(1) [OF twice(2)] show ?thesis by simp
    next
      case (2 pre')
      from this(2) es2(2) have "pre' = es2" by (cases rule: split_at_attempt) simp_all
      with 2(1) es2(1) show ?thesis by simp
    qed
  qed
qed

text \<open>
  C24: a refusal is final. A run makes at most two attempts; every answer but the last
  event was an approval; and when the last event is an answer, it was a refusal, nothing was run after it, and
  the call fails as rejected.
\<close>

theorem refusal_ends_run:
  assumes "run os env tool turn call_id ap s = (r, s')" "session_events s = []"
  shows "length (filter is_attempt (session_events s')) \<le> 2
    \<and> list_all (\<lambda>e. is_attempt e \<or> approving e) (butlast (session_events s'))
    \<and> (session_events s' \<noteq> [] \<and> \<not> is_attempt (last (session_events s')) \<longrightarrow>
         \<not> approving (last (session_events s')) \<and> (\<exists>m. r = Err (Rejected m)))"
proof -
  have answers: "filter is_attempt es = []" "list_all (\<lambda>e. is_attempt e \<or> approving e) es"
    if "list_all (\<lambda>e. \<not> is_attempt e \<and> approving e) es" for es
    using that by (auto simp: list_all_iff)
  from assms(1) show ?thesis
  proof (cases rule: run_cases)
    case (refused es m)
    with assms(2) show ?thesis by auto
  next
    case (once es a)
    with assms(2) answers [OF answers_are_not_attempts(1) [OF once(2)]] show ?thesis by (simp add: butlast_append)
  next
    case (retry_refused es a e m)
    with assms(2) answers [OF answers_are_not_attempts(1) [OF retry_refused(3)]] show ?thesis by (simp add: butlast_append)
  next
    case (twice es a es2 a2)
    with assms(2) answers [OF answers_are_not_attempts(1) [OF twice(2)]] answers [OF answers_are_not_attempts(2) [OF twice(4)]]
    show ?thesis by (simp add: butlast_append)
  qed
qed

section \<open>No registration is leaked\<close>

lemma update_fresh: "k \<notin> fst ` set al \<Longrightarrow> AList.update k v al = al @ [(k, v)]"
  by (induction al) auto

lemma delete_fresh: "k \<notin> fst ` set al \<Longrightarrow> AList.delete k (al @ [(k, v)]) = al"
  by (induction al) (auto simp: AList.delete_eq)

definition keeps_calls :: "('w, 't, 'p, 'o, 'x, 'e) tool_runtime \<Rightarrow> bool" where
  "keeps_calls tool \<longleftrightarrow> (\<forall>a w sv. active_calls (snd (snd (tool_run tool a (w, sv)))) = active_calls sv)"

definition open_calls :: "('w, 't) tool_session \<Rightarrow> ustr list" where
  "open_calls s = map fst (active_calls (session_approvals s))"

definition deferred_ids :: "deferred_network_approval option \<Rightarrow> ustr list" where
  "deferred_ids d = (case d of Some d \<Rightarrow> [deferred_registration_id d] | None \<Rightarrow> [])"

lemma run_attempt_calls:
  assumes "run_attempt env tool turn a managed s = (r, deferred, s')" "keeps_calls tool"
    and "\<forall>w. fst (new_registration_id env w) \<notin> set (open_calls s)"
  shows "(r \<noteq> Panic \<longrightarrow> open_calls s' = open_calls s @ deferred_ids deferred) \<and> (deferred \<noteq> None \<longrightarrow> (\<exists>x. r = Ok x))"
proof -
  obtain na s1 where b: "begin_network_approval env (turn_sub_id turn) managed (network_approval_spec_of tool (session_world s)) s = (na, s1)"
    by fastforce
  define s2 where "s2 = record_event (Attempted (a\<lparr>attempt_network_denial_token := map_option active_token na\<rparr>)) s1"
  obtain q w sv where run: "tool_run tool (a\<lparr>attempt_network_denial_token := map_option active_token na\<rparr>)
      (session_world s2, session_approvals s2) = (q, w, sv)" by (metis prod_cases3)
  have sv: "active_calls sv = active_calls (session_approvals s1)"
    using assms(2) run by (simp add: keeps_calls_def s2_def record_event_def) (metis snd_conv)
  show ?thesis
  proof (cases na)
    case None
    then have "s1 = s" using b by (auto simp: begin_network_approval_def split: option.splits if_splits prod.splits)
    then show ?thesis
      using assms(1) run sv None by (auto simp: run_attempt_def b Let_def s2_def open_calls_def deferred_ids_def split: if_splits)
  next
    case (Some active)
    then obtain i call where i: "active_registration_id active = Some i" "i \<notin> set (open_calls s)"
      and s1: "active_calls (session_approvals s1) = active_calls (session_approvals s) @ [(i, call)]"
      using b assms(3)
      by (auto simp: begin_network_approval_def register_call_def update_fresh open_calls_def
          split: option.splits if_splits prod.splits) (metis fst_conv)
    have removed: "active_calls (snd (remove_call i sv)) = active_calls (session_approvals s)"
      using i(2) by (simp add: remove_call_def sv s1 delete_fresh open_calls_def)
    show ?thesis
    proof (cases "active_mode active")
      case Immediate
      then show ?thesis
        using assms(1) run removed Some i(1)
        by (auto simp: run_attempt_def b Let_def s2_def finish_immediate_network_approval_def finish_call_def open_calls_def
            deferred_ids_def lift_rejection_def split: prod.splits outcome.splits if_splits)
    next
      case Deferred
      then show ?thesis
        using assms(1) run removed Some i(1) sv s1
        by (auto simp: run_attempt_def b Let_def s2_def finish_deferred_network_approval_def deferred_finish_def into_deferred_def
            open_calls_def deferred_ids_def lift_rejection_def split: prod.splits outcome.splits if_splits)
    qed
  qed
qed

definition result_ids :: "('o \<times> deferred_network_approval option, 'z) outcome \<Rightarrow> ustr list" where
  "result_ids r = (case r of Ok (_, d) \<Rightarrow> deferred_ids d | _ \<Rightarrow> [])"

lemma retry_calls:
  assumes "retry os env tool turn call_id ap strict g al cwd out payload s = (r, s')" "keeps_calls tool"
    and "\<forall>w. fst (new_registration_id env w) \<notin> set (open_calls s)"
    and "r \<noteq> Panic"
  shows "open_calls s' = open_calls s @ result_ids r"
proof -
  let ?bypass = "\<not> strict \<and> should_bypass_approval tool (session_world s) ap al \<and> denial_context turn payload = None"
  let ?q = "if ?bypass then (Ok (), s) else require_approval env tool call_id g (\<not> strict) (call_id @ str '':retry'')
        (Some (retry_reason_for (denial_context turn payload) out)) (denial_context turn payload) s"
  obtain q s1 where q: "?q = (q, s1)" by fastforce
  have kept: "open_calls s1 = open_calls s"
  proof (cases ?bypass)
    case True
    with q show ?thesis by auto
  next
    case False
    then have "require_approval env tool call_id g (\<not> strict) (call_id @ str '':retry'')
        (Some (retry_reason_for (denial_context turn payload) out)) (denial_context turn payload) s = (q, s1)"
      using q by (simp only: if_False)
    then show ?thesis by (rule require_approval_event) (simp add: open_calls_def)
  qed
  note retry = assms(1) [unfolded retry_def Let_def q prod.case]
  show ?thesis
  proof (cases q)
    case (Ok u)
    obtain x deferred s2 where a: "run_attempt env tool turn
        (if unsandboxed_execution_allowed (file_system_sandbox_policy (turn_permission_profile turn))
         then new_attempt turn cwd NoSandbox None
         else new_attempt turn cwd (selected_sandbox os tool turn (session_world s1)) (turn_linux_sandbox_exe turn))
        (turn_network turn) s1 = (x, deferred, s2)" by (metis prod_cases3)
    from run_attempt_calls [OF a assms(2)] assms(3) kept
    have "x \<noteq> Panic \<longrightarrow> open_calls s2 = open_calls s @ deferred_ids deferred" "deferred \<noteq> None \<longrightarrow> (\<exists>y. x = Ok y)"
      by simp_all
    then show ?thesis using retry assms(4) unfolding Ok outcome.case a prod.case
      by (cases x) (auto simp: result_ids_def deferred_ids_def)
  qed (use retry kept in \<open>auto simp: result_ids_def\<close>)
qed

text \<open>
  C21: no registration with the network approval service is left behind by a run that returns. After a run that ends
  in a result or in an error, of a tool that does not touch the registered calls itself and with fresh registration
  ids, the calls that are registered are those registered before, plus the one the result hands to the caller to
  finish later, if it does. A panic of the tool is the exception: \<open>panic_leaks_registration\<close> below.
\<close>

theorem no_registration_leaked:
  assumes "run os env tool turn call_id ap s = (r, s')" "keeps_calls tool"
    and "\<forall>w. fst (new_registration_id env w) \<notin> set (open_calls s)"
    and "r \<noteq> Panic"
  shows "open_calls s' = open_calls s @ result_ids r"
proof -
  let ?strict = "strict_auto_review_enabled env (session_world s)"
  let ?g = "routes_approval_to_guardian turn \<or> ?strict"
  let ?req = "requirement_of tool turn ap (session_world s)"
  obtain q s1 where q: "initial_approval env tool call_id ?strict ?g ?req s = (q, s1)" by fastforce
  have kept: "open_calls s1 = open_calls s" by (rule initial_approval_events [OF q]) (simp_all add: open_calls_def)
  note run = assms(1) [unfolded run_def Let_def, folded requirement_of_def, unfolded q prod.case]
  show ?thesis
  proof (cases q)
    case (Ok already)
    let ?sandbox = "case sandbox_override_for_first_attempt (sandbox_permissions_of tool (session_world s1)) ?req
        (file_system_sandbox_policy (turn_permission_profile turn)) of
          BypassSandboxFirstAttempt \<Rightarrow> NoSandbox | NoOverride \<Rightarrow> selected_sandbox os tool turn (session_world s1)"
    let ?cwd = "case tool_sandbox_cwd tool (session_world s1) of Some d \<Rightarrow> d | None \<Rightarrow> turn_cwd turn"
    obtain x deferred s2 where a: "run_attempt env tool turn (new_attempt turn ?cwd ?sandbox (turn_linux_sandbox_exe turn))
        (turn_network turn) s1 = (x, deferred, s2)" by (metis prod_cases3)
    from run_attempt_calls [OF a assms(2)] assms(3) kept
    have calls: "x \<noteq> Panic \<longrightarrow> open_calls s2 = open_calls s @ deferred_ids deferred" "deferred \<noteq> None \<longrightarrow> (\<exists>y. x = Ok y)"
      by simp_all
    note run = run [unfolded Ok outcome.case a prod.case]
    show ?thesis
    proof (cases x)
      case (Ok y)
      with run calls show ?thesis by (auto simp: result_ids_def)
    next
      case (Err err)
      then have s2: "open_calls s2 = open_calls s" using calls by (auto simp: deferred_ids_def split: option.splits)
      show ?thesis
      proof (cases "\<exists>out payload. err = SandboxDenied out payload \<and> may_retry tool turn ap payload (session_world s2)")
        case True
        then obtain out payload where
          "retry os env tool turn call_id ap ?strict ?g already ?cwd out payload s2 = (r, s')"
          using run Err by auto
        from retry_calls [OF this assms(2)] s2 assms(3,4) show ?thesis by simp
      next
        case False
        with run Err s2 show ?thesis by (auto simp: result_ids_def split: tool_error.splits if_splits)
      qed
    next
      case Panic
      with run assms(4) show ?thesis by auto
    qed
  qed (use run kept in \<open>auto simp: result_ids_def\<close>)
qed

section \<open>A run\<close>

text \<open>A tool whose command fails in the sandbox and works outside; the world counts the ids that were made.\<close>

definition demo_env :: "bool \<Rightarrow> (nat, unit) session_env" where
  "demo_env strict = \<lparr>strict_auto_review_enabled = (\<lambda>_. strict), run_permission_request_hooks = (\<lambda>_ _ w. (None, w)),
     guardian_rejection_message = (\<lambda>_ _. []), guardian_timeout_message = [],
     new_guardian_review_id = (\<lambda>w. (show_nat w, Suc w)), new_registration_id = (\<lambda>w. (show_nat w, Suc w))\<rparr>"

definition demo_tool :: "(nat, unit, unit, unit, unit, unit) tool_runtime" where
  "demo_tool = \<lparr>exec_approval_requirement_of = (\<lambda>_. Some (Skip False None)), sandbox_permissions_of = (\<lambda>_. UseDefault),
     should_bypass_approval = (\<lambda>_. default_should_bypass_approval),
     wants_no_sandbox_approval = (\<lambda>_. default_wants_no_sandbox_approval),
     permission_request_payload = (\<lambda>_. Some ()), start_approval = (\<lambda>_ w. (Approved, w)),
     sandbox_preference = (\<lambda>_. PreferAuto), escalate_on_failure = (\<lambda>_. True),
     network_approval_spec_of = (\<lambda>_. Some \<lparr>spec_network = True, spec_mode = Deferred, spec_trigger = (), spec_command = []\<rparr>),
     tool_sandbox_cwd = (\<lambda>_. None),
     tool_run = (\<lambda>a (w, sv). (if attempt_sandbox a = NoSandbox then Ok () else Err (SandboxDenied () None), w, sv))\<rparr>"

definition demo_turn :: "sandbox_entry list \<Rightarrow> turn_context" where
  "demo_turn es = \<lparr>turn_sub_id = [], turn_permission_profile = Managed (ManagedRestricted es None) NetworkRestricted,
     turn_approval_policy = OnFailure, turn_auto_review = False, turn_network = True,
     turn_windows_sandbox_level = WindowsDisabled, turn_use_legacy_landlock = False, turn_cwd = str ''/w'',
     turn_workspace_roots = [str ''/w''], turn_linux_sandbox_exe = None, turn_windows_private_desktop = False\<rparr>"

definition demo_session :: "(nat, unit) tool_session" where
  "demo_session = \<lparr>session_world = 0, session_approvals = default_service, session_events = []\<rparr>"

definition demo_run where
  "demo_run strict es = run Linux (demo_env strict) demo_tool (demo_turn es) (str ''call'') OnFailure demo_session"

lemma demo_events: "session_events demo_session = []"
  by (simp add: demo_session_def)

definition attempted_in :: "sandbox_type \<Rightarrow> tool_event \<Rightarrow> bool" where
  "attempted_in t e \<longleftrightarrow> (case e of Attempted a \<Rightarrow> attempt_sandbox a = t | _ \<Rightarrow> False)"

lemma attempt_split:
  assumes "list_ex (attempted_in t) es"
  obtains pre a post where "es = pre @ Attempted a # post" "attempt_sandbox a = t"
proof -
  obtain e where "e \<in> set es" "attempted_in t e" using assms by (auto simp: list_ex_iff)
  then show thesis using that by (cases e rule: tool_event.exhaust) (auto simp: attempted_in_def in_set_conv_decomp)
qed

theorem denied_reads_stay_sandboxed_witness:
  "\<exists>a. Attempted a \<in> set (session_events (snd (demo_run False (sandbox_entries secret_policy)))) \<and> attempt_sandbox a = LinuxSeccomp
     \<and> attempt_permissions a = Managed (ManagedRestricted (sandbox_entries secret_policy) None) NetworkRestricted"
proof -
  let ?es = "sandbox_entries secret_policy"
  obtain r s' where run: "demo_run False ?es = (r, s')" by fastforce
  have "list_ex (attempted_in LinuxSeccomp) (session_events (snd (demo_run False ?es)))" by code_simp
  then obtain a where a: "Attempted a \<in> set (session_events s')" using attempt_split run by (metis in_set_conv_decomp snd_conv)
  have "list_ex denies_path ?es" "get_platform_sandbox Linux (turn_windows_sandbox_level (demo_turn ?es) \<noteq> WindowsDisabled) = Some LinuxSeccomp"
    by code_simp+
  with denied_reads_stay_sandboxed [OF run [unfolded demo_run_def] demo_events _ _ _ _ a, of LinuxSeccomp] a run
  show ?thesis by (auto simp: demo_tool_def demo_turn_def)
qed

definition read_entries :: "sandbox_entry list" where
  "read_entries = [entry_for (Special Root) Read]"

theorem unsandboxed_needs_consent_witness:
  "\<exists>pre a post. session_events (snd (demo_run False read_entries)) = pre @ Attempted a # post
     \<and> attempt_sandbox a = NoSandbox \<and> list_ex approving pre"
proof -
  obtain r s' where run: "demo_run False read_entries = (r, s')" by fastforce
  have "list_ex (attempted_in NoSandbox) (session_events (snd (demo_run False read_entries)))" by code_simp
  then obtain pre a post where a: "session_events s' = pre @ Attempted a # post" "attempt_sandbox a = NoSandbox"
    using attempt_split run by (metis snd_conv)
  have "selected_sandbox Linux demo_tool (demo_turn read_entries) 0 \<noteq> NoSandbox" by code_simp
  then have "selected_sandbox Linux demo_tool (demo_turn read_entries) w \<noteq> NoSandbox" for w
    by (simp add: selected_sandbox_def demo_tool_def)
  with unsandboxed_needs_consent [OF run [unfolded demo_run_def] demo_events _ _ _ a]
  have "list_ex approving pre"
    by (auto simp: demo_tool_def requirement_of_def default_wants_no_sandbox_approval_def)
  with a run show ?thesis by auto
qed

theorem strict_review_each_attempt_witness:
  "\<exists>pre a post. session_events (snd (demo_run True read_entries)) = pre @ Attempted a # post
     \<and> attempt_sandbox a = NoSandbox \<and> pre \<noteq> [] \<and> approving (last pre) \<and> by_guardian (last pre)"
proof -
  obtain r s' where run: "demo_run True read_entries = (r, s')" by fastforce
  have "list_ex (attempted_in NoSandbox) (session_events (snd (demo_run True read_entries)))" by code_simp
  then obtain pre a post where a: "session_events s' = pre @ Attempted a # post" "attempt_sandbox a = NoSandbox"
    using attempt_split run by (metis snd_conv)
  from strict_review_each_attempt [OF run [unfolded demo_run_def] demo_events _ a(1)] a run show ?thesis
    by (auto simp: demo_env_def)
qed

theorem refusal_ends_run_witness:
  "length (filter is_attempt (session_events (snd (demo_run False read_entries)))) \<le> 2
   \<and> list_all (\<lambda>e. is_attempt e \<or> approving e) (butlast (session_events (snd (demo_run False read_entries))))"
proof -
  obtain r s' where run: "demo_run False read_entries = (r, s')" by fastforce
  from refusal_ends_run [OF run [unfolded demo_run_def] demo_events] run show ?thesis by simp
qed

theorem no_registration_leaked_witness:
  "open_calls demo_session = [] \<and> open_calls (snd (demo_run False read_entries)) = [str ''1'']
   \<and> result_ids (fst (demo_run False read_entries)) = [str ''1'']"
proof -
  obtain r s' where run: "demo_run False read_entries = (r, s')" by fastforce
  have "keeps_calls demo_tool" by (simp add: keeps_calls_def demo_tool_def)
  moreover have none: "open_calls demo_session = []" by (simp add: open_calls_def demo_session_def default_service_def)
  moreover have ids: "result_ids (fst (demo_run False read_entries)) = [str ''1'']" by code_simp
  moreover have "r \<noteq> Panic" using ids run by (auto simp: result_ids_def)
  ultimately show ?thesis using no_registration_leaked [OF run [unfolded demo_run_def]] run by simp
qed

text \<open>A tool that panics leaves its registration behind.\<close>

lemma panic_leaks_registration:
  "let (r, s) = run Linux (demo_env False) (demo_tool\<lparr>tool_run := (\<lambda>a (w, sv). (Panic, w, sv))\<rparr>)
                  (demo_turn read_entries) (str ''call'') OnFailure demo_session
   in r = Panic \<and> open_calls demo_session = [] \<and> open_calls s = [str ''0'']"
  by code_simp

end
