(* ===== verification/Approval_Store.thy ===== *)
theory Approval_Store
  imports Tool_Orchestrator Bash_Script
begin

text \<open>
  Approvals for the rest of a session: the store and \<open>with_cached_approval\<close> of
  \<open>codex-rs/core/src/tools/sandboxing.rs\<close>, the approval keys and \<open>start_approval_async\<close> of the tools under
  \<open>tools/runtimes\<close>, and the canonical commands of \<open>command_canonicalization.rs\<close>. The serialisation of
  keys (\<open>serde_json\<close>), the guardian and the user are parameters; the questions the user was asked are
  written down with the keys they were about.
\<close>

section \<open>Canonical commands\<close>

definition CANONICAL_BASH_SCRIPT_PREFIX :: ustr where "CANONICAL_BASH_SCRIPT_PREFIX = str ''__codex_shell_script__''"
definition CANONICAL_POWERSHELL_SCRIPT_PREFIX :: ustr where "CANONICAL_POWERSHELL_SCRIPT_PREFIX = str ''__codex_powershell_script__''"

definition POWERSHELL_FLAGS :: "ustr list" where
  "POWERSHELL_FLAGS = [str ''-nologo'', str ''-noprofile'', str ''-command'', str ''-c'']"

text \<open>The loop over the arguments after the shell.\<close>

fun powershell_script :: "ustr list \<Rightarrow> ustr option" where
  "powershell_script (flag # next # rest) =
     (if to_ascii_lowercase flag \<notin> set POWERSHELL_FLAGS then None
      else if eq_ignore_ascii_case flag (str ''-Command'') \<or> eq_ignore_ascii_case flag (str ''-c'') then Some next
      else powershell_script (next # rest))"
| "powershell_script _ = None"

definition extract_powershell_command :: "ustr list \<Rightarrow> (ustr \<times> ustr) option" where
  "extract_powershell_command command =
     (if length command < 3 then None
      else if detect_shell_type (hd command) \<noteq> Some PowerShell then None
      else map_option (\<lambda>script. (hd command, script)) (powershell_script (tl command)))"

definition canonicalize_command_for_approval :: "(ustr \<Rightarrow> tree option) \<Rightarrow> ustr list \<Rightarrow> ustr list" where
  "canonicalize_command_for_approval parse command =
     (case parse_shell_lc_plain_commands parse command of
        Some [single_command] \<Rightarrow> single_command
      | _ \<Rightarrow>
          (case extract_bash_command command of
             Some (_, script) \<Rightarrow>
               [CANONICAL_BASH_SCRIPT_PREFIX, (case vec_get command 1 of Some m \<Rightarrow> m | None \<Rightarrow> []), script]
           | None \<Rightarrow>
               (case extract_powershell_command command of
                  Some (_, script) \<Rightarrow> [CANONICAL_POWERSHELL_SCRIPT_PREFIX, script]
                | None \<Rightarrow> command)))"

text \<open>
  PowerShell runs all arguments after \<open>-Command\<close> as the script; the canonical form keeps the first only, so
  an approval for the session covers commands nobody has seen.
\<close>

lemma powershell_arguments_dropped:
  "canonicalize_command_for_approval parse [str ''pwsh'', str ''-Command'', str ''echo a'', str ''; Remove-Item x''] =
   canonicalize_command_for_approval parse [str ''pwsh'', str ''-Command'', str ''echo a'']"
proof -
  have "extract_bash_command [str ''pwsh'', str ''-Command'', str ''echo a'', str ''; Remove-Item x''] = None"
    "extract_bash_command [str ''pwsh'', str ''-Command'', str ''echo a''] = None"
    "extract_powershell_command [str ''pwsh'', str ''-Command'', str ''echo a'', str ''; Remove-Item x''] = Some (str ''pwsh'', str ''echo a'')"
    "extract_powershell_command [str ''pwsh'', str ''-Command'', str ''echo a''] = Some (str ''pwsh'', str ''echo a'')"
    by code_simp+
  then show ?thesis by (simp add: canonicalize_command_for_approval_def parse_shell_lc_plain_commands_def)
qed

section \<open>The store\<close>

datatype approval_key =
    PatchKey ustr ustr \<comment> \<open>environment, file\<close>
  | ShellKey "ustr list" ustr sandbox_permissions "additional_permission_profile option"
      \<comment> \<open>canonical command, directory, sandbox permissions, additional permissions\<close>
  | UnifiedExecKey "ustr list" ustr bool sandbox_permissions "additional_permission_profile option"
      \<comment> \<open>also whether a terminal is attached\<close>

type_synonym approval_store = "ustr \<rightharpoonup> review_decision"

definition store_get :: "(approval_key \<Rightarrow> ustr option) \<Rightarrow> approval_store \<Rightarrow> approval_key \<Rightarrow> review_decision option" where
  "store_get to_json store key = Option.bind (to_json key) store"

definition store_put :: "(approval_key \<Rightarrow> ustr option) \<Rightarrow> approval_key \<Rightarrow> review_decision \<Rightarrow> approval_store \<Rightarrow> approval_store" where
  "store_put to_json key v store = (case to_json key of Some s \<Rightarrow> store(s \<mapsto> v) | None \<Rightarrow> store)"

record 'w approval_session =
  tool_approvals :: approval_store
  approval_world :: 'w
  asked :: "(approval_key list \<times> review_decision) list"

definition with_cached_approval ::
  "(approval_key \<Rightarrow> ustr option) \<Rightarrow> approval_key list \<Rightarrow> ('w approval_session \<Rightarrow> review_decision \<times> 'w approval_session)
    \<Rightarrow> 'w approval_session \<Rightarrow> review_decision \<times> 'w approval_session" where
  "with_cached_approval to_json keys fetch s =
     (if keys = [] then fetch s
      else if list_all (\<lambda>key. store_get to_json (tool_approvals s) key = Some ApprovedForSession) keys then (ApprovedForSession, s)
      else case fetch s of (decision, s) \<Rightarrow>
        (decision,
         if decision = ApprovedForSession
         then s\<lparr>tool_approvals := fold (\<lambda>key. store_put to_json key ApprovedForSession) keys (tool_approvals s)\<rparr>
         else s))"

section \<open>The tools\<close>

record 'w reviewers =
  guardian_reviews :: "approval_ctx \<Rightarrow> 'w \<Rightarrow> review_decision \<times> 'w"
  user_answers :: "ustr option \<Rightarrow> 'w \<Rightarrow> review_decision option \<times> 'w" \<comment> \<open>reason; \<open>None\<close> when nobody answers\<close>

text \<open>A question to the user about some keys; a patch that nobody answers for is denied.\<close>

definition ask_user :: "'w reviewers \<Rightarrow> approval_key list \<Rightarrow> ustr option \<Rightarrow> 'w approval_session \<Rightarrow> review_decision \<times> 'w approval_session" where
  "ask_user rv keys reason s =
     (case user_answers rv reason (approval_world s) of
        (answer, w) \<Rightarrow>
          let decision = (case answer of Some d \<Rightarrow> d | None \<Rightarrow> ReviewDenied) in
          (decision, s\<lparr>approval_world := w, asked := asked s @ [(keys, decision)]\<rparr>))"

definition ask_guardian :: "'w reviewers \<Rightarrow> approval_ctx \<Rightarrow> 'w approval_session \<Rightarrow> review_decision \<times> 'w approval_session" where
  "ask_guardian rv ctx s =
     (case guardian_reviews rv ctx (approval_world s) of (decision, w) \<Rightarrow> (decision, s\<lparr>approval_world := w\<rparr>))"

record apply_patch_request =
  patch_environment_id :: ustr
  patch_file_paths :: "ustr list"
  permissions_preapproved :: bool

definition patch_approval_keys :: "apply_patch_request \<Rightarrow> approval_key list" where
  "patch_approval_keys req = map (PatchKey (patch_environment_id req)) (patch_file_paths req)"

definition patch_start_approval ::
  "(approval_key \<Rightarrow> ustr option) \<Rightarrow> 'w reviewers \<Rightarrow> apply_patch_request \<Rightarrow> approval_ctx \<Rightarrow> 'w approval_session
    \<Rightarrow> review_decision \<times> 'w approval_session" where
  "patch_start_approval to_json rv req ctx s =
     (if ctx_guardian_review_id ctx \<noteq> None then ask_guardian rv ctx s
      else if permissions_preapproved req \<and> ctx_retry_reason ctx = None then (Approved, s)
      else if ctx_retry_reason ctx \<noteq> None then ask_user rv (patch_approval_keys req) (ctx_retry_reason ctx) s
      else with_cached_approval to_json (patch_approval_keys req) (ask_user rv (patch_approval_keys req) None) s)"

record shell_request =
  shell_command :: "ustr list"
  shell_cwd :: ustr
  shell_tty :: "bool option" \<comment> \<open>given for unified exec only\<close>
  shell_sandbox_permissions :: sandbox_permissions
  shell_additional_permissions :: "additional_permission_profile option"
  shell_justification :: "ustr option"

definition shell_approval_keys :: "(ustr \<Rightarrow> tree option) \<Rightarrow> shell_request \<Rightarrow> approval_key list" where
  "shell_approval_keys parse req =
     (let command = canonicalize_command_for_approval parse (shell_command req) in
      [case shell_tty req of
         None \<Rightarrow> ShellKey command (shell_cwd req) (shell_sandbox_permissions req) (shell_additional_permissions req)
       | Some tty \<Rightarrow>
           UnifiedExecKey command (shell_cwd req) tty (shell_sandbox_permissions req) (shell_additional_permissions req)])"

definition shell_start_approval ::
  "(approval_key \<Rightarrow> ustr option) \<Rightarrow> (ustr \<Rightarrow> tree option) \<Rightarrow> 'w reviewers \<Rightarrow> shell_request \<Rightarrow> approval_ctx
    \<Rightarrow> 'w approval_session \<Rightarrow> review_decision \<times> 'w approval_session" where
  "shell_start_approval to_json parse rv req ctx s =
     (let keys = shell_approval_keys parse req;
          reason = (case ctx_retry_reason ctx of Some r \<Rightarrow> Some r | None \<Rightarrow> shell_justification req)
      in if ctx_guardian_review_id ctx \<noteq> None then ask_guardian rv ctx s
         else with_cached_approval to_json keys (ask_user rv keys reason) s)"

section \<open>Nobody is overruled\<close>

datatype approval_call =
    PatchCall apply_patch_request approval_ctx
  | ShellCall shell_request approval_ctx

fun decide ::
  "(approval_key \<Rightarrow> ustr option) \<Rightarrow> (ustr \<Rightarrow> tree option) \<Rightarrow> 'w reviewers \<Rightarrow> approval_call \<Rightarrow> 'w approval_session
    \<Rightarrow> review_decision \<times> 'w approval_session" where
  "decide to_json parse rv (PatchCall req ctx) s = patch_start_approval to_json rv req ctx s"
| "decide to_json parse rv (ShellCall req ctx) s = shell_start_approval to_json parse rv req ctx s"

fun call_keys :: "(ustr \<Rightarrow> tree option) \<Rightarrow> approval_call \<Rightarrow> approval_key list" where
  "call_keys parse (PatchCall req ctx) = patch_approval_keys req"
| "call_keys parse (ShellCall req ctx) = shell_approval_keys parse req"

fun for_user :: "approval_call \<Rightarrow> bool" where
  "for_user (PatchCall req ctx) \<longleftrightarrow>
     ctx_guardian_review_id ctx = None \<and> \<not> (permissions_preapproved req \<and> ctx_retry_reason ctx = None)"
| "for_user (ShellCall req ctx) \<longleftrightarrow> ctx_guardian_review_id ctx = None"

definition approved_keys :: "'w approval_session \<Rightarrow> approval_key set" where
  "approved_keys s = {k. \<exists>ks. (ks, ApprovedForSession) \<in> set (asked s) \<and> k \<in> set ks}"

definition store_ok :: "(approval_key \<Rightarrow> ustr option) \<Rightarrow> 'w approval_session \<Rightarrow> bool" where
  "store_ok to_json s \<longleftrightarrow>
     (\<forall>j d. tool_approvals s j = Some d \<longrightarrow> (\<exists>k \<in> approved_keys s. to_json k = Some j))"

lemma fold_put:
  "fold (\<lambda>key. store_put to_json key v) keys store j = Some d \<Longrightarrow>
     store j = Some d \<or> (\<exists>k \<in> set keys. to_json k = Some j)"
proof (induction keys arbitrary: store)
  case (Cons k keys)
  from Cons.IH [of "store_put to_json k v store"] Cons.prems
  have "store_put to_json k v store j = Some d \<or> (\<exists>k \<in> set keys. to_json k = Some j)" by simp
  then show ?case by (cases "to_json k") (auto simp: store_put_def split: if_splits)
qed simp

lemma ask_user_asked:
  "ask_user rv keys reason s = (d, s') \<Longrightarrow> asked s' = asked s @ [(keys, d)] \<and> tool_approvals s' = tool_approvals s"
  by (auto simp: ask_user_def Let_def split: prod.splits)

lemma store_ok_mono:
  assumes "store_ok to_json s" "tool_approvals t = tool_approvals s" "set (asked s) \<subseteq> set (asked t)"
  shows "store_ok to_json t"
proof -
  have "approved_keys s \<subseteq> approved_keys t" using assms(3) by (auto simp: approved_keys_def)
  with assms(1,2) show ?thesis unfolding store_ok_def by (metis subsetD)
qed

lemma cached_cases:
  assumes "with_cached_approval to_json keys (ask_user rv keys reason) s = (d, s')" "store_ok to_json s"
  shows "store_ok to_json s' \<and> (asked s' = asked s \<longrightarrow>
    s' = s \<and> keys \<noteq> [] \<and> list_all (\<lambda>key. store_get to_json (tool_approvals s) key = Some ApprovedForSession) keys)"
proof -
  obtain d1 s1 where a: "ask_user rv keys reason s = (d1, s1)" by fastforce
  note s1 = ask_user_asked [OF a]
  have ok: "store_ok to_json s1" using s1 by (intro store_ok_mono [OF assms(2)]) auto
  have "store_ok to_json (s1\<lparr>tool_approvals := fold (\<lambda>key. store_put to_json key ApprovedForSession) keys (tool_approvals s1)\<rparr>)"
    if "d1 = ApprovedForSession"
    unfolding store_ok_def
  proof (intro allI impI)
    fix j d
    assume "tool_approvals (s1\<lparr>tool_approvals := fold (\<lambda>key. store_put to_json key ApprovedForSession) keys (tool_approvals s1)\<rparr>) j = Some d"
    then have "tool_approvals s1 j = Some d \<or> (\<exists>k \<in> set keys. to_json k = Some j)" using fold_put by fastforce
    moreover have "set keys \<subseteq> approved_keys s1" using that by (auto simp: approved_keys_def s1)
    ultimately have "\<exists>k \<in> approved_keys s1. to_json k = Some j" using ok unfolding store_ok_def by (metis subsetD)
    then show "\<exists>k \<in> approved_keys (s1\<lparr>tool_approvals := fold (\<lambda>key. store_put to_json key ApprovedForSession) keys
        (tool_approvals s1)\<rparr>). to_json k = Some j"
      by (simp add: approved_keys_def)
  qed
  then show ?thesis using assms a ok s1 by (auto simp: with_cached_approval_def split: if_splits)
qed

lemma decide_cases:
  assumes "decide to_json parse rv c s = (d, s')" "store_ok to_json s"
  shows "store_ok to_json s' \<and> (for_user c \<and> asked s' = asked s \<longrightarrow>
    call_keys parse c \<noteq> []
    \<and> list_all (\<lambda>key. store_get to_json (tool_approvals s) key = Some ApprovedForSession) (call_keys parse c))"
proof -
  have guardian: "store_ok to_json t" if "ask_guardian rv ctx s = (e, t)" for ctx e t
    using that assms(2) by (auto simp: ask_guardian_def store_ok_def approved_keys_def split: prod.splits)
  have user: "store_ok to_json t \<and> asked t \<noteq> asked s" if "ask_user rv keys reason s = (e, t)" for keys reason e t
    using ask_user_asked [OF that] store_ok_mono [OF assms(2), of t] by auto
  show ?thesis
  proof (cases c)
    case (PatchCall req ctx)
    then show ?thesis
      using assms guardian user cached_cases [of to_json "patch_approval_keys req" rv None s d s']
      by (auto simp: patch_start_approval_def split: if_splits)
  next
    case (ShellCall req ctx)
    then show ?thesis
      using assms guardian cached_cases [of to_json "shell_approval_keys parse req" rv _ s d s']
      by (auto simp: shell_start_approval_def Let_def split: if_splits)
  qed
qed

inductive approval_run ::
  "(approval_key \<Rightarrow> ustr option) \<Rightarrow> (ustr \<Rightarrow> tree option) \<Rightarrow> 'w reviewers \<Rightarrow> 'w approval_session \<Rightarrow> 'w approval_session \<Rightarrow> bool"
  for to_json parse rv where
  no_calls: "approval_run to_json parse rv s s"
| one_more: "approval_run to_json parse rv s t \<Longrightarrow> decide to_json parse rv c t = (d, u) \<Longrightarrow> approval_run to_json parse rv s u"

definition fresh_approvals :: "'w \<Rightarrow> 'w approval_session" where
  "fresh_approvals w = \<lparr>tool_approvals = Map.empty, approval_world = w, asked = []\<rparr>"

lemma approval_run_ok: "approval_run to_json parse rv s t \<Longrightarrow> store_ok to_json s \<Longrightarrow> store_ok to_json t"
  by (induction rule: approval_run.induct) (auto dest: decide_cases)


section \<open>Examples\<close>

definition example_json :: "approval_key \<Rightarrow> ustr option" where
  "example_json k = (case k of PatchKey [] f \<Rightarrow> Some f | _ \<Rightarrow> None)"

definition generous :: "unit reviewers" where
  "generous = \<lparr>guardian_reviews = (\<lambda>_ w. (ReviewDenied, w)), user_answers = (\<lambda>_ w. (Some ApprovedForSession, w))\<rparr>"

definition patch_call :: "ustr list \<Rightarrow> approval_call" where
  "patch_call paths = PatchCall \<lparr>patch_environment_id = [], patch_file_paths = paths, permissions_preapproved = False\<rparr>
     \<lparr>ctx_call_id = [], ctx_guardian_review_id = None, ctx_retry_reason = None, ctx_network_approval_context = None\<rparr>"

lemma example_json_inj: "\<forall>k k'. example_json k \<noteq> None \<and> example_json k = example_json k' \<longrightarrow> k = k'"
  by (auto simp: example_json_def split: approval_key.splits list.splits)


end
