(* ===== verification/Mitm_Hooks.thy ===== *)
theory Mitm_Hooks
  imports Network_Proxy
begin

text \<open>
  The hooks of the network proxy on intercepted HTTPS requests
  (\<open>codex-rs/network-proxy/src/mitm_hook.rs\<close>): their configuration, its validation, the compilation
  into matchers with resolved secrets, and the evaluation of a request. Header names and values, the map
  of headers, globs, the decoding of queries and the process environment belong to other code
  and are the arguments \<open>hook_lib\<close> and \<open>header_map\<close>. A map with sorted keys is the list of its
  entries in the order of iteration. The main result describes the outcome of an
  evaluation by the configuration alone.
\<close>

section \<open>Configuration\<close>

record injected_header_config =
  injected_name :: ustr
  secret_env_var :: "ustr option"
  secret_file :: "ustr option"
  value_prefix :: "ustr option"

record mitm_hook_match_config =
  match_methods :: "ustr list"
  match_path_prefixes :: "ustr list"
  match_query :: "(ustr \<times> ustr list) list"
  match_headers :: "(ustr \<times> ustr list) list"
  match_body_given :: bool \<comment> \<open>a matcher for the body is present; its JSON is never looked at\<close>

record mitm_hook_actions_config =
  strip_names :: "ustr list"
  inject_configs :: "injected_header_config list"

record mitm_hook_config =
  hook_host :: ustr
  hook_match :: mitm_hook_match_config
  hook_actions_config :: mitm_hook_actions_config

text \<open>The code outside: \<open>http\<close> header names and values, \<open>form_urlencoded\<close>, \<open>globset\<close>, the environment.\<close>

record 'v hook_lib =
  header_name_of :: "ustr \<Rightarrow> ustr option" \<comment> \<open>\<open>HeaderName::from_bytes\<close>: the name in lower case\<close>
  header_value_of :: "ustr \<Rightarrow> 'v option" \<comment> \<open>\<open>HeaderValue::from_str\<close>\<close>
  header_text :: "'v \<Rightarrow> ustr option" \<comment> \<open>\<open>HeaderValue::to_str\<close>\<close>
  query_pairs :: "ustr \<Rightarrow> (ustr \<times> ustr) list"
  hook_glob_valid :: "bool \<Rightarrow> ustr \<Rightarrow> bool" \<comment> \<open>with \<open>literal_separator\<close> or not\<close>
  hook_glob_match :: "bool \<Rightarrow> ustr \<Rightarrow> ustr \<Rightarrow> bool"
  lookup_env_var :: "ustr \<Rightarrow> ustr option"
  read_secret_file :: "ustr \<Rightarrow> ustr option"
  process_home :: "ustr option"
  process_cwd :: ustr

record ('h, 'v) header_map =
  get_all :: "'h \<Rightarrow> ustr \<Rightarrow> 'v list"
  remove_header :: "ustr \<Rightarrow> 'h \<Rightarrow> 'h"
  insert_header :: "ustr \<Rightarrow> 'v \<Rightarrow> 'h \<Rightarrow> 'h"

definition header_map_ok :: "('h, 'v) header_map \<Rightarrow> bool" where
  "header_map_ok hm \<longleftrightarrow>
     (\<forall>h n m. get_all hm (remove_header hm n h) m = (if m = n then [] else get_all hm h m))
     \<and> (\<forall>h n m v. get_all hm (insert_header hm n v h) m = (if m = n then [v] else get_all hm h m))"

record 'h http_request =
  http_method :: ustr
  uri_scheme :: "ustr option"
  uri_authority :: "ustr option"
  uri_path :: ustr
  uri_query :: "ustr option"
  uri_path_and_query :: "ustr option" \<comment> \<open>as written in the target\<close>
  http_headers :: 'h

section \<open>Compiled hooks\<close>

datatype path_matcher = PathPrefix ustr | PathGlob ustr

datatype value_matcher = ValueExact ustr | ValueGlob ustr

datatype matcher_pattern = LiteralPattern ustr | GlobbingPattern ustr

datatype secret_source = SecretEnvVar ustr | SecretFile ustr

record 'v resolved_injected_header =
  resolved_name :: ustr
  resolved_value :: 'v
  resolved_source :: secret_source

record 'v mitm_hook_actions =
  strip_request_headers :: "ustr list"
  inject_request_headers :: "'v resolved_injected_header list"

record mitm_hook_matcher =
  matcher_methods :: "ustr list"
  matcher_path_prefixes :: "path_matcher list"
  matcher_query :: "(ustr \<times> value_matcher list) list"
  matcher_headers :: "(ustr \<times> value_matcher list) list"

record 'v mitm_hook =
  mitm_host :: ustr
  mitm_matcher :: mitm_hook_matcher
  mitm_actions :: "'v mitm_hook_actions"

type_synonym 'v mitm_hooks_by_host = "ustr \<rightharpoonup> 'v mitm_hook list"

datatype 'v hook_evaluation = NoHooksForHost | Matched "'v mitm_hook_actions" | HookedHostNoMatch

datatype hook_error =
    HooksRequireMitm
  | HookHostEmpty
  | HookHostWildcard
  | HookHostBlank nat
  | MethodEmpty
  | MethodsEmpty nat \<comment> \<open>index of the hook\<close>
  | PathPrefixEmpty
  | PathPrefixesEmpty nat
  | BodyUnsupported nat
  | GlobPatternEmpty
  | GlobPatternInvalid ustr
  | QueryKeyEmpty
  | QueryValuesEmpty ustr
  | HeaderNameInvalid ustr
  | SecretEnvVarEmpty
  | SecretFileEmpty
  | SecretFileRelative ustr
  | SecretSourceCount
  | EnvVarMissing ustr
  | SecretFileUnreadable ustr
  | HeaderValueInvalid ustr
  | InHook nat string hook_error \<comment> \<open>the context: index and field of the hook\<close>
  | InMatcherOf ustr hook_error
  | InInjectedHeader ustr hook_error

definition with_context :: "('e \<Rightarrow> 'e) \<Rightarrow> ('a, 'e) outcome \<Rightarrow> ('a, 'e) outcome" where
  "with_context f r = (case r of Err e \<Rightarrow> Err (f e) | _ \<Rightarrow> r)"

definition ok_or :: "'e \<Rightarrow> 'a option \<Rightarrow> ('a, 'e) outcome" where
  "ok_or e x = (case x of Some a \<Rightarrow> Ok a | None \<Rightarrow> Err e)"

definition ensure :: "bool \<Rightarrow> 'e \<Rightarrow> (unit, 'e) outcome" where
  "ensure b e = (if b then Ok () else Err e)"

definition ascii_upper :: "uchar \<Rightarrow> uchar" where
  "ascii_upper c = (if 97 \<le> c \<and> c \<le> 122 then c - 32 else c)"

definition to_ascii_uppercase :: "ustr \<Rightarrow> ustr" where
  "to_ascii_uppercase = map ascii_upper"

section \<open>Parsing of names and patterns\<close>

definition PATTERN_PREFIX :: ustr where "PATTERN_PREFIX = str ''pattern:''"
definition LITERAL_PREFIX :: ustr where "LITERAL_PREFIX = str ''literal:''"

definition parse_matcher_pattern :: "ustr \<Rightarrow> (matcher_pattern, hook_error) outcome" where
  "parse_matcher_pattern pat =
     (case strip_prefix LITERAL_PREFIX pat of
        Some literal \<Rightarrow> Ok (LiteralPattern literal)
      | None \<Rightarrow>
          (case strip_prefix PATTERN_PREFIX pat of
             None \<Rightarrow> Ok (LiteralPattern pat)
           | Some glob \<Rightarrow> if glob = [] then Err GlobPatternEmpty else Ok (GlobbingPattern glob)))"

definition compile_glob_matcher :: "'v hook_lib \<Rightarrow> ustr \<Rightarrow> bool \<Rightarrow> (ustr, hook_error) outcome" where
  "compile_glob_matcher lib pat literal_separator =
     (if hook_glob_valid lib literal_separator pat then Ok pat else Err (GlobPatternInvalid pat))"

definition compile_path_matcher :: "'v hook_lib \<Rightarrow> ustr \<Rightarrow> (path_matcher, hook_error) outcome" where
  "compile_path_matcher lib pat =
     obind (parse_matcher_pattern pat) (\<lambda>mp.
       case mp of
         LiteralPattern prefix \<Rightarrow> if prefix = [] then Err PathPrefixEmpty else Ok (PathPrefix prefix)
       | GlobbingPattern glob \<Rightarrow> obind (compile_glob_matcher lib glob True) (\<lambda>g. Ok (PathGlob g)))"

definition compile_path_matchers :: "'v hook_lib \<Rightarrow> ustr list \<Rightarrow> (path_matcher list, hook_error) outcome" where
  "compile_path_matchers lib = omap (compile_path_matcher lib)"

definition compile_value_matcher :: "'v hook_lib \<Rightarrow> ustr \<Rightarrow> (value_matcher, hook_error) outcome" where
  "compile_value_matcher lib pat =
     obind (parse_matcher_pattern pat) (\<lambda>mp.
       case mp of
         LiteralPattern v \<Rightarrow> Ok (ValueExact v)
       | GlobbingPattern glob \<Rightarrow> obind (compile_glob_matcher lib glob False) (\<lambda>g. Ok (ValueGlob g)))"

definition compile_value_matchers :: "'v hook_lib \<Rightarrow> ustr list \<Rightarrow> (value_matcher list, hook_error) outcome" where
  "compile_value_matchers lib = omap (compile_value_matcher lib)"

definition normalize_hook_host :: "ustr \<Rightarrow> (ustr, hook_error) outcome" where
  "normalize_hook_host host =
     (let normalized = normalize_host host in
      if normalized = [] then Err HookHostEmpty
      else if contains_char (chr CHR ''*'') normalized then Err HookHostWildcard
      else Ok normalized)"

definition normalize_method :: "ustr \<Rightarrow> (ustr, hook_error) outcome" where
  "normalize_method m =
     (let normalized = to_ascii_uppercase (trim m) in if normalized = [] then Err MethodEmpty else Ok normalized)"

definition normalize_methods :: "ustr list \<Rightarrow> (ustr list, hook_error) outcome" where
  "normalize_methods = omap normalize_method"

definition normalize_query_name :: "ustr \<Rightarrow> (ustr, hook_error) outcome" where
  "normalize_query_name name = (if name = [] then Err QueryKeyEmpty else Ok name)"

definition parse_header_name :: "'v hook_lib \<Rightarrow> ustr \<Rightarrow> (ustr, hook_error) outcome" where
  "parse_header_name lib name = ok_or (HeaderNameInvalid name) (header_name_of lib name)"

definition parse_secret_file :: "'v hook_lib \<Rightarrow> ustr \<Rightarrow> (ustr, hook_error) outcome" where
  "parse_secret_file lib path =
     (if trim path = [] then Err SecretFileEmpty
      else if \<not> is_absolute path then Err (SecretFileRelative path)
      else Ok (from_absolute_path (process_home lib) (process_cwd lib) path))"

section \<open>Validation\<close>

definition check_all :: "('a \<Rightarrow> (unit, 'e) outcome) \<Rightarrow> 'a list \<Rightarrow> (unit, 'e) outcome" where
  "check_all f xs = obind (omap f xs) (\<lambda>_. Ok ())"

definition validate_query_constraint :: "'v hook_lib \<Rightarrow> ustr \<times> ustr list \<Rightarrow> (unit, hook_error) outcome" where
  "validate_query_constraint lib = (\<lambda>(name, values).
     obind (normalize_query_name name) (\<lambda>normalized.
     obind (ensure (normalized \<noteq> []) QueryKeyEmpty) (\<lambda>_.
     obind (ensure (values \<noteq> []) (QueryValuesEmpty name)) (\<lambda>_.
     obind (with_context (InMatcherOf name) (compile_value_matchers lib values)) (\<lambda>_. Ok ())))))"

definition validate_query_constraints :: "'v hook_lib \<Rightarrow> (ustr \<times> ustr list) list \<Rightarrow> (unit, hook_error) outcome" where
  "validate_query_constraints lib = check_all (validate_query_constraint lib)"

definition validate_header_constraint :: "'v hook_lib \<Rightarrow> ustr \<times> ustr list \<Rightarrow> (unit, hook_error) outcome" where
  "validate_header_constraint lib = (\<lambda>(name, values).
     obind (parse_header_name lib name) (\<lambda>_.
     obind (with_context (InMatcherOf name) (compile_value_matchers lib values)) (\<lambda>_. Ok ())))"

definition validate_header_constraints :: "'v hook_lib \<Rightarrow> (ustr \<times> ustr list) list \<Rightarrow> (unit, hook_error) outcome" where
  "validate_header_constraints lib = check_all (validate_header_constraint lib)"

definition validate_strip_request_headers :: "'v hook_lib \<Rightarrow> ustr list \<Rightarrow> (unit, hook_error) outcome" where
  "validate_strip_request_headers lib = check_all (\<lambda>name. obind (parse_header_name lib name) (\<lambda>_. Ok ()))"

definition validate_injected_header :: "'v hook_lib \<Rightarrow> injected_header_config \<Rightarrow> (unit, hook_error) outcome" where
  "validate_injected_header lib header =
     obind (parse_header_name lib (injected_name header)) (\<lambda>_.
       case (secret_env_var header, secret_file header) of
         (Some env_var, None) \<Rightarrow> ensure (trim env_var \<noteq> []) SecretEnvVarEmpty
       | (None, Some path) \<Rightarrow> obind (parse_secret_file lib path) (\<lambda>_. Ok ())
       | _ \<Rightarrow> Err SecretSourceCount)"

definition validate_injected_headers :: "'v hook_lib \<Rightarrow> injected_header_config list \<Rightarrow> (unit, hook_error) outcome" where
  "validate_injected_headers lib = check_all (validate_injected_header lib)"

definition validate_hook :: "'v hook_lib \<Rightarrow> nat \<times> mitm_hook_config \<Rightarrow> (unit, hook_error) outcome" where
  "validate_hook lib = (\<lambda>(i, hook).
     let m = hook_match hook; a = hook_actions_config hook in
     obind (with_context (InHook i ''host'') (normalize_hook_host (hook_host hook))) (\<lambda>host.
     obind (with_context (InHook i ''match.methods'') (normalize_methods (match_methods m))) (\<lambda>methods.
     obind (ensure (methods \<noteq> []) (MethodsEmpty i)) (\<lambda>_.
     obind (with_context (InHook i ''match.path_prefixes'') (compile_path_matchers lib (match_path_prefixes m))) (\<lambda>prefixes.
     obind (ensure (prefixes \<noteq> []) (PathPrefixesEmpty i)) (\<lambda>_.
     obind (ensure (\<not> match_body_given m) (BodyUnsupported i)) (\<lambda>_.
     obind (with_context (InHook i ''match.query'') (validate_query_constraints lib (match_query m))) (\<lambda>_.
     obind (with_context (InHook i ''match.headers'') (validate_header_constraints lib (match_headers m))) (\<lambda>_.
     obind (with_context (InHook i ''actions.strip_request_headers'') (validate_strip_request_headers lib (strip_names a))) (\<lambda>_.
     obind (with_context (InHook i ''actions.inject_request_headers'') (validate_injected_headers lib (inject_configs a))) (\<lambda>_.
     ensure (host \<noteq> []) (HookHostBlank i))))))))))))"

definition validate_mitm_hook_config :: "'v hook_lib \<Rightarrow> bool \<Rightarrow> mitm_hook_config list \<Rightarrow> (unit, hook_error) outcome" where
  "validate_mitm_hook_config lib mitm_enabled hooks =
     (if hooks = [] then Ok ()
      else if \<not> mitm_enabled then Err HooksRequireMitm
      else check_all (validate_hook lib) (enumerate 0 hooks))"

section \<open>Compilation\<close>

definition compile_injected_header ::
  "'v hook_lib \<Rightarrow> injected_header_config \<Rightarrow> ('v resolved_injected_header, hook_error) outcome" where
  "compile_injected_header lib header =
     obind (parse_header_name lib (injected_name header)) (\<lambda>name.
     obind (case (secret_env_var header, secret_file header) of
              (Some env_var, None) \<Rightarrow>
                obind (ok_or (EnvVarMissing env_var) (lookup_env_var lib env_var)) (\<lambda>v. Ok (v, SecretEnvVar env_var))
            | (None, Some file) \<Rightarrow>
                obind (parse_secret_file lib file) (\<lambda>path.
                obind (ok_or (SecretFileUnreadable path) (read_secret_file lib path)) (\<lambda>v. Ok (trim v, SecretFile path)))
            | _ \<Rightarrow> Err SecretSourceCount) (\<lambda>(secret, source).
     let prefix = (case value_prefix header of Some p \<Rightarrow> p | None \<Rightarrow> []) in
     obind (ok_or (HeaderValueInvalid (injected_name header)) (header_value_of lib (prefix @ secret))) (\<lambda>v.
     Ok \<lparr>resolved_name = name, resolved_value = v, resolved_source = source\<rparr>)))"

definition compile_query :: "'v hook_lib \<Rightarrow> ustr \<times> ustr list \<Rightarrow> (ustr \<times> value_matcher list, hook_error) outcome" where
  "compile_query lib = (\<lambda>(name, values).
     obind (normalize_query_name name) (\<lambda>name. obind (compile_value_matchers lib values) (\<lambda>ms. Ok (name, ms))))"

definition compile_header :: "'v hook_lib \<Rightarrow> ustr \<times> ustr list \<Rightarrow> (ustr \<times> value_matcher list, hook_error) outcome" where
  "compile_header lib = (\<lambda>(name, values).
     obind (parse_header_name lib name) (\<lambda>name. obind (compile_value_matchers lib values) (\<lambda>ms. Ok (name, ms))))"

definition compile_actions :: "'v hook_lib \<Rightarrow> mitm_hook_actions_config \<Rightarrow> ('v mitm_hook_actions, hook_error) outcome" where
  "compile_actions lib a =
     obind (omap (parse_header_name lib) (strip_names a)) (\<lambda>strip.
     obind (omap (\<lambda>header. with_context (InInjectedHeader (injected_name header)) (compile_injected_header lib header))
              (inject_configs a)) (\<lambda>inject.
     Ok \<lparr>strip_request_headers = strip, inject_request_headers = inject\<rparr>))"

definition compile_hook :: "'v hook_lib \<Rightarrow> mitm_hook_config \<Rightarrow> ('v mitm_hook, hook_error) outcome" where
  "compile_hook lib hook =
     (let m = hook_match hook in
      obind (normalize_hook_host (hook_host hook)) (\<lambda>host.
      obind (normalize_methods (match_methods m)) (\<lambda>methods.
      obind (compile_path_matchers lib (match_path_prefixes m)) (\<lambda>prefixes.
      obind (omap (compile_query lib) (match_query m)) (\<lambda>query.
      obind (omap (compile_header lib) (match_headers m)) (\<lambda>headers.
      obind (compile_actions lib (hook_actions_config hook)) (\<lambda>actions.
      Ok \<lparr>mitm_host = host,
          mitm_matcher = \<lparr>matcher_methods = methods, matcher_path_prefixes = prefixes,
            matcher_query = query, matcher_headers = headers\<rparr>,
          mitm_actions = actions\<rparr>)))))))"

definition push_hook :: "'v mitm_hook \<Rightarrow> 'v mitm_hooks_by_host \<Rightarrow> 'v mitm_hooks_by_host" where
  "push_hook hook hooks =
     hooks(mitm_host hook \<mapsto> (case hooks (mitm_host hook) of Some hs \<Rightarrow> hs | None \<Rightarrow> []) @ [hook])"

fun compile_hooks_loop ::
  "'v hook_lib \<Rightarrow> mitm_hook_config list \<Rightarrow> 'v mitm_hooks_by_host \<Rightarrow> ('v mitm_hooks_by_host, hook_error) outcome" where
  "compile_hooks_loop lib [] hooks = Ok hooks"
| "compile_hooks_loop lib (c # cs) hooks =
     obind (compile_hook lib c) (\<lambda>hook. compile_hooks_loop lib cs (push_hook hook hooks))"

definition compile_mitm_hooks ::
  "'v hook_lib \<Rightarrow> bool \<Rightarrow> mitm_hook_config list \<Rightarrow> ('v mitm_hooks_by_host, hook_error) outcome" where
  "compile_mitm_hooks lib mitm_enabled cs =
     obind (validate_mitm_hook_config lib mitm_enabled cs) (\<lambda>_. compile_hooks_loop lib cs Map.empty)"

section \<open>Evaluation\<close>

definition path_matcher_matches :: "'v hook_lib \<Rightarrow> path_matcher \<Rightarrow> ustr \<Rightarrow> bool" where
  "path_matcher_matches lib m candidate =
     (case m of PathPrefix prefix \<Rightarrow> starts_with prefix candidate | PathGlob g \<Rightarrow> hook_glob_match lib True g candidate)"

definition value_matcher_matches :: "'v hook_lib \<Rightarrow> value_matcher \<Rightarrow> ustr \<Rightarrow> bool" where
  "value_matcher_matches lib m candidate =
     (case m of ValueExact v \<Rightarrow> v = candidate | ValueGlob g \<Rightarrow> hook_glob_match lib False g candidate)"

definition path_matches :: "'v hook_lib \<Rightarrow> path_matcher list \<Rightarrow> ustr \<Rightarrow> bool" where
  "path_matches lib prefixes path = list_ex (\<lambda>m. path_matcher_matches lib m path) prefixes"

fun collect_query :: "(ustr \<times> ustr) list \<Rightarrow> (ustr \<rightharpoonup> ustr list) \<Rightarrow> (ustr \<rightharpoonup> ustr list)" where
  "collect_query [] actual = actual"
| "collect_query ((name, v) # rest) actual =
     collect_query rest (actual(name \<mapsto> (case actual name of Some vs \<Rightarrow> vs | None \<Rightarrow> []) @ [v]))"

definition query_matches :: "'v hook_lib \<Rightarrow> (ustr \<times> value_matcher list) list \<Rightarrow> 'h http_request \<Rightarrow> bool" where
  "query_matches lib query_constraints req =
     (if query_constraints = [] then True
      else let actual_query = (case uri_query req of Some q \<Rightarrow> q | None \<Rightarrow> []);
               actual_values = collect_query (query_pairs lib actual_query) Map.empty
      in list_all (\<lambda>(name, allowed_values).
           case actual_values name of
             Some actual \<Rightarrow> list_ex (\<lambda>candidate. list_ex (\<lambda>allowed. value_matcher_matches lib allowed candidate) allowed_values) actual
           | None \<Rightarrow> False) query_constraints)"

definition headers_match ::
  "'v hook_lib \<Rightarrow> ('h, 'v) header_map \<Rightarrow> (ustr \<times> value_matcher list) list \<Rightarrow> 'h http_request \<Rightarrow> bool" where
  "headers_match lib hm header_constraints req =
     list_all (\<lambda>(name, allowed_values).
       let actual = get_all hm (http_headers req) name in
       if actual = [] then False
       else if allowed_values = [] then True
       else list_ex (\<lambda>v. case header_text lib v of
              Some candidate \<Rightarrow> list_ex (\<lambda>allowed. value_matcher_matches lib allowed candidate) allowed_values
            | None \<Rightarrow> False) actual) header_constraints"

definition hook_matches :: "'v hook_lib \<Rightarrow> ('h, 'v) header_map \<Rightarrow> 'v mitm_hook \<Rightarrow> 'h http_request \<Rightarrow> bool" where
  "hook_matches lib hm hook req =
     (let m = mitm_matcher hook; method = to_ascii_uppercase (http_method req) in
      if \<not> list_ex (\<lambda>allowed. allowed = method) (matcher_methods m) then False
      else if \<not> path_matches lib (matcher_path_prefixes m) (uri_path req) then False
      else if \<not> query_matches lib (matcher_query m) req then False
      else headers_match lib hm (matcher_headers m) req)"

definition evaluate_mitm_hooks ::
  "'v hook_lib \<Rightarrow> ('h, 'v) header_map \<Rightarrow> 'v mitm_hooks_by_host \<Rightarrow> ustr \<Rightarrow> 'h http_request \<Rightarrow> 'v hook_evaluation" where
  "evaluate_mitm_hooks lib hm hooks_by_host host req =
     (case hooks_by_host (normalize_host host) of
        None \<Rightarrow> NoHooksForHost
      | Some hooks \<Rightarrow>
          (case find (\<lambda>hook. hook_matches lib hm hook req) hooks of
             Some hook \<Rightarrow> Matched (mitm_actions hook)
           | None \<Rightarrow> HookedHostNoMatch))"

text \<open>\<open>apply_mitm_hook_actions\<close> of \<open>mitm.rs\<close>.\<close>

definition apply_mitm_hook_actions ::
  "('h, 'v) header_map \<Rightarrow> 'v mitm_hook_actions option \<Rightarrow> 'h \<Rightarrow> 'h" where
  "apply_mitm_hook_actions hm actions headers =
     (case actions of
        None \<Rightarrow> headers
      | Some a \<Rightarrow>
          fold (\<lambda>i. insert_header hm (resolved_name i) (resolved_value i)) (inject_request_headers a)
            (fold (remove_header hm) (strip_request_headers a) headers))"

section \<open>What the configuration says\<close>

text \<open>
  The reference: a pattern of the configuration admits a text; a hook of the configuration admits a request; the
  actions it asks for. None of it mentions compiled matchers.
\<close>

definition text_admits :: "'v hook_lib \<Rightarrow> bool \<Rightarrow> (ustr \<Rightarrow> ustr \<Rightarrow> bool) \<Rightarrow> ustr \<Rightarrow> ustr \<Rightarrow> bool" where
  "text_admits lib literal_separator literal pat t \<longleftrightarrow>
     (if starts_with LITERAL_PREFIX pat then literal (drop (length LITERAL_PREFIX) pat) t
      else if starts_with PATTERN_PREFIX pat then hook_glob_match lib literal_separator (drop (length PATTERN_PREFIX) pat) t
      else literal pat t)"

definition config_admits ::
  "'v hook_lib \<Rightarrow> ('h, 'v) header_map \<Rightarrow> mitm_hook_config \<Rightarrow> 'h http_request \<Rightarrow> bool" where
  "config_admits lib hm c req \<longleftrightarrow>
     (let m = hook_match c in
      list_ex (\<lambda>x. to_ascii_uppercase (trim x) = to_ascii_uppercase (http_method req)) (match_methods m)
      \<and> list_ex (\<lambda>pat. text_admits lib True starts_with pat (uri_path req)) (match_path_prefixes m)
      \<and> list_all (\<lambda>(name, pats).
          list_ex (\<lambda>(n, v). n = name \<and> list_ex (\<lambda>pat. text_admits lib False (=) pat v) pats)
            (query_pairs lib (case uri_query req of Some q \<Rightarrow> q | None \<Rightarrow> []))) (match_query m)
      \<and> list_all (\<lambda>(name, pats).
          let actual = get_all hm (http_headers req) (the (header_name_of lib name)) in
          actual \<noteq> [] \<and> (pats = [] \<or> list_ex (\<lambda>v. case header_text lib v of
             Some t \<Rightarrow> list_ex (\<lambda>pat. text_admits lib False (=) pat t) pats | None \<Rightarrow> False) actual)) (match_headers m))"

definition secret_text :: "'v hook_lib \<Rightarrow> injected_header_config \<Rightarrow> ustr" where
  "secret_text lib h =
     (case secret_env_var h of
        Some v \<Rightarrow> the (lookup_env_var lib v)
      | None \<Rightarrow> trim (the (read_secret_file lib
          (from_absolute_path (process_home lib) (process_cwd lib) (the (secret_file h))))))"

definition injected_value :: "'v hook_lib \<Rightarrow> injected_header_config \<Rightarrow> 'v" where
  "injected_value lib h =
     the (header_value_of lib ((case value_prefix h of Some p \<Rightarrow> p | None \<Rightarrow> []) @ secret_text lib h))"

definition actions_follow :: "'v hook_lib \<Rightarrow> mitm_hook_actions_config \<Rightarrow> 'v mitm_hook_actions \<Rightarrow> bool" where
  "actions_follow lib c a \<longleftrightarrow>
     strip_request_headers a = map (the \<circ> header_name_of lib) (strip_names c)
     \<and> map resolved_name (inject_request_headers a) = map (the \<circ> header_name_of lib \<circ> injected_name) (inject_configs c)
     \<and> map resolved_value (inject_request_headers a) = map (injected_value lib) (inject_configs c)"

section \<open>Compilation keeps the meaning\<close>

lemma with_context_eq_Ok [simp]: "with_context f r = Ok x \<longleftrightarrow> r = Ok x"
  by (cases r) (simp_all add: with_context_def)

lemma ok_or_eq_Ok [simp]: "ok_or e x = Ok y \<longleftrightarrow> x = Some y"
  by (cases x) (simp_all add: ok_or_def)

lemma ensure_eq_Ok [simp]: "ensure b e = Ok u \<longleftrightarrow> b"
  by (simp add: ensure_def)

lemma list_ex_rel: "list_all2 R xs ys \<Longrightarrow> (\<And>x y. R x y \<Longrightarrow> p x = q y) \<Longrightarrow> list_ex p xs = list_ex q ys"
  by (induction rule: list_all2_induct) simp_all

lemma list_all_rel: "list_all2 R xs ys \<Longrightarrow> (\<And>x y. R x y \<Longrightarrow> p x = q y) \<Longrightarrow> list_all p xs = list_all q ys"
  by (induction rule: list_all2_induct) simp_all

lemma filter_rel: "list_all2 R xs ys \<Longrightarrow> (\<And>x y. R x y \<Longrightarrow> p x = q y) \<Longrightarrow> list_all2 R (filter p xs) (filter q ys)"
  by (induction rule: list_all2_induct) simp_all

lemma find_rel: "list_all2 R xs ys \<Longrightarrow> (\<And>x y. R x y \<Longrightarrow> p x = q y) \<Longrightarrow> rel_option R (find p xs) (find q ys)"
  by (induction rule: list_all2_induct) simp_all

lemma map_rel: "list_all2 R xs ys \<Longrightarrow> (\<And>x y. R x y \<Longrightarrow> f x = g y) \<Longrightarrow> map f xs = map g ys"
  by (induction rule: list_all2_induct) simp_all

lemma compile_path_matcher_meaning:
  "compile_path_matcher lib pat = Ok m \<Longrightarrow> path_matcher_matches lib m t = text_admits lib True starts_with pat t"
  by (auto simp: compile_path_matcher_def parse_matcher_pattern_def compile_glob_matcher_def obind_iffs text_admits_def
      path_matcher_matches_def starts_with_def strip_prefix_Some_iff split: option.splits if_splits)

lemma compile_value_matcher_meaning:
  "compile_value_matcher lib pat = Ok m \<Longrightarrow> value_matcher_matches lib m t = text_admits lib False (=) pat t"
  by (auto simp: compile_value_matcher_def parse_matcher_pattern_def compile_glob_matcher_def obind_iffs text_admits_def
      value_matcher_matches_def starts_with_def strip_prefix_Some_iff split: option.splits if_splits)

lemma compile_path_matchers_meaning:
  "compile_path_matchers lib pats = Ok ms \<Longrightarrow>
    path_matches lib ms t = list_ex (\<lambda>pat. text_admits lib True starts_with pat t) pats"
  unfolding compile_path_matchers_def omap_eq_Ok path_matches_def
  by (erule list_ex_rel [symmetric]) (simp add: compile_path_matcher_meaning)

lemma compile_value_matchers_meaning:
  "compile_value_matchers lib pats = Ok ms \<Longrightarrow>
    list_ex (\<lambda>m. value_matcher_matches lib m t) ms = list_ex (\<lambda>pat. text_admits lib False (=) pat t) pats
    \<and> (ms = [] \<longleftrightarrow> pats = [])"
  unfolding compile_value_matchers_def omap_eq_Ok
  by (auto simp: compile_value_matcher_meaning intro!: list_ex_rel [symmetric])

lemma normalize_methods_meaning:
  "normalize_methods ms = Ok ns \<Longrightarrow>
    list_ex (\<lambda>n. n = method) ns = list_ex (\<lambda>m. to_ascii_uppercase (trim m) = method) ms"
  unfolding normalize_methods_def omap_eq_Ok
  by (erule list_ex_rel [symmetric]) (auto simp: normalize_method_def Let_def split: if_splits)

lemma collect_query_eq:
  "collect_query ps actual name =
    (let vs = map snd (filter (\<lambda>p. fst p = name) ps) in
     if vs = [] then actual name else Some ((case actual name of Some ws \<Rightarrow> ws | None \<Rightarrow> []) @ vs))"
proof (induction ps arbitrary: actual)
  case (Cons p ps)
  then show ?case by (cases p) (simp add: Let_def)
qed simp

lemma query_matches_meaning:
  assumes "omap (compile_query lib) cs = Ok qs"
  shows "query_matches lib qs req = list_all (\<lambda>(name, pats).
    list_ex (\<lambda>(n, v). n = name \<and> list_ex (\<lambda>pat. text_admits lib False (=) pat v) pats)
      (query_pairs lib (case uri_query req of Some q \<Rightarrow> q | None \<Rightarrow> []))) cs"
proof (cases qs)
  case Nil
  with assms show ?thesis by (simp add: omap_eq_Ok query_matches_def)
next
  case (Cons q qs')
  then have "query_matches lib qs req = list_all (\<lambda>(name, ms).
      case collect_query (query_pairs lib (case uri_query req of Some q \<Rightarrow> q | None \<Rightarrow> [])) Map.empty name of
        Some actual \<Rightarrow> list_ex (\<lambda>t. list_ex (\<lambda>m. value_matcher_matches lib m t) ms) actual | None \<Rightarrow> False) qs"
    by (simp add: query_matches_def Let_def)
  also have "\<dots> = list_all (\<lambda>(name, pats).
    list_ex (\<lambda>(n, v). n = name \<and> list_ex (\<lambda>pat. text_admits lib False (=) pat v) pats)
      (query_pairs lib (case uri_query req of Some q \<Rightarrow> q | None \<Rightarrow> []))) cs"
    using assms unfolding omap_eq_Ok
  proof (rule list_all_rel [symmetric])
    fix c q assume "compile_query lib c = Ok q"
    then obtain name pats ms where c: "c = (name, pats)" "q = (name, ms)" "compile_value_matchers lib pats = Ok ms"
      by (cases c) (auto simp: compile_query_def obind_iffs normalize_query_name_def split: if_splits)
    then show "(case c of (name, pats) \<Rightarrow> list_ex (\<lambda>(n, v). n = name \<and> list_ex (\<lambda>pat. text_admits lib False (=) pat v) pats)
        (query_pairs lib (case uri_query req of Some q \<Rightarrow> q | None \<Rightarrow> []))) =
      (case q of (name, ms) \<Rightarrow>
        case collect_query (query_pairs lib (case uri_query req of Some q \<Rightarrow> q | None \<Rightarrow> [])) Map.empty name of
          Some actual \<Rightarrow> list_ex (\<lambda>t. list_ex (\<lambda>m. value_matcher_matches lib m t) ms) actual | None \<Rightarrow> False)"
      using compile_value_matchers_meaning [of lib pats ms]
      by (auto simp: collect_query_eq Let_def list_ex_iff filter_empty_conv)
  qed
  finally show ?thesis .
qed

lemma headers_match_meaning:
  assumes "omap (compile_header lib) cs = Ok hs"
  shows "headers_match lib hm hs req = list_all (\<lambda>(name, pats).
    let actual = get_all hm (http_headers req) (the (header_name_of lib name)) in
    actual \<noteq> [] \<and> (pats = [] \<or> list_ex (\<lambda>v. case header_text lib v of
       Some t \<Rightarrow> list_ex (\<lambda>pat. text_admits lib False (=) pat t) pats | None \<Rightarrow> False) actual)) cs"
  unfolding headers_match_def using assms unfolding omap_eq_Ok
proof (rule list_all_rel [symmetric])
  fix c h assume "compile_header lib c = Ok h"
  then obtain name pats n ms where c: "c = (name, pats)" "h = (n, ms)" "header_name_of lib name = Some n"
    "compile_value_matchers lib pats = Ok ms"
    by (cases c) (auto simp: compile_header_def obind_iffs parse_header_name_def)
  have ms: "ms = [] \<longleftrightarrow> pats = []" "\<And>t. list_ex (\<lambda>m. value_matcher_matches lib m t) ms
      = list_ex (\<lambda>pat. text_admits lib False (=) pat t) pats"
    using compile_value_matchers_meaning [OF c(4)] by blast+
  show "(case c of (name, pats) \<Rightarrow>
      let actual = get_all hm (http_headers req) (the (header_name_of lib name)) in
      actual \<noteq> [] \<and> (pats = [] \<or> list_ex (\<lambda>v. case header_text lib v of
         Some t \<Rightarrow> list_ex (\<lambda>pat. text_admits lib False (=) pat t) pats | None \<Rightarrow> False) actual)) =
    (case h of (name, allowed_values) \<Rightarrow>
       let actual = get_all hm (http_headers req) name in
       if actual = [] then False
       else if allowed_values = [] then True
       else list_ex (\<lambda>v. case header_text lib v of
              Some candidate \<Rightarrow> list_ex (\<lambda>allowed. value_matcher_matches lib allowed candidate) allowed_values
            | None \<Rightarrow> False) actual)"
    unfolding c(1,2) by (simp add: c(3) ms Let_def cong: option.case_cong)
qed

lemma compile_injected_header_meaning:
  "compile_injected_header lib h = Ok r \<Longrightarrow>
    resolved_name r = the (header_name_of lib (injected_name h)) \<and> resolved_value r = injected_value lib h"
  by (auto simp: compile_injected_header_def obind_iffs parse_header_name_def parse_secret_file_def Let_def injected_value_def
      secret_text_def split: option.splits if_splits)

lemma compile_actions_follow:
  assumes "compile_actions lib c = Ok a"
  shows "actions_follow lib c a"
proof -
  from assms obtain strip inject where
    strip: "list_all2 (\<lambda>n m. header_name_of lib n = Some m) (strip_names c) strip"
    and inject: "list_all2 (\<lambda>h r. compile_injected_header lib h = Ok r) (inject_configs c) inject"
    and a: "a = \<lparr>strip_request_headers = strip, inject_request_headers = inject\<rparr>"
    by (auto simp: compile_actions_def obind_iffs omap_eq_Ok parse_header_name_def)
  have "map (the \<circ> header_name_of lib) (strip_names c) = map (\<lambda>x. x) strip"
    by (rule map_rel [OF strip]) simp
  moreover have "map (the \<circ> header_name_of lib \<circ> injected_name) (inject_configs c) = map resolved_name inject"
    "map (injected_value lib) (inject_configs c) = map resolved_value inject"
    by (rule map_rel [OF inject]; simp add: compile_injected_header_meaning)+
  ultimately show ?thesis by (simp add: actions_follow_def a)
qed

lemma compile_hook_meaning:
  assumes "compile_hook lib c = Ok h"
  shows "mitm_host h = normalize_host (hook_host c)"
    and "hook_matches lib hm h req = config_admits lib hm c req"
    and "actions_follow lib (hook_actions_config c) (mitm_actions h)"
proof -
  from assms obtain host methods prefixes query headers actions where
    parts: "normalize_hook_host (hook_host c) = Ok host" "normalize_methods (match_methods (hook_match c)) = Ok methods"
      "compile_path_matchers lib (match_path_prefixes (hook_match c)) = Ok prefixes"
      "omap (compile_query lib) (match_query (hook_match c)) = Ok query"
      "omap (compile_header lib) (match_headers (hook_match c)) = Ok headers"
      "compile_actions lib (hook_actions_config c) = Ok actions"
    and h: "h = \<lparr>mitm_host = host, mitm_matcher = \<lparr>matcher_methods = methods, matcher_path_prefixes = prefixes,
        matcher_query = query, matcher_headers = headers\<rparr>, mitm_actions = actions\<rparr>"
    by (auto simp: compile_hook_def Let_def obind_iffs)
  show "mitm_host h = normalize_host (hook_host c)"
    using parts(1) by (auto simp: h normalize_hook_host_def Let_def split: if_splits)
  show "hook_matches lib hm h req = config_admits lib hm c req"
    unfolding hook_matches_def config_admits_def Let_def h mitm_hook.simps mitm_hook_matcher.simps
      normalize_methods_meaning [OF parts(2)] compile_path_matchers_meaning [OF parts(3)] query_matches_meaning [OF parts(4)]
      headers_match_meaning [OF parts(5)] by simp
  show "actions_follow lib (hook_actions_config c) (mitm_actions h)"
    by (simp add: h compile_actions_follow [OF parts(6)])
qed

lemma compile_hooks_loop_Ok:
  "compile_hooks_loop lib cs hooks = Ok hooks' \<longleftrightarrow>
    (\<exists>hs. list_all2 (\<lambda>c h. compile_hook lib c = Ok h) cs hs \<and> hooks' = fold push_hook hs hooks)"
proof (induction cs arbitrary: hooks)
  case (Cons c cs)
  have "(\<exists>hs. list_all2 (\<lambda>c h. compile_hook lib c = Ok h) (c # cs) hs \<and> hooks' = fold push_hook hs hooks) \<longleftrightarrow>
      (\<exists>h hs. compile_hook lib c = Ok h \<and> list_all2 (\<lambda>c h. compile_hook lib c = Ok h) cs hs
        \<and> hooks' = fold push_hook hs (push_hook h hooks))"
    unfolding list_all2_Cons1 by fastforce
  then show ?case by (auto simp: obind_iffs Cons)
qed auto

lemma fold_push_hook:
  "fold push_hook hs hooks k =
    (let new = filter (\<lambda>h. mitm_host h = k) hs in
     if new = [] then hooks k else Some ((case hooks k of Some old \<Rightarrow> old | None \<Rightarrow> []) @ new))"
  by (induction hs arbitrary: hooks) (simp_all add: push_hook_def Let_def)

lemma compiled_hooks:
  assumes "compile_mitm_hooks lib enabled cs = Ok hooks"
  obtains hs where "list_all2 (\<lambda>c h. compile_hook lib c = Ok h) cs hs"
    and "\<And>k. hooks k = (let new = filter (\<lambda>h. mitm_host h = k) hs in if new = [] then None else Some new)"
  using assms by (auto simp: compile_mitm_hooks_def obind_iffs compile_hooks_loop_Ok fold_push_hook Let_def)

section \<open>The outcome of an evaluation\<close>

lemma evaluation_follows_config:
  assumes "compile_mitm_hooks lib enabled cs = Ok hooks"
  shows "let named = filter (\<lambda>c. normalize_host (hook_host c) = normalize_host host) cs in
    case evaluate_mitm_hooks lib hm hooks host req of
      NoHooksForHost \<Rightarrow> named = []
    | HookedHostNoMatch \<Rightarrow> named \<noteq> [] \<and> list_all (\<lambda>c. \<not> config_admits lib hm c req) named
    | Matched a \<Rightarrow> (\<exists>c. find (\<lambda>c. config_admits lib hm c req) named = Some c \<and> actions_follow lib (hook_actions_config c) a)"
proof -
  obtain hs where hs: "list_all2 (\<lambda>c h. compile_hook lib c = Ok h) cs hs"
    and hooks: "\<And>k. hooks k = (let new = filter (\<lambda>h. mitm_host h = k) hs in if new = [] then None else Some new)"
    using compiled_hooks [OF assms(1)] by metis
  define named where "named = filter (\<lambda>c. normalize_host (hook_host c) = normalize_host host) cs"
  define there where "there = filter (\<lambda>h. mitm_host h = normalize_host host) hs"
  have rel: "list_all2 (\<lambda>c h. compile_hook lib c = Ok h) named there"
    unfolding named_def there_def by (rule filter_rel [OF hs]) (simp add: compile_hook_meaning(1))
  have found: "rel_option (\<lambda>c h. compile_hook lib c = Ok h)
      (find (\<lambda>c. config_admits lib hm c req) named) (find (\<lambda>h. hook_matches lib hm h req) there)"
    by (rule find_rel [OF rel]) (simp add: compile_hook_meaning(2))
  show ?thesis
  proof (cases "there = []")
    case True
    with rel have "named = []" by simp
    with True show ?thesis by (simp add: evaluate_mitm_hooks_def hooks there_def Let_def flip: named_def)
  next
    case False
    with rel have "named \<noteq> []" by auto
    moreover have eval: "evaluate_mitm_hooks lib hm hooks host req =
        (case find (\<lambda>h. hook_matches lib hm h req) there of Some h \<Rightarrow> Matched (mitm_actions h) | None \<Rightarrow> HookedHostNoMatch)"
      using False by (simp add: evaluate_mitm_hooks_def hooks there_def Let_def)
    ultimately show ?thesis
      using found compile_hook_meaning(3) find_None_iff [of "\<lambda>c. config_admits lib hm c req" named]
      by (cases "find (\<lambda>c. config_admits lib hm c req) named"; cases "find (\<lambda>h. hook_matches lib hm h req) there")
        (auto simp: eval Let_def list_all_iff simp flip: named_def)
  qed
qed

text \<open>
  C27: the hooks do what the configuration says. Once the configuration compiles, a request to a host that no hook names is left alone;
  on a host with hooks the first hook in the order of the configuration that admits the request gives the
  actions, with the header names and secrets configured for that hook; and a request that none of them
  admits is reported as such, never as one without hooks.
\<close>

theorem hooks_follow_config:
  assumes "compile_mitm_hooks lib enabled cs = Ok hooks"
  shows "let named = filter (\<lambda>c. normalize_host (hook_host c) = normalize_host host) cs in
    case evaluate_mitm_hooks lib hm hooks host req of
      NoHooksForHost \<Rightarrow> named = []
    | HookedHostNoMatch \<Rightarrow> named \<noteq> [] \<and> list_all (\<lambda>c. \<not> config_admits lib hm c req) named
    | Matched a \<Rightarrow> (\<exists>c. find (\<lambda>c. config_admits lib hm c req) named = Some c \<and> actions_follow lib (hook_actions_config c) a)"
  using evaluation_follows_config [OF assms] .

lemma get_all_fold_remove:
  "header_map_ok hm \<Longrightarrow> get_all hm (fold (remove_header hm) ns h) m = (if m \<in> set ns then [] else get_all hm h m)"
  by (induction ns arbitrary: h) (auto simp: header_map_ok_def)

lemma get_all_fold_insert:
  "header_map_ok hm \<Longrightarrow>
    get_all hm (fold (\<lambda>i. insert_header hm (resolved_name i) (resolved_value i)) is h) m =
    (case find (\<lambda>i. resolved_name i = m) (rev is) of Some i \<Rightarrow> [resolved_value i] | None \<Rightarrow> get_all hm h m)"
proof (induction "is" arbitrary: h rule: rev_induct)
  case (snoc i js)
  then show ?case by (auto simp: header_map_ok_def split: option.splits)
qed simp

text \<open>What the request carries after the actions: of an injected header the configured value alone, whatever the client sent.\<close>

lemma applied_headers:
  assumes "header_map_ok hm"
  shows "get_all hm (apply_mitm_hook_actions hm (Some a) h) m =
    (case find (\<lambda>i. resolved_name i = m) (rev (inject_request_headers a)) of
       Some i \<Rightarrow> [resolved_value i]
     | None \<Rightarrow> if m \<in> set (strip_request_headers a) then [] else get_all hm h m)"
  by (simp add: apply_mitm_hook_actions_def get_all_fold_insert [OF assms] get_all_fold_remove [OF assms] split: option.split)

text \<open>Once a configuration is valid its compilation fails only at a secret.\<close>

fun secret_error :: "hook_error \<Rightarrow> bool" where
  "secret_error (InInjectedHeader _ e) = (case e of EnvVarMissing _ \<Rightarrow> True | SecretFileUnreadable _ \<Rightarrow> True | HeaderValueInvalid _ \<Rightarrow> True | _ \<Rightarrow> False)"
| "secret_error _ = False"

lemma check_all_Ok: "check_all f xs = Ok u \<longleftrightarrow> list_all (\<lambda>x. f x = Ok ()) xs"
  unfolding check_all_def obind_eq_Ok omap_eq_Ok
  by (auto simp: list_all2_conv_all_nth list_all_length intro: exI [of _ "replicate (length xs) ()"])

lemma omap_total: "list_all (\<lambda>x. \<exists>y. f x = Ok y) xs \<Longrightarrow> \<exists>ys. omap f xs = Ok ys"
  by (induction xs) auto

lemma omap_Err: "omap f xs = Err e \<Longrightarrow> \<exists>x \<in> set xs. f x = Err e"
  by (induction xs) (auto simp: obind_iffs)

lemma validated_hook:
  assumes "validate_hook lib (i, c) = Ok u"
  obtains host methods prefixes query headers strip where
    "normalize_hook_host (hook_host c) = Ok host" "normalize_methods (match_methods (hook_match c)) = Ok methods"
    "methods \<noteq> []" "compile_path_matchers lib (match_path_prefixes (hook_match c)) = Ok prefixes" "prefixes \<noteq> []"
    "omap (compile_query lib) (match_query (hook_match c)) = Ok query"
    "omap (compile_header lib) (match_headers (hook_match c)) = Ok headers"
    "omap (parse_header_name lib) (strip_names (hook_actions_config c)) = Ok strip"
    "list_all (\<lambda>h. validate_injected_header lib h = Ok ()) (inject_configs (hook_actions_config c))"
proof -
  have q: "\<exists>ys. omap (compile_query lib) qs = Ok ys" if "validate_query_constraints lib qs = Ok ()" for qs
    using that by (intro omap_total) (auto simp: validate_query_constraints_def check_all_Ok list_all_iff validate_query_constraint_def
        compile_query_def obind_iffs case_prod_beta)
  have h: "\<exists>ys. omap (compile_header lib) hs = Ok ys" if "validate_header_constraints lib hs = Ok ()" for hs
    using that by (intro omap_total) (auto simp: validate_header_constraints_def check_all_Ok list_all_iff validate_header_constraint_def
        compile_header_def obind_iffs case_prod_beta)
  have st: "\<exists>ys. omap (parse_header_name lib) ns = Ok ys" if "validate_strip_request_headers lib ns = Ok ()" for ns
    using that by (intro omap_total) (auto simp: validate_strip_request_headers_def check_all_Ok list_all_iff obind_iffs)
  from assms obtain host methods prefixes where
    "normalize_hook_host (hook_host c) = Ok host" "normalize_methods (match_methods (hook_match c)) = Ok methods"
    "methods \<noteq> []" "compile_path_matchers lib (match_path_prefixes (hook_match c)) = Ok prefixes" "prefixes \<noteq> []"
    and v: "validate_query_constraints lib (match_query (hook_match c)) = Ok ()"
      "validate_header_constraints lib (match_headers (hook_match c)) = Ok ()"
      "validate_strip_request_headers lib (strip_names (hook_actions_config c)) = Ok ()"
      "validate_injected_headers lib (inject_configs (hook_actions_config c)) = Ok ()"
    by (auto simp: validate_hook_def Let_def obind_iffs)
  moreover have "list_all (\<lambda>h. validate_injected_header lib h = Ok ()) (inject_configs (hook_actions_config c))"
    using v(4) by (simp add: validate_injected_headers_def check_all_Ok)
  ultimately show ?thesis using q [OF v(1)] h [OF v(2)] st [OF v(3)] by (auto intro: that)
qed

lemma validated_injected_header:
  assumes "validate_injected_header lib h = Ok u" "compile_injected_header lib h = Err e"
  shows "secret_error (InInjectedHeader n e)"
  using assms by (auto simp: validate_injected_header_def compile_injected_header_def obind_iffs ok_or_def Let_def
      split: option.splits if_splits)

lemma valid_hooks_fail_at_secrets:
  assumes "validate_mitm_hook_config lib enabled cs = Ok u" "compile_mitm_hooks lib enabled cs = Err e"
  shows "secret_error e"
proof -
  have valid: "\<exists>i. validate_hook lib (i, c) = Ok ()" if "c \<in> set cs" for c
    using assms(1) that by (auto simp: validate_mitm_hook_config_def check_all_Ok list_all_length nth_enumerate_eq in_set_conv_nth
        split: if_splits)
  have one: "secret_error e" if "compile_hook lib c = Err e" "c \<in> set cs" for c
  proof -
    from valid [OF that(2)] obtain i where "validate_hook lib (i, c) = Ok ()" by blast
    then obtain host methods prefixes query headers strip where parts:
      "normalize_hook_host (hook_host c) = Ok host" "normalize_methods (match_methods (hook_match c)) = Ok methods"
      "compile_path_matchers lib (match_path_prefixes (hook_match c)) = Ok prefixes"
      "omap (compile_query lib) (match_query (hook_match c)) = Ok query"
      "omap (compile_header lib) (match_headers (hook_match c)) = Ok headers"
      "omap (parse_header_name lib) (strip_names (hook_actions_config c)) = Ok strip"
      and inj: "list_all (\<lambda>h. validate_injected_header lib h = Ok ()) (inject_configs (hook_actions_config c))"
      by (rule validated_hook)
    with that(1) have "omap (\<lambda>h. with_context (InInjectedHeader (injected_name h)) (compile_injected_header lib h))
        (inject_configs (hook_actions_config c)) = Err e"
      by (auto simp: compile_hook_def Let_def compile_actions_def obind_iffs)
    from omap_Err [OF this] obtain h where
      h: "h \<in> set (inject_configs (hook_actions_config c))"
        "with_context (InInjectedHeader (injected_name h)) (compile_injected_header lib h) = Err e" by blast
    with inj obtain e' where "compile_injected_header lib h = Err e'" "validate_injected_header lib h = Ok ()"
      "e = InInjectedHeader (injected_name h) e'"
      by (cases "compile_injected_header lib h") (auto simp: with_context_def list_all_iff)
    then show ?thesis using validated_injected_header by metis
  qed
  have "compile_hooks_loop lib ds H = Err e \<Longrightarrow> set ds \<subseteq> set cs \<Longrightarrow> secret_error e" for ds H
    by (induction ds arbitrary: H) (auto simp: obind_iffs dest: one)
  with assms show ?thesis by (auto simp: compile_mitm_hooks_def)
qed

section \<open>Examples\<close>

definition plain_lib :: "ustr hook_lib" where
  "plain_lib = \<lparr>header_name_of = (\<lambda>n. if n = [] then None else Some (to_ascii_lowercase n)), header_value_of = Some, header_text = Some,
     query_pairs = (\<lambda>_. []), hook_glob_valid = (\<lambda>_ _. True), hook_glob_match = (\<lambda>_ g t. g = t),
     lookup_env_var = (\<lambda>n. if n = str ''TOKEN'' then Some (str ''s3cret'') else None), read_secret_file = (\<lambda>_. None),
     process_home = None, process_cwd = str ''/''\<rparr>"

definition function_headers :: "(ustr \<Rightarrow> ustr list, ustr) header_map" where
  "function_headers = \<lparr>get_all = (\<lambda>h. h), remove_header = (\<lambda>n h. h(n := [])), insert_header = (\<lambda>n v h. h(n := [v]))\<rparr>"

lemma function_headers_ok: "header_map_ok function_headers"
  by (simp add: header_map_ok_def function_headers_def)

definition github_hook :: mitm_hook_config where
  "github_hook = \<lparr>hook_host = str ''API.GitHub.com'',
     hook_match = \<lparr>match_methods = [str ''post''], match_path_prefixes = [str ''/repos/openai/''], match_query = [], match_headers = [],
       match_body_given = False\<rparr>,
     hook_actions_config = \<lparr>strip_names = [str ''Cookie''],
       inject_configs = [\<lparr>injected_name = str ''Authorization'', secret_env_var = Some (str ''TOKEN''), secret_file = None,
         value_prefix = Some (str ''Bearer '')\<rparr>]\<rparr>\<rparr>"

definition github_request :: "(ustr \<Rightarrow> ustr list) http_request" where
  "github_request = \<lparr>http_method = str ''POST'', uri_scheme = None, uri_authority = None, uri_path = str ''/repos/openai/codex'',
     uri_query = None, uri_path_and_query = Some (str ''/repos/openai/codex''), http_headers = (\<lambda>n. if n = str ''authorization'' then [str ''mine''] else [])\<rparr>"

definition github_hooks :: "ustr mitm_hooks_by_host" where
  "github_hooks = (case compile_mitm_hooks plain_lib True [github_hook] of Ok hooks \<Rightarrow> hooks | _ \<Rightarrow> Map.empty)"

lemma github_hooks_compiled: "compile_mitm_hooks plain_lib True [github_hook] = Ok github_hooks"
proof -
  have "case compile_mitm_hooks plain_lib True [github_hook] of Ok _ \<Rightarrow> True | _ \<Rightarrow> False" by code_simp
  then show ?thesis by (auto simp: github_hooks_def split: outcome.splits)
qed

theorem hooks_follow_config_witness:
  "\<exists>a. evaluate_mitm_hooks plain_lib function_headers github_hooks (str ''api.github.com:443'') github_request = Matched a
    \<and> actions_follow plain_lib (hook_actions_config github_hook) a
    \<and> map (injected_value plain_lib) (inject_configs (hook_actions_config github_hook)) = [str ''Bearer s3cret'']"
proof -
  have "case evaluate_mitm_hooks plain_lib function_headers github_hooks (str ''api.github.com:443'') github_request of
      Matched _ \<Rightarrow> True | _ \<Rightarrow> False" by code_simp
  then obtain a where a: "evaluate_mitm_hooks plain_lib function_headers github_hooks (str ''api.github.com:443'') github_request = Matched a"
    by (auto split: hook_evaluation.splits)
  have "map (injected_value plain_lib) (inject_configs (hook_actions_config github_hook)) = [str ''Bearer s3cret'']" by code_simp
  with a hooks_follow_config [OF github_hooks_compiled, of "str ''api.github.com:443''" function_headers github_request]
  show ?thesis by (auto simp: Let_def find_Some_iff split: if_splits)
qed

end
