(* ===== verification/Network_Access.thy ===== *)
theory Network_Access
  imports Mitm_Hooks Network_Approval
begin

text \<open>
  The front ends of the network proxy: the HTTP proxy and its CONNECT tunnels
  (\<open>codex-rs/network-proxy/src/http_proxy.rs\<close>), the SOCKS5 server (\<open>socks5.rs\<close>), the
  intercepted tunnels (\<open>mitm.rs\<close>), the policy they share (\<open>network_policy.rs\<close>) and the connectors
  (\<open>connect_policy.rs\<close>, \<open>upstream.rs\<close>). The shared state may change between any two accesses of a
  request, so a front end gets the function \<open>views\<close>: what its \<open>n\<close>-th access finds, \<open>None\<close> when the
  reload before it fails. The decider, the parsers of requests and the environment are arguments. Beside its result
  a front end gives the blocked requests it records. Logging and audit events are left out.
\<close>

section \<open>Requests, decisions and responses\<close>

definition REASON_DENIED :: ustr where "REASON_DENIED = str ''denied''"
definition REASON_METHOD_NOT_ALLOWED :: ustr where "REASON_METHOD_NOT_ALLOWED = str ''method_not_allowed''"
definition REASON_MITM_HOOK_DENIED :: ustr where "REASON_MITM_HOOK_DENIED = str ''mitm_hook_denied''"
definition REASON_MITM_REQUIRED :: ustr where "REASON_MITM_REQUIRED = str ''mitm_required''"
definition REASON_NOT_ALLOWED :: ustr where "REASON_NOT_ALLOWED = str ''not_allowed''"
definition REASON_NOT_ALLOWED_LOCAL :: ustr where "REASON_NOT_ALLOWED_LOCAL = str ''not_allowed_local''"
definition REASON_PROXY_DISABLED :: ustr where "REASON_PROXY_DISABLED = str ''proxy_disabled''"

lemmas reason_defs = REASON_DENIED_def REASON_METHOD_NOT_ALLOWED_def REASON_MITM_HOOK_DENIED_def REASON_MITM_REQUIRED_def
  REASON_NOT_ALLOWED_def REASON_NOT_ALLOWED_LOCAL_def REASON_PROXY_DISABLED_def REASON_POLICY_DENIED_def

definition as_policy_protocol :: "network_protocol \<Rightarrow> ustr" where
  "as_policy_protocol p =
     (case p of ProxyHttp \<Rightarrow> str ''http'' | ProxyHttpsConnect \<Rightarrow> str ''https_connect''
      | ProxySocks5Tcp \<Rightarrow> str ''socks5_tcp'' | ProxySocks5Udp \<Rightarrow> str ''socks5_udp'')"

definition policy_decision_str :: "network_policy_decision \<Rightarrow> ustr" where
  "policy_decision_str d = (case d of PolicyDeny \<Rightarrow> str ''deny'' | PolicyAsk \<Rightarrow> str ''ask'')"

definition decision_source_str :: "network_decision_source \<Rightarrow> ustr" where
  "decision_source_str s =
     (case s of BaselinePolicy \<Rightarrow> str ''baseline_policy'' | ModeGuard \<Rightarrow> str ''mode_guard''
      | ProxyState \<Rightarrow> str ''proxy_state'' | Decider \<Rightarrow> str ''decider'')"

definition block_reason_str :: "host_block_reason \<Rightarrow> ustr" where
  "block_reason_str r =
     (case r of Denied \<Rightarrow> REASON_DENIED | NotAllowed \<Rightarrow> REASON_NOT_ALLOWED | NotAllowedLocal \<Rightarrow> REASON_NOT_ALLOWED_LOCAL)"

definition ask_with_source :: "ustr \<Rightarrow> network_decision_source \<Rightarrow> network_decision" where
  "ask_with_source reason source =
     NetworkDeny (if reason = [] then REASON_POLICY_DENIED else reason) source PolicyAsk"

definition network_ask :: "ustr \<Rightarrow> network_decision" where
  "network_ask reason = ask_with_source reason Decider"

record blocked_request =
  blocked_host :: ustr
  blocked_reason :: ustr
  blocked_client :: "ustr option"
  blocked_method :: "ustr option"
  blocked_mode :: "network_mode option"
  blocked_protocol :: ustr
  blocked_decision :: "ustr option"
  blocked_source :: "ustr option"
  blocked_port :: "nat option"
  blocked_timestamp :: int

record policy_decision_details =
  details_decision :: network_policy_decision
  details_reason :: ustr
  details_source :: network_decision_source
  details_protocol :: network_protocol
  details_host :: ustr
  details_port :: nat

record blocked_response =
  response_host :: ustr
  response_reason :: ustr
  response_decision :: "ustr option"
  response_source :: "ustr option"
  response_protocol :: "ustr option"
  response_port :: "nat option"
  response_message :: "ustr option"

datatype response =
    TextResponse nat ustr \<comment> \<open>status and body\<close>
  | BlockedText ustr ustr \<comment> \<open>403 with \<open>x-proxy-error\<close> and body\<close>
  | BlockedJson ustr blocked_response \<comment> \<open>403 with \<open>x-proxy-error\<close> and the body to serialize\<close>

definition blocked_header_value :: "ustr \<Rightarrow> ustr" where
  "blocked_header_value reason =
     (if reason = REASON_NOT_ALLOWED \<or> reason = REASON_NOT_ALLOWED_LOCAL then str ''blocked-by-allowlist''
      else if reason = REASON_DENIED then str ''blocked-by-denylist''
      else if reason = REASON_METHOD_NOT_ALLOWED then str ''blocked-by-method-policy''
      else if reason = REASON_MITM_HOOK_DENIED then str ''blocked-by-mitm-hook''
      else if reason = REASON_MITM_REQUIRED then str ''blocked-by-mitm-required''
      else str ''blocked-by-policy'')"

definition blocked_message :: "ustr \<Rightarrow> ustr" where
  "blocked_message reason =
     (if reason = REASON_NOT_ALLOWED then str ''Domain not in allowlist.''
      else if reason = REASON_NOT_ALLOWED_LOCAL then str ''Sandbox policy blocks local/private network addresses.''
      else if reason = REASON_DENIED then str ''Domain denied by the sandbox policy.''
      else if reason = REASON_METHOD_NOT_ALLOWED then str ''Method not allowed in limited mode.''
      else if reason = REASON_MITM_HOOK_DENIED then str ''HTTPS request denied by MITM hook policy.''
      else if reason = REASON_MITM_REQUIRED then str ''MITM required for limited HTTPS.''
      else if reason = REASON_PROXY_DISABLED then str ''network proxy is disabled''
      else str ''Request blocked by network policy.'')"

definition blocked_message_with_policy :: "ustr \<Rightarrow> policy_decision_details \<Rightarrow> ustr" where
  "blocked_message_with_policy reason details = blocked_message reason"

definition blocked_text_response :: "ustr \<Rightarrow> response" where
  "blocked_text_response reason = BlockedText (blocked_header_value reason) (blocked_message reason)"

definition blocked_text_response_with_policy :: "ustr \<Rightarrow> policy_decision_details \<Rightarrow> response" where
  "blocked_text_response_with_policy reason details =
     BlockedText (blocked_header_value reason) (blocked_message_with_policy reason details)"

definition json_blocked :: "ustr \<Rightarrow> ustr \<Rightarrow> policy_decision_details option \<Rightarrow> response" where
  "json_blocked host reason details =
     BlockedJson (blocked_header_value reason)
       (case details of
          Some d \<Rightarrow> \<lparr>response_host = host, response_reason = reason,
            response_decision = Some (policy_decision_str (details_decision d)),
            response_source = Some (decision_source_str (details_source d)),
            response_protocol = Some (as_policy_protocol (details_protocol d)), response_port = Some (details_port d),
            response_message = Some (blocked_message_with_policy reason d)\<rparr>
        | None \<Rightarrow> \<lparr>response_host = host, response_reason = reason, response_decision = None, response_source = None,
            response_protocol = None, response_port = None, response_message = None\<rparr>)"

section \<open>The shared state as a request sees it\<close>

record mitm_upstream_config =
  mitm_allow_upstream_proxy :: bool
  mitm_allow_local_binding :: bool

record 'v proxy_view =
  view_state :: "blocked_request config_state"
  view_hooks :: "'v mitm_hooks_by_host"
  view_mitm :: "mitm_upstream_config option"

type_synonym 'v views = "nat \<Rightarrow> 'v proxy_view option"

text \<open>\<open>build_config_state\<close> with hooks; \<open>ca_ok\<close> tells whether the certificate authority could be loaded.\<close>

definition build_view ::
  "glob_lib \<Rightarrow> 'v hook_lib \<Rightarrow> bool \<Rightarrow> network_settings \<Rightarrow> mitm_hook_config list \<Rightarrow> network_constraints \<Rightarrow> 'v proxy_view option" where
  "build_view lib hlib ca_ok cfg hooks cons =
     (case build_config_state lib cfg cons of
        None \<Rightarrow> None
      | Some st \<Rightarrow>
          (case compile_mitm_hooks hlib (mitm cfg) hooks of
             Ok compiled \<Rightarrow>
               if mitm cfg \<and> \<not> ca_ok then None
               else Some \<lparr>view_state = st, view_hooks = compiled,
                 view_mitm = (if mitm cfg then Some \<lparr>mitm_allow_upstream_proxy = np_allow_upstream_proxy cfg,
                   mitm_allow_local_binding = np_allow_local_binding cfg\<rparr> else None)\<rparr>
           | _ \<Rightarrow> None))"

definition view_config :: "'v proxy_view \<Rightarrow> network_settings" where
  "view_config v = config (view_state v)"

definition host_has_mitm_hooks :: "ustr \<Rightarrow> 'v proxy_view \<Rightarrow> bool" where
  "host_has_mitm_hooks host v \<longleftrightarrow> view_hooks v (normalize_host host) \<noteq> None"

section \<open>The policy for hosts\<close>

type_synonym decider = "network_policy_request \<Rightarrow> network_decision"

definition map_decider_decision :: "network_decision \<Rightarrow> network_decision" where
  "map_decider_decision d =
     (case d of NetworkAllow \<Rightarrow> NetworkAllow | NetworkDeny reason _ decision \<Rightarrow> NetworkDeny reason Decider decision)"

definition evaluate_host_policy ::
  "glob_lib \<Rightarrow> (ustr \<Rightarrow> nat \<Rightarrow> ip_addr list option) \<Rightarrow> decider option \<Rightarrow> 'v proxy_view \<Rightarrow> network_policy_request
    \<Rightarrow> network_decision" where
  "evaluate_host_policy lib lookup decider v req =
     (case host_blocked lib lookup (request_host req) (request_port req) (view_state v) of
        HostAllowed \<Rightarrow> NetworkAllow
      | HostBlocked NotAllowed \<Rightarrow>
          (case decider of
             Some decide \<Rightarrow> map_decider_decision (decide req)
           | None \<Rightarrow> deny_with_source (block_reason_str NotAllowed) BaselinePolicy)
      | HostBlocked reason \<Rightarrow> deny_with_source (block_reason_str reason) BaselinePolicy)"

definition new_request :: "network_protocol \<Rightarrow> ustr \<Rightarrow> nat \<Rightarrow> ustr option \<Rightarrow> ustr option \<Rightarrow> network_policy_request" where
  "new_request protocol host port client method =
     \<lparr>request_protocol = protocol, request_host = host, request_port = port, request_client_addr = client,
      request_method = method, request_command = None, request_exec_policy_hint = None\<rparr>"

text \<open>A refusal as it is recorded, with the details that go into the response.\<close>

definition details_of ::
  "network_policy_decision \<Rightarrow> ustr \<Rightarrow> network_decision_source \<Rightarrow> network_protocol \<Rightarrow> ustr \<Rightarrow> nat \<Rightarrow> policy_decision_details" where
  "details_of decision reason source protocol host port =
     \<lparr>details_decision = decision, details_reason = reason, details_source = source, details_protocol = protocol,
      details_host = host, details_port = port\<rparr>"

definition blocked_entry ::
  "int \<Rightarrow> policy_decision_details \<Rightarrow> ustr option \<Rightarrow> ustr option \<Rightarrow> network_mode option \<Rightarrow> ustr \<Rightarrow> blocked_request" where
  "blocked_entry now d client method mode protocol =
     \<lparr>blocked_host = details_host d, blocked_reason = details_reason d, blocked_client = client, blocked_method = method,
      blocked_mode = mode, blocked_protocol = protocol, blocked_decision = Some (policy_decision_str (details_decision d)),
      blocked_source = Some (decision_source_str (details_source d)), blocked_port = Some (details_port d),
      blocked_timestamp = now\<rparr>"

definition internal_error :: response where
  "internal_error = TextResponse 500 (str ''error'')"

text \<open>
  Recording is an access of its own: \<open>record_blocked\<close> first reloads, and when that fails the entry is lost, because the
  callers ignore the error. \<open>recorded\<close> gives what is added to the buffer, for what this access finds.
\<close>

definition recorded :: "'v proxy_view option \<Rightarrow> blocked_request \<Rightarrow> blocked_request list" where
  "recorded view e = (case view of None \<Rightarrow> [] | Some _ \<Rightarrow> [e])"

definition proxy_disabled_response ::
  "'v proxy_view option \<Rightarrow> int \<Rightarrow> ustr \<Rightarrow> nat \<Rightarrow> ustr option \<Rightarrow> ustr option \<Rightarrow> network_protocol \<Rightarrow> response \<times> blocked_request list" where
  "proxy_disabled_response view now host port client method protocol =
     (let details = details_of PolicyDeny REASON_PROXY_DISABLED ProxyState protocol host port in
      (TextResponse 503 (blocked_message_with_policy REASON_PROXY_DISABLED details),
       recorded view \<lparr>blocked_host = host, blocked_reason = REASON_PROXY_DISABLED, blocked_client = client, blocked_method = method,
         blocked_mode = None, blocked_protocol = as_policy_protocol protocol, blocked_decision = Some (str ''deny''),
         blocked_source = Some (str ''proxy_state''), blocked_port = Some port, blocked_timestamp = now\<rparr>))"

section \<open>Tunnels: CONNECT\<close>

record connect_target =
  target_authority :: "ustr \<times> nat" \<comment> \<open>host as written and port\<close>
  target_needs_mitm :: bool
  target_mode :: network_mode
  target_mitm :: "mitm_upstream_config option"

text \<open>\<open>authority\<close> is what the request parser finds, \<open>None\<close> when there is none.\<close>

definition http_connect_accept ::
  "glob_lib \<Rightarrow> (ustr \<Rightarrow> nat \<Rightarrow> ip_addr list option) \<Rightarrow> decider option \<Rightarrow> 'v views \<Rightarrow> int \<Rightarrow> ustr option \<Rightarrow> (ustr \<times> nat) option
    \<Rightarrow> (connect_target, response) outcome \<times> blocked_request list" where
  "http_connect_accept lib lookup decider views now client authority =
     (case authority of
        None \<Rightarrow> (Err (TextResponse 400 (str ''missing authority'')), [])
      | Some (raw_host, port) \<Rightarrow>
          let host = normalize_host raw_host; method = Some (str ''CONNECT'') in
          if host = [] then (Err (TextResponse 400 (str ''invalid host'')), [])
          else (case views 0 of
            None \<Rightarrow> (Err internal_error, [])
          | Some v0 \<Rightarrow>
              if \<not> np_enabled (view_config v0)
              then (case proxy_disabled_response (views 1) now host port client method ProxyHttpsConnect of (r, es) \<Rightarrow> (Err r, es))
              else (case views 1 of
                None \<Rightarrow> (Err internal_error, [])
              | Some v1 \<Rightarrow>
                  (case evaluate_host_policy lib lookup decider v1 (new_request ProxyHttpsConnect host port client method) of
                     NetworkDeny reason source decision \<Rightarrow>
                       let details = details_of decision reason source ProxyHttpsConnect host port in
                       (Err (blocked_text_response_with_policy reason details),
                        recorded (views 2) (blocked_entry now details client method None (str ''http-connect'')))
                   | NetworkAllow \<Rightarrow>
                       (case (views 2, views 3, views 4) of
                          (Some v2, Some v3, Some v4) \<Rightarrow>
                            let mode = np_mode (view_config v2);
                                mitm_state = view_mitm v3;
                                connect_needs_mitm = (mode = Limited \<or> host_has_mitm_hooks host v4)
                            in if connect_needs_mitm \<and> mitm_state = None
                               then (let details = details_of PolicyDeny REASON_MITM_REQUIRED ModeGuard ProxyHttpsConnect host port in
                                 (Err (blocked_text_response_with_policy REASON_MITM_REQUIRED details),
                                  recorded (views 5) (blocked_entry now details client method (Some mode) (str ''http-connect''))))
                               else (Ok \<lparr>target_authority = (raw_host, port), target_needs_mitm = connect_needs_mitm,
                                   target_mode = mode, target_mitm = (if connect_needs_mitm then mitm_state else None)\<rparr>, [])
                        | _ \<Rightarrow> (Err internal_error, []))))))"

text \<open>Upstream proxies from the environment (\<open>upstream.rs\<close>); an address comes with whether its protocol is HTTP.\<close>

record 'a proxy_config =
  proxy_http :: "'a option"
  proxy_https :: "'a option"
  proxy_all :: "'a option"

fun read_proxy_env ::
  "(ustr \<Rightarrow> ustr option) \<Rightarrow> (ustr \<Rightarrow> ('a \<times> bool option) option) \<Rightarrow> ustr list \<Rightarrow> 'a option" where
  "read_proxy_env env parse_address [] = None"
| "read_proxy_env env parse_address (key # keys) =
     (case env key of
        None \<Rightarrow> read_proxy_env env parse_address keys
      | Some raw \<Rightarrow>
          let v = trim raw in
          if v = [] then read_proxy_env env parse_address keys
          else (case parse_address v of
                  Some (proxy, is_http) \<Rightarrow>
                    if (case is_http of Some b \<Rightarrow> b | None \<Rightarrow> True) then Some proxy else read_proxy_env env parse_address keys
                | None \<Rightarrow> read_proxy_env env parse_address keys))"

definition proxy_config_from_env ::
  "(ustr \<Rightarrow> ustr option) \<Rightarrow> (ustr \<Rightarrow> ('a \<times> bool option) option) \<Rightarrow> 'a proxy_config" where
  "proxy_config_from_env env parse_address =
     \<lparr>proxy_http = read_proxy_env env parse_address [str ''HTTP_PROXY'', str ''http_proxy''],
      proxy_https = read_proxy_env env parse_address [str ''HTTPS_PROXY'', str ''https_proxy''],
      proxy_all = read_proxy_env env parse_address [str ''ALL_PROXY'', str ''all_proxy'']\<rparr>"

definition or_else :: "'a option \<Rightarrow> 'a option \<Rightarrow> 'a option" where
  "or_else x y = (case x of None \<Rightarrow> y | Some _ \<Rightarrow> x)"

definition proxy_for_protocol :: "'a proxy_config \<Rightarrow> bool \<Rightarrow> 'a option" where
  "proxy_for_protocol c is_secure =
     (if is_secure then or_else (or_else (proxy_https c) (proxy_http c)) (proxy_all c)
      else or_else (proxy_http c) (proxy_all c))"

definition proxy_for_connect :: "(ustr \<Rightarrow> ustr option) \<Rightarrow> (ustr \<Rightarrow> ('a \<times> bool option) option) \<Rightarrow> 'a option" where
  "proxy_for_connect env parse_address = proxy_for_protocol (proxy_config_from_env env parse_address) True"

text \<open>The connectors (\<open>connect_policy.rs\<close>): a direct connection checks each address it is about to dial.\<close>

datatype target_policy = PolicyConfig bool | PolicyState

definition target_allow_local_binding :: "target_policy \<Rightarrow> 'v proxy_view option \<Rightarrow> bool option" where
  "target_allow_local_binding policy view =
     (case policy of PolicyConfig b \<Rightarrow> Some b | PolicyState \<Rightarrow> map_option (\<lambda>v. np_allow_local_binding (view_config v)) view)"

datatype connect_error = ConfigUnreadable | TargetRejected

definition connect_addr :: "target_policy \<Rightarrow> 'v proxy_view option \<Rightarrow> ip_addr \<Rightarrow> (ip_addr, connect_error) outcome" where
  "connect_addr policy view addr =
     (case target_allow_local_binding policy view of
        None \<Rightarrow> Err ConfigUnreadable
      | Some allow_local \<Rightarrow> if \<not> allow_local \<and> is_non_public_ip addr then Err TargetRejected else Ok addr)"

text \<open>What is dialled: an upstream proxy without a check, or an address of the target.\<close>

datatype 'a dialled = DialProxy 'a | DialTarget ip_addr

definition target_checked_serve ::
  "target_policy \<Rightarrow> 'v proxy_view option \<Rightarrow> 'a option \<Rightarrow> ip_addr \<Rightarrow> ('a dialled, connect_error) outcome" where
  "target_checked_serve policy view proxy addr =
     (case proxy of
        Some p \<Rightarrow> Ok (DialProxy p)
      | None \<Rightarrow> obind (connect_addr policy view addr) (\<lambda>a. Ok (DialTarget a)))"

datatype 'a tunnel = MitmTunnel ustr nat network_mode mitm_upstream_config | ForwardTunnel "ustr \<times> nat" "'a option"

definition http_connect_proxy ::
  "(ustr \<Rightarrow> ustr option) \<Rightarrow> (ustr \<Rightarrow> ('a \<times> bool option) option) \<Rightarrow> 'v views \<Rightarrow> connect_target \<Rightarrow> 'a tunnel" where
  "http_connect_proxy env parse_address views target =
     (case (target_needs_mitm target, target_mitm target) of
        (True, Some m) \<Rightarrow>
          MitmTunnel (normalize_host (fst (target_authority target))) (snd (target_authority target)) (target_mode target) m
      | _ \<Rightarrow>
          let allow_upstream_proxy = (case views 5 of Some v \<Rightarrow> np_allow_upstream_proxy (view_config v) | None \<Rightarrow> False) in
          ForwardTunnel (target_authority target) (if allow_upstream_proxy then proxy_for_connect env parse_address else None))"

section \<open>SOCKS5\<close>

datatype socks_error = SocksInvalidHost | SocksProxyError | SocksDenied ustr \<comment> \<open>message\<close>

definition policy_denied_error :: "ustr \<Rightarrow> policy_decision_details \<Rightarrow> socks_error" where
  "policy_denied_error reason details = SocksDenied (blocked_message_with_policy reason details)"

text \<open>The refusals of the two handlers differ in the protocol they name.\<close>

definition socks_refusal ::
  "'v proxy_view option \<Rightarrow> int \<Rightarrow> network_protocol \<Rightarrow> ustr \<Rightarrow> ustr \<Rightarrow> nat \<Rightarrow> ustr option \<Rightarrow> network_policy_decision \<Rightarrow> ustr \<Rightarrow> network_decision_source
    \<Rightarrow> network_mode option \<Rightarrow> ('a, socks_error) outcome \<times> blocked_request list" where
  "socks_refusal view now protocol label host port client decision reason source mode =
     (let details = details_of decision reason source protocol host port in
      (Err (policy_denied_error reason details), recorded view (blocked_entry now details client None mode label)))"

definition handle_socks5_tcp ::
  "glob_lib \<Rightarrow> (ustr \<Rightarrow> nat \<Rightarrow> ip_addr list option) \<Rightarrow> decider option \<Rightarrow> 'v views \<Rightarrow> int \<Rightarrow> ustr option \<Rightarrow> ustr \<times> nat
    \<Rightarrow> (ustr \<times> nat, socks_error) outcome \<times> blocked_request list" where
  "handle_socks5_tcp lib lookup decider views now client = (\<lambda>(raw_host, port).
     let host = normalize_host raw_host; refuse = (\<lambda>view. socks_refusal view now ProxySocks5Tcp (str ''socks5'') host port client) in
     if host = [] then (Err SocksInvalidHost, [])
     else (case views 0 of
       None \<Rightarrow> (Err SocksProxyError, [])
     | Some v0 \<Rightarrow>
         if \<not> np_enabled (view_config v0) then refuse (views 1) PolicyDeny REASON_PROXY_DISABLED ProxyState None
         else (case views 1 of
           None \<Rightarrow> (Err SocksProxyError, [])
         | Some v1 \<Rightarrow>
             (case np_mode (view_config v1) of
                Limited \<Rightarrow> refuse (views 2) PolicyDeny REASON_METHOD_NOT_ALLOWED ModeGuard (Some Limited)
              | Full \<Rightarrow>
                  (case views 2 of
                     None \<Rightarrow> (Err SocksProxyError, [])
                   | Some v2 \<Rightarrow>
                       if host_has_mitm_hooks host v2 then refuse (views 3) PolicyDeny REASON_MITM_REQUIRED ModeGuard (Some Full)
                       else (case views 3 of
                         None \<Rightarrow> (Err SocksProxyError, [])
                       | Some v3 \<Rightarrow>
                           (case evaluate_host_policy lib lookup decider v3 (new_request ProxySocks5Tcp host port client None) of
                              NetworkDeny reason source decision \<Rightarrow> refuse (views 4) decision reason source None
                            | NetworkAllow \<Rightarrow> (Ok (raw_host, port), []))))))))"

definition inspect_socks5_udp ::
  "glob_lib \<Rightarrow> (ustr \<Rightarrow> nat \<Rightarrow> ip_addr list option) \<Rightarrow> decider option \<Rightarrow> 'v views \<Rightarrow> int \<Rightarrow> ustr option \<Rightarrow> ustr \<times> nat
    \<Rightarrow> 'p \<Rightarrow> ('p, socks_error) outcome \<times> blocked_request list" where
  "inspect_socks5_udp lib lookup decider views now client = (\<lambda>(raw_host, port) payload.
     let host = normalize_host raw_host; refuse = (\<lambda>view. socks_refusal view now ProxySocks5Udp (str ''socks5-udp'') host port client) in
     if host = [] then (Err SocksInvalidHost, [])
     else (case views 0 of
       None \<Rightarrow> (Err SocksProxyError, [])
     | Some v0 \<Rightarrow>
         if \<not> np_enabled (view_config v0) then refuse (views 1) PolicyDeny REASON_PROXY_DISABLED ProxyState None
         else (case views 1 of
           None \<Rightarrow> (Err SocksProxyError, [])
         | Some v1 \<Rightarrow>
             (case np_mode (view_config v1) of
                Limited \<Rightarrow> refuse (views 2) PolicyDeny REASON_METHOD_NOT_ALLOWED ModeGuard (Some Limited)
              | Full \<Rightarrow>
                  (case views 2 of
                     None \<Rightarrow> (Err SocksProxyError, [])
                   | Some v2 \<Rightarrow>
                       (case evaluate_host_policy lib lookup decider v2 (new_request ProxySocks5Udp host port client None) of
                          NetworkDeny reason source decision \<Rightarrow> refuse (views 3) decision reason source None
                        | NetworkAllow \<Rightarrow> (Ok payload, [])))))))"

section \<open>Plain HTTP\<close>

text \<open>
  A plain request: what the parser makes of its target, of its \<open>Host\<close> header and of the header
  \<open>x-unix-socket\<close>; \<open>'n\<close> is the parser's type of hosts.
\<close>

record 'n request_context =
  context_authority_host :: 'n
  context_authority_port :: "nat option"
  context_port :: nat \<comment> \<open>of \<open>host_with_port\<close>\<close>
  context_has_default_port :: bool

datatype 'n host_header = NoHostHeader | InvalidHostHeader | HostHeader 'n "nat option"

datatype unix_socket_header = NoSocketHeader | UnreadableSocketHeader | SocketHeader ustr

definition host_mismatch :: ustr where
  "host_mismatch = str ''Host header does not match request target''"

definition validate_absolute_form_host_header ::
  "bool \<Rightarrow> 'n host_header \<Rightarrow> 'n request_context \<Rightarrow> (unit, ustr) outcome" where
  "validate_absolute_form_host_header has_scheme header ctx =
     (if \<not> has_scheme then Ok ()
      else case header of
        InvalidHostHeader \<Rightarrow> Err (str ''invalid Host header'')
      | NoHostHeader \<Rightarrow> Ok ()
      | HostHeader h port \<Rightarrow>
          if h \<noteq> context_authority_host ctx then Err host_mismatch
          else (case port of
                  Some p \<Rightarrow> if Some p \<noteq> context_authority_port ctx then Err host_mismatch else Ok ()
                | None \<Rightarrow> if \<not> context_has_default_port ctx then Err host_mismatch else Ok ()))"

text \<open>\<open>is_unix_socket_allowed\<close>: the platform, the environment and the canonical form of a path are arguments.\<close>

definition is_unix_socket_allowed ::
  "bool \<Rightarrow> ustr option \<times> ustr \<Rightarrow> (ustr \<Rightarrow> ustr option) \<Rightarrow> ustr \<Rightarrow> 'v proxy_view \<Rightarrow> bool" where
  "is_unix_socket_allowed supported process canonical path v =
     (if \<not> supported then False
      else if \<not> is_absolute path then False
      else if np_dangerously_allow_all_unix_sockets (view_config v) then True
      else let absolute = from_absolute_path (fst process) (snd process);
               requested_abs = absolute path; requested_canonical = canonical requested_abs in
        list_ex (\<lambda>allowed.
          is_absolute allowed
          \<and> (path_eq (absolute allowed) requested_abs
             \<or> (case (requested_canonical, canonical (absolute allowed)) of
                  (Some r, Some a) \<Rightarrow> path_eq a r
                | _ \<Rightarrow> False))) (allow_unix_sockets (view_config v)))"

datatype plain_result =
    Respond response
  | ToUnixSocket ustr
  | ToUpstream bool \<comment> \<open>whether the proxies of the environment are used\<close>

definition http_plain_proxy ::
  "glob_lib \<Rightarrow> (ustr \<Rightarrow> nat \<Rightarrow> ip_addr list option) \<Rightarrow> decider option \<Rightarrow> bool \<Rightarrow> ustr option \<times> ustr \<Rightarrow> (ustr \<Rightarrow> ustr option)
    \<Rightarrow> ('n \<Rightarrow> ustr) \<Rightarrow> 'v views \<Rightarrow> int \<Rightarrow> ustr option \<Rightarrow> ustr \<Rightarrow> unix_socket_header \<Rightarrow> bool \<Rightarrow> 'n host_header
    \<Rightarrow> 'n request_context option \<Rightarrow> plain_result \<times> blocked_request list" where
  "http_plain_proxy lib lookup decider supported process canonical host_text views now client method socket has_scheme header ctx =
     (case views 0 of
        None \<Rightarrow> (Respond internal_error, [])
      | Some v0 \<Rightarrow>
          let method_allowed = allows_method (np_mode (view_config v0)) method in
          (case socket of
             UnreadableSocketHeader \<Rightarrow> (Respond (TextResponse 400 (str ''invalid x-unix-socket header'')), [])
           | SocketHeader socket_path \<Rightarrow>
               (case views 1 of
                  None \<Rightarrow> (Respond internal_error, [])
                | Some v1 \<Rightarrow>
                    if \<not> np_enabled (view_config v1)
                    then (case proxy_disabled_response (views 2) now socket_path 0 client (Some method) ProxyHttp of (r, es) \<Rightarrow> (Respond r, es))
                    else if \<not> method_allowed
                    then (Respond (json_blocked (str ''unix-socket'') REASON_METHOD_NOT_ALLOWED None), [])
                    else if \<not> supported then (Respond (TextResponse 501 (str ''unix sockets unsupported'')), [])
                    else (case views 2 of
                            None \<Rightarrow> (Respond internal_error, [])
                          | Some v2 \<Rightarrow>
                              if is_unix_socket_allowed supported process canonical socket_path v2 then (ToUnixSocket socket_path, [])
                              else (Respond (json_blocked (str ''unix-socket'') REASON_NOT_ALLOWED None), [])))
           | NoSocketHeader \<Rightarrow>
               (case ctx of
                  None \<Rightarrow> (Respond (TextResponse 400 (str ''missing host'')), [])
                | Some c \<Rightarrow>
                    let host = normalize_host (host_text (context_authority_host c)); port = context_port c in
                    (case validate_absolute_form_host_header has_scheme header c of
                       Err reason \<Rightarrow> (Respond (TextResponse 400 reason), [])
                     | Panic \<Rightarrow> (Respond internal_error, [])
                     | Ok _ \<Rightarrow>
                         (case views 1 of
                            None \<Rightarrow> (Respond internal_error, [])
                          | Some v1 \<Rightarrow>
                              if \<not> np_enabled (view_config v1)
                              then (case proxy_disabled_response (views 2) now host port client (Some method) ProxyHttp of (r, es) \<Rightarrow> (Respond r, es))
                              else (case views 2 of
                                      None \<Rightarrow> (Respond internal_error, [])
                                    | Some v2 \<Rightarrow>
                                        (case evaluate_host_policy lib lookup decider v2 (new_request ProxyHttp host port client (Some method)) of
                                           NetworkDeny reason source decision \<Rightarrow>
                                             let details = details_of decision reason source ProxyHttp host port in
                                             (Respond (json_blocked host reason (Some details)),
                                              recorded (views 3) (blocked_entry now details client (Some method) None (str ''http'')))
                                         | NetworkAllow \<Rightarrow>
                                             if \<not> method_allowed
                                             then (let details = details_of PolicyDeny REASON_METHOD_NOT_ALLOWED ModeGuard ProxyHttp host port in
                                               (Respond (json_blocked host REASON_METHOD_NOT_ALLOWED (Some details)),
                                                recorded (views 3) (blocked_entry now details client (Some method) (Some Limited) (str ''http''))))
                                             else (case views 3 of
                                                     None \<Rightarrow> (Respond internal_error, [])
                                                   | Some v3 \<Rightarrow> (ToUpstream (np_allow_upstream_proxy (view_config v3)), [])))))))))"

text \<open>
  The headers between the proxy and its peers are removed before a request goes on. The loop runs as long as there
  is a \<open>Connection\<close> header; that it ends rests on the map of headers.
\<close>

definition connection_tokens :: "'v hook_lib \<Rightarrow> 'v \<Rightarrow> ustr list" where
  "connection_tokens lib v =
     (case header_text lib v of
        Some raw \<Rightarrow> List.map_filter (header_name_of lib) (filter (\<lambda>t. t \<noteq> []) (map trim (split_on (chr CHR '','') raw)))
      | None \<Rightarrow> [])"

partial_function (option) remove_connection_headers ::
  "'v hook_lib \<Rightarrow> ('h, 'v) header_map \<Rightarrow> 'h \<Rightarrow> 'h option" where
  "remove_connection_headers lib hm headers =
     (case get_all hm headers (str ''connection'') of
        [] \<Rightarrow> Some headers
      | raw # _ \<Rightarrow>
          remove_connection_headers lib hm
            (fold (remove_header hm) (connection_tokens lib raw) (remove_header hm (str ''connection'') headers)))"

definition HOP_BY_HOP :: "ustr list" where
  "HOP_BY_HOP = [str ''keep-alive'', str ''proxy-connection'', str ''proxy-authorization'', str ''trailer'',
     str ''transfer-encoding'', str ''upgrade'', str ''te'']"

definition remove_hop_by_hop_request_headers :: "'v hook_lib \<Rightarrow> ('h, 'v) header_map \<Rightarrow> 'h \<Rightarrow> 'h option" where
  "remove_hop_by_hop_request_headers lib hm headers =
     map_option (fold (remove_header hm) HOP_BY_HOP) (remove_connection_headers lib hm headers)"

section \<open>Intercepted requests\<close>

record mitm_policy_context =
  policy_target_host :: ustr
  policy_target_port :: nat
  policy_mode :: network_mode

datatype 'v mitm_policy_decision = MitmAllow "'v mitm_hook_actions option" | MitmBlock response

definition extract_request_host :: "'v hook_lib \<Rightarrow> ('h, 'v) header_map \<Rightarrow> 'h http_request \<Rightarrow> ustr option" where
  "extract_request_host lib hm req =
     or_else (case get_all hm (http_headers req) (str ''host'') of [] \<Rightarrow> None | v # _ \<Rightarrow> header_text lib v) (uri_authority req)"

definition mitm_entry ::
  "int \<Rightarrow> mitm_policy_context \<Rightarrow> ustr \<Rightarrow> ustr option \<Rightarrow> ustr \<Rightarrow> blocked_request" where
  "mitm_entry now policy reason client method =
     \<lparr>blocked_host = policy_target_host policy, blocked_reason = reason, blocked_client = client, blocked_method = Some method,
      blocked_mode = Some (policy_mode policy), blocked_protocol = str ''https'', blocked_decision = None, blocked_source = None,
      blocked_port = Some (policy_target_port policy), blocked_timestamp = now\<rparr>"

definition evaluate_mitm_policy ::
  "glob_lib \<Rightarrow> (ustr \<Rightarrow> nat \<Rightarrow> ip_addr list option) \<Rightarrow> 'v hook_lib \<Rightarrow> ('h, 'v) header_map \<Rightarrow> 'v views \<Rightarrow> int \<Rightarrow> ustr option
    \<Rightarrow> 'h http_request \<Rightarrow> mitm_policy_context \<Rightarrow> ('v mitm_policy_decision, unit) outcome \<times> blocked_request list" where
  "evaluate_mitm_policy lib lookup hlib hm views now client req policy =
     (let method = http_method req;
          block = (\<lambda>view reason. (Ok (MitmBlock (blocked_text_response reason)), recorded view (mitm_entry now policy reason client method))) in
      if method = str ''CONNECT'' then (Ok (MitmBlock (TextResponse 405 (str ''CONNECT not supported inside MITM''))), [])
      else if (case extract_request_host hlib hm req of
                 Some h \<Rightarrow> normalize_host h \<noteq> [] \<and> normalize_host h \<noteq> policy_target_host policy
               | None \<Rightarrow> False)
      then (Ok (MitmBlock (TextResponse 400 (str ''host mismatch''))), [])
      else (case views 0 of
        None \<Rightarrow> (Err (), [])
      | Some v0 \<Rightarrow>
          if host_blocked lib lookup (policy_target_host policy) (policy_target_port policy) (view_state v0)
               = HostBlocked NotAllowedLocal
          then block (views 1) (block_reason_str NotAllowedLocal)
          else (case views 1 of
            None \<Rightarrow> (Err (), [])
          | Some v1 \<Rightarrow>
              (case evaluate_mitm_hooks hlib hm (view_hooks v1) (policy_target_host policy) req of
                 HookedHostNoMatch \<Rightarrow> block (views 2) REASON_MITM_HOOK_DENIED
               | e \<Rightarrow>
                   if \<not> allows_method (policy_mode policy) method then block (views 2) REASON_METHOD_NOT_ALLOWED
                   else (Ok (MitmAllow (case e of Matched a \<Rightarrow> Some a | _ \<Rightarrow> None)), [])))))"

definition authority_header_value :: "ustr \<Rightarrow> nat \<Rightarrow> ustr" where
  "authority_header_value host port =
     (if contains_char (chr CHR '':'') host
      then (if port = 443 then str ''['' @ host @ str '']'' else str ''['' @ host @ str '']:'' @ show_nat port)
      else if port = 443 then host else host @ str '':'' @ show_nat port)"

definition path_and_query :: "'h http_request \<Rightarrow> ustr" where
  "path_and_query req = (case uri_path_and_query req of Some t \<Rightarrow> t | None \<Rightarrow> str ''/'')"

text \<open>
  The request that leaves an intercepted tunnel. Its address is made by parsing the text of a new one, which is the work
  of the HTTP library: \<open>parse_uri\<close> gives what the library reads, \<open>None\<close> when it rejects the text.
\<close>

record parsed_uri =
  parsed_scheme :: "ustr option"
  parsed_authority :: "ustr option"
  parsed_path :: ustr
  parsed_query :: "ustr option"
  parsed_path_and_query :: "ustr option"

definition build_https_uri :: "(ustr \<Rightarrow> parsed_uri option) \<Rightarrow> ustr \<Rightarrow> ustr \<Rightarrow> parsed_uri option" where
  "build_https_uri parse_uri authority path = parse_uri (str ''https://'' @ authority @ path)"

definition upstream_request ::
  "'v hook_lib \<Rightarrow> ('h, 'v) header_map \<Rightarrow> (ustr \<Rightarrow> parsed_uri option) \<Rightarrow> mitm_policy_context \<Rightarrow> 'v mitm_hook_actions option
    \<Rightarrow> 'h http_request \<Rightarrow> 'h http_request option" where
  "upstream_request hlib hm parse_uri policy actions req =
     (let headers = apply_mitm_hook_actions hm actions (http_headers req);
          authority = authority_header_value (policy_target_host policy) (policy_target_port policy) in
      case build_https_uri parse_uri authority (path_and_query req) of
        None \<Rightarrow> None
      | Some uri \<Rightarrow>
          map_option (\<lambda>v. req\<lparr>uri_scheme := parsed_scheme uri, uri_authority := parsed_authority uri,
            uri_path := parsed_path uri, uri_query := parsed_query uri, uri_path_and_query := parsed_path_and_query uri,
            http_headers := insert_header hm (str ''host'') v headers\<rparr>) (header_value_of hlib authority))"

datatype 'h mitm_result = MitmRespond response | MitmForward "'h http_request"

definition handle_mitm_request ::
  "glob_lib \<Rightarrow> (ustr \<Rightarrow> nat \<Rightarrow> ip_addr list option) \<Rightarrow> 'v hook_lib \<Rightarrow> ('h, 'v) header_map \<Rightarrow> (ustr \<Rightarrow> parsed_uri option)
    \<Rightarrow> 'v views \<Rightarrow> int \<Rightarrow> ustr option \<Rightarrow> mitm_policy_context \<Rightarrow> 'h http_request \<Rightarrow> 'h mitm_result \<times> blocked_request list" where
  "handle_mitm_request lib lookup hlib hm parse_uri views now client policy req =
     (let failed = MitmRespond (TextResponse 502 (str ''mitm upstream error'')) in
      case evaluate_mitm_policy lib lookup hlib hm views now client req policy of
        (Ok (MitmBlock r), es) \<Rightarrow> (MitmRespond r, es)
      | (Ok (MitmAllow actions), es) \<Rightarrow>
          ((case upstream_request hlib hm parse_uri policy actions req of Some out \<Rightarrow> MitmForward out | None \<Rightarrow> failed), es)
      | (_, es) \<Rightarrow> (failed, es))"

section \<open>What passes\<close>

text \<open>The four front ends side by side: a call, and the traffic it lets pass to a host.\<close>

datatype 'n proxy_call =
    CallConnect "(ustr \<times> nat) option"
  | CallPlain ustr unix_socket_header bool "'n host_header" "'n request_context option"
  | CallSocksTcp "ustr \<times> nat"
  | CallSocksUdp "ustr \<times> nat"

record passed =
  passed_protocol :: network_protocol
  passed_host :: ustr
  passed_port :: nat
  passed_method :: "ustr option"
  passed_intercepted :: bool

definition serve_call ::
  "glob_lib \<Rightarrow> (ustr \<Rightarrow> nat \<Rightarrow> ip_addr list option) \<Rightarrow> decider option \<Rightarrow> bool \<Rightarrow> ustr option \<times> ustr \<Rightarrow> (ustr \<Rightarrow> ustr option)
    \<Rightarrow> ('n \<Rightarrow> ustr) \<Rightarrow> 'v views \<Rightarrow> int \<Rightarrow> ustr option \<Rightarrow> 'n proxy_call \<Rightarrow> passed option \<times> blocked_request list" where
  "serve_call lib lookup decider supported process canonical host_text views now client call =
     (case call of
        CallConnect authority \<Rightarrow>
          (case http_connect_accept lib lookup decider views now client authority of
             (Ok t, es) \<Rightarrow> (Some \<lparr>passed_protocol = ProxyHttpsConnect, passed_host = normalize_host (fst (target_authority t)),
               passed_port = snd (target_authority t), passed_method = Some (str ''CONNECT''),
               passed_intercepted = (target_needs_mitm t \<and> target_mitm t \<noteq> None)\<rparr>, es)
           | (_, es) \<Rightarrow> (None, es))
      | CallPlain method socket has_scheme header ctx \<Rightarrow>
          (case (http_plain_proxy lib lookup decider supported process canonical host_text views now client method socket has_scheme header ctx, ctx) of
             ((ToUpstream _, es), Some c) \<Rightarrow> (Some \<lparr>passed_protocol = ProxyHttp,
               passed_host = normalize_host (host_text (context_authority_host c)), passed_port = context_port c,
               passed_method = Some method, passed_intercepted = False\<rparr>, es)
           | ((_, es), _) \<Rightarrow> (None, es))
      | CallSocksTcp (raw_host, port) \<Rightarrow>
          (case handle_socks5_tcp lib lookup decider views now client (raw_host, port) of
             (Ok _, es) \<Rightarrow> (Some \<lparr>passed_protocol = ProxySocks5Tcp, passed_host = normalize_host raw_host, passed_port = port,
               passed_method = None, passed_intercepted = False\<rparr>, es)
           | (_, es) \<Rightarrow> (None, es))
      | CallSocksUdp (raw_host, port) \<Rightarrow>
          (case inspect_socks5_udp lib lookup decider views now client (raw_host, port) () of
             (Ok _, es) \<Rightarrow> (Some \<lparr>passed_protocol = ProxySocks5Udp, passed_host = normalize_host raw_host, passed_port = port,
               passed_method = None, passed_intercepted = False\<rparr>, es)
           | (_, es) \<Rightarrow> (None, es)))"

definition passed_request :: "ustr option \<Rightarrow> passed \<Rightarrow> network_policy_request" where
  "passed_request client p = new_request (passed_protocol p) (passed_host p) (passed_port p) client (passed_method p)"

definition host_cleared ::
  "glob_lib \<Rightarrow> (ustr \<Rightarrow> nat \<Rightarrow> ip_addr list option) \<Rightarrow> decider option \<Rightarrow> 'v proxy_view \<Rightarrow> network_policy_request \<Rightarrow> bool" where
  "host_cleared lib lookup decider v req \<longleftrightarrow>
     (case host_blocked lib lookup (request_host req) (request_port req) (view_state v) of
        HostAllowed \<Rightarrow> True
      | HostBlocked NotAllowed \<Rightarrow> (case decider of Some decide \<Rightarrow> decide req = NetworkAllow | None \<Rightarrow> False)
      | HostBlocked _ \<Rightarrow> False)"

text \<open>In limited mode only a plain request with a harmless method, or an intercepted tunnel, may pass.\<close>

definition mode_permits :: "network_mode \<Rightarrow> passed \<Rightarrow> bool" where
  "mode_permits mode p \<longleftrightarrow>
     (case passed_protocol p of
        ProxyHttp \<Rightarrow> (case passed_method p of Some m \<Rightarrow> allows_method mode m | None \<Rightarrow> False)
      | ProxyHttpsConnect \<Rightarrow> mode = Full \<or> passed_intercepted p
      | _ \<Rightarrow> mode = Full)"

definition seen :: "'v views \<Rightarrow> 'v proxy_view \<Rightarrow> bool" where
  "seen views v \<longleftrightarrow> (\<exists>n. views n = Some v)"

lemma seenI [intro]: "views n = Some v \<Longrightarrow> seen views v"
  by (auto simp: seen_def)

lemma map_decider_Allow [simp]: "map_decider_decision d = NetworkAllow \<longleftrightarrow> d = NetworkAllow"
  by (cases d) (simp_all add: map_decider_decision_def)

lemma evaluate_allow_iff: "evaluate_host_policy lib lookup decider v req = NetworkAllow \<longleftrightarrow> host_cleared lib lookup decider v req"
  by (auto simp: evaluate_host_policy_def host_cleared_def deny_with_source_def
      split: host_block_decision.splits host_block_reason.splits option.splits)

lemma connect_passes:
  assumes "http_connect_accept lib lookup decider views now client authority = (Ok t, es)"
  obtains raw port v0 v1 v2 v3 v4 where "authority = Some (raw, port)" "target_authority t = (raw, port)" "es = []"
    and "views 0 = Some v0" "np_enabled (view_config v0)"
    and "views 1 = Some v1"
      "host_cleared lib lookup decider v1 (new_request ProxyHttpsConnect (normalize_host raw) port client (Some (str ''CONNECT'')))"
    and "views 2 = Some v2" "target_mode t = np_mode (view_config v2)" "views 3 = Some v3" "views 4 = Some v4"
    and "target_needs_mitm t \<longleftrightarrow> np_mode (view_config v2) = Limited \<or> host_has_mitm_hooks (normalize_host raw) v4"
    and "target_needs_mitm t \<longrightarrow> target_mitm t = view_mitm v3 \<and> view_mitm v3 \<noteq> None"
  using assms
  by (auto simp: http_connect_accept_def Let_def proxy_disabled_response_def evaluate_allow_iff
      split: option.splits prod.splits if_splits network_decision.splits)

lemma plain_passes:
  assumes "http_plain_proxy lib lookup decider supported process canonical host_text views now client method socket has_scheme header ctx
    = (ToUpstream b, es)"
  obtains c v0 v1 v2 where "ctx = Some c" "es = []" "views 0 = Some v0" "allows_method (np_mode (view_config v0)) method"
    and "views 1 = Some v1" "np_enabled (view_config v1)" "views 2 = Some v2"
      "host_cleared lib lookup decider v2
        (new_request ProxyHttp (normalize_host (host_text (context_authority_host c))) (context_port c) client (Some method))"
  using assms
  by (auto simp: http_plain_proxy_def Let_def proxy_disabled_response_def evaluate_allow_iff
      split: option.splits prod.splits if_splits network_decision.splits unix_socket_header.splits outcome.splits)

lemma socks_tcp_passes:
  assumes "handle_socks5_tcp lib lookup decider views now client (raw, port) = (Ok x, es)"
  obtains v0 v1 v2 v3 where "es = []" "views 0 = Some v0" "np_enabled (view_config v0)" "views 1 = Some v1"
    "np_mode (view_config v1) = Full" "views 2 = Some v2" "\<not> host_has_mitm_hooks (normalize_host raw) v2" "views 3 = Some v3"
    "host_cleared lib lookup decider v3 (new_request ProxySocks5Tcp (normalize_host raw) port client None)"
  using assms
  by (auto simp: handle_socks5_tcp_def Let_def socks_refusal_def evaluate_allow_iff
      split: option.splits if_splits network_decision.splits network_mode.splits)

lemma socks_udp_passes:
  assumes "inspect_socks5_udp lib lookup decider views now client (raw, port) payload = (Ok x, es)"
  obtains v0 v1 v2 where "es = []" "views 0 = Some v0" "np_enabled (view_config v0)" "views 1 = Some v1"
    "np_mode (view_config v1) = Full" "views 2 = Some v2"
    "host_cleared lib lookup decider v2 (new_request ProxySocks5Udp (normalize_host raw) port client None)"
  using assms
  by (auto simp: inspect_socks5_udp_def Let_def socks_refusal_def evaluate_allow_iff
      split: option.splits if_splits network_decision.splits network_mode.splits)

lemma passed_cleared:
  assumes "serve_call lib lookup decider supported process canonical host_text views now client call = (Some p, es)"
  shows "es = []" "\<exists>v. seen views v \<and> np_enabled (view_config v)"
    and "\<exists>v. seen views v \<and> host_cleared lib lookup decider v (passed_request client p)"
    and "\<exists>v. seen views v \<and> mode_permits (np_mode (view_config v)) p"
  using assms
  by (auto simp: serve_call_def mode_permits_def passed_request_def
      split: proxy_call.splits prod.splits outcome.splits plain_result.splits option.splits
      elim!: connect_passes plain_passes socks_tcp_passes socks_udp_passes)
    (use network_mode.exhaust in blast)+

text \<open>
  C13: nothing passes the proxy unchecked. Whatever front end a request comes through and however the settings change while it is
  handled, traffic goes on to a host only if the proxy was found enabled, the network mode permitted this kind of
  traffic, and the policy allowed that host and port; a decision of the decider counts only where the
  host was merely not on the allow list.
\<close>

theorem passed_traffic_cleared:
  assumes "serve_call lib lookup decider supported process canonical host_text views now client call = (Some p, es)"
  shows "es = [] \<and> (\<exists>v. seen views v \<and> np_enabled (view_config v))
    \<and> (\<exists>v. seen views v \<and> mode_permits (np_mode (view_config v)) p)
    \<and> (\<exists>v. seen views v \<and>
        (case host_blocked lib lookup (passed_host p) (passed_port p) (view_state v) of
           HostAllowed \<Rightarrow> True
         | HostBlocked NotAllowed \<Rightarrow> (\<exists>decide. decider = Some decide \<and> decide (passed_request client p) = NetworkAllow)
         | HostBlocked _ \<Rightarrow> False))"
proof -
  obtain v where v: "seen views v" "host_cleared lib lookup decider v (passed_request client p)"
    using passed_cleared(3) [OF assms] by blast
  have "request_host (passed_request client p) = passed_host p" "request_port (passed_request client p) = passed_port p"
    by (simp_all add: passed_request_def new_request_def)
  with v have "case host_blocked lib lookup (passed_host p) (passed_port p) (view_state v) of
           HostAllowed \<Rightarrow> True
         | HostBlocked NotAllowed \<Rightarrow> (\<exists>decide. decider = Some decide \<and> decide (passed_request client p) = NetworkAllow)
         | HostBlocked _ \<Rightarrow> False"
    by (auto simp: host_cleared_def split: host_block_decision.splits host_block_reason.splits option.splits)
  with v(1) passed_cleared(1,2,4) [OF assms] show ?thesis by blast
qed

text \<open>
  C10: a managed denial holds at every entrance. If every state a request can see is reached from a valid
  state by reloads and updates in any order, and the managed constraints in force deny a pattern, then no
  traffic passes to a host that matches it, not even when the decider approves.
\<close>

theorem managed_denial_at_every_entrance:
  assumes "serve_call lib lookup decider supported process canonical host_text views now client call = (Some p, es)"
    and "\<forall>v. seen views v \<longrightarrow> (\<exists>st0 ps. state_ok lib url_host st0
          \<and> (proxy_step lib url_host)\<^sup>*\<^sup>* (st0, []) (view_state v, ps))
        \<and> c_denied_domains (constraints (view_state v)) = Some managed"
    and "m \<in> set managed" "host_parse (passed_host p) = Some h"
  shows "\<not> pattern_matches lib m h"
proof
  assume match: "pattern_matches lib m h"
  obtain v where v: "seen views v" "host_cleared lib lookup decider v (passed_request client p)"
    using passed_cleared(3) [OF assms(1)] by blast
  from assms(2) v(1) obtain st0 ps where st0: "state_ok lib url_host st0" "(proxy_step lib url_host)\<^sup>*\<^sup>* (st0, []) (view_state v, ps)"
    and managed: "c_denied_domains (constraints (view_state v)) = Some managed" by blast
  have ok: "state_ok lib url_host (view_state v)"
    using proxy_steps_ok [OF st0(2)] st0(1) by (simp add: system_ok_def)
  have "host_blocked lib lookup (passed_host p) (passed_port p) (view_state v) = HostBlocked Denied"
    by (rule managed_host_denied [OF ok managed assms(3,4) match])
  with v(2) show False by (simp add: host_cleared_def passed_request_def new_request_def)
qed

section \<open>What is refused\<close>

text \<open>The host and port a well-formed call is about.\<close>

fun call_target :: "('n \<Rightarrow> ustr) \<Rightarrow> 'n proxy_call \<Rightarrow> (ustr \<times> nat) option" where
  "call_target host_text (CallConnect (Some (raw, port))) =
     (if normalize_host raw = [] then None else Some (normalize_host raw, port))"
| "call_target host_text (CallConnect None) = None"
| "call_target host_text (CallPlain method NoSocketHeader has_scheme header (Some c)) =
     (if validate_absolute_form_host_header has_scheme header c = Ok ()
      then Some (normalize_host (host_text (context_authority_host c)), context_port c) else None)"
| "call_target host_text (CallPlain _ _ _ _ _) = None"
| "call_target host_text (CallSocksTcp (raw, port)) =
     (if normalize_host raw = [] then None else Some (normalize_host raw, port))"
| "call_target host_text (CallSocksUdp (raw, port)) =
     (if normalize_host raw = [] then None else Some (normalize_host raw, port))"

definition records :: "ustr \<times> nat \<Rightarrow> ustr option \<Rightarrow> int \<Rightarrow> blocked_request list \<Rightarrow> bool" where
  "records target client now es \<longleftrightarrow>
     (\<exists>e. es = [e] \<and> blocked_host e = fst target \<and> blocked_port e = Some (snd target) \<and> blocked_client e = client
        \<and> blocked_timestamp e = now \<and> blocked_decision e \<in> {Some (str ''deny''), Some (str ''ask'')})"

lemma recorded_readable [simp]: "recorded (Some v) e = [e]"
  by (simp add: recorded_def)

lemma records_blocked_entry [simp]:
  "records target client now [blocked_entry now (details_of d reason source protocol host port) client method mode label]
    \<longleftrightarrow> target = (host, port)"
  by (cases target; cases d) (auto simp: records_def blocked_entry_def details_of_def policy_decision_str_def)

lemma records_disabled:
  "proxy_disabled_response (Some v) now host port client method protocol = (r, es) \<Longrightarrow> records (host, port) client now es"
  by (auto simp: records_def proxy_disabled_response_def Let_def)

lemma readable: "\<forall>n. views n \<noteq> None \<Longrightarrow> \<exists>v. views n = Some v"
  by blast

lemma connect_recorded:
  assumes "call_target host_text (CallConnect authority) = Some target" "\<forall>n. views n \<noteq> None"
    and "http_connect_accept lib lookup decider views now client authority = (r, es)" "\<forall>t. r \<noteq> Ok t"
  shows "records target client now es"
proof -
  obtain raw port where a: "authority = Some (raw, port)" "normalize_host raw \<noteq> []" "target = (normalize_host raw, port)"
    using assms(1) by (cases authority) (auto split: if_splits)
  obtain v0 v1 v2 v3 v4 v5 where v: "views 0 = Some v0" "views 1 = Some v1" "views 2 = Some v2" "views 3 = Some v3"
    "views 4 = Some v4" "views 5 = Some v5"
    using readable [OF assms(2)] by metis
  have v': "views (Suc 0) = Some v1" using v(2) by simp
  show ?thesis
    using assms(3,4) a(2)
    by (auto simp: http_connect_accept_def Let_def a v v' intro: records_disabled split: if_splits network_decision.splits prod.splits)
qed

lemma plain_recorded:
  assumes "call_target host_text (CallPlain method socket has_scheme header ctx) = Some target" "\<forall>n. views n \<noteq> None"
    and "http_plain_proxy lib lookup decider supported process canonical host_text views now client method socket has_scheme header ctx
      = (r, es)" "\<forall>b. r \<noteq> ToUpstream b"
  shows "records target client now es"
proof -
  obtain c where a: "socket = NoSocketHeader" "ctx = Some c" "validate_absolute_form_host_header has_scheme header c = Ok ()"
    "target = (normalize_host (host_text (context_authority_host c)), context_port c)"
    using assms(1) by (cases socket; cases ctx) (auto split: if_splits)
  obtain v0 v1 v2 v3 where v: "views 0 = Some v0" "views 1 = Some v1" "views 2 = Some v2" "views 3 = Some v3"
    using readable [OF assms(2)] by metis
  have v': "views (Suc 0) = Some v1" using v(2) by simp
  show ?thesis
    using assms(3,4)
    by (auto simp: http_plain_proxy_def Let_def a v v' intro: records_disabled split: if_splits network_decision.splits prod.splits)
qed

lemma socks_tcp_recorded:
  assumes "call_target host_text (CallSocksTcp (raw, port)) = Some target" "\<forall>n. views n \<noteq> None"
    and "handle_socks5_tcp lib lookup decider views now client (raw, port) = (r, es)" "\<forall>x. r \<noteq> Ok x"
  shows "records target client now es"
proof -
  obtain v0 v1 v2 v3 v4 where v: "views 0 = Some v0" "views 1 = Some v1" "views 2 = Some v2" "views 3 = Some v3" "views 4 = Some v4"
    using readable [OF assms(2)] by metis
  have v': "views (Suc 0) = Some v1" using v(2) by simp
  show ?thesis
    using assms(1,3,4)
    by (auto simp: handle_socks5_tcp_def Let_def v v' socks_refusal_def
        split: if_splits network_decision.splits network_mode.splits)
qed

lemma socks_udp_recorded:
  assumes "call_target host_text (CallSocksUdp (raw, port)) = Some target" "\<forall>n. views n \<noteq> None"
    and "inspect_socks5_udp lib lookup decider views now client (raw, port) payload = (r, es)" "\<forall>x. r \<noteq> Ok x"
  shows "records target client now es"
proof -
  obtain v0 v1 v2 v3 where v: "views 0 = Some v0" "views 1 = Some v1" "views 2 = Some v2" "views 3 = Some v3"
    using readable [OF assms(2)] by metis
  have v': "views (Suc 0) = Some v1" using v(2) by simp
  show ?thesis
    using assms(1,3,4)
    by (auto simp: inspect_socks5_udp_def Let_def v v' socks_refusal_def
        split: if_splits network_decision.splits network_mode.splits)
qed

lemma record_blocked_newest: "blocked (record_blocked e st) = drop (length (blocked st) + 1 - MAX_BLOCKED_EVENTS) (blocked st) @ [e]"
  by (simp add: record_blocked_def MAX_BLOCKED_EVENTS_def)

text \<open>
  C38: no refusal of a host goes unrecorded while the settings can be read. If every access to the settings during a
  call succeeds, the one for the recording included, a well-formed call to a host either passes or leaves exactly
  one record that names its host, port, client and time and carries a decision, whatever the reason of the refusal;
  the record is then the newest in the buffer. Requests to unix sockets are not calls to a host:
  \<open>socket_refusal_unrecorded\<close>; a failing reload loses the record: \<open>record_lost\<close>.
\<close>

theorem refusals_recorded:
  assumes "call_target host_text call = Some target" "\<forall>n. views n \<noteq> None"
    and "serve_call lib lookup decider supported process canonical host_text views now client call = (None, es)"
  shows "records target client now es \<and> (\<forall>st. blocked (fold record_blocked es st) \<noteq> [] \<and> es = [last (blocked (fold record_blocked es st))])"
proof -
  have "records target client now es"
  proof (cases call)
    case (CallConnect authority)
    obtain r es' where r: "http_connect_accept lib lookup decider views now client authority = (r, es')" by fastforce
    with assms(3) CallConnect have "\<forall>t. r \<noteq> Ok t" "es' = es" by (auto simp: serve_call_def split: outcome.splits)
    with connect_recorded [OF _ assms(2) r] assms(1) CallConnect show ?thesis by simp
  next
    case (CallPlain meth socket has_scheme header ctx)
    obtain r es' where r: "http_plain_proxy lib lookup decider supported process canonical host_text views now client meth socket
        has_scheme header ctx = (r, es')" by fastforce
    have "ctx \<noteq> None" using assms(1) CallPlain by (cases socket; cases ctx) auto
    with assms(3) CallPlain r have "\<forall>b. r \<noteq> ToUpstream b" "es' = es"
      by (auto simp: serve_call_def split: plain_result.splits)
    with plain_recorded [OF _ assms(2) r] assms(1) CallPlain show ?thesis by simp
  next
    case (CallSocksTcp t)
    obtain raw port where t: "t = (raw, port)" by fastforce
    obtain r es' where r: "handle_socks5_tcp lib lookup decider views now client (raw, port) = (r, es')" by fastforce
    with assms(3) CallSocksTcp t have "\<forall>x. r \<noteq> Ok x" "es' = es" by (auto simp: serve_call_def split: outcome.splits)
    with socks_tcp_recorded [OF _ assms(2) r] assms(1) CallSocksTcp t show ?thesis by simp
  next
    case (CallSocksUdp t)
    obtain raw port where t: "t = (raw, port)" by fastforce
    obtain r es' where r: "inspect_socks5_udp lib lookup decider views now client (raw, port) () = (r, es')" by fastforce
    with assms(3) CallSocksUdp t have "\<forall>x. r \<noteq> Ok x" "es' = es" by (auto simp: serve_call_def split: outcome.splits)
    with socks_udp_recorded [OF _ assms(2) r] assms(1) CallSocksUdp t show ?thesis by simp
  qed
  then show ?thesis by (auto simp: records_def record_blocked_newest)
qed

section \<open>What leaves an intercepted tunnel\<close>

text \<open>
  What is known of the parser of addresses: the authority of an address ends at the first \<open>/\<close>, \<open>?\<close> or \<open>#\<close> (RFC 3986, 3.2),
  and the rest up to a \<open>#\<close> is the path and, after a question mark, the query. Nothing is assumed of a target that does not
  begin with a slash.
\<close>

definition delimiter_free :: "ustr \<Rightarrow> bool" where
  "delimiter_free t \<longleftrightarrow> list_all (\<lambda>c. c \<notin> set (str ''/?#'')) t"

definition target_path :: "ustr \<Rightarrow> ustr" where
  "target_path t = takeWhile (\<lambda>c. c \<noteq> chr CHR ''?'') t"

definition target_query :: "ustr \<Rightarrow> ustr option" where
  "target_query t = (case dropWhile (\<lambda>c. c \<noteq> chr CHR ''?'') t of [] \<Rightarrow> None | _ # q \<Rightarrow> Some q)"

definition absolute_target :: "ustr \<Rightarrow> bool" where
  "absolute_target t \<longleftrightarrow> starts_with (str ''/'') t \<and> chr CHR ''#'' \<notin> set t"

definition uri_parser_ok :: "(ustr \<Rightarrow> parsed_uri option) \<Rightarrow> bool" where
  "uri_parser_ok parse_uri \<longleftrightarrow>
     (\<forall>authority t uri. delimiter_free authority \<and> absolute_target t
        \<and> parse_uri (str ''https://'' @ authority @ t) = Some uri \<longrightarrow>
        uri = \<lparr>parsed_scheme = Some (str ''https''), parsed_authority = Some authority, parsed_path = target_path t,
          parsed_query = target_query t, parsed_path_and_query = Some t\<rparr>)"

text \<open>A request whose target is a path: its parts are those of the target.\<close>

definition origin_form :: "'h http_request \<Rightarrow> bool" where
  "origin_form req \<longleftrightarrow>
     (case uri_path_and_query req of
        Some t \<Rightarrow> absolute_target t \<and> uri_path req = target_path t \<and> uri_query req = target_query t
      | None \<Rightarrow> False)"

lemma show_nat_digits: "c \<in> set (show_nat n) \<Longrightarrow> 48 \<le> c \<and> c \<le> 57"
proof (induction n rule: show_nat.induct)
  case (1 n)
  have "n mod 10 < 10" by simp
  with 1 show ?case by (subst (asm) show_nat.simps) (auto split: if_splits)
qed

lemma delimiter_free_append: "delimiter_free (s @ t) \<longleftrightarrow> delimiter_free s \<and> delimiter_free t"
  by (simp add: delimiter_free_def)

lemma delimiter_free_authority:
  assumes "delimiter_free host"
  shows "delimiter_free (authority_header_value host port)"
proof -
  have "delimiter_free (show_nat port)"
    using show_nat_digits [of _ port] by (force simp: delimiter_free_def list_all_iff str_def)
  moreover have "delimiter_free (str ''['')" "delimiter_free (str '']'')" "delimiter_free (str '']:'')" "delimiter_free (str '':'')"
    by code_simp+
  ultimately show ?thesis using assms by (simp add: authority_header_value_def delimiter_free_append)
qed

lemma mitm_forward:
  assumes "handle_mitm_request lib lookup hlib hm parse_uri views now client policy req = (MitmForward out, es)"
  obtains v0 v1 actions v uri where "es = []" "views 0 = Some v0" "views 1 = Some v1"
    and "host_blocked lib lookup (policy_target_host policy) (policy_target_port policy) (view_state v0) \<noteq> HostBlocked NotAllowedLocal"
    and "evaluate_mitm_hooks hlib hm (view_hooks v1) (policy_target_host policy) req
      = (case actions of Some a \<Rightarrow> Matched a | None \<Rightarrow> NoHooksForHost)"
    and "allows_method (policy_mode policy) (http_method req)"
    and "header_value_of hlib (authority_header_value (policy_target_host policy) (policy_target_port policy)) = Some v"
    and "build_https_uri parse_uri (authority_header_value (policy_target_host policy) (policy_target_port policy))
      (path_and_query req) = Some uri"
    and "out = req\<lparr>uri_scheme := parsed_scheme uri, uri_authority := parsed_authority uri, uri_path := parsed_path uri,
        uri_query := parsed_query uri, uri_path_and_query := parsed_path_and_query uri,
        http_headers := insert_header hm (str ''host'') v (apply_mitm_hook_actions hm actions (http_headers req))\<rparr>"
proof -
  from assms obtain actions where e: "evaluate_mitm_policy lib lookup hlib hm views now client req policy = (Ok (MitmAllow actions), es)"
    and out: "upstream_request hlib hm parse_uri policy actions req = Some out"
    by (auto simp: handle_mitm_request_def Let_def split: prod.splits outcome.splits mitm_policy_decision.splits option.splits)
  from e obtain v0 v1 where "es = []" "views 0 = Some v0" "views 1 = Some v1"
    "host_blocked lib lookup (policy_target_host policy) (policy_target_port policy) (view_state v0) \<noteq> HostBlocked NotAllowedLocal"
    "evaluate_mitm_hooks hlib hm (view_hooks v1) (policy_target_host policy) req
      = (case actions of Some a \<Rightarrow> Matched a | None \<Rightarrow> NoHooksForHost)"
    "allows_method (policy_mode policy) (http_method req)"
    by (auto simp: evaluate_mitm_policy_def Let_def split: if_splits option.splits hook_evaluation.splits)
  moreover from out obtain uri v where
    "header_value_of hlib (authority_header_value (policy_target_host policy) (policy_target_port policy)) = Some v"
    "build_https_uri parse_uri (authority_header_value (policy_target_host policy) (policy_target_port policy)) (path_and_query req) = Some uri"
    "out = req\<lparr>uri_scheme := parsed_scheme uri, uri_authority := parsed_authority uri, uri_path := parsed_path uri,
        uri_query := parsed_query uri, uri_path_and_query := parsed_path_and_query uri,
        http_headers := insert_header hm (str ''host'') v (apply_mitm_hook_actions hm actions (http_headers req))\<rparr>"
    by (auto simp: upstream_request_def Let_def split: option.splits)
  ultimately show ?thesis by (rule that)
qed

lemma rebuilt_address:
  assumes "build_https_uri parse_uri (authority_header_value host port) (path_and_query req) = Some uri"
    and "uri_parser_ok parse_uri" "origin_form req" "delimiter_free host"
  shows "uri = \<lparr>parsed_scheme = Some (str ''https''), parsed_authority = Some (authority_header_value host port),
    parsed_path = uri_path req, parsed_query = uri_query req, parsed_path_and_query = uri_path_and_query req\<rparr>"
proof -
  obtain t where t: "uri_path_and_query req = Some t" "absolute_target t" "uri_path req = target_path t" "uri_query req = target_query t"
    using assms(3) by (auto simp: origin_form_def split: option.splits)
  then have "parse_uri (str ''https://'' @ authority_header_value host port @ t) = Some uri"
    using assms(1) by (simp add: build_https_uri_def path_and_query_def)
  with assms(2) t delimiter_free_authority [OF assms(4)] show ?thesis unfolding uri_parser_ok_def by auto
qed

text \<open>
  C20: an intercepted request goes nowhere else, and secrets go only where they are configured. A request that
  leaves the tunnel carries one \<open>Host\<close> header, which names the target of the tunnel; its method is one the mode allows;
  and its other headers are those of the client, changed exactly as the first hook configured for that host that admits the
  request says. If hooks are configured for the host and none of them admits the request, it does not leave. When its
  target is a path (and the target host has no delimiter of addresses in it), its address is the target of the tunnel
  with the path and query the hooks were matched against. The last part rests on the parser of addresses ending the
  authority at a slash; \<open>asterisk_target_rewritten\<close> below is a request it does not cover.
\<close>

theorem mitm_request_confined:
  assumes "handle_mitm_request lib lookup hlib hm parse_uri views now client policy req = (MitmForward out, es)" "header_map_ok hm"
    and "views 1 = Some v1" "compile_mitm_hooks hlib enabled cs = Ok (view_hooks v1)"
  shows "let authority = authority_header_value (policy_target_host policy) (policy_target_port policy);
      named = filter (\<lambda>c. normalize_host (hook_host c) = normalize_host (policy_target_host policy)) cs;
      client_headers = get_all hm (http_headers req); sent = get_all hm (http_headers out) in
    map (Some) (sent (str ''host'')) = [header_value_of hlib authority]
    \<and> http_method out = http_method req \<and> allows_method (policy_mode policy) (http_method out)
    \<and> (uri_parser_ok parse_uri \<and> origin_form req \<and> delimiter_free (policy_target_host policy) \<longrightarrow>
         uri_scheme out = Some (str ''https'') \<and> uri_authority out = Some authority
         \<and> uri_path out = uri_path req \<and> uri_query out = uri_query req \<and> uri_path_and_query out = uri_path_and_query req)
    \<and> (if named = [] then \<forall>n. n \<noteq> str ''host'' \<longrightarrow> sent n = client_headers n
       else \<exists>c a. find (\<lambda>c. config_admits hlib hm c req) named = Some c \<and> actions_follow hlib (hook_actions_config c) a
         \<and> (\<forall>n. n \<noteq> str ''host'' \<longrightarrow> sent n =
              (case find (\<lambda>i. resolved_name i = n) (rev (inject_request_headers a)) of
                 Some i \<Rightarrow> [resolved_value i]
               | None \<Rightarrow> if n \<in> set (strip_request_headers a) then [] else client_headers n)))"
proof -
  obtain w1 actions v uri where w1: "views 1 = Some w1" and eval: "evaluate_mitm_hooks hlib hm (view_hooks w1) (policy_target_host policy) req
      = (case actions of Some a \<Rightarrow> Matched a | None \<Rightarrow> NoHooksForHost)"
    and rest: "allows_method (policy_mode policy) (http_method req)"
      "header_value_of hlib (authority_header_value (policy_target_host policy) (policy_target_port policy)) = Some v"
    and uri: "build_https_uri parse_uri (authority_header_value (policy_target_host policy) (policy_target_port policy))
      (path_and_query req) = Some uri"
    and out: "out = req\<lparr>uri_scheme := parsed_scheme uri, uri_authority := parsed_authority uri, uri_path := parsed_path uri,
        uri_query := parsed_query uri, uri_path_and_query := parsed_path_and_query uri,
        http_headers := insert_header hm (str ''host'') v (apply_mitm_hook_actions hm actions (http_headers req))\<rparr>"
    by (rule mitm_forward [OF assms(1)])
  have eval: "evaluate_mitm_hooks hlib hm (view_hooks v1) (policy_target_host policy) req
      = (case actions of Some a \<Rightarrow> Matched a | None \<Rightarrow> NoHooksForHost)"
    using eval w1 assms(3) by simp
  have sent: "get_all hm (http_headers out) n =
      (if n = str ''host'' then [v] else get_all hm (apply_mitm_hook_actions hm actions (http_headers req)) n)" for n
    using assms(2) by (simp add: out header_map_ok_def)
  have address: "uri_parser_ok parse_uri \<and> origin_form req \<and> delimiter_free (policy_target_host policy) \<longrightarrow>
      uri_scheme out = Some (str ''https'')
      \<and> uri_authority out = Some (authority_header_value (policy_target_host policy) (policy_target_port policy))
      \<and> uri_path out = uri_path req \<and> uri_query out = uri_query req \<and> uri_path_and_query out = uri_path_and_query req"
    using rebuilt_address [OF uri] by (auto simp: out)
  have verb: "http_method out = http_method req" by (simp add: out)
  show ?thesis
  proof (cases actions)
    case None
    with evaluation_follows_config [OF assms(4), of "policy_target_host policy" hm req] eval
    have "filter (\<lambda>c. normalize_host (hook_host c) = normalize_host (policy_target_host policy)) cs = []"
      by (simp add: Let_def)
    with None rest sent address verb show ?thesis by (simp add: Let_def apply_mitm_hook_actions_def)
  next
    case (Some a)
    with evaluation_follows_config [OF assms(4), of "policy_target_host policy" hm req] eval
    obtain c where c: "find (\<lambda>c. config_admits hlib hm c req)
        (filter (\<lambda>c. normalize_host (hook_host c) = normalize_host (policy_target_host policy)) cs) = Some c"
      "actions_follow hlib (hook_actions_config c) a" by (auto simp: Let_def)
    then have "filter (\<lambda>c. normalize_host (hook_host c) = normalize_host (policy_target_host policy)) cs \<noteq> []" by auto
    with Some c rest sent address verb show ?thesis by (simp add: Let_def applied_headers [OF assms(2)]) blast
  qed
qed

section \<open>The headers of a hop\<close>

lemma remove_connection_returns:
  assumes "header_map_ok hm"
  shows "\<exists>h'. remove_connection_headers lib hm h = Some h' \<and> (\<forall>n. get_all hm h' n =
      (if n = str ''connection'' \<or> (\<exists>raw rest. get_all hm h (str ''connection'') = raw # rest \<and> n \<in> set (connection_tokens lib raw))
       then [] else get_all hm h n))"
proof (cases "get_all hm h (str ''connection'')")
  case Nil
  then show ?thesis by (subst remove_connection_headers.simps) simp
next
  case (Cons raw rest)
  let ?h = "fold (remove_header hm) (connection_tokens lib raw) (remove_header hm (str ''connection'') h)"
  have g: "get_all hm ?h n = (if n = str ''connection'' \<or> n \<in> set (connection_tokens lib raw) then [] else get_all hm h n)" for n
    using assms by (simp add: get_all_fold_remove [OF assms]) (simp add: header_map_ok_def)
  then have "remove_connection_headers lib hm ?h = Some ?h"
    by (subst remove_connection_headers.simps) simp
  with Cons have "remove_connection_headers lib hm h = Some ?h"
    by (subst remove_connection_headers.simps) simp
  with g Cons show ?thesis by auto
qed

text \<open>
  C39: the clean-up of a request ends, and removes the headers of the hop and nothing else. With a map of headers that
  removes what it is told to, the loop over the \<open>Connection\<close> header returns; afterwards that header, the fixed list of
  hop-by-hop headers and the headers its first line names are gone, and every other header is as it was.
\<close>

theorem hop_by_hop_removal_returns:
  assumes "header_map_ok hm"
  shows "\<exists>h'. remove_hop_by_hop_request_headers lib hm h = Some h' \<and> (\<forall>n. get_all hm h' n =
      (if n \<in> set HOP_BY_HOP \<or> n = str ''connection''
          \<or> (case get_all hm h (str ''connection'') of [] \<Rightarrow> False | raw # _ \<Rightarrow> n \<in> set (connection_tokens lib raw))
       then [] else get_all hm h n))"
proof -
  obtain h' where h': "remove_connection_headers lib hm h = Some h'" "\<And>n. get_all hm h' n =
      (if n = str ''connection'' \<or> (\<exists>raw rest. get_all hm h (str ''connection'') = raw # rest \<and> n \<in> set (connection_tokens lib raw))
       then [] else get_all hm h n)"
    using remove_connection_returns [OF assms, of lib h] by blast
  have "get_all hm (fold (remove_header hm) HOP_BY_HOP h') n =
      (if n \<in> set HOP_BY_HOP \<or> n = str ''connection''
          \<or> (case get_all hm h (str ''connection'') of [] \<Rightarrow> False | raw # _ \<Rightarrow> n \<in> set (connection_tokens lib raw))
       then [] else get_all hm h n)" for n
    by (simp add: get_all_fold_remove [OF assms] h'(2) split: list.split)
  with h'(1) show ?thesis by (auto simp: remove_hop_by_hop_request_headers_def)
qed

section \<open>Examples\<close>

definition demo_view :: "ustr proxy_view" where
  "demo_view = \<lparr>view_state = \<lparr>config = example_settings, allow_set = [str ''?*.a.com''], deny_set = [str ''evil.com''],
       constraints = example_constraints, blocked = [], blocked_total = 0\<rparr>,
     view_hooks = github_hooks, view_mitm = Some \<lparr>mitm_allow_upstream_proxy = True, mitm_allow_local_binding = False\<rparr>\<rparr>"

definition public_dns :: "ustr \<Rightarrow> nat \<Rightarrow> ip_addr list option" where
  "public_dns = (\<lambda>_ _. Some [V4 (ipv4_of 8 8 8 8)])"

definition demo_call :: "ustr proxy_call \<Rightarrow> passed option \<times> blocked_request list" where
  "demo_call = serve_call example_globs public_dns (Some (\<lambda>_. NetworkAllow)) False (None, str ''/'') (\<lambda>_. None) (\<lambda>h. h)
     (\<lambda>_. Some demo_view) 7 None"

lemma demo_tunnel: "demo_call (CallConnect (Some (str ''x.A.com'', 443))) =
  (Some \<lparr>passed_protocol = ProxyHttpsConnect, passed_host = str ''x.a.com'', passed_port = 443,
     passed_method = Some (str ''CONNECT''), passed_intercepted = False\<rparr>, [])"
  by code_simp

theorem passed_traffic_cleared_witness:
  "fst (demo_call (CallConnect (Some (str ''x.A.com'', 443)))) \<noteq> None
    \<and> (\<exists>v. seen (\<lambda>_. Some demo_view) v \<and> np_enabled (view_config v))"
  using passed_traffic_cleared [OF demo_tunnel [unfolded demo_call_def]] demo_tunnel by simp

lemma demo_view_ok: "state_ok example_globs Some (view_state demo_view)"
  by code_simp

theorem managed_denial_at_every_entrance_witness:
  "fst (demo_call (CallConnect (Some (str ''x.A.com'', 443)))) \<noteq> None
    \<and> \<not> pattern_matches example_globs (str ''evil.COM'') (str ''x.a.com'')"
proof -
  have "\<forall>v. seen (\<lambda>_. Some demo_view) v \<longrightarrow> (\<exists>st0 ps. state_ok example_globs Some st0
          \<and> (proxy_step example_globs Some)\<^sup>*\<^sup>* (st0, []) (view_state v, ps))
        \<and> c_denied_domains (constraints (view_state v)) = Some [str ''evil.COM'']"
    using demo_view_ok by (auto simp: seen_def demo_view_def example_constraints_def)
  moreover have "host_parse (str ''x.a.com'') = Some (str ''x.a.com'')" by code_simp
  ultimately show ?thesis
    using managed_denial_at_every_entrance [OF demo_tunnel [unfolded demo_call_def], of Some "[str ''evil.COM'']"] demo_tunnel by simp
qed

theorem refusals_recorded_witness:
  "fst (demo_call (CallSocksTcp (str ''evil.com'', 22))) = None
    \<and> records (str ''evil.com'', 22) None 7 (snd (demo_call (CallSocksTcp (str ''evil.com'', 22))))"
proof -
  have refused: "fst (demo_call (CallSocksTcp (str ''evil.com'', 22))) = None" by code_simp
  then have "demo_call (CallSocksTcp (str ''evil.com'', 22)) = (None, snd (demo_call (CallSocksTcp (str ''evil.com'', 22))))"
    by (metis prod.collapse)
  moreover have "call_target (\<lambda>h. h) (CallSocksTcp (str ''evil.com'', 22)) = Some (str ''evil.com'', 22)" by code_simp
  ultimately show ?thesis
    using refusals_recorded [of "\<lambda>h. h" "CallSocksTcp (str ''evil.com'', 22)" "(str ''evil.com'', 22)" "\<lambda>_. Some demo_view"] refused
    by (simp add: demo_call_def)
qed

text \<open>Two refusals that leave no record: the reload of the recording fails, or the request is for a unix socket.\<close>

lemma record_lost:
  "serve_call example_globs public_dns None False (None, str ''/'') (\<lambda>_. None) (\<lambda>h. h)
     (\<lambda>n. if n = 2 then None else Some demo_view) 7 None (CallConnect (Some (str ''evil.com'', 443)) :: ustr proxy_call) = (None, [])"
  by code_simp

lemma socket_refusal_unrecorded:
  "http_plain_proxy example_globs public_dns None True (None, str ''/'') (\<lambda>_. None) (\<lambda>h. h) (\<lambda>_. Some demo_view) 7 None (str ''GET'')
     (SocketHeader (str ''/run/docker.sock'')) True NoHostHeader (None :: ustr request_context option)
   = (Respond (json_blocked (str ''unix-socket'') REASON_NOT_ALLOWED None), [])"
  by code_simp

definition github_policy :: mitm_policy_context where
  "github_policy = \<lparr>policy_target_host = str ''api.github.com'', policy_target_port = 443, policy_mode = Full\<rparr>"

text \<open>A parser of addresses that does what the assumption says.\<close>

definition plain_parse_uri :: "ustr \<Rightarrow> parsed_uri option" where
  "plain_parse_uri t =
     (if \<not> starts_with (str ''https://'') t then None
      else let rest = drop 8 t; authority = takeWhile (\<lambda>c. c \<notin> set (str ''/?#'')) rest;
               p = takeWhile (\<lambda>c. c \<noteq> chr CHR ''#'') (drop (length authority) rest) in
        Some \<lparr>parsed_scheme = Some (str ''https''), parsed_authority = Some authority, parsed_path = target_path p,
          parsed_query = target_query p, parsed_path_and_query = Some p\<rparr>)"

lemma plain_parse_uri_ok: "uri_parser_ok plain_parse_uri"
proof -
  have "plain_parse_uri (str ''https://'' @ authority @ t) = Some \<lparr>parsed_scheme = Some (str ''https''),
      parsed_authority = Some authority, parsed_path = target_path t, parsed_query = target_query t, parsed_path_and_query = Some t\<rparr>"
    if "delimiter_free authority" "absolute_target t" for authority t
  proof -
    have "\<exists>t'. t = chr CHR ''/'' # t'" using that(2)
      by (cases t) (auto simp: absolute_target_def starts_with_def str_def chr_def split: if_splits)
    then obtain t' where t: "t = chr CHR ''/'' # t'" ..
    have "takeWhile (\<lambda>c. c \<notin> set (str ''/?#'')) (authority @ t) = authority"
      using that(1) by (subst takeWhile_append2) (auto simp: delimiter_free_def list_all_iff t str_def chr_def)
    moreover have p: "takeWhile (\<lambda>c. c \<noteq> chr CHR ''#'') t = t"
      using that(2) by (auto simp: absolute_target_def takeWhile_eq_all_conv)
    have "length (str ''https://'') = 8" by code_simp
    ultimately show ?thesis by (simp add: plain_parse_uri_def starts_with_def Let_def p del: takeWhile_eq_all_conv)
  qed
  then show ?thesis by (auto simp: uri_parser_ok_def)
qed

definition github_sent :: "(ustr \<Rightarrow> ustr list) http_request \<Rightarrow> (ustr \<Rightarrow> ustr list) mitm_result \<times> blocked_request list" where
  "github_sent req = handle_mitm_request example_globs public_dns plain_lib function_headers plain_parse_uri (\<lambda>_. Some demo_view) 7 None
     github_policy req"

theorem mitm_request_confined_witness:
  "\<exists>out. github_sent github_request = (MitmForward out, []) \<and> uri_authority out = Some (str ''api.github.com'')
    \<and> uri_path out = str ''/repos/openai/codex'' \<and> http_headers out (str ''authorization'') = [str ''Bearer s3cret'']"
proof -
  have "case github_sent github_request of
      (MitmForward out, []) \<Rightarrow> http_headers out (str ''authorization'') = [str ''Bearer s3cret''] | _ \<Rightarrow> False"
    by code_simp
  then obtain out where out: "github_sent github_request = (MitmForward out, [])"
    "http_headers out (str ''authorization'') = [str ''Bearer s3cret'']"
    by (auto split: prod.splits mitm_result.splits list.splits)
  have hooks: "view_hooks demo_view = github_hooks" by (simp add: demo_view_def)
  have "authority_header_value (policy_target_host github_policy) (policy_target_port github_policy) = str ''api.github.com''"
    "origin_form github_request" "delimiter_free (policy_target_host github_policy)" "uri_path github_request = str ''/repos/openai/codex''"
    by code_simp+
  with mitm_request_confined [OF out(1) [unfolded github_sent_def] function_headers_ok, of demo_view True "[github_hook]"]
    github_hooks_compiled hooks out plain_parse_uri_ok
  show ?thesis by (auto simp: Let_def)
qed

text \<open>
  A request for the server itself, \<open>OPTIONS *\<close>, has a target that is not a path. Put behind the authority without a
  slash it becomes part of it, and the address no longer names the target of the tunnel.
\<close>

lemma asterisk_target_rewritten:
  "case handle_mitm_request example_globs public_dns plain_lib function_headers plain_parse_uri
      (\<lambda>_. Some (demo_view\<lparr>view_hooks := Map.empty\<rparr>)) 7 None github_policy
      (github_request\<lparr>http_method := str ''OPTIONS'', uri_path := str ''*'', uri_path_and_query := Some (str ''*'')\<rparr>) of
     (MitmForward out, _) \<Rightarrow> uri_authority out = Some (str ''api.github.com*'')
   | _ \<Rightarrow> False"
  by code_simp

definition two_connection_lines :: "ustr \<Rightarrow> ustr list" where
  "two_connection_lines = (\<lambda>_. [])(str ''connection'' := [str ''close'', str ''X-Internal''], str ''x-internal'' := [str ''1''],
     str ''te'' := [str ''trailers''])"

theorem hop_by_hop_removal_returns_witness:
  "\<exists>h'. remove_hop_by_hop_request_headers plain_lib function_headers two_connection_lines = Some h'
    \<and> h' (str ''te'') = [] \<and> h' (str ''connection'') = []"
proof -
  have hop: "str ''te'' \<in> set HOP_BY_HOP" by (simp add: HOP_BY_HOP_def)
  obtain h' where "remove_hop_by_hop_request_headers plain_lib function_headers two_connection_lines = Some h'"
    and h': "\<forall>n. get_all function_headers h' n =
      (if n \<in> set HOP_BY_HOP \<or> n = str ''connection''
          \<or> (case get_all function_headers two_connection_lines (str ''connection'') of [] \<Rightarrow> False
             | raw # _ \<Rightarrow> n \<in> set (connection_tokens plain_lib raw))
       then [] else get_all function_headers two_connection_lines n)"
    using hop_by_hop_removal_returns [OF function_headers_ok, of plain_lib two_connection_lines] by blast
  with spec [OF h', of "str ''te''"] spec [OF h', of "str ''connection''"] hop show ?thesis
    by (simp add: function_headers_def)
qed

text \<open>
  Of several \<open>Connection\<close> lines only the first is honoured: the removal of the header drops the others before they
  are read, and a header that only a later line names goes on to the server.
\<close>

lemma second_connection_line_ignored:
  "\<exists>h'. remove_hop_by_hop_request_headers plain_lib function_headers two_connection_lines = Some h' \<and> h' (str ''x-internal'') = [str ''1'']"
proof -
  have tokens: "connection_tokens plain_lib (str ''close'') = [str ''close'']" by code_simp
  have "get_all function_headers two_connection_lines (str ''connection'') = [str ''close'', str ''X-Internal'']"
    "get_all function_headers two_connection_lines (str ''x-internal'') = [str ''1'']"
    by (simp_all add: function_headers_def two_connection_lines_def)
  with remove_connection_returns [OF function_headers_ok, of plain_lib two_connection_lines] tokens
  show ?thesis
    by (auto simp: remove_hop_by_hop_request_headers_def HOP_BY_HOP_def function_headers_def)
qed

text \<open>
  A local address that the settings allow explicitly passes the policy, and the connector rejects it all the same.
\<close>

definition local_view :: "ustr proxy_view" where
  "local_view = demo_view\<lparr>view_state := (view_state demo_view)\<lparr>config := example_settings\<lparr>domains := Some
     [\<lparr>entry_pattern = str ''127.0.0.1'', entry_permission = PermAllow\<rparr>]\<rparr>, allow_set := [str ''127.0.0.1''], deny_set := []\<rparr>\<rparr>"

lemma explicit_local_target_rejected:
  "host_blocked example_globs public_dns (str ''127.0.0.1'') 80 (view_state local_view) = HostAllowed
    \<and> connect_addr PolicyState (Some local_view) (V4 (ipv4_of 127 0 0 1)) = Err TargetRejected"
  by code_simp

end
