(* ===== verification/Bwrap_Mounts.thy ===== *)
theory Bwrap_Mounts
  imports Policy_Transforms
begin

text \<open>
  The Linux sandbox: the arguments for bubblewrap that realise a file system policy
  (\<open>codex-rs/linux-sandbox/src/bwrap.rs\<close>). The mounts are made in the order of the arguments and a later one hides
  what an earlier one shows, so the order carries the policy. An operation of bubblewrap is a value of
  \<open>bwrap_op\<close> and is rendered to arguments at the end. The file system, ripgrep, the glob library and
  the descriptor of \<open>/dev/null\<close> are arguments. The results say what the last mount over a path is: where it is a writable one the
  policy lets the path be written, and what the policy denies stays masked.
\<close>

section \<open>The host\<close>

datatype file_kind = KindFile | KindDir | KindSymlink | KindOther

text \<open>A directory as \<open>fs::read_dir\<close> lists it, with what is below; \<open>None\<close> where it cannot be read.\<close>

datatype tree_entry = TreeEntry ustr file_kind "tree_entry list option"

datatype rg_result =
    RgMissing
  | RgError \<comment> \<open>the program could not be run\<close>
  | RgExit "int option" ustr ustr \<comment> \<open>status, standard error, standard output\<close>

record bwrap_env =
  host :: host_env
  file_len :: "ustr \<Rightarrow> nat"
  dir_is_empty :: "ustr \<Rightarrow> bool" \<comment> \<open>readable and without entries\<close>
  lstat_not_found :: "ustr \<Rightarrow> bool"
  dev_ino :: "ustr \<Rightarrow> nat \<times> nat"
  null_fd :: "ustr option" \<comment> \<open>\<open>/dev/null\<close> opened\<close>
  run_ripgrep :: "ustr list \<Rightarrow> rg_result"
  read_dir :: "ustr \<Rightarrow> tree_entry list option"
  scan_glob_error :: "ustr \<Rightarrow> ustr option" \<comment> \<open>why a pattern does not compile\<close>
  scan_glob_set_error :: "ustr list \<Rightarrow> ustr option"
  scan_glob_match :: "ustr list \<Rightarrow> ustr \<Rightarrow> bool"

definition lstat_is :: "bwrap_env \<Rightarrow> (host_env \<Rightarrow> ustr \<Rightarrow> bool) \<Rightarrow> ustr \<Rightarrow> bool" where
  "lstat_is env f p \<longleftrightarrow> symlink_metadata (host env) p = Some False \<and> f (host env) p"

section \<open>Arguments\<close>

datatype bwrap_network_mode = FullAccess | Isolated | ProxyOnly

definition should_unshare_network :: "bwrap_network_mode \<Rightarrow> bool" where
  "should_unshare_network m \<longleftrightarrow> m \<noteq> FullAccess"

record bwrap_options =
  mount_proc :: bool
  network_mode :: bwrap_network_mode
  bwrap_glob_scan_max_depth :: "nat option"

definition default_options :: bwrap_options where
  "default_options = \<lparr>mount_proc = True, network_mode = FullAccess, bwrap_glob_scan_max_depth = None\<rparr>"

datatype bwrap_op =
    OpRoBind ustr
  | OpBind ustr
  | OpDev ustr
  | OpTmpfs ustr
  | OpDir ustr
  | OpPerms string
  | OpRemountRo ustr
  | OpRoBindData ustr ustr \<comment> \<open>descriptor, path\<close>

fun op_args :: "bwrap_op \<Rightarrow> ustr list" where
  "op_args (OpRoBind p) = [str ''--ro-bind'', p, p]"
| "op_args (OpBind p) = [str ''--bind'', p, p]"
| "op_args (OpDev p) = [str ''--dev'', p]"
| "op_args (OpTmpfs p) = [str ''--tmpfs'', p]"
| "op_args (OpDir p) = [str ''--dir'', p]"
| "op_args (OpPerms m) = [str ''--perms'', str m]"
| "op_args (OpRemountRo p) = [str ''--remount-ro'', p]"
| "op_args (OpRoBindData fd p) = [str ''--ro-bind-data'', fd, p]"

datatype synthetic_kind = EmptyFile | EmptyDirectory

record synthetic_mount_target =
  synthetic_path :: ustr
  synthetic_kind :: synthetic_kind
  pre_existing_path :: "(nat \<times> nat) option"

record bwrap_args =
  bwrap_ops :: "bwrap_op list"
  preserved_files :: "ustr list"
  synthetic_mount_targets :: "synthetic_mount_target list"
  protected_create_targets :: "ustr list"

datatype bwrap_error = BwrapFatal ustr | BwrapIo

definition push_ops :: "bwrap_op list \<Rightarrow> bwrap_args \<Rightarrow> bwrap_args" where
  "push_ops new b = b\<lparr>bwrap_ops := bwrap_ops b @ new\<rparr>"

definition push_synthetic :: "ustr \<Rightarrow> synthetic_kind \<Rightarrow> (nat \<times> nat) option \<Rightarrow> bwrap_args \<Rightarrow> bwrap_args" where
  "push_synthetic p k pre b =
     b\<lparr>synthetic_mount_targets := synthetic_mount_targets b
         @ [\<lparr>synthetic_path = p, synthetic_kind = k, pre_existing_path = pre\<rparr>]\<rparr>"

text \<open>Whether a stand-in that was mounted over a path is removed afterwards: never what was there before.\<close>

definition should_remove_after_bwrap :: "bwrap_env \<Rightarrow> synthetic_mount_target \<Rightarrow> bool" where
  "should_remove_after_bwrap env t =
     (let p = synthetic_path t in
      if (case synthetic_kind t of
            EmptyFile \<Rightarrow> \<not> lstat_is env is_regular_file p \<or> file_len env p \<noteq> 0
          | EmptyDirectory \<Rightarrow> \<not> lstat_is env is_dir p)
      then False
      else (case pre_existing_path t of Some i \<Rightarrow> i \<noteq> dev_ino env p | None \<Rightarrow> True))"

section \<open>Walking a path\<close>

definition path_depth :: "ustr \<Rightarrow> nat" where
  "path_depth p = length (components p)"

definition path_pop :: "ustr \<Rightarrow> ustr" where
  "path_pop p = (case path_parent p of Some q \<Rightarrow> q | None \<Rightarrow> p)"

datatype 'r walk = Continue | Finish "'r option"

text \<open>The loop three functions share: the path grows by its components and each prefix is looked at.\<close>

fun walk_components :: "(ustr \<Rightarrow> 'r walk) \<Rightarrow> ustr \<Rightarrow> component list \<Rightarrow> 'r option" where
  "walk_components look current [] = None"
| "walk_components look current (RootDir # cs) = walk_components look [slash] cs"
| "walk_components look current (CurDir # cs) = walk_components look current cs"
| "walk_components look current (ParentDir # cs) = walk_components look (path_pop current) cs"
| "walk_components look current (Normal part # cs) =
     (let current = path_join current part in
      case look current of Finish r \<Rightarrow> r | Continue \<Rightarrow> walk_components look current cs)"

definition canonical_target_if_symlinked_path :: "bwrap_env \<Rightarrow> ustr \<Rightarrow> ustr option" where
  "canonical_target_if_symlinked_path env path =
     walk_components (\<lambda>current.
       case symlink_metadata (host env) current of
         None \<Rightarrow> Finish None
       | Some True \<Rightarrow>
           Finish (case canonicalize (host env) path of
                     Some target \<Rightarrow> if path_eq target path then None else Some target
                   | None \<Rightarrow> None)
       | Some False \<Rightarrow> Continue) [] (components path)"

definition is_within_allowed_write_paths :: "ustr \<Rightarrow> ustr list \<Rightarrow> bool" where
  "is_within_allowed_write_paths path allowed = list_ex (path_starts_with path) allowed"

definition first_writable_symlink_component_in_path :: "bwrap_env \<Rightarrow> ustr \<Rightarrow> ustr list \<Rightarrow> ustr option" where
  "first_writable_symlink_component_in_path env target_path allowed =
     walk_components (\<lambda>current.
       case symlink_metadata (host env) current of
         None \<Rightarrow> Finish None
       | Some is_symlink \<Rightarrow>
           if is_symlink \<and> is_within_allowed_write_paths current allowed then Finish (Some current) else Continue)
       [] (components target_path)"

definition find_first_non_existent_component :: "bwrap_env \<Rightarrow> ustr \<Rightarrow> ustr option" where
  "find_first_non_existent_component env target_path =
     walk_components (\<lambda>current. if path_exists (host env) current then Continue else Finish (Some current))
       [] (components target_path)"

definition remap_paths_for_symlink_target :: "ustr list \<Rightarrow> ustr \<Rightarrow> ustr \<Rightarrow> ustr list" where
  "remap_paths_for_symlink_target paths root target =
     map (\<lambda>p. case path_strip_prefix p root of
        Some relative \<Rightarrow> path_join target (join_with [slash] (map os_str relative))
      | None \<Rightarrow> p) paths"

definition normalize_command_cwd_for_bwrap :: "bwrap_env \<Rightarrow> ustr \<Rightarrow> ustr" where
  "normalize_command_cwd_for_bwrap env command_cwd =
     (case canonicalize (host env) command_cwd of Some p \<Rightarrow> p | None \<Rightarrow> command_cwd)"

section \<open>Masks\<close>

definition append_mount_target_parent_dir_args :: "bwrap_env \<Rightarrow> ustr \<Rightarrow> ustr \<Rightarrow> bwrap_args \<Rightarrow> bwrap_args" where
  "append_mount_target_parent_dir_args env mount_target anchor b =
     (case (if is_dir (host env) mount_target then Some mount_target else path_parent mount_target) of
        None \<Rightarrow> b
      | Some dir \<Rightarrow> push_ops (map OpDir (rev (takeWhile (\<lambda>a. \<not> path_eq a anchor) (ancestors dir)))) b)"

definition append_empty_file_bind_data_args :: "bwrap_env \<Rightarrow> ustr \<Rightarrow> bwrap_args \<Rightarrow> (bwrap_args, bwrap_error) outcome" where
  "append_empty_file_bind_data_args env path b =
     (case preserved_files b of
        fd # _ \<Rightarrow> Ok (push_ops [OpRoBindData fd path] b)
      | [] \<Rightarrow>
          (case null_fd env of
             None \<Rightarrow> Err BwrapIo
           | Some fd \<Rightarrow> Ok (push_ops [OpRoBindData fd path] (b\<lparr>preserved_files := [fd]\<rparr>))))"

definition append_empty_directory_args :: "ustr \<Rightarrow> bwrap_args \<Rightarrow> bwrap_args" where
  "append_empty_directory_args path = push_ops [OpPerms ''555'', OpTmpfs path, OpRemountRo path]"

definition append_missing_empty_file_bind_data_args :: "bwrap_env \<Rightarrow> ustr \<Rightarrow> bwrap_args \<Rightarrow> (bwrap_args, bwrap_error) outcome" where
  "append_missing_empty_file_bind_data_args env path b =
     obind (append_empty_file_bind_data_args env path b) (\<lambda>b. Ok (push_synthetic path EmptyFile None b))"

definition append_missing_read_only_subpath_args :: "bwrap_env \<Rightarrow> ustr \<Rightarrow> bwrap_args \<Rightarrow> (bwrap_args, bwrap_error) outcome" where
  "append_missing_read_only_subpath_args env path b =
     (if (case file_name path of Some n \<Rightarrow> is_protected_metadata_name n | None \<Rightarrow> False)
      then Ok (push_synthetic path EmptyDirectory None (append_empty_directory_args path b))
      else append_missing_empty_file_bind_data_args env path b)"

datatype empty_protected_metadata_path = EmptyMetadataFile | EmptyMetadataDirectory

definition transient_empty_metadata_path :: "bwrap_env \<Rightarrow> ustr \<Rightarrow> empty_protected_metadata_path option" where
  "transient_empty_metadata_path env path =
     (if \<not> (case file_name path of Some n \<Rightarrow> is_protected_metadata_name n | None \<Rightarrow> False) then None
      else if lstat_is env is_regular_file path \<and> file_len env path = 0 then Some EmptyMetadataFile
      else if lstat_is env is_dir path \<and> dir_is_empty env path then Some EmptyMetadataDirectory
      else None)"

definition append_read_only_subpath_args ::
  "bwrap_env \<Rightarrow> ustr list \<Rightarrow> ustr \<Rightarrow> bwrap_args \<Rightarrow> (bwrap_args, bwrap_error) outcome" where
  "append_read_only_subpath_args env allowed subpath b =
     (case first_writable_symlink_component_in_path env subpath allowed of
        Some symlink \<Rightarrow> Err (BwrapFatal (str ''cannot enforce sandbox read-only path '' @ subpath
          @ str '' because it crosses writable symlink '' @ symlink))
      | None \<Rightarrow>
          (case (transient_empty_metadata_path env subpath, is_within_allowed_write_paths subpath allowed) of
             (Some EmptyMetadataFile, True) \<Rightarrow>
               obind (append_empty_file_bind_data_args env subpath b)
                 (\<lambda>b. Ok (push_synthetic subpath EmptyFile (Some (dev_ino env subpath)) b))
           | (Some EmptyMetadataDirectory, True) \<Rightarrow>
               Ok (push_synthetic subpath EmptyDirectory (Some (dev_ino env subpath)) (append_empty_directory_args subpath b))
           | _ \<Rightarrow>
               if \<not> path_exists (host env) subpath
               then (case find_first_non_existent_component env subpath of
                       Some missing \<Rightarrow>
                         if is_within_allowed_write_paths missing allowed
                         then append_missing_read_only_subpath_args env missing b else Ok b
                     | None \<Rightarrow> Ok b)
               else if is_within_allowed_write_paths subpath allowed then Ok (push_ops [OpRoBind subpath] b)
               else Ok b))"

definition append_existing_unreadable_path_args ::
  "bwrap_env \<Rightarrow> ustr list \<Rightarrow> ustr \<Rightarrow> bwrap_args \<Rightarrow> (bwrap_args, bwrap_error) outcome" where
  "append_existing_unreadable_path_args env allowed unreadable_root b =
     (if is_dir (host env) unreadable_root
      then let descendants = filter (\<lambda>p. \<not> path_eq p unreadable_root \<and> path_starts_with p unreadable_root) allowed in
        Ok (push_ops [OpRemountRo unreadable_root]
             (fold (\<lambda>d. append_mount_target_parent_dir_args env d unreadable_root) (sort_key path_depth descendants)
               (push_ops [OpPerms (if descendants = [] then ''000'' else ''111''), OpTmpfs unreadable_root] b)))
      else append_empty_file_bind_data_args env unreadable_root (push_ops [OpPerms ''000''] b))"

definition append_unreadable_root_args ::
  "bwrap_env \<Rightarrow> ustr list \<Rightarrow> ustr \<Rightarrow> bwrap_args \<Rightarrow> (bwrap_args, bwrap_error) outcome" where
  "append_unreadable_root_args env allowed unreadable_root b =
     (case first_writable_symlink_component_in_path env unreadable_root allowed of
        Some symlink \<Rightarrow> Err (BwrapFatal (str ''cannot enforce sandbox deny-read path '' @ unreadable_root
          @ str '' because it crosses writable symlink '' @ symlink))
      | None \<Rightarrow>
          if \<not> path_exists (host env) unreadable_root
          then (case find_first_non_existent_component env unreadable_root of
                  Some missing \<Rightarrow>
                    if is_within_allowed_write_paths missing allowed
                    then append_missing_empty_file_bind_data_args env missing b else Ok b
                | None \<Rightarrow> Ok b)
          else append_existing_unreadable_path_args env allowed unreadable_root b)"

fun append_each :: "(ustr \<Rightarrow> bwrap_args \<Rightarrow> (bwrap_args, 'e) outcome) \<Rightarrow> ustr list \<Rightarrow> bwrap_args \<Rightarrow> (bwrap_args, 'e) outcome" where
  "append_each f [] b = Ok b"
| "append_each f (p # ps) b = obind (f p b) (append_each f ps)"

section \<open>Matches of unreadable globs\<close>

definition MAX_UNREADABLE_GLOB_MATCHES :: nat where "MAX_UNREADABLE_GLOB_MATCHES = 8192"

definition from_absolute_path_checked :: "host_env \<Rightarrow> ustr \<Rightarrow> (ustr, bwrap_error) outcome" where
  "from_absolute_path_checked env p =
     (let expanded = maybe_expand_home_directory (home_dir (path_vars env)) p in
      if \<not> is_absolute expanded then Err BwrapIo else Ok (absolutize_from expanded [slash]))"

text \<open>An ordered set of paths, and an ordered map from them; paths are ordered by their names.\<close>

definition path_key :: "ustr \<Rightarrow> ustr list" where
  "path_key p = normal_names (components p)"

definition path_set_insert :: "ustr \<Rightarrow> ustr list \<Rightarrow> ustr list" where
  "path_set_insert p ps = (if list_ex (path_eq p) ps then ps else insort_key path_key p ps)"

definition path_map_push :: "ustr \<Rightarrow> ustr \<Rightarrow> (ustr \<times> ustr list) list \<Rightarrow> (ustr \<times> ustr list) list" where
  "path_map_push k v m =
     (if list_ex (\<lambda>(j, _). path_eq k j) m
      then map (\<lambda>(j, vs). if path_eq k j then (j, vs @ [v]) else (j, vs)) m
      else insort_key (\<lambda>(j, _). path_key j) (k, [v]) m)"

function escape_unclosed_glob_classes :: "ustr \<Rightarrow> ustr" where
  "escape_unclosed_glob_classes [] = []"
| "escape_unclosed_glob_classes (ch # chars) =
     (if ch \<noteq> chr CHR ''['' then ch # escape_unclosed_glob_classes chars
      else (case position (\<lambda>c. c = chr CHR '']'') chars of
              Some i \<Rightarrow> chr CHR ''['' # take i chars @ chr CHR '']'' # escape_unclosed_glob_classes (drop (Suc i) chars)
            | None \<Rightarrow> chr (CHR 0x5C) # chr CHR ''['' # chars))"
  by pat_completeness auto

termination
  by (relation "measure length") auto

definition rfind_slash :: "ustr \<Rightarrow> nat option" where
  "rfind_slash s = map_option (\<lambda>k. length s - Suc k) (position (\<lambda>c. c = slash) (rev s))"

definition split_pattern_for_ripgrep :: "host_env \<Rightarrow> ustr \<Rightarrow> ustr \<Rightarrow> (ustr \<times> ustr) option" where
  "split_pattern_for_ripgrep env pat cwd =
     (let pat = resolve_path_against_base (home_dir (path_vars env)) pat cwd in
      Option.bind (position is_glob_char pat) (\<lambda>first_glob_index.
        let static_prefix = take first_glob_index pat in
        if static_prefix = [] \<or> static_prefix = [slash] then None
        else let search_root_end =
               (if last static_prefix = slash then length static_prefix - 1
                else (case rfind_slash static_prefix of Some i \<Rightarrow> i | None \<Rightarrow> 0));
             search_root = (if search_root_end = 0 then [slash] else take search_root_end pat)
        in case from_absolute_path_checked env search_root of
             Ok search_root \<Rightarrow>
               let glob = escape_unclosed_glob_classes (drop (search_root_end + 1) pat) in
               if glob \<noteq> [] then Some (search_root, glob) else None
           | _ \<Rightarrow> None))"

fun collect_glob_files ::
    "bwrap_env \<Rightarrow> ustr \<Rightarrow> ustr list \<Rightarrow> ustr list \<Rightarrow> nat option \<Rightarrow> tree_entry list \<Rightarrow> (ustr list, bwrap_error) outcome"
  and collect_entry ::
    "bwrap_env \<Rightarrow> ustr \<Rightarrow> ustr list \<Rightarrow> ustr list \<Rightarrow> nat option \<Rightarrow> tree_entry \<Rightarrow> (ustr list, bwrap_error) outcome" where
  "collect_entry env search_root globs dir remaining_depth (TreeEntry name kind children) =
     (let relative = join_with [slash] (dir @ [name]) in
      obind (if (kind = KindFile \<or> kind = KindSymlink) \<and> scan_glob_match env globs relative
             then obind (from_absolute_path_checked (host env) (path_join search_root relative)) (\<lambda>p. Ok [p])
             else Ok []) (\<lambda>paths.
        if kind \<noteq> KindDir \<or> remaining_depth \<in> {Some 0, Some 1} then Ok paths
        else (case children of
                None \<Rightarrow> Err BwrapIo
              | Some es \<Rightarrow>
                  obind (collect_glob_files env search_root globs (dir @ [name]) (map_option (\<lambda>d. d - 1) remaining_depth) es)
                    (\<lambda>below. Ok (paths @ below)))))"
| "collect_glob_files env search_root globs dir remaining_depth [] = Ok []"
| "collect_glob_files env search_root globs dir remaining_depth (e # es) =
     obind (collect_entry env search_root globs dir remaining_depth e) (\<lambda>paths.
     obind (collect_glob_files env search_root globs dir remaining_depth es) (\<lambda>rest. Ok (paths @ rest)))"

definition glob_files :: "bwrap_env \<Rightarrow> ustr \<Rightarrow> ustr list \<Rightarrow> nat option \<Rightarrow> (ustr list, bwrap_error) outcome" where
  "glob_files env search_root globs max_depth =
     (case List.map_filter (scan_glob_error env) globs of
        err # _ \<Rightarrow> Err (BwrapFatal (str ''unreadable glob pattern is invalid for '' @ search_root @ str '': '' @ err))
      | [] \<Rightarrow>
          (case scan_glob_set_error env globs of
             Some err \<Rightarrow> Err (BwrapFatal (str ''unreadable glob matcher failed for '' @ search_root @ str '': '' @ err))
           | None \<Rightarrow>
               (case read_dir env search_root of
                  None \<Rightarrow> Err BwrapIo
                | Some es \<Rightarrow> collect_glob_files env search_root globs [] max_depth es)))"

definition ripgrep_args :: "ustr \<Rightarrow> ustr list \<Rightarrow> nat option \<Rightarrow> ustr list" where
  "ripgrep_args search_root globs max_depth =
     [str ''--files'', str ''--hidden'', str ''--no-ignore'', str ''--null'']
     @ (case max_depth of Some d \<Rightarrow> [str ''--max-depth'', show_nat d] | None \<Rightarrow> [])
     @ concat (map (\<lambda>glob. [str ''--glob'', glob]) globs) @ [str ''--'', search_root]"

definition ripgrep_files :: "bwrap_env \<Rightarrow> ustr \<Rightarrow> ustr list \<Rightarrow> nat option \<Rightarrow> (ustr list, bwrap_error) outcome" where
  "ripgrep_files env search_root globs max_depth =
     (case run_ripgrep env (ripgrep_args search_root globs max_depth) of
        RgMissing \<Rightarrow> glob_files env search_root globs max_depth
      | RgError \<Rightarrow> Err BwrapIo
      | RgExit code err out \<Rightarrow>
          if code = Some 0
          then omap (\<lambda>p. from_absolute_path_checked (host env) (if is_absolute p then p else path_join search_root p))
                 (filter (\<lambda>p. p \<noteq> []) (split_on 0 out))
          else if code = Some 1 \<and> err = [] then Ok []
          else Err (BwrapFatal (str ''ripgrep unreadable glob scan failed for '' @ search_root @ str '': '' @ err)))"

fun record_matches :: "bwrap_env \<Rightarrow> ustr \<Rightarrow> ustr list \<Rightarrow> ustr list \<Rightarrow> (ustr list, bwrap_error) outcome" where
  "record_matches env search_root [] expanded = Ok expanded"
| "record_matches env search_root (p # ps) expanded =
     obind (case canonical_target_if_symlinked_path env p of
              Some target \<Rightarrow>
                obind (from_absolute_path_checked (host env) target) (\<lambda>t. Ok (path_set_insert t expanded))
            | None \<Rightarrow> Ok expanded) (\<lambda>expanded.
       let expanded = path_set_insert p expanded in
       if MAX_UNREADABLE_GLOB_MATCHES < length expanded
       then Err (BwrapFatal (str ''unreadable glob expansion for '' @ search_root @ str '' matched more than ''
              @ show_nat MAX_UNREADABLE_GLOB_MATCHES @ str '' paths''))
       else record_matches env search_root ps expanded)"

fun expand_groups :: "bwrap_env \<Rightarrow> nat option \<Rightarrow> (ustr \<times> ustr list) list \<Rightarrow> ustr list \<Rightarrow> (ustr list, bwrap_error) outcome" where
  "expand_groups env max_depth [] expanded = Ok expanded"
| "expand_groups env max_depth ((search_root, globs) # groups) expanded =
     obind (ripgrep_files env search_root globs max_depth) (\<lambda>paths.
     obind (record_matches env search_root paths expanded) (expand_groups env max_depth groups))"

definition patterns_by_search_root :: "host_env \<Rightarrow> ustr list \<Rightarrow> ustr \<Rightarrow> (ustr \<times> ustr list) list" where
  "patterns_by_search_root env patterns cwd =
     foldl (\<lambda>m pat. case split_pattern_for_ripgrep env pat cwd of
         Some (search_root, glob) \<Rightarrow> if is_dir env search_root then path_map_push search_root glob m else m
       | None \<Rightarrow> m) [] patterns"

definition expand_unreadable_globs_with_ripgrep ::
  "bwrap_env \<Rightarrow> ustr list \<Rightarrow> ustr \<Rightarrow> nat option \<Rightarrow> (ustr list, bwrap_error) outcome" where
  "expand_unreadable_globs_with_ripgrep env patterns cwd max_depth =
     (if patterns = [] \<or> max_depth = Some 0 then Ok []
      else expand_groups env max_depth (patterns_by_search_root (host env) patterns cwd) [])"

section \<open>The mounts of a policy\<close>

definition LINUX_PLATFORM_DEFAULT_READ_ROOTS :: "ustr list" where
  "LINUX_PLATFORM_DEFAULT_READ_ROOTS =
     [str ''/bin'', str ''/sbin'', str ''/usr'', str ''/etc'', str ''/lib'', str ''/lib64'', str ''/nix/store'',
      str ''/run/current-system/sw'']"

definition ancestor_has_git_metadata :: "bwrap_env \<Rightarrow> ustr \<Rightarrow> bool" where
  "ancestor_has_git_metadata env ancestor =
     (let git_path = path_join ancestor (str ''.git'') in
      if lstat_is env is_dir git_path then symlink_metadata (host env) (path_join git_path (str ''HEAD'')) \<noteq> None
      else if lstat_is env is_regular_file git_path
      then (case read_to_string (host env) git_path of
              Some contents \<Rightarrow> starts_with (str ''gitdir:'') (trim_start contents)
            | None \<Rightarrow> False)
      else False)"

definition should_leave_missing_git_for_parent_repo_discovery :: "bwrap_env \<Rightarrow> ustr \<Rightarrow> ustr \<Rightarrow> bool" where
  "should_leave_missing_git_for_parent_repo_discovery env mount_root name \<longleftrightarrow>
     name = str ''.git'' \<and> lstat_not_found env (path_join mount_root name)
     \<and> list_ex (ancestor_has_git_metadata env) (tl (ancestors mount_root))"

definition append_metadata_path_masks_for_writable_root ::
  "bwrap_env \<Rightarrow> ustr \<Rightarrow> ustr \<Rightarrow> ustr list \<Rightarrow> ustr list \<Rightarrow> ustr list" where
  "append_metadata_path_masks_for_writable_root env root mount_root names subpaths =
     foldl (\<lambda>subpaths name.
       if should_leave_missing_git_for_parent_repo_discovery env mount_root name then subpaths
       else push_unique subpaths (path_join root name)) subpaths names"

definition append_protected_create_targets_for_writable_root ::
  "bwrap_env \<Rightarrow> ustr list \<Rightarrow> ustr \<Rightarrow> ustr option \<Rightarrow> ustr list \<Rightarrow> bwrap_args \<Rightarrow> bwrap_args" where
  "append_protected_create_targets_for_writable_root env names root symlink_target subpaths b =
     (let targets = map (\<lambda>name. case symlink_target of
            Some target \<Rightarrow> hd (remap_paths_for_symlink_target [path_join root name] root target)
          | None \<Rightarrow> path_join root name) names
      in b\<lparr>protected_create_targets := protected_create_targets b
            @ filter (\<lambda>p. \<not> list_ex (\<lambda>s. path_eq s p) subpaths \<and> \<not> path_exists (host env) p) targets\<rparr>)"

text \<open>The last element with the greatest key (\<open>max_by_key\<close>), and \<open>Vec::dedup\<close> on paths.\<close>

definition max_by_depth :: "ustr list \<Rightarrow> ustr option" where
  "max_by_depth ps = foldl (\<lambda>m p. case m of
       Some q \<Rightarrow> if path_depth q \<le> path_depth p then Some p else m
     | None \<Rightarrow> Some p) None ps"

fun dedup_adjacent :: "ustr list \<Rightarrow> ustr list" where
  "dedup_adjacent (p # q # ps) = (if path_eq p q then dedup_adjacent (p # ps) else p # dedup_adjacent (q # ps))"
| "dedup_adjacent ps = ps"

definition missing_auto_subpath :: "host_env \<Rightarrow> ustr \<Rightarrow> sandbox_entry \<Rightarrow> ustr option" where
  "missing_auto_subpath env cwd e =
     (case entry_path e of
        Special (ProjectRoots (Some subpath)) \<Rightarrow>
          if list_ex (\<lambda>n. path_eq subpath (str n)) [''.git'', ''.agents'', ''.codex'']
          then let resolved = resolve_path_against_base (home_dir (path_vars env)) subpath cwd in
            if path_exists env resolved then None else Some resolved
          else None
      | _ \<Rightarrow> None)"

definition missing_auto_metadata_read_only_project_root_subpaths :: "host_env \<Rightarrow> sandbox_policy \<Rightarrow> ustr \<Rightarrow> ustr list" where
  "missing_auto_metadata_read_only_project_root_subpaths env policy cwd =
     List.map_filter (missing_auto_subpath env cwd) (filter (\<lambda>e. access e = Read) (sandbox_entries policy))"

definition existing_writable_roots :: "bwrap_env \<Rightarrow> sandbox_policy \<Rightarrow> ustr \<Rightarrow> writable_root list" where
  "existing_writable_roots env policy cwd =
     (let roots = filter (\<lambda>w. path_exists (host env) (wr_root w)) (get_writable_roots_with_cwd (host env) policy cwd) in
      if roots = [] \<and> has_full_disk_write_access policy \<and> get_unreadable_globs_with_cwd (host env) policy cwd \<noteq> []
      then [\<lparr>wr_root = [slash], read_only_subpaths = [], protected_metadata_names = []\<rparr>]
      else roots)"

definition all_unreadable_roots :: "bwrap_env \<Rightarrow> sandbox_policy \<Rightarrow> ustr \<Rightarrow> nat option \<Rightarrow> (ustr list, bwrap_error) outcome" where
  "all_unreadable_roots env policy cwd max_depth =
     obind (expand_unreadable_globs_with_ripgrep env (get_unreadable_globs_with_cwd (host env) policy cwd) cwd max_depth)
       (\<lambda>expanded. Ok (dedup_adjacent (sort_key path_key (get_unreadable_roots_with_cwd (host env) policy cwd @ expanded))))"

definition readable_roots_of :: "bwrap_env \<Rightarrow> sandbox_policy \<Rightarrow> ustr \<Rightarrow> ustr list" where
  "readable_roots_of env policy cwd =
     fold path_set_insert
       (get_readable_roots_with_cwd (host env) policy cwd
        @ (if include_platform_defaults policy
           then filter (path_exists (host env)) LINUX_PLATFORM_DEFAULT_READ_ROOTS else [])) []"

definition base_ops :: "bwrap_env \<Rightarrow> sandbox_policy \<Rightarrow> ustr \<Rightarrow> writable_root list \<Rightarrow> bwrap_op list" where
  "base_ops env policy cwd writable_roots =
     (if has_full_disk_read_access policy then [OpRoBind [slash], OpDev (str ''/dev'')]
      else let readable_roots = readable_roots_of env policy cwd in
        if list_ex (\<lambda>r. path_eq r [slash]) readable_roots then [OpRoBind [slash], OpDev (str ''/dev'')]
        else [OpTmpfs [slash], OpDev (str ''/dev'')]
          @ map (\<lambda>root. OpRoBind
              (if list_ex (\<lambda>w. path_starts_with root (wr_root w)) writable_roots
               then (case canonical_target_if_symlinked_path env root of Some t \<Rightarrow> t | None \<Rightarrow> root) else root))
              (filter (path_exists (host env)) readable_roots))"

definition allowed_write_paths_of :: "bwrap_env \<Rightarrow> writable_root list \<Rightarrow> ustr list" where
  "allowed_write_paths_of env writable_roots =
     concat (map (\<lambda>w. wr_root w # (case canonical_target_if_symlinked_path env (wr_root w) of
        Some target \<Rightarrow> [target] | None \<Rightarrow> [])) writable_roots)"

definition root_read_only_subpaths ::
  "bwrap_env \<Rightarrow> ustr list \<Rightarrow> ustr list \<Rightarrow> writable_root \<Rightarrow> ustr list" where
  "root_read_only_subpaths env missing_auto unreadable_roots w =
     (let symlink_target = canonical_target_if_symlinked_path env (wr_root w);
          mount_root = (case symlink_target of Some t \<Rightarrow> t | None \<Rightarrow> wr_root w);
          subpaths = append_metadata_path_masks_for_writable_root env (wr_root w) mount_root (protected_metadata_names w)
            (filter (\<lambda>p. \<not> list_ex (path_eq p) missing_auto)
              (filter (\<lambda>p. \<not> list_ex (path_eq p) unreadable_roots) (read_only_subpaths w)))
      in case symlink_target of
           Some target \<Rightarrow> remap_paths_for_symlink_target subpaths (wr_root w) target
         | None \<Rightarrow> subpaths)"

definition nested_unreadable_roots :: "bwrap_env \<Rightarrow> ustr list \<Rightarrow> writable_root \<Rightarrow> ustr list" where
  "nested_unreadable_roots env unreadable_roots w =
     (let nested = filter (\<lambda>p. path_starts_with p (wr_root w)) unreadable_roots in
      case canonical_target_if_symlinked_path env (wr_root w) of
        Some target \<Rightarrow> remap_paths_for_symlink_target nested (wr_root w) target
      | None \<Rightarrow> nested)"

definition append_writable_root ::
  "bwrap_env \<Rightarrow> ustr list \<Rightarrow> ustr list \<Rightarrow> ustr list \<Rightarrow> writable_root \<Rightarrow> bwrap_args \<Rightarrow> (bwrap_args, bwrap_error) outcome" where
  "append_writable_root env missing_auto unreadable_roots allowed w b =
     (let root = wr_root w;
          symlink_target = canonical_target_if_symlinked_path env root;
          b = (case max_by_depth (filter (path_starts_with root) unreadable_roots) of
                 Some masking_root \<Rightarrow> append_mount_target_parent_dir_args env root masking_root b
               | None \<Rightarrow> b);
          mount_root = (case symlink_target of Some t \<Rightarrow> t | None \<Rightarrow> root);
          subpaths = root_read_only_subpaths env missing_auto unreadable_roots w;
          b = append_protected_create_targets_for_writable_root env (protected_metadata_names w) root symlink_target
                subpaths (push_ops [OpBind mount_root] b)
      in obind (append_each (append_read_only_subpath_args env allowed) (sort_key path_depth subpaths) b)
           (append_each (append_unreadable_root_args env allowed)
             (sort_key path_depth (nested_unreadable_roots env unreadable_roots w))))"

fun append_writable_roots ::
  "bwrap_env \<Rightarrow> ustr list \<Rightarrow> ustr list \<Rightarrow> ustr list \<Rightarrow> writable_root list \<Rightarrow> bwrap_args \<Rightarrow> (bwrap_args, bwrap_error) outcome" where
  "append_writable_roots env missing_auto unreadable_roots allowed [] b = Ok b"
| "append_writable_roots env missing_auto unreadable_roots allowed (w # ws) b =
     obind (append_writable_root env missing_auto unreadable_roots allowed w b)
       (append_writable_roots env missing_auto unreadable_roots allowed ws)"

definition create_filesystem_args ::
  "bwrap_env \<Rightarrow> sandbox_policy \<Rightarrow> ustr \<Rightarrow> nat option \<Rightarrow> (bwrap_args, bwrap_error) outcome" where
  "create_filesystem_args env policy cwd max_depth =
     (let writable_roots = existing_writable_roots env policy cwd;
          missing_auto = missing_auto_metadata_read_only_project_root_subpaths (host env) policy cwd
      in obind (all_unreadable_roots env policy cwd max_depth) (\<lambda>unreadable_roots.
           let allowed = allowed_write_paths_of env writable_roots;
               ancestors_of_roots = filter (\<lambda>u. \<not> list_ex (path_starts_with u) allowed
                 \<and> list_ex (\<lambda>root. path_starts_with root u) allowed) unreadable_roots;
               rootless = filter (\<lambda>u. \<not> list_ex (\<lambda>root. path_starts_with u root \<or> path_starts_with root u) allowed)
                 unreadable_roots
           in obind (append_each (append_unreadable_root_args env allowed) (sort_key path_depth ancestors_of_roots)
                \<lparr>bwrap_ops = base_ops env policy cwd writable_roots, preserved_files = [],
                 synthetic_mount_targets = [], protected_create_targets = []\<rparr>) (\<lambda>b.
              obind (append_writable_roots env missing_auto unreadable_roots allowed
                (sort_key (\<lambda>w. path_depth (wr_root w)) writable_roots) b)
              (append_each (append_unreadable_root_args env allowed) (sort_key path_depth rootless)))))"

section \<open>The command\<close>

record bwrap_invocation =
  argv :: "ustr list"
  invocation_files :: "ustr list"
  invocation_synthetic :: "synthetic_mount_target list"
  invocation_protected :: "ustr list"

definition namespace_args :: "bwrap_options \<Rightarrow> ustr list" where
  "namespace_args options =
     [str ''--unshare-user'', str ''--unshare-pid'']
     @ (if should_unshare_network (network_mode options) then [str ''--unshare-net''] else [])
     @ (if mount_proc options then [str ''--proc'', str ''/proc''] else [])"

definition create_bwrap_flags_full_filesystem :: "ustr list \<Rightarrow> bwrap_options \<Rightarrow> bwrap_invocation" where
  "create_bwrap_flags_full_filesystem command options =
     \<lparr>argv = [str ''--new-session'', str ''--die-with-parent'', str ''--bind'', [slash], [slash]]
        @ namespace_args options @ [str ''--''] @ command,
      invocation_files = [], invocation_synthetic = [], invocation_protected = []\<rparr>"

definition create_bwrap_flags ::
  "bwrap_env \<Rightarrow> ustr list \<Rightarrow> sandbox_policy \<Rightarrow> ustr \<Rightarrow> ustr \<Rightarrow> bwrap_options \<Rightarrow> (bwrap_invocation, bwrap_error) outcome" where
  "create_bwrap_flags env command policy sandbox_policy_cwd command_cwd options =
     obind (create_filesystem_args env policy sandbox_policy_cwd
              (case bwrap_glob_scan_max_depth options of Some d \<Rightarrow> Some d | None \<Rightarrow> glob_scan_max_depth policy)) (\<lambda>b.
       let normalized_command_cwd = normalize_command_cwd_for_bwrap env command_cwd in
       Ok \<lparr>argv = [str ''--new-session'', str ''--die-with-parent''] @ concat (map op_args (bwrap_ops b))
             @ namespace_args options
             @ (if path_eq normalized_command_cwd command_cwd then [] else [str ''--chdir'', normalized_command_cwd])
             @ [str ''--''] @ command,
           invocation_files = preserved_files b, invocation_synthetic = synthetic_mount_targets b,
           invocation_protected = protected_create_targets b\<rparr>)"

definition create_bwrap_command_args ::
  "bwrap_env \<Rightarrow> ustr list \<Rightarrow> sandbox_policy \<Rightarrow> ustr \<Rightarrow> ustr \<Rightarrow> bwrap_options \<Rightarrow> (bwrap_invocation, bwrap_error) outcome" where
  "create_bwrap_command_args env command policy sandbox_policy_cwd command_cwd options =
     (if has_full_disk_write_access policy \<and> get_unreadable_globs_with_cwd (host env) policy sandbox_policy_cwd = []
      then if network_mode options = FullAccess
        then Ok \<lparr>argv = command, invocation_files = [], invocation_synthetic = [], invocation_protected = []\<rparr>
        else Ok (create_bwrap_flags_full_filesystem command options)
      else create_bwrap_flags env command policy sandbox_policy_cwd command_cwd options)"

end
