(* ===== verification/Bwrap_Safety.thy ===== *)
theory Bwrap_Safety
  imports Bwrap_Mounts
begin

text \<open>
  What the mounts of \<open>Bwrap_Mounts\<close> let a sandboxed command see and change. The last mount over a path decides:
  a path that ends below a writable bind is one the policy lets be written, and a path that shows content of the host
  is one the policy lets be read. The results are about paths that exist and hosts without symbolic links, where a
  path has one name.
\<close>

section \<open>The last mount over a path\<close>

fun op_target :: "bwrap_op \<Rightarrow> ustr option" where
  "op_target (OpRoBind p) = Some p"
| "op_target (OpBind p) = Some p"
| "op_target (OpDev p) = Some p"
| "op_target (OpTmpfs p) = Some p"
| "op_target (OpRoBindData fd p) = Some p"
| "op_target _ = None"

definition covers :: "ustr \<Rightarrow> bwrap_op \<Rightarrow> bool" where
  "covers p op \<longleftrightarrow> (case op_target op of Some t \<Rightarrow> path_starts_with p t | None \<Rightarrow> False)"

definition last_mount :: "bwrap_op list \<Rightarrow> ustr \<Rightarrow> bwrap_op option" where
  "last_mount ops p = find (covers p) (rev ops)"

fun shows_host :: "bwrap_op \<Rightarrow> bool" where
  "shows_host (OpRoBind p) = True"
| "shows_host (OpBind p) = True"
| "shows_host _ = False"

abbreviation is_mask :: "bwrap_op \<Rightarrow> bool" where
  "is_mask op \<equiv> \<not> shows_host op"

lemma covers_simps [simp]:
  "covers p (OpRoBind q) \<longleftrightarrow> path_starts_with p q"
  "covers p (OpBind q) \<longleftrightarrow> path_starts_with p q"
  by (simp_all add: covers_def)

lemma last_mount_split:
  "last_mount ops p = Some op \<Longrightarrow>
   \<exists>pre post. ops = pre @ op # post \<and> covers p op \<and> (\<forall>x \<in> set post. \<not> covers p x)"
proof (induction ops rule: rev_induct)
  case (snoc y xs)
  show ?case
  proof (cases "covers p y")
    case True
    with snoc.prems show ?thesis by (intro exI [of _ xs] exI [of _ "[]"]) (simp add: last_mount_def)
  next
    case False
    with snoc.prems have "last_mount xs p = Some op" by (simp add: last_mount_def)
    from snoc.IH [OF this] obtain pre post where
      "xs = pre @ op # post" "covers p op" "\<forall>x \<in> set post. \<not> covers p x" by blast
    with False show ?thesis by (intro exI [of _ pre] exI [of _ "post @ [y]"]) auto
  qed
qed (simp add: last_mount_def)

lemma not_covered: "op \<in> set ops \<Longrightarrow> op_target op = Some t \<Longrightarrow> \<forall>x \<in> set ops. \<not> covers p x \<Longrightarrow> \<not> path_starts_with p t"
  by (force simp: covers_def)

section \<open>What a step adds\<close>

definition adds :: "(bwrap_op \<Rightarrow> bool) \<Rightarrow> ustr set \<Rightarrow> bwrap_args \<Rightarrow> bwrap_args \<Rightarrow> bool" where
  "adds K T b b' \<longleftrightarrow>
     (\<exists>new. bwrap_ops b' = bwrap_ops b @ new \<and> list_all K new \<and> (\<forall>t \<in> T. \<exists>op \<in> set new. op_target op = Some t))"

lemma addsE:
  assumes "adds K T b b'"
  obtains new where "bwrap_ops b' = bwrap_ops b @ new" "list_all K new"
    "\<And>t. t \<in> T \<Longrightarrow> \<exists>op \<in> set new. op_target op = Some t"
  using assms by (auto simp: adds_def)

lemma adds_refl [simp, intro]: "adds K {} b b"
  by (simp add: adds_def)

lemma adds_trans: "adds K S b c \<Longrightarrow> adds K T c d \<Longrightarrow> adds K (S \<union> T) b d"
  unfolding adds_def by (elim exE conjE, rename_tac n m, rule_tac x = "n @ m" in exI) auto

lemma adds_mono: "adds K S b c \<Longrightarrow> T \<subseteq> S \<Longrightarrow> (\<And>op. K op \<Longrightarrow> L op) \<Longrightarrow> adds L T b c"
  unfolding adds_def by (metis (mono_tags, lifting) list.pred_mono_strong subsetD)

lemma adds_push: "list_all K new \<Longrightarrow> \<forall>t \<in> T. \<exists>op \<in> set new. op_target op = Some t \<Longrightarrow> adds K T b (push_ops new b)"
  by (auto simp: adds_def push_ops_def)

lemma adds_synthetic [simp]: "adds K T b (push_synthetic p k pre c) = adds K T b c"
  by (simp add: adds_def push_synthetic_def)

lemma adds_empty_file: "append_empty_file_bind_data_args env path b = Ok b' \<Longrightarrow> adds is_mask {path} b b'"
  by (auto simp: append_empty_file_bind_data_args_def adds_def push_ops_def split: list.splits option.splits)

lemma adds_empty_directory: "adds is_mask {path} b (append_empty_directory_args path b)"
  by (auto simp: append_empty_directory_args_def intro!: adds_push)

lemma adds_missing_empty_file:
  "append_missing_empty_file_bind_data_args env path b = Ok b' \<Longrightarrow> adds is_mask {path} b b'"
  by (auto simp: append_missing_empty_file_bind_data_args_def obind_iffs dest: adds_empty_file)

lemma adds_dirs: "adds is_mask {} b (append_mount_target_parent_dir_args env target anchor b)"
  by (auto simp: append_mount_target_parent_dir_args_def list_all_iff intro!: adds_push split: option.splits)

lemma adds_fold:
  "(\<And>x c. adds K {} c (f x c)) \<Longrightarrow> adds K {} b (fold f xs b)"
proof (induction xs arbitrary: b)
  case (Cons x xs)
  from adds_trans [OF Cons.prems [of b x] Cons.IH [OF Cons.prems]] show ?case by simp
qed simp

lemma adds_each:
  assumes "\<And>p b b'. p \<in> set ps \<Longrightarrow> f p b = Ok b' \<Longrightarrow> adds K (T p) b b'"
  shows "append_each f ps b = Ok b' \<Longrightarrow> adds K (\<Union>p \<in> set ps. T p) b b'"
  using assms
proof (induction ps arbitrary: b)
  case (Cons p ps)
  then obtain c where "f p b = Ok c" "append_each f ps c = Ok b'" by (auto simp: obind_iffs)
  with Cons show ?case by (simp, intro adds_trans) auto
qed simp

lemma adds_existing_unreadable:
  assumes "append_existing_unreadable_path_args env allowed u b = Ok b'"
  shows "adds is_mask {u} b b'"
proof (cases "is_dir (host env) u")
  case True
  let ?ds = "filter (\<lambda>p. \<not> path_eq p u \<and> path_starts_with p u) allowed"
  let ?b1 = "push_ops [OpPerms (if ?ds = [] then ''000'' else ''111''), OpTmpfs u] b"
  let ?b2 = "fold (\<lambda>d. append_mount_target_parent_dir_args env d u) (sort_key path_depth ?ds) ?b1"
  have "adds is_mask {u} b ?b1" by (rule adds_push) auto
  moreover have "adds is_mask {} ?b1 ?b2" by (rule adds_fold) (rule adds_dirs)
  moreover have "adds is_mask {} ?b2 (push_ops [OpRemountRo u] ?b2)" by (rule adds_push) auto
  ultimately have "adds is_mask ({u} \<union> ({} \<union> {})) b (push_ops [OpRemountRo u] ?b2)"
    by (intro adds_trans)
  with assms True show ?thesis by (simp add: append_existing_unreadable_path_args_def Let_def)
next
  case False
  have "adds is_mask {} b (push_ops [OpPerms ''000''] b)" by (rule adds_push) auto
  moreover have "adds is_mask {u} (push_ops [OpPerms ''000''] b) b'"
    using assms False by (intro adds_empty_file) (simp add: append_existing_unreadable_path_args_def)
  ultimately have "adds is_mask ({} \<union> {u}) b b'" by (rule adds_trans)
  then show ?thesis by simp
qed

lemma adds_unreadable_root:
  assumes "append_unreadable_root_args env allowed u b = Ok b'"
  shows "adds is_mask (if path_exists (host env) u then {u} else {}) b b'"
proof -
  have "append_missing_empty_file_bind_data_args env q b = Ok b' \<Longrightarrow> adds is_mask {} b b'" for q
    by (drule adds_missing_empty_file) (erule adds_mono, auto)
  with assms show ?thesis
    by (auto simp: append_unreadable_root_args_def split: option.splits if_splits dest: adds_existing_unreadable)
qed

text \<open>A read-only subpath is bound read-only or masked.\<close>

definition read_only_op :: "bwrap_env \<Rightarrow> ustr list \<Rightarrow> ustr set \<Rightarrow> bwrap_op \<Rightarrow> bool" where
  "read_only_op env allowed S op \<longleftrightarrow>
     is_mask op \<or> (\<exists>s \<in> S. op = OpRoBind s \<and> path_exists (host env) s \<and> is_within_allowed_write_paths s allowed)"

lemma adds_read_only_subpath:
  assumes "append_read_only_subpath_args env allowed s b = Ok b'"
  shows "adds (read_only_op env allowed {s})
    (if path_exists (host env) s \<and> is_within_allowed_write_paths s allowed then {s} else {}) b b'"
proof -
  have mask: "adds is_mask S b c \<Longrightarrow> T \<subseteq> S \<Longrightarrow> adds (read_only_op env allowed {s}) T b c" for S T c
    by (erule adds_mono) (auto simp: read_only_op_def)
  have missing: "append_missing_read_only_subpath_args env q b = Ok b' \<Longrightarrow> adds is_mask {q} b b'" for q
    by (auto simp: append_missing_read_only_subpath_args_def split: if_splits
        intro: adds_missing_empty_file adds_empty_directory)
  have bind: "adds (read_only_op env allowed {s}) {s} b (push_ops [OpRoBind s] b)"
    if "path_exists (host env) s" "is_within_allowed_write_paths s allowed"
    by (rule adds_push) (use that in \<open>auto simp: read_only_op_def\<close>)
  show ?thesis
    using assms bind
    by (auto simp: append_read_only_subpath_args_def obind_iffs split: option.splits if_splits
        empty_protected_metadata_path.splits bool.splits
        intro: mask [OF missing] mask [OF adds_empty_file] mask [OF adds_empty_directory])
qed

section \<open>The mounts of a writable root\<close>

text \<open>
  On a host without symbolic links a path is its own target, and the subpaths and unreadable roots of a
  writable root need no renaming.
\<close>

definition no_links :: "bwrap_env \<Rightarrow> bool" where
  "no_links env \<longleftrightarrow> (\<forall>p. symlink_metadata (host env) p \<noteq> Some True)"

lemma walk_none:
  "(\<And>q. look q = Continue \<or> look q = Finish None) \<Longrightarrow> walk_components look current cs = None"
proof (induction look current cs rule: walk_components.induct)
  case (5 look current part cs)
  have "walk_components look (path_join current part) cs = None" if "look (path_join current part) = Continue"
    using 5 that by blast
  with "5.prems" [of "path_join current part"] show ?case by (auto simp: Let_def)
qed simp_all

lemma no_links_target: "no_links env \<Longrightarrow> canonical_target_if_symlinked_path env p = None"
  unfolding canonical_target_if_symlinked_path_def
  by (rule walk_none) (auto simp: no_links_def split: option.splits bool.splits)

definition root_segment ::
  "bwrap_env \<Rightarrow> ustr list \<Rightarrow> ustr list \<Rightarrow> ustr list \<Rightarrow> writable_root \<Rightarrow> bwrap_op list \<Rightarrow> bool" where
  "root_segment env missing unreadable allowed w seg \<longleftrightarrow>
     (let subpaths = set (root_read_only_subpaths env missing unreadable w) in
      \<exists>dirs ro masks. seg = dirs @ OpBind (wr_root w) # ro @ masks
        \<and> list_all is_mask dirs \<and> list_all (read_only_op env allowed subpaths) ro \<and> list_all is_mask masks
        \<and> (\<forall>s \<in> subpaths. path_exists (host env) s \<and> is_within_allowed_write_paths s allowed \<longrightarrow>
              (\<exists>op \<in> set ro. op_target op = Some s))
        \<and> (\<forall>u \<in> set unreadable. path_starts_with u (wr_root w) \<and> path_exists (host env) u \<longrightarrow>
              (\<exists>op \<in> set masks. op_target op = Some u)))"

lemma root_segment_masks:
  assumes "root_segment env missing unreadable allowed w seg"
    and "u \<in> set unreadable" "path_starts_with u (wr_root w)" "path_exists (host env) u"
  shows "\<exists>op \<in> set seg. op_target op = Some u"
proof -
  from assms obtain dirs ro masks where "seg = dirs @ OpBind (wr_root w) # ro @ masks"
    "\<exists>op \<in> set masks. op_target op = Some u"
    unfolding root_segment_def Let_def by blast
  then show ?thesis by auto
qed

lemma append_writable_root_segment:
  assumes "no_links env" "append_writable_root env missing unreadable allowed w b = Ok b'"
  shows "\<exists>seg. bwrap_ops b' = bwrap_ops b @ seg \<and> root_segment env missing unreadable allowed w seg"
proof -
  note target = no_links_target [OF assms(1), of "wr_root w"]
  let ?subs = "root_read_only_subpaths env missing unreadable w"
  let ?nested = "filter (\<lambda>p. path_starts_with p (wr_root w)) unreadable"
  define b1 where "b1 = (case max_by_depth (filter (path_starts_with (wr_root w)) unreadable) of
     Some masking \<Rightarrow> append_mount_target_parent_dir_args env (wr_root w) masking b | None \<Rightarrow> b)"
  define b2 where "b2 = append_protected_create_targets_for_writable_root env (protected_metadata_names w) (wr_root w) None
     ?subs (push_ops [OpBind (wr_root w)] b1)"
  obtain b3 where b3: "append_each (append_read_only_subpath_args env allowed) (sort_key path_depth ?subs) b2 = Ok b3"
    and b': "append_each (append_unreadable_root_args env allowed) (sort_key path_depth ?nested) b3 = Ok b'"
    using assms(2) by (auto simp: append_writable_root_def target Let_def obind_iffs b1_def b2_def nested_unreadable_roots_def)
  have "adds is_mask {} b b1" by (auto simp: b1_def split: option.splits intro: adds_dirs)
  then obtain dirs where dirs: "bwrap_ops b1 = bwrap_ops b @ dirs" "list_all is_mask dirs" by (rule addsE)
  have b2: "bwrap_ops b2 = bwrap_ops b1 @ [OpBind (wr_root w)]"
    by (simp add: b2_def append_protected_create_targets_for_writable_root_def push_ops_def Let_def)
  have "adds (read_only_op env allowed (set ?subs))
     (\<Union>s \<in> set (sort_key path_depth ?subs).
        if path_exists (host env) s \<and> is_within_allowed_write_paths s allowed then {s} else {}) b2 b3"
    by (rule adds_each [OF _ b3], rule adds_mono [OF adds_read_only_subpath])
      (auto simp: read_only_op_def)
  then obtain ro where ro: "bwrap_ops b3 = bwrap_ops b2 @ ro" "list_all (read_only_op env allowed (set ?subs)) ro"
    "\<And>s. s \<in> set ?subs \<Longrightarrow> path_exists (host env) s \<Longrightarrow> is_within_allowed_write_paths s allowed \<Longrightarrow>
       \<exists>op \<in> set ro. op_target op = Some s"
    by (rule addsE) (auto split: if_splits)
  have "adds is_mask (\<Union>u \<in> set (sort_key path_depth ?nested). if path_exists (host env) u then {u} else {}) b3 b'"
    by (rule adds_each [OF _ b']) (rule adds_unreadable_root)
  then obtain masks where masks: "bwrap_ops b' = bwrap_ops b3 @ masks" "list_all is_mask masks"
    "\<And>u. u \<in> set unreadable \<Longrightarrow> path_starts_with u (wr_root w) \<Longrightarrow> path_exists (host env) u \<Longrightarrow>
       \<exists>op \<in> set masks. op_target op = Some u"
    by (rule addsE) (auto split: if_splits)
  have "root_segment env missing unreadable allowed w (dirs @ OpBind (wr_root w) # ro @ masks)"
    unfolding root_segment_def Let_def using dirs ro masks by blast
  moreover have "bwrap_ops b' = bwrap_ops b @ dirs @ OpBind (wr_root w) # ro @ masks"
    using dirs(1) b2 ro(1) masks(1) by simp
  ultimately show ?thesis by blast
qed

lemma append_writable_roots_segments:
  assumes "no_links env" "append_writable_roots env missing unreadable allowed ws b = Ok b'"
  shows "\<exists>segs. bwrap_ops b' = bwrap_ops b @ concat segs \<and> list_all2 (root_segment env missing unreadable allowed) ws segs"
  using assms(2)
proof (induction ws arbitrary: b)
  case (Cons w ws)
  then obtain c where c: "append_writable_root env missing unreadable allowed w b = Ok c"
    "append_writable_roots env missing unreadable allowed ws c = Ok b'" by (auto simp: obind_iffs)
  from append_writable_root_segment [OF assms(1) c(1)] obtain seg where
    seg: "bwrap_ops c = bwrap_ops b @ seg" "root_segment env missing unreadable allowed w seg" by blast
  from Cons.IH [OF c(2)] obtain segs where
    "bwrap_ops b' = bwrap_ops c @ concat segs" "list_all2 (root_segment env missing unreadable allowed) ws segs" by blast
  with seg show ?case by (intro exI [of _ "seg # segs"]) simp
qed simp

lemma allowed_plain:
  "(\<And>w. w \<in> set ws \<Longrightarrow> canonical_target_if_symlinked_path env (wr_root w) = None) \<Longrightarrow>
   allowed_write_paths_of env ws = map wr_root ws"
  by (induction ws) (simp_all add: allowed_write_paths_of_def)

lemma allowed_no_links: "no_links env \<Longrightarrow> allowed_write_paths_of env ws = map wr_root ws"
  by (rule allowed_plain) (rule no_links_target)

text \<open>The shape of all mounts, and where the last mount over a path lies in them.\<close>

lemma create_filesystem_args_shape:
  assumes "no_links env" "create_filesystem_args env policy cwd max_depth = Ok b"
    and "all_unreadable_roots env policy cwd max_depth = Ok unreadable"
    and ws: "ws = existing_writable_roots env policy cwd"
    and missing: "missing = missing_auto_metadata_read_only_project_root_subpaths (host env) policy cwd"
  shows "\<exists>before segs after.
    bwrap_ops b = base_ops env policy cwd ws @ before @ concat segs @ after
    \<and> list_all is_mask before \<and> list_all is_mask after
    \<and> list_all2 (root_segment env missing unreadable (map wr_root ws)) (sort_key (\<lambda>w. path_depth (wr_root w)) ws) segs
    \<and> (\<forall>u \<in> set unreadable. path_exists (host env) u \<longrightarrow> \<not> is_within_allowed_write_paths u (map wr_root ws) \<longrightarrow>
        (\<exists>op \<in> set (if list_ex (\<lambda>w. path_starts_with (wr_root w) u) ws then before else after). op_target op = Some u))"
proof -
  let ?al = "map wr_root ws" and ?mask = "\<lambda>u. if path_exists (host env) u then {u} else {}"
  let ?anc = "filter (\<lambda>u. \<not> list_ex (path_starts_with u) ?al \<and> list_ex (\<lambda>r. path_starts_with r u) ?al) unreadable"
  let ?free = "filter (\<lambda>u. \<not> list_ex (\<lambda>r. path_starts_with u r \<or> path_starts_with r u) ?al) unreadable"
  let ?b0 = "\<lparr>bwrap_ops = base_ops env policy cwd ws, preserved_files = [], synthetic_mount_targets = [],
    protected_create_targets = []\<rparr>"
  obtain b1 b2 where b1: "append_each (append_unreadable_root_args env ?al) (sort_key path_depth ?anc) ?b0 = Ok b1"
    and b2: "append_writable_roots env missing unreadable ?al (sort_key (\<lambda>w. path_depth (wr_root w)) ws) b1 = Ok b2"
    and b: "append_each (append_unreadable_root_args env ?al) (sort_key path_depth ?free) b2 = Ok b"
    using assms(2,3) by (auto simp: create_filesystem_args_def Let_def obind_iffs ws [symmetric] missing [symmetric] allowed_no_links [OF assms(1)])
  have "adds is_mask (\<Union>u \<in> set (sort_key path_depth ?anc). ?mask u) ?b0 b1"
    by (rule adds_each [OF _ b1]) (rule adds_unreadable_root)
  then obtain before where before: "bwrap_ops b1 = bwrap_ops ?b0 @ before" "list_all is_mask before"
    "\<And>u. u \<in> set ?anc \<Longrightarrow> path_exists (host env) u \<Longrightarrow> \<exists>op \<in> set before. op_target op = Some u"
    by (rule addsE) (auto split: if_splits)
  have "adds is_mask (\<Union>u \<in> set (sort_key path_depth ?free). ?mask u) b2 b"
    by (rule adds_each [OF _ b]) (rule adds_unreadable_root)
  then obtain after where after: "bwrap_ops b = bwrap_ops b2 @ after" "list_all is_mask after"
    "\<And>u. u \<in> set ?free \<Longrightarrow> path_exists (host env) u \<Longrightarrow> \<exists>op \<in> set after. op_target op = Some u"
    by (rule addsE) (auto split: if_splits)
  from append_writable_roots_segments [OF assms(1) b2] obtain segs where
    segs: "bwrap_ops b2 = bwrap_ops b1 @ concat segs"
      "list_all2 (root_segment env missing unreadable ?al) (sort_key (\<lambda>w. path_depth (wr_root w)) ws) segs" by blast
  have "\<exists>op \<in> set (if list_ex (\<lambda>w. path_starts_with (wr_root w) u) ws then before else after). op_target op = Some u"
    if "u \<in> set unreadable" "path_exists (host env) u" "\<not> is_within_allowed_write_paths u ?al" for u
    using that before(3) [of u] after(3) [of u] by (auto simp: is_within_allowed_write_paths_def list_ex_iff)
  moreover have "bwrap_ops b = base_ops env policy cwd ws @ before @ concat segs @ after"
    using before(1) segs(1) after(1) by simp
  ultimately show ?thesis using before(2) after(2) segs(2) by blast
qed

lemma append_eq_split:
  "xs @ ys = pre @ x # post \<Longrightarrow>
   (\<exists>rest. xs = pre @ x # rest \<and> post = rest @ ys) \<or> (\<exists>rest. ys = rest @ x # post)"
  by (auto simp: append_eq_append_conv2 append_eq_Cons_conv Cons_eq_append_conv)

lemma concat_eq_split:
  "concat segs = pre @ x # post \<Longrightarrow>
   \<exists>s1 seg s2 l r. segs = s1 @ seg # s2 \<and> seg = l @ x # r \<and> post = r @ concat s2"
proof (induction segs arbitrary: pre)
  case (Cons s segs)
  from Cons.prems have "s @ concat segs = pre @ x # post" by simp
  from append_eq_split [OF this] show ?case
  proof (elim disjE exE conjE)
    fix rest assume "s = pre @ x # rest" "post = rest @ concat segs"
    then show ?thesis by (metis append_Nil)
  next
    fix rest assume "concat segs = rest @ x # post"
    from Cons.IH [OF this] obtain s1 seg s2 l r where
      "segs = s1 @ seg # s2" "seg = l @ x # r" "post = r @ concat s2" by blast
    then show ?thesis by (metis append_Cons)
  qed
qed simp

lemma sort_key_later:
  assumes "sort_key f xs = l @ x # r" "y \<in> set xs" "f x < f y"
  shows "y \<in> set r"
proof -
  have "sorted (map f (l @ x # r))" using sorted_sort_key [of f xs] assms(1) by simp
  then have "\<forall>z \<in> set l. f z \<le> f x" by (auto simp: sorted_append)
  moreover have "y \<in> set (l @ x # r)" using assms(1,2) set_sort [of f xs] by metis
  ultimately show ?thesis using assms(3) by (auto simp: not_less)
qed

lemma segment_position:
  assumes "dirs @ OpBind root # ro @ masks = l @ op # r" "list_all is_mask dirs" "list_all is_mask masks" "shows_host op"
  shows "op = OpBind root \<and> r = ro @ masks \<or> op \<in> set ro \<and> set masks \<subseteq> set r"
  using append_eq_split [OF assms(1)]
proof (elim disjE exE conjE)
  fix d assume "dirs = l @ op # d"
  with assms(2,4) show ?thesis by simp
next
  fix d assume d: "OpBind root # ro @ masks = d @ op # r"
  show ?thesis
  proof (cases d)
    case (Cons a d')
    with d have "ro @ masks = d' @ op # r" by simp
    from append_eq_split [OF this] assms(3,4) show ?thesis by auto
  qed (use d in auto)
qed

text \<open>
  The mount that shows a path is one of the base, or one of a writable root: its bind or one of its read-only subpaths.
  What is mounted after it does not cover the path.
\<close>

lemma shown_by:
  assumes "bwrap_ops b = base @ before @ concat segs @ after"
    and "list_all is_mask before" "list_all is_mask after"
    and "list_all2 (root_segment env missing unreadable allowed) ws segs"
    and "last_mount (bwrap_ops b) p = Some op" "shows_host op"
  obtains (base) "op \<in> set base" "covers p op" "\<forall>x \<in> set (before @ concat segs @ after). \<not> covers p x"
  | (root) w1 w w2 dirs ro masks later where "ws = w1 @ w # w2" "covers p op"
      "root_segment env missing unreadable allowed w (dirs @ OpBind (wr_root w) # ro @ masks)"
      "op = OpBind (wr_root w) \<and> (\<forall>x \<in> set ro. \<not> covers p x) \<or> op \<in> set ro"
      "\<forall>x \<in> set (masks @ later @ after). \<not> covers p x" "\<forall>v \<in> set w2. OpBind (wr_root v) \<in> set later"
      "list_all (read_only_op env allowed (set (root_read_only_subpaths env missing unreadable w))) ro"
      "\<And>s. s \<in> set (root_read_only_subpaths env missing unreadable w) \<Longrightarrow> path_exists (host env) s \<Longrightarrow>
         is_within_allowed_write_paths s allowed \<Longrightarrow> \<exists>x \<in> set ro. op_target x = Some s"
      "\<And>u. u \<in> set unreadable \<Longrightarrow> path_starts_with u (wr_root w) \<Longrightarrow> path_exists (host env) u \<Longrightarrow>
         \<exists>x \<in> set masks. op_target x = Some u"
proof -
  from last_mount_split [OF assms(5)] obtain pre post where
    split: "bwrap_ops b = pre @ op # post" "covers p op" "\<forall>x \<in> set post. \<not> covers p x" by blast
  from assms(1) split(1) have "base @ (before @ concat segs @ after) = pre @ op # post" by simp
  from append_eq_split [OF this] show ?thesis
  proof (elim disjE exE conjE)
    fix rest assume "base = pre @ op # rest" "post = rest @ before @ concat segs @ after"
    with split show ?thesis by (intro base) auto
  next
    fix rest assume "before @ concat segs @ after = rest @ op # post"
    from append_eq_split [OF this] show ?thesis
    proof (elim disjE exE conjE)
      fix rest' assume "before = rest @ op # rest'"
      with assms(2,6) show ?thesis by simp
    next
      fix rest' assume "concat segs @ after = rest' @ op # post"
      from append_eq_split [OF this] show ?thesis
      proof (elim disjE exE conjE)
        fix more assume more: "concat segs = rest' @ op # more" "post = more @ after"
        from concat_eq_split [OF more(1)] obtain s1 seg s2 l r where
          seg: "segs = s1 @ seg # s2" "seg = l @ op # r" "more = r @ concat s2" by blast
        from assms(4) obtain w1 w w2 where ws: "ws = w1 @ w # w2" "root_segment env missing unreadable allowed w seg"
          "list_all2 (root_segment env missing unreadable allowed) w2 s2"
          by (auto simp: seg(1) list_all2_append2 list_all2_Cons2)
        from ws(2) obtain dirs ro masks where s: "seg = dirs @ OpBind (wr_root w) # ro @ masks"
          "list_all is_mask dirs" "list_all is_mask masks"
          "list_all (read_only_op env allowed (set (root_read_only_subpaths env missing unreadable w))) ro"
          "\<forall>s \<in> set (root_read_only_subpaths env missing unreadable w). path_exists (host env) s
             \<and> is_within_allowed_write_paths s allowed \<longrightarrow> (\<exists>x \<in> set ro. op_target x = Some s)"
          "\<forall>u \<in> set unreadable. path_starts_with u (wr_root w) \<and> path_exists (host env) u \<longrightarrow>
             (\<exists>x \<in> set masks. op_target x = Some u)"
          unfolding root_segment_def Let_def by blast
        have later: "\<forall>v \<in> set w2. OpBind (wr_root v) \<in> set (concat s2)"
          using ws(3) by (induction w2 s2 rule: list_all2_induct) (auto simp: root_segment_def Let_def)
        from segment_position [of dirs "wr_root w" ro masks l op r] seg(2) s(1-3) assms(6)
        have pos: "op = OpBind (wr_root w) \<and> r = ro @ masks \<or> op \<in> set ro \<and> set masks \<subseteq> set r" by simp
        show ?thesis
          by (rule root [of w1 w w2 dirs ro masks "concat s2"])
            (use ws(1,2) split s(1,4-6) pos later more(2) seg(3) in auto)
      next
        fix rest'' assume "after = rest'' @ op # post"
        with assms(3,6) show ?thesis by simp
      qed
    qed
  qed
qed

section \<open>Masks hold\<close>

lemma target_not_covered:
  "\<exists>x \<in> set ops. op_target x = Some t \<Longrightarrow> \<forall>x \<in> set ops. \<not> covers p x \<Longrightarrow> \<not> path_starts_with p t"
  using not_covered by blast

lemma base_no_bind: "OpBind r \<notin> set (base_ops env policy cwd ws)"
  by (auto simp: base_ops_def Let_def)

lemma writable_mount:
  assumes "no_links env" "create_filesystem_args env policy cwd max_depth = Ok b"
    and "all_unreadable_roots env policy cwd max_depth = Ok unreadable"
    and ws: "ws = existing_writable_roots env policy cwd"
    and missing: "missing = missing_auto_metadata_read_only_project_root_subpaths (host env) policy cwd"
    and "last_mount (bwrap_ops b) p = Some (OpBind r)"
  obtains w where "w \<in> set ws" "r = wr_root w" "path_starts_with p r"
    "\<And>s. s \<in> set (root_read_only_subpaths env missing unreadable w) \<Longrightarrow> path_exists (host env) s \<Longrightarrow>
       path_starts_with s r \<Longrightarrow> \<not> path_starts_with p s"
    "\<And>u. u \<in> set unreadable \<Longrightarrow> path_exists (host env) u \<Longrightarrow> path_starts_with u r \<Longrightarrow> \<not> path_starts_with p u"
    "\<And>v. v \<in> set ws \<Longrightarrow> path_depth r < path_depth (wr_root v) \<Longrightarrow> \<not> path_starts_with p (wr_root v)"
proof -
  from create_filesystem_args_shape [OF assms(1-5)] obtain before segs after where shape:
    "bwrap_ops b = base_ops env policy cwd ws @ before @ concat segs @ after"
    "list_all is_mask before" "list_all is_mask after"
    "list_all2 (root_segment env missing unreadable (map wr_root ws)) (sort_key (\<lambda>w. path_depth (wr_root w)) ws) segs"
    by blast
  from shape assms(6) show ?thesis
  proof (rule shown_by)
    fix w1 w w2 dirs ro masks later
    assume sorted: "sort_key (\<lambda>w. path_depth (wr_root w)) ws = w1 @ w # w2" and "covers p (OpBind r)"
      and pos: "OpBind r = OpBind (wr_root w) \<and> (\<forall>x \<in> set ro. \<not> covers p x) \<or> OpBind r \<in> set ro"
      and rest: "\<forall>x \<in> set (masks @ later @ after). \<not> covers p x" "\<forall>v \<in> set w2. OpBind (wr_root v) \<in> set later"
      and ro: "list_all (read_only_op env (map wr_root ws) (set (root_read_only_subpaths env missing unreadable w))) ro"
        "\<And>s. s \<in> set (root_read_only_subpaths env missing unreadable w) \<Longrightarrow> path_exists (host env) s \<Longrightarrow>
           is_within_allowed_write_paths s (map wr_root ws) \<Longrightarrow> \<exists>x \<in> set ro. op_target x = Some s"
      and un: "\<And>u. u \<in> set unreadable \<Longrightarrow> path_starts_with u (wr_root w) \<Longrightarrow> path_exists (host env) u \<Longrightarrow>
           \<exists>x \<in> set masks. op_target x = Some u"
    from ro(1) have "OpBind r \<notin> set ro" by (auto simp: read_only_op_def list_all_iff)
    with pos have r: "r = wr_root w" "\<forall>x \<in> set ro. \<not> covers p x" by auto
    have w: "w \<in> set ws" using sorted set_sort [of _ ws] by (metis in_set_conv_decomp)
    show ?thesis
    proof (rule that [OF w r(1)])
      show "path_starts_with p r" using \<open>covers p (OpBind r)\<close> by simp
      show "\<not> path_starts_with p s" if "s \<in> set (root_read_only_subpaths env missing unreadable w)"
        "path_exists (host env) s" "path_starts_with s r" for s
      proof -
        have "is_within_allowed_write_paths s (map wr_root ws)"
          using that(3) w r(1) by (auto simp: is_within_allowed_write_paths_def list_ex_iff)
        from target_not_covered [OF ro(2) [OF that(1,2) this] r(2)] show ?thesis .
      qed
      show "\<not> path_starts_with p u" if "u \<in> set unreadable" "path_exists (host env) u" "path_starts_with u r" for u
        using target_not_covered [OF un [OF that(1) _ that(2)], of p] that(3) r(1) rest(1) by simp
      show "\<not> path_starts_with p (wr_root v)" if "v \<in> set ws" "path_depth r < path_depth (wr_root v)" for v
      proof -
        have "v \<in> set w2" using sort_key_later [OF sorted that(1)] that(2) r(1) by simp
        with rest show ?thesis by force
      qed
    qed
  qed (use base_no_bind in \<open>simp_all\<close>)
qed

lemma shown_below_root:
  assumes "op = OpBind (wr_root w) \<and> P \<or> op \<in> set ro" "covers p op" "shows_host op"
    and "list_all (read_only_op env allowed S) ro" "\<And>s. s \<in> S \<Longrightarrow> path_starts_with s (wr_root w)"
  shows "path_starts_with p (wr_root w)"
  using assms(1)
proof
  assume "op \<in> set ro"
  with assms(3,4) obtain s where "s \<in> S" "op = OpRoBind s" by (auto simp: read_only_op_def list_all_iff)
  with assms(2,5) show ?thesis by (auto intro: path_starts_with_trans)
qed (use assms(2) in auto)

text \<open>
  What an unreadable root hides stays hidden unless a writable root below it opens it again. Read-only subpaths are
  bound too, so they have to lie inside their root.
\<close>

lemma denied_stays_masked:
  assumes "no_links env" "create_filesystem_args env policy cwd max_depth = Ok b"
    and "all_unreadable_roots env policy cwd max_depth = Ok unreadable"
    and ws: "ws = existing_writable_roots env policy cwd"
    and missing: "missing = missing_auto_metadata_read_only_project_root_subpaths (host env) policy cwd"
    and inside: "\<And>w s. w \<in> set ws \<Longrightarrow> s \<in> set (root_read_only_subpaths env missing unreadable w) \<Longrightarrow>
      path_starts_with s (wr_root w)"
    and op: "last_mount (bwrap_ops b) p = Some op" "shows_host op"
    and u: "u \<in> set unreadable" "path_exists (host env) u" "path_starts_with p u"
  shows "\<exists>w \<in> set ws. path_starts_with (wr_root w) u \<and> \<not> path_starts_with u (wr_root w) \<and> path_starts_with p (wr_root w)"
proof -
  from create_filesystem_args_shape [OF assms(1-5)] obtain before segs after where shape:
    "bwrap_ops b = base_ops env policy cwd ws @ before @ concat segs @ after"
    "list_all is_mask before" "list_all is_mask after"
    "list_all2 (root_segment env missing unreadable (map wr_root ws)) (sort_key (\<lambda>w. path_depth (wr_root w)) ws) segs"
    and masked: "\<not> is_within_allowed_write_paths u (map wr_root ws) \<Longrightarrow>
      \<exists>x \<in> set (if list_ex (\<lambda>w. path_starts_with (wr_root w) u) ws then before else after). op_target x = Some u"
    using u(1,2) by blast
  from shape(1-4) op show ?thesis
  proof (rule shown_by)
    assume none: "\<forall>x \<in> set (before @ concat segs @ after). \<not> covers p x"
    show ?thesis
    proof (cases "is_within_allowed_write_paths u (map wr_root ws)")
      case True
      then obtain w where w: "w \<in> set ws" "path_starts_with u (wr_root w)"
        by (auto simp: is_within_allowed_write_paths_def list_ex_iff)
      then have "w \<in> set (sort_key (\<lambda>w. path_depth (wr_root w)) ws)" by simp
      then obtain seg where "seg \<in> set segs" "root_segment env missing unreadable (map wr_root ws) w seg"
        using shape(4) by (metis in_set_conv_decomp list_all2_append1 list_all2_Cons1 in_set_conv_decomp)
      from this(1) root_segment_masks [OF this(2) u(1) w(2) u(2)]
      have "\<exists>x \<in> set (concat segs). op_target x = Some u" by auto
      from target_not_covered [OF this, of p] none u(3) show ?thesis by simp
    next
      case False
      then have "\<exists>x \<in> set (before @ after). op_target x = Some u" using masked by (auto split: if_splits)
      from target_not_covered [OF this, of p] none u(3) show ?thesis by auto
    qed
  next
    fix w1 w w2 dirs ro masks later
    assume sorted: "sort_key (\<lambda>w. path_depth (wr_root w)) ws = w1 @ w # w2" and cov: "covers p op"
      and pos: "op = OpBind (wr_root w) \<and> (\<forall>x \<in> set ro. \<not> covers p x) \<or> op \<in> set ro"
      and rest: "\<forall>x \<in> set (masks @ later @ after). \<not> covers p x"
      and ro: "list_all (read_only_op env (map wr_root ws) (set (root_read_only_subpaths env missing unreadable w))) ro"
      and un: "\<And>u. u \<in> set unreadable \<Longrightarrow> path_starts_with u (wr_root w) \<Longrightarrow> path_exists (host env) u \<Longrightarrow>
           \<exists>x \<in> set masks. op_target x = Some u"
    have w: "w \<in> set ws" using sorted set_sort [of _ ws] by (metis in_set_conv_decomp)
    have pw: "path_starts_with p (wr_root w)"
      using shown_below_root [OF pos cov op(2) ro] inside [OF w] by blast
    have "\<not> path_starts_with u (wr_root w)"
      using target_not_covered [OF un [OF u(1) _ u(2)], of p] rest u(3) by auto
    with path_starts_with_comparable [OF pw u(3)] w pw show ?thesis by blast
  qed
qed

section \<open>Writable roots cover what the policy lets be written\<close>

lemma below_depth: "path_starts_with p q \<Longrightarrow> path_depth q \<le> path_depth p"
  by (auto simp: path_starts_with_def starts_with_iff path_depth_def)

lemma below_same_depth: "path_starts_with p q \<Longrightarrow> path_depth p \<le> path_depth q \<Longrightarrow> path_eq p q"
  by (auto simp: path_starts_with_def starts_with_iff path_depth_def path_eq_def)

lemma below_eq: "path_eq p q \<Longrightarrow> path_starts_with p q"
  by (simp add: path_eq_def path_starts_with_def starts_with_iff)

lemma specificity_depth: "specificity e = path_depth (resolved_path e)"
  by (simp add: specificity_def path_depth_def)

lemma map_filter_first:
  assumes "List.map_filter f xs = y # ys"
    and "\<And>x. x \<in> set xs \<Longrightarrow> f x = None \<Longrightarrow> g x = None" "\<And>x. x \<in> set xs \<Longrightarrow> f x = Some y \<Longrightarrow> g x = Some y"
  shows "\<exists>zs. List.map_filter g xs = y # zs"
  using assms
proof (induction xs)
  case (Cons x xs)
  show ?case
  proof (cases "f x")
    case None
    with Cons show ?thesis by (simp add: List.map_filter_simps)
  next
    case (Some z)
    with Cons.prems show ?thesis by (simp add: List.map_filter_simps)
  qed
qed (simp add: List.map_filter_simps)

text \<open>What holds of the policy and its paths.\<close>

definition checked_policy :: "host_env \<Rightarrow> sandbox_policy \<Rightarrow> ustr \<Rightarrow> bool" where
  "checked_policy env policy cwd \<longleftrightarrow>
     sandbox_kind policy = Restricted \<and> policy_ok policy \<and> env_ok env \<and> is_absolute cwd"

lemma checked_restricted: "checked_policy env policy cwd \<Longrightarrow> sandbox_kind policy = Restricted"
  by (simp add: checked_policy_def)

lemma resolved_normal:
  "checked_policy env policy cwd \<Longrightarrow> e \<in> set (resolved_entries_with_cwd env policy cwd) \<Longrightarrow> is_normal_abs (resolved_path e)"
  by (auto simp: checked_policy_def intro: resolved_path_normal)

lemma metadata_child_first:
  assumes ok: "checked_policy env policy cwd"
    and "metadata_child_of_writable_root env policy p cwd = Some (c, m)" "path_starts_with p t" "path_starts_with t c"
  shows "metadata_child_of_writable_root env policy t cwd = Some (c, m)"
proof -
  let ?es = "filter (\<lambda>e. can_write (resolved_access e)) (resolved_entries_with_cwd env policy cwd)"
  from assms(2) obtain ms where "List.map_filter (metadata_child env p) ?es = (c, m) # ms"
    by (auto simp: metadata_child_of_writable_root_def split: list.splits)
  moreover have "metadata_child env t e = None" if "e \<in> set ?es" "metadata_child env p e = None" for e
    using that metadata_child_iff [OF resolved_normal [OF ok], of e] path_starts_with_trans [OF assms(3)]
    by (metis filter_is_subset not_Some_eq old.prod.exhaust subsetD)
  moreover have "metadata_child env t e = Some (c, m)" if "e \<in> set ?es" "metadata_child env p e = Some (c, m)" for e
    using that metadata_child_iff [OF resolved_normal [OF ok], of e] assms(4) by auto
  ultimately have "\<exists>zs. List.map_filter (metadata_child env t) ?es = (c, m) # zs" by (rule map_filter_first)
  then show ?thesis by (auto simp: metadata_child_of_writable_root_def)
qed

lemma Write_le_iff: "Write \<le> a \<longleftrightarrow> a \<noteq> Read"
  by (cases a) (simp_all add: less_eq_access_mode_def)

lemma le_Write_iff: "a \<le> Write \<longleftrightarrow> a \<noteq> Deny"
  by (cases a) (simp_all add: less_eq_access_mode_def)

text \<open>A write grant that does not make its own path writable is overruled by a denial of that path.\<close>

lemma overruled_grant:
  assumes ok: "checked_policy env policy cwd"
    and "e \<in> set (resolved_entries_with_cwd env policy cwd)" "resolved_access e = Write" "\<not> can_write_path_with_cwd env policy (resolved_path e) cwd"
  obtains g where "g \<in> set (resolved_entries_with_cwd env policy cwd)" "resolved_path g = resolved_path e" "resolved_access g = Deny"
proof -
  let ?q = "resolved_path e"
  have q: "is_normal_abs ?q" using assms(2) by (rule resolved_normal [OF ok])
  have "metadata_allowed env policy cwd ?q"
    using assms(2,3) metadata_child_of_writable_root_Some [of env policy ?q cwd] metadata_child_iff [OF resolved_normal [OF ok]]
    by (fastforce simp: metadata_allowed_def has_explicit_write_entry_for_metadata_path_def list_ex_iff can_write_def)
  with assms(4) have no: "resolve_access_with_cwd env policy ?q cwd \<noteq> Write"
    by (simp add: can_write_restricted_iff [OF checked_restricted [OF ok] q])
  have e: "e \<in> set (matching_entries env policy cwd ?q)" using assms(2) by (simp add: matching_entries_def)
  from checked_restricted [OF ok] candidate_normal [OF q, of env cwd] show ?thesis
  proof (cases rule: resolve_access_cases)
    case (entry g)
    then have g: "g \<in> set (resolved_entries_with_cwd env policy cwd)" "path_starts_with ?q (resolved_path g)" by (auto simp: matching_entries_def)
    from entry(3) e have "specificity e \<le> specificity g" "specificity e = specificity g \<longrightarrow> Write \<le> resolved_access g"
      using assms(3) by fastforce+
    with below_depth [OF g(2)] have "specificity e = specificity g" "Write \<le> resolved_access g"
      by (auto simp: specificity_depth)
    with entry(2) no below_same_depth [OF g(2)] path_eq_normal [OF q resolved_normal [OF ok g(1)]]
    show ?thesis using that [OF g(1)] by (cases "resolved_access g") (auto simp: specificity_depth Write_le_iff)
  qed (use e in simp)
qed

lemma writable_path_has_grant:
  assumes ok: "checked_policy env policy cwd" and f: "f \<in> set (resolved_entries_with_cwd env policy cwd)"
    and "can_write_path_with_cwd env policy (resolved_path f) cwd"
  obtains e where "e \<in> set (resolved_entries_with_cwd env policy cwd)" "resolved_path e = resolved_path f"
    "resolved_access e = Write"
proof -
  note q = resolved_normal [OF ok f]
  have "resolve_access_with_cwd env policy (resolved_path f) cwd = Write"
    using assms(3) by (simp add: can_write_restricted_iff [OF checked_restricted [OF ok] q])
  from decided_by_write [OF checked_restricted [OF ok] q this] obtain e where
    e: "e \<in> set (matching_entries env policy cwd (resolved_path f))" "resolved_access e = Write" and
    "\<forall>g \<in> set (matching_entries env policy cwd (resolved_path f)). specificity g \<le> specificity e" by fastforce
  moreover have "f \<in> set (matching_entries env policy cwd (resolved_path f))" using f by (simp add: matching_entries_def)
  ultimately have "path_depth (resolved_path f) \<le> path_depth (resolved_path e)" by (simp add: specificity_depth)
  moreover have m: "path_starts_with (resolved_path f) (resolved_path e)" "e \<in> set (resolved_entries_with_cwd env policy cwd)"
    using e(1) by (auto simp: matching_entries_def)
  ultimately have "resolved_path f = resolved_path e"
    using below_same_depth path_eq_normal [OF q resolved_normal [OF ok m(2)]] by blast
  with m(2) e(2) that show ?thesis by metis
qed

text \<open>
  A path below a writable root \<open>r\<close> that is in no carve-out of it, in no protected metadata of it and in no deeper
  writable root is writable.
\<close>

lemma deeper_entries:
  assumes ok: "checked_policy env policy cwd"
    and f: "f \<in> set (resolved_entries_with_cwd env policy cwd)" "path_starts_with p (resolved_path f)"
    and p: "path_starts_with p r"
    and carve: "\<And>g. g \<in> set (resolved_entries_with_cwd env policy cwd) \<Longrightarrow> resolved_access g \<noteq> Write \<Longrightarrow>
      \<not> can_write_path_with_cwd env policy (resolved_path g) cwd \<Longrightarrow> path_starts_with (resolved_path g) r \<Longrightarrow>
      path_depth r < path_depth (resolved_path g) \<Longrightarrow> \<not> path_starts_with p (resolved_path g)"
    and deeper: "\<And>g. g \<in> set (resolved_entries_with_cwd env policy cwd) \<Longrightarrow> resolved_access g = Write \<Longrightarrow>
      can_write_path_with_cwd env policy (resolved_path g) cwd \<Longrightarrow> path_depth r < path_depth (resolved_path g) \<Longrightarrow>
      \<not> path_starts_with p (resolved_path g)"
  shows "path_depth (resolved_path f) \<le> path_depth r" "path_starts_with r (resolved_path f)"
proof -
  show "path_depth (resolved_path f) \<le> path_depth r"
  proof (rule ccontr)
    assume "\<not> ?thesis"
    then have d: "path_depth r < path_depth (resolved_path f)" by simp
    with path_starts_with_comparable [OF f(2) p] below_depth have below: "path_starts_with (resolved_path f) r"
      by (meson not_less)
    show False
    proof (cases "can_write_path_with_cwd env policy (resolved_path f) cwd")
      case True
      then show False using writable_path_has_grant [OF ok f(1) True] deeper d f(2) by metis
    next
      case False
      have "\<exists>g \<in> set (resolved_entries_with_cwd env policy cwd). resolved_path g = resolved_path f \<and> resolved_access g \<noteq> Write"
        using overruled_grant [OF ok f(1) _ False] f(1) by (metis access_mode.distinct(5))
      with carve False d below f(2) show False by metis
    qed
  qed
  then show "path_starts_with r (resolved_path f)"
    using path_starts_with_comparable [OF f(2) p] below_same_depth below_eq by (metis path_eq_def)
qed

lemma grant_not_denied:
  assumes ok: "checked_policy env policy cwd" and e: "e \<in> set (resolved_entries_with_cwd env policy cwd)"
    and "can_write_path_with_cwd env policy (resolved_path e) cwd"
    and f: "f \<in> set (resolved_entries_with_cwd env policy cwd)" "path_eq (resolved_path f) (resolved_path e)"
  shows "resolved_access f \<noteq> Deny"
proof
  assume deny: "resolved_access f = Deny"
  note q = resolved_normal [OF ok e]
  have "resolve_access_with_cwd env policy (resolved_path e) cwd = Write"
    using assms(3) by (simp add: can_write_restricted_iff [OF checked_restricted [OF ok] q])
  from decided_by_write [OF checked_restricted [OF ok] q this] obtain g where
    g: "g \<in> set (matching_entries env policy cwd (resolved_path e))" and
    max: "\<forall>h \<in> set (matching_entries env policy cwd (resolved_path e)).
      specificity h < specificity g \<or> (specificity h = specificity g \<and> resolved_access h \<le> Write)" by blast
  have "f \<in> set (matching_entries env policy cwd (resolved_path e))"
    using f by (auto simp: matching_entries_def path_eq_def path_starts_with_def starts_with_iff)
  with max have "specificity f < specificity g" using deny le_Write_iff by fastforce
  moreover have "specificity g \<le> specificity f"
    using g f(2) below_depth by (fastforce simp: matching_entries_def specificity_depth path_depth_def path_eq_def)
  ultimately show False by simp
qed

lemma metadata_below_root:
  assumes ok: "checked_policy env policy cwd" and nf: "\<not> has_full_disk_write_access policy"
    and e: "e \<in> set (resolved_entries_with_cwd env policy cwd)" "resolved_access e = Write" "path_starts_with p (resolved_path e)"
    and shallow: "\<And>f. f \<in> set (resolved_entries_with_cwd env policy cwd) \<Longrightarrow> path_starts_with p (resolved_path f) \<Longrightarrow>
      path_starts_with (resolved_path e) (resolved_path f)"
    and meta: "\<And>m. m \<in> set PROTECTED_METADATA_PATH_NAMES \<Longrightarrow>
      \<not> can_write_path_with_cwd env policy (host_join env (resolved_path e) m) cwd \<Longrightarrow>
      \<not> path_starts_with p (host_join env (resolved_path e) m)"
  shows "metadata_allowed env policy cwd p"
  unfolding metadata_allowed_def
proof (intro allI impI)
  fix c m assume child: "metadata_child_of_writable_root env policy p cwd = Some (c, m)"
  from metadata_child_of_writable_root_Some [OF this] obtain x where
    x: "x \<in> set (resolved_entries_with_cwd env policy cwd)" "metadata_child env p x = Some (c, m)" by blast
  note nx = resolved_normal [OF ok x(1)]
  have c: "m \<in> set PROTECTED_METADATA_PATH_NAMES" "c = host_join env (resolved_path x) m" "path_starts_with p c"
    using x metadata_child_iff [OF nx] by auto
  have xc: "path_starts_with c (resolved_path x)" using host_join_starts_with [OF nx c(1)] c(2) by simp
  show "has_explicit_write_entry_for_metadata_path env policy c p cwd"
  proof (cases "path_starts_with (resolved_path e) c")
    case True
    with e show ?thesis
      by (auto simp: has_explicit_write_entry_for_metadata_path_def list_ex_iff can_write_def)
  next
    case False
    then have "path_starts_with c (resolved_path e)" using path_starts_with_comparable [OF c(3) e(3)] by blast
    with above_metadata_parent [OF nx c(1)] False c(2)
    have "path_starts_with (resolved_path x) (resolved_path e)" by blast
    with below_depth [OF shallow [OF x(1) path_starts_with_trans [OF c(3) xc]]]
    have "path_eq (resolved_path x) (resolved_path e)" using below_same_depth by blast
    then have "resolved_path x = resolved_path e" using path_eq_normal [OF nx resolved_normal [OF ok e(1)]] by simp
    with meta [OF c(1)] c(2,3) have cw: "can_write_path_with_cwd env policy c cwd" by metis
    have nc: "is_normal_abs c" using c(2) host_join_normal [OF nx] by simp
    have "metadata_child_of_writable_root env policy c cwd = Some (c, m)"
      by (rule metadata_child_first [OF ok child c(3)]) simp
    with cw nf have "has_explicit_write_entry_for_metadata_path env policy c c cwd"
      by (simp add: can_write_restricted_iff [OF checked_restricted [OF ok] nc] metadata_allowed_def)
    then show ?thesis
      using path_starts_with_trans [OF c(3)] by (auto simp: has_explicit_write_entry_for_metadata_path_def list_ex_iff)
  qed
qed

lemma root_makes_writable:
  assumes ok: "checked_policy env policy cwd"
    and e: "e \<in> set (resolved_entries_with_cwd env policy cwd)" "resolved_access e = Write"
      "can_write_path_with_cwd env policy (resolved_path e) cwd"
    and p: "is_normal_abs p" "path_starts_with p (resolved_path e)"
    and carve: "\<And>g. g \<in> set (resolved_entries_with_cwd env policy cwd) \<Longrightarrow> resolved_access g \<noteq> Write \<Longrightarrow>
      \<not> can_write_path_with_cwd env policy (resolved_path g) cwd \<Longrightarrow> path_starts_with (resolved_path g) (resolved_path e) \<Longrightarrow>
      path_depth (resolved_path e) < path_depth (resolved_path g) \<Longrightarrow> \<not> path_starts_with p (resolved_path g)"
    and deeper: "\<And>g. g \<in> set (resolved_entries_with_cwd env policy cwd) \<Longrightarrow> resolved_access g = Write \<Longrightarrow>
      can_write_path_with_cwd env policy (resolved_path g) cwd \<Longrightarrow>
      path_depth (resolved_path e) < path_depth (resolved_path g) \<Longrightarrow> \<not> path_starts_with p (resolved_path g)"
    and meta: "\<And>m. m \<in> set PROTECTED_METADATA_PATH_NAMES \<Longrightarrow>
      \<not> can_write_path_with_cwd env policy (host_join env (resolved_path e) m) cwd \<Longrightarrow>
      \<not> path_starts_with p (host_join env (resolved_path e) m)"
  shows "can_write_path_with_cwd env policy p cwd"
proof -
  have shallow: "path_depth (resolved_path f) \<le> path_depth (resolved_path e)" "path_starts_with (resolved_path e) (resolved_path f)"
    if "f \<in> set (resolved_entries_with_cwd env policy cwd)" "path_starts_with p (resolved_path f)" for f
    by (rule deeper_entries [OF ok that p(2)], use carve in blast, use deeper in blast)+
  have "resolve_access_with_cwd env policy p cwd = Write"
  proof (rule decided_by_writeI [OF checked_restricted [OF ok] p(1), of e])
    show "e \<in> set (matching_entries env policy cwd p)" using e p(2) by (simp add: matching_entries_def)
    show "\<forall>f \<in> set (matching_entries env policy cwd p). specificity f < specificity e
        \<or> (specificity f = specificity e \<and> resolved_access f \<le> Write)"
    proof
      fix f assume "f \<in> set (matching_entries env policy cwd p)"
      then have f: "f \<in> set (resolved_entries_with_cwd env policy cwd)" "path_starts_with p (resolved_path f)"
        by (auto simp: matching_entries_def)
      have le: "specificity f \<le> specificity e" using shallow(1) [OF f] by (simp add: specificity_depth)
      have "resolved_access f \<le> Write" if "specificity f = specificity e"
        using grant_not_denied [OF ok e(1,3) f(1)] below_same_depth [OF shallow(2) [OF f]] that
        by (simp add: le_Write_iff specificity_depth path_eq_def)
      with le show "specificity f < specificity e \<or> (specificity f = specificity e \<and> resolved_access f \<le> Write)" by auto
    qed
  qed (rule e(2))
  moreover have "has_full_disk_write_access policy \<or> metadata_allowed env policy cwd p"
  proof (cases "has_full_disk_write_access policy")
    case False
    have "metadata_allowed env policy cwd p"
      by (rule metadata_below_root [OF ok False e(1,2) p(2)], use shallow in blast, use meta in blast)
    then show ?thesis by simp
  qed simp
  ultimately show ?thesis by (simp add: can_write_restricted_iff [OF checked_restricted [OF ok] p(1)])
qed

section \<open>Hosts without symbolic links\<close>

definition plain_fs :: "bwrap_env \<Rightarrow> bool" where
  "plain_fs env \<longleftrightarrow>
     no_links env
     \<and> (\<forall>p q. is_normal_abs p \<longrightarrow> canonicalize (host env) p = Some q \<longrightarrow> q = p)
     \<and> (\<forall>p q. path_exists (host env) p \<longrightarrow> path_starts_with p q \<longrightarrow> path_exists (host env) q)
     \<and> (\<forall>p. lstat_not_found env p \<longrightarrow> \<not> path_exists (host env) p)"

lemma components_path_join:
  assumes "is_absolute a" "\<not> is_absolute t"
  shows "components (path_join a t) = components a @ map seg_component (filter (\<lambda>s. s \<noteq> [] \<and> s \<noteq> dot) (split_on slash t))"
proof (cases "last a = slash")
  case True
  with assms(1) obtain a' where a: "a = a' @ [slash]"
    by (cases a rule: rev_cases) (auto simp: is_absolute_def)
  have "is_absolute (a @ t)" using assms(1) by (auto simp: is_absolute_def split: list.splits)
  then show ?thesis
    using True assms split_on_append_sep [of slash a' t] split_on_append_sep [of slash a' "[]"]
    by (simp add: path_join_def components_def Let_def a)
next
  case False
  have "a \<noteq> []" "is_absolute (a @ slash # t)" using assms(1) by (auto simp: is_absolute_def split: list.splits)
  with False show ?thesis
    using assms split_on_append_sep [of slash a t] by (simp add: path_join_def components_def Let_def)
qed

lemma components_join_names:
  assumes "is_absolute a" "list_all name_ok ns"
  shows "components (path_join a (join_with [slash] ns)) = components a @ map Normal ns"
proof (cases "ns = []")
  case True
  then show ?thesis using components_path_join [OF assms(1), of "[]"] by (simp add: is_absolute_def)
next
  case False
  have "\<forall>n \<in> set ns. slash \<notin> set n" using assms(2) by (auto simp: list_all_iff name_ok_def)
  then have split: "split_on slash (join_with [slash] ns) = ns" using False split_on_join [of ns slash] by simp
  have "\<not> is_absolute (join_with [slash] ns)"
  proof
    assume "is_absolute (join_with [slash] ns)"
    then have "hd ns = []" using split by (cases "join_with [slash] ns") (auto simp: is_absolute_def)
    with False assms(2) show False by (cases ns) (auto simp: name_ok_def)
  qed
  moreover have "filter (\<lambda>s. s \<noteq> [] \<and> s \<noteq> dot) ns = ns" "map seg_component ns = map Normal ns"
    using assms(2) by (auto simp: list_all_iff name_ok_def seg_component_def filter_id_conv)
  ultimately show ?thesis using components_path_join [OF assms(1), of "join_with [slash] ns"] split by simp
qed

lemma normalize_path_cong: "components p = components q \<Longrightarrow> normalize_path p = normalize_path q"
  by (simp add: normalize_path_def)

lemma first_normalized_plain:
  assumes "plain_fs env" "list_all name_ok ns" "set ks \<subseteq> {..length ns}"
  shows "first_normalized (host env) (abs_display ns) (map (\<lambda>k. abs_display (take k ns)) ks) \<in> {None, Some (abs_display ns)}"
  using assms(3)
proof (induction ks)
  case (Cons k ks)
  let ?a = "abs_display (take k ns)"
  have ok: "list_all name_ok (take k ns)" "list_all name_ok (drop k ns)"
    using assms(2) by (auto simp: list_all_iff dest: in_set_takeD in_set_dropD)
  then have na: "is_normal_abs ?a" by (auto simp: is_normal_abs_def)
  have "canonicalize_preserving_symlinks (host env) ?a = Some ?a"
    using assms(1) na by (auto simp: canonicalize_preserving_symlinks_def host_abs_def plain_fs_def split: option.splits)
  moreover have "path_strip_prefix (abs_display ns) ?a = Some (map Normal (drop k ns))"
  proof -
    have "components (abs_display ns) = components ?a @ map Normal (drop k ns)"
      using assms(2) ok by (simp add: components_abs_display flip: map_append)
    then show ?thesis by (simp add: path_strip_prefix_def)
  qed
  moreover have "host_abs (host env) (path_join ?a (join_with [slash] (drop k ns))) = Some (abs_display ns)"
  proof -
    let ?j = "path_join ?a (join_with [slash] (drop k ns))"
    have "components ?j = components (abs_display ns)"
      using components_join_names [OF is_absolute_abs_display ok(2), of "take k ns"] assms(2) ok
      by (simp add: components_abs_display flip: map_append)
    then have "normalize_path ?j = abs_display ns"
      using normalize_path_cong normalize_path_normal [OF assms(2)] by metis
    then show ?thesis by (simp add: host_abs_def abs_try_from_absolute)
  qed
  ultimately show ?case using Cons by (auto simp: comp_def split: option.splits)
qed simp

lemma normalize_effective_plain:
  assumes "plain_fs env" "is_normal_abs p"
  shows "normalize_effective_absolute_path (host env) p = p"
proof -
  obtain ns where ns: "list_all name_ok ns" "p = abs_display ns" using assms(2) by (rule is_normal_absE)
  have "ancestors p = map (\<lambda>k. abs_display (take k ns)) (rev [0..<length ns + 1])"
    using ns by (simp add: ancestors_def components_abs_display Let_def)
  moreover have "set (rev [0..<length ns + 1]) \<subseteq> {..length ns}" by auto
  ultimately have "first_normalized (host env) p (ancestors p) \<in> {None, Some p}"
    using first_normalized_plain [OF assms(1) ns(1)] ns(2) by metis
  then show ?thesis by (auto simp: normalize_effective_absolute_path_def)
qed

lemma dedup_absolute_complete:
  "p \<in> set ps \<Longrightarrow> \<exists>q \<in> set (dedup_absolute_paths env ps False). path_eq p q"
  using dedup_loop_covers [of p ps "[]"] by (simp add: dedup_absolute_paths_def)

lemma dedup_absolute_plain:
  assumes "plain_fs env" "\<forall>p \<in> set ps. is_normal_abs p"
  shows "set (dedup_absolute_paths (host env) ps True) = set ps"
proof -
  have m: "map (normalize_effective_absolute_path (host env)) ps = ps"
    using assms normalize_effective_plain by (simp add: map_idI)
  have "set ps \<subseteq> set (dedup_absolute_paths (host env) ps True)"
    using dedup_normal [of _ ps] assms normalize_effective_plain [OF assms(1)] by blast
  with m dedup_loop_subset [of "[]" ps] show ?thesis by (auto simp: dedup_absolute_paths_def)
qed

section \<open>The roots of a policy on such a host\<close>

lemma full_write_no_globs:
  assumes "has_full_disk_write_access policy"
  shows "get_unreadable_globs_with_cwd env policy cwd = []"
proof (cases "sandbox_kind policy = Restricted")
  case True
  with assms have "\<forall>e \<in> set (sandbox_entries policy). \<not> narrows_write policy e"
    by (auto simp: has_full_disk_write_access_def has_write_narrowing_entries_def list_ex_iff)
  then have "\<forall>e \<in> set (filter (\<lambda>e. access e = Deny) (sandbox_entries policy)). deny_glob env cwd e = None"
    by (auto simp: deny_glob_def narrows_write_def can_write_def split: file_system_path.splits)
  then have "List.map_filter (deny_glob env cwd) (filter (\<lambda>e. access e = Deny) (sandbox_entries policy)) = []"
    unfolding map_filter_Nil_iff .
  with True show ?thesis by (simp add: get_unreadable_globs_with_cwd_def)
qed (simp add: get_unreadable_globs_with_cwd_def)

lemma existing_roots: "set (existing_writable_roots env policy cwd) =
    {w \<in> set (get_writable_roots_with_cwd (host env) policy cwd). path_exists (host env) (wr_root w)}"
  by (auto simp: existing_writable_roots_def Let_def get_writable_roots_with_cwd_def dest: full_write_no_globs)

definition write_grants :: "host_env \<Rightarrow> sandbox_policy \<Rightarrow> ustr \<Rightarrow> resolved_entry set" where
  "write_grants env policy cwd = {e \<in> set (resolved_entries_with_cwd env policy cwd).
     resolved_access e = Write \<and> can_write_path_with_cwd env policy (resolved_path e) cwd}"

definition grant_paths :: "host_env \<Rightarrow> sandbox_policy \<Rightarrow> ustr \<Rightarrow> ustr list" where
  "grant_paths env policy cwd = map resolved_path
     (filter (\<lambda>e. can_write_path_with_cwd env policy (resolved_path e) cwd)
       (filter (\<lambda>e. can_write (resolved_access e)) (resolved_entries_with_cwd env policy cwd)))"

lemma set_grant_paths: "set (grant_paths env policy cwd) = resolved_path ` write_grants env policy cwd"
  by (auto simp: grant_paths_def write_grants_def can_write_def)

lemma writable_roots_plain:
  assumes "plain_fs env" "checked_policy (host env) policy cwd" "\<not> has_full_disk_write_access policy"
  shows "set (get_writable_roots_with_cwd (host env) policy cwd) =
    writable_root_for (host env) policy cwd (grant_paths (host env) policy cwd) ` resolved_path ` write_grants (host env) policy cwd"
proof -
  have "\<forall>p \<in> set (grant_paths (host env) policy cwd). is_normal_abs p"
    using resolved_normal [OF assms(2)] by (auto simp: set_grant_paths write_grants_def)
  from dedup_absolute_plain [OF assms(1) this] show ?thesis
    using assms(3) unfolding get_writable_roots_with_cwd_def Let_def grant_paths_def [symmetric] set_grant_paths [symmetric]
    by simp
qed

lemma wr_root_for [simp]: "wr_root (writable_root_for env policy cwd es r) = r"
  by (simp add: writable_root_for_def Let_def)

lemma carveout_in_subpaths:
  assumes fs: "plain_fs env" and ok: "checked_policy (host env) policy cwd"
    and g: "g \<in> set (resolved_entries_with_cwd (host env) policy cwd)" "resolved_access g \<noteq> Write"
      "\<not> can_write_path_with_cwd (host env) policy (resolved_path g) cwd"
    and r: "path_starts_with (resolved_path g) r" "path_depth r < path_depth (resolved_path g)"
  shows "\<exists>s \<in> set (read_only_subpaths (writable_root_for (host env) policy cwd es r)). path_eq (resolved_path g) s"
proof -
  have "normalize_effective_absolute_path (host env) (resolved_path g) = resolved_path g"
    using normalize_effective_plain [OF fs] resolved_normal [OF ok g(1)] by blast
  moreover have "\<not> path_eq (resolved_path g) r" using r(2) by (auto simp: path_eq_def path_depth_def)
  ultimately have "carveout (host env) r raws g = Some (resolved_path g)" for raws
    using r(1) by (simp add: carveout_def raw_carveout_path_def Let_def)
  then show ?thesis
    unfolding writable_root_for_def Let_def writable_root.simps
    by (intro dedup_absolute_complete)
      (use g in \<open>auto simp: set_map_filter can_write_def intro!: bexI [of _ g]\<close>)
qed

lemma metadata_name_protected:
  assumes fs: "plain_fs env" and ok: "checked_policy (host env) policy cwd" and r: "is_normal_abs r"
    and m: "m \<in> set PROTECTED_METADATA_PATH_NAMES" "\<not> can_write_path_with_cwd (host env) policy (host_join (host env) r m) cwd"
  shows "m \<in> set (protected_metadata_names (writable_root_for (host env) policy cwd (grant_paths (host env) policy cwd) r))"
proof -
  have "q = r" if "q \<in> set (grant_paths (host env) policy cwd)"
    "path_eq (normalize_effective_absolute_path (host env) q) r" for q
  proof -
    have "is_normal_abs q" using that(1) resolved_normal [OF ok] by (auto simp: set_grant_paths write_grants_def)
    with that(2) show ?thesis using normalize_effective_plain [OF fs] path_eq_normal [OF _ r] by simp
  qed
  with m show ?thesis
    by (auto simp: writable_root_for_def Let_def protected_metadata_names_for_writable_root_def list_all_iff)
qed

lemma push_unique_mono: "set xs \<subseteq> set (push_unique xs x)"
  by (auto simp: push_unique_def)

lemma push_unique_in: "\<exists>y \<in> set (push_unique xs x). path_eq y x"
  by (auto simp: push_unique_def list_ex_iff path_eq_def)

lemma metadata_masks_mono: "set xs \<subseteq> set (append_metadata_path_masks_for_writable_root env root mount names xs)"
proof (induction names arbitrary: xs)
  case (Cons n names)
  then show ?case
    using push_unique_mono [of xs "path_join root n"] by (auto simp: append_metadata_path_masks_for_writable_root_def)
qed (simp add: append_metadata_path_masks_for_writable_root_def)

lemma metadata_masks_in:
  "m \<in> set names \<Longrightarrow> \<not> should_leave_missing_git_for_parent_repo_discovery env mount m \<Longrightarrow>
   \<exists>y \<in> set (append_metadata_path_masks_for_writable_root env root mount names xs). path_eq y (path_join root m)"
proof (induction names arbitrary: xs)
  case (Cons n names)
  show ?case
  proof (cases "m = n")
    case True
    with Cons.prems push_unique_in [of xs "path_join root m"]
      metadata_masks_mono [of "push_unique xs (path_join root m)" env root mount names]
    show ?thesis by (auto simp: append_metadata_path_masks_for_writable_root_def)
  next
    case False
    with Cons show ?thesis by (auto simp: append_metadata_path_masks_for_writable_root_def)
  qed
qed simp

section \<open>What the sandbox lets be written\<close>

lemma plain_fs_exists: "plain_fs env \<Longrightarrow> path_exists (host env) p \<Longrightarrow> path_starts_with p q \<Longrightarrow> path_exists (host env) q"
  by (auto simp: plain_fs_def)

lemma missing_auto_missing:
  "q \<in> set (missing_auto_metadata_read_only_project_root_subpaths env policy cwd) \<Longrightarrow> \<not> path_exists env q"
proof -
  have "missing_auto_subpath env cwd e = Some q \<Longrightarrow> \<not> path_exists env q" for e
    by (auto simp: missing_auto_subpath_def Let_def
        split: file_system_path.split_asm special_path.split_asm option.split_asm if_split_asm)
  moreover assume "q \<in> set (missing_auto_metadata_read_only_project_root_subpaths env policy cwd)"
  ultimately show ?thesis by (auto simp: missing_auto_metadata_read_only_project_root_subpaths_def set_map_filter)
qed

text \<open>An existing read-only subpath of a root is masked, or it is unreadable and masked as such.\<close>

lemma existing_subpath_kept:
  assumes fs: "plain_fs env" and s: "s \<in> set (read_only_subpaths w)" "path_exists (host env) s"
    and missing: "missing = missing_auto_metadata_read_only_project_root_subpaths (host env) policy cwd"
  shows "s \<in> set (root_read_only_subpaths env missing unreadable w) \<or> (\<exists>u \<in> set unreadable. path_eq s u)"
proof -
  have nl: "no_links env" using fs by (simp add: plain_fs_def)
  have "\<not> path_eq s q" if "q \<in> set missing" for q
    using that missing_auto_missing [of q] plain_fs_exists [OF fs s(2) below_eq] missing by blast
  then have "s \<in> set (root_read_only_subpaths env missing unreadable w)" if "\<forall>u \<in> set unreadable. \<not> path_eq s u"
    using that s(1) unfolding root_read_only_subpaths_def no_links_target [OF nl] Let_def option.case
    by (intro subsetD [OF metadata_masks_mono]) (auto simp: list_ex_iff)
  then show ?thesis by blast
qed

lemma existing_metadata_kept:
  assumes fs: "plain_fs env" and r: "is_normal_abs (wr_root w)"
    and m: "m \<in> set PROTECTED_METADATA_PATH_NAMES" "m \<in> set (protected_metadata_names w)"
      "path_exists (host env) (host_join (host env) (wr_root w) m)"
  shows "\<exists>s \<in> set (root_read_only_subpaths env missing unreadable w). path_eq s (host_join (host env) (wr_root w) m)"
proof -
  have nl: "no_links env" using fs by (simp add: plain_fs_def)
  have "is_absolute (wr_root w)" using r by (auto elim: is_normal_absE)
  then have eq: "components (path_join (wr_root w) m) = components (host_join (host env) (wr_root w) m)"
    using components_join_names [of "wr_root w" "[m]"] metadata_names_ok [OF m(1)] host_join_components [OF r m(1)] by simp
  then have "path_exists (host env) (path_join (wr_root w) m)"
    using plain_fs_exists [OF fs m(3)] by (simp add: below_eq path_eq_def)
  then have "\<not> should_leave_missing_git_for_parent_repo_discovery env (wr_root w) m"
    using fs by (auto simp: should_leave_missing_git_for_parent_repo_discovery_def plain_fs_def)
  from metadata_masks_in [OF m(2) this, of "wr_root w"] show ?thesis
    unfolding root_read_only_subpaths_def no_links_target [OF nl] Let_def option.case path_eq_def eq by blast
qed

text \<open>So what is masked at a root keeps an existing path below it from being covered by the bind of the root.\<close>

lemma carveout_masked:
  assumes fs: "plain_fs env" and ok: "checked_policy (host env) policy cwd"
    and g: "g \<in> set (resolved_entries_with_cwd (host env) policy cwd)" "resolved_access g \<noteq> Write"
      "\<not> can_write_path_with_cwd (host env) policy (resolved_path g) cwd"
    and r: "path_starts_with (resolved_path g) r" "path_depth r < path_depth (resolved_path g)"
    and p: "path_exists (host env) p"
    and missing: "missing = missing_auto_metadata_read_only_project_root_subpaths (host env) policy cwd"
    and ro: "\<And>s. s \<in> set (root_read_only_subpaths env missing unreadable (writable_root_for (host env) policy cwd es r)) \<Longrightarrow>
      path_exists (host env) s \<Longrightarrow> path_starts_with s r \<Longrightarrow> \<not> path_starts_with p s"
    and unread: "\<And>u. u \<in> set unreadable \<Longrightarrow> path_exists (host env) u \<Longrightarrow> path_starts_with u r \<Longrightarrow> \<not> path_starts_with p u"
  shows "\<not> path_starts_with p (resolved_path g)"
proof
  assume pg: "path_starts_with p (resolved_path g)"
  from carveout_in_subpaths [OF fs ok g r, of es] obtain s where
    s: "s \<in> set (read_only_subpaths (writable_root_for (host env) policy cwd es r))" "path_eq (resolved_path g) s" by blast
  have below: "path_starts_with p t" "path_starts_with t r" "path_exists (host env) t" if "path_eq s t" for t
  proof -
    show pt: "path_starts_with p t" using pg s(2) that by (simp add: path_eq_def path_starts_with_def)
    show "path_starts_with t r" using r(1) s(2) that by (simp add: path_eq_def path_starts_with_def)
    show "path_exists (host env) t" using plain_fs_exists [OF fs p pt] .
  qed
  have "path_eq s s" by (simp add: path_eq_def)
  with existing_subpath_kept [OF fs s(1) below(3) missing, of unreadable] ro unread below show False by blast
qed

lemma metadata_masked:
  assumes fs: "plain_fs env" and ok: "checked_policy (host env) policy cwd" and r: "is_normal_abs r"
    and m: "m \<in> set PROTECTED_METADATA_PATH_NAMES" "\<not> can_write_path_with_cwd (host env) policy (host_join (host env) r m) cwd"
    and p: "path_exists (host env) p"
    and w: "w = writable_root_for (host env) policy cwd (grant_paths (host env) policy cwd) r"
    and ro: "\<And>s. s \<in> set (root_read_only_subpaths env missing unreadable w) \<Longrightarrow>
      path_exists (host env) s \<Longrightarrow> path_starts_with s r \<Longrightarrow> \<not> path_starts_with p s"
  shows "\<not> path_starts_with p (host_join (host env) r m)"
proof
  assume pm: "path_starts_with p (host_join (host env) r m)"
  have "m \<in> set (protected_metadata_names w)" using metadata_name_protected [OF fs ok r m] by (simp add: w)
  moreover have "wr_root w = r" by (simp add: w)
  ultimately obtain s where s: "s \<in> set (root_read_only_subpaths env missing unreadable w)"
    "path_eq s (host_join (host env) r m)"
    using existing_metadata_kept [OF fs _ m(1)] r plain_fs_exists [OF fs p pm] by metis
  have ps: "path_starts_with p s" using pm s(2) by (simp add: path_eq_def path_starts_with_def)
  moreover have "path_starts_with s r"
    using host_join_starts_with [OF r m(1)] s(2) by (simp add: path_eq_def path_starts_with_def)
  ultimately show False using ro [OF s(1)] plain_fs_exists [OF fs p ps] by blast
qed

text \<open>
  C7: where the last mount over an existing path is a writable bind, the policy lets the path be written.
\<close>

theorem sandbox_writes_allowed:
  assumes fs: "plain_fs env" and ok: "checked_policy (host env) policy cwd"
    and b: "create_filesystem_args env policy cwd max_depth = Ok b"
    and p: "is_normal_abs p" "path_exists (host env) p"
    and last: "last_mount (bwrap_ops b) p = Some (OpBind r)"
  shows "can_write_path_with_cwd (host env) policy p cwd"
proof -
  let ?es = "grant_paths (host env) policy cwd"
  define missing where "missing = missing_auto_metadata_read_only_project_root_subpaths (host env) policy cwd"
  obtain unreadable where un: "all_unreadable_roots env policy cwd max_depth = Ok unreadable"
    using b by (auto simp: create_filesystem_args_def Let_def obind_iffs)
  have nl: "no_links env" using fs by (simp add: plain_fs_def)
  from writable_mount [OF nl b un refl missing_def last] obtain w where
    w: "w \<in> set (existing_writable_roots env policy cwd)" "r = wr_root w" "path_starts_with p r"
    and ro: "\<And>s. s \<in> set (root_read_only_subpaths env missing unreadable w) \<Longrightarrow> path_exists (host env) s \<Longrightarrow>
       path_starts_with s r \<Longrightarrow> \<not> path_starts_with p s"
    and unread: "\<And>u. u \<in> set unreadable \<Longrightarrow> path_exists (host env) u \<Longrightarrow> path_starts_with u r \<Longrightarrow> \<not> path_starts_with p u"
    and deep: "\<And>v. v \<in> set (existing_writable_roots env policy cwd) \<Longrightarrow> path_depth r < path_depth (wr_root v) \<Longrightarrow>
       \<not> path_starts_with p (wr_root v)" by blast
  have nf: "\<not> has_full_disk_write_access policy"
    using w(1) by (auto simp: existing_roots get_writable_roots_with_cwd_def)
  note roots = writable_roots_plain [OF fs ok nf]
  from w(1) obtain e where e: "e \<in> write_grants (host env) policy cwd"
    and we: "w = writable_root_for (host env) policy cwd ?es (resolved_path e)"
    unfolding existing_roots roots by blast
  have r: "r = resolved_path e" using w(2) we by simp
  have nr: "is_normal_abs r" using e r resolved_normal [OF ok] by (simp add: write_grants_def)
  show ?thesis
  proof (rule root_makes_writable [OF ok, of e])
    show "\<not> path_starts_with p (resolved_path g)"
      if "g \<in> set (resolved_entries_with_cwd (host env) policy cwd)" "resolved_access g \<noteq> Write"
        "\<not> can_write_path_with_cwd (host env) policy (resolved_path g) cwd"
        "path_starts_with (resolved_path g) (resolved_path e)"
        "path_depth (resolved_path e) < path_depth (resolved_path g)" for g
      by (rule carveout_masked [OF fs ok that p(2) missing_def, of unreadable ?es])
        (use ro unread r we in \<open>simp_all\<close>)
    show "\<not> path_starts_with p (resolved_path g)"
      if "g \<in> set (resolved_entries_with_cwd (host env) policy cwd)" "resolved_access g = Write"
        "can_write_path_with_cwd (host env) policy (resolved_path g) cwd"
        "path_depth (resolved_path e) < path_depth (resolved_path g)" for g
    proof
      assume pg: "path_starts_with p (resolved_path g)"
      have "writable_root_for (host env) policy cwd ?es (resolved_path g) \<in> set (existing_writable_roots env policy cwd)"
        unfolding existing_roots roots using that plain_fs_exists [OF fs p(2) pg] by (auto simp: write_grants_def)
      from deep [OF this] that(4) r pg show False by simp
    qed
    show "\<not> path_starts_with p (host_join (host env) (resolved_path e) m)"
      if "m \<in> set PROTECTED_METADATA_PATH_NAMES"
        "\<not> can_write_path_with_cwd (host env) policy (host_join (host env) (resolved_path e) m) cwd" for m
      by (rule metadata_masked [OF fs ok _ that p(2) we, of missing unreadable]) (use ro nr r in \<open>simp_all\<close>)
  qed (use e w(3) r p in \<open>simp_all add: write_grants_def\<close>)
qed

section \<open>What the sandbox shows\<close>

definition subpaths_inside :: "host_env \<Rightarrow> sandbox_policy \<Rightarrow> ustr \<Rightarrow> bool" where
  "subpaths_inside env policy cwd \<longleftrightarrow>
     list_all (\<lambda>w. list_all (\<lambda>s. path_starts_with s (wr_root w)) (read_only_subpaths w)) (get_writable_roots_with_cwd env policy cwd)"

lemma metadata_masks_subset:
  "s \<in> set (append_metadata_path_masks_for_writable_root env root mount names xs) \<Longrightarrow>
   s \<in> set xs \<or> s \<in> path_join root ` set names"
proof (induction names arbitrary: xs)
  case (Cons n names)
  let ?ys = "if should_leave_missing_git_for_parent_repo_discovery env mount n then xs else push_unique xs (path_join root n)"
  have "s \<in> set (append_metadata_path_masks_for_writable_root env root mount names ?ys)"
    using Cons.prems by (simp add: append_metadata_path_masks_for_writable_root_def)
  from Cons.IH [OF this] show ?case by (auto simp: push_unique_def split: if_splits)
qed (simp add: append_metadata_path_masks_for_writable_root_def)

lemma subpaths_stay_inside:
  assumes fs: "plain_fs env" and ok: "checked_policy (host env) policy cwd"
    and inside: "subpaths_inside (host env) policy cwd"
    and w: "w \<in> set (existing_writable_roots env policy cwd)"
    and s: "s \<in> set (root_read_only_subpaths env missing unreadable w)"
  shows "path_starts_with s (wr_root w)"
proof -
  have nl: "no_links env" using fs by (simp add: plain_fs_def)
  have nf: "\<not> has_full_disk_write_access policy"
    using w by (auto simp: existing_roots get_writable_roots_with_cwd_def)
  have wr: "w \<in> set (get_writable_roots_with_cwd (host env) policy cwd)" using w by (simp add: existing_roots)
  from s have "s \<in> set (read_only_subpaths w) \<or> s \<in> path_join (wr_root w) ` set (protected_metadata_names w)"
    unfolding root_read_only_subpaths_def no_links_target [OF nl] Let_def option.case
    by (auto dest: metadata_masks_subset)
  then show ?thesis
  proof
    assume "s \<in> path_join (wr_root w) ` set (protected_metadata_names w)"
    then obtain m where m: "m \<in> set (protected_metadata_names w)" "s = path_join (wr_root w) m" by blast
    from wr obtain e where e: "e \<in> write_grants (host env) policy cwd"
      "w = writable_root_for (host env) policy cwd (grant_paths (host env) policy cwd) (resolved_path e)"
      unfolding writable_roots_plain [OF fs ok nf] by blast
    have "is_normal_abs (wr_root w)" using e resolved_normal [OF ok] by (simp add: write_grants_def)
    then have "is_absolute (wr_root w)" by (auto elim: is_normal_absE)
    moreover have "m \<in> set PROTECTED_METADATA_PATH_NAMES"
      using m(1) by (auto simp: e(2) writable_root_for_def Let_def protected_metadata_names_for_writable_root_def)
    ultimately show ?thesis
      using components_join_names [of "wr_root w" "[m]"] metadata_names_ok m(2)
      by (simp add: path_starts_with_def starts_with_iff)
  qed (use inside wr in \<open>auto simp: subpaths_inside_def list_all_iff\<close>)
qed

lemma dedup_adjacent_complete: "\<forall>x \<in> set xs. \<exists>y \<in> set (dedup_adjacent xs). path_eq x y"
proof (induction xs rule: dedup_adjacent.induct)
  case (1 p q ps)
  then show ?case by (cases "path_eq p q") (auto simp: path_eq_def)
qed (auto simp: path_eq_def)

lemma path_set_insert_subset: "set (fold path_set_insert xs acc) \<subseteq> set xs \<union> set acc"
proof (induction xs arbitrary: acc)
  case (Cons x xs)
  from Cons.IH [of "path_set_insert x acc"] show ?case by (auto simp: path_set_insert_def set_insort_key split: if_splits)
qed simp

lemma base_shown:
  assumes "no_links env" "op \<in> set (base_ops env policy cwd ws)" "shows_host op" "covers p op"
  shows "has_full_disk_read_access policy \<or> (\<exists>x \<in> set (readable_roots_of env policy cwd). path_starts_with p x)"
  using assms(2-4)
  by (fastforce simp: base_ops_def Let_def no_links_target [OF assms(1)] list_ex_iff path_eq_def path_starts_with_def
      split: if_splits)

lemma denied_own_path:
  assumes ok: "checked_policy env policy cwd"
    and f: "f \<in> set (resolved_entries_with_cwd env policy cwd)" "resolved_access f = Deny"
  shows "\<not> can_read_path_with_cwd env policy (resolved_path f) cwd"
proof -
  note q = resolved_normal [OF ok f(1)]
  have m: "f \<in> set (matching_entries env policy cwd (resolved_path f))" using f(1) by (simp add: matching_entries_def)
  from checked_restricted [OF ok] candidate_normal [OF q, of env cwd]
  have "resolve_access_with_cwd env policy (resolved_path f) cwd = Deny"
  proof (cases rule: resolve_access_cases)
    case (entry g)
    have "specificity g \<le> specificity f"
      using entry(1) below_depth by (auto simp: matching_entries_def specificity_depth)
    with entry(3) m f(2) have "Deny \<le> resolved_access g" by fastforce
    with entry(2) show ?thesis by (cases "resolved_access g") (simp_all add: less_eq_access_mode_def)
  qed simp
  then show ?thesis by (simp add: can_read_path_with_cwd_def can_read_def)
qed

lemma readable_root_entry:
  assumes fs: "plain_fs env" and ok: "checked_policy (host env) policy cwd"
    and x: "x \<in> set (readable_roots_of env policy cwd)"
  shows "include_platform_defaults policy \<and> x \<in> set LINUX_PLATFORM_DEFAULT_READ_ROOTS
    \<or> (\<exists>e \<in> set (resolved_entries_with_cwd (host env) policy cwd). resolved_path e = x
        \<and> can_read_path_with_cwd (host env) policy x cwd)"
proof -
  let ?ps = "map resolved_path (filter (\<lambda>e. can_read_path_with_cwd (host env) policy (resolved_path e) cwd)
    (filter (\<lambda>e. can_read (resolved_access e)) (resolved_entries_with_cwd (host env) policy cwd)))"
  have "set (dedup_absolute_paths (host env) ?ps True) = set ?ps"
    by (rule dedup_absolute_plain [OF fs]) (auto intro: resolved_normal [OF ok])
  then have "set (get_readable_roots_with_cwd (host env) policy cwd) \<subseteq> set ?ps"
    by (simp add: get_readable_roots_with_cwd_def)
  moreover have "x \<in> set (get_readable_roots_with_cwd (host env) policy cwd)
      \<or> include_platform_defaults policy \<and> x \<in> set LINUX_PLATFORM_DEFAULT_READ_ROOTS"
    using x unfolding readable_roots_of_def by (auto dest!: subsetD [OF path_set_insert_subset] split: if_splits)
  ultimately show ?thesis by auto
qed

lemma full_read_everywhere:
  assumes ok: "checked_policy env policy cwd" and "has_full_disk_read_access policy" "is_normal_abs p"
  shows "can_read_path_with_cwd env policy p cwd"
proof -
  have abs: "is_absolute cwd" using ok by (simp add: checked_policy_def)
  from assms(2) checked_restricted [OF ok] obtain g where
    g: "g \<in> set (sandbox_entries policy)" "entry_path g = Special Root" and
    nd: "\<forall>e \<in> set (sandbox_entries policy). access e \<noteq> Deny"
    by (auto simp: has_full_disk_read_access_def has_root_access_def has_denied_read_restrictions_def list_ex_iff)
  have "\<lparr>resolved_path = [slash], resolved_access = access g\<rparr> \<in> set (matching_entries env policy cwd p)"
    using g assms(3) host_abs_cwd [OF abs]
    by (auto simp: matching_entries_def starts_with_root resolved_entry_iff root_entry_resolves intro!: bexI [of _ g])
  with checked_restricted [OF ok] candidate_normal [OF assms(3), of env cwd]
  have "resolve_access_with_cwd env policy p cwd \<noteq> Deny"
  proof (cases rule: resolve_access_cases)
    case (entry f)
    then show ?thesis using nd by (auto simp: matching_entries_def resolved_entry_iff resolve_entry_def)
  qed auto
  then show ?thesis by (simp add: can_read_path_with_cwd_def can_read_def)
qed

text \<open>
  A path that is shown lies below an entry whose own path can be read, or the policy reads the whole disk, or the
  path is one of the platform's.
\<close>

definition platform_path :: "sandbox_policy \<Rightarrow> ustr \<Rightarrow> bool" where
  "platform_path policy p \<longleftrightarrow>
     include_platform_defaults policy \<and> list_ex (path_starts_with p) LINUX_PLATFORM_DEFAULT_READ_ROOTS"

lemma shown_has_entry:
  assumes fs: "plain_fs env" and ok: "checked_policy (host env) policy cwd"
    and inside: "subpaths_inside (host env) policy cwd"
    and b: "create_filesystem_args env policy cwd max_depth = Ok b"
    and last: "last_mount (bwrap_ops b) p = Some op" "shows_host op"
  shows "has_full_disk_read_access policy \<or> platform_path policy p
    \<or> (\<exists>e \<in> set (resolved_entries_with_cwd (host env) policy cwd). path_starts_with p (resolved_path e)
        \<and> can_read_path_with_cwd (host env) policy (resolved_path e) cwd)"
proof -
  have nl: "no_links env" using fs by (simp add: plain_fs_def)
  obtain unreadable where un: "all_unreadable_roots env policy cwd max_depth = Ok unreadable"
    using b by (auto simp: create_filesystem_args_def Let_def obind_iffs)
  let ?ws = "existing_writable_roots env policy cwd"
  from create_filesystem_args_shape [OF nl b un refl refl] obtain before segs after where shape:
    "bwrap_ops b = base_ops env policy cwd ?ws @ before @ concat segs @ after"
    "list_all is_mask before" "list_all is_mask after"
    "list_all2 (root_segment env (missing_auto_metadata_read_only_project_root_subpaths (host env) policy cwd) unreadable
      (map wr_root ?ws)) (sort_key (\<lambda>w. path_depth (wr_root w)) ?ws) segs" by blast
  from shape last show ?thesis
  proof (rule shown_by)
    assume "op \<in> set (base_ops env policy cwd ?ws)" "covers p op"
    from base_shown [OF nl this(1) last(2) this(2)] show ?thesis
      using readable_root_entry [OF fs ok] by (auto simp: platform_path_def list_ex_iff)
  next
    fix w1 w w2 dirs ro masks later
    let ?subs = "root_read_only_subpaths env
      (missing_auto_metadata_read_only_project_root_subpaths (host env) policy cwd) unreadable w"
    assume sorted: "sort_key (\<lambda>w. path_depth (wr_root w)) ?ws = w1 @ w # w2" and cov: "covers p op"
      and pos: "op = OpBind (wr_root w) \<and> (\<forall>x \<in> set ro. \<not> covers p x) \<or> op \<in> set ro"
      and ro: "list_all (read_only_op env (map wr_root ?ws) (set ?subs)) ro"
    have w: "w \<in> set ?ws" using sorted set_sort [of _ ?ws] by (metis in_set_conv_decomp)
    have pw: "path_starts_with p (wr_root w)"
      using shown_below_root [OF pos cov last(2) ro] subpaths_stay_inside [OF fs ok inside w] by blast
    have nf: "\<not> has_full_disk_write_access policy"
      using w by (auto simp: existing_roots get_writable_roots_with_cwd_def)
    from w obtain e where e: "e \<in> write_grants (host env) policy cwd" "wr_root w = resolved_path e"
      unfolding existing_roots writable_roots_plain [OF fs ok nf] by auto
    then have "can_read_path_with_cwd (host env) policy (resolved_path e) cwd"
      by (auto simp: write_grants_def can_write_path_with_cwd_def can_read_path_with_cwd_def can_write_def can_read_def
          split: if_splits)
    with e pw show ?thesis by (auto simp: write_grants_def)
  qed
qed

lemma denied_entry_unreadable:
  assumes fs: "plain_fs env" and ok: "checked_policy (host env) policy cwd"
    and un: "all_unreadable_roots env policy cwd max_depth = Ok unreadable"
    and f: "f \<in> set (resolved_entries_with_cwd (host env) policy cwd)" "resolved_access f = Deny"
      "\<not> path_eq [slash] (resolved_path f)"
  shows "\<exists>u \<in> set unreadable. path_eq (resolved_path f) u"
proof -
  have abs: "is_absolute cwd" using ok by (simp add: checked_policy_def)
  let ?ps = "map resolved_path (filter (\<lambda>e. \<not> opt_path_eq (Some [slash]) (Some (resolved_path e)))
    (filter (\<lambda>e. \<not> can_read_path_with_cwd (host env) policy (resolved_path e) cwd)
      (filter (\<lambda>e. resolved_access e = Deny) (resolved_entries_with_cwd (host env) policy cwd))))"
  have "resolved_path f \<in> set ?ps"
    using f denied_own_path [OF ok f(1,2)] by (auto simp: opt_path_eq_def)
  moreover have "set (dedup_absolute_paths (host env) ?ps True) = set ?ps"
    by (rule dedup_absolute_plain [OF fs]) (auto intro: resolved_normal [OF ok])
  ultimately have "resolved_path f \<in> set (get_unreadable_roots_with_cwd (host env) policy cwd)"
    using checked_restricted [OF ok]
    by (simp add: get_unreadable_roots_with_cwd_def host_abs_cwd [OF abs] absolute_root_path_for_cwd_def ancestors_last)
  moreover obtain expanded where
    "unreadable = dedup_adjacent (sort_key path_key (get_unreadable_roots_with_cwd (host env) policy cwd @ expanded))"
    using un by (auto simp: all_unreadable_roots_def obind_iffs)
  ultimately show ?thesis using dedup_adjacent_complete by auto
qed

lemma denied_needs_root:
  assumes fs: "plain_fs env" and ok: "checked_policy (host env) policy cwd"
    and inside: "subpaths_inside (host env) policy cwd"
    and b: "create_filesystem_args env policy cwd max_depth = Ok b"
    and p: "path_exists (host env) p"
    and last: "last_mount (bwrap_ops b) p = Some op" "shows_host op"
    and f: "f \<in> set (resolved_entries_with_cwd (host env) policy cwd)" "path_starts_with p (resolved_path f)"
      "resolved_access f = Deny" "\<not> path_eq [slash] (resolved_path f)"
  shows "\<exists>g \<in> set (resolved_entries_with_cwd (host env) policy cwd). path_starts_with p (resolved_path g)
    \<and> path_depth (resolved_path f) < path_depth (resolved_path g)"
proof -
  have nl: "no_links env" using fs by (simp add: plain_fs_def)
  obtain unreadable where un: "all_unreadable_roots env policy cwd max_depth = Ok unreadable"
    using b by (auto simp: create_filesystem_args_def Let_def obind_iffs)
  obtain u where u: "u \<in> set unreadable" "path_eq (resolved_path f) u"
    using denied_entry_unreadable [OF fs ok un f(1,3,4)] by blast
  have pu: "path_starts_with p u" using f(2) u(2) by (simp add: path_eq_def path_starts_with_def)
  have "\<exists>w \<in> set (existing_writable_roots env policy cwd). path_starts_with (wr_root w) u
      \<and> \<not> path_starts_with u (wr_root w) \<and> path_starts_with p (wr_root w)"
    by (rule denied_stays_masked [OF nl b un refl refl _ last u(1) plain_fs_exists [OF fs p pu] pu])
      (rule subpaths_stay_inside [OF fs ok inside])
  then obtain w where w: "w \<in> set (existing_writable_roots env policy cwd)" "path_starts_with (wr_root w) u"
    "\<not> path_starts_with u (wr_root w)" "path_starts_with p (wr_root w)" by blast
  have nf: "\<not> has_full_disk_write_access policy"
    using w by (auto simp: existing_roots get_writable_roots_with_cwd_def)
  from w(1) obtain g where g: "g \<in> write_grants (host env) policy cwd" "wr_root w = resolved_path g"
    unfolding existing_roots writable_roots_plain [OF fs ok nf] by auto
  have "path_depth u < path_depth (wr_root w)"
    using w(2,3) below_same_depth below_eq by (metis not_less path_eq_def)
  then show ?thesis using g w(4) u(2) by (auto simp: write_grants_def path_eq_def path_depth_def)
qed

text \<open>
  C8: where the last mount over an existing path shows content of the host, the policy lets the path be read, or the path is
  a system directory the policy asks for with its platform defaults.
\<close>

theorem sandbox_reads_allowed:
  assumes fs: "plain_fs env" and ok: "checked_policy (host env) policy cwd"
    and inside: "subpaths_inside (host env) policy cwd"
    and b: "create_filesystem_args env policy cwd max_depth = Ok b"
    and p: "is_normal_abs p" "path_exists (host env) p"
    and last: "last_mount (bwrap_ops b) p = Some op" "shows_host op"
  shows "can_read_path_with_cwd (host env) policy p cwd \<or> platform_path policy p"
proof (rule ccontr)
  assume "\<not> ?thesis"
  then have deny: "resolve_access_with_cwd (host env) policy p cwd = Deny" "\<not> platform_path policy p"
    by (auto simp: can_read_path_with_cwd_def can_read_def)
  have "\<not> has_full_disk_read_access policy"
    using full_read_everywhere [OF ok _ p(1)] deny(1) by (auto simp: can_read_path_with_cwd_def can_read_def)
  with shown_has_entry [OF fs ok inside b last] deny(2) obtain e where
    e: "e \<in> set (resolved_entries_with_cwd (host env) policy cwd)" "path_starts_with p (resolved_path e)"
      "can_read_path_with_cwd (host env) policy (resolved_path e) cwd" by blast
  have me: "e \<in> set (matching_entries (host env) policy cwd p)" using e by (simp add: matching_entries_def)
  from checked_restricted [OF ok] candidate_normal [OF p(1), of "host env" cwd] show False
  proof (cases rule: resolve_access_cases)
    case (entry f)
    have f: "f \<in> set (resolved_entries_with_cwd (host env) policy cwd)" "path_starts_with p (resolved_path f)"
      "resolved_access f = Deny" using entry(1,2) deny(1) by (auto simp: matching_entries_def)
    have max: "path_depth (resolved_path g) \<le> path_depth (resolved_path f)"
      if "g \<in> set (resolved_entries_with_cwd (host env) policy cwd)" "path_starts_with p (resolved_path g)" for g
      using entry(3) that by (fastforce simp: matching_entries_def specificity_depth)
    note denied = denied_own_path [OF ok f(1,3)]
    have "\<not> path_eq [slash] (resolved_path f)"
    proof
      assume "path_eq [slash] (resolved_path f)"
      then have "path_depth (resolved_path f) \<le> path_depth (resolved_path e)" "path_starts_with (resolved_path e) (resolved_path f)"
        using starts_with_root [OF resolved_normal [OF ok e(1)]] below_depth
        by (auto simp: path_eq_def path_starts_with_def path_depth_def)
      then have "resolved_path e = resolved_path f"
        using max [OF e(1,2)] below_same_depth path_eq_normal resolved_normal [OF ok] e(1) f(1) by blast
      with e(3) denied show False by simp
    qed
    from denied_needs_root [OF fs ok inside b p(2) last f this] max show False by (meson not_less)
  qed (use me in simp)
qed

section \<open>Failing closed\<close>

lemma append_each_ok: "append_each f ps b = Ok b' \<Longrightarrow> p \<in> set ps \<Longrightarrow> \<exists>c c'. f p c = Ok c'"
  by (induction ps arbitrary: b) (auto simp: obind_iffs)

lemma append_writable_roots_ok:
  "append_writable_roots env missing unreadable allowed ws b = Ok b' \<Longrightarrow> w \<in> set ws \<Longrightarrow>
   \<exists>c c'. append_writable_root env missing unreadable allowed w c = Ok c'"
  by (induction ws arbitrary: b) (auto simp: obind_iffs)

lemma crossing_unreadable_fails:
  "first_writable_symlink_component_in_path env u allowed = Some l \<Longrightarrow> append_unreadable_root_args env allowed u c \<noteq> Ok c'"
  by (simp add: append_unreadable_root_args_def)

text \<open>
  Where a path that must not be read is hidden: below a writable root at the same place below the directory the root
  really is, elsewhere at its own place. Below the directory behind a symbolic link only, it is not hidden at all:
  \<open>symlinked_root_shows_denied\<close>.
\<close>

definition hidden_at :: "bwrap_env \<Rightarrow> writable_root list \<Rightarrow> ustr \<Rightarrow> ustr list" where
  "hidden_at env ws u =
     (if list_ex (path_starts_with u) (allowed_write_paths_of env ws)
      then concat (map (\<lambda>w. case canonical_target_if_symlinked_path env (wr_root w) of
          Some target \<Rightarrow> remap_paths_for_symlink_target [u] (wr_root w) target
        | None \<Rightarrow> [u]) (filter (\<lambda>w. path_starts_with u (wr_root w)) ws))
      else [u])"

lemma hidden_nested:
  assumes "u \<in> set unreadable" "path_starts_with u (wr_root w)"
    and "p \<in> set (case canonical_target_if_symlinked_path env (wr_root w) of
      Some target \<Rightarrow> remap_paths_for_symlink_target [u] (wr_root w) target | None \<Rightarrow> [u])"
  shows "p \<in> set (nested_unreadable_roots env unreadable w)"
  using assms by (cases "canonical_target_if_symlinked_path env (wr_root w)")
    (auto simp: nested_unreadable_roots_def remap_paths_for_symlink_target_def)

lemma hidden_at_plain:
  assumes "\<forall>w \<in> set ws. canonical_target_if_symlinked_path env (wr_root w) = None"
  shows "set (hidden_at env ws u) = {u}"
  using assms allowed_plain [of ws env] by (auto simp: hidden_at_def list_ex_iff)

text \<open>
  C30: when a path that must not be read is to be hidden at a place that crosses a symbolic link which the command
  could replace, because the link lies at or below a writable root or the directory such a root links to, no arguments
  are built. For writable roots spelled without symbolic links that place is the path itself.
\<close>

theorem writable_symlink_fails_closed:
  assumes un: "all_unreadable_roots env policy cwd max_depth = Ok unreadable" "u \<in> set unreadable"
    and p: "p \<in> set (hidden_at env (existing_writable_roots env policy cwd) u)"
    and link: "first_writable_symlink_component_in_path env p
      (allowed_write_paths_of env (existing_writable_roots env policy cwd)) = Some l"
  shows "create_filesystem_args env policy cwd max_depth \<noteq> Ok b"
proof
  let ?ws = "existing_writable_roots env policy cwd"
  let ?al = "allowed_write_paths_of env ?ws" and ?f = "append_unreadable_root_args env"
  let ?missing = "missing_auto_metadata_read_only_project_root_subpaths (host env) policy cwd"
  assume ok: "create_filesystem_args env policy cwd max_depth = Ok b"
  have fail: "\<exists>c c'. ?f ?al p c = Ok c' \<Longrightarrow> False" using crossing_unreadable_fails [OF link] by blast
  obtain b0 b1 b2 where steps:
    "append_each (?f ?al) (sort_key path_depth (filter (\<lambda>u. \<not> list_ex (path_starts_with u) ?al
       \<and> list_ex (\<lambda>root. path_starts_with root u) ?al) unreadable)) b0 = Ok b1"
    "append_writable_roots env ?missing unreadable ?al (sort_key (\<lambda>w. path_depth (wr_root w)) ?ws) b1 = Ok b2"
    "append_each (?f ?al) (sort_key path_depth (filter (\<lambda>u. \<not> list_ex (\<lambda>root. path_starts_with u root
       \<or> path_starts_with root u) ?al) unreadable)) b2 = Ok b"
    using ok un(1) by (auto simp: create_filesystem_args_def Let_def obind_iffs)
  show False
  proof (cases "list_ex (path_starts_with u) ?al")
    case True
    then obtain w where w: "w \<in> set ?ws" "p \<in> set (nested_unreadable_roots env unreadable w)"
      using p hidden_nested [OF un(2)] by (auto simp: hidden_at_def)
    from append_writable_roots_ok [OF steps(2), of w] w(1) obtain c c' where
      "append_writable_root env ?missing unreadable ?al w c = Ok c'" by auto
    then obtain d where "append_each (?f ?al) (sort_key path_depth (nested_unreadable_roots env unreadable w)) d = Ok c'"
      by (auto simp: append_writable_root_def Let_def obind_iffs)
    with append_each_ok [of "?f ?al" _ d c' p] w(2) fail show False by simp
  next
    case False
    then have "p = u" using p by (simp add: hidden_at_def)
    with False append_each_ok [OF steps(1), of u] append_each_ok [OF steps(3), of u] un(2) fail show False
      by (fastforce simp: list_ex_iff)
  qed
qed

section \<open>The network\<close>

text \<open>
  Only a policy that writes everywhere runs the command as it is, and only with full network access; otherwise the
  command is wrapped, and the network namespace is left exactly when access to the network is not full.
\<close>

lemma wrapped_unless_unrestricted:
  assumes "create_bwrap_command_args env command policy cwd command_cwd options = Ok run"
    and "\<not> (has_full_disk_write_access policy \<and> network_mode options = FullAccess)"
  shows "\<exists>mounts rest. argv run = [str ''--new-session'', str ''--die-with-parent''] @ mounts @ namespace_args options @ rest
    \<and> (\<exists>chdir. rest = chdir @ [str ''--''] @ command)
    \<and> (str ''--unshare-net'' \<in> set (namespace_args options) \<longleftrightarrow> network_mode options \<noteq> FullAccess)"
proof -
  have net: "str ''--unshare-net'' \<in> set (namespace_args options) \<longleftrightarrow> network_mode options \<noteq> FullAccess"
  proof -
    have "str ''--unshare-net'' \<notin> {str ''--unshare-user'', str ''--unshare-pid'', str ''--proc'', str ''/proc''}"
      by code_simp
    then show ?thesis by (auto simp: namespace_args_def should_unshare_network_def)
  qed
  show ?thesis
  proof (cases "has_full_disk_write_access policy")
    case True
    with assms have "run = create_bwrap_flags_full_filesystem command options"
      by (auto simp: create_bwrap_command_args_def full_write_no_globs split: if_splits)
    then show ?thesis
      by (intro exI [of _ "[str ''--bind'', [slash], [slash]]"] exI [of _ "[str ''--''] @ command"])
        (simp add: create_bwrap_flags_full_filesystem_def net)
  next
    case False
    with assms(1) obtain mounts where
      run: "argv run = [str ''--new-session'', str ''--die-with-parent''] @ mounts
        @ namespace_args options
        @ (if path_eq (normalize_command_cwd_for_bwrap env command_cwd) command_cwd then []
           else [str ''--chdir'', normalize_command_cwd_for_bwrap env command_cwd]) @ [str ''--''] @ command"
      by (auto simp: create_bwrap_command_args_def create_bwrap_flags_def Let_def obind_iffs)
    then show ?thesis using net by blast
  qed
qed

section \<open>Examples\<close>

definition demo_files :: "ustr list" where
  "demo_files = [str ''/w/src/a'', str ''/w/.git/config'', str ''/w/secret/k'']"

definition host_of :: "ustr list \<Rightarrow> ustr list \<Rightarrow> host_env" where
  "host_of files links = plain_host\<lparr>path_exists := (\<lambda>p. list_ex (\<lambda>q. path_starts_with q p) files),
     symlink_metadata := (\<lambda>p. if list_ex (\<lambda>q. path_starts_with q p) files then Some (list_ex (path_eq p) links) else None),
     is_dir := (\<lambda>p. list_ex (\<lambda>q. path_starts_with q p \<and> \<not> path_eq q p) files)\<rparr>"

definition env_of :: "host_env \<Rightarrow> bwrap_env" where
  "env_of h = \<lparr>host = h, file_len = (\<lambda>_. 1), dir_is_empty = (\<lambda>_. False), lstat_not_found = (\<lambda>p. \<not> path_exists h p),
     dev_ino = (\<lambda>_. (0, 0)), null_fd = Some (str ''3''), run_ripgrep = (\<lambda>_. RgMissing), read_dir = (\<lambda>_. None),
     scan_glob_error = (\<lambda>_. None), scan_glob_set_error = (\<lambda>_. None), scan_glob_match = (\<lambda>_ _. False)\<rparr>"

definition mount_env :: bwrap_env where "mount_env = env_of (host_of demo_files [])"

definition mount_policy :: sandbox_policy where
  "mount_policy = restricted [entry_for (Special Root) Read, entry_for (PathEntry (str ''/w'')) Write,
     entry_for (PathEntry (str ''/w/secret'')) Deny]"

definition demo_args :: bwrap_args where
  "demo_args = \<lparr>bwrap_ops =
       [OpRoBind (str ''/''), OpDev (str ''/dev''), OpBind (str ''/w''), OpRoBind (str ''/w/.git''),
        OpPerms ''555'', OpTmpfs (str ''/w/.codex''), OpRemountRo (str ''/w/.codex''),
        OpPerms ''555'', OpTmpfs (str ''/w/.agents''), OpRemountRo (str ''/w/.agents''),
        OpPerms ''000'', OpTmpfs (str ''/w/secret''), OpRemountRo (str ''/w/secret'')],
     preserved_files = [],
     synthetic_mount_targets =
       [\<lparr>synthetic_path = str ''/w/.codex'', synthetic_kind = EmptyDirectory, pre_existing_path = None\<rparr>,
        \<lparr>synthetic_path = str ''/w/.agents'', synthetic_kind = EmptyDirectory, pre_existing_path = None\<rparr>],
     protected_create_targets = []\<rparr>"

lemma demo_args: "create_filesystem_args mount_env mount_policy (str ''/w'') None = Ok demo_args"
  by code_simp

lemma plain_fs_env_of: "plain_fs (env_of (host_of files []))"
  by (auto simp: plain_fs_def no_links_def env_of_def host_of_def plain_host_def list_ex_iff
      intro: path_starts_with_trans)

lemma normal_display: "list_all name_ok ns \<Longrightarrow> abs_display ns = p \<Longrightarrow> is_normal_abs p"
  by (auto simp: is_normal_abs_def)

lemma demo_normal: "is_normal_abs (str ''/w/src/a'')" "is_normal_abs (str ''/w'')" "is_normal_abs (str ''/w/secret'')"
proof -
  show "is_normal_abs (str ''/w/src/a'')" by (rule normal_display [of "[str ''w'', str ''src'', str ''a'']"]; code_simp)
  show "is_normal_abs (str ''/w'')" by (rule normal_display [of "[str ''w'']"]; code_simp)
  show "is_normal_abs (str ''/w/secret'')" by (rule normal_display [of "[str ''w'', str ''secret'']"]; code_simp)
qed

lemma demo_checked: "checked_policy (host mount_env) mount_policy (str ''/w'')"
proof -
  have "is_absolute (str ''/w'')" by code_simp
  then show ?thesis
    by (auto simp: checked_policy_def mount_policy_def restricted_def policy_ok_def entry_for_def demo_normal env_ok_def
        mount_env_def env_of_def host_of_def plain_host_def)
qed

theorem sandbox_writes_allowed_witness:
  "last_mount (bwrap_ops demo_args) (str ''/w/src/a'') = Some (OpBind (str ''/w''))
   \<and> can_write_path_with_cwd (host mount_env) mount_policy (str ''/w/src/a'') (str ''/w'')"
proof
  show m: "last_mount (bwrap_ops demo_args) (str ''/w/src/a'') = Some (OpBind (str ''/w''))" by code_simp
  have ex: "path_exists (host mount_env) (str ''/w/src/a'')" by code_simp
  have fs: "plain_fs mount_env" unfolding mount_env_def by (rule plain_fs_env_of)
  show "can_write_path_with_cwd (host mount_env) mount_policy (str ''/w/src/a'') (str ''/w'')"
    by (rule sandbox_writes_allowed [OF fs demo_checked demo_args demo_normal(1) ex m])
qed

theorem sandbox_reads_allowed_witness:
  "last_mount (bwrap_ops demo_args) (str ''/w/src/a'') = Some (OpBind (str ''/w''))
   \<and> (can_read_path_with_cwd (host mount_env) mount_policy (str ''/w/src/a'') (str ''/w'') \<or> platform_path mount_policy (str ''/w/src/a''))"
proof
  show m: "last_mount (bwrap_ops demo_args) (str ''/w/src/a'') = Some (OpBind (str ''/w''))" by code_simp
  have ex: "path_exists (host mount_env) (str ''/w/src/a'')" "subpaths_inside (host mount_env) mount_policy (str ''/w'')"
    by code_simp+
  have fs: "plain_fs mount_env" unfolding mount_env_def by (rule plain_fs_env_of)
  show "can_read_path_with_cwd (host mount_env) mount_policy (str ''/w/src/a'') (str ''/w'') \<or> platform_path mount_policy (str ''/w/src/a'')"
    by (rule sandbox_reads_allowed [OF fs demo_checked ex(2) demo_args demo_normal(1) ex(1) m]) simp
qed

definition cross_env :: bwrap_env where
  "cross_env = env_of (host_of [str ''/w/l''] [str ''/w/l''])"

definition cross_policy :: sandbox_policy where
  "cross_policy = restricted [entry_for (Special Root) Read, entry_for (PathEntry (str ''/w'')) Write,
     entry_for (PathEntry (str ''/w/l/k'')) Deny]"

text \<open>The writable root \<open>/t/l\<close> is a link to \<open>/t/r\<close>, and the denied \<open>/t/l/p\<close> is a link out of it.\<close>

definition escape_env :: bwrap_env where
  "escape_env = env_of ((host_of [str ''/t/l/p'', str ''/t/r/p'', str ''/t/o''] [str ''/t/l'', str ''/t/l/p'', str ''/t/r/p''])
     \<lparr>canonicalize := (\<lambda>p. Some (if path_eq p (str ''/t/l'') then str ''/t/r'' else if path_eq p (str ''/t/l/p'') \<or> path_eq p (str ''/t/r/p'') then str ''/t/o'' else p))\<rparr>)"

definition escape_policy :: sandbox_policy where
  "escape_policy = restricted [entry_for (PathEntry (str ''/t/l'')) Write, entry_for (PathEntry (str ''/t/l/p'')) Deny]"

theorem writable_symlink_fails_closed_witness:
  "(\<nexists>b. create_filesystem_args cross_env cross_policy (str ''/w'') None = Ok b)
   \<and> (\<nexists>b. create_filesystem_args escape_env escape_policy (str ''/t'') None = Ok b)
   \<and> create_filesystem_args escape_env escape_policy (str ''/t'') None =
       Err (BwrapFatal (str ''cannot enforce sandbox deny-read path /t/r/p because it crosses writable symlink /t/r/p''))"
proof -
  have "all_unreadable_roots cross_env cross_policy (str ''/w'') None = Ok [str ''/w/l/k'']"
    "str ''/w/l/k'' \<in> set [str ''/w/l/k'']"
    "str ''/w/l/k'' \<in> set (hidden_at cross_env (existing_writable_roots cross_env cross_policy (str ''/w'')) (str ''/w/l/k''))"
    "first_writable_symlink_component_in_path cross_env (str ''/w/l/k'')
      (allowed_write_paths_of cross_env (existing_writable_roots cross_env cross_policy (str ''/w''))) = Some (str ''/w/l'')"
    by code_simp+
  note plain = writable_symlink_fails_closed [OF this]
  have "all_unreadable_roots escape_env escape_policy (str ''/t'') None = Ok [str ''/t/l/p'']"
    "str ''/t/l/p'' \<in> set [str ''/t/l/p'']"
    "str ''/t/r/p'' \<in> set (hidden_at escape_env (existing_writable_roots escape_env escape_policy (str ''/t'')) (str ''/t/l/p''))"
    "first_writable_symlink_component_in_path escape_env (str ''/t/r/p'')
      (allowed_write_paths_of escape_env (existing_writable_roots escape_env escape_policy (str ''/t''))) = Some (str ''/t/r/p'')"
    by code_simp+
  note linked = writable_symlink_fails_closed [OF this]
  have "create_filesystem_args escape_env escape_policy (str ''/t'') None =
       Err (BwrapFatal (str ''cannot enforce sandbox deny-read path /t/r/p because it crosses writable symlink /t/r/p''))"
    by code_simp
  with plain linked show ?thesis by blast
qed

text \<open>
  A writable root that is a symbolic link is bound at its target. A denied path spelled with the target is then neither
  nested in the root, nor above a root, nor free of roots: no mask is made for it, and it is bound writable.
\<close>

definition link_env :: bwrap_env where
  "link_env = env_of ((host_of [str ''/w/link'', str ''/data/secret''] [str ''/w/link''])
     \<lparr>canonicalize := (\<lambda>p. Some (if path_eq p (str ''/w/link'') then str ''/data'' else p))\<rparr>)"

definition link_policy :: sandbox_policy where
  "link_policy = restricted [entry_for (Special Root) Read, entry_for (PathEntry (str ''/w/link'')) Write,
     entry_for (PathEntry (str ''/data/secret'')) Deny]"

fun mount_over :: "(bwrap_args, bwrap_error) outcome \<Rightarrow> ustr \<Rightarrow> bwrap_op option" where
  "mount_over (Ok b) p = last_mount (bwrap_ops b) p"
| "mount_over _ p = None"

lemma symlinked_root_shows_denied:
  "mount_over (create_filesystem_args link_env link_policy (str ''/w'') None) (str ''/data/secret'') = Some (OpBind (str ''/data''))
   \<and> path_exists (host link_env) (str ''/data/secret'')
   \<and> \<not> can_read_path_with_cwd (host link_env) link_policy (str ''/data/secret'') (str ''/w'')"
  by code_simp

text \<open>
  Missing repository metadata of the working directory is left to the protection of writable roots, which looks at
  the metadata of the roots only: below a root that is not the working directory itself it stays writable.
\<close>

definition auto_policy :: sandbox_policy where
  "auto_policy = restricted [entry_for (Special Root) Read, entry_for (PathEntry (str ''/w'')) Write,
     entry_for (Special (ProjectRoots (Some (str ''.git'')))) Read]"

lemma missing_metadata_left_writable:
  "mount_over (create_filesystem_args mount_env auto_policy (str ''/w/src'') None) (str ''/w/src/.git'') = Some (OpBind (str ''/w''))
   \<and> \<not> can_write_path_with_cwd (host mount_env) auto_policy (str ''/w/src/.git'') (str ''/w/src'')"
  by code_simp

end
