(* ===== verification/Truncation.thy ===== *)
theory Truncation
  imports Prelude
begin

text \<open>
  Truncation of tool output (\<open>codex-rs/utils/string/src/truncate.rs\<close>, \<open>codex-rs/utils/output-truncation\<close>, and
  \<open>TruncationPolicy\<close> of \<open>codex-rs/protocol/src/protocol.rs\<close>). A budget counts bytes of the UTF-8 encoding, so a string has a byte
  length here, and a slice at a byte offset panics unless the offset is a character boundary. The results: the middle is
  cut out at character boundaries within the budget and the marker tells how much is missing, and items that are not text pass
  unchanged.
\<close>

section \<open>Bytes of a string\<close>

definition utf8_len :: "uchar \<Rightarrow> nat" where
  "utf8_len c = (if c < 128 then 1 else if c < 2048 then 2 else if c < 65536 then 3 else 4)"

definition byte_len :: "ustr \<Rightarrow> nat" where
  "byte_len s = sum_list (map utf8_len s)"

text \<open>\<open>s[..n]\<close> and \<open>s[n..]\<close>.\<close>

fun byte_split :: "nat \<Rightarrow> ustr \<Rightarrow> (ustr \<times> ustr) option" where
  "byte_split n [] = (if n = 0 then Some ([], []) else None)"
| "byte_split n (c # cs) =
     (if n = 0 then Some ([], c # cs)
      else if utf8_len c \<le> n then map_option (\<lambda>(a, b). (c # a, b)) (byte_split (n - utf8_len c) cs) else None)"

definition str_to :: "nat \<Rightarrow> ustr \<Rightarrow> (ustr, unit) outcome" where
  "str_to n s = (case byte_split n s of Some (a, _) \<Rightarrow> Ok a | None \<Rightarrow> Panic)"

definition str_from :: "nat \<Rightarrow> ustr \<Rightarrow> (ustr, unit) outcome" where
  "str_from n s = (case byte_split n s of Some (_, b) \<Rightarrow> Ok b | None \<Rightarrow> Panic)"

definition saturating_mul :: "nat \<Rightarrow> nat \<Rightarrow> nat" where
  "saturating_mul a b = min (a * b) usize_max"

section \<open>Cutting out the middle\<close>

definition APPROX_BYTES_PER_TOKEN :: nat where "APPROX_BYTES_PER_TOKEN = 4"

definition approx_token_count :: "ustr \<Rightarrow> nat" where
  "approx_token_count text = saturating_add (byte_len text) (APPROX_BYTES_PER_TOKEN - 1) div APPROX_BYTES_PER_TOKEN"

definition approx_bytes_for_tokens :: "nat \<Rightarrow> nat" where
  "approx_bytes_for_tokens tokens = saturating_mul tokens APPROX_BYTES_PER_TOKEN"

definition approx_tokens_from_byte_count :: "nat \<Rightarrow> nat" where
  "approx_tokens_from_byte_count bytes = saturating_add bytes (APPROX_BYTES_PER_TOKEN - 1) div APPROX_BYTES_PER_TOKEN"

definition split_budget :: "nat \<Rightarrow> nat \<times> nat" where
  "split_budget budget = (budget div 2, budget - budget div 2)"

text \<open>The loop over \<open>char_indices\<close>: end of the prefix, start of the suffix, removed characters, whether the suffix has begun.\<close>

fun split_loop :: "nat \<Rightarrow> nat \<Rightarrow> nat \<Rightarrow> nat \<times> nat \<times> nat \<times> bool \<Rightarrow> ustr \<Rightarrow> nat \<times> nat \<times> nat" where
  "split_loop beginning_bytes tail_start_target idx (prefix_end, suffix_start, removed_chars, suffix_started) [] =
     (prefix_end, suffix_start, removed_chars)"
| "split_loop beginning_bytes tail_start_target idx (prefix_end, suffix_start, removed_chars, suffix_started) (ch # chars) =
     (let char_end = idx + utf8_len ch in
      split_loop beginning_bytes tail_start_target char_end
        (if char_end \<le> beginning_bytes then (char_end, suffix_start, removed_chars, suffix_started)
         else if tail_start_target \<le> idx
         then (prefix_end, if suffix_started then suffix_start else idx, removed_chars, True)
         else (prefix_end, suffix_start, saturating_add removed_chars 1, suffix_started)) chars)"

definition split_string :: "ustr \<Rightarrow> nat \<Rightarrow> nat \<Rightarrow> (nat \<times> ustr \<times> ustr, unit) outcome" where
  "split_string s beginning_bytes end_bytes =
     (if s = [] then Ok (0, [], [])
      else (case split_loop beginning_bytes (byte_len s - end_bytes) 0 (0, byte_len s, 0, False) s of
              (prefix_end, suffix_start, removed_chars) \<Rightarrow>
                let suffix_start = max suffix_start prefix_end in
                obind (str_to prefix_end s) (\<lambda>before.
                obind (str_from suffix_start s) (\<lambda>after.
                  Ok (removed_chars, before, after)))))"

definition format_truncation_marker :: "bool \<Rightarrow> nat \<Rightarrow> ustr" where
  "format_truncation_marker use_tokens removed_count =
     [8230] @ show_nat removed_count @ str (if use_tokens then '' tokens truncated'' else '' chars truncated'') @ [8230]"

definition removed_units :: "bool \<Rightarrow> nat \<Rightarrow> nat \<Rightarrow> nat" where
  "removed_units use_tokens removed_bytes removed_chars =
     (if use_tokens then approx_tokens_from_byte_count removed_bytes else removed_chars)"

definition assemble_truncated_output :: "ustr \<Rightarrow> ustr \<Rightarrow> ustr \<Rightarrow> ustr" where
  "assemble_truncated_output prefix suffix marker = prefix @ marker @ suffix"

definition truncate_with_byte_estimate :: "ustr \<Rightarrow> nat \<Rightarrow> bool \<Rightarrow> (ustr, unit) outcome" where
  "truncate_with_byte_estimate s max_bytes use_tokens =
     (if s = [] then Ok []
      else if max_bytes = 0
      then Ok (format_truncation_marker use_tokens (removed_units use_tokens (byte_len s) (length s)))
      else if byte_len s \<le> max_bytes then Ok s
      else (case split_budget max_bytes of (left_budget, right_budget) \<Rightarrow>
        obind (split_string s left_budget right_budget) (\<lambda>(removed_chars, left, right).
          Ok (assemble_truncated_output left right
                (format_truncation_marker use_tokens
                  (removed_units use_tokens (byte_len s - max_bytes) removed_chars))))))"

definition truncate_middle_chars :: "ustr \<Rightarrow> nat \<Rightarrow> (ustr, unit) outcome" where
  "truncate_middle_chars s max_bytes = truncate_with_byte_estimate s max_bytes False"

definition truncate_middle_with_token_budget :: "ustr \<Rightarrow> nat \<Rightarrow> (ustr \<times> nat option, unit) outcome" where
  "truncate_middle_with_token_budget s max_tokens =
     (if s = [] then Ok ([], None)
      else if 0 < max_tokens \<and> byte_len s \<le> approx_bytes_for_tokens max_tokens then Ok (s, None)
      else obind (truncate_with_byte_estimate s (approx_bytes_for_tokens max_tokens) True) (\<lambda>truncated.
        Ok (truncated, if truncated = s then None else Some (approx_token_count s))))"

section \<open>Policies\<close>

datatype truncation_policy = Bytes nat | Tokens nat

fun token_budget :: "truncation_policy \<Rightarrow> nat" where
  "token_budget (Bytes bytes) = approx_tokens_from_byte_count bytes"
| "token_budget (Tokens tokens) = tokens"

fun byte_budget :: "truncation_policy \<Rightarrow> nat" where
  "byte_budget (Bytes bytes) = bytes"
| "byte_budget (Tokens tokens) = approx_bytes_for_tokens tokens"

text \<open>
  \<open>n as f64 * 1.2\<close>, rounded up: a 64-bit float has 53 bits, ties go to the even neighbour, and the literal 1.2 is
  5404319552844595 divided by two to the 52.
\<close>

fun bit_len :: "nat \<Rightarrow> nat" where
  "bit_len n = (if n = 0 then 0 else Suc (bit_len (n div 2)))"

declare bit_len.simps [simp del]

definition f64_round :: "nat \<Rightarrow> nat" where
  "f64_round a =
     (let s = bit_len a - 53; q = a div 2 ^ s; r = a mod 2 ^ s in
      (if 2 ^ s < 2 * r \<or> (2 * r = 2 ^ s \<and> odd q) then q + 1 else q) * 2 ^ s)"

definition mul_1_2 :: "nat \<Rightarrow> nat" where
  "mul_1_2 n = min usize_max ((f64_round (f64_round n * 5404319552844595) + (2 ^ 52 - 1)) div 2 ^ 52)"

fun policy_with_serialization_budget :: "truncation_policy \<Rightarrow> truncation_policy" where
  "policy_with_serialization_budget (Bytes bytes) = Bytes (mul_1_2 bytes)"
| "policy_with_serialization_budget (Tokens tokens) = Tokens (mul_1_2 tokens)"

fun truncate_text :: "ustr \<Rightarrow> truncation_policy \<Rightarrow> (ustr, unit) outcome" where
  "truncate_text content (Bytes bytes) = truncate_middle_chars content bytes"
| "truncate_text content (Tokens tokens) = obind (truncate_middle_with_token_budget content tokens) (\<lambda>(s, _). Ok s)"

definition formatted_truncate_text :: "ustr \<Rightarrow> truncation_policy \<Rightarrow> (ustr, unit) outcome" where
  "formatted_truncate_text content policy =
     (if byte_len content \<le> byte_budget policy then Ok content
      else obind (truncate_text content policy) (\<lambda>result.
        Ok (str ''Total output lines: '' @ show_nat (length (lines content)) @ [newline, newline] @ result)))"

section \<open>Structured output\<close>

datatype image_detail = DetailAuto | DetailLow | DetailHigh | DetailOriginal

datatype output_content_item =
    OutInputText ustr
  | OutInputImage ustr "image_detail option"
  | OutEncryptedContent ustr

fun item_text :: "output_content_item \<Rightarrow> ustr option" where
  "item_text (OutInputText text) = Some text"
| "item_text _ = None"

definition combine_text :: "ustr list \<Rightarrow> ustr" where
  "combine_text texts = foldl (\<lambda>combined text. (if combined = [] then [] else combined @ [newline]) @ text) [] texts"

definition formatted_truncate_text_content_items_with_policy ::
  "output_content_item list \<Rightarrow> truncation_policy \<Rightarrow> (output_content_item list \<times> nat option, unit) outcome" where
  "formatted_truncate_text_content_items_with_policy items policy =
     (let text_segments = List.map_filter item_text items in
      if text_segments = [] then Ok (items, None)
      else let combined = combine_text text_segments in
        if byte_len combined \<le> byte_budget policy then Ok (items, None)
        else obind (formatted_truncate_text combined policy) (\<lambda>text.
          Ok (OutInputText text # filter (\<lambda>i. item_text i = None) items, Some (approx_token_count combined))))"

fun text_cost :: "truncation_policy \<Rightarrow> ustr \<Rightarrow> nat" where
  "text_cost (Bytes _) text = byte_len text"
| "text_cost (Tokens _) text = approx_token_count text"

fun with_budget :: "truncation_policy \<Rightarrow> nat \<Rightarrow> truncation_policy" where
  "with_budget (Bytes _) n = Bytes n"
| "with_budget (Tokens _) n = Tokens n"

fun policy_budget :: "truncation_policy \<Rightarrow> nat" where
  "policy_budget (Bytes n) = byte_budget (Bytes n)"
| "policy_budget (Tokens n) = token_budget (Tokens n)"

text \<open>The loop over the items: the remaining budget, the number of omitted texts, the items kept.\<close>

fun truncate_items_loop ::
  "truncation_policy \<Rightarrow> nat \<Rightarrow> nat \<Rightarrow> output_content_item list \<Rightarrow> output_content_item list \<Rightarrow>
   (output_content_item list \<times> nat, unit) outcome" where
  "truncate_items_loop policy remaining omitted out [] = Ok (out, omitted)"
| "truncate_items_loop policy remaining omitted out (OutInputText text # items) =
     (if remaining = 0 then truncate_items_loop policy remaining (omitted + 1) out items
      else if text_cost policy text \<le> remaining
      then truncate_items_loop policy (remaining - text_cost policy text) omitted (out @ [OutInputText text]) items
      else obind (truncate_text text (with_budget policy remaining)) (\<lambda>snippet.
        if snippet = [] then truncate_items_loop policy 0 (omitted + 1) out items
        else truncate_items_loop policy 0 omitted (out @ [OutInputText snippet]) items))"
| "truncate_items_loop policy remaining omitted out (i # items) =
     truncate_items_loop policy remaining omitted (out @ [i]) items"

definition omitted_notice :: "nat \<Rightarrow> ustr" where
  "omitted_notice n = str ''[omitted '' @ show_nat n @ str '' text items ...]''"

definition truncate_function_output_items_with_policy ::
  "output_content_item list \<Rightarrow> truncation_policy \<Rightarrow> (output_content_item list, unit) outcome" where
  "truncate_function_output_items_with_policy items policy =
     obind (truncate_items_loop policy (policy_budget policy) 0 [] items) (\<lambda>(out, omitted).
       Ok (if 0 < omitted then out @ [OutInputText (omitted_notice omitted)] else out))"

datatype function_call_output_body = BodyText ustr | ContentItems "output_content_item list"

record function_call_output_payload =
  fo_body :: function_call_output_body
  fo_success :: "bool option"

fun truncate_body :: "function_call_output_body \<Rightarrow> truncation_policy \<Rightarrow> (function_call_output_body, unit) outcome" where
  "truncate_body (BodyText content) policy = obind (truncate_text content policy) (\<lambda>text. Ok (BodyText text))"
| "truncate_body (ContentItems items) policy =
     obind (truncate_function_output_items_with_policy items policy) (\<lambda>kept. Ok (ContentItems kept))"

definition truncate_function_output_payload ::
  "function_call_output_payload \<Rightarrow> truncation_policy \<Rightarrow> (function_call_output_payload, unit) outcome" where
  "truncate_function_output_payload payload policy =
     obind (truncate_body (fo_body payload) policy) (\<lambda>body. Ok \<lparr>fo_body = body, fo_success = fo_success payload\<rparr>)"

section \<open>The cut\<close>

lemma utf8_len_pos [simp]: "0 < utf8_len c"
  by (simp add: utf8_len_def)

lemma byte_len_simps [simp]: "byte_len [] = 0" "byte_len (c # s) = utf8_len c + byte_len s"
  "byte_len (s @ t) = byte_len s + byte_len t"
  by (simp_all add: byte_len_def)

lemma byte_len_0 [simp]: "byte_len s = 0 \<longleftrightarrow> s = []"
  by (cases s) (use utf8_len_pos in \<open>auto simp: gr0_conv_Suc\<close>)

lemma length_le_byte_len: "length s \<le> byte_len s"
proof (induction s)
  case (Cons c s)
  moreover have "1 \<le> utf8_len c" by (simp add: Suc_le_eq)
  ultimately show ?case by simp
qed simp

lemma byte_split_0 [simp]: "byte_split 0 s = Some ([], s)"
  by (cases s) simp_all

lemma byte_split_append: "byte_split (byte_len a) (a @ b) = Some (a, b)"
proof (induction a)
  case (Cons c a)
  obtain k where "utf8_len c = Suc k" using utf8_len_pos [of c] by (auto simp: gr0_conv_Suc)
  with Cons show ?case by simp
qed simp

text \<open>How many characters fit in \<open>n\<close> bytes, and how many begin before offset \<open>t\<close>.\<close>

fun head_fit :: "nat \<Rightarrow> ustr \<Rightarrow> nat" where
  "head_fit n [] = 0"
| "head_fit n (c # cs) = (if utf8_len c \<le> n then Suc (head_fit (n - utf8_len c) cs) else 0)"

fun begins_before :: "nat \<Rightarrow> ustr \<Rightarrow> nat" where
  "begins_before t [] = 0"
| "begins_before t (c # cs) = (if t = 0 then 0 else Suc (begins_before (t - utf8_len c) cs))"

lemma head_fit_bytes: "byte_len (take (head_fit n s) s) \<le> n"
  by (induction n s rule: head_fit.induct) auto

lemma head_fit_next: "drop (head_fit n s) s = c # cs \<Longrightarrow> n < byte_len (take (head_fit n s) s) + utf8_len c"
  by (induction n s rule: head_fit.induct) (auto split: if_splits)

lemma begins_before_bytes: "drop (begins_before t s) s \<noteq> [] \<Longrightarrow> t \<le> byte_len (take (begins_before t s) s)"
  by (induction t s rule: begins_before.induct) auto

lemma begins_before_pos: "0 < t \<Longrightarrow> s \<noteq> [] \<Longrightarrow> 0 < begins_before t s"
  by (cases s) auto

lemma begins_before_le: "begins_before t s \<le> length s"
  by (induction t s rule: begins_before.induct) auto

lemma split_loop_prefix:
  "idx \<le> b \<Longrightarrow> split_loop b t idx (idx, ss, rc, False) s =
   split_loop b t (idx + byte_len (take (head_fit (b - idx) s) s))
     (idx + byte_len (take (head_fit (b - idx) s) s), ss, rc, False) (drop (head_fit (b - idx) s) s)"
proof (induction s arbitrary: idx)
  case (Cons c s)
  show ?case
  proof (cases "idx + utf8_len c \<le> b")
    case True
    with Cons.IH [OF True] Cons.prems show ?thesis by (simp add: Let_def add.assoc)
  next
    case False
    with Cons.prems have "\<not> utf8_len c \<le> b - idx" by simp
    then show ?thesis by simp
  qed
qed simp

lemma split_loop_suffix:
  "t \<le> idx \<Longrightarrow> (s \<noteq> [] \<Longrightarrow> b < idx + utf8_len (hd s)) \<Longrightarrow> split_loop b t idx (pe, ss, rc, True) s = (pe, ss, rc)"
proof (induction s arbitrary: idx)
  case (Cons c s)
  then have "\<not> idx + utf8_len c \<le> b" by simp
  with Cons show ?case by (simp add: Let_def)
qed simp

lemma split_loop_middle:
  assumes "s \<noteq> [] \<Longrightarrow> b < idx + utf8_len (hd s)" "rc + length s \<le> usize_max"
  shows "split_loop b t idx (pe, idx + byte_len s, rc, False) s =
    (pe, idx + byte_len (take (begins_before (t - idx) s) s), rc + begins_before (t - idx) s)"
  using assms
proof (induction s arbitrary: idx rc)
  case (Cons c s)
  then have b: "\<not> idx + utf8_len c \<le> b" by simp
  show ?case
  proof (cases "t \<le> idx")
    case True
    with b split_loop_suffix [of t "idx + utf8_len c" s b pe idx rc] show ?thesis by (simp add: Let_def)
  next
    case False
    with b Cons.prems Cons.IH [of "idx + utf8_len c" "Suc rc"] show ?thesis
      by (simp add: Let_def saturating_add_def add.assoc)
  qed
qed simp

lemma split_string_ok:
  assumes "b + e < byte_len s" "byte_len s \<le> usize_max"
  obtains pre mid suf where "s = pre @ mid @ suf" "mid \<noteq> []" "byte_len pre \<le> b" "byte_len suf \<le> e"
    "b < byte_len pre + utf8_len (hd mid)" "split_string s b e = Ok (length mid, pre, suf)"
proof -
  let ?t = "byte_len s - e"
  define k where "k = head_fit b s"
  define rest where "rest = drop k s"
  define m where "m = begins_before (?t - byte_len (take k s)) rest"
  have pre: "byte_len (take k s) \<le> b" using head_fit_bytes by (simp add: k_def)
  have s: "s = take k s @ take m rest @ drop m rest" by (metis append_take_drop_id rest_def)
  have rest: "rest \<noteq> []" using s pre assms(1) by auto
  have nxt: "b < byte_len (take k s) + utf8_len (hd rest)"
    using head_fit_next [of b s "hd rest" "tl rest"] rest by (simp add: k_def rest_def)
  have m0: "0 < m" using begins_before_pos rest pre assms(1) by (simp add: m_def)
  have lens: "byte_len s = byte_len (take k s) + byte_len rest" by (metis append_take_drop_id byte_len_simps(3) rest_def)
  have "split_loop b ?t 0 (0, byte_len s, 0, False) s =
      split_loop b ?t (byte_len (take k s)) (byte_len (take k s), byte_len s, 0, False) rest"
    using split_loop_prefix [of 0 b ?t "byte_len s" 0 s] by (simp add: k_def rest_def)
  also have "\<dots> = (byte_len (take k s), byte_len (take k s) + byte_len (take m rest), m)"
    using split_loop_middle [of rest b "byte_len (take k s)" 0 ?t "byte_len (take k s)"] nxt
      length_le_byte_len [of rest] lens assms(2) by (simp add: m_def)
  finally have loop: "split_loop b ?t 0 (0, byte_len s, 0, False) s =
      (byte_len (take k s), byte_len (take k s) + byte_len (take m rest), m)" .
  have len: "length (take m rest) = m" using begins_before_le by (simp add: m_def)
  have "byte_split (byte_len (take k s)) s = Some (take k s, rest)"
    using byte_split_append [of "take k s" rest] by (simp add: rest_def)
  moreover have "byte_split (byte_len (take k s) + byte_len (take m rest)) s = Some (take k s @ take m rest, drop m rest)"
    using byte_split_append [of "take k s @ take m rest" "drop m rest"] s by (metis append.assoc byte_len_simps(3))
  ultimately have "split_string s b e = Ok (length (take m rest), take k s, drop m rest)"
    using rest len by (auto simp: split_string_def loop str_to_def str_from_def rest_def)
  moreover have "byte_len (drop m rest) \<le> e"
  proof (cases "drop m rest = []")
    case False
    from begins_before_bytes [OF this [unfolded m_def]] have "?t - byte_len (take k s) \<le> byte_len (take m rest)"
      by (simp add: m_def)
    moreover have "byte_len rest = byte_len (take m rest) + byte_len (drop m rest)"
      by (metis append_take_drop_id byte_len_simps(3))
    ultimately show ?thesis using lens by simp
  qed simp
  moreover have "take m rest \<noteq> []" "hd (take m rest) = hd rest" using m0 rest by (simp_all add: hd_take)
  ultimately show ?thesis using that [OF s] pre nxt by simp
qed

lemma truncate_cases:
  assumes "byte_len s \<le> usize_max"
  shows "if byte_len s \<le> max_bytes then truncate_with_byte_estimate s max_bytes use_tokens = Ok s
    else \<exists>pre mid suf. s = pre @ mid @ suf \<and> mid \<noteq> [] \<and> byte_len pre + byte_len suf \<le> max_bytes
      \<and> truncate_with_byte_estimate s max_bytes use_tokens =
          Ok (pre @ format_truncation_marker use_tokens
            (if use_tokens then approx_tokens_from_byte_count (byte_len s - max_bytes) else length mid) @ suf)"
proof (cases "byte_len s \<le> max_bytes")
  case True
  then show ?thesis by (auto simp: truncate_with_byte_estimate_def)
next
  case False
  show ?thesis
  proof (cases "max_bytes = 0")
    case True
    with False show ?thesis
      by (auto simp: truncate_with_byte_estimate_def removed_units_def intro!: exI [of _ "[]"] exI [of _ s])
  next
    case pos: False
    have "max_bytes div 2 + (max_bytes - max_bytes div 2) < byte_len s" using False by simp
    from split_string_ok [OF this assms] obtain pre mid suf where
      split: "s = pre @ mid @ suf" "mid \<noteq> []" "byte_len pre \<le> max_bytes div 2"
        "byte_len suf \<le> max_bytes - max_bytes div 2"
      and eq: "split_string s (max_bytes div 2) (max_bytes - max_bytes div 2) = Ok (length mid, pre, suf)" .
    have "s \<noteq> []" using split(1,2) by simp
    then have "truncate_with_byte_estimate s max_bytes use_tokens =
        Ok (pre @ format_truncation_marker use_tokens
          (if use_tokens then approx_tokens_from_byte_count (byte_len s - max_bytes) else length mid) @ suf)"
      using False pos by (simp add: truncate_with_byte_estimate_def split_budget_def removed_units_def eq
          assemble_truncated_output_def)
    moreover have "byte_len pre + byte_len suf \<le> max_bytes" using split(3,4) by simp
    ultimately show ?thesis using False split(1,2) by auto
  qed
qed

text \<open>
  C25: a text within its budget passes unchanged. Otherwise a non-empty middle is cut out at character boundaries, what
  remains fits in the budget, and the marker in its place counts the missing characters, or estimates the missing tokens.
\<close>

theorem truncation_cuts_middle:
  assumes "byte_len s \<le> usize_max"
  shows "if byte_len s \<le> max_bytes then truncate_with_byte_estimate s max_bytes use_tokens = Ok s
    else \<exists>pre mid suf. s = pre @ mid @ suf \<and> mid \<noteq> [] \<and> byte_len pre + byte_len suf \<le> max_bytes
      \<and> truncate_with_byte_estimate s max_bytes use_tokens =
          Ok (pre @ format_truncation_marker use_tokens
            (if use_tokens then approx_tokens_from_byte_count (byte_len s - max_bytes) else length mid) @ suf)"
  using assms by (rule truncate_cases)

theorem truncation_cuts_middle_witness:
  "let s = [8364, 97, 98, 8364, 99] in \<exists>pre mid suf. s = pre @ mid @ suf \<and> mid \<noteq> [] \<and> byte_len pre + byte_len suf \<le> 5
      \<and> truncate_with_byte_estimate s 5 False = Ok (pre @ format_truncation_marker False (length mid) @ suf)"
proof -
  have "byte_len [8364, 97, 98, 8364, 99] = 9" by (simp add: utf8_len_def)
  then have "byte_len [8364, 97, 98, 8364, 99] \<le> usize_max" "\<not> byte_len [8364, 97, 98, 8364, 99] \<le> 5"
    by (simp_all add: usize_max_def)
  with truncation_cuts_middle [OF this(1), of 5 False] show ?thesis unfolding Let_def by (simp only: if_False)
qed

text \<open>The marker is not counted in the budget, so a text that is cut can come out longer than it was.\<close>

lemma truncated_text_longer:
  "truncate_middle_chars (str ''abc'') 2 = Ok (str ''a'' @ format_truncation_marker False 1 @ str ''c'')"
  "byte_len (str ''abc'') < byte_len (str ''a'' @ format_truncation_marker False 1 @ str ''c'')"
  by code_simp+

section \<open>The budget for serialised output\<close>

lemma bit_len_bounds: "0 < a \<Longrightarrow> 2 ^ (bit_len a - 1) \<le> a \<and> a < 2 ^ bit_len a"
proof (induction a rule: bit_len.induct)
  case (1 a)
  show ?case
  proof (cases "a div 2 = 0")
    case True
    with 1 have "a = 1" by simp
    then show ?thesis by (simp add: bit_len.simps)
  next
    case False
    with 1 have ih: "2 ^ (bit_len (a div 2) - 1) \<le> a div 2" "a div 2 < 2 ^ bit_len (a div 2)" by auto
    have "0 < bit_len (a div 2)" using False by (subst bit_len.simps) simp
    then have "(2::nat) ^ bit_len (a div 2) = 2 * 2 ^ (bit_len (a div 2) - 1)" by (simp flip: power_Suc)
    moreover have "bit_len a = Suc (bit_len (a div 2))" using 1 by (subst bit_len.simps) simp
    ultimately show ?thesis using ih by simp linarith
  qed
qed

lemma f64_round_exact: "a < 2 ^ 53 \<Longrightarrow> f64_round a = a"
proof -
  assume a: "a < 2 ^ 53"
  have "bit_len a \<le> 53"
  proof (cases "a = 0")
    case False
    then have "(2::nat) ^ (bit_len a - 1) < 2 ^ 53" using bit_len_bounds [of a] a by linarith
    then have "bit_len a - 1 < 53" by (rule power_less_imp_less_exp [rotated]) simp
    then show ?thesis by simp
  qed (simp add: bit_len.simps)
  then show ?thesis by (simp add: f64_round_def)
qed

lemma f64_round_lower: "a \<le> f64_round a + a div 2 ^ 52"
proof (cases "bit_len a \<le> 53")
  case True
  then show ?thesis by (simp add: f64_round_def)
next
  case False
  define s where "s = bit_len a - 53"
  have "0 < a" using False by (cases "a = 0") (simp_all add: bit_len.simps)
  then have "2 ^ (bit_len a - 1) \<le> a" using bit_len_bounds by blast
  moreover have "bit_len a - 1 = s + 52" using False by (simp add: s_def)
  ultimately have "2 ^ s * 2 ^ 52 \<le> a" by (simp only: power_add)
  then have "2 ^ s \<le> a div 2 ^ 52" using div_le_mono [of "2 ^ s * 2 ^ 52" a "2 ^ 52"] by simp
  moreover have "a div 2 ^ s * 2 ^ s \<le> f64_round a" by (simp add: f64_round_def s_def Let_def)
  moreover have "a < a div 2 ^ s * 2 ^ s + 2 ^ s"
  proof -
    have "a mod 2 ^ s < 2 ^ s" by simp
    with div_mult_mod_eq [of a "2 ^ s"] show ?thesis by linarith
  qed
  ultimately show ?thesis by linarith
qed

text \<open>Below two to the 53 the multiplication by 1.2 never lowers a budget, and it gives the expected values.\<close>

lemma mul_1_2_widens: "n < 2 ^ 53 \<Longrightarrow> n \<le> mul_1_2 n"
proof -
  assume n: "n < 2 ^ 53"
  define a where "a = n * 5404319552844595"
  have "a \<le> f64_round a + a div 2 ^ 52" by (rule f64_round_lower)
  moreover have "a div 2 ^ 52 \<le> 2 * n" by (simp add: a_def)
  ultimately have "n * 2 ^ 52 \<le> f64_round a + (2 ^ 52 - 1)" by (simp add: a_def)
  then have "n \<le> (f64_round a + (2 ^ 52 - 1)) div 2 ^ 52" by (simp add: less_eq_div_iff_mult_less_eq)
  moreover have "n \<le> usize_max" using n by (simp add: usize_max_def)
  ultimately show ?thesis using n by (simp add: mul_1_2_def f64_round_exact a_def)
qed

lemma mul_1_2_values: "mul_1_2 0 = 0" "mul_1_2 1 = 2" "mul_1_2 5 = 6" "mul_1_2 10000 = 12000"
  by code_simp+

section \<open>Structured output keeps what is not text\<close>

lemma truncate_text_ok:
  assumes "byte_len s \<le> usize_max"
  shows "\<exists>t. truncate_text s policy = Ok t"
proof -
  have ok: "\<exists>t. truncate_with_byte_estimate s n u = Ok t" for n u
    using truncate_cases [OF assms, of n u] by (auto split: if_splits)
  show ?thesis
  proof (cases policy)
    case (Bytes n)
    with ok [of n False] show ?thesis by (simp add: truncate_middle_chars_def)
  next
    case (Tokens n)
    with ok [of "approx_bytes_for_tokens n" True] show ?thesis by (auto simp: truncate_middle_with_token_budget_def)
  qed
qed

abbreviation texts_of :: "output_content_item list \<Rightarrow> ustr list" where
  "texts_of \<equiv> List.map_filter item_text"

abbreviation other_items :: "output_content_item list \<Rightarrow> output_content_item list" where
  "other_items \<equiv> filter (\<lambda>i. item_text i = None)"

lemma exhausted_loop:
  "truncate_items_loop policy 0 omitted out items = Ok (out @ other_items items, omitted + length (texts_of items))"
proof (induction items arbitrary: omitted out)
  case (Cons i items)
  then show ?case by (cases i) (simp_all add: List.map_filter_simps)
qed (simp add: List.map_filter_simps)

lemma truncated_text_nonempty:
  assumes "truncate_text t policy = Ok s" "t \<noteq> []"
  shows "s \<noteq> []"
proof -
  have "truncate_with_byte_estimate t n use_tokens = Ok r \<Longrightarrow> r \<noteq> []" for n use_tokens r
    using assms(2)
    by (cases "split_string t (fst (split_budget n)) (snd (split_budget n))")
      (auto simp: truncate_with_byte_estimate_def format_truncation_marker_def assemble_truncated_output_def
        split: if_splits prod.splits)
  with assms show ?thesis
    by (cases policy; cases "truncate_with_byte_estimate t (approx_bytes_for_tokens (policy_budget policy)) True")
      (auto simp: truncate_middle_chars_def truncate_middle_with_token_budget_def split: if_splits)
qed

text \<open>
  What became of the texts of \<open>items\<close>: the first \<open>k\<close> are kept whole, each of them while some of the budget is left. If
  there are more, either the budget is used up, or the next one costs more than what is left and is kept cut to that.
  The others are lost.
\<close>

definition cut_texts :: "truncation_policy \<Rightarrow> nat \<Rightarrow> ustr list \<Rightarrow> ustr list \<Rightarrow> nat \<Rightarrow> bool" where
  "cut_texts policy budget texts kept lost \<longleftrightarrow>
     (\<exists>k tail. let used = (\<lambda>j. sum_list (map (text_cost policy) (take j texts))) in
       kept = take k texts @ tail \<and> k + length tail + lost = length texts
       \<and> used k \<le> budget \<and> (\<forall>j < k. used j < budget)
       \<and> (if k = length texts \<or> used k = budget then tail = []
          else budget < used k + text_cost policy (texts ! k)
            \<and> (\<exists>snippet. tail = [snippet] \<and> snippet \<noteq> []
                 \<and> truncate_text (texts ! k) (with_budget policy (budget - used k)) = Ok snippet)))"

lemma cut_texts_exhausted: "cut_texts policy 0 texts [] (length texts)"
  by (auto simp: cut_texts_def intro!: exI [of _ 0])

lemma cut_texts_none: "cut_texts policy budget [] [] 0"
  by (auto simp: cut_texts_def intro!: exI [of _ 0])

lemma cut_texts_snippet:
  assumes "truncate_text t (with_budget policy budget) = Ok snippet" "snippet \<noteq> []" "0 < budget" "budget < text_cost policy t"
  shows "cut_texts policy budget (t # texts) [snippet] (length texts)"
  using assms by (auto simp: cut_texts_def intro!: exI [of _ 0])

lemma cut_texts_whole:
  assumes "cut_texts policy (budget - text_cost policy t) texts kept lost" "text_cost policy t \<le> budget" "0 < budget"
  shows "cut_texts policy budget (t # texts) (t # kept) lost"
proof -
  let ?used = "\<lambda>j. sum_list (map (text_cost policy) (take j texts))"
  from assms(1) obtain k tail where k: "kept = take k texts @ tail" "k + length tail + lost = length texts"
    "?used k \<le> budget - text_cost policy t" "\<forall>j < k. ?used j < budget - text_cost policy t"
    "if k = length texts \<or> ?used k = budget - text_cost policy t then tail = []
     else budget - text_cost policy t < ?used k + text_cost policy (texts ! k)
       \<and> (\<exists>snippet. tail = [snippet] \<and> snippet \<noteq> []
            \<and> truncate_text (texts ! k) (with_budget policy (budget - text_cost policy t - ?used k)) = Ok snippet)"
    unfolding cut_texts_def Let_def by blast
  have "\<forall>j < Suc k. sum_list (map (text_cost policy) (take j (t # texts))) < budget"
    using k(4) assms(2,3) by (auto simp: less_Suc_eq_0_disj)
  with k assms(2) show ?thesis
    unfolding cut_texts_def Let_def by (intro exI [of _ "Suc k"] exI [of _ tail]) (auto split: if_splits)
qed

lemma texts_of_other [simp]: "texts_of (other_items items) = []"
  by (induction items) (simp_all add: List.map_filter_simps)

lemma truncate_items_loop_spec:
  assumes "\<forall>t \<in> set (texts_of items). byte_len t \<le> usize_max"
  shows "\<exists>kept lost. truncate_items_loop policy remaining omitted out items = Ok (out @ kept, omitted + lost)
    \<and> other_items kept = other_items items \<and> cut_texts policy remaining (texts_of items) (texts_of kept) lost
    \<and> (sum_list (map (text_cost policy) (texts_of items)) < remaining \<longrightarrow> kept = items \<and> lost = 0)"
  using assms
proof (induction items arbitrary: remaining out)
  case Nil
  show ?case using cut_texts_none by (intro exI [of _ "[]"] exI [of _ 0]) (simp add: List.map_filter_simps)
next
  case (Cons i items)
  have "\<forall>t \<in> set (texts_of items). byte_len t \<le> usize_max"
    using Cons.prems by (cases "item_text i") (simp_all add: List.map_filter_simps)
  note IH = Cons.IH [OF this]
  show ?case
  proof (cases "item_text i")
    case None
    then have step: "truncate_items_loop policy remaining omitted out (i # items) =
        truncate_items_loop policy remaining omitted (out @ [i]) items" by (cases i) simp_all
    from IH [of remaining "out @ [i]"] obtain kept lost where
      "truncate_items_loop policy remaining omitted (out @ [i]) items = Ok ((out @ [i]) @ kept, omitted + lost)"
      "other_items kept = other_items items" "cut_texts policy remaining (texts_of items) (texts_of kept) lost"
      "sum_list (map (text_cost policy) (texts_of items)) < remaining \<longrightarrow> kept = items \<and> lost = 0" by blast
    with None step show ?thesis
      by (intro exI [of _ "i # kept"] exI [of _ lost]) (simp add: List.map_filter_simps)
  next
    case (Some t)
    then have i: "i = OutInputText t" by (cases i) simp_all
    consider "remaining = 0" | "0 < remaining" "text_cost policy t \<le> remaining" | "0 < remaining" "remaining < text_cost policy t"
      by linarith
    then show ?thesis
    proof cases
      case 1
      then show ?thesis
        using cut_texts_exhausted [of policy "texts_of (i # items)"]
        by (intro exI [of _ "other_items items"] exI [of _ "length (texts_of (i # items))"])
          (simp add: exhausted_loop i List.map_filter_simps)
    next
      case 2
      from IH [of "remaining - text_cost policy t" "out @ [i]"] obtain kept lost where
        "truncate_items_loop policy (remaining - text_cost policy t) omitted (out @ [i]) items = Ok ((out @ [i]) @ kept, omitted + lost)"
        "other_items kept = other_items items"
        "cut_texts policy (remaining - text_cost policy t) (texts_of items) (texts_of kept) lost"
        "sum_list (map (text_cost policy) (texts_of items)) < remaining - text_cost policy t \<longrightarrow> kept = items \<and> lost = 0"
        by blast
      with 2 show ?thesis
        using cut_texts_whole by (intro exI [of _ "i # kept"] exI [of _ lost]) (simp add: i List.map_filter_simps)
    next
      case 3
      have "byte_len t \<le> usize_max" using Cons.prems by (simp add: i List.map_filter_simps)
      then obtain snippet where snip: "truncate_text t (with_budget policy remaining) = Ok snippet"
        using truncate_text_ok by blast
      have "t \<noteq> []" using 3(2) by (cases policy) (auto simp: approx_token_count_def saturating_add_def APPROX_BYTES_PER_TOKEN_def usize_max_def)
      with snip have "snippet \<noteq> []" by (rule truncated_text_nonempty)
      with 3 snip cut_texts_snippet [OF snip _ 3] show ?thesis
        by (intro exI [of _ "OutInputText snippet # other_items items"] exI [of _ "length (texts_of items)"])
          (simp add: exhausted_loop i List.map_filter_simps)
    qed
  qed
qed

text \<open>
  C26: truncating the items of a tool result never panics and drops nothing but text. Images and encrypted
  items come out as they went in, in order. The texts (of machine-sized length) are kept whole, in order, as long as some
  of the budget is left and they fit in it; the first that costs more than what is left is kept cut to it, the rest is
  dropped, and a closing notice says how many. With room to spare nothing changes.
\<close>

theorem truncated_items_keep_rest:
  assumes "\<forall>t \<in> set (List.map_filter item_text items). byte_len t \<le> usize_max"
  shows "\<exists>kept lost. truncate_function_output_items_with_policy items policy =
      Ok (kept @ (if lost = 0 then [] else [OutInputText (omitted_notice lost)]))
    \<and> filter (\<lambda>i. item_text i = None) kept = filter (\<lambda>i. item_text i = None) items
    \<and> cut_texts policy (policy_budget policy) (List.map_filter item_text items) (List.map_filter item_text kept) lost
    \<and> (sum_list (map (text_cost policy) (List.map_filter item_text items)) < policy_budget policy \<longrightarrow> kept = items \<and> lost = 0)"
proof -
  from truncate_items_loop_spec [OF assms, of policy "policy_budget policy" 0 "[]"] obtain kept lost where
    "truncate_items_loop policy (policy_budget policy) 0 [] items = Ok (kept, lost)"
    "other_items kept = other_items items" "cut_texts policy (policy_budget policy) (texts_of items) (texts_of kept) lost"
    "sum_list (map (text_cost policy) (texts_of items)) < policy_budget policy \<longrightarrow> kept = items \<and> lost = 0" by auto
  then show ?thesis
    by (intro exI [of _ kept] exI [of _ lost]) (simp add: truncate_function_output_items_with_policy_def)
qed

theorem truncated_items_keep_rest_witness:
  "let items = [OutInputText [97, 98], OutInputImage [99] None, OutInputText [100, 101, 102], OutInputText [103]] in
   \<exists>kept lost. truncate_function_output_items_with_policy items (Bytes 4) =
      Ok (kept @ (if lost = 0 then [] else [OutInputText (omitted_notice lost)]))
    \<and> filter (\<lambda>i. item_text i = None) kept = [OutInputImage [99] None]
    \<and> cut_texts (Bytes 4) 4 [[97, 98], [100, 101, 102], [103]] (List.map_filter item_text kept) lost"
proof -
  let ?items = "[OutInputText [97, 98], OutInputImage [99] None, OutInputText [100, 101, 102], OutInputText [103]]"
  have "\<forall>t \<in> set (List.map_filter item_text ?items). byte_len t \<le> usize_max"
    by (simp add: List.map_filter_simps utf8_len_def usize_max_def)
  from truncated_items_keep_rest [OF this, of "Bytes 4"] obtain kept lost where
    "truncate_function_output_items_with_policy ?items (Bytes 4) =
      Ok (kept @ (if lost = 0 then [] else [OutInputText (omitted_notice lost)]))"
    "filter (\<lambda>i. item_text i = None) kept = filter (\<lambda>i. item_text i = None) ?items"
    "cut_texts (Bytes 4) (policy_budget (Bytes 4)) (List.map_filter item_text ?items) (List.map_filter item_text kept) lost"
    by (elim exE conjE)
  then show ?thesis
    unfolding Let_def by (intro exI [of _ kept] exI [of _ lost]) (simp add: List.map_filter_simps)
qed

end
