(* ===== verification/Spec2Isabelle.thy ===== *)
theory Spec2Isabelle
  imports Patch_Safety Streaming_Parser Policy_Manager Network_Proxy Config_Merge Approval_Store Network_Access Bwrap_Safety
    Truncation
begin

text \<open>
  A verification development for the Rust workspace \<open>codex-rs\<close>, a coding agent that edits files
  and runs commands on a user's machine. The theories model the parts of the program that decide
  what is changed, what is run, what may be read and written, and which hosts may be reached. All
  paths below are under \<open>src/codex-rs\<close>.

  How the parts interact. A model proposes a patch or a command. A patch is recognised
  (\<open>Invocation\<close>), parsed and verified, judged (\<open>Patch_Safety\<close>) and applied; a command is split into plain
  commands, judged by the execution policy and by heuristics, and gets an approval requirement
  (\<open>Exec_Approval\<close>). The orchestrator (\<open>Tool_Orchestrator\<close>) takes the requirement, asks hooks, guardian or user,
  chooses a sandbox from the permission profile of the turn, runs the tool and may retry it. While the
  tool runs, its connections go through the network proxy (\<open>Network_Access\<close>), whose decider may ask through the
  approval service (\<open>Network_Approval\<close>). Rules, permissions and proxy settings come from layers of configuration
  (\<open>Config_Layers\<close>, \<open>Config_Merge\<close>) and are bounded by managed requirements.

  Basis.

  \<^item> \<open>Prelude\<close>: Rust strings as lists of code points (\<open>ustr\<close>), the outcomes \<open>Ok\<close>, \<open>Err\<close> and \<open>Panic\<close>
    of a fallible operation, string, slice and integer operations of the standard library with their panics.
  \<^item> \<open>Absolute_Path\<close> (\<open>utils/absolute-path\<close>): resolution gives normal absolute paths.

  The patch engine, crate \<open>apply-patch\<close>.

  \<^item> \<open>Patch_Parser\<close> (\<open>parser.rs\<close>): the parser never panics, returns well-formed hunks, inverts a
    printer, reads patches wrapped in here-documents and reports lines of the patch in errors.
  \<^item> \<open>Streaming_Parser\<close> (\<open>streaming_parser.rs\<close>): the incremental parser as a state machine with
    its reachable states and invariant; how the text is cut does not matter, and on printed
    patches it agrees with the batch parser.
  \<^item> \<open>Seek_Sequence\<close> (\<open>seek_sequence.rs\<close>): when the search fails, which hit it returns, and the
    locale \<open>line_search\<close>, the contract that the replacements rely on.
  \<^item> \<open>Patch_Apply\<close> (text part of \<open>lib.rs\<close>): the replacements are sorted and disjoint for chunks
    without pure additions, editing back to front is one forward splice, and nothing panics.
  \<^item> \<open>Patch_Commit\<close>, \<open>Patch_Footprint\<close> (file part of \<open>lib.rs\<close>): the delta of a run, failed or not, replays and undoes
    what happened while it is marked exact; only the paths of the hunks are touched.
  \<^item> \<open>Invocation\<close> (\<open>invocation.rs\<close>): recognition and verification of \<open>apply_patch\<close> calls.
  \<^item> \<open>Patch_Safety\<close> (\<open>core/src/safety.rs\<close>, \<open>core/src/apply_patch.rs\<close>): a patch that runs without a question
    writes only where the policy lets it write.

  Commands.

  \<^item> \<open>Bash_Script\<close>, \<open>Command_Safety\<close> (crate \<open>shell-command\<close>): a script is split only if nothing is lost, and no command is
    both known safe and dangerous.
  \<^item> \<open>Exec_Policy\<close>, \<open>Policy_Parser\<close>, \<open>Policy_Manager\<close> (crate \<open>execpolicy\<close>, \<open>core/src/exec_policy.rs\<close>): verdicts are the
    strictest of the matching rules, overlays never relax (locale \<open>overlaid_rules\<close>), policy files build well-formed
    policies whose examples hold, amendments take effect and are recorded, managed requirements stay in force.
  \<^item> \<open>Approval_Policy\<close>, \<open>Exec_Approval\<close> (\<open>core/src/exec_policy.rs\<close>): the approval requirement of a command, by cases.
  \<^item> \<open>Tool_Orchestrator\<close> (\<open>core/src/tools/orchestrator.rs\<close>, \<open>tools/sandboxing.rs\<close>, \<open>sandboxing/src/manager.rs\<close>): denied
    reads keep every attempt in the sandbox, leaving the sandbox needs consent, strict review covers each attempt, a refusal ends
    the run, no registration with the network service is left behind.
  \<^item> \<open>Approval_Store\<close> (\<open>tools/runtimes\<close>, \<open>core/src/command_canonicalization.rs\<close>): an approval for the session is never assumed.

  \<^item> \<open>Truncation\<close> (\<open>utils/string/src/truncate.rs\<close>, \<open>utils/output-truncation\<close>, \<open>core/src/context_manager/history.rs\<close>): the output of a
    tool is cut to a budget before the model sees it; a cut falls on character boundaries and is reported, and items
    that are not text are kept.

  Permissions.

  \<^item> \<open>Permissions\<close>, \<open>Sandbox_Profiles\<close>, \<open>Read_Deny\<close> (\<open>protocol/src/permissions.rs\<close>, \<open>models.rs\<close>, \<open>protocol.rs\<close>): the most
    specific entry decides, workspaces confine writes, metadata directories stay protected, legacy
    policies round trip, denied reads are refused by the matcher.
  \<^item> \<open>Policy_Transforms\<close> (\<open>sandboxing/src/policy_transforms.rs\<close>): a grant is confined by its request, an overlay opens what it names.
  \<^item> \<open>Bwrap_Mounts\<close>, \<open>Bwrap_Safety\<close> (\<open>linux-sandbox/src/bwrap.rs\<close>): the policy turned into bubblewrap mounts, one
    \<open>bwrap_op\<close> per mount in their order; the last mount over a path writes or shows it only where the policy permits, and paths
    that could be redirected make the construction fail. The lemmas describe the list of mounts as a base, masks, one segment per
    writable root and more masks, and find the last mount in it. What they assume of the host is \<open>plain_fs\<close>: no symbolic links.

  Configuration.

  \<^item> \<open>Config_Layers\<close>, \<open>Config_Merge\<close> (crate \<open>config\<close>): stacks stay ordered, a setting has the value of the highest
    layer that sets it.

  Network.

  \<^item> \<open>Network_Hosts\<close>, \<open>Network_Proxy\<close> (\<open>network-proxy/src/policy.rs\<close>, \<open>config.rs\<close>, \<open>state.rs\<close>, \<open>runtime.rs\<close>): domain patterns as sets of
    hosts, address ranges, the shared state under every interleaving of updates and reloads.
  \<^item> \<open>Mitm_Hooks\<close> (\<open>mitm_hook.rs\<close>): compiled hooks refine what the configuration says.
  \<^item> \<open>Network_Access\<close> (\<open>http_proxy.rs\<close>, \<open>socks5.rs\<close>, \<open>mitm.rs\<close>, \<open>network_policy.rs\<close>, \<open>connect_policy.rs\<close>, \<open>upstream.rs\<close>): nothing passes a front end
    unchecked, managed denials hold at every entrance, refusals are recorded, intercepted requests and
    secrets go only to their target, the clean-up of headers ends.
  \<^item> \<open>Network_Approval\<close> (\<open>core/src/tools/network_approval.rs\<close>): the approval service as a machine whose steps interleave; access
    needs an answer for that very host, one question is asked per host, every request is answered.

  This theory holds a property of the whole path from the text that is judged to the files.

  Code outside the repository is an argument of the definitions that use it: the file system and
  the writers of a patch run, the unified diff of the crate \<open>similar\<close>, the parse trees and queries of
  tree-sitter, the calls that the Starlark evaluator makes for a policy file, \<open>shlex\<close>, \<open>serde_json\<close>, glob matchers, the
  URL parser, DNS, the \<open>http\<close> crate's headers, the process environment, the home and the working
  directory. So are the tools, hooks, reviewers and users that the orchestrator calls, as functions over an
  arbitrary world. Where a property relies on such code its hypotheses say so (\<open>alias_free\<close> for file systems, \<open>env_ok\<close> for
  the host, \<open>header_map_ok\<close> for headers), and a witness instantiates them.

  Concurrency is explicit where the code has it: the proxy state and the approval service are step
  relations, and a proxy request sees an arbitrary state at each of its accesses. All loops of
  the modelled code end, so the operations are total functions without fuel; the loop over \<open>Connection\<close>
  headers, whose end depends on the map of headers, is a partial function that is proved to return. Strings are
  lists of code points: byte offsets occur in the modelled code at prefixes and
  suffixes that the operations of the \<open>Prelude\<close> express directly, and in \<open>Truncation\<close>, where the offset of a slice
  counts bytes of the encoding and an offset inside a character panics. The conditional compilation is
  that of Linux, except where the operating system is an argument.

  Not modelled: the Windows command lists, the sandboxes themselves and their command lines on other
  systems than Linux, TLS and certificates, forwarding of bytes, audit events and telemetry, the user interfaces, servers and
  model clients, the turn loop, persistence and the loading of configuration files, which are I/O or
  glue around the modelled parts.
\<close>

section \<open>From the judged text to the files\<close>

text \<open>
  A printed patch that is streamed in any pieces is previewed with the hunks that \<open>apply_patch\<close> runs on the whole text.
\<close>

lemma streamed_patch_applied:
  assumes "\<forall>h \<in> set hs. hunk_ok h \<and> stream_hunk_ok h" "env_option_ok env"
    and "concat ds = render_patch env hs"
  shows "\<exists>p. push_deltas default_parser ds = (Ok hs, p) \<and> fst (finish p) = Ok hs
    \<and> apply_patch ops wr home cwd (concat ds) stdout stderr s =
        apply_hunks ops wr home cwd hs stdout stderr s"
  using stream_render_patch [OF assms(1,2)] parse_rendered_patch [of hs env] assms
  by (auto simp: push_deltas_eq apply_patch_def)

text \<open>The delta of a run of \<open>apply_patch\<close>, failed or not.\<close>

fun result_delta :: "(applied_patch_delta, apply_patch_failure) outcome \<Rightarrow> applied_patch_delta option" where
  "result_delta (Ok d) = Some d"
| "result_delta (Err f) = Some (failure_delta f)"
| "result_delta Panic = None"

lemma apply_hunks_run:
  assumes "apply_hunks ops wr home cwd hs stdout stderr s = (r, stdout', stderr', s')"
  obtains x st where "apply_hunks_to_files ops home cwd hs empty_delta s = (x, st)" "s' = fs st" "result_delta r = Some (delta st)"
  using assms apply_hunks_to_files_no_panic [of ops home cwd hs empty_delta s]
  by (fastforce simp: apply_hunks_def split: prod.splits outcome.splits option.splits)

text \<open>
  C40: the text that is applied is the text that was judged. A patch is parsed, verified and let through without a question; the
  runtime then gets only the text that the action keeps and parses it again. For a patch without carriage returns
  whose hunks name distinct files, under any approval mode but \<open>OnFailure\<close>, that run of \<open>apply_patch\<close>, whatever the files
  have become and whether or not it succeeds, records changes only of paths that the sandbox policy lets the agent write. No file that the
  policy protects has another text afterwards while the record is exact, and where no file has two names also when it is not.
\<close>

theorem approved_text_confined:
  assumes "alias_free ops" "is_absolute cwd"
    and "parse_patch body = Ok source" "carriage_return \<notin> set body"
    and "verify_apply_patch_args ops diff home s cwd (source\<lparr>workdir := wd\<rparr>) = Ok (VerifiedBody action)"
    and "distinct (map (\<lambda>h. hunk_resolve_path home h (action_cwd action)) (hunks source))"
    and "core_apply_patch env os approval profile windows_sandbox_enabled policy action =
           DelegateToRuntime action auto_approved (Skip bypass_sandbox amendment)"
    and "approval \<noteq> OnFailure"
    and "apply_patch ops wr home (action_cwd action) (action_patch action) stdout stderr s1 = (r, stdout', stderr', s2)"
  shows "\<exists>d. result_delta r = Some d
    \<and> (\<forall>c \<in> set (changes d). \<forall>p \<in> change_targets c. can_write_path_with_cwd env policy p (action_cwd action))
    \<and> (exact d \<or> local_effects ops \<longrightarrow>
         (\<forall>q. \<not> can_write_path_with_cwd env policy q (action_cwd action) \<longrightarrow> text_view ops s2 q = text_view ops s1 q))"
proof -
  have "action_patch action = patch source"
    using assms(5) by (auto simp: verify_apply_patch_args_def Let_def split: outcome.splits)
  moreover obtain t where "parse_patch (patch source) = Ok (source\<lparr>patch := t\<rparr>)"
    using reparse [OF assms(3,4)] by blast
  ultimately have "apply_hunks ops wr home (action_cwd action) (hunks source) stdout stderr s1 = (r, stdout', stderr', s2)"
    using assms(9) by (simp add: apply_patch_def)
  then obtain x st where run: "apply_hunks_to_files ops home (action_cwd action) (hunks source) empty_delta s1 = (x, st)"
    and st: "s2 = fs st" "result_delta r = Some (delta st)" by (rule apply_hunks_run)
  have "apply_hunks_to_files ops home (action_cwd action) (hunks (source\<lparr>workdir := wd\<rparr>)) empty_delta s1 = (x, st)"
    using run by simp
  from approved_run_confined [OF assms(1,2,5) _ assms(7,8) this] assms(6) st show ?thesis by simp
qed

text \<open>A patch in a here-document that moves a file inside the project.\<close>

definition wrapped_patch :: ustr where
  "wrapped_patch = str ''<<EOF'' @ newline # render_patch None [rename_hunk ''a'' ''./b''] @ newline # str ''EOF''"

definition wrapped_action :: apply_patch_action where
  "wrapped_action = \<lparr>action_changes =
     [(str ''/w/a'', FileUpdate (str ''x'' @ [10]) (Some (str ''/w/b'')) (str ''y'' @ [10]))],
     action_patch = render_patch None [rename_hunk ''a'' ''./b''], action_cwd = str ''/w''\<rparr>"

theorem approved_text_confined_witness:
  "let s = [str ''/w/a'' \<mapsto> str ''x'' @ [10], str ''/etc/d'' \<mapsto> []];
       run = apply_patch mem_fs (\<lambda>w t. (None, w @ t)) None (str ''/w'') (action_patch wrapped_action) [] [] s
   in (\<exists>d. result_delta (fst run) = Some d) \<and> text_view mem_fs (snd (snd (snd run))) (str ''/etc/d'') = Some []"
proof -
  let ?s = "[str ''/w/a'' \<mapsto> str ''x'' @ [10], str ''/etc/d'' \<mapsto> []]"
  let ?run = "apply_patch mem_fs (\<lambda>w t. (None, w @ t)) None (action_cwd wrapped_action) (action_patch wrapped_action) [] [] ?s"
  let ?source = "\<lparr>patch = render_patch None [rename_hunk ''a'' ''./b''], hunks = [rename_hunk ''a'' ''./b''],
    workdir = None, environment_id = None\<rparr>"
  have cwd: "is_absolute (str ''/w'')" "action_cwd wrapped_action = str ''/w''" by code_simp+
  have parse: "parse_patch wrapped_patch = Ok ?source" "carriage_return \<notin> set wrapped_patch" by code_simp+
  have ver: "verify_apply_patch_args mem_fs (\<lambda>_ a _. a) None ?s (str ''/w'') (?source\<lparr>workdir := None\<rparr>) = Ok (VerifiedBody wrapped_action)"
    by code_simp
  have app: "core_apply_patch plain_host Linux Never (Managed (ManagedRestricted (sandbox_entries project_policy) None) NetworkRestricted) False
      project_policy wrapped_action = DelegateToRuntime wrapped_action True (Skip False None)"
    by code_simp
  have distinct: "distinct (map (\<lambda>h. hunk_resolve_path None h (action_cwd wrapped_action)) (hunks ?source))" by code_simp
  have prot: "\<not> can_write_path_with_cwd plain_host project_policy (str ''/etc/d'') (action_cwd wrapped_action)" by code_simp
  obtain r o1 o2 s2 where run: "?run = (r, o1, o2, s2)" by (metis prod_cases4)
  from approved_text_confined [OF alias_free_mem_fs cwd(1) parse ver distinct app _ run] local_effects_mem_fs prot
  show ?thesis by (auto simp: run [unfolded cwd(2)])
qed

end
